(* ===== verification/Awase_Prelude.thy ===== *)
theory Awase_Prelude
  imports Main "HOL-Library.Word" "HOL-Library.Monad_Syntax"
begin

text \<open>
  Shared vocabulary of the Awase development: the machine integers and byte buffers of
  the C sources, the errno values the drivers return, little-endian encoding of integers
  into byte buffers (the kernel modules are built for amd64, and the wire structures are
  copied with \<^verbatim>\<open>memcpy\<close>), and the generic facts about lists, options and words that
  the component theories use.
\<close>

unbundle bit_operations_syntax

section \<open>Machine integers and buffers\<close>

type_synonym byte = "8 word"
type_synonym u16 = "16 word"
type_synonym u32 = "32 word"
type_synonym u64 = "64 word"
type_synonym buf = "byte list"

text \<open>C \<^verbatim>\<open>int\<close> error codes, with the numbers of FreeBSD's \<^verbatim>\<open>errno.h\<close>.\<close>

type_synonym errno = nat

abbreviation (input) EPERM :: errno where "EPERM \<equiv> 1"
abbreviation (input) ENOENT :: errno where "ENOENT \<equiv> 2"
abbreviation (input) ENXIO :: errno where "ENXIO \<equiv> 6"
abbreviation (input) ENOMEM :: errno where "ENOMEM \<equiv> 12"
abbreviation (input) EFAULT :: errno where "EFAULT \<equiv> 14"
abbreviation (input) EBUSY :: errno where "EBUSY \<equiv> 16"
abbreviation (input) ENODEV :: errno where "ENODEV \<equiv> 19"
abbreviation (input) EINVAL :: errno where "EINVAL \<equiv> 22"
abbreviation (input) ENOTTY :: errno where "ENOTTY \<equiv> 25"
abbreviation (input) EFBIG :: errno where "EFBIG \<equiv> 27"
abbreviation (input) ENOSPC :: errno where "ENOSPC \<equiv> 28"
abbreviation (input) EWOULDBLOCK :: errno where "EWOULDBLOCK \<equiv> 35"
abbreviation (input) EPROTONOSUPPORT :: errno where "EPROTONOSUPPORT \<equiv> 43"
abbreviation (input) EOPNOTSUPP :: errno where "EOPNOTSUPP \<equiv> 45"

text \<open>What a probe that accepts a device returns.\<close>

abbreviation (input) BUS_PROBE_DEFAULT :: int where "BUS_PROBE_DEFAULT \<equiv> - 20"

text \<open>What a module's event handler is told; the third stands for every other event.\<close>

datatype modevent = MOD_LOAD | MOD_UNLOAD | MOD_OTHER

section \<open>Collections of facts\<close>

named_theorems wire_simps \<open>lengths and layouts of encoded structures\<close>
named_theorems frame_simps \<open>which fields an operation leaves alone\<close>
named_theorems inv_intros \<open>operations keep an invariant\<close>

section \<open>Words\<close>

lemma unat_lt_size: "unat (w :: 'n::len word) < 2 ^ LENGTH('n)"
  by (rule unsigned_less)

lemma unat_of_nat_small: "n < 2 ^ LENGTH('n) \<Longrightarrow> unat (of_nat n :: 'n::len word) = n"
  by (simp add: unat_of_nat)

lemma sint_half: "sint (v div 2 :: u32) = uint v div 2"
proof -
  have "signed_take_bit 31 (uint v div 2) = uint v div 2"
  proof (rule signed_take_bit_int_eq_self)
    show "- (2 ^ 31) \<le> uint v div 2" by (rule order_trans [of _ 0]) simp_all
    show "uint v div 2 < 2 ^ 31" using uint_lt2p [of v] by simp
  qed
  then show ?thesis by (simp add: sint_uint uint_div)
qed

lemma unat_ucast_mod: "unat (ucast (w :: 'a::len word) :: 'b::len word) = unat w mod 2 ^ LENGTH('b)"
  by (simp add: unsigned_ucast_eq take_bit_eq_mod)

lemma unat_ucast_up:
  "LENGTH('a) \<le> LENGTH('b) \<Longrightarrow> unat (ucast (w :: 'a::len word) :: 'b::len word) = unat w"
proof -
  assume l: "LENGTH('a) \<le> LENGTH('b)"
  have "unat w < 2 ^ LENGTH('b)"
    by (rule less_le_trans [OF unat_lt_size power_increasing [OF l]]) simp
  then show ?thesis by (simp add: unat_ucast_mod)
qed

lemma of_nat_unat_eq: "unat (w :: 'a::len word) = n \<Longrightarrow> w = of_nat n"
  by auto

lemma unat_add_no_wrap: "unat a + unat b < 2 ^ LENGTH('n) \<Longrightarrow>
    unat (a + b :: 'n::len word) = unat a + unat b"
  by (simp add: unat_word_ariths)

lemma unat_sub_no_wrap: "b \<le> a \<Longrightarrow> unat (a - b :: 'n::len word) = unat a - unat b"
  by (rule unat_sub)

lemma unat_inc_no_wrap:
  "unat a + 1 < 2 ^ LENGTH('n) \<Longrightarrow> unat (a + 1 :: 'n::len word) = unat a + 1"
  using unat_add_no_wrap [of a 1] by simp

lemma unat_inc_ne: "w \<noteq> - 1 \<Longrightarrow> unat (w + 1 :: 'n::len word) = unat w + 1"
  by (metis add.commute unatSuc eq_neg_iff_add_eq_0 Suc_eq_plus1)

text \<open>Clearing the low bits rounds down to a multiple of a power of two.\<close>

lemma and_not_mask: "(x :: 'n::len word) AND NOT (mask k) = push_bit k (drop_bit k x)"
  by (rule bit_eqI) (auto simp add: bit_simps)

lemma unat_and_not_mask:
  "unat ((x :: 'n::len word) AND NOT (mask k)) = unat x div 2 ^ k * 2 ^ k"
proof -
  have l: "unat x div 2 ^ k * 2 ^ k < 2 ^ LENGTH('n)"
    using unat_lt_size [of x] div_times_less_eq_dividend le_less_trans by blast
  have "unat (drop_bit k x) = drop_bit k (unat x)"
    by (simp add: unsigned_drop_bit_eq take_bit_nat_eq_self [OF unat_lt_size])
  then have d: "unat (drop_bit k x) = unat x div 2 ^ k" by (simp only: drop_bit_eq_div)
  have "unat (push_bit k (drop_bit k x))
      = take_bit LENGTH('n) (push_bit k (unat (drop_bit k x)))"
    by (rule unsigned_push_bit_eq)
  also have "\<dots> = unat x div 2 ^ k * 2 ^ k"
    using l unfolding d push_bit_eq_mult by (rule take_bit_nat_eq_self)
  finally show ?thesis by (simp only: and_not_mask)
qed

lemma unat_and_mask: "unat ((x :: 'n::len word) AND mask k) = unat x mod 2 ^ k"
  by (simp flip: take_bit_eq_mask take_bit_eq_mod add: unsigned_take_bit_eq)

section \<open>Signed integers\<close>

text \<open>
  Signed C integers as \<open>int\<close>, with the wrap-around of the kernel's two's complement
  arithmetic (the kernel is built with \<^verbatim>\<open>-fwrapv\<close>) written out, division that truncates
  towards zero, and the arithmetic right shift, which is division rounding down.
\<close>

definition wrap32 :: "int \<Rightarrow> int" where "wrap32 x = (x + 2 ^ 31) mod 2 ^ 32 - 2 ^ 31"
definition wrap64 :: "int \<Rightarrow> int" where "wrap64 x = (x + 2 ^ 63) mod 2 ^ 64 - 2 ^ 63"

definition cdiv :: "int \<Rightarrow> int \<Rightarrow> int" where
  "cdiv a b = (if 0 \<le> a \<longleftrightarrow> 0 \<le> b then \<bar>a\<bar> div \<bar>b\<bar> else - (\<bar>a\<bar> div \<bar>b\<bar>))"

definition shr :: "int \<Rightarrow> nat \<Rightarrow> int" where "shr x n = x div 2 ^ n"

abbreviation is32 :: "int \<Rightarrow> bool" where "is32 x \<equiv> - (2 ^ 31) \<le> x \<and> x < 2 ^ 31"
abbreviation is64 :: "int \<Rightarrow> bool" where "is64 x \<equiv> - (2 ^ 63) \<le> x \<and> x < 2 ^ 63"

lemma wrap32_id: "is32 x \<Longrightarrow> wrap32 x = x"
  by (simp add: wrap32_def mod_pos_pos_trivial)

lemma wrap64_id: "is64 x \<Longrightarrow> wrap64 x = x"
  by (simp add: wrap64_def mod_pos_pos_trivial)

lemma wrap32_range: "is32 (wrap32 x)"
  unfolding wrap32_def
  using pos_mod_bound [of "2 ^ 32" "x + 2 ^ 31"] pos_mod_sign [of "2 ^ 32" "x + 2 ^ 31"] by simp

lemma wrap64_range: "is64 (wrap64 x)"
  unfolding wrap64_def
  using pos_mod_bound [of "2 ^ 64" "x + 2 ^ 63"] pos_mod_sign [of "2 ^ 64" "x + 2 ^ 63"] by simp

lemma cdiv_nonneg: "0 \<le> a \<Longrightarrow> 0 < b \<Longrightarrow> cdiv a b = a div b"
  by (simp add: cdiv_def)

lemma cdiv_bounds:
  assumes "0 < b"
  shows "- \<bar>a\<bar> \<le> cdiv a b" "cdiv a b \<le> \<bar>a\<bar>"
proof -
  have "\<bar>a\<bar> div \<bar>b\<bar> \<le> \<bar>a\<bar> div 1" using assms by (intro zdiv_mono2) auto
  moreover have "0 \<le> \<bar>a\<bar> div \<bar>b\<bar>" using assms by (simp add: pos_imp_zdiv_nonneg_iff)
  ultimately show "- \<bar>a\<bar> \<le> cdiv a b" "cdiv a b \<le> \<bar>a\<bar>" by (auto simp: cdiv_def)
qed

lemma shr_between:
  assumes "lo * 2 ^ n \<le> x" "x \<le> hi * 2 ^ n"
  shows "lo \<le> shr x n" "shr x n \<le> hi"
proof -
  have "lo * 2 ^ n div 2 ^ n \<le> x div 2 ^ n" by (rule zdiv_mono1 [OF assms(1)]) simp
  then show "lo \<le> shr x n" by (simp add: shr_def)
  have "x div 2 ^ n \<le> hi * 2 ^ n div 2 ^ n" by (rule zdiv_mono1 [OF assms(2)]) simp
  then show "shr x n \<le> hi" by (simp add: shr_def)
qed

section \<open>Little-endian integers\<close>

text \<open>The bytes of an integer, least significant first, and back.\<close>

fun le_of_nat :: "nat \<Rightarrow> nat \<Rightarrow> buf" where
  "le_of_nat 0 n = []"
| "le_of_nat (Suc k) n = of_nat n # le_of_nat k (n div 256)"

fun nat_of_le :: "buf \<Rightarrow> nat" where
  "nat_of_le [] = 0"
| "nat_of_le (b # bs) = unat b + 256 * nat_of_le bs"

lemma length_le_of_nat [simp]: "length (le_of_nat k n) = k"
  by (induction k arbitrary: n) auto

lemma nat_of_le_less: "nat_of_le bs < 256 ^ length bs"
proof (induction bs)
  case Nil
  then show ?case by simp
next
  case (Cons b bs)
  have "unat b < 256" using unat_lt_size [of b] by simp
  moreover have "Suc (nat_of_le bs) \<le> 256 ^ length bs" using Cons.IH by simp
  then have "256 * Suc (nat_of_le bs) \<le> 256 * 256 ^ length bs" by (rule mult_le_mono2)
  ultimately show ?case by simp
qed

lemma nat_of_le_le_of_nat: "nat_of_le (le_of_nat k n) = n mod 256 ^ k"
proof (induction k arbitrary: n)
  case 0
  then show ?case by simp
next
  case (Suc k)
  have "unat (of_nat n :: byte) = n mod 256" by (simp add: unat_of_nat)
  then have "nat_of_le (le_of_nat (Suc k) n) = n mod 256 + 256 * (n div 256 mod 256 ^ k)"
    by (simp add: Suc.IH)
  also have "\<dots> = n mod (256 * 256 ^ k)" by (simp add: mod_mult2_eq)
  finally show ?case by simp
qed

lemma le_of_nat_nat_of_le: "length bs = k \<Longrightarrow> le_of_nat k (nat_of_le bs) = bs"
proof (induction bs arbitrary: k)
  case Nil
  then show ?case by simp
next
  case (Cons b bs)
  then obtain k' where k: "k = Suc k'" and len: "length bs = k'" by (cases k) auto
  have b: "unat b < 256" using unat_lt_size [of b] by simp
  have "(unat b + 256 * nat_of_le bs) div 256 = nat_of_le bs" using b by simp
  moreover have "(256 :: byte) = 0" by simp
  then have "(256 :: byte) * of_nat (nat_of_le bs) = 0" by (metis mult_zero_left)
  then have "(of_nat (unat b + 256 * nat_of_le bs) :: byte) = b" by simp
  ultimately show ?case by (simp add: k Cons.IH [OF len])
qed

text \<open>Reading and writing fields of a packed structure at a byte offset.\<close>

definition put16 :: "u16 \<Rightarrow> buf" where "put16 w = le_of_nat 2 (unat w)"
definition put32 :: "u32 \<Rightarrow> buf" where "put32 w = le_of_nat 4 (unat w)"
definition put64 :: "u64 \<Rightarrow> buf" where "put64 w = le_of_nat 8 (unat w)"

definition get16 :: "buf \<Rightarrow> nat \<Rightarrow> u16" where
  "get16 bs off = of_nat (nat_of_le (take 2 (drop off bs)))"
definition get32 :: "buf \<Rightarrow> nat \<Rightarrow> u32" where
  "get32 bs off = of_nat (nat_of_le (take 4 (drop off bs)))"
definition get64 :: "buf \<Rightarrow> nat \<Rightarrow> u64" where
  "get64 bs off = of_nat (nat_of_le (take 8 (drop off bs)))"

lemma length_put [simp, wire_simps]:
  "length (put16 a) = 2" "length (put32 b) = 4" "length (put64 c) = 8"
  by (simp_all add: put16_def put32_def put64_def)

lemma get_put_at:
  "length pre = off \<Longrightarrow> get16 (pre @ put16 a @ post) off = a"
  "length pre = off \<Longrightarrow> get32 (pre @ put32 b @ post) off = b"
  "length pre = off \<Longrightarrow> get64 (pre @ put64 c @ post) off = c"
proof -
  have a: "unat a mod 65536 = unat a" using unat_lt_size [of a] by simp
  have b: "unat b mod 4294967296 = unat b" using unat_lt_size [of b] by simp
  have c: "unat c mod 18446744073709551616 = unat c" using unat_lt_size [of c] by simp
  show "length pre = off \<Longrightarrow> get16 (pre @ put16 a @ post) off = a"
    by (simp add: get16_def put16_def nat_of_le_le_of_nat a)
  show "length pre = off \<Longrightarrow> get32 (pre @ put32 b @ post) off = b"
    by (simp add: get32_def put32_def nat_of_le_le_of_nat b)
  show "length pre = off \<Longrightarrow> get64 (pre @ put64 c @ post) off = c"
    by (simp add: get64_def put64_def nat_of_le_le_of_nat c)
qed

text \<open>
  The same reads at the front of an encoding and after one encoded field: with the
  literal offsets of the structures these rewrite every field access of an encoded
  structure to the field.
\<close>

lemma get_put_front [wire_simps]:
  "get16 (put16 a @ post) 0 = a"
  "get32 (put32 b @ post) 0 = b"
  "get64 (put64 c @ post) 0 = c"
  using get_put_at [of "[]" 0] by simp_all

lemma get_put_only [wire_simps]:
  "get16 (put16 a) 0 = a" "get32 (put32 b) 0 = b" "get64 (put64 c) 0 = c"
  using get_put_front [where post = "[]"] by simp_all

lemma get_skip:
  "length pre \<le> off \<Longrightarrow> get16 (pre @ bs) off = get16 bs (off - length pre)"
  "length pre \<le> off \<Longrightarrow> get32 (pre @ bs) off = get32 bs (off - length pre)"
  "length pre \<le> off \<Longrightarrow> get64 (pre @ bs) off = get64 bs (off - length pre)"
  by (simp_all add: get16_def get32_def get64_def)

lemma get_append_left:
  "off + 2 \<le> length pre \<Longrightarrow> get16 (pre @ bs) off = get16 pre off"
  "off + 4 \<le> length pre \<Longrightarrow> get32 (pre @ bs) off = get32 pre off"
  "off + 8 \<le> length pre \<Longrightarrow> get64 (pre @ bs) off = get64 pre off"
  by (simp_all add: get16_def get32_def get64_def)

lemma get_take:
  "off + 2 \<le> n \<Longrightarrow> get16 (take n bs) off = get16 bs off"
  "off + 4 \<le> n \<Longrightarrow> get32 (take n bs) off = get32 bs off"
  "off + 8 \<le> n \<Longrightarrow> get64 (take n bs) off = get64 bs off"
  by (simp_all add: get16_def get32_def get64_def drop_take min_def)

lemma get_drop:
  "get16 (drop n bs) off = get16 bs (n + off)"
  "get32 (drop n bs) off = get32 bs (n + off)"
  "get64 (drop n bs) off = get64 bs (n + off)"
  by (simp_all add: get16_def get32_def get64_def add.commute)

lemma put_get:
  "off + 2 \<le> length bs \<Longrightarrow> put16 (get16 bs off) = take 2 (drop off bs)"
  "off + 4 \<le> length bs \<Longrightarrow> put32 (get32 bs off) = take 4 (drop off bs)"
  "off + 8 \<le> length bs \<Longrightarrow> put64 (get64 bs off) = take 8 (drop off bs)"
proof -
  have r: "n \<le> length bs - off \<Longrightarrow> nat_of_le (take n (drop off bs)) < 256 ^ n" for n
    using nat_of_le_less [of "take n (drop off bs)"] by (simp add: min_def split: if_splits)
  show "off + 2 \<le> length bs \<Longrightarrow> put16 (get16 bs off) = take 2 (drop off bs)"
    using r [of 2] by (simp add: put16_def get16_def unat_of_nat le_of_nat_nat_of_le)
  show "off + 4 \<le> length bs \<Longrightarrow> put32 (get32 bs off) = take 4 (drop off bs)"
    using r [of 4] by (simp add: put32_def get32_def unat_of_nat le_of_nat_nat_of_le)
  show "off + 8 \<le> length bs \<Longrightarrow> put64 (get64 bs off) = take 8 (drop off bs)"
    using r [of 8] by (simp add: put64_def get64_def unat_of_nat le_of_nat_nat_of_le)
qed

text \<open>\<^verbatim>\<open>memcpy\<close> of \<open>src\<close> over the bytes at \<open>off\<close> of a buffer.\<close>

definition blit :: "buf \<Rightarrow> nat \<Rightarrow> buf \<Rightarrow> buf" where
  "blit bs off src = take off bs @ src @ drop (off + length src) bs"

lemma length_blit [simp]: "off + length src \<le> length bs \<Longrightarrow> length (blit bs off src) = length bs"
  by (simp add: blit_def)

text \<open>
  What a read sees after a store: the stored bytes in the same place, and the old bytes in
  a disjoint one. The bytes of a field and the three field readers follow the same laws.
\<close>

definition field :: "nat \<Rightarrow> nat \<Rightarrow> buf \<Rightarrow> buf" where "field off n bs = take n (drop off bs)"

lemma length_field: "off + n \<le> length bs \<Longrightarrow> length (field off n bs) = n"
  by (simp add: field_def)

lemma field_eq_nthI:
  assumes "length xs = length ys" "\<And>i. off \<le> i \<Longrightarrow> i < off + n \<Longrightarrow> i < length xs \<Longrightarrow> xs ! i = ys ! i"
  shows "field off n xs = field off n ys"
  unfolding field_def using assms by (intro nth_equalityI) auto

lemma nth_blit:
  assumes "off + length src \<le> length bs" "i < length bs"
  shows "blit bs off src ! i
    = (if off \<le> i \<and> i < off + length src then src ! (i - off) else bs ! i)"
  using assms by (auto simp: blit_def nth_append min_def)

lemma field_blit_same:
  "off + length src \<le> length bs \<Longrightarrow> n = length src \<Longrightarrow> field off n (blit bs off src) = src"
  by (simp add: field_def blit_def)

lemma field_blit_other:
  assumes "off + length src \<le> length bs" "a + n \<le> off \<or> off + length src \<le> a"
  shows "field a n (blit bs off src) = field a n bs"
  using assms by (intro field_eq_nthI) (auto simp: nth_blit)

lemma get_field:
  "get16 bs off = of_nat (nat_of_le (field off 2 bs))"
  "get32 bs off = of_nat (nat_of_le (field off 4 bs))"
  "get64 bs off = of_nat (nat_of_le (field off 8 bs))"
  by (simp_all add: field_def get16_def get32_def get64_def)

lemma get_blit_same:
  "off + 2 \<le> length bs \<Longrightarrow> get16 (blit bs off (put16 a)) off = a"
  "off + 4 \<le> length bs \<Longrightarrow> get32 (blit bs off (put32 b)) off = b"
  "off + 8 \<le> length bs \<Longrightarrow> get64 (blit bs off (put64 c)) off = c"
  by (simp_all add: blit_def get_put_at)

lemma get_blit_other:
  assumes "off + length src \<le> length bs"
  shows "a + 2 \<le> off \<or> off + length src \<le> a \<Longrightarrow> get16 (blit bs off src) a = get16 bs a"
    and "a + 4 \<le> off \<or> off + length src \<le> a \<Longrightarrow> get32 (blit bs off src) a = get32 bs a"
    and "a + 8 \<le> off \<or> off + length src \<le> a \<Longrightarrow> get64 (blit bs off src) a = get64 bs a"
  using assms by (simp_all add: get_field field_blit_other)

lemma list_update_blit: "i < length bs \<Longrightarrow> bs[i := v] = blit bs i [v]"
  by (simp add: blit_def upd_conv_take_nth_drop)

lemma blit_blit_adjacent:
  "off + length xs + length ys \<le> length bs \<Longrightarrow>
    blit (blit bs off xs) (off + length xs) ys = blit bs off (xs @ ys)"
  by (simp add: blit_def add_ac)

section \<open>Reading a buffer inside its bounds\<close>

text \<open>\<open>rd\<close> is a \<^verbatim>\<open>memcpy\<close> out of a buffer; a read past its end has no value.\<close>

definition rd :: "buf \<Rightarrow> nat \<Rightarrow> nat \<Rightarrow> buf option" where
  "rd bs off n = (if off + n \<le> length bs then Some (take n (drop off bs)) else None)"

lemma rd_Some [simp]: "off + n \<le> length bs \<Longrightarrow> rd bs off n = Some (take n (drop off bs))"
  by (simp add: rd_def)

section \<open>Structures with a fixed wire layout\<close>

text \<open>
  A packed structure is an encoder with a fixed size and a decoder that reads the
  encoding back, whatever follows it in the buffer. The wire structures of the
  protocols interpret this interface; the lemmas hold for each of them.
\<close>

locale wire_struct =
  fixes enc :: "'a \<Rightarrow> buf"
    and dec :: "buf \<Rightarrow> 'a"
    and size_of :: nat
  assumes enc_length: "length (enc x) = size_of"
    and dec_enc_append: "dec (enc x @ rest) = x"
begin

lemma dec_enc: "dec (enc x) = x"
  using dec_enc_append [of x "[]"] by simp

lemma enc_inject: "enc x = enc y \<longleftrightarrow> x = y"
  by (metis dec_enc)

lemma rd_enc: "length pre = off \<Longrightarrow> rd (pre @ enc x @ post) off size_of = Some (enc x)"
  by (simp add: enc_length)

lemma dec_at: "length pre = off \<Longrightarrow> dec (drop off (pre @ enc x @ post)) = x"
  by (simp add: dec_enc_append)

lemma enc_prefix_free: "enc x @ u = enc y @ v \<Longrightarrow> x = y \<and> u = v"
  by (metis append_eq_append_conv dec_enc enc_length)

end

section \<open>Lists\<close>

lemma sum_list_map_remove1:
  fixes f :: "'a \<Rightarrow> nat"
  shows "x \<in> set xs \<Longrightarrow> sum_list (map f (remove1 x xs)) + f x = sum_list (map f xs)"
  by (induction xs) auto

lemma find_Some_iff_mem: "find P xs = Some x \<Longrightarrow> x \<in> set xs \<and> P x"
  by (auto simp: find_Some_iff)

lemma find_append:
  "find P (xs @ ys) = (case find P xs of None \<Rightarrow> find P ys | Some x \<Rightarrow> Some x)"
  by (induction xs) auto

section \<open>Decimal text\<close>

text \<open>What \<^verbatim>\<open>%u\<close> prints.\<close>

fun dec_text :: "nat \<Rightarrow> string" where
  "dec_text n = (if n < 10 then [char_of (48 + n)] else dec_text (n div 10) @ [char_of (48 + n mod 10)])"

declare dec_text.simps [simp del]

lemma length_dec_text: "n < 10 ^ Suc k \<Longrightarrow> length (dec_text n) \<le> Suc k"
proof (induction k arbitrary: n)
  case 0
  then show ?case by (subst dec_text.simps) simp
next
  case (Suc k)
  have "n div 10 < 10 ^ Suc k" using Suc.prems by (simp add: less_mult_imp_div_less mult.commute)
  then show ?case using Suc.IH [of "n div 10"] by (subst dec_text.simps) simp
qed

end
