(* ===== verification/Drawfs_Proto.thy ===== *)
theory Drawfs_Proto
  imports Awase_Prelude
begin

text \<open>
  The wire protocol of drawfs (\<^verbatim>\<open>drawfs_proto.h\<close>, \<^verbatim>\<open>drawfs.h\<close>): protocol constants,
  the packed request, reply and event structures with their encodings, and the
  alignment helper. A signed field is kept as the bits of its two's complement.
  Every structure interprets the interface \<open>wire_struct\<close>.
\<close>

section \<open>Constants\<close>

definition DRAWFS_MAGIC :: u32 where "DRAWFS_MAGIC = 0x31575244"
definition DRAWFS_VERSION :: u16 where "DRAWFS_VERSION = 0x0100"

definition DRAWFS_MAX_FRAME_BYTES :: nat where "DRAWFS_MAX_FRAME_BYTES = 1048576"
definition DRAWFS_MAX_EVENT_BYTES :: nat where "DRAWFS_MAX_EVENT_BYTES = 65536"
definition DRAWFS_MAX_MSG_BYTES :: nat where "DRAWFS_MAX_MSG_BYTES = 524288"
definition DRAWFS_MAX_PRESENT_RECTS :: nat where "DRAWFS_MAX_PRESENT_RECTS = 16"
definition DRAWFS_INPUT_PAYLOAD_MAX :: nat where "DRAWFS_INPUT_PAYLOAD_MAX = 32"

text \<open>\<^verbatim>\<open>enum drawfs_msg_type\<close> and \<^verbatim>\<open>enum drawfs_event_type\<close>: 16-bit message types.\<close>

datatype drawfs_msg_type =
    RPL_OK | RPL_HELLO | RPL_DISPLAY_LIST | RPL_DISPLAY_OPEN | RPL_SURFACE_CREATE
  | RPL_SURFACE_DESTROY | RPL_SURFACE_PRESENT | RPL_SURFACE_PRESENT_REGION | RPL_ERROR
  | REQ_HELLO | REQ_DISPLAY_LIST | REQ_DISPLAY_OPEN | REQ_SURFACE_CREATE
  | REQ_SURFACE_DESTROY | REQ_SURFACE_PRESENT | REQ_SURFACE_PRESENT_REGION

fun msg_type_code :: "drawfs_msg_type \<Rightarrow> u16" where
  "msg_type_code RPL_OK = 0x8000"
| "msg_type_code RPL_HELLO = 0x8001"
| "msg_type_code RPL_DISPLAY_LIST = 0x8010"
| "msg_type_code RPL_DISPLAY_OPEN = 0x8011"
| "msg_type_code RPL_SURFACE_CREATE = 0x8020"
| "msg_type_code RPL_SURFACE_DESTROY = 0x8021"
| "msg_type_code RPL_SURFACE_PRESENT = 0x8022"
| "msg_type_code RPL_SURFACE_PRESENT_REGION = 0x8023"
| "msg_type_code RPL_ERROR = 0x8FFF"
| "msg_type_code REQ_HELLO = 0x0001"
| "msg_type_code REQ_DISPLAY_LIST = 0x0010"
| "msg_type_code REQ_DISPLAY_OPEN = 0x0011"
| "msg_type_code REQ_SURFACE_CREATE = 0x0020"
| "msg_type_code REQ_SURFACE_DESTROY = 0x0021"
| "msg_type_code REQ_SURFACE_PRESENT = 0x0022"
| "msg_type_code REQ_SURFACE_PRESENT_REGION = 0x0023"

datatype drawfs_event_type =
    EVT_SURFACE_PRESENTED | EVT_SURFACE_PRESENTED_REGION | EVT_KEY | EVT_POINTER
  | EVT_SCROLL | EVT_TOUCH

fun event_type_code :: "drawfs_event_type \<Rightarrow> u16" where
  "event_type_code EVT_SURFACE_PRESENTED = 0x9002"
| "event_type_code EVT_SURFACE_PRESENTED_REGION = 0x9003"
| "event_type_code EVT_KEY = 0x9010"
| "event_type_code EVT_POINTER = 0x9011"
| "event_type_code EVT_SCROLL = 0x9012"
| "event_type_code EVT_TOUCH = 0x9013"

text \<open>\<^verbatim>\<open>enum drawfs_err_code\<close>.\<close>

datatype drawfs_err_code =
    ERR_OK | ERR_INVALID_FRAME | ERR_INVALID_MSG | ERR_UNSUPPORTED_VERSION
  | ERR_UNSUPPORTED_CAP | ERR_PERMISSION | ERR_NOT_FOUND | ERR_BUSY | ERR_NO_MEMORY
  | ERR_INVALID_HANDLE | ERR_INVALID_STATE | ERR_INVALID_ARG | ERR_OVERFLOW | ERR_IO
  | ERR_INTERNAL

fun err_code :: "drawfs_err_code \<Rightarrow> u32" where
  "err_code ERR_OK = 0"
| "err_code ERR_INVALID_FRAME = 1"
| "err_code ERR_INVALID_MSG = 2"
| "err_code ERR_UNSUPPORTED_VERSION = 3"
| "err_code ERR_UNSUPPORTED_CAP = 4"
| "err_code ERR_PERMISSION = 5"
| "err_code ERR_NOT_FOUND = 6"
| "err_code ERR_BUSY = 7"
| "err_code ERR_NO_MEMORY = 8"
| "err_code ERR_INVALID_HANDLE = 9"
| "err_code ERR_INVALID_STATE = 10"
| "err_code ERR_INVALID_ARG = 11"
| "err_code ERR_OVERFLOW = 12"
| "err_code ERR_IO = 13"
| "err_code ERR_INTERNAL = 14"

definition DRAWFS_FMT_XRGB8888 :: u32 where "DRAWFS_FMT_XRGB8888 = 1"

section \<open>Alignment\<close>

definition drawfs_align4 :: "u32 \<Rightarrow> u32" where
  "drawfs_align4 n = (n + 3) AND NOT 3"

section \<open>Structures\<close>

text \<open>\<^verbatim>\<open>struct drawfs_frame_hdr\<close>: 16 bytes in front of every frame, 16 bytes.\<close>

record drawfs_frame_hdr =
  fh_magic :: u32
  fh_version :: u16
  fh_header_bytes :: u16
  fh_frame_bytes :: u32
  fh_frame_id :: u32

definition enc_frame_hdr :: "drawfs_frame_hdr \<Rightarrow> buf" where
  "enc_frame_hdr r =
     put32 (fh_magic r) @ put16 (fh_version r) @ put16 (fh_header_bytes r) @
     put32 (fh_frame_bytes r) @ put32 (fh_frame_id r)"

definition dec_frame_hdr :: "buf \<Rightarrow> drawfs_frame_hdr" where
  "dec_frame_hdr bs =
     \<lparr>fh_magic = get32 bs 0,
      fh_version = get16 bs 4,
      fh_header_bytes = get16 bs 6,
      fh_frame_bytes = get32 bs 8,
      fh_frame_id = get32 bs 12\<rparr>"

interpretation fh: wire_struct enc_frame_hdr dec_frame_hdr 16
  by unfold_locales
    (simp_all add: enc_frame_hdr_def dec_frame_hdr_def wire_simps get_skip)

text \<open>\<^verbatim>\<open>struct drawfs_msg_hdr\<close>: in front of every message of a frame, 16 bytes.\<close>

record drawfs_msg_hdr =
  mh_msg_type :: u16
  mh_msg_flags :: u16
  mh_msg_bytes :: u32
  mh_msg_id :: u32
  mh_reserved :: u32

definition enc_msg_hdr :: "drawfs_msg_hdr \<Rightarrow> buf" where
  "enc_msg_hdr r =
     put16 (mh_msg_type r) @ put16 (mh_msg_flags r) @ put32 (mh_msg_bytes r) @
     put32 (mh_msg_id r) @ put32 (mh_reserved r)"

definition dec_msg_hdr :: "buf \<Rightarrow> drawfs_msg_hdr" where
  "dec_msg_hdr bs =
     \<lparr>mh_msg_type = get16 bs 0,
      mh_msg_flags = get16 bs 2,
      mh_msg_bytes = get32 bs 4,
      mh_msg_id = get32 bs 8,
      mh_reserved = get32 bs 12\<rparr>"

interpretation mh: wire_struct enc_msg_hdr dec_msg_hdr 16
  by unfold_locales
    (simp_all add: enc_msg_hdr_def dec_msg_hdr_def wire_simps get_skip)

text \<open>\<^verbatim>\<open>struct drawfs_req_hello\<close>: HELLO request, 12 bytes.\<close>

record drawfs_req_hello =
  rqh_client_major :: u16
  rqh_client_minor :: u16
  rqh_client_flags :: u32
  rqh_max_reply_bytes :: u32

definition enc_req_hello :: "drawfs_req_hello \<Rightarrow> buf" where
  "enc_req_hello r =
     put16 (rqh_client_major r) @ put16 (rqh_client_minor r) @
     put32 (rqh_client_flags r) @ put32 (rqh_max_reply_bytes r)"

definition dec_req_hello :: "buf \<Rightarrow> drawfs_req_hello" where
  "dec_req_hello bs =
     \<lparr>rqh_client_major = get16 bs 0,
      rqh_client_minor = get16 bs 2,
      rqh_client_flags = get32 bs 4,
      rqh_max_reply_bytes = get32 bs 8\<rparr>"

interpretation rqh: wire_struct enc_req_hello dec_req_hello 12
  by unfold_locales
    (simp_all add: enc_req_hello_def dec_req_hello_def wire_simps get_skip)

text \<open>\<^verbatim>\<open>struct drawfs_rpl_hello\<close>: HELLO reply, 16 bytes.\<close>

record drawfs_rpl_hello =
  rph_status :: u32
  rph_server_major :: u16
  rph_server_minor :: u16
  rph_server_flags :: u32
  rph_max_reply_bytes :: u32

definition enc_rpl_hello :: "drawfs_rpl_hello \<Rightarrow> buf" where
  "enc_rpl_hello r =
     put32 (rph_status r) @ put16 (rph_server_major r) @ put16 (rph_server_minor r) @
     put32 (rph_server_flags r) @ put32 (rph_max_reply_bytes r)"

definition dec_rpl_hello :: "buf \<Rightarrow> drawfs_rpl_hello" where
  "dec_rpl_hello bs =
     \<lparr>rph_status = get32 bs 0,
      rph_server_major = get16 bs 4,
      rph_server_minor = get16 bs 6,
      rph_server_flags = get32 bs 8,
      rph_max_reply_bytes = get32 bs 12\<rparr>"

interpretation rph: wire_struct enc_rpl_hello dec_rpl_hello 16
  by unfold_locales
    (simp_all add: enc_rpl_hello_def dec_rpl_hello_def wire_simps get_skip)

text \<open>\<^verbatim>\<open>struct drawfs_rpl_error\<close>: error reply, 12 bytes.\<close>

record drawfs_rpl_error =
  rpe_err_code :: u32
  rpe_err_detail :: u32
  rpe_err_offset :: u32

definition enc_rpl_error :: "drawfs_rpl_error \<Rightarrow> buf" where
  "enc_rpl_error r =
     put32 (rpe_err_code r) @ put32 (rpe_err_detail r) @ put32 (rpe_err_offset r)"

definition dec_rpl_error :: "buf \<Rightarrow> drawfs_rpl_error" where
  "dec_rpl_error bs =
     \<lparr>rpe_err_code = get32 bs 0,
      rpe_err_detail = get32 bs 4,
      rpe_err_offset = get32 bs 8\<rparr>"

interpretation rpe: wire_struct enc_rpl_error dec_rpl_error 12
  by unfold_locales
    (simp_all add: enc_rpl_error_def dec_rpl_error_def wire_simps get_skip)

text \<open>\<^verbatim>\<open>struct drawfs_display_desc\<close>: one display of a DISPLAY_LIST reply, 20 bytes.\<close>

record drawfs_display_desc =
  dd_display_id :: u32
  dd_width_px :: u32
  dd_height_px :: u32
  dd_refresh_mhz :: u32
  dd_flags :: u32

definition enc_display_desc :: "drawfs_display_desc \<Rightarrow> buf" where
  "enc_display_desc r =
     put32 (dd_display_id r) @ put32 (dd_width_px r) @ put32 (dd_height_px r) @
     put32 (dd_refresh_mhz r) @ put32 (dd_flags r)"

definition dec_display_desc :: "buf \<Rightarrow> drawfs_display_desc" where
  "dec_display_desc bs =
     \<lparr>dd_display_id = get32 bs 0,
      dd_width_px = get32 bs 4,
      dd_height_px = get32 bs 8,
      dd_refresh_mhz = get32 bs 12,
      dd_flags = get32 bs 16\<rparr>"

interpretation dd: wire_struct enc_display_desc dec_display_desc 20
  by unfold_locales
    (simp_all add: enc_display_desc_def dec_display_desc_def wire_simps get_skip)

text \<open>\<^verbatim>\<open>struct drawfs_display_open_req\<close>: DISPLAY_OPEN request, 4 bytes.\<close>

record drawfs_display_open_req =
  dor_display_id :: u32

definition enc_display_open_req :: "drawfs_display_open_req \<Rightarrow> buf" where
  "enc_display_open_req r =
     put32 (dor_display_id r)"

definition dec_display_open_req :: "buf \<Rightarrow> drawfs_display_open_req" where
  "dec_display_open_req bs =
     \<lparr>dor_display_id = get32 bs 0\<rparr>"

interpretation dor: wire_struct enc_display_open_req dec_display_open_req 4
  by unfold_locales
    (simp_all add: enc_display_open_req_def dec_display_open_req_def wire_simps get_skip)

text \<open>\<^verbatim>\<open>struct drawfs_display_open_rep\<close>: DISPLAY_OPEN reply, 12 bytes.\<close>

record drawfs_display_open_rep =
  dop_status :: u32
  dop_display_handle :: u32
  dop_active_display_id :: u32

definition enc_display_open_rep :: "drawfs_display_open_rep \<Rightarrow> buf" where
  "enc_display_open_rep r =
     put32 (dop_status r) @ put32 (dop_display_handle r) @
     put32 (dop_active_display_id r)"

definition dec_display_open_rep :: "buf \<Rightarrow> drawfs_display_open_rep" where
  "dec_display_open_rep bs =
     \<lparr>dop_status = get32 bs 0,
      dop_display_handle = get32 bs 4,
      dop_active_display_id = get32 bs 8\<rparr>"

interpretation dop: wire_struct enc_display_open_rep dec_display_open_rep 12
  by unfold_locales
    (simp_all add: enc_display_open_rep_def dec_display_open_rep_def wire_simps get_skip)

text \<open>\<^verbatim>\<open>struct drawfs_surface_create_req\<close>: SURFACE_CREATE request, 16 bytes.\<close>

record drawfs_surface_create_req =
  scq_width_px :: u32
  scq_height_px :: u32
  scq_format :: u32
  scq_flags :: u32

definition enc_surface_create_req :: "drawfs_surface_create_req \<Rightarrow> buf" where
  "enc_surface_create_req r =
     put32 (scq_width_px r) @ put32 (scq_height_px r) @ put32 (scq_format r) @
     put32 (scq_flags r)"

definition dec_surface_create_req :: "buf \<Rightarrow> drawfs_surface_create_req" where
  "dec_surface_create_req bs =
     \<lparr>scq_width_px = get32 bs 0,
      scq_height_px = get32 bs 4,
      scq_format = get32 bs 8,
      scq_flags = get32 bs 12\<rparr>"

interpretation scq: wire_struct enc_surface_create_req dec_surface_create_req 16
  by unfold_locales
    (simp_all add: enc_surface_create_req_def dec_surface_create_req_def wire_simps get_skip)

text \<open>\<^verbatim>\<open>struct drawfs_surface_create_rep\<close>: SURFACE_CREATE reply, 16 bytes.\<close>

record drawfs_surface_create_rep =
  scp_status :: u32
  scp_surface_id :: u32
  scp_stride_bytes :: u32
  scp_bytes_total :: u32

definition enc_surface_create_rep :: "drawfs_surface_create_rep \<Rightarrow> buf" where
  "enc_surface_create_rep r =
     put32 (scp_status r) @ put32 (scp_surface_id r) @ put32 (scp_stride_bytes r) @
     put32 (scp_bytes_total r)"

definition dec_surface_create_rep :: "buf \<Rightarrow> drawfs_surface_create_rep" where
  "dec_surface_create_rep bs =
     \<lparr>scp_status = get32 bs 0,
      scp_surface_id = get32 bs 4,
      scp_stride_bytes = get32 bs 8,
      scp_bytes_total = get32 bs 12\<rparr>"

interpretation scp: wire_struct enc_surface_create_rep dec_surface_create_rep 16
  by unfold_locales
    (simp_all add: enc_surface_create_rep_def dec_surface_create_rep_def wire_simps get_skip)

text \<open>\<^verbatim>\<open>struct drawfs_surface_destroy_req\<close>: SURFACE_DESTROY request, 4 bytes.\<close>

record drawfs_surface_destroy_req =
  sdq_surface_id :: u32

definition enc_surface_destroy_req :: "drawfs_surface_destroy_req \<Rightarrow> buf" where
  "enc_surface_destroy_req r =
     put32 (sdq_surface_id r)"

definition dec_surface_destroy_req :: "buf \<Rightarrow> drawfs_surface_destroy_req" where
  "dec_surface_destroy_req bs =
     \<lparr>sdq_surface_id = get32 bs 0\<rparr>"

interpretation sdq: wire_struct enc_surface_destroy_req dec_surface_destroy_req 4
  by unfold_locales
    (simp_all add: enc_surface_destroy_req_def dec_surface_destroy_req_def wire_simps get_skip)

text \<open>\<^verbatim>\<open>struct drawfs_surface_destroy_rep\<close>: SURFACE_DESTROY reply, 8 bytes.\<close>

record drawfs_surface_destroy_rep =
  sdp_status :: u32
  sdp_surface_id :: u32

definition enc_surface_destroy_rep :: "drawfs_surface_destroy_rep \<Rightarrow> buf" where
  "enc_surface_destroy_rep r =
     put32 (sdp_status r) @ put32 (sdp_surface_id r)"

definition dec_surface_destroy_rep :: "buf \<Rightarrow> drawfs_surface_destroy_rep" where
  "dec_surface_destroy_rep bs =
     \<lparr>sdp_status = get32 bs 0,
      sdp_surface_id = get32 bs 4\<rparr>"

interpretation sdp: wire_struct enc_surface_destroy_rep dec_surface_destroy_rep 8
  by unfold_locales
    (simp_all add: enc_surface_destroy_rep_def dec_surface_destroy_rep_def wire_simps get_skip)

text \<open>\<^verbatim>\<open>struct drawfs_req_surface_present\<close>: SURFACE_PRESENT request, 16 bytes.\<close>

record drawfs_req_surface_present =
  spq_surface_id :: u32
  spq_flags :: u32
  spq_cookie :: u64

definition enc_req_surface_present :: "drawfs_req_surface_present \<Rightarrow> buf" where
  "enc_req_surface_present r =
     put32 (spq_surface_id r) @ put32 (spq_flags r) @ put64 (spq_cookie r)"

definition dec_req_surface_present :: "buf \<Rightarrow> drawfs_req_surface_present" where
  "dec_req_surface_present bs =
     \<lparr>spq_surface_id = get32 bs 0,
      spq_flags = get32 bs 4,
      spq_cookie = get64 bs 8\<rparr>"

interpretation spq: wire_struct enc_req_surface_present dec_req_surface_present 16
  by unfold_locales
    (simp_all add: enc_req_surface_present_def dec_req_surface_present_def wire_simps get_skip)

text \<open>\<^verbatim>\<open>struct drawfs_rpl_surface_present\<close>: SURFACE_PRESENT reply, 16 bytes.\<close>

record drawfs_rpl_surface_present =
  spp_status :: u32
  spp_surface_id :: u32
  spp_cookie :: u64

definition enc_rpl_surface_present :: "drawfs_rpl_surface_present \<Rightarrow> buf" where
  "enc_rpl_surface_present r =
     put32 (spp_status r) @ put32 (spp_surface_id r) @ put64 (spp_cookie r)"

definition dec_rpl_surface_present :: "buf \<Rightarrow> drawfs_rpl_surface_present" where
  "dec_rpl_surface_present bs =
     \<lparr>spp_status = get32 bs 0,
      spp_surface_id = get32 bs 4,
      spp_cookie = get64 bs 8\<rparr>"

interpretation spp: wire_struct enc_rpl_surface_present dec_rpl_surface_present 16
  by unfold_locales
    (simp_all add: enc_rpl_surface_present_def dec_rpl_surface_present_def wire_simps get_skip)

text \<open>\<^verbatim>\<open>struct drawfs_evt_surface_presented\<close>: SURFACE_PRESENTED event, 16 bytes.\<close>

record drawfs_evt_surface_presented =
  sev_surface_id :: u32
  sev_reserved :: u32
  sev_cookie :: u64

definition enc_evt_surface_presented :: "drawfs_evt_surface_presented \<Rightarrow> buf" where
  "enc_evt_surface_presented r =
     put32 (sev_surface_id r) @ put32 (sev_reserved r) @ put64 (sev_cookie r)"

definition dec_evt_surface_presented :: "buf \<Rightarrow> drawfs_evt_surface_presented" where
  "dec_evt_surface_presented bs =
     \<lparr>sev_surface_id = get32 bs 0,
      sev_reserved = get32 bs 4,
      sev_cookie = get64 bs 8\<rparr>"

interpretation sev: wire_struct enc_evt_surface_presented dec_evt_surface_presented 16
  by unfold_locales
    (simp_all add: enc_evt_surface_presented_def dec_evt_surface_presented_def wire_simps get_skip)

text \<open>\<^verbatim>\<open>struct drawfs_rect\<close>: damage rectangle; x and y are two's complement, 16 bytes.\<close>

record drawfs_rect =
  rc_x :: u32
  rc_y :: u32
  rc_width :: u32
  rc_height :: u32

definition enc_rect :: "drawfs_rect \<Rightarrow> buf" where
  "enc_rect r =
     put32 (rc_x r) @ put32 (rc_y r) @ put32 (rc_width r) @ put32 (rc_height r)"

definition dec_rect :: "buf \<Rightarrow> drawfs_rect" where
  "dec_rect bs =
     \<lparr>rc_x = get32 bs 0,
      rc_y = get32 bs 4,
      rc_width = get32 bs 8,
      rc_height = get32 bs 12\<rparr>"

interpretation rc: wire_struct enc_rect dec_rect 16
  by unfold_locales
    (simp_all add: enc_rect_def dec_rect_def wire_simps get_skip)

text \<open>\<^verbatim>\<open>struct drawfs_req_surface_present_region\<close>: fixed header of a SURFACE_PRESENT_REGION request, 24 bytes.\<close>

record drawfs_req_surface_present_region =
  srq_surface_id :: u32
  srq_flags :: u32
  srq_cookie :: u64
  srq_rect_count :: u32
  srq_reserved :: u32

definition enc_req_surface_present_region :: "drawfs_req_surface_present_region \<Rightarrow> buf" where
  "enc_req_surface_present_region r =
     put32 (srq_surface_id r) @ put32 (srq_flags r) @ put64 (srq_cookie r) @
     put32 (srq_rect_count r) @ put32 (srq_reserved r)"

definition dec_req_surface_present_region :: "buf \<Rightarrow> drawfs_req_surface_present_region" where
  "dec_req_surface_present_region bs =
     \<lparr>srq_surface_id = get32 bs 0,
      srq_flags = get32 bs 4,
      srq_cookie = get64 bs 8,
      srq_rect_count = get32 bs 16,
      srq_reserved = get32 bs 20\<rparr>"

interpretation srq: wire_struct enc_req_surface_present_region dec_req_surface_present_region 24
  by unfold_locales
    (simp_all add: enc_req_surface_present_region_def dec_req_surface_present_region_def wire_simps get_skip)

text \<open>\<^verbatim>\<open>struct drawfs_evt_key\<close>: key event, 24 bytes.\<close>

record drawfs_evt_key =
  ek_surface_id :: u32
  ek_code :: u32
  ek_state :: u32
  ek_mods :: u32
  ek_ts_wall_ns :: u64

definition enc_evt_key :: "drawfs_evt_key \<Rightarrow> buf" where
  "enc_evt_key r =
     put32 (ek_surface_id r) @ put32 (ek_code r) @ put32 (ek_state r) @
     put32 (ek_mods r) @ put64 (ek_ts_wall_ns r)"

definition dec_evt_key :: "buf \<Rightarrow> drawfs_evt_key" where
  "dec_evt_key bs =
     \<lparr>ek_surface_id = get32 bs 0,
      ek_code = get32 bs 4,
      ek_state = get32 bs 8,
      ek_mods = get32 bs 12,
      ek_ts_wall_ns = get64 bs 16\<rparr>"

interpretation ek: wire_struct enc_evt_key dec_evt_key 24
  by unfold_locales
    (simp_all add: enc_evt_key_def dec_evt_key_def wire_simps get_skip)

text \<open>\<^verbatim>\<open>struct drawfs_evt_pointer\<close>: pointer event, 32 bytes.\<close>

record drawfs_evt_pointer =
  ep_surface_id :: u32
  ep_x :: u32
  ep_y :: u32
  ep_dx :: u32
  ep_dy :: u32
  ep_buttons :: u32
  ep_ts_wall_ns :: u64

definition enc_evt_pointer :: "drawfs_evt_pointer \<Rightarrow> buf" where
  "enc_evt_pointer r =
     put32 (ep_surface_id r) @ put32 (ep_x r) @ put32 (ep_y r) @ put32 (ep_dx r) @
     put32 (ep_dy r) @ put32 (ep_buttons r) @ put64 (ep_ts_wall_ns r)"

definition dec_evt_pointer :: "buf \<Rightarrow> drawfs_evt_pointer" where
  "dec_evt_pointer bs =
     \<lparr>ep_surface_id = get32 bs 0,
      ep_x = get32 bs 4,
      ep_y = get32 bs 8,
      ep_dx = get32 bs 12,
      ep_dy = get32 bs 16,
      ep_buttons = get32 bs 20,
      ep_ts_wall_ns = get64 bs 24\<rparr>"

interpretation ep: wire_struct enc_evt_pointer dec_evt_pointer 32
  by unfold_locales
    (simp_all add: enc_evt_pointer_def dec_evt_pointer_def wire_simps get_skip)

text \<open>\<^verbatim>\<open>struct drawfs_evt_scroll\<close>: scroll event, 20 bytes.\<close>

record drawfs_evt_scroll =
  es_surface_id :: u32
  es_dx :: u32
  es_dy :: u32
  es_ts_wall_ns :: u64

definition enc_evt_scroll :: "drawfs_evt_scroll \<Rightarrow> buf" where
  "enc_evt_scroll r =
     put32 (es_surface_id r) @ put32 (es_dx r) @ put32 (es_dy r) @
     put64 (es_ts_wall_ns r)"

definition dec_evt_scroll :: "buf \<Rightarrow> drawfs_evt_scroll" where
  "dec_evt_scroll bs =
     \<lparr>es_surface_id = get32 bs 0,
      es_dx = get32 bs 4,
      es_dy = get32 bs 8,
      es_ts_wall_ns = get64 bs 12\<rparr>"

interpretation es: wire_struct enc_evt_scroll dec_evt_scroll 20
  by unfold_locales
    (simp_all add: enc_evt_scroll_def dec_evt_scroll_def wire_simps get_skip)

text \<open>\<^verbatim>\<open>struct drawfs_evt_touch\<close>: touch event, 28 bytes.\<close>

record drawfs_evt_touch =
  et_surface_id :: u32
  et_contact :: u32
  et_phase :: u32
  et_x :: u32
  et_y :: u32
  et_ts_wall_ns :: u64

definition enc_evt_touch :: "drawfs_evt_touch \<Rightarrow> buf" where
  "enc_evt_touch r =
     put32 (et_surface_id r) @ put32 (et_contact r) @ put32 (et_phase r) @
     put32 (et_x r) @ put32 (et_y r) @ put64 (et_ts_wall_ns r)"

definition dec_evt_touch :: "buf \<Rightarrow> drawfs_evt_touch" where
  "dec_evt_touch bs =
     \<lparr>et_surface_id = get32 bs 0,
      et_contact = get32 bs 4,
      et_phase = get32 bs 8,
      et_x = get32 bs 12,
      et_y = get32 bs 16,
      et_ts_wall_ns = get64 bs 20\<rparr>"

interpretation et: wire_struct enc_evt_touch dec_evt_touch 28
  by unfold_locales
    (simp_all add: enc_evt_touch_def dec_evt_touch_def wire_simps get_skip)

section \<open>Facts about the constants and the layouts\<close>

lemma msg_type_code_inj [simp]: "msg_type_code a = msg_type_code b \<longleftrightarrow> a = b"
  by (cases a; cases b) simp_all

lemma event_type_code_inj [simp]: "event_type_code a = event_type_code b \<longleftrightarrow> a = b"
  by (cases a; cases b) simp_all

text \<open>Replies and events are told apart from requests by the top bit of the type.\<close>

lemma event_is_no_reply [simp]: "event_type_code e \<noteq> msg_type_code m"
  "msg_type_code m \<noteq> event_type_code e"
  by (cases e; cases m; simp)+

declare msg_type_code.simps [simp del] event_type_code.simps [simp del]

section \<open>Alignment rounds up to a multiple of four\<close>

lemma three_is_mask: "(3 :: 'n::len word) = mask 2"
  by (simp add: mask_eq_exp_minus_1)

lemma unat_align4:
  assumes "unat n \<le> 2 ^ 32 - 4"
  shows "unat (drawfs_align4 n) = (unat n + 3) div 4 * 4"
proof -
  have "unat (n + 3) = unat n + 3"
    using assms unat_add_no_wrap [of n 3] by simp
  then show ?thesis
    unfolding drawfs_align4_def three_is_mask unat_and_not_mask
    by (simp add: three_is_mask [symmetric])
qed

lemma low_bits_zero: "(n :: u32) AND 3 = 0 \<longleftrightarrow> 4 dvd unat n"
proof -
  have "n AND 3 = 0 \<longleftrightarrow> unat (n AND mask 2) = 0"
    by (simp add: three_is_mask [symmetric] unat_eq_0)
  then show ?thesis by (simp add: unat_and_mask dvd_eq_mod_eq_0)
qed

end
