(* ===== verification/Drawfs_Frame.thy ===== *)
theory Drawfs_Frame
  imports Drawfs_Proto
begin

text \<open>
  Frame encoding and validation (\<^verbatim>\<open>drawfs_frame.c\<close>): the validator of incoming frame
  headers, the validator of SURFACE_PRESENT_REGION payloads and the builder of outgoing
  frames. An error is the left value of a sum; a buffer is its list of bytes, so the
  length argument of the C functions is the length of the list.
\<close>

section \<open>Validation of a frame header\<close>

definition drawfs_frame_validate ::
  "buf \<Rightarrow> (drawfs_err_code \<times> u32) + drawfs_frame_hdr" where
  "drawfs_frame_validate buf =
     (if length buf < 16 then Inl (ERR_INVALID_FRAME, 0)
      else let fh = dec_frame_hdr buf in
        if fh_magic fh \<noteq> DRAWFS_MAGIC then Inl (ERR_INVALID_FRAME, 0)
        else if fh_version fh \<noteq> DRAWFS_VERSION then Inl (ERR_UNSUPPORTED_VERSION, 4)
        else if fh_header_bytes fh \<noteq> 16 then Inl (ERR_INVALID_FRAME, 6)
        else if fh_frame_bytes fh < ucast (fh_header_bytes fh) then Inl (ERR_INVALID_FRAME, 8)
        else if unat (fh_frame_bytes fh) > length buf then Inl (ERR_INVALID_FRAME, 8)
        else if fh_frame_bytes fh AND 3 \<noteq> 0 then Inl (ERR_INVALID_FRAME, 8)
        else Inr fh)"

text \<open>What a frame header promises, as a predicate on the buffer.\<close>

definition frame_ok :: "buf \<Rightarrow> bool" where
  "frame_ok buf \<longleftrightarrow>
     16 \<le> length buf \<and>
     (let fh = dec_frame_hdr buf in
        fh_magic fh = DRAWFS_MAGIC \<and> fh_version fh = DRAWFS_VERSION \<and>
        fh_header_bytes fh = 16 \<and> 16 \<le> unat (fh_frame_bytes fh) \<and>
        unat (fh_frame_bytes fh) \<le> length buf \<and> 4 dvd unat (fh_frame_bytes fh))"

lemma frame_validate_Inr_iff:
  "drawfs_frame_validate buf = Inr h \<longleftrightarrow> frame_ok buf \<and> h = dec_frame_hdr buf"
  by (auto simp: drawfs_frame_validate_def frame_ok_def Let_def low_bits_zero
      word_less_nat_alt word_le_nat_alt not_less)

lemma frame_validate_Inl_iff:
  "(\<exists>e. drawfs_frame_validate buf = Inl e) \<longleftrightarrow> \<not> frame_ok buf"
proof (cases "drawfs_frame_validate buf")
  case (Inl e)
  with frame_validate_Inr_iff [of buf "dec_frame_hdr buf"] show ?thesis by auto
next
  case (Inr h)
  with frame_validate_Inr_iff [of buf h] show ?thesis by auto
qed

section \<open>Validation of a SURFACE_PRESENT_REGION payload\<close>

text \<open>The rectangle array that follows the fixed header of the request.\<close>

definition region_rects :: "buf \<Rightarrow> nat \<Rightarrow> drawfs_rect list" where
  "region_rects payload n = map (\<lambda>i. dec_rect (drop (24 + 16 * i) payload)) [0..<n]"

fun rects_nonempty :: "drawfs_rect list \<Rightarrow> bool" where
  "rects_nonempty [] = True"
| "rects_nonempty (r # rs) = (if rc_width r = 0 \<or> rc_height r = 0 then False
                              else rects_nonempty rs)"

definition drawfs_req_surface_present_region_validate ::
  "buf \<Rightarrow> drawfs_err_code + drawfs_req_surface_present_region \<times> drawfs_rect list" where
  "drawfs_req_surface_present_region_validate payload =
     (if length payload < 24 then Inl ERR_INVALID_FRAME
      else let req = dec_req_surface_present_region payload in
        if srq_reserved req \<noteq> 0 then Inl ERR_INVALID_MSG
        else if srq_flags req \<noteq> 0 then Inl ERR_UNSUPPORTED_CAP
        else if srq_rect_count req = 0 then Inl ERR_INVALID_ARG
        else if unat (srq_rect_count req) > DRAWFS_MAX_PRESENT_RECTS then Inl ERR_OVERFLOW
        else if length payload < 24 + unat (srq_rect_count req) * 16 then Inl ERR_INVALID_FRAME
        else let rects = region_rects payload (unat (srq_rect_count req)) in
          if \<not> rects_nonempty rects then Inl ERR_INVALID_ARG
          else Inr (req, rects))"

text \<open>The request a client would encode for a list of rectangles.\<close>

definition enc_region_request ::
  "drawfs_req_surface_present_region \<Rightarrow> drawfs_rect list \<Rightarrow> buf" where
  "enc_region_request req rects = enc_req_surface_present_region req @ concat (map enc_rect rects)"

lemma rects_nonempty_iff:
  "rects_nonempty rs \<longleftrightarrow> (\<forall>r \<in> set rs. rc_width r \<noteq> 0 \<and> rc_height r \<noteq> 0)"
  by (induction rs) auto

lemma length_concat_rects [wire_simps]: "length (concat (map enc_rect rs)) = 16 * length rs"
  by (induction rs) (auto simp: rc.enc_length)

lemma drop_concat_rects:
  "i < length rs \<Longrightarrow>
   \<exists>post. drop (16 * i) (concat (map enc_rect rs)) = enc_rect (rs ! i) @ post"
proof (induction rs arbitrary: i)
  case Nil
  then show ?case by simp
next
  case (Cons r rs)
  show ?case
  proof (cases i)
    case 0
    then show ?thesis by simp
  next
    case (Suc j)
    with Cons.prems have "j < length rs" by simp
    then obtain post where
      "drop (16 * j) (concat (map enc_rect rs)) = enc_rect (rs ! j) @ post"
      using Cons.IH by blast
    then show ?thesis by (simp add: Suc rc.enc_length)
  qed
qed

lemma region_rects_enc:
  "region_rects (enc_region_request req rs) (length rs) = rs"
proof (rule nth_equalityI)
  show "length (region_rects (enc_region_request req rs) (length rs)) = length rs"
    by (simp add: region_rects_def)
next
  fix i assume "i < length (region_rects (enc_region_request req rs) (length rs))"
  then have i: "i < length rs" by (simp add: region_rects_def)
  then obtain post where "drop (16 * i) (concat (map enc_rect rs)) = enc_rect (rs ! i) @ post"
    using drop_concat_rects by blast
  then show "region_rects (enc_region_request req rs) (length rs) ! i = rs ! i"
    using i by (simp add: region_rects_def enc_region_request_def srq.enc_length
        rc.dec_enc_append)
qed

lemma region_validate_Inr:
  assumes "drawfs_req_surface_present_region_validate payload = Inr (req, rects)"
  shows "length rects = unat (srq_rect_count req)" "1 \<le> length rects"
    "length rects \<le> DRAWFS_MAX_PRESENT_RECTS"
    "24 + 16 * length rects \<le> length payload"
    "\<forall>r \<in> set rects. rc_width r \<noteq> 0 \<and> rc_height r \<noteq> 0"
    "srq_flags req = 0" "srq_reserved req = 0"
  using assms
  by (auto simp: drawfs_req_surface_present_region_validate_def Let_def rects_nonempty_iff
      region_rects_def word_unat_eq_iff not_less Suc_le_eq split: if_splits)

section \<open>Building a frame\<close>

text \<open>
  \<^verbatim>\<open>malloc(M_WAITOK | M_ZERO)\<close> sleeps until memory is there, so the builder always has
  its zeroed buffer of \<^verbatim>\<open>frame_bytes\<close> bytes, into which the headers and the payload are
  copied.
\<close>

definition drawfs_frame_build :: "u32 \<Rightarrow> u16 \<Rightarrow> u32 \<Rightarrow> buf \<Rightarrow> buf" where
  "drawfs_frame_build frame_id msg_type msg_id payload =
     (let msg_bytes = of_nat (16 + length payload) :: u32;
          msg_bytes_aligned = drawfs_align4 msg_bytes;
          frame_bytes = 16 + msg_bytes_aligned;
          out = replicate (unat frame_bytes) 0;
          fh = \<lparr>fh_magic = DRAWFS_MAGIC, fh_version = DRAWFS_VERSION, fh_header_bytes = 16,
                fh_frame_bytes = frame_bytes, fh_frame_id = frame_id\<rparr>;
          mh = \<lparr>mh_msg_type = msg_type, mh_msg_flags = 0, mh_msg_bytes = msg_bytes,
                mh_msg_id = msg_id, mh_reserved = 0\<rparr>;
          out = blit out 0 (enc_frame_hdr fh);
          out = blit out 16 (enc_msg_hdr mh)
      in if 0 < length payload then blit out 32 payload else out)"

text \<open>The size a frame takes for a payload: two headers and the payload rounded up to four.\<close>

definition frame_size :: "nat \<Rightarrow> nat" where
  "frame_size n = 16 + (16 + n + 3) div 4 * 4"

lemma frame_size_bounds: "32 + n \<le> frame_size n" "frame_size n \<le> 35 + n" "4 dvd frame_size n"
  by (auto simp: frame_size_def)

lemma frame_build_layout:
  assumes len: "length payload \<le> 2 ^ 32 - 64"
  shows "drawfs_frame_build fid ty mid payload =
     enc_frame_hdr \<lparr>fh_magic = DRAWFS_MAGIC, fh_version = DRAWFS_VERSION,
                    fh_header_bytes = 16,
                    fh_frame_bytes = of_nat (frame_size (length payload)),
                    fh_frame_id = fid\<rparr> @
     enc_msg_hdr \<lparr>mh_msg_type = ty, mh_msg_flags = 0,
                  mh_msg_bytes = of_nat (16 + length payload),
                  mh_msg_id = mid, mh_reserved = 0\<rparr> @
     payload @ replicate (frame_size (length payload) - 32 - length payload) 0"
proof -
  let ?n = "length payload"
  have mb: "unat (of_nat (16 + ?n) :: u32) = 16 + ?n"
    by (rule unat_of_nat_small) (use len in simp)
  have al: "unat (drawfs_align4 (of_nat (16 + ?n))) = (16 + ?n + 3) div 4 * 4"
    using len mb by (subst unat_align4) auto
  have sz: "unat (of_nat (frame_size ?n) :: u32) = frame_size ?n"
    by (rule unat_of_nat_small) (use len frame_size_bounds(2) [of ?n] in simp)
  have "unat (16 + drawfs_align4 (of_nat (16 + ?n))) = 16 + (16 + ?n + 3) div 4 * 4"
    using al len by (subst unat_add_no_wrap) auto
  then have fb: "16 + drawfs_align4 (of_nat (16 + ?n)) = of_nat (frame_size ?n)"
    unfolding word_unat_eq_iff sz by (simp only: frame_size_def)
  have ge: "32 + ?n \<le> frame_size ?n" by (rule frame_size_bounds)
  show ?thesis
    using ge unfolding drawfs_frame_build_def Let_def fb sz
    by (auto simp: blit_def fh.enc_length mh.enc_length sz)
qed

text \<open>
  The frame builder, as the reply path uses it: the payload is at most the event limit,
  far below the wrap-around of the 32-bit sizes.
\<close>

lemma length_frame_build:
  "length payload \<le> 2 ^ 32 - 64 \<Longrightarrow>
   length (drawfs_frame_build fid ty mid payload) = frame_size (length payload)"
  using frame_size_bounds(1) [of "length payload"]
  by (simp add: frame_build_layout fh.enc_length mh.enc_length)

lemma frame_build_parts:
  fixes payload :: buf and fid mid :: u32 and ty :: u16
  assumes "length payload \<le> 2 ^ 32 - 64"
  defines "f \<equiv> drawfs_frame_build fid ty mid payload"
  shows "dec_frame_hdr f = \<lparr>fh_magic = DRAWFS_MAGIC, fh_version = DRAWFS_VERSION,
           fh_header_bytes = 16, fh_frame_bytes = of_nat (frame_size (length payload)),
           fh_frame_id = fid\<rparr>"
    "dec_msg_hdr (drop 16 f) = \<lparr>mh_msg_type = ty, mh_msg_flags = 0,
           mh_msg_bytes = of_nat (16 + length payload), mh_msg_id = mid, mh_reserved = 0\<rparr>"
    "take (length payload) (drop 32 f) = payload"
  using assms(1) unfolding f_def
  by (simp_all add: frame_build_layout fh.enc_length mh.enc_length fh.dec_enc_append
      mh.dec_enc_append)

lemma frame_build_ok:
  assumes "length payload \<le> 2 ^ 32 - 64"
  shows "frame_ok (drawfs_frame_build fid ty mid payload)"
proof -
  have "frame_size (length payload) < 2 ^ 32"
    using assms frame_size_bounds(2) [of "length payload"] by simp
  then show ?thesis
    using assms frame_size_bounds [of "length payload"]
    by (simp add: frame_ok_def Let_def frame_build_parts length_frame_build unat_of_nat)
qed

end
