(* ===== verification/Drawfs_Surface.thy ===== *)
theory Drawfs_Surface
  imports Drawfs_Frame "HOL-Library.Multiset"
begin

text \<open>
  Session state (\<^verbatim>\<open>drawfs_internal.h\<close>, tunables of \<^verbatim>\<open>drawfs.c\<close>) and the surface
  lifecycle (\<^verbatim>\<open>drawfs_surface.c\<close>): lookup, creation under the resource limits,
  destruction, mmap selection, the two-phase acquisition of a surface's VM object and the
  teardown of all surfaces.

  The session is a record. The function bodies between \<^verbatim>\<open>mtx_lock\<close> and
  \<^verbatim>\<open>mtx_unlock\<close> are single steps on it; where a function drops the lock in the middle
  (\<^verbatim>\<open>drawfs_surface_get_vmobj\<close>), each locked section is a definition of its own, so
  that other threads can be put between them. The VM system is not part of this code: the
  objects it hands out are numbers, what \<^verbatim>\<open>vm_pager_allocate\<close> returns is an argument,
  and the calls made to it are recorded in order in \<open>vm_calls\<close>.
\<close>

section \<open>State\<close>

text \<open>
  The sysctl limits. \<^verbatim>\<open>int\<close> and \<^verbatim>\<open>long\<close> are kept as their bits; the code converts
  them with casts to unsigned types of the same or a larger width.
\<close>

record drawfs_tunables =
  t_max_evq_bytes :: u32
  t_max_surfaces :: u32
  t_max_surface_bytes :: u64
  t_max_session_surface_bytes :: u64
  t_coalesce_events :: bool
  t_mmap_enabled :: bool

definition drawfs_default_tunables :: drawfs_tunables where
  "drawfs_default_tunables =
     \<lparr>t_max_evq_bytes = 8192, t_max_surfaces = 64, t_max_surface_bytes = 67108864,
      t_max_session_surface_bytes = 268435456, t_coalesce_events = True,
      t_mmap_enabled = True\<rparr>"

type_synonym vm_object = nat

datatype vm_call = VmAllocate vm_object | VmReference vm_object | VmDeallocate vm_object

text \<open>The module's global debug counters, and the calls made to the VM system.\<close>

record drawfs_globals =
  g_vmobj_allocs :: u32
  g_vmobj_deallocs :: u32
  g_vmobj_install_lost :: u32
  g_inbuf_grow_race_lost :: u32
  g_frame_extract_race_lost :: u32
  g_vm_calls :: "vm_call list"

record drawfs_surface =
  sf_id :: u32
  sf_width_px :: u32
  sf_height_px :: u32
  sf_format :: u32
  sf_stride_bytes :: u32
  sf_bytes_total :: u32
  sf_vmobj :: "vm_object option"

record drawfs_stats =
  st_frames_received :: u64
  st_frames_processed :: u64
  st_frames_invalid :: u64
  st_messages_processed :: u64
  st_messages_unsupported :: u64
  st_events_enqueued :: u64
  st_events_dropped :: u64
  st_bytes_in :: u64
  st_bytes_out :: u64
  st_evq_depth :: u32
  st_inbuf_bytes :: u32
  st_evq_bytes :: u32
  st_surfaces_count :: u32
  st_surfaces_bytes :: u64

datatype wakeup = CvSignal | CvBroadcast | SelWakeup | SelRecord

text \<open>
  A session. An event of the queue is its bytes; \<open>s_inbuf\<close> is the valid part of the input
  buffer, so \<^verbatim>\<open>in_len\<close> is its length; \<open>s_wakeups\<close> records the calls on the
  session's condition variable and select record.
\<close>

record drawfs_session =
  s_evq :: "buf list"
  s_evq_bytes :: u64
  s_closing :: bool
  s_next_out_frame_id :: u32
  s_inbuf :: buf
  s_in_cap :: nat
  s_active_display_id :: u32
  s_map_surface_id :: u32
  s_active_surface_id :: u32
  s_next_display_handle :: u32
  s_active_display_handle :: u32
  s_surfaces :: "drawfs_surface list"
  s_next_surface_id :: u32
  s_surfaces_count :: u32
  s_surfaces_bytes :: u64
  s_stats :: drawfs_stats
  s_wakeups :: "wakeup list"

section \<open>Operations\<close>

definition drawfs_surface_lookup :: "drawfs_session \<Rightarrow> u32 \<Rightarrow> drawfs_surface option" where
  "drawfs_surface_lookup s sid = find (\<lambda>it. sf_id it = sid) (s_surfaces s)"

text \<open>Creation: the checks, the 64-bit size, the limits, then the new list entry.\<close>

definition drawfs_surface_create ::
  "drawfs_tunables \<Rightarrow> drawfs_session \<Rightarrow> u32 \<Rightarrow> u32 \<Rightarrow> u32 \<Rightarrow>
   (errno \<times> u32 \<times> u32 \<times> u32) \<times> drawfs_session" where
  "drawfs_surface_create t s width_px height_px format =
     (if s_active_display_id s = 0 then ((EINVAL, 0, 0, 0), s)
      else if width_px = 0 \<or> height_px = 0 then ((EINVAL, 0, 0, 0), s)
      else if format \<noteq> DRAWFS_FMT_XRGB8888 then ((EPROTONOSUPPORT, 0, 0, 0), s)
      else let stride64 = ucast width_px * 4 :: u64;
               total64 = stride64 * ucast height_px in
        if stride64 = 0 \<or> total64 = 0 \<or> total64 > t_max_surface_bytes t
        then ((EFBIG, 0, 0, 0), s)
        else if s_surfaces_count s \<ge> t_max_surfaces t
              \<or> s_surfaces_bytes s + total64 > t_max_session_surface_bytes t
        then ((ENOSPC, 0, 0, 0), s)
        else let sf = \<lparr>sf_id = s_next_surface_id s, sf_width_px = width_px,
                       sf_height_px = height_px, sf_format = format,
                       sf_stride_bytes = ucast stride64, sf_bytes_total = ucast total64,
                       sf_vmobj = None\<rparr>;
                 s' = s\<lparr>s_next_surface_id := s_next_surface_id s + 1,
                        s_surfaces := s_surfaces s @ [sf],
                        s_surfaces_count := s_surfaces_count s + 1,
                        s_surfaces_bytes := s_surfaces_bytes s + total64\<rparr>
             in ((0, sf_id sf, sf_stride_bytes sf, sf_bytes_total sf), s'))"

text \<open>Taking one surface off the session: shared by destruction and teardown.\<close>

definition drawfs_surface_detach ::
  "drawfs_session \<Rightarrow> drawfs_surface \<Rightarrow> drawfs_session" where
  "drawfs_surface_detach s sf =
     s\<lparr>s_surfaces := remove1 sf (s_surfaces s),
       s_surfaces_count := (if s_surfaces_count s > 0 then s_surfaces_count s - 1
                            else s_surfaces_count s),
       s_surfaces_bytes := (if s_surfaces_bytes s \<ge> ucast (sf_bytes_total sf)
                            then s_surfaces_bytes s - ucast (sf_bytes_total sf) else 0),
       s_map_surface_id := (if s_map_surface_id s = sf_id sf then 0 else s_map_surface_id s)\<rparr>"

definition vmobj_release :: "drawfs_globals \<Rightarrow> vm_object option \<Rightarrow> drawfs_globals" where
  "vmobj_release g vmobj =
     (case vmobj of None \<Rightarrow> g
      | Some obj \<Rightarrow> g\<lparr>g_vmobj_deallocs := g_vmobj_deallocs g + 1,
                      g_vm_calls := g_vm_calls g @ [VmDeallocate obj]\<rparr>)"

definition drawfs_surface_destroy ::
  "drawfs_globals \<Rightarrow> drawfs_session \<Rightarrow> u32 \<Rightarrow> errno \<times> drawfs_globals \<times> drawfs_session" where
  "drawfs_surface_destroy g s sid =
     (if sid = 0 then (EINVAL, g, s)
      else case drawfs_surface_lookup s sid of
        None \<Rightarrow> (ENOENT, g, s)
      | Some sf \<Rightarrow> (0, vmobj_release g (sf_vmobj sf), drawfs_surface_detach s sf))"

definition drawfs_surface_select_for_mmap ::
  "drawfs_session \<Rightarrow> u32 \<Rightarrow> (errno \<times> u32 \<times> u32) \<times> drawfs_session" where
  "drawfs_surface_select_for_mmap s sid =
     (if sid = 0 then ((EINVAL, 0, 0), s)
      else case drawfs_surface_lookup s sid of
        None \<Rightarrow> ((ENOENT, 0, 0), s)
      | Some sf \<Rightarrow> ((0, sf_stride_bytes sf, sf_bytes_total sf), s\<lparr>s_map_surface_id := sid\<rparr>))"

text \<open>
  \<^verbatim>\<open>drawfs_surface_get_vmobj\<close>, first locked section: find the selected surface, check
  the size, take a reference if it has its object already, else pin its id and size.
\<close>

datatype vmobj_lookup = LookupFail errno | LookupHit vm_object | LookupMiss u32 u32

definition get_vmobj_lookup :: "drawfs_session \<Rightarrow> u64 \<Rightarrow> vmobj_lookup" where
  "get_vmobj_lookup s sz =
     (case (if s_map_surface_id s \<noteq> 0 then drawfs_surface_lookup s (s_map_surface_id s) else None)
      of None \<Rightarrow> LookupFail ENOENT
       | Some sf \<Rightarrow> (if sz > ucast (sf_bytes_total sf) then LookupFail EINVAL
                    else case sf_vmobj sf of
                      Some obj \<Rightarrow> LookupHit obj
                    | None \<Rightarrow> LookupMiss (sf_id sf) (sf_bytes_total sf)))"

text \<open>Second locked section: re-find by id, give up, yield to the winner, or install.\<close>

definition set_vmobj :: "u32 \<Rightarrow> vm_object \<Rightarrow> drawfs_surface \<Rightarrow> drawfs_surface" where
  "set_vmobj sid obj sf = (if sf_id sf = sid then sf\<lparr>sf_vmobj := Some obj\<rparr> else sf)"

definition vm_ref :: "drawfs_globals \<Rightarrow> vm_object \<Rightarrow> drawfs_globals" where
  "vm_ref g obj = g\<lparr>g_vm_calls := g_vm_calls g @ [VmReference obj]\<rparr>"

definition get_vmobj_install ::
  "drawfs_globals \<Rightarrow> drawfs_session \<Rightarrow> u32 \<Rightarrow> vm_object \<Rightarrow>
   (errno + vm_object) \<times> drawfs_globals \<times> drawfs_session" where
  "get_vmobj_install g s pinned_id new_obj =
     (case drawfs_surface_lookup s pinned_id of
        None \<Rightarrow> (Inl ENOENT, vmobj_release g (Some new_obj), s)
      | Some sf \<Rightarrow>
         (case sf_vmobj sf of
            Some obj \<Rightarrow>
              (let g' = vmobj_release (vm_ref g obj) (Some new_obj)
               in (Inr obj, g'\<lparr>g_vmobj_install_lost := g_vmobj_install_lost g' + 1\<rparr>, s))
          | None \<Rightarrow>
              (Inr new_obj,
               vm_ref (g\<lparr>g_vmobj_allocs := g_vmobj_allocs g + 1\<rparr>) new_obj,
               s\<lparr>s_surfaces := map (set_vmobj pinned_id new_obj) (s_surfaces s)\<rparr>)))"

definition vm_alloc :: "drawfs_globals \<Rightarrow> vm_object \<Rightarrow> drawfs_globals" where
  "vm_alloc g obj = g\<lparr>g_vm_calls := g_vm_calls g @ [VmAllocate obj]\<rparr>"

text \<open>
  The whole call with nothing between its locked sections; \<open>alloc\<close> is what
  \<^verbatim>\<open>vm_pager_allocate\<close> returns for a size, \<open>None\<close> for NULL.
\<close>

definition drawfs_surface_get_vmobj ::
  "(u32 \<Rightarrow> vm_object option) \<Rightarrow> drawfs_globals \<Rightarrow> drawfs_session \<Rightarrow> u64 \<Rightarrow>
   (errno + vm_object) \<times> drawfs_globals \<times> drawfs_session" where
  "drawfs_surface_get_vmobj alloc g s sz =
     (case get_vmobj_lookup s sz of
        LookupFail e \<Rightarrow> (Inl e, g, s)
      | LookupHit obj \<Rightarrow> (Inr obj, vm_ref g obj, s)
      | LookupMiss pinned_id pinned_bytes \<Rightarrow>
         (case alloc pinned_bytes of
            None \<Rightarrow> (Inl ENOMEM, g, s)
          | Some new_obj \<Rightarrow> get_vmobj_install (vm_alloc g new_obj) s pinned_id new_obj))"

text \<open>Teardown: detach the first surface until the list is empty, then zero the counts.\<close>

function drawfs_surfaces_free_all ::
  "drawfs_globals \<Rightarrow> drawfs_session \<Rightarrow> drawfs_globals \<times> drawfs_session" where
  "drawfs_surfaces_free_all g s =
     (case s_surfaces s of
        [] \<Rightarrow> (g, s\<lparr>s_surfaces_count := 0, s_surfaces_bytes := 0\<rparr>)
      | sf # _ \<Rightarrow> drawfs_surfaces_free_all (vmobj_release g (sf_vmobj sf))
                                         (drawfs_surface_detach s sf))"
  by pat_completeness auto
termination
  by (relation "measure (\<lambda>(g, s). length (s_surfaces s))")
    (auto simp: drawfs_surface_detach_def)

declare drawfs_surfaces_free_all.simps [simp del]


section \<open>The invariant of the surface table\<close>

text \<open>
  Limits under which the 64-bit accounting cannot wrap and a surface's size fits its
  32-bit field. The compiled-in defaults satisfy it.
\<close>

definition tunables_sane :: "drawfs_tunables \<Rightarrow> bool" where
  "tunables_sane t \<longleftrightarrow>
     unat (t_max_surface_bytes t) < 2 ^ 32 \<and>
     unat (t_max_session_surface_bytes t) < 2 ^ 63 \<and>
     unat (t_max_evq_bytes t) < 2 ^ 31"

definition surface_bytes :: "u32 \<Rightarrow> u32 \<Rightarrow> nat" where
  "surface_bytes w h = (4 * unat w * unat h) mod 2 ^ 64"

definition surface_ok :: "drawfs_tunables \<Rightarrow> drawfs_surface \<Rightarrow> bool" where
  "surface_ok t sf \<longleftrightarrow>
     sf_width_px sf \<noteq> 0 \<and> sf_height_px sf \<noteq> 0 \<and> sf_format sf = DRAWFS_FMT_XRGB8888 \<and>
     sf_stride_bytes sf = sf_width_px sf * 4 \<and>
     unat (sf_bytes_total sf) = surface_bytes (sf_width_px sf) (sf_height_px sf) \<and>
     0 < unat (sf_bytes_total sf) \<and>
     unat (sf_bytes_total sf) \<le> unat (t_max_surface_bytes t)"

text \<open>The accounting, and the ids; the second part needs an id counter that has not wrapped.\<close>

definition surfaces_acct :: "drawfs_tunables \<Rightarrow> drawfs_session \<Rightarrow> bool" where
  "surfaces_acct t s \<longleftrightarrow>
     (\<forall>sf \<in> set (s_surfaces s). surface_ok t sf) \<and>
     unat (s_surfaces_count s) = length (s_surfaces s) \<and>
     length (s_surfaces s) \<le> unat (t_max_surfaces t) \<and>
     unat (s_surfaces_bytes s) = (\<Sum>sf\<leftarrow>s_surfaces s. unat (sf_bytes_total sf)) \<and>
     s_surfaces_bytes s \<le> t_max_session_surface_bytes t \<and>
     (s_map_surface_id s = 0 \<or> s_map_surface_id s \<in> sf_id ` set (s_surfaces s))"

definition surfaces_ids :: "drawfs_session \<Rightarrow> bool" where
  "surfaces_ids s \<longleftrightarrow>
     distinct (map sf_id (s_surfaces s)) \<and> s_next_surface_id s \<noteq> 0 \<and>
     (\<forall>sf \<in> set (s_surfaces s). sf_id sf \<noteq> 0 \<and> sf_id sf < s_next_surface_id s)"

definition surfaces_wf :: "drawfs_tunables \<Rightarrow> drawfs_session \<Rightarrow> bool" where
  "surfaces_wf t s \<longleftrightarrow> surfaces_acct t s \<and> surfaces_ids s"

lemma surfaces_wfD: "surfaces_wf t s \<Longrightarrow> surfaces_acct t s" "surfaces_wf t s \<Longrightarrow> surfaces_ids s"
  by (simp_all add: surfaces_wf_def)

lemma tunables_sane_default: "tunables_sane drawfs_default_tunables"
  by (simp add: tunables_sane_def drawfs_default_tunables_def)

subsection \<open>Lookup\<close>

lemma lookup_Some:
  "drawfs_surface_lookup s sid = Some sf \<Longrightarrow> sf \<in> set (s_surfaces s) \<and> sf_id sf = sid"
  by (auto simp: drawfs_surface_lookup_def dest: find_Some_iff_mem)

lemma lookup_None_iff:
  "drawfs_surface_lookup s sid = None \<longleftrightarrow> sid \<notin> sf_id ` set (s_surfaces s)"
  by (auto simp: drawfs_surface_lookup_def find_None_iff)

lemma find_key_distinct:
  "distinct (map f xs) \<Longrightarrow> x \<in> set xs \<Longrightarrow> find (\<lambda>y. f y = f x) xs = Some x"
  by (induction xs) (auto simp: rev_image_eqI)

lemma lookup_distinct:
  "distinct (map sf_id (s_surfaces s)) \<Longrightarrow> sf \<in> set (s_surfaces s) \<Longrightarrow>
   drawfs_surface_lookup s (sf_id sf) = Some sf"
  by (simp add: drawfs_surface_lookup_def find_key_distinct)

subsection \<open>Creation\<close>

lemma total64_nat:
  "unat ((ucast w * 4 :: u64) * ucast h) = surface_bytes w h" for w h :: u32
  by (simp add: surface_bytes_def unat_word_ariths unat_ucast_up mod_mult_right_eq
      mult.commute mult.left_commute)

text \<open>The outcome of a creation request, as a function of what is wrong with it.\<close>

definition create_error ::
  "drawfs_tunables \<Rightarrow> drawfs_session \<Rightarrow> u32 \<Rightarrow> u32 \<Rightarrow> u32 \<Rightarrow> errno" where
  "create_error t s w h fmt =
     (if s_active_display_id s = 0 \<or> w = 0 \<or> h = 0 then EINVAL
      else if fmt \<noteq> DRAWFS_FMT_XRGB8888 then EPROTONOSUPPORT
      else if surface_bytes w h = 0 \<or> unat (t_max_surface_bytes t) < surface_bytes w h then EFBIG
      else if t_max_surfaces t \<le> s_surfaces_count s
            \<or> t_max_session_surface_bytes t < s_surfaces_bytes s + of_nat (surface_bytes w h)
      then ENOSPC else 0)"

definition new_surface :: "drawfs_session \<Rightarrow> u32 \<Rightarrow> u32 \<Rightarrow> u32 \<Rightarrow> drawfs_surface" where
  "new_surface s w h fmt =
     \<lparr>sf_id = s_next_surface_id s, sf_width_px = w, sf_height_px = h, sf_format = fmt,
      sf_stride_bytes = w * 4, sf_bytes_total = of_nat (surface_bytes w h),
      sf_vmobj = None\<rparr>"

lemma ucast_stride: "ucast (ucast w * 4 :: u64) = w * 4" for w :: u32
proof -
  have "unat (ucast w * 4 :: u64) = unat w * 4 mod 2 ^ 64"
    by (simp add: unat_word_ariths unat_ucast_up)
  then show ?thesis
    by (simp add: word_unat_eq_iff [of "ucast _"] unat_ucast_mod unat_word_ariths mod_mod_cancel)
qed

lemma surface_create_eq:
  "drawfs_surface_create t s w h fmt =
     (if create_error t s w h fmt \<noteq> 0 then ((create_error t s w h fmt, 0, 0, 0), s)
      else let sf = new_surface s w h fmt in
        ((0, sf_id sf, sf_stride_bytes sf, sf_bytes_total sf),
         s\<lparr>s_next_surface_id := s_next_surface_id s + 1,
           s_surfaces := s_surfaces s @ [sf],
           s_surfaces_count := s_surfaces_count s + 1,
           s_surfaces_bytes := s_surfaces_bytes s + of_nat (surface_bytes w h)\<rparr>))"
proof -
  let ?tot = "(ucast w * 4 :: u64) * ucast h"
  have tot: "?tot = of_nat (surface_bytes w h)"
    using total64_nat [of w h] by (rule of_nat_unat_eq)
  have sb: "surface_bytes w h < 2 ^ 64" by (simp add: surface_bytes_def)
  have z: "?tot = 0 \<longleftrightarrow> surface_bytes w h = 0"
    using total64_nat [of w h] by (metis unat_eq_0)
  have st: "(ucast w * 4 :: u64) = 0 \<Longrightarrow> surface_bytes w h = 0"
    using z by auto
  have lim: "?tot > t_max_surface_bytes t \<longleftrightarrow> unat (t_max_surface_bytes t) < surface_bytes w h"
    using total64_nat [of w h] by (simp add: word_less_nat_alt)
  have uc: "ucast ?tot = (of_nat (surface_bytes w h) :: u32)"
    unfolding tot using sb by (simp add: word_unat_eq_iff unat_ucast_mod unat_of_nat)
  have big: "(ucast w * 4 :: u64) = 0 \<or> ?tot = 0 \<or> ?tot > t_max_surface_bytes t \<longleftrightarrow>
      surface_bytes w h = 0 \<or> unat (t_max_surface_bytes t) < surface_bytes w h"
    using st z lim by blast
  have split: "a \<noteq> 0 \<Longrightarrow> b \<noteq> 0 \<Longrightarrow> c \<noteq> 0 \<Longrightarrow> d \<noteq> 0 \<Longrightarrow>
      (if A then ((a, r), s) else if B then ((a, r), s) else if C then ((b, r), s)
       else if D then ((c, r), s) else if E then ((d, r), s) else x) =
      (if (if A \<or> B then a else if C then b else if D then c else if E then d else 0) \<noteq> 0
       then ((if A \<or> B then a else if C then b else if D then c else if E then d else 0, r), s)
       else x)"
    for A B C D E and a b c d :: errno and r :: "u32 \<times> u32 \<times> u32" and s x
    by simp
  show ?thesis
    unfolding drawfs_surface_create_def Let_def big ucast_stride uc
    by (subst split) (simp_all add: tot create_error_def new_surface_def Let_def)
qed

lemma surface_bytes_less: "surface_bytes w h < 2 ^ 64"
  by (simp add: surface_bytes_def)

lemma create_error_0D:
  assumes "create_error t s w h fmt = 0"
  shows "s_active_display_id s \<noteq> 0" "w \<noteq> 0" "h \<noteq> 0" "fmt = DRAWFS_FMT_XRGB8888"
    "0 < surface_bytes w h" "surface_bytes w h \<le> unat (t_max_surface_bytes t)"
    "s_surfaces_count s < t_max_surfaces t"
    "s_surfaces_bytes s + of_nat (surface_bytes w h) \<le> t_max_session_surface_bytes t"
  using assms by (auto simp: create_error_def not_less not_le split: if_splits)

lemma new_surface_ok:
  assumes "create_error t s w h fmt = 0" "tunables_sane t"
  shows "surface_ok t (new_surface s w h fmt)"
    "unat (sf_bytes_total (new_surface s w h fmt)) = surface_bytes w h"
proof -
  have "surface_bytes w h < 2 ^ 32"
    using create_error_0D(6) [OF assms(1)] assms(2) by (simp add: tunables_sane_def)
  then show "unat (sf_bytes_total (new_surface s w h fmt)) = surface_bytes w h"
    by (simp add: new_surface_def unat_of_nat)
  then show "surface_ok t (new_surface s w h fmt)"
    using create_error_0D [OF assms(1)] by (simp add: surface_ok_def new_surface_def)
qed

text \<open>
  Creation keeps the accounting; it keeps the ids distinct as long as the 32-bit id
  counter has not been used up.
\<close>

lemma create_acct:
  assumes acct: "surfaces_acct t s" and sane: "tunables_sane t"
  shows "surfaces_acct t (snd (drawfs_surface_create t s w h fmt))"
proof (cases "create_error t s w h fmt = 0")
  case False
  then show ?thesis using acct by (simp add: surface_create_eq)
next
  case True
  note ok = new_surface_ok [OF True sane]
  have cnt: "unat (s_surfaces_count s + 1) = unat (s_surfaces_count s) + 1"
    using create_error_0D(7) [OF True] unat_lt_size [of "t_max_surfaces t"]
    by (subst unat_inc_no_wrap) (auto simp: word_less_nat_alt)
  have "surface_bytes w h < 2 ^ 32" "unat (s_surfaces_bytes s) < 2 ^ 63"
    using create_error_0D(6) [OF True] sane acct
    by (auto simp: tunables_sane_def surfaces_acct_def word_le_nat_alt)
  then have byt: "unat (s_surfaces_bytes s + of_nat (surface_bytes w h))
      = unat (s_surfaces_bytes s) + surface_bytes w h"
    by (subst unat_add_no_wrap) (auto simp: unat_of_nat)
  have room: "Suc (length (s_surfaces s)) \<le> unat (t_max_surfaces t)"
    using create_error_0D(7) [OF True] acct by (simp add: surfaces_acct_def word_less_nat_alt)
  show ?thesis
    using acct True ok create_error_0D(8) [OF True] cnt byt room
    by (auto simp: surface_create_eq Let_def surfaces_acct_def)
qed

lemma acct_has_surface:
  assumes "surfaces_acct t s" "sf \<in> set (s_surfaces s)"
  shows "0 < s_surfaces_count s" "ucast (sf_bytes_total sf) \<le> s_surfaces_bytes s"
  using assms sum_list_map_remove1 [OF assms(2), of "\<lambda>sf. unat (sf_bytes_total sf)"]
  by (auto simp: surfaces_acct_def word_less_nat_alt word_le_nat_alt unat_ucast_up
      length_pos_if_in_set)

text \<open>The limits in plain numbers, when the size does not wrap.\<close>

lemma create_error_0_iff:
  assumes sane: "tunables_sane t" and acct: "surfaces_acct t s"
    and nw: "4 * unat w * unat h < 2 ^ 64"
  shows "create_error t s w h fmt = 0 \<longleftrightarrow>
    s_active_display_id s \<noteq> 0 \<and> w \<noteq> 0 \<and> h \<noteq> 0 \<and> fmt = DRAWFS_FMT_XRGB8888 \<and>
    4 * unat w * unat h \<le> unat (t_max_surface_bytes t) \<and>
    length (s_surfaces s) < unat (t_max_surfaces t) \<and>
    (\<Sum>sf\<leftarrow>s_surfaces s. unat (sf_bytes_total sf)) + 4 * unat w * unat h
      \<le> unat (t_max_session_surface_bytes t)"
proof -
  have sb: "surface_bytes w h = 4 * unat w * unat h" using nw by (simp add: surface_bytes_def)
  have pos: "w \<noteq> 0 \<Longrightarrow> h \<noteq> 0 \<Longrightarrow> surface_bytes w h \<noteq> 0" by (simp add: sb unat_eq_0)
  have bytes: "unat (s_surfaces_bytes s) = (\<Sum>sf\<leftarrow>s_surfaces s. unat (sf_bytes_total sf))"
    "unat (s_surfaces_bytes s) < 2 ^ 63"
    using acct sane by (auto simp: surfaces_acct_def tunables_sane_def word_le_nat_alt)
  have cnt: "t_max_surfaces t \<le> s_surfaces_count s \<longleftrightarrow>
      unat (t_max_surfaces t) \<le> length (s_surfaces s)"
    using acct by (simp add: surfaces_acct_def word_le_nat_alt)
  have add: "unat (s_surfaces_bytes s + of_nat (surface_bytes w h))
      = unat (s_surfaces_bytes s) + surface_bytes w h"
    if "surface_bytes w h \<le> unat (t_max_surface_bytes t)"
    using that bytes(2) sane
    by (subst unat_add_no_wrap) (auto simp: tunables_sane_def unat_of_nat)
  have lim: "t_max_session_surface_bytes t < s_surfaces_bytes s + of_nat (surface_bytes w h) \<longleftrightarrow>
      unat (t_max_session_surface_bytes t) < (\<Sum>sf\<leftarrow>s_surfaces s. unat (sf_bytes_total sf))
        + surface_bytes w h"
    if "surface_bytes w h \<le> unat (t_max_surface_bytes t)"
    using add [OF that] bytes(1) by (simp add: word_less_nat_alt)
  show ?thesis
  proof (cases "w = 0 \<or> h = 0")
    case True
    then show ?thesis by (auto simp: create_error_def)
  next
    case False
    then have "surface_bytes w h \<noteq> 0" using pos by blast
    with False lim show ?thesis
      unfolding sb [symmetric] create_error_def by (auto simp: cnt not_less not_le)
  qed
qed

lemma create_ids:
  assumes ids: "surfaces_ids s" and nx: "s_next_surface_id s \<noteq> - 1"
  shows "surfaces_ids (snd (drawfs_surface_create t s w h fmt))"
proof -
  have "unat (s_next_surface_id s + 1) = unat (s_next_surface_id s) + 1"
    by (rule unat_inc_ne [OF nx])
  then have lt: "s_next_surface_id s < s_next_surface_id s + 1"
    and nz: "s_next_surface_id s + 1 \<noteq> 0"
    by (auto simp: word_less_nat_alt)
  have older: "sf_id sf < s_next_surface_id s + 1" if "sf \<in> set (s_surfaces s)" for sf
    using that ids lt less_trans by (auto simp: surfaces_ids_def)
  show ?thesis
    using ids older lt nz
    by (auto simp: surface_create_eq Let_def surfaces_ids_def new_surface_def)
qed

lemma create_wf:
  "surfaces_wf t s \<Longrightarrow> tunables_sane t \<Longrightarrow> s_next_surface_id s \<noteq> - 1 \<Longrightarrow>
   surfaces_wf t (snd (drawfs_surface_create t s w h fmt))"
  by (simp add: surfaces_wf_def create_acct create_ids)

subsection \<open>Destruction\<close>

lemma detach_acct:
  assumes acct: "surfaces_acct t s" and sf: "sf \<in> set (s_surfaces s)"
  shows "surfaces_acct t (drawfs_surface_detach s sf)"
proof -
  let ?rest = "remove1 sf (s_surfaces s)"
  have sum: "(\<Sum>sf\<leftarrow>?rest. unat (sf_bytes_total sf)) + unat (sf_bytes_total sf)
      = unat (s_surfaces_bytes s)"
    using acct sum_list_map_remove1 [OF sf] by (simp add: surfaces_acct_def)
  then have le: "ucast (sf_bytes_total sf) \<le> s_surfaces_bytes s"
    by (simp add: word_le_nat_alt unat_ucast_up)
  then have byt: "unat (s_surfaces_bytes s - ucast (sf_bytes_total sf))
      = (\<Sum>sf\<leftarrow>?rest. unat (sf_bytes_total sf))"
    using sum by (simp add: unat_sub unat_ucast_up)
  have pos: "0 < s_surfaces_count s"
    using acct sf by (auto simp: surfaces_acct_def word_less_nat_alt length_pos_if_in_set)
  then have "unat (s_surfaces_count s - 1) = unat (s_surfaces_count s) - 1"
    by (simp add: unat_minus_one)
  then have cnt: "unat (s_surfaces_count s - 1) = length ?rest"
    using acct sf by (simp add: surfaces_acct_def length_remove1)
  have bound: "s_surfaces_bytes s - ucast (sf_bytes_total sf) \<le> t_max_session_surface_bytes t"
    using acct byt sum le_trans [of _ "unat (s_surfaces_bytes s)"]
    by (simp add: surfaces_acct_def word_le_nat_alt)
  have sub: "set ?rest \<subseteq> set (s_surfaces s)" by (rule set_remove1_subset)
  have len: "length ?rest \<le> unat (t_max_surfaces t)"
    using acct by (auto simp: surfaces_acct_def length_remove1 intro: le_trans [OF diff_le_self])
  have all: "\<forall>sf \<in> set ?rest. surface_ok t sf"
    using acct sub by (auto simp: surfaces_acct_def)
  have sel: "s_map_surface_id s = sf_id sf \<or> s_map_surface_id s = 0 \<or>
      s_map_surface_id s \<in> sf_id ` set ?rest"
    using acct by (auto simp: surfaces_acct_def image_iff) (metis in_set_remove1)
  show ?thesis
    unfolding surfaces_acct_def drawfs_surface_detach_def
    using le byt pos cnt bound len all sel by simp blast
qed

lemma detach_ids:
  assumes "surfaces_ids s"
  shows "surfaces_ids (drawfs_surface_detach s sf)"
proof -
  have d: "distinct (s_surfaces s)"
    using assms by (simp add: surfaces_ids_def distinct_map)
  show ?thesis
    using assms
    by (auto simp: surfaces_ids_def drawfs_surface_detach_def distinct_map distinct_remove1
        inj_on_def set_remove1_eq [OF d])
qed

lemma destroy_acct:
  "surfaces_acct t s \<Longrightarrow> surfaces_acct t (snd (snd (drawfs_surface_destroy g s sid)))"
  by (auto simp: drawfs_surface_destroy_def split: option.splits
      dest: lookup_Some intro: detach_acct)

lemma destroy_ids:
  "surfaces_ids s \<Longrightarrow> surfaces_ids (snd (snd (drawfs_surface_destroy g s sid)))"
  by (auto simp: drawfs_surface_destroy_def split: option.splits intro: detach_ids)

lemma destroy_wf:
  "surfaces_wf t s \<Longrightarrow> surfaces_wf t (snd (snd (drawfs_surface_destroy g s sid)))"
  by (simp add: surfaces_wf_def destroy_acct destroy_ids)

lemma select_wf:
  assumes "surfaces_wf t s"
  shows "surfaces_wf t (snd (drawfs_surface_select_for_mmap s sid))"
  using assms by (auto simp: drawfs_surface_select_for_mmap_def surfaces_wf_def
      surfaces_acct_def surfaces_ids_def split: option.splits dest: lookup_Some)

lemma set_vmobj_simps [simp]:
  "sf_id (set_vmobj sid obj sf) = sf_id sf"
  "sf_bytes_total (set_vmobj sid obj sf) = sf_bytes_total sf"
  "surface_ok t (set_vmobj sid obj sf) = surface_ok t sf"
  by (simp_all add: set_vmobj_def surface_ok_def)

lemma install_wf:
  assumes "surfaces_wf t s"
  shows "surfaces_wf t (snd (snd (get_vmobj_install g s pid obj)))"
  using assms
  by (auto simp: get_vmobj_install_def surfaces_wf_def surfaces_acct_def surfaces_ids_def
      Let_def comp_def image_image split: option.splits)

lemma get_vmobj_wf:
  assumes "surfaces_wf t s"
  shows "surfaces_wf t (snd (snd (drawfs_surface_get_vmobj alloc g s sz)))"
  using assms by (auto simp: drawfs_surface_get_vmobj_def install_wf
      split: option.splits vmobj_lookup.splits)

text \<open>Looking a surface up after each operation.\<close>

lemma lookup_create:
  assumes "surfaces_ids s" "create_error t s w h fmt = 0"
  shows "drawfs_surface_lookup (snd (drawfs_surface_create t s w h fmt)) sid =
    (if sid = s_next_surface_id s then Some (new_surface s w h fmt)
     else drawfs_surface_lookup s sid)"
proof -
  have "s_next_surface_id s \<notin> sf_id ` set (s_surfaces s)"
    using assms(1) by (auto simp: surfaces_ids_def)
  then have "drawfs_surface_lookup s (s_next_surface_id s) = None"
    by (simp add: lookup_None_iff)
  then show ?thesis
    using assms(2)
    by (auto simp: surface_create_eq drawfs_surface_lookup_def Let_def new_surface_def
        find_append split: option.splits)
qed

subsection \<open>Teardown\<close>

definition surface_objects :: "drawfs_surface list \<Rightarrow> vm_object list" where
  "surface_objects sfs = List.map_filter sf_vmobj sfs"

lemma surface_objects_simps [simp]:
  "surface_objects [] = []"
  "surface_objects (sf # sfs) =
     (case sf_vmobj sf of None \<Rightarrow> surface_objects sfs | Some obj \<Rightarrow> obj # surface_objects sfs)"
  "surface_objects (xs @ ys) = surface_objects xs @ surface_objects ys"
  by (simp_all add: surface_objects_def map_filter_simps List.map_filter_def split: option.splits)

lemma free_all_spec:
  "drawfs_surfaces_free_all g s = (g', s') \<Longrightarrow>
     s_surfaces s' = [] \<and> s_surfaces_count s' = 0 \<and> s_surfaces_bytes s' = 0 \<and>
     g_vm_calls g' = g_vm_calls g @ map VmDeallocate (surface_objects (s_surfaces s)) \<and>
     g_vmobj_deallocs g' = g_vmobj_deallocs g + of_nat (length (surface_objects (s_surfaces s))) \<and>
     g_vmobj_allocs g' = g_vmobj_allocs g \<and> g_vmobj_install_lost g' = g_vmobj_install_lost g"
proof (induction g s rule: drawfs_surfaces_free_all.induct)
  case (1 g s)
  show ?case
  proof (cases "s_surfaces s")
    case Nil
    then show ?thesis
      using "1.prems" by (auto simp: drawfs_surfaces_free_all.simps [of g s])
  next
    case (Cons sf rest)
    have d: "s_surfaces (drawfs_surface_detach s sf) = rest"
      by (simp add: drawfs_surface_detach_def Cons)
    have "drawfs_surfaces_free_all (vmobj_release g (sf_vmobj sf))
        (drawfs_surface_detach s sf) = (g', s')"
      using "1.prems" Cons by (simp add: drawfs_surfaces_free_all.simps [of g s])
    from "1.IH" [OF Cons this] show ?thesis
      unfolding d Cons by (auto simp: vmobj_release_def split: option.splits)
  qed
qed

lemma free_all_fields:
  "drawfs_surfaces_free_all g s = (g', s') \<Longrightarrow>
     s_closing s' = s_closing s \<and> s_evq s' = s_evq s \<and> s_inbuf s' = s_inbuf s"
proof (induction g s rule: drawfs_surfaces_free_all.induct)
  case (1 g s)
  show ?case
  proof (cases "s_surfaces s")
    case Nil
    then show ?thesis
      using "1.prems" by (auto simp: drawfs_surfaces_free_all.simps [of g s])
  next
    case (Cons sf rest)
    have "drawfs_surfaces_free_all (vmobj_release g (sf_vmobj sf))
        (drawfs_surface_detach s sf) = (g', s')"
      using "1.prems" Cons by (simp add: drawfs_surfaces_free_all.simps [of g s])
    from "1.IH" [OF Cons this] show ?thesis by (simp add: drawfs_surface_detach_def)
  qed
qed

section \<open>The surface table as a finite map\<close>

text \<open>
  What the rest of the driver relies on: a table of surfaces by id with insertion at a
  fresh id and deletion. The lemmas of the interface are about any such table; the
  session's surface list interprets it.
\<close>

locale id_table =
  fixes lookup :: "'t \<Rightarrow> 'k \<Rightarrow> 'v option"
    and add :: "'t \<Rightarrow> 'v \<Rightarrow> 't"
    and del :: "'t \<Rightarrow> 'k \<Rightarrow> 't"
    and key :: "'v \<Rightarrow> 'k"
    and invar :: "'t \<Rightarrow> bool"
  assumes lookup_add: "invar t \<Longrightarrow> lookup t (key v) = None \<Longrightarrow>
      lookup (add t v) k = (if k = key v then Some v else lookup t k)"
    and lookup_del: "invar t \<Longrightarrow> lookup (del t k') k = (if k = k' then None else lookup t k)"
    and invar_add: "invar t \<Longrightarrow> lookup t (key v) = None \<Longrightarrow> invar (add t v)"
    and invar_del: "invar t \<Longrightarrow> invar (del t k)"
begin

lemma del_add_lookup:
  assumes "invar t" "lookup t (key v) = None"
  shows "lookup (del (add t v) (key v)) = lookup t"
  using assms by (auto simp: fun_eq_iff lookup_del lookup_add invar_add)

lemma del_del: "invar t \<Longrightarrow> lookup (del (del t k) k') = lookup (del (del t k') k)"
  by (auto simp: fun_eq_iff lookup_del invar_del)

lemma del_absent: "invar t \<Longrightarrow> lookup t k = None \<Longrightarrow> lookup (del t k) = lookup t"
  by (auto simp: fun_eq_iff lookup_del)

lemma add_distinct_keys:
  assumes "invar t" "lookup t (key v) = None" "lookup t (key w) = None" "key v \<noteq> key w"
  shows "lookup (add (add t v) w) (key v) = Some v"
proof -
  have "invar (add t v)" "lookup (add t v) (key w) = None"
    using assms by (auto simp: invar_add lookup_add)
  then show ?thesis using assms by (simp add: lookup_add)
qed

end

definition table_lookup :: "drawfs_surface list \<Rightarrow> u32 \<Rightarrow> drawfs_surface option" where
  "table_lookup sfs sid = find (\<lambda>it. sf_id it = sid) sfs"

definition table_remove :: "drawfs_surface list \<Rightarrow> u32 \<Rightarrow> drawfs_surface list" where
  "table_remove sfs sid =
     (case table_lookup sfs sid of None \<Rightarrow> sfs | Some sf \<Rightarrow> remove1 sf sfs)"

lemma table_remove_Nil [simp]: "table_remove [] sid = []"
  by (simp add: table_remove_def table_lookup_def)

lemma table_remove_Cons [simp]:
  "table_remove (sf # sfs) sid = (if sf_id sf = sid then sfs else sf # table_remove sfs sid)"
  by (auto simp: table_remove_def table_lookup_def dest: find_Some_iff_mem split: option.splits)

lemma set_table_remove: "set (table_remove sfs sid) \<subseteq> set sfs"
  by (induction sfs) auto

interpretation surf_table: id_table
  table_lookup "\<lambda>sfs sf. sfs @ [sf]" table_remove sf_id "\<lambda>sfs. distinct (map sf_id sfs)"
proof (unfold_locales, goal_cases)
  case (1 t v k)
  then show ?case by (auto simp: table_lookup_def find_append split: option.splits)
next
  case (2 t k' k)
  then show ?case
    by (induction t) (auto simp: table_lookup_def find_None_iff rev_image_eqI)
next
  case (3 t v)
  then show ?case by (auto simp: table_lookup_def find_None_iff)
next
  case (4 t k)
  then show ?case
    by (induction t) (auto dest: set_table_remove [THEN subsetD])
qed

lemma lookup_table: "drawfs_surface_lookup s = table_lookup (s_surfaces s)"
  by (simp add: fun_eq_iff drawfs_surface_lookup_def table_lookup_def)

lemma destroy_table:
  "sid \<noteq> 0 \<Longrightarrow>
   s_surfaces (snd (snd (drawfs_surface_destroy g s sid))) = table_remove (s_surfaces s) sid"
  by (auto simp: drawfs_surface_destroy_def lookup_table table_remove_def
      drawfs_surface_detach_def split: option.splits)

lemma lookup_destroy:
  assumes "surfaces_ids s" "sid \<noteq> 0"
  shows "drawfs_surface_lookup (snd (snd (drawfs_surface_destroy g s sid))) k =
    (if k = sid then None else drawfs_surface_lookup s k)"
  using assms by (simp add: lookup_table destroy_table surf_table.lookup_del surfaces_ids_def)

end
