(* ===== verification/Drawfs_Vmobj.thy ===== *)
theory Drawfs_Vmobj
  imports Drawfs_Surface
begin

text \<open>
  Concurrent use of \<^verbatim>\<open>drawfs_surface_get_vmobj\<close> (\<^verbatim>\<open>drawfs_surface.c\<close>, the AD-18.2
  analysis in its comment): any number of threads map surfaces of one session while others
  create, select and destroy surfaces. A step is one locked section. Between its two locked
  sections a mapping thread holds a pinned surface id and the object it has just
  allocated; \<open>vs_mapped\<close> are the references handed out to \<^verbatim>\<open>mmap\<close>, and \<open>vs_lost\<close>
  counts the redundant objects given back after a lost race.
\<close>

section \<open>The system\<close>

record vm_sys =
  vs_g :: drawfs_globals
  vs_s :: drawfs_session
  vs_pinned :: "(u32 \<times> vm_object) list"
  vs_mapped :: "vm_object list"
  vs_lost :: nat

definition vm_fresh :: "drawfs_globals \<Rightarrow> vm_object \<Rightarrow> bool" where
  "vm_fresh g obj \<longleftrightarrow>
     VmAllocate obj \<notin> set (g_vm_calls g) \<and> VmReference obj \<notin> set (g_vm_calls g) \<and>
     VmDeallocate obj \<notin> set (g_vm_calls g)"

text \<open>
  The steps. \<^verbatim>\<open>vm_pager_allocate\<close> returns an object that was not there before; an id
  counter that has run through all 32-bit values is outside this model.
\<close>

inductive vm_step :: "drawfs_tunables \<Rightarrow> vm_sys \<Rightarrow> vm_sys \<Rightarrow> bool" for t where
  create: "s_next_surface_id (vs_s y) \<noteq> - 1 \<Longrightarrow>
     vm_step t y (y\<lparr>vs_s := snd (drawfs_surface_create t (vs_s y) w h fmt)\<rparr>)"
| destroy: "drawfs_surface_destroy (vs_g y) (vs_s y) sid = (e, g', s') \<Longrightarrow>
     vm_step t y (y\<lparr>vs_g := g', vs_s := s'\<rparr>)"
| select: "vm_step t y (y\<lparr>vs_s := snd (drawfs_surface_select_for_mmap (vs_s y) sid)\<rparr>)"
| map_hit: "get_vmobj_lookup (vs_s y) sz = LookupHit obj \<Longrightarrow>
     vm_step t y (y\<lparr>vs_g := vm_ref (vs_g y) obj, vs_mapped := obj # vs_mapped y\<rparr>)"
| map_miss: "get_vmobj_lookup (vs_s y) sz = LookupMiss sid n \<Longrightarrow> vm_fresh (vs_g y) obj \<Longrightarrow>
     vm_step t y (y\<lparr>vs_g := vm_alloc (vs_g y) obj, vs_pinned := (sid, obj) # vs_pinned y\<rparr>)"
| install: "(sid, obj) \<in> set (vs_pinned y) \<Longrightarrow>
     get_vmobj_install (vs_g y) (vs_s y) sid obj = (r, g', s') \<Longrightarrow>
     vm_step t y (y\<lparr>vs_g := g', vs_s := s', vs_pinned := remove1 (sid, obj) (vs_pinned y),
        vs_mapped := (case r of Inl _ \<Rightarrow> vs_mapped y | Inr o' \<Rightarrow> o' # vs_mapped y),
        vs_lost := (if g_vmobj_allocs g' = g_vmobj_allocs (vs_g y) then Suc (vs_lost y)
                    else vs_lost y)\<rparr>)"

inductive vm_reachable :: "drawfs_tunables \<Rightarrow> vm_sys \<Rightarrow> vm_sys \<Rightarrow> bool" for t y0 where
  start: "vm_reachable t y0 y0"
| step: "vm_reachable t y0 y \<Longrightarrow> vm_step t y y' \<Longrightarrow> vm_reachable t y0 y'"

inductive_cases vm_stepE: "vm_step t y y'"

section \<open>Reference counts\<close>

text \<open>The count the VM keeps: an object starts with one reference.\<close>

fun vm_refs :: "vm_call list \<Rightarrow> vm_object \<Rightarrow> int" where
  "vm_refs [] x = 0"
| "vm_refs (VmAllocate o' # cs) x = (if o' = x then 1 else 0) + vm_refs cs x"
| "vm_refs (VmReference o' # cs) x = (if o' = x then 1 else 0) + vm_refs cs x"
| "vm_refs (VmDeallocate o' # cs) x = vm_refs cs x - (if o' = x then 1 else 0)"

lemma vm_refs_append: "vm_refs (as @ bs) x = vm_refs as x + vm_refs bs x"
  by (induction as x rule: vm_refs.induct) auto

text \<open>The references the system can account for.\<close>

definition vm_held :: "vm_sys \<Rightarrow> vm_object \<Rightarrow> nat" where
  "vm_held y x = count_list (surface_objects (s_surfaces (vs_s y))) x
     + count_list (map snd (vs_pinned y)) x + count_list (vs_mapped y) x"

definition vm_balanced :: "vm_sys \<Rightarrow> bool" where
  "vm_balanced y \<longleftrightarrow> (\<forall>x. vm_refs (g_vm_calls (vs_g y)) x = int (vm_held y x))"

definition vm_counted :: "vm_sys \<Rightarrow> bool" where
  "vm_counted y \<longleftrightarrow>
     g_vmobj_allocs (vs_g y) + of_nat (vs_lost y) =
     g_vmobj_deallocs (vs_g y) + of_nat (length (surface_objects (s_surfaces (vs_s y))))"

lemma count_list_remove1: "x \<in> set xs \<Longrightarrow>
    count_list (remove1 x xs) y + (if x = y then 1 else 0) = count_list xs y"
  by (induction xs) auto

lemma count_list_map_remove1:
  "p \<in> set ps \<Longrightarrow>
   count_list (map snd (remove1 p ps)) x + (if snd p = x then 1 else 0) = count_list (map snd ps) x"
  by (induction ps) auto

lemma surface_objects_remove1:
  "sf \<in> set sfs \<Longrightarrow>
   count_list (surface_objects sfs) x =
   count_list (surface_objects (remove1 sf sfs)) x + (if sf_vmobj sf = Some x then 1 else 0)"
  "sf \<in> set sfs \<Longrightarrow>
   length (surface_objects sfs) =
   length (surface_objects (remove1 sf sfs)) + (if sf_vmobj sf = None then 0 else 1)"
  by (induction sfs) (auto split: option.splits)

lemma set_vmobj_absent:
  "sid \<notin> sf_id ` set sfs \<Longrightarrow> map (set_vmobj sid obj) sfs = sfs"
  by (induction sfs) (auto simp: set_vmobj_def)

lemma surface_objects_install:
  assumes "distinct (map sf_id sfs)" "sf \<in> set sfs" "sf_id sf = sid" "sf_vmobj sf = None"
  shows "count_list (surface_objects (map (set_vmobj sid obj) sfs)) x
      = count_list (surface_objects sfs) x + (if obj = x then 1 else 0)"
    "length (surface_objects (map (set_vmobj sid obj) sfs)) = Suc (length (surface_objects sfs))"
  using assms
  by (induction sfs) (auto simp: set_vmobj_def set_vmobj_absent split: option.splits)

section \<open>Each step keeps the balance\<close>

lemma create_objects:
  "surface_objects (s_surfaces (snd (drawfs_surface_create t s w h fmt)))
     = surface_objects (s_surfaces s)"
  by (simp add: surface_create_eq Let_def new_surface_def)

lemma select_objects:
  "s_surfaces (snd (drawfs_surface_select_for_mmap s sid)) = s_surfaces s"
  by (simp add: drawfs_surface_select_for_mmap_def split: option.splits)

lemma vm_step_wf:
  assumes "vm_step t y y'" "tunables_sane t" "surfaces_wf t (vs_s y)"
  shows "surfaces_wf t (vs_s y')"
  using assms(1)
proof (cases rule: vm_step.cases)
  case (destroy sid e g' s')
  then show ?thesis using destroy_wf [OF assms(3), of "vs_g y" sid] by simp
next
  case (install sid obj r g' s')
  then show ?thesis using install_wf [OF assms(3), of "vs_g y" sid obj] by simp
qed (use assms in \<open>simp_all add: create_wf select_wf\<close>)

lemma destroy_balance:
  assumes "drawfs_surface_destroy g s sid = (e, g', s')"
  shows "vm_refs (g_vm_calls g') x - int (count_list (surface_objects (s_surfaces s')) x)
      = vm_refs (g_vm_calls g) x - int (count_list (surface_objects (s_surfaces s)) x)"
    "g_vmobj_allocs g' = g_vmobj_allocs g"
    "g_vmobj_deallocs g' + of_nat (length (surface_objects (s_surfaces s')))
      = g_vmobj_deallocs g + of_nat (length (surface_objects (s_surfaces s)))"
proof -
  have "sid \<noteq> 0 \<Longrightarrow> drawfs_surface_lookup s sid = Some sf \<Longrightarrow> sf \<in> set (s_surfaces s)" for sf
    using lookup_Some by blast
  then show "vm_refs (g_vm_calls g') x - int (count_list (surface_objects (s_surfaces s')) x)
      = vm_refs (g_vm_calls g) x - int (count_list (surface_objects (s_surfaces s)) x)"
    "g_vmobj_allocs g' = g_vmobj_allocs g"
    "g_vmobj_deallocs g' + of_nat (length (surface_objects (s_surfaces s')))
      = g_vmobj_deallocs g + of_nat (length (surface_objects (s_surfaces s)))"
    using assms
    by (auto simp: drawfs_surface_destroy_def drawfs_surface_detach_def vmobj_release_def
        vm_refs_append surface_objects_remove1 split: if_splits option.splits)
qed

lemma install_balance:
  assumes "get_vmobj_install g s sid obj = (r, g', s')" "surfaces_wf t s"
  shows "vm_refs (g_vm_calls g') x - int (count_list (surface_objects (s_surfaces s')) x)
        - (case r of Inl _ \<Rightarrow> 0 | Inr o' \<Rightarrow> if o' = x then 1 else 0)
      = vm_refs (g_vm_calls g) x - int (count_list (surface_objects (s_surfaces s)) x)
        - (if obj = x then 1 else 0)" (is ?refs)
    "g_vmobj_allocs g' + of_nat (if g_vmobj_allocs g' = g_vmobj_allocs g then 1 else 0)
        - (g_vmobj_deallocs g' + of_nat (length (surface_objects (s_surfaces s'))))
      = g_vmobj_allocs g - (g_vmobj_deallocs g + of_nat (length (surface_objects (s_surfaces s))))"
      (is ?cnt)
proof -
  have dist: "distinct (map sf_id (s_surfaces s))" using assms(2) by (simp add: surfaces_wf_def surfaces_ids_def)
  have "?refs \<and> ?cnt"
  proof (cases "drawfs_surface_lookup s sid")
    case None
    then show ?thesis
      using assms(1) by (auto simp: get_vmobj_install_def vmobj_release_def vm_refs_append)
  next
    case (Some sf)
    note sf = lookup_Some [OF Some]
    show ?thesis
    proof (cases "sf_vmobj sf")
      case None
      have "sf \<in> set (s_surfaces s)" "sf_id sf = sid" using sf by auto
      note inst = surface_objects_install [OF dist this None]
      show ?thesis
        using assms(1) Some None
        by (auto simp: get_vmobj_install_def vm_ref_def vm_refs_append inst)
    next
      case (Some obj')
      then show ?thesis
        using assms(1) \<open>drawfs_surface_lookup s sid = Some sf\<close>
        by (auto simp: get_vmobj_install_def vm_ref_def vmobj_release_def vm_refs_append Let_def)
    qed
  qed
  then show ?refs ?cnt by auto
qed

lemma vm_step_balanced:
  assumes step: "vm_step t y y'" and wf: "surfaces_wf t (vs_s y)" and bal: "vm_balanced y"
  shows "vm_balanced y'"
  unfolding vm_balanced_def
proof
  fix x
  have b: "vm_refs (g_vm_calls (vs_g y)) x = int (vm_held y x)"
    using bal by (simp add: vm_balanced_def)
  show "vm_refs (g_vm_calls (vs_g y')) x = int (vm_held y' x)"
    using step
  proof (cases rule: vm_step.cases)
    case (create w h fmt)
    then show ?thesis using b by (simp add: vm_held_def create_objects)
  next
    case (destroy sid e g' s')
    then show ?thesis using b destroy_balance(1) [OF destroy(2), of x] by (simp add: vm_held_def)
  next
    case (select sid)
    then show ?thesis using b by (simp add: vm_held_def select_objects)
  next
    case (map_hit sz obj)
    then show ?thesis using b by (simp add: vm_held_def vm_ref_def vm_refs_append)
  next
    case (map_miss sz sid n obj)
    then show ?thesis using b by (simp add: vm_held_def vm_alloc_def vm_refs_append)
  next
    case (install sid obj r g' s')
    then show ?thesis
      using b install_balance(1) [OF install(3) wf, of x]
        count_list_map_remove1 [OF install(2), of x]
      by (auto simp: vm_held_def split: sum.splits if_splits)
  qed
qed

lemma counted_shift:
  fixes a a' b b' k l :: "'a::ab_group_add"
  assumes "a + l = b" "a' + k - b' = a - b"
  shows "a' + (k + l) = b'"
proof -
  have "a - b = - l" using assms(1) by (auto simp: algebra_simps)
  then have "a' + k - b' = - l" using assms(2) by simp
  then show ?thesis by (simp add: algebra_simps)
qed

lemma vm_step_counted:
  assumes step: "vm_step t y y'" and wf: "surfaces_wf t (vs_s y)" and cnt: "vm_counted y"
  shows "vm_counted y'"
  using step
proof (cases rule: vm_step.cases)
  case (destroy sid e g' s')
  then show ?thesis
    using cnt destroy_balance(2,3) [OF destroy(2)] by (simp add: vm_counted_def)
next
  case (install sid obj r g' s')
  then show ?thesis
    using counted_shift [OF cnt [unfolded vm_counted_def] install_balance(2) [OF install(3) wf]]
    by (auto simp: vm_counted_def split: if_splits)
qed (use cnt in \<open>simp_all add: vm_counted_def create_objects select_objects vm_ref_def vm_alloc_def\<close>)

text \<open>Every reachable state of the system is well formed, balanced and counted.\<close>

definition vm_initial :: "drawfs_tunables \<Rightarrow> vm_sys \<Rightarrow> bool" where
  "vm_initial t y \<longleftrightarrow> surfaces_wf t (vs_s y) \<and> s_surfaces (vs_s y) = [] \<and>
     vs_pinned y = [] \<and> vs_mapped y = [] \<and> vs_lost y = 0 \<and>
     g_vm_calls (vs_g y) = [] \<and> g_vmobj_allocs (vs_g y) = 0 \<and> g_vmobj_deallocs (vs_g y) = 0"

lemma vm_reachable_inv:
  assumes "vm_reachable t y0 y" "vm_initial t y0" "tunables_sane t"
  shows "surfaces_wf t (vs_s y) \<and> vm_balanced y \<and> vm_counted y"
  using assms(1)
proof (induction rule: vm_reachable.induct)
  case start
  then show ?case
    using assms(2) by (simp add: vm_initial_def vm_balanced_def vm_held_def vm_counted_def)
next
  case (step y y')
  then show ?case
    using vm_step_wf [OF step.hyps(2) assms(3)] vm_step_balanced vm_step_counted by blast
qed

end
