(* ===== verification/Drawfs_Efifb.thy ===== *)
theory Drawfs_Efifb
  imports Drawfs_Proto
begin

text \<open>
  The EFI framebuffer backend (\<^verbatim>\<open>drawfs_efifb.c\<close>) and the two framebuffer ioctls of
  \<^verbatim>\<open>drawfs.c\<close>. The boot loader's metadata and the result of the mapping call are
  arguments of the initialiser. The mapped framebuffer is a list of bytes; a store that
  does not lie inside it has no value (\<open>None\<close>), so a property that a copy returns a
  framebuffer says that it stays inside the mapping. Source buffers are treated alike.
\<close>

section \<open>State and initialisation\<close>

text \<open>The loader's \<^verbatim>\<open>struct efi_fb\<close>, as far as the driver reads it.\<close>

record efi_fb =
  ef_addr :: u64
  ef_width :: u32
  ef_height :: u32
  ef_stride :: u32
  ef_mask_red :: u32
  ef_mask_green :: u32
  ef_mask_blue :: u32
  ef_mask_reserved :: u32

record drawfs_efifb_state =
  fb_paddr :: u64
  fb_vaddr :: u64
  fb_width :: u32
  fb_height :: u32
  fb_stride :: u32
  fb_bpp :: u32
  fb_size :: u64
  fb_mask_red :: u32
  fb_mask_green :: u32
  fb_mask_blue :: u32
  fb_initialized :: bool

definition efifb_zero :: drawfs_efifb_state where
  "efifb_zero = \<lparr>fb_paddr = 0, fb_vaddr = 0, fb_width = 0, fb_height = 0, fb_stride = 0,
     fb_bpp = 0, fb_size = 0, fb_mask_red = 0, fb_mask_green = 0, fb_mask_blue = 0,
     fb_initialized = False\<rparr>"

text \<open>\<^verbatim>\<open>fls\<close>: the number of the highest set bit, counted from one; 0 for zero.\<close>

definition fls32 :: "u32 \<Rightarrow> nat" where
  "fls32 w = (case find (\<lambda>i. bit w i) (rev [0..<32]) of None \<Rightarrow> 0 | Some i \<Rightarrow> Suc i)"

definition efifb_depth :: "efi_fb \<Rightarrow> nat" where
  "efifb_depth ef =
     (let depth = fls32 (ef_mask_red ef OR ef_mask_green ef OR ef_mask_blue ef
                         OR ef_mask_reserved ef);
          depth = (depth + 7) div 8 * 8
      in if depth = 0 then 32 else depth)"

text \<open>
  \<open>kmdp\<close> tells whether either of the two preload searches found the kernel, \<open>meta\<close> is
  what the search for the framebuffer block found, \<open>vaddr\<close> what
  \<^verbatim>\<open>pmap_mapdev_attr\<close> returned.
\<close>

definition drawfs_efifb_init ::
  "bool \<Rightarrow> efi_fb option \<Rightarrow> u64 \<Rightarrow> errno \<times> drawfs_efifb_state" where
  "drawfs_efifb_init kmdp meta vaddr =
     (if \<not> kmdp then (ENODEV, efifb_zero)
      else case meta of
        None \<Rightarrow> (ENODEV, efifb_zero)
      | Some ef \<Rightarrow>
          let depth = efifb_depth ef;
              stride = ef_stride ef * of_nat (depth div 8);
              st = efifb_zero\<lparr>fb_paddr := ef_addr ef, fb_width := ef_width ef,
                     fb_height := ef_height ef, fb_bpp := of_nat depth, fb_stride := stride,
                     fb_size := ucast (ef_height ef) * ucast stride,
                     fb_mask_red := ef_mask_red ef, fb_mask_green := ef_mask_green ef,
                     fb_mask_blue := ef_mask_blue ef, fb_vaddr := vaddr\<rparr>
          in if vaddr = 0 then (ENOMEM, st) else (0, st\<lparr>fb_initialized := True\<rparr>))"

definition drawfs_efifb_fini :: "drawfs_efifb_state \<Rightarrow> drawfs_efifb_state" where
  "drawfs_efifb_fini st =
     (if fb_vaddr st \<noteq> 0 then st\<lparr>fb_vaddr := 0\<rparr> else st)\<lparr>fb_initialized := False\<rparr>"

text \<open>The accessors, and the read-only control knobs \<^verbatim>\<open>hw.drawfs.efifb.*\<close> that return them.\<close>

definition drawfs_efifb_width :: "drawfs_efifb_state \<Rightarrow> u32" where
  "drawfs_efifb_width st = fb_width st"

definition drawfs_efifb_height :: "drawfs_efifb_state \<Rightarrow> u32" where
  "drawfs_efifb_height st = fb_height st"

definition drawfs_efifb_stride :: "drawfs_efifb_state \<Rightarrow> u32" where
  "drawfs_efifb_stride st = fb_stride st"

definition drawfs_efifb_bpp :: "drawfs_efifb_state \<Rightarrow> u32" where
  "drawfs_efifb_bpp st = fb_bpp st"

definition efifb_sysctls :: "drawfs_efifb_state \<Rightarrow> u32 \<times> u32 \<times> u32 \<times> u32" where
  "efifb_sysctls st = (drawfs_efifb_width st, drawfs_efifb_height st, drawfs_efifb_stride st, drawfs_efifb_bpp st)"

section \<open>Copying into the framebuffer\<close>

definition fb_store :: "buf \<Rightarrow> nat \<Rightarrow> buf \<Rightarrow> buf option" where
  "fb_store mem off bs = (if off + length bs \<le> length mem then Some (blit mem off bs) else None)"

text \<open>The row loop of \<^verbatim>\<open>drawfs_efifb_blit\<close>; \<open>dst\<close> and \<open>src\<close> are advanced by the strides.\<close>

fun blit_rows :: "nat \<Rightarrow> buf \<Rightarrow> nat \<Rightarrow> nat \<Rightarrow> buf \<Rightarrow> nat \<Rightarrow> nat \<Rightarrow> nat \<Rightarrow> buf option" where
  "blit_rows 0 mem dst pitch src soff src_stride copy_bytes = Some mem"
| "blit_rows (Suc n) mem dst pitch src soff src_stride copy_bytes =
     do { bs \<leftarrow> rd src soff copy_bytes;
          mem' \<leftarrow> fb_store mem dst bs;
          blit_rows n mem' (dst + pitch) pitch src (soff + src_stride) src_stride copy_bytes }"

definition drawfs_efifb_blit ::
  "drawfs_efifb_state \<Rightarrow> buf \<Rightarrow> buf \<Rightarrow> u32 \<Rightarrow> u32 \<Rightarrow> u32 \<Rightarrow> u32 \<Rightarrow> u32 \<Rightarrow> buf option" where
  "drawfs_efifb_blit st mem src src_stride x y w h =
     (if \<not> fb_initialized st \<or> fb_vaddr st = 0 then Some mem
      else if x \<ge> fb_width st \<or> y \<ge> fb_height st then Some mem
      else let w = (if x + w > fb_width st then fb_width st - x else w);
               h = (if y + h > fb_height st then fb_height st - y else h) in
        if w = 0 \<or> h = 0 then Some mem
        else let copy_bytes = w * (fb_bpp st div 8);
                 dst = unat y * unat (fb_stride st) + unat x * unat (fb_bpp st div 8)
             in blit_rows (unat h) mem dst (unat (fb_stride st)) src 0 (unat src_stride)
                  (unat copy_bytes))"

definition drawfs_efifb_blit_full ::
  "drawfs_efifb_state \<Rightarrow> buf \<Rightarrow> buf \<Rightarrow> u32 \<Rightarrow> buf option" where
  "drawfs_efifb_blit_full st mem src src_stride =
     drawfs_efifb_blit st mem src src_stride 0 0 (fb_width st) (fb_height st)"

text \<open>The address of a row, as an offset into the framebuffer.\<close>

definition drawfs_efifb_dst_row :: "drawfs_efifb_state \<Rightarrow> u32 \<Rightarrow> nat option" where
  "drawfs_efifb_dst_row st row =
     (if \<not> fb_initialized st \<or> fb_vaddr st = 0 then None
      else if row \<ge> fb_height st then None
      else Some (unat row * unat (fb_stride st)))"

definition drawfs_efifb_available :: "drawfs_efifb_state \<Rightarrow> bool" where
  "drawfs_efifb_available st = fb_initialized st"

section \<open>The framebuffer ioctls\<close>

record drawfs_efifb_info =
  fi_size :: u64
  fi_width :: u32
  fi_height :: u32
  fi_stride :: u32
  fi_bpp :: u32

definition ioctl_get_efifb_info :: "drawfs_efifb_state \<Rightarrow> errno + drawfs_efifb_info" where
  "ioctl_get_efifb_info st =
     (if \<not> drawfs_efifb_available st then Inl ENODEV
      else Inr \<lparr>fi_size = ucast (fb_height st) * ucast (fb_stride st), fi_width = fb_width st,
                fi_height = fb_height st, fi_stride = fb_stride st, fi_bpp = fb_bpp st\<rparr>)"

record drawfs_blit_to_efifb =
  bl_src_stride :: u32
  bl_width :: u32
  bl_height :: u32
  bl_dst_x :: u32
  bl_dst_y :: u32

text \<open>
  The row loop of DRAWFSGIOC_BLIT_TO_EFIFB. \<open>copyin i\<close> is what copying the row at
  byte offset \<open>i\<close> of the user buffer gives: an errno or the bytes. The result is the return
  value and the framebuffer, or nothing when a row is stored outside it.
\<close>

fun ioctl_blit_rows ::
  "(nat \<Rightarrow> nat \<Rightarrow> errno + buf) \<Rightarrow> drawfs_efifb_state \<Rightarrow> drawfs_blit_to_efifb \<Rightarrow>
   u32 \<Rightarrow> u32 \<Rightarrow> nat \<Rightarrow> nat \<Rightarrow> buf \<Rightarrow> (errno \<times> buf) option" where
  "ioctl_blit_rows copyin st req copy_bytes bpp_bytes row 0 mem = Some (0, mem)"
| "ioctl_blit_rows copyin st req copy_bytes bpp_bytes row (Suc n) mem =
     (case copyin (row * unat (bl_src_stride req)) (unat copy_bytes) of
        Inl err \<Rightarrow> Some (err, mem)
      | Inr row_buf \<Rightarrow>
          (case drawfs_efifb_dst_row st (bl_dst_y req + of_nat row) of
             None \<Rightarrow> ioctl_blit_rows copyin st req copy_bytes bpp_bytes (Suc row) n mem
           | Some dst \<Rightarrow>
               do { mem' \<leftarrow> fb_store mem (dst + unat (bl_dst_x req * bpp_bytes)) row_buf;
                    ioctl_blit_rows copyin st req copy_bytes bpp_bytes (Suc row) n mem' }))"

definition ioctl_blit_to_efifb ::
  "(nat \<Rightarrow> nat \<Rightarrow> errno + buf) \<Rightarrow> drawfs_efifb_state \<Rightarrow> drawfs_blit_to_efifb \<Rightarrow> buf \<Rightarrow>
   (errno \<times> buf) option" where
  "ioctl_blit_to_efifb copyin st req mem =
     (if \<not> drawfs_efifb_available st then Some (ENODEV, mem)
      else let bpp_bytes = fb_bpp st div 8;
               copy_bytes = bl_width req * bpp_bytes in
        if copy_bytes = 0 \<or> bl_height req = 0 then Some (EINVAL, mem)
        else ioctl_blit_rows copyin st req copy_bytes bpp_bytes 0 (unat (bl_height req)) mem)"

section \<open>The mapping covers the visible area\<close>

text \<open>
  A state in which the mapping has the size of the geometry and a scanline holds the
  visible pixels; the initialiser produces it when the loader's stride (in pixels) is at
  least the width and the products fit their types.
\<close>

definition efifb_wf :: "drawfs_efifb_state \<Rightarrow> buf \<Rightarrow> bool" where
  "efifb_wf st mem \<longleftrightarrow>
     fb_initialized st \<and> fb_vaddr st \<noteq> 0 \<and>
     unat (fb_width st) * unat (fb_bpp st div 8) \<le> unat (fb_stride st) \<and>
     length mem = unat (fb_height st) * unat (fb_stride st)"

lemma length_fb_store: "fb_store mem off bs = Some mem' \<Longrightarrow> length mem' = length mem"
  by (auto simp: fb_store_def split: if_splits)

lemma blit_rows_inside:
  assumes "n = 0 \<or> dst + (n - 1) * fs + cb \<le> length mem"
    "n = 0 \<or> soff + (n - 1) * ss + cb \<le> length src"
  shows "\<exists>mem'. blit_rows n mem dst fs src soff ss cb = Some mem' \<and> length mem' = length mem"
  using assms
proof (induction n arbitrary: mem dst soff)
  case 0
  then show ?case by simp
next
  case (Suc n)
  have src: "soff + cb \<le> length src" and dst: "dst + cb \<le> length mem"
    using Suc.prems by auto
  let ?mem = "blit mem dst (take cb (drop soff src))"
  have st: "fb_store mem dst (take cb (drop soff src)) = Some ?mem"
    using src dst by (simp add: fb_store_def)
  have len: "length ?mem = length mem" using st by (rule length_fb_store)
  have "n = 0 \<or> dst + fs + (n - 1) * fs + cb \<le> length ?mem"
    using Suc.prems(1) by (cases n) (auto simp: len)
  moreover have "n = 0 \<or> soff + ss + (n - 1) * ss + cb \<le> length src"
    using Suc.prems(2) by (cases n) auto
  ultimately obtain mem' where
    "blit_rows n ?mem (dst + fs) fs src (soff + ss) ss cb = Some mem'" "length mem' = length ?mem"
    using Suc.IH by blast
  then show ?case using src st len by simp
qed

lemma row_extent:
  fixes y h w x height width stride bpp :: nat
  assumes "y + h \<le> height" "0 < h" "x + w \<le> width" "width * bpp \<le> stride"
  shows "y * stride + x * bpp + (h - 1) * stride + w * bpp \<le> height * stride"
proof -
  have "x * bpp + w * bpp \<le> stride"
    using assms(3,4) by (metis add_mult_distrib le_trans mult_le_mono1)
  moreover have "(y + (h - 1) + 1) * stride \<le> height * stride"
    using assms(1,2) by (intro mult_le_mono1) simp
  ultimately show ?thesis by (simp add: algebra_simps)
qed

lemma clip_no_wrap:
  fixes x w width :: u32
  assumes "x < width" "unat x + unat w < 2 ^ 32"
  shows "unat x + unat (if x + w > width then width - x else w) \<le> unat width"
proof -
  have s: "unat (x + w) = unat x + unat w" using assms(2) by (simp add: unat_add_no_wrap)
  show ?thesis
    using assms(1) s by (auto simp: word_less_nat_alt unat_sub word_le_nat_alt)
qed

text \<open>The clipped copy: everything it stores lies in the mapping.\<close>

lemma efifb_blit_inside:
  assumes wf: "efifb_wf st mem"
    and nw: "unat x + unat w < 2 ^ 32" "unat y + unat h < 2 ^ 32"
    and src: "(unat h - 1) * unat src_stride + unat w * unat (fb_bpp st div 8) \<le> length src"
  shows "\<exists>mem'. drawfs_efifb_blit st mem src src_stride x y w h = Some mem' \<and>
    length mem' = length mem"
proof (cases "x \<ge> fb_width st \<or> y \<ge> fb_height st")
  case True
  then show ?thesis using wf by (auto simp: drawfs_efifb_blit_def efifb_wf_def)
next
  case False
  then have xw: "x < fb_width st" and yh: "y < fb_height st" by auto
  define w' where "w' = (if x + w > fb_width st then fb_width st - x else w)"
  define h' where "h' = (if y + h > fb_height st then fb_height st - y else h)"
  let ?bpp = "unat (fb_bpp st div 8)"
  have wb: "unat x + unat w' \<le> unat (fb_width st)"
    unfolding w'_def using clip_no_wrap [OF xw nw(1)] .
  have hb: "unat y + unat h' \<le> unat (fb_height st)"
    unfolding h'_def using clip_no_wrap [OF yh nw(2)] .
  have w'w: "unat w' \<le> unat w" and h'h: "unat h' \<le> unat h"
    using wb hb nw xw yh
    by (auto simp: w'_def h'_def word_less_nat_alt unat_sub unat_add_no_wrap word_le_nat_alt
        split: if_splits)
  have stride: "unat (fb_width st) * ?bpp \<le> unat (fb_stride st)"
    and len: "length mem = unat (fb_height st) * unat (fb_stride st)"
    using wf by (auto simp: efifb_wf_def)
  have "unat w' * ?bpp \<le> unat (fb_stride st)"
    using wb stride by (meson add_leD2 le_trans mult_le_mono1)
  then have cb: "unat (w' * (fb_bpp st div 8)) = unat w' * ?bpp"
    using unat_lt_size [of "fb_stride st"] by (simp add: unat_word_ariths)
  show ?thesis
  proof (cases "w' = 0 \<or> h' = 0")
    case True
    then show ?thesis
      using wf xw yh
      by (auto simp: drawfs_efifb_blit_def efifb_wf_def Let_def w'_def [symmetric]
          h'_def [symmetric])
  next
    case nz: False
    then have hpos: "0 < unat h'" by (simp add: unat_gt_0)
    have d: "unat y * unat (fb_stride st) + unat x * ?bpp + (unat h' - 1) * unat (fb_stride st)
        + unat w' * ?bpp \<le> length mem"
      unfolding len by (rule row_extent [OF hb hpos wb stride])
    have "(unat h' - 1) * unat src_stride + unat w' * ?bpp \<le> length src"
      using src w'w diff_le_mono [OF h'h, of 1] by (meson add_mono le_trans mult_le_mono1)
    then obtain mem' where
      "blit_rows (unat h') mem (unat y * unat (fb_stride st) + unat x * ?bpp)
         (unat (fb_stride st)) src 0 (unat src_stride) (unat w' * ?bpp) = Some mem'"
      "length mem' = length mem"
      using blit_rows_inside [OF disjI2 [OF d] disjI2, of 0 "unat src_stride" src] by auto
    then show ?thesis
      using wf xw yh nz
      by (auto simp: drawfs_efifb_blit_def efifb_wf_def Let_def w'_def [symmetric]
          h'_def [symmetric] cb)
  qed
qed

text \<open>The ioctl's copy, when the rectangle it is given lies on the screen.\<close>

lemma ioctl_blit_rows_inside:
  assumes wf: "efifb_wf st mem"
    and fit: "unat (bl_dst_x req * bpp) + unat cb \<le> unat (fb_stride st)"
    and copy: "\<And>off n bs. copyin off n = Inr bs \<Longrightarrow> length bs = n"
  shows "\<exists>e mem'. ioctl_blit_rows copyin st req cb bpp row n mem = Some (e, mem') \<and>
    length mem' = length mem"
  using wf
proof (induction n arbitrary: mem row)
  case 0
  then show ?case by simp
next
  case (Suc n)
  show ?case
  proof (cases "copyin (row * unat (bl_src_stride req)) (unat cb)")
    case (Inl e)
    then show ?thesis by simp
  next
    case (Inr bs)
    show ?thesis
    proof (cases "drawfs_efifb_dst_row st (bl_dst_y req + of_nat row)")
      case None
      then show ?thesis using Inr Suc by simp
    next
      case (Some dst)
      let ?y = "unat (bl_dst_y req + of_nat row)"
      have y: "?y < unat (fb_height st)" and dst: "dst = ?y * unat (fb_stride st)"
        using Some by (auto simp: drawfs_efifb_dst_row_def not_le word_less_nat_alt
            split: if_splits)
      have "(?y + 1) * unat (fb_stride st) \<le> unat (fb_height st) * unat (fb_stride st)"
        using y by (intro mult_le_mono1) simp
      then have "dst + unat (bl_dst_x req * bpp) + length bs \<le> length mem"
        using Suc.prems fit copy [OF Inr] by (simp add: dst efifb_wf_def)
      then obtain mem1 where m1: "fb_store mem (dst + unat (bl_dst_x req * bpp)) bs = Some mem1"
        by (simp add: fb_store_def)
      have l1: "length mem1 = length mem" using m1 by (rule length_fb_store)
      with Suc.prems have "efifb_wf st mem1" by (simp add: efifb_wf_def)
      from Suc.IH [OF this, of "Suc row"] show ?thesis
        using Inr Some m1 l1 by auto
    qed
  qed
qed

end
