(* ===== verification/Drawfs_Session.thy ===== *)
theory Drawfs_Session
  imports Drawfs_Surface Drawfs_Efifb
begin

text \<open>
  The session core of \<^verbatim>\<open>drawfs.c\<close>: the event queue, replies, the request handlers, the
  message loop, frame extraction from the input buffer and byte ingestion. It is the default
  build, without \<^verbatim>\<open>DRAWFS_DRM_ENABLED\<close>.

  A function returns its C return value with the new state. Functions that contain a loop
  which is not structural return an option: \<open>None\<close> stands for a call that never returns
  or that reads outside its buffer, and the properties show it does not occur.
\<close>

section \<open>Event queue\<close>

definition upd_stats :: "(drawfs_stats \<Rightarrow> drawfs_stats) \<Rightarrow> drawfs_session \<Rightarrow> drawfs_session" where
  "upd_stats f s = s\<lparr>s_stats := f (s_stats s)\<rparr>"

fun coalesce_queue :: "u32 \<Rightarrow> u64 \<Rightarrow> buf list \<Rightarrow> buf list option" where
  "coalesce_queue sid cookie [] = None"
| "coalesce_queue sid cookie (ev # q) =
     (if length ev < 16 + 16 + 16 then map_option ((#) ev) (coalesce_queue sid cookie q)
      else if mh_msg_type (dec_msg_hdr (drop 16 ev)) \<noteq> event_type_code EVT_SURFACE_PRESENTED
      then map_option ((#) ev) (coalesce_queue sid cookie q)
      else if get32 ev 32 \<noteq> sid then map_option ((#) ev) (coalesce_queue sid cookie q)
      else Some (blit ev 40 (put64 cookie) # q))"

definition drawfs_try_coalesce_presented ::
  "drawfs_tunables \<Rightarrow> drawfs_session \<Rightarrow> u32 \<Rightarrow> u64 \<Rightarrow> errno \<times> drawfs_session" where
  "drawfs_try_coalesce_presented t s sid new_cookie =
     (if \<not> t_coalesce_events t then (ENOENT, s)
      else case coalesce_queue sid new_cookie (s_evq s) of
        None \<Rightarrow> (ENOENT, s)
      | Some q \<Rightarrow> (0, s\<lparr>s_evq := q\<rparr>))"

definition drawfs_enqueue_event ::
  "drawfs_tunables \<Rightarrow> drawfs_session \<Rightarrow> buf \<Rightarrow> errno \<times> drawfs_session" where
  "drawfs_enqueue_event t s bs =
     (if length bs = 0 then (0, s)
      else if length bs > DRAWFS_MAX_EVENT_BYTES then (EFBIG, s)
      else if s_evq_bytes s + of_nat (length bs) > scast (t_max_evq_bytes t)
      then (ENOSPC, upd_stats (\<lambda>st. st\<lparr>st_events_dropped := st_events_dropped st + 1\<rparr>) s)
      else if s_closing s
      then (ENXIO, upd_stats (\<lambda>st. st\<lparr>st_events_dropped := st_events_dropped st + 1\<rparr>) s)
      else (0, upd_stats (\<lambda>st. st\<lparr>st_events_enqueued := st_events_enqueued st + 1,
                                st_bytes_out := st_bytes_out st + of_nat (length bs)\<rparr>)
               (s\<lparr>s_evq := s_evq s @ [bs], s_evq_bytes := s_evq_bytes s + of_nat (length bs),
                  s_wakeups := s_wakeups s @ [CvSignal, SelWakeup]\<rparr>)))"

section \<open>Replies\<close>

definition drawfs_send_reply ::
  "drawfs_tunables \<Rightarrow> drawfs_session \<Rightarrow> u16 \<Rightarrow> u32 \<Rightarrow> buf \<Rightarrow> errno \<times> drawfs_session" where
  "drawfs_send_reply t s msg_type msg_id payload =
     (let frame = drawfs_frame_build (s_next_out_frame_id s) msg_type msg_id payload
      in drawfs_enqueue_event t (s\<lparr>s_next_out_frame_id := s_next_out_frame_id s + 1\<rparr>) frame)"

definition drawfs_reply_error ::
  "drawfs_tunables \<Rightarrow> drawfs_session \<Rightarrow> u32 \<Rightarrow> drawfs_err_code \<Rightarrow> u32 \<Rightarrow> errno \<times> drawfs_session" where
  "drawfs_reply_error t s msg_id code err_offset =
     drawfs_send_reply t s (msg_type_code RPL_ERROR) msg_id
       (enc_rpl_error \<lparr>rpe_err_code = err_code code, rpe_err_detail = 0,
                       rpe_err_offset = err_offset\<rparr>)"

definition drawfs_reply_hello ::
  "drawfs_tunables \<Rightarrow> drawfs_session \<Rightarrow> u32 \<Rightarrow> errno \<times> drawfs_session" where
  "drawfs_reply_hello t s msg_id =
     drawfs_send_reply t s (msg_type_code RPL_HELLO) msg_id
       (enc_rpl_hello \<lparr>rph_status = 0, rph_server_major = 1, rph_server_minor = 0,
                       rph_server_flags = 0, rph_max_reply_bytes = 0\<rparr>)"

definition drawfs_reply_display_list ::
  "drawfs_tunables \<Rightarrow> drawfs_efifb_state \<Rightarrow> drawfs_session \<Rightarrow> u32 \<Rightarrow> errno \<times> drawfs_session" where
  "drawfs_reply_display_list t fb s msg_id =
     drawfs_send_reply t s (msg_type_code RPL_DISPLAY_LIST) msg_id
       (put32 0 @ put32 1 @
        enc_display_desc
          \<lparr>dd_display_id = 1,
           dd_width_px = (if drawfs_efifb_available fb then fb_width fb else 1920),
           dd_height_px = (if drawfs_efifb_available fb then fb_height fb else 1080),
           dd_refresh_mhz = 60000, dd_flags = 0\<rparr>)"

section \<open>Request handlers\<close>

definition drawfs_reply_display_open ::
  "drawfs_tunables \<Rightarrow> drawfs_session \<Rightarrow> u32 \<Rightarrow> buf \<Rightarrow> errno \<times> drawfs_session" where
  "drawfs_reply_display_open t s msg_id payload =
     (let (rep, s') =
        (if length payload < 4
         then (\<lparr>dop_status = of_nat EINVAL, dop_display_handle = 0, dop_active_display_id = 0\<rparr>, s)
         else let req = dec_display_open_req payload in
           if dor_display_id req \<noteq> 1
           then (\<lparr>dop_status = of_nat ENODEV, dop_display_handle = 0, dop_active_display_id = 0\<rparr>, s)
           else let s1 = s\<lparr>s_active_display_id := dor_display_id req\<rparr>;
                    s2 = (if s_active_display_handle s1 = 0
                          then s1\<lparr>s_active_display_handle := s_next_display_handle s1,
                                  s_next_display_handle := s_next_display_handle s1 + 1\<rparr>
                          else s1)
                in (\<lparr>dop_status = 0, dop_display_handle = s_active_display_handle s2,
                     dop_active_display_id = s_active_display_id s2\<rparr>, s2))
      in drawfs_send_reply t s' (msg_type_code RPL_DISPLAY_OPEN) msg_id
           (enc_display_open_rep rep))"

definition drawfs_reply_surface_create ::
  "drawfs_tunables \<Rightarrow> drawfs_session \<Rightarrow> u32 \<Rightarrow> buf \<Rightarrow> errno \<times> drawfs_session" where
  "drawfs_reply_surface_create t s msg_id payload =
     (let (rep, s') =
        (if length payload < 16
         then (\<lparr>scp_status = of_nat EINVAL, scp_surface_id = 0, scp_stride_bytes = 0,
                scp_bytes_total = 0\<rparr>, s)
         else let req = dec_surface_create_req payload;
                  ((err, sid, stride, total), s1) =
                    drawfs_surface_create t s (scq_width_px req) (scq_height_px req) (scq_format req)
              in (\<lparr>scp_status = of_nat err, scp_surface_id = sid, scp_stride_bytes = stride,
                   scp_bytes_total = total\<rparr>, s1))
      in drawfs_send_reply t s' (msg_type_code RPL_SURFACE_CREATE) msg_id
           (enc_surface_create_rep rep))"

definition drawfs_reply_surface_destroy ::
  "drawfs_tunables \<Rightarrow> drawfs_globals \<Rightarrow> drawfs_session \<Rightarrow> u32 \<Rightarrow> buf \<Rightarrow>
   errno \<times> drawfs_globals \<times> drawfs_session" where
  "drawfs_reply_surface_destroy t g s msg_id payload =
     (let (rep, g', s') =
        (if length payload < 4
         then (\<lparr>sdp_status = of_nat EINVAL, sdp_surface_id = 0\<rparr>, g, s)
         else let req = dec_surface_destroy_req payload;
                  (err, g1, s1) = drawfs_surface_destroy g s (sdq_surface_id req)
              in (\<lparr>sdp_status = of_nat err, sdp_surface_id = sdq_surface_id req\<rparr>, g1, s1));
          (err, s'') = drawfs_send_reply t s' (msg_type_code RPL_SURFACE_DESTROY) msg_id
                         (enc_surface_destroy_rep rep)
      in (err, g', s''))"

text \<open>
  SURFACE_PRESENT: the request in its 16-byte or its 12-byte encoding, the reply, and on
  success the SURFACE_PRESENTED event, merged into a queued one for the same surface.
\<close>

definition present_request :: "buf \<Rightarrow> (u32 \<times> u64) option" where
  "present_request payload =
     (if length payload \<ge> 16
      then let req = dec_req_surface_present payload
           in Some (spq_surface_id req, spq_cookie req)
      else if length payload \<ge> 12 then Some (get32 payload 0, get64 payload 4)
      else None)"

definition present_reply :: "drawfs_session \<Rightarrow> buf \<Rightarrow> drawfs_rpl_surface_present \<times> u32 \<times> u64" where
  "present_reply s payload =
     (case present_request payload of
        None \<Rightarrow> (\<lparr>spp_status = of_nat EINVAL, spp_surface_id = 0, spp_cookie = 0\<rparr>, 0, 0)
      | Some (sid, cookie) \<Rightarrow>
         (if (s_active_display_id s = 0 \<and> s_active_display_handle s = 0) \<or> sid = 0
          then (\<lparr>spp_status = of_nat EINVAL, spp_surface_id = 0, spp_cookie = cookie\<rparr>, sid, cookie)
          else if drawfs_surface_lookup s sid = None
          then (\<lparr>spp_status = of_nat ENOENT, spp_surface_id = 0, spp_cookie = cookie\<rparr>, sid, cookie)
          else (\<lparr>spp_status = 0, spp_surface_id = sid, spp_cookie = cookie\<rparr>, sid, cookie)))"

definition drawfs_reply_surface_present ::
  "drawfs_tunables \<Rightarrow> drawfs_session \<Rightarrow> u32 \<Rightarrow> buf \<Rightarrow> errno \<times> drawfs_session" where
  "drawfs_reply_surface_present t s msg_id payload =
     (let (rep, sid, cookie) = present_reply s payload;
          (err, s1) = drawfs_send_reply t s (msg_type_code RPL_SURFACE_PRESENT) msg_id
                        (enc_rpl_surface_present rep)
      in if err \<noteq> 0 then (err, s1)
         else if spp_status rep \<noteq> 0 then (0, s1)
         else case drawfs_try_coalesce_presented t s1 sid cookie of
           (c, s2) \<Rightarrow>
             (if c = 0 then (0, s2)
              else (0, snd (drawfs_send_reply t s2 (event_type_code EVT_SURFACE_PRESENTED) 0
                             (enc_evt_surface_presented
                               \<lparr>sev_surface_id = sid, sev_reserved = 0, sev_cookie = cookie\<rparr>)))))"

section \<open>The message loop\<close>

text \<open>
  The \<^verbatim>\<open>switch\<close> of \<^verbatim>\<open>drawfs_process_frame\<close>. Only the present handler's error is
  passed on; the others are dropped, as the casts to void say.
\<close>

definition dispatch_message ::
  "drawfs_tunables \<Rightarrow> drawfs_efifb_state \<Rightarrow> drawfs_globals \<Rightarrow> drawfs_session \<Rightarrow>
   drawfs_msg_hdr \<Rightarrow> u32 \<Rightarrow> buf \<Rightarrow> errno \<times> drawfs_globals \<times> drawfs_session" where
  "dispatch_message t fb g s mh pos payload =
     (let ty = mh_msg_type mh; mid = mh_msg_id mh in
      if ty = msg_type_code REQ_HELLO
      then (0, g, if length payload < 12 then snd (drawfs_reply_error t s mid ERR_INVALID_ARG pos)
                  else snd (drawfs_reply_hello t s mid))
      else if ty = msg_type_code REQ_DISPLAY_LIST
      then (0, g, snd (drawfs_reply_display_list t fb s mid))
      else if ty = msg_type_code REQ_DISPLAY_OPEN
      then (0, g, snd (drawfs_reply_display_open t s mid payload))
      else if ty = msg_type_code REQ_SURFACE_CREATE
      then (0, g, snd (drawfs_reply_surface_create t s mid payload))
      else if ty = msg_type_code REQ_SURFACE_DESTROY
      then (0, snd (drawfs_reply_surface_destroy t g s mid payload))
      else if ty = msg_type_code REQ_SURFACE_PRESENT
      then (let (err, s') = drawfs_reply_surface_present t s mid payload in (err, g, s'))
      else (0, g, snd (drawfs_reply_error t
             (upd_stats (\<lambda>st. st\<lparr>st_messages_unsupported := st_messages_unsupported st + 1\<rparr>) s)
             mid ERR_UNSUPPORTED_CAP pos)))"

partial_function (option) process_msgs ::
  "drawfs_tunables \<Rightarrow> drawfs_efifb_state \<Rightarrow> buf \<Rightarrow> u32 \<Rightarrow> u32 \<Rightarrow> drawfs_globals \<Rightarrow> drawfs_session \<Rightarrow>
   (errno \<times> drawfs_globals \<times> drawfs_session) option" where
  "process_msgs t fb bs fend pos g s =
     (if unat pos + 16 \<le> unat fend then
        do { hb \<leftarrow> rd bs (unat pos) 16;
             let mh = dec_msg_hdr hb;
             if mh_msg_bytes mh < 16 \<or> unat (mh_msg_bytes mh) > DRAWFS_MAX_MSG_BYTES
                \<or> pos + mh_msg_bytes mh > fend
             then Some (0, g, snd (drawfs_reply_error t s (mh_msg_id mh) ERR_INVALID_MSG pos))
             else do {
               payload \<leftarrow> rd bs (unat pos + 16) (unat (mh_msg_bytes mh - 16));
               (case dispatch_message t fb g
                      (upd_stats (\<lambda>st. st\<lparr>st_messages_processed := st_messages_processed st + 1\<rparr>) s)
                      mh pos payload of
                  (err, g', s') \<Rightarrow>
                    if err \<noteq> 0 then Some (err, g', s')
                    else process_msgs t fb bs fend (drawfs_align4 (pos + mh_msg_bytes mh)) g' s')
             } }
      else Some (0, g, s))"

definition drawfs_process_frame ::
  "drawfs_tunables \<Rightarrow> drawfs_efifb_state \<Rightarrow> drawfs_globals \<Rightarrow> drawfs_session \<Rightarrow> buf \<Rightarrow>
   (errno \<times> drawfs_globals \<times> drawfs_session) option" where
  "drawfs_process_frame t fb g s bs =
     (case drawfs_frame_validate bs of
        Inl (code, off) \<Rightarrow> Some (0, g, snd (drawfs_reply_error t s 0 code off))
      | Inr fh \<Rightarrow> process_msgs t fb bs (fh_frame_bytes fh) 16 g s)"

section \<open>Frame extraction\<close>

text \<open>
  First locked section of \<^verbatim>\<open>drawfs_try_process_inbuf\<close>: return, or a header and size
  to extract. The replies are sent after the lock is dropped, from the state the section
  leaves.
\<close>

definition inbuf_peek ::
  "drawfs_tunables \<Rightarrow> drawfs_session \<Rightarrow> (errno \<times> drawfs_session) + (drawfs_frame_hdr \<times> nat)" where
  "inbuf_peek t s =
     (if s_closing s then Inl (ENXIO, s)
      else if length (s_inbuf s) < 16 then Inl (0, s)
      else let fh = dec_frame_hdr (s_inbuf s);
               received = upd_stats (\<lambda>st. st\<lparr>st_frames_received := st_frames_received st + 1\<rparr>)
                            (s\<lparr>s_inbuf := []\<rparr>);
               invalid = upd_stats (\<lambda>st. st\<lparr>st_frames_invalid := st_frames_invalid st + 1\<rparr>) received in
        if fh_magic fh \<noteq> DRAWFS_MAGIC
        then Inl (0, snd (drawfs_reply_error t invalid 0 ERR_INVALID_FRAME 0))
        else if fh_header_bytes fh \<noteq> 16
        then Inl (0, snd (drawfs_reply_error t received 0 ERR_INVALID_FRAME 6))
        else let n = unat (fh_frame_bytes fh) in
          if n = 0 \<or> n > DRAWFS_MAX_FRAME_BYTES \<or> fh_frame_bytes fh AND 3 \<noteq> 0
          then Inl (0, snd (drawfs_reply_error t received 0 ERR_INVALID_FRAME 8))
          else if length (s_inbuf s) < n then Inl (0, s)
          else Inr (fh, n))"

text \<open>Second locked section: check that the frame is still at the head, and take it.\<close>

datatype commit = CommitClosing | CommitRaceLost | CommitFrame buf drawfs_session

definition inbuf_commit :: "drawfs_session \<Rightarrow> drawfs_frame_hdr \<Rightarrow> nat \<Rightarrow> commit" where
  "inbuf_commit s fh n =
     (if s_closing s then CommitClosing
      else if length (s_inbuf s) < n \<or> take 16 (s_inbuf s) \<noteq> enc_frame_hdr fh then CommitRaceLost
      else CommitFrame (take n (s_inbuf s))
             (upd_stats (\<lambda>st. st\<lparr>st_frames_received := st_frames_received st + 1\<rparr>)
               (s\<lparr>s_inbuf := drop n (s_inbuf s)\<rparr>)))"

partial_function (option) drawfs_try_process_inbuf ::
  "drawfs_tunables \<Rightarrow> drawfs_efifb_state \<Rightarrow> drawfs_globals \<Rightarrow> drawfs_session \<Rightarrow>
   (errno \<times> drawfs_globals \<times> drawfs_session) option" where
  "drawfs_try_process_inbuf t fb g s =
     (case inbuf_peek t s of
        Inl (e, s') \<Rightarrow> Some (e, g, s')
      | Inr (fh, n) \<Rightarrow>
         (case inbuf_commit s fh n of
            CommitClosing \<Rightarrow> Some (ENXIO, g, s)
          | CommitRaceLost \<Rightarrow>
              drawfs_try_process_inbuf t fb
                (g\<lparr>g_frame_extract_race_lost := g_frame_extract_race_lost g + 1\<rparr>) s
          | CommitFrame frame s1 \<Rightarrow>
             (case drawfs_frame_validate frame of
                Inl (code, off) \<Rightarrow>
                  drawfs_try_process_inbuf t fb g
                    (snd (drawfs_reply_error t
                       (upd_stats (\<lambda>st. st\<lparr>st_frames_invalid := st_frames_invalid st + 1\<rparr>) s1)
                       0 code off))
              | Inr _ \<Rightarrow>
                  do { r \<leftarrow> drawfs_process_frame t fb g s1 frame;
                       (case r of (v, g', s2) \<Rightarrow>
                          let s3 = upd_stats (\<lambda>st. st\<lparr>st_frames_processed :=
                                     st_frames_processed st + 1\<rparr>) s2 in
                          if v \<noteq> 0 then Some (v, g', s3)
                          else drawfs_try_process_inbuf t fb g' s3) })))"

section \<open>Ingesting bytes\<close>

text \<open>The doubling loop; it does not return when it starts at 0.\<close>

partial_function (option) grow_cap :: "nat \<Rightarrow> nat \<Rightarrow> nat option" where
  "grow_cap newcap need = (if newcap < need then grow_cap (newcap * 2) need else Some newcap)"

definition grow_lost :: "nat option \<Rightarrow> drawfs_globals \<Rightarrow> drawfs_globals" where
  "grow_lost nb g =
     (case nb of None \<Rightarrow> g
      | Some _ \<Rightarrow> g\<lparr>g_inbuf_grow_race_lost := g_inbuf_grow_race_lost g + 1\<rparr>)"

text \<open>
  The loop of \<^verbatim>\<open>drawfs_ingest_bytes\<close>; \<open>nb\<close> is the capacity of the buffer allocated in
  an earlier round, if any.
\<close>

partial_function (option) ingest_loop ::
  "drawfs_tunables \<Rightarrow> drawfs_efifb_state \<Rightarrow> drawfs_globals \<Rightarrow> drawfs_session \<Rightarrow> buf \<Rightarrow>
   nat option \<Rightarrow> bool \<Rightarrow> (errno \<times> drawfs_globals \<times> drawfs_session) option" where
  "ingest_loop t fb g s bs nb counted =
     (if s_closing s then Some (ENXIO, g, s)
      else let s1 = (if counted then s
                     else upd_stats (\<lambda>st. st\<lparr>st_bytes_in := st_bytes_in st + of_nat (length bs)\<rparr>) s);
               need = length (s_inbuf s1) + length bs in
        if need > DRAWFS_MAX_FRAME_BYTES
        then Some (0, g, snd (drawfs_reply_error t (s1\<lparr>s_inbuf := []\<rparr>) 0 ERR_OVERFLOW 0))
        else if need \<le> s_in_cap s1
        then drawfs_try_process_inbuf t fb (grow_lost nb g)
               (s1\<lparr>s_inbuf := s_inbuf s1 @ bs\<rparr>)
        else if (case nb of None \<Rightarrow> False | Some newcap \<Rightarrow> newcap \<ge> need)
        then drawfs_try_process_inbuf t fb g
               (s1\<lparr>s_inbuf := s_inbuf s1 @ bs, s_in_cap := the nb\<rparr>)
        else do { c \<leftarrow> grow_cap (s_in_cap s1) need;
                  let newcap = (if c > DRAWFS_MAX_FRAME_BYTES then DRAWFS_MAX_FRAME_BYTES else c);
                  ingest_loop t fb (grow_lost nb g) s1 bs (Some newcap) True })"

definition drawfs_ingest_bytes ::
  "drawfs_tunables \<Rightarrow> drawfs_efifb_state \<Rightarrow> drawfs_globals \<Rightarrow> drawfs_session \<Rightarrow> buf \<Rightarrow>
   (errno \<times> drawfs_globals \<times> drawfs_session) option" where
  "drawfs_ingest_bytes t fb g s bs =
     (if length bs = 0 then Some (0, g, s)
      else if length bs > DRAWFS_MAX_FRAME_BYTES then Some (EFBIG, g, s)
      else ingest_loop t fb g s bs None False)"

section \<open>The message loop advances\<close>

lemma msg_advance:
  assumes "4 dvd unat fend" "unat fend \<le> DRAWFS_MAX_FRAME_BYTES"
    "unat pos + 16 \<le> unat fend" "16 \<le> mb" "unat mb \<le> DRAWFS_MAX_MSG_BYTES" "pos + mb \<le> fend"
  shows "unat pos + unat mb \<le> unat fend"
    "unat pos < unat (drawfs_align4 (pos + mb))"
    "unat (drawfs_align4 (pos + mb)) \<le> unat fend"
proof -
  have s: "unat (pos + mb) = unat pos + unat mb"
    using assms by (intro unat_add_no_wrap)
      (simp add: DRAWFS_MAX_FRAME_BYTES_def DRAWFS_MAX_MSG_BYTES_def)
  show le: "unat pos + unat mb \<le> unat fend"
    using assms(6) s by (simp add: word_le_nat_alt)
  have a: "unat (drawfs_align4 (pos + mb)) = (unat pos + unat mb + 3) div 4 * 4"
    using le assms(2) by (subst unat_align4) (simp_all add: s DRAWFS_MAX_FRAME_BYTES_def)
  show "unat pos < unat (drawfs_align4 (pos + mb))"
    using assms(4) by (simp add: a word_le_nat_alt)
  show "unat (drawfs_align4 (pos + mb)) \<le> unat fend"
    using le assms(1) by (auto simp: a dvd_def)
qed

lemma process_msgs_step:
  assumes "unat pos + 16 \<le> unat fend" "unat fend \<le> length bs"
    and "mh = dec_msg_hdr (take 16 (drop (unat pos) bs))"
    and "\<not> (mh_msg_bytes mh < 16 \<or> unat (mh_msg_bytes mh) > DRAWFS_MAX_MSG_BYTES
           \<or> pos + mh_msg_bytes mh > fend)"
    and "rd bs (unat pos + 16) (unat (mh_msg_bytes mh - 16)) = Some payload"
    and "dispatch_message t fb g
      (upd_stats (\<lambda>st. st\<lparr>st_messages_processed := st_messages_processed st + 1\<rparr>) s)
      mh pos payload = (e1, g1, s1)"
  shows "process_msgs t fb bs fend pos g s =
    (if e1 \<noteq> 0 then Some (e1, g1, s1)
     else process_msgs t fb bs fend (drawfs_align4 (pos + mh_msg_bytes mh)) g1 s1)"
proof -
  have "rd bs (unat pos) 16 = Some (take 16 (drop (unat pos) bs))"
    using assms(1,2) by simp
  then show ?thesis
    using assms(1,4,5,6) unfolding assms(3) [symmetric]
    by (subst process_msgs.simps) (simp add: assms(3) [symmetric])
qed

section \<open>Invariants of the request handlers\<close>

text \<open>
  A property of a session is kept by the whole request path as soon as the few primitive
  updates the handlers are made of keep it. The first interface is what the handlers of one
  message need, the second adds the input buffer.
\<close>

locale handler_inv =
  fixes t :: drawfs_tunables
    and P :: "drawfs_session \<Rightarrow> bool"
  assumes send: "P s \<Longrightarrow> length payload \<le> 32 \<Longrightarrow> P (snd (drawfs_send_reply t s ty mid payload))"
    and coalesce: "P s \<Longrightarrow> P (snd (drawfs_try_coalesce_presented t s sid cookie))"
    and stats: "P s \<Longrightarrow> P (upd_stats f s)"
    and display: "P s \<Longrightarrow> P (s\<lparr>s_active_display_id := a, s_active_display_handle := b,
                                s_next_display_handle := c\<rparr>)"
    and create: "P s \<Longrightarrow> P (snd (drawfs_surface_create t s w h fmt))"
    and destroy: "P s \<Longrightarrow> P (snd (snd (drawfs_surface_destroy g s sid)))"
begin

lemma reply_error: "P s \<Longrightarrow> P (snd (drawfs_reply_error t s mid code off))"
  by (simp add: drawfs_reply_error_def send rpe.enc_length)

lemma reply_hello: "P s \<Longrightarrow> P (snd (drawfs_reply_hello t s mid))"
  by (simp add: drawfs_reply_hello_def send rph.enc_length)

lemma reply_display_list: "P s \<Longrightarrow> P (snd (drawfs_reply_display_list t fb s mid))"
  by (simp add: drawfs_reply_display_list_def send dd.enc_length)

lemma reply_display_open: "P s \<Longrightarrow> P (snd (drawfs_reply_display_open t s mid payload))"
proof -
  assume P: "P s"
  have same: "s\<lparr>s_active_display_id := a\<rparr> = s\<lparr>s_active_display_id := a,
      s_active_display_handle := s_active_display_handle s,
      s_next_display_handle := s_next_display_handle s\<rparr>" for a by simp
  have "P (s\<lparr>s_active_display_id := a\<rparr>)" for a
    by (subst same, rule display [OF P])
  with P show ?thesis
    by (auto simp: drawfs_reply_display_open_def Let_def dop.enc_length intro!: send display)
qed

lemma send_snd:
  "drawfs_send_reply t s ty mid payload = (e, s') \<Longrightarrow> length payload \<le> 32 \<Longrightarrow> P s \<Longrightarrow> P s'"
  by (metis send snd_conv)

lemma reply_surface_create: "P s \<Longrightarrow> P (snd (drawfs_reply_surface_create t s mid payload))"
proof -
  assume P: "P s"
  let ?req = "dec_surface_create_req payload"
  obtain err sid stride total s1 where c:
    "drawfs_surface_create t s (scq_width_px ?req) (scq_height_px ?req) (scq_format ?req)
       = ((err, sid, stride, total), s1)"
    by (metis prod.collapse)
  then have "P s1" using create [OF P] by (metis snd_conv)
  with P show ?thesis
    by (simp add: drawfs_reply_surface_create_def c Let_def send scp.enc_length)
qed

lemma reply_surface_destroy:
  "P s \<Longrightarrow> P (snd (snd (drawfs_reply_surface_destroy t g s mid payload)))"
proof -
  assume P: "P s"
  obtain err g1 s1 where d:
    "drawfs_surface_destroy g s (sdq_surface_id (dec_surface_destroy_req payload)) = (err, g1, s1)"
    by (metis prod_cases3)
  then have "P s1" using destroy [OF P, of g] by (metis snd_conv)
  with P show ?thesis
    by (auto simp: drawfs_reply_surface_destroy_def Let_def d sdp.enc_length
        split: prod.splits dest!: send_snd)
qed

lemma reply_surface_present: "P s \<Longrightarrow> P (snd (drawfs_reply_surface_present t s mid payload))"
proof -
  assume P: "P s"
  obtain rep sid cookie where r: "present_reply s payload = (rep, sid, cookie)"
    by (metis prod_cases3)
  obtain err s1 where s1: "drawfs_send_reply t s (msg_type_code RPL_SURFACE_PRESENT) mid
      (enc_rpl_surface_present rep) = (err, s1)" by (metis surj_pair)
  have P1: "P s1" by (rule send_snd [OF s1 _ P]) (simp add: spp.enc_length)
  obtain c s2 where s2: "drawfs_try_coalesce_presented t s1 sid cookie = (c, s2)"
    by (metis surj_pair)
  have P2: "P s2" using coalesce [OF P1] s2 by (metis snd_conv)
  show ?thesis
    using P1 P2
    by (simp add: drawfs_reply_surface_present_def r s1 s2 Let_def send sev.enc_length)
qed

lemma dispatch: "P s \<Longrightarrow> P (snd (snd (dispatch_message t fb g s mh pos payload)))"
  using reply_surface_present [of s "mh_msg_id mh" payload]
  by (auto simp: dispatch_message_def Let_def reply_error reply_hello reply_display_list
      reply_display_open reply_surface_create reply_surface_destroy stats split: prod.splits)

text \<open>On a validated frame the message loop ends, inside the frame, and keeps the property.\<close>

lemma process_msgs_total:
  assumes "4 dvd unat fend" "unat fend \<le> length bs" "unat fend \<le> DRAWFS_MAX_FRAME_BYTES" "P s"
  shows "\<exists>e g' s'. process_msgs t fb bs fend pos g s = Some (e, g', s') \<and> P s'"
  using assms(4)
proof (induction "unat fend - unat pos" arbitrary: pos g s rule: less_induct)
  case less
  show ?case
  proof (cases "unat pos + 16 \<le> unat fend")
    case False
    then show ?thesis using less.prems by (simp add: process_msgs.simps [of t fb bs fend pos g s])
  next
    case True
    define mh where "mh = dec_msg_hdr (take 16 (drop (unat pos) bs))"
    let ?s1 = "upd_stats (\<lambda>st. st\<lparr>st_messages_processed := st_messages_processed st + 1\<rparr>) s"
    have rdh: "rd bs (unat pos) 16 = Some (take 16 (drop (unat pos) bs))"
      using True assms(2) by simp
    show ?thesis
    proof (cases "mh_msg_bytes mh < 16 \<or> unat (mh_msg_bytes mh) > DRAWFS_MAX_MSG_BYTES
        \<or> pos + mh_msg_bytes mh > fend")
      case True
      then show ?thesis
        using \<open>unat pos + 16 \<le> unat fend\<close> rdh less.prems
        by (simp add: process_msgs.simps [of t fb bs fend pos g s] mh_def [symmetric] reply_error)
    next
      case False
      have adv: "unat pos + unat (mh_msg_bytes mh) \<le> unat fend"
        "unat pos < unat (drawfs_align4 (pos + mh_msg_bytes mh))"
        "unat (drawfs_align4 (pos + mh_msg_bytes mh)) \<le> unat fend" "16 \<le> mh_msg_bytes mh"
        using msg_advance [OF assms(1,3), of pos "mh_msg_bytes mh"] False True
        by (auto simp: not_less)
      let ?payload = "take (unat (mh_msg_bytes mh - 16)) (drop (unat pos + 16) bs)"
      have "unat (mh_msg_bytes mh - 16) = unat (mh_msg_bytes mh) - 16"
        using adv(4) by (simp add: unat_sub)
      then have rdp: "rd bs (unat pos + 16) (unat (mh_msg_bytes mh - 16)) = Some ?payload"
        using adv(1,4) assms(2) by (intro rd_Some) (simp add: word_le_nat_alt)
      obtain e1 g1 s1 where d: "dispatch_message t fb g ?s1 mh pos ?payload = (e1, g1, s1)"
        by (rule prod_cases3)
      have "P (snd (snd (dispatch_message t fb g ?s1 mh pos ?payload)))"
        by (rule dispatch [OF stats [OF less.prems]])
      then have P1: "P s1" by (simp only: d snd_conv)
      obtain e' g' s' where rec: "process_msgs t fb bs fend
          (drawfs_align4 (pos + mh_msg_bytes mh)) g1 s1 = Some (e', g', s')" "P s'"
        using less.hyps [OF _ P1, of "drawfs_align4 (pos + mh_msg_bytes mh)" g1] adv by force
      then show ?thesis
        using P1 unfolding process_msgs_step [OF True assms(2) mh_def False rdp d] by auto
    qed
  qed
qed

lemma process_frame_total:
  assumes "length bs \<le> DRAWFS_MAX_FRAME_BYTES" "P s"
  shows "\<exists>e g' s'. drawfs_process_frame t fb g s bs = Some (e, g', s') \<and> P s'"
proof (cases "drawfs_frame_validate bs")
  case (Inl a)
  then show ?thesis
    using assms(2) by (cases a) (simp add: drawfs_process_frame_def reply_error)
next
  case (Inr fh)
  then have "frame_ok bs" "fh = dec_frame_hdr bs" by (auto simp: frame_validate_Inr_iff)
  then have "4 dvd unat (fh_frame_bytes fh)" "unat (fh_frame_bytes fh) \<le> length bs"
    by (auto simp: frame_ok_def Let_def)
  from process_msgs_total [OF this _ assms(2)] show ?thesis
    using Inr assms(1) \<open>unat (fh_frame_bytes fh) \<le> length bs\<close>
    by (simp add: drawfs_process_frame_def)
qed

end

section \<open>What the handlers leave alone\<close>

lemma enqueue_fields [frame_simps]:
  "s_inbuf (snd (drawfs_enqueue_event t s bs)) = s_inbuf s"
  "s_in_cap (snd (drawfs_enqueue_event t s bs)) = s_in_cap s"
  "s_closing (snd (drawfs_enqueue_event t s bs)) = s_closing s"
  "s_surfaces (snd (drawfs_enqueue_event t s bs)) = s_surfaces s"
  "s_surfaces_count (snd (drawfs_enqueue_event t s bs)) = s_surfaces_count s"
  "s_surfaces_bytes (snd (drawfs_enqueue_event t s bs)) = s_surfaces_bytes s"
  "s_map_surface_id (snd (drawfs_enqueue_event t s bs)) = s_map_surface_id s"
  "s_next_surface_id (snd (drawfs_enqueue_event t s bs)) = s_next_surface_id s"
  "s_active_display_id (snd (drawfs_enqueue_event t s bs)) = s_active_display_id s"
  "s_active_display_handle (snd (drawfs_enqueue_event t s bs)) = s_active_display_handle s"
  by (simp_all add: drawfs_enqueue_event_def upd_stats_def)

lemma send_reply_fields [frame_simps]:
  "s_inbuf (snd (drawfs_send_reply t s ty mid p)) = s_inbuf s"
  "s_in_cap (snd (drawfs_send_reply t s ty mid p)) = s_in_cap s"
  "s_closing (snd (drawfs_send_reply t s ty mid p)) = s_closing s"
  "s_surfaces (snd (drawfs_send_reply t s ty mid p)) = s_surfaces s"
  "s_surfaces_count (snd (drawfs_send_reply t s ty mid p)) = s_surfaces_count s"
  "s_surfaces_bytes (snd (drawfs_send_reply t s ty mid p)) = s_surfaces_bytes s"
  "s_map_surface_id (snd (drawfs_send_reply t s ty mid p)) = s_map_surface_id s"
  "s_next_surface_id (snd (drawfs_send_reply t s ty mid p)) = s_next_surface_id s"
  "s_active_display_id (snd (drawfs_send_reply t s ty mid p)) = s_active_display_id s"
  "s_active_display_handle (snd (drawfs_send_reply t s ty mid p)) = s_active_display_handle s"
  by (simp_all add: drawfs_send_reply_def Let_def frame_simps)

lemma coalesce_fields [frame_simps]:
  "s_inbuf (snd (drawfs_try_coalesce_presented t s sid ck)) = s_inbuf s"
  "s_in_cap (snd (drawfs_try_coalesce_presented t s sid ck)) = s_in_cap s"
  "s_closing (snd (drawfs_try_coalesce_presented t s sid ck)) = s_closing s"
  "s_evq_bytes (snd (drawfs_try_coalesce_presented t s sid ck)) = s_evq_bytes s"
  "s_surfaces (snd (drawfs_try_coalesce_presented t s sid ck)) = s_surfaces s"
  "s_surfaces_count (snd (drawfs_try_coalesce_presented t s sid ck)) = s_surfaces_count s"
  "s_surfaces_bytes (snd (drawfs_try_coalesce_presented t s sid ck)) = s_surfaces_bytes s"
  "s_map_surface_id (snd (drawfs_try_coalesce_presented t s sid ck)) = s_map_surface_id s"
  "s_next_surface_id (snd (drawfs_try_coalesce_presented t s sid ck)) = s_next_surface_id s"
  by (simp_all add: drawfs_try_coalesce_presented_def split: option.splits)

lemma create_fields [frame_simps]:
  "s_inbuf (snd (drawfs_surface_create t s w h fmt)) = s_inbuf s"
  "s_in_cap (snd (drawfs_surface_create t s w h fmt)) = s_in_cap s"
  "s_closing (snd (drawfs_surface_create t s w h fmt)) = s_closing s"
  "s_evq (snd (drawfs_surface_create t s w h fmt)) = s_evq s"
  "s_evq_bytes (snd (drawfs_surface_create t s w h fmt)) = s_evq_bytes s"
  by (simp_all add: surface_create_eq Let_def)

lemma destroy_fields [frame_simps]:
  "s_inbuf (snd (snd (drawfs_surface_destroy g s sid))) = s_inbuf s"
  "s_in_cap (snd (snd (drawfs_surface_destroy g s sid))) = s_in_cap s"
  "s_closing (snd (snd (drawfs_surface_destroy g s sid))) = s_closing s"
  "s_evq (snd (snd (drawfs_surface_destroy g s sid))) = s_evq s"
  "s_evq_bytes (snd (snd (drawfs_surface_destroy g s sid))) = s_evq_bytes s"
  by (simp_all add: drawfs_surface_destroy_def drawfs_surface_detach_def split: option.splits)

lemma upd_stats_fields [simp]:
  "s_inbuf (upd_stats f s) = s_inbuf s" "s_in_cap (upd_stats f s) = s_in_cap s"
  "s_closing (upd_stats f s) = s_closing s" "s_evq (upd_stats f s) = s_evq s"
  "s_evq_bytes (upd_stats f s) = s_evq_bytes s" "s_surfaces (upd_stats f s) = s_surfaces s"
  "s_surfaces_count (upd_stats f s) = s_surfaces_count s"
  "s_surfaces_bytes (upd_stats f s) = s_surfaces_bytes s"
  "s_map_surface_id (upd_stats f s) = s_map_surface_id s"
  "s_next_surface_id (upd_stats f s) = s_next_surface_id s"
  "s_stats (upd_stats f s) = f (s_stats s)"
  by (simp_all add: upd_stats_def)

text \<open>The handlers do not touch the input buffer.\<close>

interpretation inbuf_const: handler_inv t
  "\<lambda>s. s_inbuf s = b \<and> s_in_cap s = c \<and> s_closing s = k" for t b c k
  by unfold_locales (simp_all add: frame_simps)

section \<open>Frame extraction and ingestion\<close>

lemma enc_dec_frame_hdr: "16 \<le> length bs \<Longrightarrow> enc_frame_hdr (dec_frame_hdr bs) = take 16 bs"
proof -
  assume l: "16 \<le> length bs"
  have "take 16 bs = take 4 bs @ take 2 (drop 4 bs) @ take 2 (drop 6 bs) @ take 4 (drop 8 bs)
      @ take 4 (drop 12 bs)"
    using take_add [of 4 12 bs] take_add [of 2 10 "drop 4 bs"] take_add [of 2 8 "drop 6 bs"]
      take_add [of 4 4 "drop 8 bs"] by simp
  then show ?thesis using l by (simp add: enc_frame_hdr_def dec_frame_hdr_def put_get)
qed

lemma peek_Inr:
  assumes "inbuf_peek t s = Inr (fh, n)"
  shows "\<not> s_closing s" "fh = dec_frame_hdr (s_inbuf s)" "n = unat (fh_frame_bytes fh)"
    "0 < n" "n \<le> DRAWFS_MAX_FRAME_BYTES" "n \<le> length (s_inbuf s)" "16 \<le> length (s_inbuf s)"
    "4 dvd n" "fh_magic fh = DRAWFS_MAGIC" "fh_header_bytes fh = 16"
  using assms by (auto simp: inbuf_peek_def Let_def low_bits_zero split: if_splits)

text \<open>Nothing between the two locked sections: the frame is still there.\<close>

lemma commit_after_peek:
  assumes "inbuf_peek t s = Inr (fh, n)"
  shows "inbuf_commit s fh n =
    CommitFrame (take n (s_inbuf s))
      (upd_stats (\<lambda>st. st\<lparr>st_frames_received := st_frames_received st + 1\<rparr>)
        (s\<lparr>s_inbuf := drop n (s_inbuf s)\<rparr>))"
  using peek_Inr [OF assms] by (simp add: inbuf_commit_def enc_dec_frame_hdr)

lemma try_process_step:
  assumes "inbuf_peek t s = Inr (fh, n)"
  defines "frame \<equiv> take n (s_inbuf s)"
    and "s1 \<equiv> upd_stats (\<lambda>st. st\<lparr>st_frames_received := st_frames_received st + 1\<rparr>)
                (s\<lparr>s_inbuf := drop n (s_inbuf s)\<rparr>)"
  shows "drawfs_try_process_inbuf t fb g s =
    (case drawfs_frame_validate frame of
       Inl (code, off) \<Rightarrow> drawfs_try_process_inbuf t fb g
         (snd (drawfs_reply_error t
            (upd_stats (\<lambda>st. st\<lparr>st_frames_invalid := st_frames_invalid st + 1\<rparr>) s1) 0 code off))
     | Inr _ \<Rightarrow>
         do { r \<leftarrow> drawfs_process_frame t fb g s1 frame;
              (case r of (v, g', s2) \<Rightarrow>
                 let s3 = upd_stats (\<lambda>st. st\<lparr>st_frames_processed := st_frames_processed st + 1\<rparr>) s2 in
                 if v \<noteq> 0 then Some (v, g', s3) else drawfs_try_process_inbuf t fb g' s3) })"
  unfolding frame_def s1_def
  by (subst drawfs_try_process_inbuf.simps) (simp add: assms(1) commit_after_peek [OF assms(1)])

lemma grow_cap_total:
  assumes "0 < cap"
  shows "\<exists>c. grow_cap cap need = Some c \<and> need \<le> c \<and> cap \<le> c"
  using assms
proof (induction "need - cap" arbitrary: cap rule: less_induct)
  case less
  show ?case
  proof (cases "cap < need")
    case False
    then show ?thesis by (simp add: grow_cap.simps [of cap need])
  next
    case True
    then have "need - cap * 2 < need - cap" "0 < cap * 2" using less.prems by auto
    from less.hyps [OF this] True show ?thesis
      by (auto simp: grow_cap.simps [of cap need])
  qed
qed

locale session_inv = handler_inv +
  assumes shrink: "P s \<Longrightarrow> length b \<le> length (s_inbuf s) \<Longrightarrow> P (s\<lparr>s_inbuf := b\<rparr>)"
    and grow: "P s \<Longrightarrow> length b \<le> c \<Longrightarrow> s_in_cap s \<le> c \<Longrightarrow> c \<le> DRAWFS_MAX_FRAME_BYTES \<Longrightarrow>
      P (s\<lparr>s_inbuf := b, s_in_cap := c\<rparr>)"
    and cap: "P s \<Longrightarrow> 0 < s_in_cap s \<and> s_in_cap s \<le> DRAWFS_MAX_FRAME_BYTES"
begin

lemma peek_keeps: "P s \<Longrightarrow> inbuf_peek t s = Inl (e, s') \<Longrightarrow> P s'"
  by (auto simp: inbuf_peek_def Let_def shrink stats reply_error split: if_splits)

text \<open>Extraction always returns, and keeps the property.\<close>

lemma try_process_total:
  assumes "P s"
  shows "\<exists>e g' s'. drawfs_try_process_inbuf t fb g s = Some (e, g', s') \<and> P s'"
  using assms
proof (induction "length (s_inbuf s)" arbitrary: g s rule: less_induct)
  case less
  show ?case
  proof (cases "inbuf_peek t s")
    case (Inl a)
    then show ?thesis
      using peek_keeps [OF less.prems]
      by (cases a) (simp add: drawfs_try_process_inbuf.simps [of t fb g s])
  next
    case (Inr b)
    then obtain fh n where pk: "inbuf_peek t s = Inr (fh, n)" by (cases b) auto
    define s1 where "s1 = upd_stats (\<lambda>st. st\<lparr>st_frames_received := st_frames_received st + 1\<rparr>)
        (s\<lparr>s_inbuf := drop n (s_inbuf s)\<rparr>)"
    let ?frame = "take n (s_inbuf s)"
    note pf = peek_Inr [OF pk]
    have P1: "P s1" unfolding s1_def by (intro stats shrink less.prems) simp
    have in1: "s_inbuf s1 = drop n (s_inbuf s)" by (simp add: s1_def)
    have shorter: "length (s_inbuf s1) < length (s_inbuf s)" using pf by (simp add: in1)
    note step = try_process_step [OF pk, of fb g, folded s1_def]
    show ?thesis
    proof (cases "drawfs_frame_validate ?frame")
      case (Inl a)
      then obtain code off where v: "drawfs_frame_validate ?frame = Inl (code, off)"
        by (cases a) auto
      define s2 where "s2 = snd (drawfs_reply_error t
          (upd_stats (\<lambda>st. st\<lparr>st_frames_invalid := st_frames_invalid st + 1\<rparr>) s1) 0 code off)"
      have P2: "P s2" unfolding s2_def by (intro reply_error stats P1)
      have "s_inbuf s2 = s_inbuf s1"
        unfolding s2_def using inbuf_const.reply_error by simp
      with shorter less.hyps [OF _ P2] show ?thesis
        unfolding step by (simp add: v s2_def [symmetric])
    next
      case (Inr fh')
      have fl: "length ?frame \<le> DRAWFS_MAX_FRAME_BYTES" using pf by simp
      obtain v g2 s2 where pr: "drawfs_process_frame t fb g s1 ?frame = Some (v, g2, s2)" "P s2"
        using process_frame_total [OF fl P1] by blast
      have "s_inbuf s2 = s_inbuf s1"
        using inbuf_const.process_frame_total [OF fl, of s1 "s_inbuf s1" "s_in_cap s1"
            "s_closing s1" t fb g] pr(1) by auto
      define s3 where
        "s3 = upd_stats (\<lambda>st. st\<lparr>st_frames_processed := st_frames_processed st + 1\<rparr>) s2"
      have P3: "P s3" unfolding s3_def by (rule stats [OF pr(2)])
      have "length (s_inbuf s3) < length (s_inbuf s)"
        using shorter \<open>s_inbuf s2 = s_inbuf s1\<close> by (simp add: s3_def)
      from less.hyps [OF this P3, of g2] P3 show ?thesis
        unfolding step by (auto simp: Inr pr(1) s3_def [symmetric] Let_def)
    qed
  qed
qed

text \<open>The round of the ingestion loop that has a large enough buffer.\<close>

lemma ingest_append:
  assumes "P s" "length (s_inbuf s) + length bs \<le> c" "s_in_cap s \<le> c" "c \<le> DRAWFS_MAX_FRAME_BYTES"
  shows "\<exists>e g' s'. drawfs_try_process_inbuf t fb g (s\<lparr>s_inbuf := s_inbuf s @ bs, s_in_cap := c\<rparr>)
    = Some (e, g', s') \<and> P s'"
  by (rule try_process_total, rule grow) (use assms in simp_all)

lemma ingest_fits:
  assumes "P s" "length (s_inbuf s) + length bs \<le> s_in_cap s"
  shows "\<exists>e g' s'. drawfs_try_process_inbuf t fb g (s\<lparr>s_inbuf := s_inbuf s @ bs\<rparr>)
    = Some (e, g', s') \<and> P s'"
proof -
  have "s\<lparr>s_inbuf := s_inbuf s @ bs\<rparr> = s\<lparr>s_inbuf := s_inbuf s @ bs, s_in_cap := s_in_cap s\<rparr>"
    by simp
  with ingest_append [OF assms order_refl] cap [OF assms(1)] show ?thesis by simp
qed

lemma ingest_second_round:
  assumes "P s" "\<not> s_closing s" "length (s_inbuf s) + length bs \<le> c"
    "s_in_cap s \<le> c" "c \<le> DRAWFS_MAX_FRAME_BYTES"
  shows "\<exists>e g' s'. ingest_loop t fb g s bs (Some c) True = Some (e, g', s') \<and> P s'"
  using assms ingest_append [OF assms(1,3-5), of fb] ingest_fits [OF assms(1), of bs fb]
  by (subst ingest_loop.simps) (simp add: Let_def)

lemma ingest_total:
  assumes P: "P s"
  shows "\<exists>e g' s'. drawfs_ingest_bytes t fb g s bs = Some (e, g', s') \<and> P s'"
proof -
  define s1 where
    "s1 = upd_stats (\<lambda>st. st\<lparr>st_bytes_in := st_bytes_in st + of_nat (length bs)\<rparr>) s"
  have P1: "P s1" unfolding s1_def by (rule stats [OF P])
  have f: "s_inbuf s1 = s_inbuf s" "s_in_cap s1 = s_in_cap s" "s_closing s1 = s_closing s"
    by (simp_all add: s1_def)
  let ?need = "length (s_inbuf s) + length bs"
  obtain c where c: "grow_cap (s_in_cap s) ?need = Some c" "?need \<le> c" "s_in_cap s \<le> c"
    using grow_cap_total cap [OF P] by blast
  let ?nc = "if c > DRAWFS_MAX_FRAME_BYTES then DRAWFS_MAX_FRAME_BYTES else c"
  have second: "\<not> s_closing s \<Longrightarrow> ?need \<le> DRAWFS_MAX_FRAME_BYTES \<Longrightarrow>
      \<exists>e g' s'. ingest_loop t fb g s1 bs (Some ?nc) True = Some (e, g', s') \<and> P s'"
    by (rule ingest_second_round [OF P1]) (use c cap [OF P] f in auto)
  have over: "P (snd (drawfs_reply_error t (s1\<lparr>s_inbuf := []\<rparr>) 0 ERR_OVERFLOW 0))"
    by (intro reply_error shrink P1) simp
  show ?thesis
    using P second over ingest_fits [OF P1, of bs fb] c(1)
    unfolding drawfs_ingest_bytes_def
    by (subst ingest_loop.simps) (simp add: Let_def s1_def [symmetric] f grow_lost_def)
qed

end

section \<open>The session invariant\<close>

text \<open>A queued event is a complete frame, of the size its header says.\<close>

definition event_ok :: "buf \<Rightarrow> bool" where
  "event_ok ev \<longleftrightarrow> frame_ok ev \<and> length ev = unat (fh_frame_bytes (dec_frame_hdr ev)) \<and>
     length ev \<le> DRAWFS_MAX_EVENT_BYTES"

definition evq_acct :: "drawfs_tunables \<Rightarrow> drawfs_session \<Rightarrow> bool" where
  "evq_acct t s \<longleftrightarrow>
     unat (s_evq_bytes s) = (\<Sum>ev\<leftarrow>s_evq s. length ev) \<and>
     unat (s_evq_bytes s) \<le> unat (t_max_evq_bytes t)"

definition evq_wf :: "drawfs_tunables \<Rightarrow> drawfs_session \<Rightarrow> bool" where
  "evq_wf t s \<longleftrightarrow> evq_acct t s \<and> (\<forall>ev \<in> set (s_evq s). event_ok ev)"

definition inbuf_wf :: "drawfs_session \<Rightarrow> bool" where
  "inbuf_wf s \<longleftrightarrow>
     0 < s_in_cap s \<and> s_in_cap s \<le> DRAWFS_MAX_FRAME_BYTES \<and> length (s_inbuf s) \<le> s_in_cap s"

definition session_wf :: "drawfs_tunables \<Rightarrow> drawfs_session \<Rightarrow> bool" where
  "session_wf t s \<longleftrightarrow> evq_wf t s \<and> inbuf_wf s \<and> surfaces_acct t s"

lemma unat_scast_nonneg:
  "unat (m :: u32) < 2 ^ 31 \<Longrightarrow> unat (scast m :: u64) = unat m"
proof -
  assume "unat m < 2 ^ 31"
  then have "int (unat m) < int (2 ^ 31)" by (simp only: of_nat_less_iff)
  then have u: "uint m < 2 ^ 31" by simp
  have "0 \<le> uint m" by simp
  then have "- (2 ^ 31) \<le> uint m" by (rule order_trans [rotated]) simp
  then have "sint m = uint m"
    unfolding sint_uint by (intro signed_take_bit_int_eq_self) (use u in simp_all)
  then have "(scast m :: u64) = ucast m" by (metis ucast_eq scast_eq)
  then show ?thesis by (simp add: unat_ucast_up)
qed

lemma enqueue_cases:
  assumes "drawfs_enqueue_event t s bs = (e, s')" "tunables_sane t" "evq_acct t s"
  shows "e = 0 \<and> bs \<noteq> [] \<and> s_evq s' = s_evq s @ [bs] \<and>
      unat (s_evq_bytes s') = unat (s_evq_bytes s) + length bs \<and>
      unat (s_evq_bytes s') \<le> unat (t_max_evq_bytes t) \<and> length bs \<le> DRAWFS_MAX_EVENT_BYTES
    \<or> (e = 0 \<longrightarrow> bs = []) \<and> s_evq s' = s_evq s \<and> s_evq_bytes s' = s_evq_bytes s"
proof -
  have m: "unat (scast (t_max_evq_bytes t) :: u64) = unat (t_max_evq_bytes t)"
    using assms(2) by (simp add: tunables_sane_def unat_scast_nonneg)
  have add: "length bs \<le> DRAWFS_MAX_EVENT_BYTES \<Longrightarrow>
      unat (s_evq_bytes s + of_nat (length bs)) = unat (s_evq_bytes s) + length bs"
    using assms(2,3)
    by (subst unat_add_no_wrap)
      (auto simp: evq_acct_def tunables_sane_def DRAWFS_MAX_EVENT_BYTES_def unat_of_nat)
  show ?thesis
    using assms(1) m add
    by (auto simp: drawfs_enqueue_event_def word_less_nat_alt not_less split: if_splits)
qed

lemma frame_build_event_ok:
  assumes "length payload \<le> 32"
  shows "event_ok (drawfs_frame_build fid ty mid payload)"
proof -
  have l: "length payload \<le> 2 ^ 32 - 64" using assms by simp
  have "frame_size (length payload) \<le> 67" using assms frame_size_bounds(2) [of "length payload"] by simp
  then show ?thesis
    by (simp add: event_ok_def frame_build_ok [OF l] frame_build_parts [OF l]
        length_frame_build [OF l] unat_of_nat DRAWFS_MAX_EVENT_BYTES_def)
qed

lemma send_reply_evq_wf:
  assumes "tunables_sane t" "evq_wf t s" "length payload \<le> 32"
  shows "evq_wf t (snd (drawfs_send_reply t s ty mid payload))"
proof -
  let ?s = "s\<lparr>s_next_out_frame_id := s_next_out_frame_id s + 1\<rparr>"
  let ?f = "drawfs_frame_build (s_next_out_frame_id s) ty mid payload"
  have wf: "evq_acct t ?s" "\<forall>ev \<in> set (s_evq ?s). event_ok ev"
    using assms(2) by (simp_all add: evq_wf_def evq_acct_def)
  obtain e s' where e: "drawfs_enqueue_event t ?s ?f = (e, s')" by (metis surj_pair)
  have "event_ok ?f" by (rule frame_build_event_ok [OF assms(3)])
  with enqueue_cases [OF e assms(1) wf(1)] wf show ?thesis
    by (auto simp: drawfs_send_reply_def Let_def e evq_wf_def evq_acct_def)
qed

text \<open>Rewriting the cookie of a queued event keeps its headers and its length.\<close>

lemma blit_cookie_ok: "event_ok ev \<Longrightarrow> 48 \<le> length ev \<Longrightarrow> event_ok (blit ev 40 (put64 c))"
proof -
  assume ok: "event_ok ev" and l: "48 \<le> length ev"
  have len: "length (blit ev 40 (put64 c)) = length ev" using l by simp
  have "dec_frame_hdr (blit ev 40 (put64 c)) = dec_frame_hdr (take 40 ev @ put64 c @ drop 48 ev)"
    by (simp add: blit_def)
  also have "\<dots> = dec_frame_hdr ev"
    using l by (simp add: dec_frame_hdr_def get_append_left get_take)
  finally show ?thesis using ok len by (simp add: event_ok_def frame_ok_def Let_def)
qed

text \<open>The events the coalescing search stops at.\<close>

definition presented_for :: "u32 \<Rightarrow> buf \<Rightarrow> bool" where
  "presented_for sid ev \<longleftrightarrow> 48 \<le> length ev \<and>
     mh_msg_type (dec_msg_hdr (drop 16 ev)) = event_type_code EVT_SURFACE_PRESENTED \<and>
     get32 ev 32 = sid"

lemma coalesce_queue_Cons:
  "coalesce_queue sid cookie (ev # q) =
     (if presented_for sid ev then Some (blit ev 40 (put64 cookie) # q)
      else map_option ((#) ev) (coalesce_queue sid cookie q))"
  by (simp add: presented_for_def)

lemma coalesce_queue_None:
  "coalesce_queue sid cookie q = None \<longleftrightarrow> (\<forall>ev \<in> set q. \<not> presented_for sid ev)"
  by (induction q) (simp_all add: coalesce_queue_Cons del: coalesce_queue.simps(2))

lemma coalesce_queue_split:
  "coalesce_queue sid cookie q = Some q' \<Longrightarrow>
   \<exists>pre ev post. q = pre @ ev # post \<and> q' = pre @ blit ev 40 (put64 cookie) # post \<and>
     presented_for sid ev \<and> (\<forall>x \<in> set pre. \<not> presented_for sid x)"
proof (induction q arbitrary: q')
  case Nil
  then show ?case by simp
next
  case (Cons ev q)
  show ?case
  proof (cases "presented_for sid ev")
    case True
    then have "q' = blit ev 40 (put64 cookie) # q"
      using Cons.prems by (simp add: coalesce_queue_Cons del: coalesce_queue.simps(2))
    with True show ?thesis by (metis append_Nil empty_iff list.set(1))
  next
    case False
    then obtain q1 where q1: "coalesce_queue sid cookie q = Some q1" "q' = ev # q1"
      using Cons.prems by (auto simp: coalesce_queue_Cons simp del: coalesce_queue.simps(2))
    from Cons.IH [OF q1(1)] obtain pre x post where
      "q = pre @ x # post" "q1 = pre @ blit x 40 (put64 cookie) # post"
      "presented_for sid x" "\<forall>y \<in> set pre. \<not> presented_for sid y" by blast
    with False q1(2) show ?thesis by (intro exI [of _ "ev # pre"]) simp
  qed
qed

lemma blit_cookie_reads:
  "48 \<le> length ev \<Longrightarrow> take 40 (blit ev 40 (put64 c)) = take 40 ev \<and>
     get64 (blit ev 40 (put64 c)) 40 = c"
  by (simp add: blit_def get_put_at)

lemma coalesce_queue_lengths:
  "coalesce_queue sid c q = Some q' \<Longrightarrow> map length q' = map length q"
  by (induction q arbitrary: q') (auto split: if_splits)

lemma coalesce_queue_ok:
  "coalesce_queue sid c q = Some q' \<Longrightarrow> \<forall>ev \<in> set q. event_ok ev \<Longrightarrow> \<forall>ev \<in> set q'. event_ok ev"
proof (induction q arbitrary: q')
  case Nil
  then show ?case by simp
next
  case (Cons ev q)
  then show ?case by (auto simp: blit_cookie_ok split: if_splits)
qed

lemma coalesce_evq_wf:
  "evq_wf t s \<Longrightarrow> evq_wf t (snd (drawfs_try_coalesce_presented t s sid c))"
proof (cases "coalesce_queue sid c (s_evq s)")
  case (Some q)
  moreover assume "evq_wf t s"
  ultimately show ?thesis
    using coalesce_queue_lengths [OF Some] coalesce_queue_ok [OF Some]
    by (auto simp: drawfs_try_coalesce_presented_def evq_wf_def evq_acct_def)
qed (simp add: drawfs_try_coalesce_presented_def)

lemma surfaces_acct_cong:
  "s_surfaces s' = s_surfaces s \<Longrightarrow> s_surfaces_count s' = s_surfaces_count s \<Longrightarrow>
   s_surfaces_bytes s' = s_surfaces_bytes s \<Longrightarrow> s_map_surface_id s' = s_map_surface_id s \<Longrightarrow>
   surfaces_acct t s' = surfaces_acct t s"
  by (simp add: surfaces_acct_def)

lemma evq_wf_cong:
  "s_evq s' = s_evq s \<Longrightarrow> s_evq_bytes s' = s_evq_bytes s \<Longrightarrow> evq_wf t s' = evq_wf t s"
  by (simp add: evq_wf_def evq_acct_def)

lemma inbuf_wf_cong:
  "s_inbuf s' = s_inbuf s \<Longrightarrow> s_in_cap s' = s_in_cap s \<Longrightarrow> inbuf_wf s' = inbuf_wf s"
  by (simp add: inbuf_wf_def)

text \<open>The session invariant is kept by the whole request path.\<close>

interpretation wf: session_inv t "\<lambda>s. tunables_sane t \<and> session_wf t s" for t
proof (unfold_locales, goal_cases)
  case (1 s payload ty mid)
  then show ?case
    using surfaces_acct_cong [of "snd (drawfs_send_reply t s ty mid payload)" s]
      inbuf_wf_cong [of "snd (drawfs_send_reply t s ty mid payload)" s]
    by (simp add: session_wf_def send_reply_evq_wf frame_simps)
next
  case (2 s sid c)
  then show ?case
    using surfaces_acct_cong [of "snd (drawfs_try_coalesce_presented t s sid c)" s]
      inbuf_wf_cong [of "snd (drawfs_try_coalesce_presented t s sid c)" s]
    by (simp add: session_wf_def coalesce_evq_wf frame_simps)
next
  case (3 s f)
  then show ?case by (simp add: session_wf_def evq_wf_def evq_acct_def inbuf_wf_def surfaces_acct_def)
next
  case (4 s a b c)
  then show ?case by (simp add: session_wf_def evq_wf_def evq_acct_def inbuf_wf_def surfaces_acct_def)
next
  case (5 s w h fmt)
  then show ?case
    using evq_wf_cong [of "snd (drawfs_surface_create t s w h fmt)" s]
      inbuf_wf_cong [of "snd (drawfs_surface_create t s w h fmt)" s]
    by (simp add: session_wf_def create_acct frame_simps)
next
  case (6 s g sid)
  then show ?case
    using evq_wf_cong [of "snd (snd (drawfs_surface_destroy g s sid))" s]
      inbuf_wf_cong [of "snd (snd (drawfs_surface_destroy g s sid))" s]
    by (simp add: session_wf_def destroy_acct frame_simps)
qed (auto simp: session_wf_def evq_wf_def evq_acct_def inbuf_wf_def surfaces_acct_def)

end
