(* ===== verification/Bounded_Fifo.thy ===== *)
theory Bounded_Fifo
  imports Awase_Prelude
begin

text \<open>
  The contract of the bounded queues of the drivers: a put appends or refuses, a get takes the
  oldest item, and the items never weigh more than the limit. The event queue of a drawfs
  session and the scancode ring of the keyboard bridge implement it.
\<close>

datatype 'a qop = Put 'a | Get

text \<open>A run of a queue: what it accepted and what it delivered, in order.\<close>

fun qrun :: "('q \<Rightarrow> 'a \<Rightarrow> bool \<times> 'q) \<Rightarrow> ('q \<Rightarrow> ('a \<times> 'q) option) \<Rightarrow> 'a qop list \<Rightarrow> 'q \<Rightarrow>
    'a list \<times> 'a list \<times> 'q" where
  "qrun enq deq [] q = ([], [], q)"
| "qrun enq deq (Put x # ops) q =
     (let (ok, q1) = enq q x; (acc, del, q2) = qrun enq deq ops q1
      in (if ok then x # acc else acc, del, q2))"
| "qrun enq deq (Get # ops) q =
     (case deq q of
        None \<Rightarrow> qrun enq deq ops q
      | Some (x, q1) \<Rightarrow> (let (acc, del, q2) = qrun enq deq ops q1 in (acc, x # del, q2)))"

locale bounded_fifo =
  fixes enq :: "'q \<Rightarrow> 'a \<Rightarrow> bool \<times> 'q"
    and deq :: "'q \<Rightarrow> ('a \<times> 'q) option"
    and items :: "'q \<Rightarrow> 'a list"
    and weight :: "'a \<Rightarrow> nat"
    and limit :: nat
    and invar :: "'q \<Rightarrow> bool"
  assumes enq_items: "invar q \<Longrightarrow> enq q x = (ok, q') \<Longrightarrow>
      items q' = (if ok then items q @ [x] else items q) \<and> invar q'"
    and deq_items: "invar q \<Longrightarrow> deq q = Some (x, q') \<Longrightarrow> items q = x # items q' \<and> invar q'"
    and deq_none: "invar q \<Longrightarrow> deq q = None \<Longrightarrow> items q = []"
    and within: "invar q \<Longrightarrow> sum_list (map weight (items q)) \<le> limit"
begin

lemma run_fifo:
  "invar q \<Longrightarrow> qrun enq deq ops q = (acc, del, q') \<Longrightarrow>
   items q @ acc = del @ items q' \<and> invar q'"
proof (induction ops arbitrary: q acc del q')
  case Nil
  then show ?case by simp
next
  case (Cons op ops)
  show ?case
  proof (cases op)
    case (Put x)
    obtain ok q1 where e: "enq q x = (ok, q1)" by (metis surj_pair)
    obtain a d q2 where r: "qrun enq deq ops q1 = (a, d, q2)" by (metis prod_cases3)
    have q1: "items q1 = (if ok then items q @ [x] else items q)" "invar q1"
      using enq_items [OF Cons.prems(1) e] by auto
    have "items q1 @ a = d @ items q2 \<and> invar q2" by (rule Cons.IH [OF q1(2) r])
    then show ?thesis using Cons.prems(2) q1(1) by (auto simp: Put e r split: if_splits)
  next
    case Get
    show ?thesis
    proof (cases "deq q")
      case None
      then show ?thesis using Cons.prems Cons.IH by (simp add: Get)
    next
      case (Some p)
      then obtain x q1 where d1: "deq q = Some (x, q1)" by (cases p) auto
      obtain a d q2 where r: "qrun enq deq ops q1 = (a, d, q2)" by (metis prod_cases3)
      have q1: "items q = x # items q1" "invar q1"
        using deq_items [OF Cons.prems(1) d1] by auto
      have "items q1 @ a = d @ items q2 \<and> invar q2" by (rule Cons.IH [OF q1(2) r])
      then show ?thesis using Cons.prems(2) q1(1) by (auto simp: Get d1 r)
    qed
  qed
qed

text \<open>Draining the queue delivers what it held.\<close>

lemma run_drain:
  assumes "invar q" "qrun enq deq (replicate n Get) q = (acc, del, q')" "length (items q) \<le> n"
  shows "del = items q \<and> items q' = []"
  using assms
proof (induction n arbitrary: q acc del q')
  case 0
  then show ?case by simp
next
  case (Suc n)
  show ?case
  proof (cases "deq q")
    case None
    then have "qrun enq deq (replicate n Get) q = (acc, del, q')" using Suc.prems(2) by simp
    from Suc.IH [OF Suc.prems(1) this] deq_none [OF Suc.prems(1) None] show ?thesis by simp
  next
    case (Some p)
    then obtain x q1 where d1: "deq q = Some (x, q1)" by (cases p) auto
    obtain a d q2 where r: "qrun enq deq (replicate n Get) q1 = (a, d, q2)"
      by (metis prod_cases3)
    have q1: "items q = x # items q1" "invar q1"
      using deq_items [OF Suc.prems(1) d1] by auto
    have "d = items q1 \<and> items q2 = []"
      using Suc.IH [OF q1(2) r] Suc.prems(3) q1(1) by simp
    then show ?thesis using Suc.prems(2) q1(1) by (simp add: d1 r)
  qed
qed

end

end
