(* ===== verification/Drawfs_Device.thy ===== *)
theory Drawfs_Device
  imports Drawfs_Session Bounded_Fifo
begin

text \<open>
  The character device of \<^verbatim>\<open>drawfs.c\<close>: opening and freeing sessions, read, write, poll,
  mmap, the ioctls with the global session registry, and module load and unload. User copies
  (\<^verbatim>\<open>uiomove\<close>) and the VM allocator are arguments.
\<close>

section \<open>Opening and freeing a session\<close>

definition zero_stats :: drawfs_stats where
  "zero_stats =
     \<lparr>st_frames_received = 0, st_frames_processed = 0, st_frames_invalid = 0,
      st_messages_processed = 0, st_messages_unsupported = 0, st_events_enqueued = 0,
      st_events_dropped = 0, st_bytes_in = 0, st_bytes_out = 0, st_evq_depth = 0,
      st_inbuf_bytes = 0, st_evq_bytes = 0, st_surfaces_count = 0, st_surfaces_bytes = 0\<rparr>"

text \<open>The session \<^verbatim>\<open>drawfs_open\<close> allocates: zeroed memory, then the explicit fields.\<close>

definition new_session :: drawfs_session where
  "new_session =
     \<lparr>s_evq = [], s_evq_bytes = 0, s_closing = False, s_next_out_frame_id = 1, s_inbuf = [],
      s_in_cap = 4096, s_active_display_id = 0, s_map_surface_id = 0, s_active_surface_id = 0,
      s_next_display_handle = 1, s_active_display_handle = 0, s_surfaces = [],
      s_next_surface_id = 1, s_surfaces_count = 0, s_surfaces_bytes = 0, s_stats = zero_stats,
      s_wakeups = []\<rparr>"

text \<open>The registry: the open sessions in the order of \<^verbatim>\<open>g_sessions\<close>, each under a key.\<close>

type_synonym registry = "(nat \<times> drawfs_session) list"

definition drawfs_open :: "errno \<Rightarrow> nat \<Rightarrow> registry \<Rightarrow> errno \<times> registry" where
  "drawfs_open cdevpriv_err key reg = (cdevpriv_err, reg @ [(key, new_session)])"

text \<open>The part of \<^verbatim>\<open>drawfs_session_free\<close> that works on the session itself.\<close>

definition session_teardown ::
  "drawfs_globals \<Rightarrow> drawfs_session \<Rightarrow> drawfs_globals \<times> drawfs_session" where
  "session_teardown g s =
     (let s1 = s\<lparr>s_closing := True, s_wakeups := s_wakeups s @ [CvBroadcast, SelWakeup],
                 s_evq := [], s_evq_bytes := 0, s_inbuf := [], s_in_cap := 0\<rparr>
      in drawfs_surfaces_free_all g s1)"

text \<open>
  The whole of it: the session leaves the registry, is torn down and its memory is given
  back. \<^verbatim>\<open>drawfs_priv_dtor\<close>, which devfs calls at the last close, is this call.
\<close>

definition drawfs_session_free ::
  "nat \<Rightarrow> drawfs_globals \<Rightarrow> registry \<Rightarrow> drawfs_globals \<times> registry" where
  "drawfs_session_free key g reg =
     (case map_of reg key of
        None \<Rightarrow> (g, reg)
      | Some s \<Rightarrow> (fst (session_teardown g s), filter (\<lambda>(k, _). k \<noteq> key) reg))"

definition drawfs_priv_dtor ::
  "nat \<Rightarrow> drawfs_globals \<Rightarrow> registry \<Rightarrow> drawfs_globals \<times> registry" where
  "drawfs_priv_dtor key g reg = drawfs_session_free key g reg"

section \<open>Read, write, poll\<close>

text \<open>
  One pass of the read loop: an error, sleeping on the condition variable, or the first
  event, of which \<^verbatim>\<open>uiomove\<close> copies as much as the caller's buffer of \<open>resid\<close> bytes
  takes, or fails with \<open>uio_err\<close>. The event leaves the queue in any case.
\<close>

datatype read_result = ReadError errno | ReadSleep | ReadBytes buf

definition read_locked :: "bool \<Rightarrow> drawfs_session \<Rightarrow> (read_result + buf) \<times> drawfs_session" where
  "read_locked nonblock s =
     (if s_closing s then (Inl (ReadError ENXIO), s)
      else case s_evq s of
        [] \<Rightarrow> (Inl (if nonblock then ReadError EWOULDBLOCK else ReadSleep), s)
      | ev # q \<Rightarrow> (Inr ev, s\<lparr>s_evq := q, s_evq_bytes := s_evq_bytes s - of_nat (length ev)\<rparr>))"

definition drawfs_read ::
  "errno \<Rightarrow> bool \<Rightarrow> nat \<Rightarrow> drawfs_session \<Rightarrow> read_result \<times> drawfs_session" where
  "drawfs_read uio_err nonblock resid s =
     (case read_locked nonblock s of
        (Inl r, s') \<Rightarrow> (r, s')
      | (Inr ev, s') \<Rightarrow>
          (if uio_err \<noteq> 0 then ReadError uio_err else ReadBytes (take resid ev), s'))"

text \<open>\<open>uio\<close> is the outcome of copying the caller's bytes in.\<close>

definition drawfs_write ::
  "drawfs_tunables \<Rightarrow> drawfs_efifb_state \<Rightarrow> drawfs_globals \<Rightarrow> drawfs_session \<Rightarrow> nat \<Rightarrow> errno + buf \<Rightarrow>
   (errno \<times> drawfs_globals \<times> drawfs_session) option" where
  "drawfs_write t fb g s resid uio =
     (if resid = 0 then Some (0, g, s)
      else if resid > DRAWFS_MAX_FRAME_BYTES then Some (EFBIG, g, s)
      else case uio of Inl e \<Rightarrow> Some (e, g, s) | Inr bs \<Rightarrow> drawfs_ingest_bytes t fb g s bs)"

definition POLLIN :: u32 where "POLLIN = 0x0001"
definition POLLRDNORM :: u32 where "POLLRDNORM = 0x0040"
definition POLLERR :: u32 where "POLLERR = 0x0008"
definition POLLHUP :: u32 where "POLLHUP = 0x0010"

definition drawfs_poll :: "drawfs_session \<Rightarrow> u32 \<Rightarrow> u32 \<times> drawfs_session" where
  "drawfs_poll s events =
     (if s_closing s
      then ((if events AND (POLLHUP OR POLLERR) \<noteq> 0 then events AND (POLLHUP OR POLLERR)
             else POLLHUP), s)
      else if events AND (POLLIN OR POLLRDNORM) \<noteq> 0
      then (if s_evq s \<noteq> [] then (events AND (POLLIN OR POLLRDNORM), s)
            else (0, s\<lparr>s_wakeups := s_wakeups s @ [SelRecord]\<rparr>))
      else (0, s))"

section \<open>Mapping and ioctls\<close>

definition drawfs_mmap_single ::
  "drawfs_tunables \<Rightarrow> (u32 \<Rightarrow> vm_object option) \<Rightarrow> drawfs_globals \<Rightarrow> drawfs_session \<Rightarrow> u64 \<Rightarrow> u64 \<Rightarrow>
   (errno + vm_object) \<times> drawfs_globals \<times> drawfs_session" where
  "drawfs_mmap_single t alloc g s offset sz =
     (if \<not> t_mmap_enabled t then (Inl EPERM, g, s)
      else if offset \<noteq> 0 then (Inl EINVAL, g, s)
      else if sz = 0 then (Inl EINVAL, g, s)
      else drawfs_surface_get_vmobj alloc g s sz)"

definition drawfs_find_session_for_surface :: "registry \<Rightarrow> u32 \<Rightarrow> nat option" where
  "drawfs_find_session_for_surface reg sid =
     map_option fst (find (\<lambda>(k, s). \<not> s_closing s \<and> drawfs_surface_lookup s sid \<noteq> None) reg)"

definition upd_session :: "nat \<Rightarrow> (drawfs_session \<Rightarrow> drawfs_session) \<Rightarrow> registry \<Rightarrow> registry" where
  "upd_session key f reg = map (\<lambda>(k, s). (k, if k = key then f s else s)) reg"

text \<open>DRAWFSGIOC_INJECT_INPUT; the payload is the fixed 32-byte array of the request.\<close>

definition ioctl_inject_input ::
  "drawfs_tunables \<Rightarrow> registry \<Rightarrow> u32 \<Rightarrow> u16 \<Rightarrow> buf \<Rightarrow> errno \<times> registry" where
  "ioctl_inject_input t reg sid evt_type payload =
     (if evt_type \<notin> {event_type_code EVT_KEY, event_type_code EVT_POINTER,
                      event_type_code EVT_SCROLL, event_type_code EVT_TOUCH}
      then (EINVAL, reg)
      else case drawfs_find_session_for_surface reg sid of
        None \<Rightarrow> (ENOENT, reg)
      | Some key \<Rightarrow>
         (case map_of reg key of
            None \<Rightarrow> (ENOENT, reg)
          | Some s \<Rightarrow>
             (let (err, s') = drawfs_send_reply t s evt_type 0 payload
              in (err, upd_session key (\<lambda>_. s') reg))))"

text \<open>DRAWFSGIOC_MAP_SURFACE returns 0 and reports the status in the structure.\<close>

definition ioctl_map_surface :: "drawfs_session \<Rightarrow> u32 \<Rightarrow> (errno \<times> u32 \<times> u32) \<times> drawfs_session" where
  "ioctl_map_surface s sid = drawfs_surface_select_for_mmap s sid"

definition ioctl_stats :: "drawfs_session \<Rightarrow> drawfs_stats" where
  "ioctl_stats s =
     (s_stats s)\<lparr>st_inbuf_bytes := of_nat (length (s_inbuf s)),
                 st_evq_depth := of_nat (length (s_evq s)),
                 st_evq_bytes := ucast (s_evq_bytes s),
                 st_surfaces_count := s_surfaces_count s,
                 st_surfaces_bytes := s_surfaces_bytes s\<rparr>"

text \<open>
  The dispatch of \<^verbatim>\<open>drawfs_ioctl\<close> for the caller's session \<open>key\<close>; \<open>mem\<close> is the mapped
  framebuffer. A result is the return value, what is copied out, and the new registry and
  framebuffer.
\<close>

datatype ioctl_cmd =
    InjectInput u32 u16 buf
  | MapSurface u32
  | Stats
  | GetEfifbInfo
  | BlitToEfifb drawfs_blit_to_efifb
  | OtherCmd

datatype ioctl_out = OutNone | OutMap errno u32 u32 | OutStats drawfs_stats | OutInfo drawfs_efifb_info

definition drawfs_ioctl ::
  "drawfs_tunables \<Rightarrow> (nat \<Rightarrow> nat \<Rightarrow> errno + buf) \<Rightarrow> drawfs_efifb_state \<Rightarrow> buf \<Rightarrow> registry \<Rightarrow>
   nat \<Rightarrow> ioctl_cmd \<Rightarrow> (errno \<times> ioctl_out \<times> registry \<times> buf) option" where
  "drawfs_ioctl t copyin fb mem reg key cmd =
     (case map_of reg key of
        None \<Rightarrow> Some (ENOENT, OutNone, reg, mem)
      | Some s \<Rightarrow>
         (case cmd of
            InjectInput sid ty payload \<Rightarrow>
              (let (err, reg') = ioctl_inject_input t reg sid ty payload
               in Some (err, OutNone, reg', mem))
          | MapSurface sid \<Rightarrow>
              (let ((err, stride, nbytes), s') = ioctl_map_surface s sid
               in Some (0, OutMap err stride nbytes, upd_session key (\<lambda>_. s') reg, mem))
          | Stats \<Rightarrow> Some (0, OutStats (ioctl_stats s), reg, mem)
          | GetEfifbInfo \<Rightarrow>
              (case ioctl_get_efifb_info fb of
                 Inl e \<Rightarrow> Some (e, OutNone, reg, mem)
               | Inr info \<Rightarrow> Some (0, OutInfo info, reg, mem))
          | BlitToEfifb req \<Rightarrow>
              map_option (\<lambda>(e, mem'). (e, OutNone, reg, mem')) (ioctl_blit_to_efifb copyin fb req mem)
          | OtherCmd \<Rightarrow> Some (ENOTTY, OutNone, reg, mem)))"

section \<open>Module events\<close>

record drawfs_module =
  md_dev :: bool
  md_fb :: drawfs_efifb_state
  md_backend :: string

definition drawfs_modevent ::
  "bool \<Rightarrow> efi_fb option \<Rightarrow> u64 \<Rightarrow> drawfs_module \<Rightarrow> modevent \<Rightarrow> errno \<times> drawfs_module" where
  "drawfs_modevent kmdp meta vaddr md ev =
     (case ev of
        MOD_LOAD \<Rightarrow>
          (let (err, fb) = drawfs_efifb_init kmdp meta vaddr
           in (0, md\<lparr>md_dev := True, md_fb := fb,
                    md_backend := (if err = 0 then ''efifb'' else md_backend md)\<rparr>))
      | MOD_UNLOAD \<Rightarrow> (0, md\<lparr>md_fb := drawfs_efifb_fini (md_fb md), md_dev := False\<rparr>)
      | MOD_OTHER \<Rightarrow> (EOPNOTSUPP, md))"

section \<open>Finding the session of a surface\<close>

lemma find_session_None:
  "drawfs_find_session_for_surface reg sid = None \<longleftrightarrow>
   (\<forall>k s. (k, s) \<in> set reg \<longrightarrow> s_closing s \<or> drawfs_surface_lookup s sid = None)"
  by (auto simp: drawfs_find_session_for_surface_def find_None_iff)

lemma find_session_Some:
  assumes "drawfs_find_session_for_surface reg sid = Some key"
  obtains s where "(key, s) \<in> set reg" "\<not> s_closing s" "drawfs_surface_lookup s sid \<noteq> None"
  using assms by (auto simp: drawfs_find_session_for_surface_def dest: find_Some_iff_mem)

lemma map_of_upd_session:
  "map_of (upd_session key f reg) k =
     map_option (if k = key then f else id) (map_of reg k)"
  by (induction reg) (auto simp: upd_session_def)

lemma map_of_filter_key: "k \<noteq> key \<Longrightarrow> map_of (filter (\<lambda>(k, _). k \<noteq> key) reg) k = map_of reg k"
  by (induction reg) auto

section \<open>The event queue as a bounded queue\<close>

text \<open>The operations of a session's event queue, in the form of the interface.\<close>

definition evq_put :: "drawfs_tunables \<Rightarrow> drawfs_session \<Rightarrow> buf \<Rightarrow> bool \<times> drawfs_session" where
  "evq_put t s bs = (case drawfs_enqueue_event t s bs of (e, s') \<Rightarrow> (e = 0 \<and> bs \<noteq> [], s'))"

definition evq_get :: "drawfs_session \<Rightarrow> (buf \<times> drawfs_session) option" where
  "evq_get s = (case read_locked True s of (Inr ev, s') \<Rightarrow> Some (ev, s') | (Inl _, _) \<Rightarrow> None)"

lemma read_locked_acct:
  assumes "read_locked nb s = (Inr ev, s')" "evq_acct t s"
  shows "s_evq s = ev # s_evq s'" "evq_acct t s'" "\<not> s_closing s"
proof -
  show ev: "s_evq s = ev # s_evq s'" and "\<not> s_closing s"
    using assms(1) by (auto simp: read_locked_def split: if_splits list.splits)
  have s': "s_evq_bytes s' = s_evq_bytes s - of_nat (length ev)"
    using assms(1) by (auto simp: read_locked_def split: if_splits list.splits)
  have le: "length ev \<le> unat (s_evq_bytes s)" using assms(2) ev by (simp add: evq_acct_def)
  then have "unat (of_nat (length ev) :: u64) = length ev"
    using unat_lt_size [of "s_evq_bytes s"] by (intro unat_of_nat_small) simp
  then have "unat (s_evq_bytes s') = unat (s_evq_bytes s) - length ev"
    using le s' by (simp add: unat_sub word_le_nat_alt)
  then show "evq_acct t s'" using assms(2) ev by (simp add: evq_acct_def)
qed

lemma read_locked_wf:
  assumes "read_locked nb s = (Inr ev, s')" "session_wf t s"
  shows "session_wf t s'"
proof -
  have s': "s' = s\<lparr>s_evq := s_evq s', s_evq_bytes := s_evq_bytes s'\<rparr>"
    using assms(1) by (auto simp: read_locked_def split: if_splits list.splits)
  have "evq_wf t s'"
    using assms read_locked_acct [OF assms(1), of t] by (auto simp: session_wf_def evq_wf_def)
  moreover have "inbuf_wf s'" by (subst s') (use assms(2) in \<open>simp add: session_wf_def inbuf_wf_def\<close>)
  moreover have "surfaces_acct t s'"
    by (subst s') (use assms(2) in \<open>simp add: session_wf_def surfaces_acct_def\<close>)
  ultimately show ?thesis by (simp add: session_wf_def)
qed

interpretation evq: bounded_fifo "evq_put t" evq_get s_evq length "unat (t_max_evq_bytes t)"
  "\<lambda>s. tunables_sane t \<and> evq_acct t s \<and> \<not> s_closing s" for t
proof (unfold_locales, goal_cases)
  case (1 s bs ok s')
  obtain e s1 where e: "drawfs_enqueue_event t s bs = (e, s1)" by (metis surj_pair)
  have "\<not> s_closing s1" using 1 enqueue_fields(3) [of t s bs] by (simp add: e)
  with 1 enqueue_cases [OF e, of] show ?case
    by (auto simp: evq_put_def e evq_acct_def)
next
  case (2 s ev s')
  then have r: "read_locked True s = (Inr ev, s')"
    by (auto simp: evq_get_def split: prod.splits sum.splits)
  then have "s_closing s' = s_closing s"
    by (auto simp: read_locked_def split: if_splits list.splits)
  with 2 read_locked_acct [OF r, of t] show ?case by auto
next
  case (3 s)
  then show ?case by (auto simp: evq_get_def read_locked_def split: list.splits)
next
  case (4 s)
  then show ?case by (simp add: evq_acct_def)
qed

end
