(* ===== verification/Drawfs_Spec.thy ===== *)
theory Drawfs_Spec
  imports Drawfs_Device
begin

text \<open>
  What the message loop of \<^verbatim>\<open>drawfs_process_frame\<close> promises: a frame is a sequence of
  messages, possibly ended by a malformed one, and processing it is handling the messages
  in order, stopping at the first error the present handler passes on, and answering a
  malformed message with one error reply. The loop over offsets implements this.
\<close>

section \<open>A frame as a list of messages\<close>

text \<open>
  The messages from offset \<open>pos\<close> on: for each its header, offset and payload, and the
  header and offset of a malformed message where the sequence breaks off.
\<close>

function frame_messages ::
  "buf \<Rightarrow> nat \<Rightarrow> nat \<Rightarrow> (drawfs_msg_hdr \<times> nat \<times> buf) list \<times> (drawfs_msg_hdr \<times> nat) option" where
  "frame_messages bs fend pos =
     (if pos + 16 \<le> fend then
        let mh = dec_msg_hdr (take 16 (drop pos bs)); n = unat (mh_msg_bytes mh) in
        if n < 16 \<or> n > DRAWFS_MAX_MSG_BYTES \<or> pos + n > fend then ([], Some (mh, pos))
        else let (ms, bad) = frame_messages bs fend ((pos + n + 3) div 4 * 4)
             in ((mh, pos, take (n - 16) (drop (pos + 16) bs)) # ms, bad)
      else ([], None))"
  by pat_completeness auto
termination
  by (relation "measure (\<lambda>(bs, fend, pos). fend - pos)") auto

declare frame_messages.simps [simp del]

fun run_messages ::
  "drawfs_tunables \<Rightarrow> drawfs_efifb_state \<Rightarrow> (drawfs_msg_hdr \<times> nat \<times> buf) list \<Rightarrow>
   (drawfs_msg_hdr \<times> nat) option \<Rightarrow> drawfs_globals \<Rightarrow> drawfs_session \<Rightarrow>
   errno \<times> drawfs_globals \<times> drawfs_session" where
  "run_messages t fb [] None g s = (0, g, s)"
| "run_messages t fb [] (Some (mh, pos)) g s =
     (0, g, snd (drawfs_reply_error t s (mh_msg_id mh) ERR_INVALID_MSG (of_nat pos)))"
| "run_messages t fb ((mh, pos, payload) # ms) bad g s =
     (case dispatch_message t fb g
        (upd_stats (\<lambda>st. st\<lparr>st_messages_processed := st_messages_processed st + 1\<rparr>) s)
        mh (of_nat pos) payload of
        (e, g', s') \<Rightarrow> if e \<noteq> 0 then (e, g', s') else run_messages t fb ms bad g' s')"

section \<open>The loop implements it\<close>

lemma process_msgs_bad:
  assumes "unat pos + 16 \<le> unat fend" "unat fend \<le> length bs"
    and "mh = dec_msg_hdr (take 16 (drop (unat pos) bs))"
    and "mh_msg_bytes mh < 16 \<or> unat (mh_msg_bytes mh) > DRAWFS_MAX_MSG_BYTES
           \<or> pos + mh_msg_bytes mh > fend"
  shows "process_msgs t fb bs fend pos g s =
    Some (0, g, snd (drawfs_reply_error t s (mh_msg_id mh) ERR_INVALID_MSG pos))"
proof -
  have "rd bs (unat pos) 16 = Some (take 16 (drop (unat pos) bs))"
    using assms(1,2) by simp
  then show ?thesis
    using assms(1,4) unfolding assms(3) [symmetric]
    by (subst process_msgs.simps) (simp add: assms(3) [symmetric])
qed

lemma msg_end_no_wrap:
  assumes "unat fend \<le> DRAWFS_MAX_FRAME_BYTES" "unat pos + 16 \<le> unat fend"
    "unat (mb :: u32) \<le> DRAWFS_MAX_MSG_BYTES"
  shows "unat (pos + mb) = unat pos + unat mb"
  using assms by (intro unat_add_no_wrap)
    (simp add: DRAWFS_MAX_FRAME_BYTES_def DRAWFS_MAX_MSG_BYTES_def)

lemma process_msgs_refines:
  assumes "4 dvd unat fend" "unat fend \<le> length bs" "unat fend \<le> DRAWFS_MAX_FRAME_BYTES"
  shows "process_msgs t fb bs fend pos g s =
    Some (run_messages t fb (fst (frame_messages bs (unat fend) (unat pos)))
            (snd (frame_messages bs (unat fend) (unat pos))) g s)"
proof (induction "unat fend - unat pos" arbitrary: pos g s rule: less_induct)
  case less
  show ?case
  proof (cases "unat pos + 16 \<le> unat fend")
    case False
    then show ?thesis
      by (simp add: process_msgs.simps [of t fb bs fend pos g s]
          frame_messages.simps [of bs "unat fend" "unat pos"])
  next
    case True
    define mh where "mh = dec_msg_hdr (take 16 (drop (unat pos) bs))"
    let ?mb = "mh_msg_bytes mh"
    note fm = frame_messages.simps [of bs "unat fend" "unat pos", folded mh_def]
    have bad: "?mb < 16 \<or> unat ?mb > DRAWFS_MAX_MSG_BYTES \<or> pos + ?mb > fend \<longleftrightarrow>
        unat ?mb < 16 \<or> unat ?mb > DRAWFS_MAX_MSG_BYTES \<or> unat pos + unat ?mb > unat fend"
    proof (cases "unat ?mb \<le> DRAWFS_MAX_MSG_BYTES")
      case small: True
      show ?thesis
        by (simp add: word_less_nat_alt msg_end_no_wrap [OF assms(3) True small])
    qed simp
    show ?thesis
    proof (cases "?mb < 16 \<or> unat ?mb > DRAWFS_MAX_MSG_BYTES \<or> pos + ?mb > fend")
      case b: True
      have "frame_messages bs (unat fend) (unat pos) = ([], Some (mh, unat pos))"
        using True b bad by (simp add: fm Let_def)
      then show ?thesis
        by (simp add: process_msgs_bad [OF True assms(2) mh_def b])
    next
      case ok: False
      then have "16 \<le> ?mb" "unat ?mb \<le> DRAWFS_MAX_MSG_BYTES" "pos + ?mb \<le> fend"
        by (auto simp: not_less)
      note adv = msg_advance [OF assms(1,3) True this]
      let ?p' = "drawfs_align4 (pos + ?mb)"
      have sub: "unat (?mb - 16) = unat ?mb - 16"
        using \<open>16 \<le> ?mb\<close> by (simp add: unat_sub)
      have p': "unat ?p' = (unat pos + unat ?mb + 3) div 4 * 4"
        using adv(1) assms(3) msg_end_no_wrap [OF assms(3) True \<open>unat ?mb \<le> DRAWFS_MAX_MSG_BYTES\<close>]
        by (subst unat_align4) (simp_all add: DRAWFS_MAX_FRAME_BYTES_def)
      let ?pl = "take (unat ?mb - 16) (drop (unat pos + 16) bs)"
      have "16 \<le> unat ?mb" using \<open>16 \<le> ?mb\<close> by (simp add: word_le_nat_alt)
      then have rdp: "rd bs (unat pos + 16) (unat (?mb - 16)) = Some ?pl"
        using adv(1) assms(2) by (simp add: sub)
      let ?s1 = "upd_stats (\<lambda>st. st\<lparr>st_messages_processed := st_messages_processed st + 1\<rparr>) s"
      obtain e1 g1 s1 where d: "dispatch_message t fb g ?s1 mh pos ?pl = (e1, g1, s1)"
        by (rule prod_cases3)
      have "unat fend - unat ?p' < unat fend - unat pos" using adv(2,3) by linarith
      note IH = less.hyps [OF this, of g1 s1]
      obtain ms bd where rest: "frame_messages bs (unat fend) (unat ?p') = (ms, bd)"
        by (metis surj_pair)
      have "frame_messages bs (unat fend) (unat pos) = ((mh, unat pos, ?pl) # ms, bd)"
        using True ok bad rest by (simp add: fm Let_def p' not_less)
      then show ?thesis
        using IH d by (simp add: process_msgs_step [OF True assms(2) mh_def ok rdp d] rest)
    qed
  qed
qed

text \<open>The abstract reader splits a frame the builder made into its one message.\<close>

lemma frame_messages_build:
  assumes "16 + length payload \<le> DRAWFS_MAX_MSG_BYTES"
  shows "frame_messages (drawfs_frame_build fid ty mid payload) (frame_size (length payload)) 16 =
    ([(\<lparr>mh_msg_type = ty, mh_msg_flags = 0, mh_msg_bytes = of_nat (16 + length payload),
        mh_msg_id = mid, mh_reserved = 0\<rparr>, 16, payload)], None)"
proof -
  let ?f = "drawfs_frame_build fid ty mid payload" and ?n = "frame_size (length payload)"
  let ?mh = "\<lparr>mh_msg_type = ty, mh_msg_flags = 0, mh_msg_bytes = of_nat (16 + length payload),
        mh_msg_id = mid, mh_reserved = 0\<rparr>"
  have l: "length payload \<le> 2 ^ 32 - 64" using assms by (simp add: DRAWFS_MAX_MSG_BYTES_def)
  have "take 16 (drop 16 ?f) = enc_msg_hdr ?mh"
    using l by (simp add: frame_build_layout fh.enc_length mh.enc_length)
  then have h: "dec_msg_hdr (take 16 (drop 16 ?f)) = ?mh" by (simp add: mh.dec_enc)
  have u: "unat (of_nat (16 + length payload) :: u32) = 16 + length payload"
    by (rule unat_of_nat_small) (use l in simp)
  have nxt: "(16 + (16 + length payload) + 3) div 4 * 4 = ?n" unfolding frame_size_def by presburger
  have stop: "frame_messages ?f ?n ?n = ([], None)" by (subst frame_messages.simps) simp
  have "32 + length payload \<le> ?n" by (rule frame_size_bounds)
  then show ?thesis
    using assms frame_build_parts(3) [OF l, of fid ty mid]
    by (subst frame_messages.simps) (simp add: h Let_def u [simplified] nxt [simplified] stop)
qed

end
