(* ===== verification/Drawfs_Properties.thy ===== *)
theory Drawfs_Properties
  imports Drawfs_Vmobj Drawfs_Spec
begin

text \<open>
  The properties of the drawfs kernel module, each with a concrete instance where it has
  hypotheses. The lemmas they rest on are in the theories of the components.
\<close>

section \<open>Concrete states for the instances\<close>

definition zero_globals :: drawfs_globals where
  "zero_globals = \<lparr>g_vmobj_allocs = 0, g_vmobj_deallocs = 0, g_vmobj_install_lost = 0,
     g_inbuf_grow_race_lost = 0, g_frame_extract_race_lost = 0, g_vm_calls = []\<rparr>"

definition open_session :: drawfs_session where
  "open_session = new_session\<lparr>s_active_display_id := 1\<rparr>"

definition hello_frame :: buf where
  "hello_frame = drawfs_frame_build 7 (msg_type_code REQ_HELLO) 3 (replicate 12 0)"

lemmas session_state_defs = new_session_def zero_stats_def session_wf_def evq_wf_def evq_acct_def
  inbuf_wf_def surfaces_acct_def surfaces_wf_def surfaces_ids_def DRAWFS_MAX_FRAME_BYTES_def

lemma new_session_wf: "session_wf t new_session" "surfaces_wf t new_session"
  by (simp_all add: session_state_defs)

lemma open_session_wf: "session_wf t open_session" "surfaces_wf t open_session"
  by (simp_all add: session_state_defs open_session_def)

section \<open>The request path\<close>

text \<open>
  C1. A write to the device always returns: the doubling loop, the frame extraction loop and
  the message loop end on any input and never read outside their buffers, and the session
  invariant (queue accounting and limits, every queued event a complete frame, input buffer
  within its capacity, surface accounting and limits) holds again afterwards.
\<close>

theorem drawfs_write_returns:
  assumes "tunables_sane t" "session_wf t s"
  shows "\<exists>e g' s'. drawfs_write t fb g s resid uio = Some (e, g', s') \<and> session_wf t s'"
  using assms wf.ingest_total [of t s]
  by (auto simp: drawfs_write_def split: sum.splits)

theorem drawfs_write_returns_witness:
  "\<exists>e g' s'. drawfs_write drawfs_default_tunables efifb_zero zero_globals new_session
      (length hello_frame) (Inr hello_frame) = Some (e, g', s')
    \<and> session_wf drawfs_default_tunables s'"
  by (rule drawfs_write_returns [OF tunables_sane_default new_session_wf(1)])

text \<open>
  C2. Processing a frame is: reject it with one error reply when its header is not valid,
  else handle its messages in order, as the abstract splitting of the frame gives them.
\<close>

theorem drawfs_process_frame_refines:
  assumes "length bs \<le> DRAWFS_MAX_FRAME_BYTES"
  shows "drawfs_process_frame t fb g s bs =
    (case drawfs_frame_validate bs of
       Inl (code, off) \<Rightarrow> Some (0, g, snd (drawfs_reply_error t s 0 code off))
     | Inr fh \<Rightarrow>
        (let (ms, bad) = frame_messages bs (unat (fh_frame_bytes fh)) 16
         in Some (run_messages t fb ms bad g s)))"
proof (cases "drawfs_frame_validate bs")
  case (Inl a)
  then show ?thesis by (simp add: drawfs_process_frame_def)
next
  case (Inr fh)
  then have "4 dvd unat (fh_frame_bytes fh)" "unat (fh_frame_bytes fh) \<le> length bs"
    by (auto simp: frame_validate_Inr_iff frame_ok_def Let_def)
  then show ?thesis
    using assms Inr
    by (simp add: drawfs_process_frame_def process_msgs_refines split: prod.split)
qed

theorem drawfs_process_frame_refines_witness:
  "drawfs_process_frame drawfs_default_tunables efifb_zero zero_globals new_session [1, 2, 3, 4] =
     Some (0, zero_globals, snd (drawfs_reply_error drawfs_default_tunables new_session 0
                                   ERR_INVALID_FRAME 0))"
  by (subst drawfs_process_frame_refines)
    (simp_all add: DRAWFS_MAX_FRAME_BYTES_def drawfs_frame_validate_def)

section \<open>The event queue\<close>

text \<open>
  C3. The event queue is a bounded queue: over any sequence of enqueues and reads, what it
  held followed by what it accepted is what it delivered followed by what it still holds,
  and the bytes it holds never exceed the limit.
\<close>

theorem event_queue_fifo:
  assumes "tunables_sane t" "evq_acct t s" "\<not> s_closing s"
    and "qrun (evq_put t) evq_get ops s = (accepted, delivered, s')"
  shows "s_evq s @ accepted = delivered @ s_evq s' \<and>
    (\<Sum>ev\<leftarrow>s_evq s'. length ev) \<le> unat (t_max_evq_bytes t)"
  using evq.run_fifo [OF conjI [OF assms(1) conjI [OF assms(2,3)]] assms(4)]
    evq.within [of t s'] by auto

theorem event_queue_fifo_witness:
  "s_evq new_session @ [[1, 2], [3]] = [[1, 2]] @ s_evq (snd (snd
       (qrun (evq_put drawfs_default_tunables) evq_get [Put [1, 2], Put [3], Get] new_session))) \<and>
   (\<Sum>ev\<leftarrow>s_evq (snd (snd
       (qrun (evq_put drawfs_default_tunables) evq_get [Put [1, 2], Put [3], Get] new_session))).
     length ev) \<le> unat (t_max_evq_bytes drawfs_default_tunables)"
  by (rule event_queue_fifo [OF tunables_sane_default, of _ "[Put [1, 2], Put [3], Get]"])
    (simp_all add: session_state_defs evq_put_def evq_get_def drawfs_enqueue_event_def
      read_locked_def upd_stats_def drawfs_default_tunables_def DRAWFS_MAX_EVENT_BYTES_def)

text \<open>
  C4. A read that returns bytes takes exactly the first queued event off the queue; with a
  buffer at least as long as the event the caller gets one whole frame that the protocol's
  own validator accepts and whose header states its length. The session invariant is kept.
\<close>

theorem drawfs_read_frame:
  assumes "session_wf t s" "drawfs_read uio_err nonblock resid s = (ReadBytes bs, s')"
  shows "\<exists>ev. s_evq s = ev # s_evq s' \<and> bs = take resid ev \<and>
    (length ev \<le> resid \<longrightarrow>
       drawfs_frame_validate bs = Inr (dec_frame_hdr bs) \<and>
       length bs = unat (fh_frame_bytes (dec_frame_hdr bs))) \<and> session_wf t s'"
proof -
  obtain ev where r: "read_locked nonblock s = (Inr ev, s')" and bs: "bs = take resid ev"
    using assms(2) by (auto simp: drawfs_read_def read_locked_def split: if_splits list.splits)
  have q: "s_evq s = ev # s_evq s'" "evq_acct t s'"
    using read_locked_acct [OF r] assms(1) by (auto simp: session_wf_def evq_wf_def)
  have "event_ok ev" using assms(1) q(1) by (simp add: session_wf_def evq_wf_def)
  moreover have "session_wf t s'" by (rule read_locked_wf [OF r assms(1)])
  ultimately show ?thesis
    using q(1) bs by (intro exI [of _ ev]) (auto simp: frame_validate_Inr_iff event_ok_def)
qed

theorem drawfs_read_frame_witness:
  "\<exists>ev. s_evq (new_session\<lparr>s_evq := [hello_frame], s_evq_bytes := 44\<rparr>)
        = ev # s_evq (new_session\<lparr>s_evq := [], s_evq_bytes := 0\<rparr>)
      \<and> hello_frame = take 44 ev \<and>
    (length ev \<le> 44 \<longrightarrow>
       drawfs_frame_validate hello_frame = Inr (dec_frame_hdr hello_frame) \<and>
       length hello_frame = unat (fh_frame_bytes (dec_frame_hdr hello_frame)))
    \<and> session_wf drawfs_default_tunables (new_session\<lparr>s_evq := [], s_evq_bytes := 0\<rparr>)"
proof (rule drawfs_read_frame [of _ _ 0 True])
  have l: "length hello_frame = 44"
    by (simp add: hello_frame_def length_frame_build frame_size_def)
  have "event_ok hello_frame" unfolding hello_frame_def by (rule frame_build_event_ok) simp
  with l show "session_wf drawfs_default_tunables
      (new_session\<lparr>s_evq := [hello_frame], s_evq_bytes := 44\<rparr>)"
    by (simp add: session_state_defs drawfs_default_tunables_def)
  show "drawfs_read 0 True 44 (new_session\<lparr>s_evq := [hello_frame], s_evq_bytes := 44\<rparr>) =
      (ReadBytes hello_frame, new_session\<lparr>s_evq := [], s_evq_bytes := 0\<rparr>)"
    using l by (simp add: drawfs_read_def read_locked_def new_session_def)
qed

section \<open>Surfaces\<close>



text \<open>
  The 64-bit product wraps for some 32-bit dimensions: a request for a surface of
  2147529989 by 2147437308 pixels, more than sixteen exabytes, passes the per-surface limit
  of 64 MiB and creates a surface of 166832 bytes with a stride of 185364 bytes.
\<close>

theorem surface_create_overflow:
  "fst (drawfs_surface_create drawfs_default_tunables open_session 2147529989 2147437308
      DRAWFS_FMT_XRGB8888) = (0, 1, 185364, 166832) \<and>
   4 * unat (2147529989 :: u32) * unat (2147437308 :: u32) = 2 ^ 64 + 166832"
  by (simp add: drawfs_surface_create_def drawfs_default_tunables_def open_session_def
      new_session_def DRAWFS_FMT_XRGB8888_def Let_def)

text \<open>
  Destroying the surface just created undoes the creation: the table, the count and the
  byte total are as before, and no VM object is released.
\<close>

theorem surface_create_destroy:
  assumes "tunables_sane t" "surfaces_wf t s" "s_map_surface_id s \<noteq> s_next_surface_id s"
    and "drawfs_surface_create t s w h fmt = ((0, sid, stride, nbytes), s1)"
    and "drawfs_surface_destroy g s1 sid = (e, g', s2)"
  shows "e = 0 \<and> g' = g \<and> s2 = s\<lparr>s_next_surface_id := s_next_surface_id s + 1\<rparr>"
proof -
  have ok: "create_error t s w h fmt = 0"
    using assms(4) by (auto simp: surface_create_eq Let_def split: if_splits)
  let ?sf = "new_surface s w h fmt"
  have acct: "surfaces_acct t s" and ids: "surfaces_ids s"
    using assms(2) by (simp_all add: surfaces_wf_def)
  have s1: "s1 = snd (drawfs_surface_create t s w h fmt)" and sid: "sid = s_next_surface_id s"
    using assms(4) ok by (auto simp: surface_create_eq Let_def new_surface_def)
  have l: "drawfs_surface_lookup s1 sid = Some ?sf"
    using lookup_create [OF ids ok] by (simp add: s1 sid)
  have nm: "?sf \<notin> set (s_surfaces s)"
    using ids by (auto simp: surfaces_ids_def new_surface_def)
  have nz: "sid \<noteq> 0" using ids by (simp add: sid surfaces_ids_def)
  have a1: "surfaces_acct t s1" unfolding s1 by (rule create_acct [OF acct assms(1)])
  have in1: "?sf \<in> set (s_surfaces s1)" using lookup_Some [OF l] by simp
  have cnt: "0 < s_surfaces_count s1" and byt: "ucast (sf_bytes_total ?sf) \<le> s_surfaces_bytes s1"
    using acct_has_surface [OF a1 in1] by auto
  have "unat (sf_bytes_total ?sf) = surface_bytes w h" by (rule new_surface_ok(2) [OF ok assms(1)])
  then have u: "(ucast (sf_bytes_total ?sf) :: u64) = of_nat (surface_bytes w h)"
    by (intro of_nat_unat_eq) (simp add: unat_ucast_up)
  have "drawfs_surface_detach s1 ?sf = s\<lparr>s_next_surface_id := s_next_surface_id s + 1\<rparr>"
    using cnt byt nm ok assms(3)
    by (simp add: drawfs_surface_detach_def s1 surface_create_eq Let_def u remove1_append)
      (simp add: new_surface_def)
  then show ?thesis
    using assms(5) l nz by (auto simp: drawfs_surface_destroy_def vmobj_release_def new_surface_def)
qed

theorem surface_create_destroy_witness:
  "snd (snd (drawfs_surface_destroy zero_globals
      (snd (drawfs_surface_create drawfs_default_tunables open_session 640 480 1)) 1)) =
   open_session\<lparr>s_next_surface_id := 2\<rparr>"
proof -
  have c: "drawfs_surface_create drawfs_default_tunables open_session 640 480 1 =
      ((0, 1, 2560, 1228800), snd (drawfs_surface_create drawfs_default_tunables open_session 640 480 1))"
    by (simp add: drawfs_surface_create_def drawfs_default_tunables_def open_session_def
        new_session_def DRAWFS_FMT_XRGB8888_def)
  have m: "s_map_surface_id open_session \<noteq> s_next_surface_id open_session"
    by (simp add: open_session_def new_session_def)
  obtain e g' s2 where d: "drawfs_surface_destroy zero_globals
      (snd (drawfs_surface_create drawfs_default_tunables open_session 640 480 1)) 1 = (e, g', s2)"
    by (rule prod_cases3)
  show ?thesis
    using surface_create_destroy [OF tunables_sane_default open_session_wf(2) m c d] d
    by (simp add: open_session_def new_session_def)
qed

section \<open>VM objects under concurrent mapping\<close>

text \<open>
  C6. However the locked sections of mapping, creating, selecting and destroying threads
  interleave, the reference count the VM system has for an object is the number of holders:
  the surface that owns it, the thread between its two locked sections that has just
  allocated it, and the mappings handed out. So an object a surface or a mapping uses is
  never freed, and an object nobody holds is.
\<close>

theorem vm_reference_counts:
  assumes "tunables_sane t" "vm_initial t y0" "vm_reachable t y0 y"
  shows "vm_refs (g_vm_calls (vs_g y)) obj =
    int (count_list (surface_objects (s_surfaces (vs_s y))) obj
         + count_list (map snd (vs_pinned y)) obj + count_list (vs_mapped y) obj)"
  using vm_reachable_inv [OF assms(3,2,1)] by (simp add: vm_balanced_def vm_held_def)

definition race_start :: vm_sys where
  "race_start = \<lparr>vs_g = zero_globals, vs_s = open_session, vs_pinned = [], vs_mapped = [],
     vs_lost = 0\<rparr>"

lemma race_start_initial: "vm_initial t race_start"
  by (simp add: vm_initial_def race_start_def zero_globals_def open_session_wf)
    (simp add: open_session_def new_session_def)

definition race_surface :: drawfs_session where
  "race_surface = open_session\<lparr>s_surfaces := [new_surface open_session 32 32 1],
     s_surfaces_count := 1, s_surfaces_bytes := 4096, s_next_surface_id := 2,
     s_map_surface_id := 1\<rparr>"

lemma race_created:
  "vm_reachable drawfs_default_tunables race_start (race_start\<lparr>vs_s := race_surface\<rparr>)"
proof -
  let ?t = drawfs_default_tunables
  let ?y1 = "race_start\<lparr>vs_s := snd (drawfs_surface_create ?t (vs_s race_start) 32 32 1)\<rparr>"
  have "vm_step ?t race_start ?y1"
    by (rule vm_step.create) (simp add: race_start_def open_session_def new_session_def)
  then have r: "vm_reachable ?t race_start ?y1" by (rule vm_reachable.step [OF vm_reachable.start])
  have "vm_step ?t ?y1 (?y1\<lparr>vs_s := snd (drawfs_surface_select_for_mmap (vs_s ?y1) 1)\<rparr>)"
    by (rule vm_step.select)
  also have "?y1\<lparr>vs_s := snd (drawfs_surface_select_for_mmap (vs_s ?y1) 1)\<rparr>
      = race_start\<lparr>vs_s := race_surface\<rparr>"
    by (simp add: race_start_def drawfs_surface_create_def drawfs_surface_select_for_mmap_def
        race_surface_def open_session_def new_session_def drawfs_default_tunables_def
        DRAWFS_FMT_XRGB8888_def drawfs_surface_lookup_def new_surface_def surface_bytes_def)
  finally show ?thesis by (rule vm_reachable.step [OF r])
qed

theorem vm_reference_counts_witness:
  "vm_refs (g_vm_calls (vs_g (race_start\<lparr>vs_s := race_surface\<rparr>))) 5 =
    int (count_list (surface_objects (s_surfaces (vs_s (race_start\<lparr>vs_s := race_surface\<rparr>)))) 5
      + count_list (map snd (vs_pinned (race_start\<lparr>vs_s := race_surface\<rparr>))) 5
      + count_list (vs_mapped (race_start\<lparr>vs_s := race_surface\<rparr>)) 5)"
  by (rule vm_reference_counts [OF tunables_sane_default race_start_initial race_created])

text \<open>
  The debug counters do not balance after a lost install race: two threads map the same
  fresh surface, one installs its object, the other gives its own back, and the surface is
  destroyed. Every object is released, but the counters stand at one allocation and two
  deallocations.
\<close>

theorem vmobj_counters_drift:
  "get_vmobj_lookup race_surface 4096 = LookupMiss 1 4096 \<and>
   (case get_vmobj_install (vm_alloc (vm_alloc zero_globals 100) 101) race_surface 1 100 of
      (r1, g1, s1) \<Rightarrow>
        (case get_vmobj_install g1 s1 1 101 of
           (r2, g2, s2) \<Rightarrow>
             (case drawfs_surface_destroy g2 s2 1 of
                (e, g3, s3) \<Rightarrow>
                  r1 = Inr 100 \<and> r2 = Inr 100 \<and> e = 0 \<and> s_surfaces s3 = [] \<and>
                  g_vmobj_allocs g3 = 1 \<and> g_vmobj_deallocs g3 = 2 \<and>
                  vm_refs (g_vm_calls g3) 101 = 0 \<and> vm_refs (g_vm_calls g3) 100 = 2)))"
  by (simp add: get_vmobj_lookup_def get_vmobj_install_def race_surface_def open_session_def
      new_session_def drawfs_surface_lookup_def new_surface_def surface_bytes_def vm_alloc_def
      vm_ref_def vmobj_release_def zero_globals_def drawfs_surface_destroy_def
      drawfs_surface_detach_def set_vmobj_def Let_def)




section \<open>Frames\<close>

text \<open>
  C8. What the frame builder writes is what the frame reader reads: for any payload a
  message can carry, the built frame passes validation with the frame id it was given, its
  length is the one its header states, and splitting it into messages gives exactly the one
  message with its type, id and payload.
\<close>

theorem frame_build_read:
  assumes "16 + length payload \<le> DRAWFS_MAX_MSG_BYTES"
  shows "let f = drawfs_frame_build fid ty mid payload; n = frame_size (length payload) in
    drawfs_frame_validate f = Inr \<lparr>fh_magic = DRAWFS_MAGIC, fh_version = DRAWFS_VERSION,
      fh_header_bytes = 16, fh_frame_bytes = of_nat n, fh_frame_id = fid\<rparr> \<and>
    length f = n \<and>
    frame_messages f n 16 =
      ([(\<lparr>mh_msg_type = ty, mh_msg_flags = 0, mh_msg_bytes = of_nat (16 + length payload),
          mh_msg_id = mid, mh_reserved = 0\<rparr>, 16, payload)], None)"
proof -
  have l: "length payload \<le> 2 ^ 32 - 64" using assms by (simp add: DRAWFS_MAX_MSG_BYTES_def)
  show ?thesis
    using frame_build_ok [OF l] frame_build_parts [OF l] length_frame_build [OF l]
      frame_messages_build [OF assms]
    by (simp add: Let_def frame_validate_Inr_iff)
qed

theorem frame_build_read_witness:
  "frame_messages hello_frame 44 16 =
     ([(\<lparr>mh_msg_type = msg_type_code REQ_HELLO, mh_msg_flags = 0, mh_msg_bytes = 28,
         mh_msg_id = 3, mh_reserved = 0\<rparr>, 16, replicate 12 0)], None)"
  using frame_build_read [of "replicate 12 0" 7 "msg_type_code REQ_HELLO" 3]
  by (simp add: DRAWFS_MAX_MSG_BYTES_def frame_size_def hello_frame_def Let_def)

text \<open>
  The frame validator accepts exactly the buffers that start with a header of this
  protocol whose stated length is at least the header, fits the buffer and is a multiple of
  four; and it never accepts a buffer shorter than a header.
\<close>

theorem frame_validate_exact:
  "(\<exists>fh. drawfs_frame_validate bs = Inr fh) \<longleftrightarrow>
   16 \<le> length bs \<and> get32 bs 0 = DRAWFS_MAGIC \<and> get16 bs 4 = DRAWFS_VERSION \<and>
   get16 bs 6 = 16 \<and> 16 \<le> unat (get32 bs 8) \<and> unat (get32 bs 8) \<le> length bs \<and>
   unat (get32 bs 8) mod 4 = 0"
  by (auto simp: frame_validate_Inr_iff frame_ok_def Let_def dec_frame_hdr_def
      dvd_eq_mod_eq_0)

text \<open>
  The validator of SURFACE_PRESENT_REGION accepts the encoding of every request with
  one to sixteen non-empty rectangles and returns these rectangles, and whatever payload it
  accepts is long enough for the rectangles it returns, none of which is empty.
\<close>

theorem region_validate_roundtrip:
  assumes "1 \<le> length rects" "length rects \<le> DRAWFS_MAX_PRESENT_RECTS"
    "\<forall>r \<in> set rects. rc_width r \<noteq> 0 \<and> rc_height r \<noteq> 0"
    "srq_rect_count req = of_nat (length rects)" "srq_flags req = 0" "srq_reserved req = 0"
  shows "drawfs_req_surface_present_region_validate (enc_region_request req rects) =
      Inr (req, rects) \<and>
    (\<forall>payload req' rects'.
       drawfs_req_surface_present_region_validate payload = Inr (req', rects') \<longrightarrow>
       length rects' = unat (srq_rect_count req') \<and>
       24 + 16 * length rects' \<le> length payload \<and>
       (\<forall>r \<in> set rects'. rc_width r \<noteq> 0 \<and> rc_height r \<noteq> 0))"
proof (intro conjI allI impI)
  have n: "unat (srq_rect_count req) = length rects"
    using assms(2,4) by (simp add: unat_of_nat DRAWFS_MAX_PRESENT_RECTS_def)
  then have nz: "srq_rect_count req \<noteq> 0" using assms(1) by auto
  have dec: "dec_req_surface_present_region (enc_region_request req rects) = req"
    by (simp add: enc_region_request_def srq.dec_enc_append)
  have len: "length (enc_region_request req rects) = 24 + 16 * length rects"
    by (simp add: enc_region_request_def srq.enc_length length_concat_rects)
  show "drawfs_req_surface_present_region_validate (enc_region_request req rects) =
      Inr (req, rects)"
    using assms(2,3,5,6) nz
    by (simp add: drawfs_req_surface_present_region_validate_def Let_def dec len n
        region_rects_enc rects_nonempty_iff)
qed (use region_validate_Inr in blast)+

theorem region_validate_roundtrip_witness:
  "drawfs_req_surface_present_region_validate
     (enc_region_request \<lparr>srq_surface_id = 1, srq_flags = 0, srq_cookie = 9, srq_rect_count = 1,
        srq_reserved = 0\<rparr> [\<lparr>rc_x = 0, rc_y = 0, rc_width = 8, rc_height = 4\<rparr>]) =
   Inr (\<lparr>srq_surface_id = 1, srq_flags = 0, srq_cookie = 9, srq_rect_count = 1,
        srq_reserved = 0\<rparr>, [\<lparr>rc_x = 0, rc_y = 0, rc_width = 8, rc_height = 4\<rparr>])"
  using region_validate_roundtrip [of "[\<lparr>rc_x = 0, rc_y = 0, rc_width = 8, rc_height = 4\<rparr>]"
      "\<lparr>srq_surface_id = 1, srq_flags = 0, srq_cookie = 9, srq_rect_count = 1, srq_reserved = 0\<rparr>"]
  by (simp add: DRAWFS_MAX_PRESENT_RECTS_def)

section \<open>Coalescing of presented events\<close>

text \<open>
  Coalescing rewrites one queued event and nothing else: when it succeeds there is a
  first queued SURFACE_PRESENTED event for that surface, all other events are the same bytes
  in the same places, and the rewritten event has the same length and the same bytes before
  its cookie and reads back the new cookie; when it fails the session is unchanged.
\<close>

theorem coalesce_presented_one:
  assumes "drawfs_try_coalesce_presented t s sid cookie = (e, s')"
  shows "(e = 0 \<longrightarrow> (\<exists>pre ev post. s_evq s = pre @ ev # post \<and>
      s_evq s' = pre @ blit ev 40 (put64 cookie) # post \<and>
      presented_for sid ev \<and> (\<forall>x \<in> set pre. \<not> presented_for sid x) \<and>
      length (blit ev 40 (put64 cookie)) = length ev \<and>
      take 40 (blit ev 40 (put64 cookie)) = take 40 ev \<and>
      get64 (blit ev 40 (put64 cookie)) 40 = cookie)) \<and>
    (e \<noteq> 0 \<longrightarrow> s' = s)"
  using assms coalesce_queue_split [of sid cookie "s_evq s"]
  by (fastforce simp: drawfs_try_coalesce_presented_def presented_for_def blit_cookie_reads
      split: if_splits option.splits)

definition presented_event :: "u64 \<Rightarrow> buf" where
  "presented_event cookie = drawfs_frame_build 1 (event_type_code EVT_SURFACE_PRESENTED) 0
     (enc_evt_surface_presented \<lparr>sev_surface_id = 5, sev_reserved = 0, sev_cookie = cookie\<rparr>)"

theorem coalesce_presented_one_witness:
  "\<exists>pre ev post. s_evq (new_session\<lparr>s_evq := [presented_event 1]\<rparr>) = pre @ ev # post \<and>
     presented_for 5 ev"
proof -
  have p: "presented_for 5 (presented_event 1)"
    by (simp add: presented_event_def presented_for_def frame_build_layout fh.enc_length
        mh.enc_length sev.enc_length mh.dec_enc_append frame_size_def get_skip
        enc_evt_surface_presented_def get_put_front)
  let ?s = "new_session\<lparr>s_evq := [presented_event 1]\<rparr>"
  obtain q where "coalesce_queue 5 2 [presented_event 1] = Some q"
    using p coalesce_queue_None [of 5 2 "[presented_event 1]"] by auto
  then have "fst (drawfs_try_coalesce_presented drawfs_default_tunables ?s 5 2) = 0"
    by (simp add: drawfs_try_coalesce_presented_def drawfs_default_tunables_def
        del: coalesce_queue.simps)
  with coalesce_presented_one [OF prod.collapse [symmetric], of drawfs_default_tunables ?s 5 2]
  show ?thesis by blast
qed

section \<open>The EFI framebuffer\<close>





section \<open>Input injection, poll\<close>



text \<open>
  Surface ids are numbered per session, so an id does not say whose surface is meant: two
  clients that each create their first surface both own surface 1, and input injected for
  surface 1 always goes to the session opened first.
\<close>

theorem inject_input_ambiguous:
  "drawfs_surface_lookup race_surface 1 \<noteq> None \<and>
   drawfs_find_session_for_surface [(4, race_surface), (7, race_surface)] 1 = Some 4 \<and>
   map_of (snd (ioctl_inject_input drawfs_default_tunables [(4, race_surface), (7, race_surface)] 1
      (event_type_code EVT_KEY) payload)) 7 = Some race_surface"
proof -
  have l: "drawfs_surface_lookup race_surface 1 \<noteq> None" "\<not> s_closing race_surface"
    by (simp_all add: drawfs_surface_lookup_def race_surface_def
        open_session_def new_session_def new_surface_def)
  then have f: "drawfs_find_session_for_surface [(4, race_surface), (7, race_surface)] 1 = Some 4"
    by (simp add: drawfs_find_session_for_surface_def)
  show ?thesis
    using l f by (simp add: ioctl_inject_input_def upd_session_def split: prod.splits)
qed

text \<open>
  Poll and read agree: on a session that is not closing, poll reports it readable for
  exactly the states in which a non-blocking read returns an event instead of EWOULDBLOCK,
  and otherwise registers the caller for a wake-up.
\<close>

theorem poll_read_agree:
  assumes "\<not> s_closing s" "events AND (POLLIN OR POLLRDNORM) \<noteq> 0"
  shows "(fst (drawfs_poll s events) \<noteq> 0 \<longleftrightarrow> (\<exists>bs. fst (drawfs_read 0 True resid s) = ReadBytes bs)) \<and>
    (fst (drawfs_poll s events) = 0 \<longleftrightarrow> fst (drawfs_read 0 True resid s) = ReadError EWOULDBLOCK) \<and>
    (fst (drawfs_poll s events) = 0 \<longrightarrow> SelRecord \<in> set (s_wakeups (snd (drawfs_poll s events))))"
  using assms by (auto simp: drawfs_poll_def drawfs_read_def read_locked_def split: list.splits)

theorem poll_read_agree_witness:
  "fst (drawfs_poll new_session 1) = 0 \<longleftrightarrow> fst (drawfs_read 0 True 64 new_session) = ReadError EWOULDBLOCK"
  using poll_read_agree [of new_session 1 64]
  by (simp add: new_session_def POLLIN_def POLLRDNORM_def)

end
