(* ===== verification/Drawfs_Drm.thy ===== *)
theory Drawfs_Drm
  imports Drawfs_Device
begin

text \<open>
  The DRM backend of the optional build (\<^verbatim>\<open>drawfs_drm.c\<close>, and the blocks of \<^verbatim>\<open>drawfs.c\<close> under
  \<^verbatim>\<open>DRAWFS_DRM_ENABLED\<close>): opening and closing the card and the display, the copy of a surface into the back buffer
  and the page flip, with the claim that lets several sessions present through one display. The DRM driver is a
  function of what it was asked before; requests, mappings and memory blocks are recorded in a trace.
\<close>

section \<open>The DRM driver\<close>

text \<open>The fields of \<^verbatim>\<open>struct drm_mode_modeinfo\<close> that the backend reads; the whole record is passed on to SETCRTC.\<close>

record drm_mode_modeinfo =
  mi_hdisplay :: u16
  mi_vdisplay :: u16

definition zero_mode :: drm_mode_modeinfo where
  "zero_mode = \<lparr>mi_hdisplay = 0, mi_vdisplay = 0\<rparr>"

datatype drm_req =
    GET_CAP_DUMB
  | GETRESOURCES u32 u32
  | GETCONNECTOR u32 u32
  | GETENCODER u32
  | CREATE_DUMB u32 u32 u32
  | MAP_DUMB u32
  | ADDFB u32 u32 u32 u32 u32 u32
  | SETCRTC u32 u32 u32 drm_mode_modeinfo
  | PAGE_FLIP u32 u32
  | RMFB u32
  | DESTROY_DUMB u32

text \<open>What a request answers: its error, and the output fields of its structure.\<close>

record drm_reply =
  rp_error :: errno
  rp_value :: u64
  rp_count_connectors :: u32
  rp_count_crtcs :: u32
  rp_connector_ids :: "u32 list"
  rp_crtc_ids :: "u32 list"
  rp_connection :: u32
  rp_count_modes :: u32
  rp_modes :: "drm_mode_modeinfo list"
  rp_encoder_id :: u32
  rp_crtc_id :: u32
  rp_handle :: u32
  rp_pitch :: u32
  rp_size :: u64
  rp_offset :: u64
  rp_fb_id :: u32

definition no_reply :: drm_reply where
  "no_reply = \<lparr>rp_error = 0, rp_value = 0, rp_count_connectors = 0, rp_count_crtcs = 0, rp_connector_ids = [],
     rp_crtc_ids = [], rp_connection = 0, rp_count_modes = 0, rp_modes = [], rp_encoder_id = 0, rp_crtc_id = 0,
     rp_handle = 0, rp_pitch = 0, rp_size = 0, rp_offset = 0, rp_fb_id = 0\<rparr>"

datatype drm_ev = Ioctl drm_req drm_reply | MapDev u64 u64 | UnmapDev u64 u64 | Malloc | Free | Fget | Fdrop

text \<open>
  \<open>ds_fp\<close> tells whether \<^verbatim>\<open>g_drm_fp\<close> is set; \<open>ds_driver\<close> and \<open>ds_mapdev\<close> are the driver and
  \<^verbatim>\<open>pmap_mapdev\<close>, functions of the trace.
\<close>

record drm_sys =
  ds_fp :: bool
  ds_driver :: "drm_ev list \<Rightarrow> drm_req \<Rightarrow> drm_reply"
  ds_mapdev :: "drm_ev list \<Rightarrow> u64 \<Rightarrow> u64 \<Rightarrow> u64"
  ds_trace :: "drm_ev list"

definition emit :: "drm_ev \<Rightarrow> drm_sys \<Rightarrow> drm_sys" where
  "emit ev d = d\<lparr>ds_trace := ds_trace d @ [ev]\<rparr>"

definition drm_ioctl_kern :: "drm_req \<Rightarrow> drm_sys \<Rightarrow> drm_reply \<times> drm_sys" where
  "drm_ioctl_kern q d =
     (if \<not> ds_fp d then (no_reply\<lparr>rp_error := ENXIO\<rparr>, d)
      else let r = ds_driver d (ds_trace d) q in (r, emit (Ioctl q r) d))"

definition pmap_mapdev :: "u64 \<Rightarrow> u64 \<Rightarrow> drm_sys \<Rightarrow> u64 \<times> drm_sys" where
  "pmap_mapdev off n d = (let va = ds_mapdev d (ds_trace d) off n in (va, emit (MapDev va n) d))"

section \<open>Opening the card\<close>

text \<open>\<open>opened\<close> and \<open>got\<close> are what \<^verbatim>\<open>kern_openat\<close> and \<^verbatim>\<open>fget\<close> return.\<close>

definition drawfs_drm_init :: "errno \<Rightarrow> errno \<Rightarrow> drm_sys \<Rightarrow> errno \<times> drm_sys" where
  "drawfs_drm_init opened got d =
     (if opened \<noteq> 0 then (opened, d)
      else if got \<noteq> 0 then (got, d)
      else let (r, d) = drm_ioctl_kern GET_CAP_DUMB (emit Fget (d\<lparr>ds_fp := True\<rparr>))
           in if rp_error r \<noteq> 0 \<or> rp_value r = 0 then (ENODEV, emit Fdrop (d\<lparr>ds_fp := False\<rparr>))
              else (0, d))"

definition drawfs_drm_fini :: "drm_sys \<Rightarrow> drm_sys" where
  "drawfs_drm_fini d = (if ds_fp d then emit Fdrop (d\<lparr>ds_fp := False\<rparr>) else d)"

section \<open>Selecting the output\<close>

definition DRM_MODE_CONNECTED :: u32 where
  "DRM_MODE_CONNECTED = 1"

text \<open>
  The loop over the connectors from index \<open>i\<close>, with \<open>k\<close> still to look at. \<open>ids\<close> is the array the ids were read into; a read beyond it has no
  value.
\<close>

fun find_connector :: "u32 list \<Rightarrow> nat \<Rightarrow> nat \<Rightarrow> drm_sys \<Rightarrow> ((u32 \<times> u32 \<times> drm_mode_modeinfo) option \<times> drm_sys) option" where
  "find_connector ids i 0 d = Some (None, d)"
| "find_connector ids i (Suc k) d =
     (if length ids \<le> i then None
      else let (r, d) = drm_ioctl_kern (GETCONNECTOR (ids ! i) 0) d
           in if rp_error r \<noteq> 0 \<or> rp_connection r \<noteq> DRM_MODE_CONNECTED \<or> rp_count_modes r = 0
              then find_connector ids (Suc i) k d
              else let (r2, d) = drm_ioctl_kern (GETCONNECTOR (ids ! i) (rp_count_modes r)) (emit Malloc d);
                       d = emit Free d
                   in if rp_error r2 \<noteq> 0 then find_connector ids (Suc i) k d
                      else Some (Some (ids ! i, rp_encoder_id r2, case rp_modes r2 of [] \<Rightarrow> zero_mode | m # _ \<Rightarrow> m), d))"

text \<open>An array of \<open>n\<close> zeroed entries, filled with what the driver copies out.\<close>

definition ids_array :: "u32 \<Rightarrow> u32 list \<Rightarrow> u32 list" where
  "ids_array n xs = take (unat n) (xs @ replicate (unat n) 0)"

definition free_ids :: "drm_sys \<Rightarrow> drm_sys" where
  "free_ids d = emit Free (emit Free d)"

definition find_crtc :: "u32 \<Rightarrow> u32 \<Rightarrow> u32 list \<Rightarrow> drm_sys \<Rightarrow> (u32 \<times> drm_sys) option" where
  "find_crtc encoder count_crtcs crtc_ids d =
     (let (crtc, d) = (if encoder \<noteq> 0
        then let (r, d) = drm_ioctl_kern (GETENCODER encoder) d in (if rp_error r = 0 then rp_crtc_id r else 0, d)
        else (0, d))
      in if crtc = 0 \<and> count_crtcs \<noteq> 0 then (if crtc_ids = [] then None else Some (hd crtc_ids, d))
         else Some (crtc, d))"

text \<open>Steps 2 and 3, with the arrays freed on every way out.\<close>

definition pick_output :: "u32 list \<Rightarrow> u32 list \<Rightarrow> u32 \<Rightarrow> u32 \<Rightarrow> drm_sys \<Rightarrow> ((u32 \<times> u32 \<times> drm_mode_modeinfo) option \<times> drm_sys) option" where
  "pick_output connector_ids crtc_ids count_connectors count_crtcs d =
     Option.bind (find_connector connector_ids 0 (unat count_connectors) d) (\<lambda>(c, d).
       case c of None \<Rightarrow> Some (None, free_ids d)
       | Some (connector, encoder, mode) \<Rightarrow>
           if connector = 0 then Some (None, free_ids d)
           else Option.bind (find_crtc encoder count_crtcs crtc_ids d) (\<lambda>(crtc, d).
             Some (if crtc = 0 then None else Some (connector, crtc, mode), free_ids d)))"

definition select_output :: "drm_sys \<Rightarrow> ((u32 \<times> u32 \<times> drm_mode_modeinfo) option \<times> drm_sys) option" where
  "select_output d =
     (let (r, d) = drm_ioctl_kern (GETRESOURCES 0 0) d
      in if rp_error r \<noteq> 0 then Some (None, d)
         else if rp_count_connectors r = 0 \<or> rp_count_crtcs r = 0 then Some (None, d)
         else let (r2, d) = drm_ioctl_kern (GETRESOURCES (rp_count_connectors r) (rp_count_crtcs r)) (emit Malloc (emit Malloc d))
              in if rp_error r2 \<noteq> 0 then Some (None, free_ids d)
                 else pick_output (ids_array (rp_count_connectors r) (rp_connector_ids r2)) (ids_array (rp_count_crtcs r) (rp_crtc_ids r2))
                        (rp_count_connectors r2) (rp_count_crtcs r2) d)"

section \<open>Opening and closing the display\<close>

record drawfs_drm_display =
  dp_connector_id :: u32
  dp_crtc_id :: u32
  dp_mode_fb_id :: u32
  dp_back_fb_id :: u32
  dp_front_handle :: u32
  dp_back_handle :: u32
  dp_width_px :: u32
  dp_height_px :: u32
  dp_stride_bytes :: u32
  dp_front_map :: u64
  dp_back_map :: u64
  dp_flip_pending :: bool
  dp_flip_failure_logged :: bool
  dp_completion_proc :: bool
  dp_completion_run :: nat

text \<open>The error labels.\<close>

definition fail_bufs :: "u32 \<Rightarrow> u32 \<Rightarrow> drm_sys \<Rightarrow> drm_sys" where
  "fail_bufs back_h front_h d = snd (drm_ioctl_kern (DESTROY_DUMB front_h) (snd (drm_ioctl_kern (DESTROY_DUMB back_h) d)))"

definition fail_maps :: "u64 \<Rightarrow> u64 \<Rightarrow> u64 \<Rightarrow> u32 \<Rightarrow> u32 \<Rightarrow> drm_sys \<Rightarrow> drm_sys" where
  "fail_maps back_map front_map buf_size back_h front_h d =
     fail_bufs back_h front_h (emit (UnmapDev front_map buf_size) (emit (UnmapDev back_map buf_size) d))"

definition fail_fbs :: "u32 \<Rightarrow> u32 \<Rightarrow> u64 \<Rightarrow> u64 \<Rightarrow> u64 \<Rightarrow> u32 \<Rightarrow> u32 \<Rightarrow> drm_sys \<Rightarrow> drm_sys" where
  "fail_fbs back_fb front_fb back_map front_map buf_size back_h front_h d =
     fail_maps back_map front_map buf_size back_h front_h
       (snd (drm_ioctl_kern (RMFB front_fb) (snd (drm_ioctl_kern (RMFB back_fb) d))))"

text \<open>Steps 6 to 8: framebuffer objects, mode set, the descriptor. \<open>kproc\<close> is what \<^verbatim>\<open>kproc_create\<close> returns.\<close>

definition set_mode :: "errno \<Rightarrow> u32 \<times> u32 \<times> drm_mode_modeinfo \<Rightarrow> u32 \<Rightarrow> u64 \<Rightarrow> u32 \<Rightarrow> u32 \<Rightarrow> u64 \<Rightarrow> u64 \<Rightarrow> drm_sys \<Rightarrow>
    drawfs_drm_display option \<times> drm_sys" where
  "set_mode kproc sel stride buf_size front_h back_h front_map back_map d =
     (let (connector, crtc, mode) = sel; w = ucast (mi_hdisplay mode); h = ucast (mi_vdisplay mode);
          (r, d) = drm_ioctl_kern (ADDFB w h stride 32 24 front_h) d; front_fb = rp_fb_id r
      in if rp_error r \<noteq> 0 then (None, fail_maps back_map front_map buf_size back_h front_h d)
         else let (r, d) = drm_ioctl_kern (ADDFB w h stride 32 24 back_h) d; back_fb = rp_fb_id r
              in if rp_error r \<noteq> 0
                 then (None, fail_maps back_map front_map buf_size back_h front_h (snd (drm_ioctl_kern (RMFB front_fb) d)))
                 else let (r, d) = drm_ioctl_kern (SETCRTC crtc front_fb connector mode) d
                      in if rp_error r \<noteq> 0 then (None, fail_fbs back_fb front_fb back_map front_map buf_size back_h front_h d)
                         else (Some \<lparr>dp_connector_id = connector, dp_crtc_id = crtc, dp_mode_fb_id = front_fb, dp_back_fb_id = back_fb,
                            dp_front_handle = front_h, dp_back_handle = back_h, dp_width_px = w, dp_height_px = h,
                            dp_stride_bytes = stride, dp_front_map = front_map, dp_back_map = back_map, dp_flip_pending = False,
                            dp_flip_failure_logged = False, dp_completion_proc = (kproc = 0),
                            dp_completion_run = (if kproc = 0 then 1 else 2)\<rparr>, emit Malloc d))"

text \<open>Steps 4 and 5: the two dumb buffers and their mappings.\<close>

definition map_buffers :: "errno \<Rightarrow> u32 \<times> u32 \<times> drm_mode_modeinfo \<Rightarrow> u32 \<Rightarrow> u64 \<Rightarrow> u32 \<Rightarrow> u32 \<Rightarrow> drm_sys \<Rightarrow>
    drawfs_drm_display option \<times> drm_sys" where
  "map_buffers kproc sel stride buf_size front_h back_h d =
     (let (r, d) = drm_ioctl_kern (MAP_DUMB front_h) d
      in if rp_error r \<noteq> 0 then (None, fail_bufs back_h front_h d)
         else let (front_map, d) = pmap_mapdev (rp_offset r) buf_size d; (r, d) = drm_ioctl_kern (MAP_DUMB back_h) d
              in if rp_error r \<noteq> 0 then (None, fail_bufs back_h front_h (emit (UnmapDev front_map buf_size) d))
                 else let (back_map, d) = pmap_mapdev (rp_offset r) buf_size d
                      in set_mode kproc sel stride buf_size front_h back_h front_map back_map d)"

definition create_buffers :: "errno \<Rightarrow> u32 \<times> u32 \<times> drm_mode_modeinfo \<Rightarrow> drm_sys \<Rightarrow> drawfs_drm_display option \<times> drm_sys" where
  "create_buffers kproc sel d =
     (let mode = snd (snd sel); q = CREATE_DUMB (ucast (mi_hdisplay mode)) (ucast (mi_vdisplay mode)) 32;
          (r, d) = drm_ioctl_kern q d; front_h = rp_handle r; stride = rp_pitch r; buf_size = rp_size r
      in if rp_error r \<noteq> 0 then (None, d)
         else let (r, d) = drm_ioctl_kern q d; back_h = rp_handle r
              in if rp_error r \<noteq> 0 then (None, snd (drm_ioctl_kern (DESTROY_DUMB front_h) d))
                 else map_buffers kproc sel stride buf_size front_h back_h d)"

definition drawfs_drm_display_open :: "errno \<Rightarrow> drm_sys \<Rightarrow> (drawfs_drm_display option \<times> drm_sys) option" where
  "drawfs_drm_display_open kproc d =
     Option.bind (select_output d) (\<lambda>(sel, d).
       Some (case sel of None \<Rightarrow> (None, d) | Some sel \<Rightarrow> create_buffers kproc sel d))"

text \<open>Closing, after the completion thread has been joined.\<close>

definition drawfs_drm_display_close :: "drawfs_drm_display \<Rightarrow> drm_sys \<Rightarrow> drm_sys" where
  "drawfs_drm_display_close dd d =
     (let buf_size = ucast (dp_stride_bytes dd) * ucast (dp_height_px dd) :: u64;
          d = (if dp_back_map dd \<noteq> 0 then emit (UnmapDev (dp_back_map dd) buf_size) d else d);
          d = (if dp_front_map dd \<noteq> 0 then emit (UnmapDev (dp_front_map dd) buf_size) d else d);
          d = (if dp_back_fb_id dd \<noteq> 0 then snd (drm_ioctl_kern (RMFB (dp_back_fb_id dd)) d) else d);
          d = (if dp_mode_fb_id dd \<noteq> 0 then snd (drm_ioctl_kern (RMFB (dp_mode_fb_id dd)) d) else d);
          d = (if dp_back_handle dd \<noteq> 0 then snd (drm_ioctl_kern (DESTROY_DUMB (dp_back_handle dd)) d) else d);
          d = (if dp_front_handle dd \<noteq> 0 then snd (drm_ioctl_kern (DESTROY_DUMB (dp_front_handle dd)) d) else d)
      in emit Free d)"

section \<open>Presenting a surface\<close>

text \<open>
  One row: \<open>pages\<close> is \<^verbatim>\<open>vm_page_lookup\<close> on the surface's object (the physical address of a page), \<open>dmap\<close> the direct map of
  physical memory. Offsets are 32-bit products; a store outside the buffer \<open>mem\<close> has no value.
\<close>

definition copy_row :: "(nat \<Rightarrow> nat option) \<Rightarrow> (nat \<Rightarrow> byte) \<Rightarrow> u32 \<Rightarrow> u32 \<Rightarrow> u32 \<Rightarrow> u32 \<Rightarrow> buf \<Rightarrow> buf option" where
  "copy_row pages dmap sstride dstride copy_stride row mem =
     (let off = unat (row * sstride); pindex = off div 4096; dst = unat (row * dstride); n = unat copy_stride
      in case pages pindex of
           None \<Rightarrow> fb_store mem dst (replicate n 0)
         | Some pa \<Rightarrow>
             let page_off = off mod 4096; to_copy = min n (4096 - page_off)
             in Option.bind (fb_store mem dst (map dmap [pa + page_off ..< pa + page_off + to_copy])) (\<lambda>mem.
                  if to_copy < n
                  then case pages (pindex + 1) of None \<Rightarrow> Some mem
                       | Some pa2 \<Rightarrow> fb_store mem (dst + to_copy) (map dmap [pa2 ..< pa2 + (n - to_copy)])
                  else Some mem))"

text \<open>A loop over the rows from \<open>row\<close>, \<open>k\<close> of them.\<close>

fun each_row :: "(u32 \<Rightarrow> buf \<Rightarrow> buf option) \<Rightarrow> nat \<Rightarrow> u32 \<Rightarrow> buf \<Rightarrow> buf option" where
  "each_row f 0 row mem = Some mem"
| "each_row f (Suc k) row mem = Option.bind (f row mem) (each_row f k (row + 1))"

definition clear_row :: "u32 \<Rightarrow> u32 \<Rightarrow> buf \<Rightarrow> buf option" where
  "clear_row dstride row mem = fb_store mem (unat (row * dstride)) (replicate (unat dstride) 0)"

definition copy_surface :: "(nat \<Rightarrow> nat option) \<Rightarrow> (nat \<Rightarrow> byte) \<Rightarrow> drawfs_drm_display \<Rightarrow> drawfs_surface \<Rightarrow> buf \<Rightarrow> buf option" where
  "copy_surface pages dmap dd surf mem =
     (let copy_h = min (sf_height_px surf) (dp_height_px dd); copy_stride = min (sf_stride_bytes surf) (dp_stride_bytes dd)
      in Option.bind (each_row (copy_row pages dmap (sf_stride_bytes surf) (dp_stride_bytes dd) copy_stride) (unat copy_h) 0 mem)
           (each_row (clear_row (dp_stride_bytes dd)) (unat (dp_height_px dd) - unat copy_h) copy_h))"

text \<open>
  The part under the lock before the flip: an early return, or the claim with the parameters of the flip. \<open>vram\<close> gives the bytes
  behind a mapping.
\<close>

definition present_begin :: "(vm_object \<Rightarrow> nat \<Rightarrow> nat option) \<Rightarrow> (nat \<Rightarrow> byte) \<Rightarrow> drawfs_surface \<Rightarrow> drawfs_drm_display \<Rightarrow> (u64 \<Rightarrow> buf) \<Rightarrow>
    ((errno + u32 \<times> u32) \<times> drawfs_drm_display \<times> (u64 \<Rightarrow> buf)) option" where
  "present_begin pages dmap surf dd vram =
     (if dp_flip_pending dd then Some (Inl 0, dd, vram)
      else if dp_back_map dd = 0 then Some (Inl ENXIO, dd, vram)
      else case sf_vmobj surf of
             None \<Rightarrow> Some (Inl ENXIO, dd, vram)
           | Some obj \<Rightarrow> map_option (\<lambda>mem. (Inr (dp_crtc_id dd, dp_back_fb_id dd), dd\<lparr>dp_flip_pending := True\<rparr>,
                             vram(dp_back_map dd := mem)))
                           (copy_surface (pages obj) dmap dd surf (vram (dp_back_map dd))))"

text \<open>The part under the lock after the flip: roll the claim back, or swap the buffers.\<close>

definition present_end :: "errno \<Rightarrow> drawfs_drm_display \<Rightarrow> drawfs_drm_display" where
  "present_end e dd =
     (if e \<noteq> 0 then dd\<lparr>dp_flip_pending := False, dp_flip_failure_logged := True\<rparr>
      else dd\<lparr>dp_flip_failure_logged := False,
              dp_mode_fb_id := dp_back_fb_id dd, dp_front_handle := dp_back_handle dd, dp_front_map := dp_back_map dd,
              dp_back_fb_id := dp_mode_fb_id dd, dp_back_handle := dp_front_handle dd, dp_back_map := dp_front_map dd\<rparr>)"

definition drawfs_drm_surface_present :: "(vm_object \<Rightarrow> nat \<Rightarrow> nat option) \<Rightarrow> (nat \<Rightarrow> byte) \<Rightarrow> drawfs_surface \<Rightarrow>
    drawfs_drm_display \<Rightarrow> (u64 \<Rightarrow> buf) \<Rightarrow> drm_sys \<Rightarrow> (errno \<times> drawfs_drm_display \<times> (u64 \<Rightarrow> buf) \<times> drm_sys) option" where
  "drawfs_drm_surface_present pages dmap surf dd vram d =
     Option.bind (present_begin pages dmap surf dd vram) (\<lambda>(r, dd, vram).
       Some (case r of Inl e \<Rightarrow> (e, dd, vram, d)
             | Inr (crtc, fb) \<Rightarrow> let (rep, d) = drm_ioctl_kern (PAGE_FLIP crtc fb) d
                                  in (rp_error rep, present_end (rp_error rep) dd, vram, d)))"

section \<open>The hooks in \<^verbatim>\<open>drawfs.c\<close>\<close>

record drm_module =
  dg_backend :: string
  dg_display :: "drawfs_drm_display option"
  dg_vram :: "u64 \<Rightarrow> buf"
  dg_sys :: drm_sys

text \<open>\<^verbatim>\<open>strncmp(drawfs_backend, "drm", 3) == 0\<close>.\<close>

definition is_drm :: "drm_module \<Rightarrow> bool" where
  "is_drm m \<longleftrightarrow> take 3 (dg_backend m) = ''drm''"

text \<open>Module load: the framebuffer initialisation \<open>efifb\<close> comes first, and replaces the backend when it succeeds.\<close>

definition drm_load :: "errno \<Rightarrow> errno \<Rightarrow> errno \<Rightarrow> drm_module \<Rightarrow> drm_module" where
  "drm_load efifb opened got m =
     (let m = (if efifb = 0 then m\<lparr>dg_backend := ''efifb''\<rparr> else m)
      in if is_drm m
         then let (e, d) = drawfs_drm_init opened got (dg_sys m); m = m\<lparr>dg_sys := d\<rparr>
              in if e \<noteq> 0 then m\<lparr>dg_backend := ''swap''\<rparr> else m
         else m)"

text \<open>DISPLAY_OPEN: the display is opened at the first bind.\<close>

definition drm_bind :: "errno \<Rightarrow> drm_module \<Rightarrow> drm_module option" where
  "drm_bind kproc m =
     (if is_drm m \<and> dg_display m = None
      then Option.bind (drawfs_drm_display_open kproc (dg_sys m)) (\<lambda>(dd, d). Some (m\<lparr>dg_display := dd, dg_sys := d\<rparr>))
      else Some m)"

text \<open>SURFACE_PRESENT: on a successful request, the surface is looked up again and presented. The result of the flip is dropped.\<close>

definition drm_present :: "(vm_object \<Rightarrow> nat \<Rightarrow> nat option) \<Rightarrow> (nat \<Rightarrow> byte) \<Rightarrow> drawfs_session \<Rightarrow> buf \<Rightarrow> drm_module \<Rightarrow> drm_module option" where
  "drm_present pages dmap s payload m =
     (case present_reply s payload of (rep, sid, _) \<Rightarrow>
        if spp_status rep \<noteq> 0 then Some m
        else case (if is_drm m then dg_display m else None) of
               None \<Rightarrow> Some m
             | Some dd \<Rightarrow>
                 (case drawfs_surface_lookup s sid of
                    None \<Rightarrow> Some m
                  | Some surf \<Rightarrow> map_option (\<lambda>(_, dd, vram, d). m\<lparr>dg_display := Some dd, dg_vram := vram, dg_sys := d\<rparr>)
                       (drawfs_drm_surface_present pages dmap surf dd (dg_vram m) (dg_sys m))))"

text \<open>Module unload.\<close>

definition drm_unload :: "drm_module \<Rightarrow> drm_module" where
  "drm_unload m =
     (let m = (case dg_display m of None \<Rightarrow> m
               | Some dd \<Rightarrow> m\<lparr>dg_sys := drawfs_drm_display_close dd (dg_sys m), dg_display := None\<rparr>)
      in if is_drm m then m\<lparr>dg_sys := drawfs_drm_fini (dg_sys m)\<rparr> else m)"

section \<open>What the backend holds\<close>

lemma emit_simps [simp]:
  "ds_fp (emit e d) = ds_fp d" "ds_driver (emit e d) = ds_driver d" "ds_mapdev (emit e d) = ds_mapdev d"
  "ds_trace (emit e d) = ds_trace d @ [e]"
  by (simp_all add: emit_def)

text \<open>The trace read as a ledger. \<^verbatim>\<open>pmap_unmapdev\<close> works on whole pages.\<close>

definition pages_of :: "u64 \<Rightarrow> nat" where
  "pages_of n = (unat n + 4095) div 4096"

definition gems_got :: "drm_ev list \<Rightarrow> u32 list" where
  "gems_got tr = concat (map (\<lambda>e. case e of Ioctl (CREATE_DUMB _ _ _) r \<Rightarrow> if rp_error r = 0 then [rp_handle r] else [] | _ \<Rightarrow> []) tr)"

definition gems_dropped :: "drm_ev list \<Rightarrow> u32 list" where
  "gems_dropped tr = concat (map (\<lambda>e. case e of Ioctl (DESTROY_DUMB h) r \<Rightarrow> [h] | _ \<Rightarrow> []) tr)"

definition fbs_got :: "drm_ev list \<Rightarrow> u32 list" where
  "fbs_got tr = concat (map (\<lambda>e. case e of Ioctl (ADDFB _ _ _ _ _ _) r \<Rightarrow> if rp_error r = 0 then [rp_fb_id r] else [] | _ \<Rightarrow> []) tr)"

definition fbs_dropped :: "drm_ev list \<Rightarrow> u32 list" where
  "fbs_dropped tr = concat (map (\<lambda>e. case e of Ioctl (RMFB f) r \<Rightarrow> [f] | _ \<Rightarrow> []) tr)"

definition maps_got :: "drm_ev list \<Rightarrow> (u64 \<times> nat) list" where
  "maps_got tr = concat (map (\<lambda>e. case e of MapDev va n \<Rightarrow> [(va, pages_of n)] | _ \<Rightarrow> []) tr)"

definition maps_dropped :: "drm_ev list \<Rightarrow> (u64 \<times> nat) list" where
  "maps_dropped tr = concat (map (\<lambda>e. case e of UnmapDev va n \<Rightarrow> [(va, pages_of n)] | _ \<Rightarrow> []) tr)"

text \<open>\<open>drm_holds tr gems fbs maps blocks\<close>: after \<open>tr\<close> exactly these buffers, framebuffers, mappings and memory blocks are held.\<close>

definition drm_holds :: "drm_ev list \<Rightarrow> u32 multiset \<Rightarrow> u32 multiset \<Rightarrow> (u64 \<times> nat) multiset \<Rightarrow> nat \<Rightarrow> bool" where
  "drm_holds tr gems fbs maps blocks \<longleftrightarrow>
     mset (gems_got tr) = mset (gems_dropped tr) + gems \<and> mset (fbs_got tr) = mset (fbs_dropped tr) + fbs \<and>
     mset (maps_got tr) = mset (maps_dropped tr) + maps \<and>
     length (filter (\<lambda>e. e = Malloc) tr) = length (filter (\<lambda>e. e = Free) tr) + blocks"

lemmas ledger_defs = gems_got_def gems_dropped_def fbs_got_def fbs_dropped_def maps_got_def maps_dropped_def

lemma holds_append:
  "drm_holds tr gems fbs maps blocks \<Longrightarrow>
   drm_holds (tr @ new) gems' fbs' maps' blocks' \<longleftrightarrow>
     mset (gems_got new) + gems = mset (gems_dropped new) + gems' \<and> mset (fbs_got new) + fbs = mset (fbs_dropped new) + fbs' \<and>
     mset (maps_got new) + maps = mset (maps_dropped new) + maps' \<and>
     length (filter (\<lambda>e. e = Malloc) new) + blocks = length (filter (\<lambda>e. e = Free) new) + blocks'"
  by (auto simp: drm_holds_def ledger_defs ac_simps)

definition dp_gems :: "drawfs_drm_display \<Rightarrow> u32 multiset" where
  "dp_gems dd = {#dp_front_handle dd, dp_back_handle dd#}"

definition dp_fbs :: "drawfs_drm_display \<Rightarrow> u32 multiset" where
  "dp_fbs dd = {#dp_mode_fb_id dd, dp_back_fb_id dd#}"

definition dp_maps :: "nat \<Rightarrow> drawfs_drm_display \<Rightarrow> (u64 \<times> nat) multiset" where
  "dp_maps k dd = {#(dp_front_map dd, k), (dp_back_map dd, k)#}"

text \<open>\<open>d'\<close> is \<open>d\<close> after further events.\<close>

definition drm_later :: "drm_sys \<Rightarrow> drm_sys \<Rightarrow> bool" where
  "drm_later d d' \<longleftrightarrow> (\<exists>new. d' = d\<lparr>ds_trace := ds_trace d @ new\<rparr>)"

lemma later_refl [simp]: "drm_later d d"
  by (auto simp: drm_later_def intro: exI [of _ "[]"])

lemma later_trans [trans]: "drm_later d d1 \<Longrightarrow> drm_later d1 d2 \<Longrightarrow> drm_later d d2"
  by (auto simp: drm_later_def)

lemma later_emit [intro, simp]: "drm_later d d' \<Longrightarrow> drm_later d (emit e d')"
  by (auto simp: drm_later_def emit_def)

lemma later_ioctl [intro, simp]: "drm_later d d' \<Longrightarrow> drm_later d (snd (drm_ioctl_kern q d'))"
  by (simp add: drm_ioctl_kern_def Let_def)

lemma later_keeps: "drm_later d d' \<Longrightarrow> ds_fp d' = ds_fp d \<and> ds_driver d' = ds_driver d \<and> ds_mapdev d' = ds_mapdev d"
  by (auto simp: drm_later_def)

lemma ioctl_open: "ds_fp d \<Longrightarrow> drm_ioctl_kern q d = (ds_driver d (ds_trace d) q, emit (Ioctl q (ds_driver d (ds_trace d) q)) d)"
  by (simp add: drm_ioctl_kern_def Let_def)

lemma set_mode_later [intro, simp]: "drm_later d0 d \<Longrightarrow> drm_later d0 (snd (set_mode kproc sel stride n fh bh fm bm d))"
  by (simp add: set_mode_def fail_maps_def fail_bufs_def fail_fbs_def Let_def split_beta)

lemma set_mode_holds:
  assumes "ds_fp d" "drm_holds (ds_trace d) (gems + {#fh, bh#}) fbs (maps + {#(fm, pages_of n), (bm, pages_of n)#}) b"
    and "set_mode kproc sel stride n fh bh fm bm d = (r, d')"
  shows "case r of None \<Rightarrow> drm_holds (ds_trace d') gems fbs maps b
    | Some dd \<Rightarrow> drm_holds (ds_trace d') (gems + dp_gems dd) (fbs + dp_fbs dd) (maps + dp_maps (pages_of n) dd) (Suc b)"
  using assms(3)
  by (auto simp: set_mode_def fail_maps_def fail_bufs_def fail_fbs_def Let_def split_beta ioctl_open assms(1)
      holds_append [OF assms(2)] ledger_defs dp_gems_def dp_fbs_def dp_maps_def split: if_splits)
lemma map_buffers_later [intro, simp]: "drm_later d0 d \<Longrightarrow> drm_later d0 (snd (map_buffers kproc sel stride n fh bh d))"
  by (simp add: map_buffers_def fail_bufs_def pmap_mapdev_def Let_def split_beta)

lemma map_buffers_holds:
  assumes "ds_fp d" "drm_holds (ds_trace d) (gems + {#fh, bh#}) fbs maps b"
    and "map_buffers kproc sel stride n fh bh d = (r, d')"
  shows "case r of None \<Rightarrow> drm_holds (ds_trace d') gems fbs maps b
    | Some dd \<Rightarrow> drm_holds (ds_trace d') (gems + dp_gems dd) (fbs + dp_fbs dd) (maps + dp_maps (pages_of n) dd) (Suc b)"
proof -
  let ?r1 = "ds_driver d (ds_trace d) (MAP_DUMB fh)"
  let ?d1 = "emit (Ioctl (MAP_DUMB fh) ?r1) d"
  let ?fm = "ds_mapdev d (ds_trace ?d1) (rp_offset ?r1) n"
  let ?d2 = "emit (MapDev ?fm n) ?d1"
  let ?r2 = "ds_driver d (ds_trace ?d2) (MAP_DUMB bh)"
  let ?d3 = "emit (Ioctl (MAP_DUMB bh) ?r2) ?d2"
  let ?bm = "ds_mapdev d (ds_trace ?d3) (rp_offset ?r2) n"
  let ?d4 = "emit (MapDev ?bm n) ?d3"
  show ?thesis
  proof (cases "rp_error ?r1 = 0 \<and> rp_error ?r2 = 0")
    case True
    then have "set_mode kproc sel stride n fh bh ?fm ?bm ?d4 = (r, d')"
      using assms(3) by (simp add: map_buffers_def pmap_mapdev_def ioctl_open assms(1) Let_def)
    moreover have "drm_holds (ds_trace ?d4) (gems + {#fh, bh#}) fbs (maps + {#(?fm, pages_of n), (?bm, pages_of n)#}) b"
      by (simp add: holds_append [OF assms(2)] ledger_defs)
    ultimately show ?thesis using set_mode_holds [of ?d4] assms(1) by simp
  next
    case False
    then show ?thesis using assms(3)
      by (auto simp: map_buffers_def pmap_mapdev_def fail_bufs_def Let_def split_beta ioctl_open assms(1)
          holds_append [OF assms(2)] ledger_defs split: if_splits)
  qed
qed

lemma create_buffers_later [intro, simp]: "drm_later d0 d \<Longrightarrow> drm_later d0 (snd (create_buffers kproc sel d))"
  by (simp add: create_buffers_def Let_def split_beta)

text \<open>What the driver promises: handles and ids are not 0, a buffer has the size of its rows up to whole pages, a mapping is not at address 0.\<close>

definition drm_driver_ok :: "drm_sys \<Rightarrow> bool" where
  "drm_driver_ok d \<longleftrightarrow>
     (\<forall>tr w h bpp. let r = ds_driver d tr (CREATE_DUMB w h bpp) in rp_error r = 0 \<longrightarrow>
        rp_handle r \<noteq> 0 \<and> pages_of (rp_size r) = pages_of (ucast (rp_pitch r) * ucast h)) \<and>
     (\<forall>tr w h p bpp dep gem. let r = ds_driver d tr (ADDFB w h p bpp dep gem) in rp_error r = 0 \<longrightarrow> rp_fb_id r \<noteq> 0) \<and>
     (\<forall>tr off n. ds_mapdev d tr off n \<noteq> 0)"

text \<open>A display whose resources \<^verbatim>\<open>drawfs_drm_display_close\<close> gives back: nothing is null and the size is that of the mappings.\<close>

definition display_ok :: "nat \<Rightarrow> drawfs_drm_display \<Rightarrow> bool" where
  "display_ok k dd \<longleftrightarrow> 0 \<notin># dp_gems dd \<and> 0 \<notin># dp_fbs dd \<and> dp_front_map dd \<noteq> 0 \<and> dp_back_map dd \<noteq> 0 \<and>
     pages_of (ucast (dp_stride_bytes dd) * ucast (dp_height_px dd)) = k"

text \<open>The fields of the new display.\<close>

lemma set_mode_display:
  assumes "drm_driver_ok d" "ds_fp d" "fst (set_mode kproc (c, crtc, mode) stride n fh bh fm bm d) = Some dd"
  shows "dp_front_handle dd = fh \<and> dp_back_handle dd = bh \<and> dp_front_map dd = fm \<and> dp_back_map dd = bm \<and> dp_mode_fb_id dd \<noteq> 0 \<and>
    dp_back_fb_id dd \<noteq> 0 \<and> dp_stride_bytes dd = stride \<and> dp_height_px dd = ucast (mi_vdisplay mode) \<and> \<not> dp_flip_pending dd"
  using assms by (auto simp: set_mode_def Let_def split_beta ioctl_open drm_driver_ok_def split: if_splits)

lemma map_buffers_display:
  assumes "drm_driver_ok d" "ds_fp d" "fst (map_buffers kproc (c, crtc, mode) stride n fh bh d) = Some dd"
  shows "dp_front_handle dd = fh \<and> dp_back_handle dd = bh \<and> dp_front_map dd \<noteq> 0 \<and> dp_back_map dd \<noteq> 0 \<and> dp_mode_fb_id dd \<noteq> 0 \<and>
    dp_back_fb_id dd \<noteq> 0 \<and> dp_stride_bytes dd = stride \<and> dp_height_px dd = ucast (mi_vdisplay mode) \<and> \<not> dp_flip_pending dd"
proof -
  let ?r1 = "ds_driver d (ds_trace d) (MAP_DUMB fh)"
  let ?d1 = "emit (Ioctl (MAP_DUMB fh) ?r1) d"
  let ?fm = "ds_mapdev d (ds_trace ?d1) (rp_offset ?r1) n"
  let ?d2 = "emit (MapDev ?fm n) ?d1"
  let ?r2 = "ds_driver d (ds_trace ?d2) (MAP_DUMB bh)"
  let ?d3 = "emit (Ioctl (MAP_DUMB bh) ?r2) ?d2"
  let ?bm = "ds_mapdev d (ds_trace ?d3) (rp_offset ?r2) n"
  let ?d4 = "emit (MapDev ?bm n) ?d3"
  have s: "fst (set_mode kproc (c, crtc, mode) stride n fh bh ?fm ?bm ?d4) = Some dd"
    using assms(3) by (auto simp: map_buffers_def Let_def split_beta ioctl_open assms(2) pmap_mapdev_def split: if_splits)
  have d: "drm_driver_ok ?d4" "ds_fp ?d4" using assms(1,2) by (simp_all add: drm_driver_ok_def)
  have "?fm \<noteq> 0" "?bm \<noteq> 0" using assms(1) by (simp_all add: drm_driver_ok_def)
  then show ?thesis using set_mode_display [OF d s] by metis
qed

lemma create_buffers_holds:
  assumes "drm_driver_ok d" "ds_fp d" "drm_holds (ds_trace d) gems fbs maps b" "create_buffers kproc sel d = (r, d')"
  shows "case r of None \<Rightarrow> drm_holds (ds_trace d') gems fbs maps b
    | Some dd \<Rightarrow> \<exists>k. display_ok k dd \<and> \<not> dp_flip_pending dd \<and>
        drm_holds (ds_trace d') (gems + dp_gems dd) (fbs + dp_fbs dd) (maps + dp_maps k dd) (Suc b)"
proof -
  obtain c crtc mode where sel: "sel = (c, crtc, mode)" by (cases sel)
  let ?q = "CREATE_DUMB (ucast (mi_hdisplay mode)) (ucast (mi_vdisplay mode)) 32"
  let ?r1 = "ds_driver d (ds_trace d) ?q"
  let ?d1 = "emit (Ioctl ?q ?r1) d"
  let ?r2 = "ds_driver d (ds_trace ?d1) ?q"
  let ?d2 = "emit (Ioctl ?q ?r2) ?d1"
  show ?thesis
  proof (cases "rp_error ?r1 = 0 \<and> rp_error ?r2 = 0")
    case True
    let ?m = "map_buffers kproc sel (rp_pitch ?r1) (rp_size ?r1) (rp_handle ?r1) (rp_handle ?r2) ?d2"
    have m: "?m = (r, d')"
      using assms(4) True by (simp add: create_buffers_def sel ioctl_open assms(2) Let_def)
    have "drm_holds (ds_trace ?d2) (gems + {#rp_handle ?r1, rp_handle ?r2#}) fbs maps b"
      using True by (simp add: holds_append [OF assms(3)] ledger_defs)
    note h = map_buffers_holds [OF _ this m]
    show ?thesis
    proof (cases r)
      case (Some dd)
      have f: "drm_driver_ok ?d2" "ds_fp ?d2" using assms(1,2) by (simp_all add: drm_driver_ok_def)
      have "fst ?m = Some dd" using m Some by simp
      note map_buffers_display [OF f this [unfolded sel]]
      moreover have "rp_handle ?r1 \<noteq> 0" "rp_handle ?r2 \<noteq> 0" "pages_of (rp_size ?r1) = pages_of (ucast (rp_pitch ?r1) * ucast (ucast (mi_vdisplay mode) :: u32))"
        using assms(1) True by (auto simp: drm_driver_ok_def Let_def)
      ultimately show ?thesis using h f(2) Some by (auto simp: display_ok_def dp_gems_def dp_fbs_def)
    qed (use h assms(2) in simp)
  next
    case False
    then show ?thesis using assms(4)
      by (auto simp: create_buffers_def sel Let_def split_beta ioctl_open assms(2) holds_append [OF assms(3)] ledger_defs split: if_splits)
  qed
qed

lemma close_holds:
  assumes "ds_fp d" "display_ok k dd" "drm_holds (ds_trace d) (gems + dp_gems dd) (fbs + dp_fbs dd) (maps + dp_maps k dd) (Suc b)"
  shows "drm_holds (ds_trace (drawfs_drm_display_close dd d)) gems fbs maps b"
  using assms(2)
  by (auto simp: drawfs_drm_display_close_def Let_def ioctl_open assms(1) display_ok_def
      holds_append [OF assms(3)] ledger_defs dp_gems_def dp_fbs_def dp_maps_def)

lemma close_later: "drm_later d (drawfs_drm_display_close dd d)"
  by (simp add: drawfs_drm_display_close_def Let_def)

lemma find_connector_keeps:
  assumes "find_connector ids i k d = Some (r, d')" "ds_fp d" "drm_holds (ds_trace d) gems fbs maps b"
  shows "drm_later d d' \<and> drm_holds (ds_trace d') gems fbs maps b"
  using assms
proof (induction k arbitrary: i d)
  case (Suc k)
  let ?r = "ds_driver d (ds_trace d) (GETCONNECTOR (ids ! i) 0)"
  let ?d1 = "emit (Ioctl (GETCONNECTOR (ids ! i) 0) ?r) d"
  let ?q2 = "GETCONNECTOR (ids ! i) (rp_count_modes ?r)"
  let ?r2 = "ds_driver d (ds_trace (emit Malloc ?d1)) ?q2"
  let ?d2 = "emit Free (emit (Ioctl ?q2 ?r2) (emit Malloc ?d1))"
  have h: "drm_holds (ds_trace ?d1) gems fbs maps b" "drm_holds (ds_trace ?d2) gems fbs maps b"
    by (simp_all add: holds_append [OF Suc.prems(3)] ledger_defs)
  have l: "drm_later d ?d1" "drm_later d ?d2" by simp_all
  have fp: "ds_fp ?d1" "ds_fp ?d2" using Suc.prems(2) by simp_all
  consider "find_connector ids (Suc i) k ?d1 = Some (r, d')" | "find_connector ids (Suc i) k ?d2 = Some (r, d')" | "d' = ?d2"
    using Suc.prems(1,2) by (auto simp: ioctl_open Let_def split: if_splits)
  then show ?case
  proof cases
    case 1
    then show ?thesis using Suc.IH [OF 1 fp(1) h(1)] later_trans [OF l(1)] by blast
  next
    case 2
    then show ?thesis using Suc.IH [OF 2 fp(2) h(2)] later_trans [OF l(2)] by blast
  qed (use h l in simp)
qed simp

lemma find_connector_returns: "i + k \<le> length ids \<Longrightarrow> \<exists>r d'. find_connector ids i k d = Some (r, d')"
  by (induction k arbitrary: i d) (auto simp: Let_def split_beta)

text \<open>A connector that appears between the two resource requests is read from beyond the array, when no earlier one is usable.\<close>

lemma find_connector_overrun:
  assumes "length ids < i + k" "\<And>tr c n. rp_connection (ds_driver d tr (GETCONNECTOR c n)) \<noteq> DRM_MODE_CONNECTED" "ds_fp d" "i \<le> length ids"
  shows "find_connector ids i k d = None"
  using assms by (induction k arbitrary: i d) (auto simp: Let_def ioctl_open)

lemma find_crtc_keeps:
  assumes "find_crtc enc n ids d = Some (c, d')" "ds_fp d" "drm_holds (ds_trace d) gems fbs maps b"
  shows "drm_later d d' \<and> drm_holds (ds_trace d') gems fbs maps b"
  using assms
  by (auto simp: find_crtc_def Let_def ioctl_open holds_append [OF assms(3)] ledger_defs split: if_splits)

lemma length_ids_array [simp]: "length (ids_array n xs) = unat n"
  by (simp add: ids_array_def)

lemma free_ids_keeps:
  assumes "drm_holds (ds_trace d) gems fbs maps (b + 2)"
  shows "drm_later d (free_ids d) \<and> drm_holds (ds_trace (free_ids d)) gems fbs maps b"
  by (simp add: free_ids_def holds_append [OF assms] ledger_defs)

lemma pick_output_keeps:
  assumes "pick_output cs es n k d = Some (r, d')" "ds_fp d" "drm_holds (ds_trace d) gems fbs maps (b + 2)"
  shows "drm_later d d' \<and> drm_holds (ds_trace d') gems fbs maps b"
proof -
  from assms(1) obtain c e where c: "find_connector cs 0 (unat n) d = Some (c, e)" and
    "d' = free_ids e \<or> (\<exists>enc crtc e'. find_crtc enc k es e = Some (crtc, e') \<and> d' = free_ids e')"
    by (fastforce simp: pick_output_def split: Option.bind_splits option.splits prod.splits if_splits)
  moreover note e = find_connector_keeps [OF c assms(2,3)]
  moreover have "ds_fp e" using later_keeps [of d e] e assms(2) by simp
  ultimately obtain e' where "d' = free_ids e'" "drm_later d e'" "drm_holds (ds_trace e') gems fbs maps (b + 2)"
    using find_crtc_keeps [of _ k es e] later_trans [of d e] by blast
  then show ?thesis using free_ids_keeps later_trans by blast
qed

lemma select_output_keeps:
  assumes "select_output d = Some (r, d')" "ds_fp d" "drm_holds (ds_trace d) gems fbs maps b"
  shows "drm_later d d' \<and> drm_holds (ds_trace d') gems fbs maps b"
proof -
  let ?r = "ds_driver d (ds_trace d) (GETRESOURCES 0 0)"
  let ?d1 = "emit (Ioctl (GETRESOURCES 0 0) ?r) d"
  let ?q2 = "GETRESOURCES (rp_count_connectors ?r) (rp_count_crtcs ?r)"
  let ?r2 = "ds_driver d (ds_trace (emit Malloc (emit Malloc ?d1))) ?q2"
  let ?d2 = "emit (Ioctl ?q2 ?r2) (emit Malloc (emit Malloc ?d1))"
  have h: "drm_holds (ds_trace ?d1) gems fbs maps b" "drm_holds (ds_trace ?d2) gems fbs maps (b + 2)"
    by (simp_all add: holds_append [OF assms(3)] ledger_defs)
  have l: "drm_later d ?d1" "drm_later d ?d2" by simp_all
  have fp: "ds_fp ?d2" using assms(2) by simp
  from assms(1,2) consider "d' = ?d1" | "d' = free_ids ?d2"
    | cs es n k where "pick_output cs es n k ?d2 = Some (r, d')"
    by (auto simp: select_output_def ioctl_open Let_def split: if_splits)
  then show ?thesis
  proof cases
    case 1
    then show ?thesis using h(1) l(1) by simp
  next
    case 2
    then show ?thesis using free_ids_keeps [OF h(2)] later_trans [OF l(2)] by blast
  next
    case 3
    from pick_output_keeps [OF 3 fp h(2)] show ?thesis using later_trans [OF l(2)] by blast
  qed
qed

lemma pick_output_returns:
  assumes "unat n \<le> length cs" "es \<noteq> []"
  shows "\<exists>r d'. pick_output cs es n k d = Some (r, d')"
proof -
  from assms(1) obtain c e where c: "find_connector cs 0 (unat n) d = Some (c, e)"
    using find_connector_returns [of 0 "unat n" cs d] by auto
  show ?thesis
  proof (cases c)
    case (Some t)
    obtain a enc mode where t: "t = (a, enc, mode)" by (cases t)
    have "find_crtc enc k es e \<noteq> None" using assms(2) by (simp add: find_crtc_def Let_def split_beta)
    then obtain crtc e' where "find_crtc enc k es e = Some (crtc, e')" by auto
    then show ?thesis using c Some t by (simp add: pick_output_def)
  qed (use c in \<open>simp add: pick_output_def\<close>)
qed

text \<open>With no connector appearing between the two requests the selection returns.\<close>

definition connectors_stable :: "drm_sys \<Rightarrow> bool" where
  "connectors_stable d \<longleftrightarrow> (\<forall>tr tr' n k. rp_count_connectors (ds_driver d tr (GETRESOURCES n k)) \<le> rp_count_connectors (ds_driver d tr' (GETRESOURCES 0 0)))"

lemma select_output_returns:
  assumes "connectors_stable d"
  shows "\<exists>r d'. select_output d = Some (r, d')"
proof (cases "ds_fp d")
  case True
  let ?r = "ds_driver d (ds_trace d) (GETRESOURCES 0 0)"
  have "\<exists>r d'. pick_output (ids_array (rp_count_connectors ?r) xs) (ids_array (rp_count_crtcs ?r) ys)
      (rp_count_connectors (ds_driver d tr (GETRESOURCES a b))) k e = Some (r, d')" if "rp_count_crtcs ?r \<noteq> 0" for xs ys tr k e a b
  proof (rule pick_output_returns)
    show "unat (rp_count_connectors (ds_driver d tr (GETRESOURCES a b))) \<le> length (ids_array (rp_count_connectors ?r) xs)"
      using assms by (simp add: connectors_stable_def word_le_nat_alt)
    show "ids_array (rp_count_crtcs ?r) ys \<noteq> []" using that length_ids_array [of "rp_count_crtcs ?r" ys]
      by (metis length_0_conv unat_eq_0)
  qed
  then show ?thesis using True by (auto simp: select_output_def ioctl_open Let_def)
qed (simp add: select_output_def drm_ioctl_kern_def)

lemma display_open_holds:
  assumes "drm_driver_ok d" "ds_fp d" "drm_holds (ds_trace d) gems fbs maps b" "drawfs_drm_display_open kproc d = Some (r, d')"
  shows "drm_later d d' \<and> (case r of None \<Rightarrow> drm_holds (ds_trace d') gems fbs maps b
    | Some dd \<Rightarrow> \<exists>k. display_ok k dd \<and> \<not> dp_flip_pending dd \<and>
        drm_holds (ds_trace d') (gems + dp_gems dd) (fbs + dp_fbs dd) (maps + dp_maps k dd) (Suc b))"
proof -
  from assms(4) obtain sel e where s: "select_output d = Some (sel, e)"
    and c: "(case sel of None \<Rightarrow> (None, e) | Some sel \<Rightarrow> create_buffers kproc sel e) = (r, d')"
    by (auto simp: drawfs_drm_display_open_def split: Option.bind_splits)
  note e = select_output_keeps [OF s assms(2,3)]
  have "ds_fp e" "drm_driver_ok e" using later_keeps [of d e] e assms(1,2) by (simp_all add: drm_driver_ok_def)
  then show ?thesis
    using c e create_buffers_holds [of e gems fbs maps b kproc _ r d'] create_buffers_later [of d e kproc]
    by (cases sel) (auto simp: prod_eq_iff)
qed

lemma display_open_returns: "connectors_stable d \<Longrightarrow> \<exists>r d'. drawfs_drm_display_open kproc d = Some (r, d')"
  using select_output_returns [of d]
  by (auto simp: drawfs_drm_display_open_def intro: prod.exhaust split: option.splits)

section \<open>Presents keep what the display holds\<close>

lemma present_end_keeps:
  "dp_gems (present_end e dd) = dp_gems dd" "dp_fbs (present_end e dd) = dp_fbs dd" "dp_maps k (present_end e dd) = dp_maps k dd"
  "display_ok k (present_end e dd) = display_ok k dd"
  by (auto simp: present_end_def dp_gems_def dp_fbs_def dp_maps_def display_ok_def)

lemma present_begin_keeps:
  assumes "present_begin pages dmap surf dd vram = Some (r, dd', vram')"
  shows "dp_gems dd' = dp_gems dd \<and> dp_fbs dd' = dp_fbs dd \<and> dp_maps k dd' = dp_maps k dd \<and> display_ok k dd' = display_ok k dd"
  using assms
  by (auto simp: present_begin_def dp_gems_def dp_fbs_def dp_maps_def display_ok_def split: if_splits option.splits)

lemma present_keeps:
  assumes "drawfs_drm_surface_present pages dmap surf dd vram d = Some (e, dd', vram', d')" "ds_fp d"
  shows "dp_gems dd' = dp_gems dd \<and> dp_fbs dd' = dp_fbs dd \<and> dp_maps k dd' = dp_maps k dd \<and> display_ok k dd' = display_ok k dd \<and>
    drm_later d d' \<and> (drm_holds (ds_trace d) gems fbs maps b \<longrightarrow> drm_holds (ds_trace d') gems fbs maps b)"
proof -
  from assms(1) obtain r dd1 vram1 where b: "present_begin pages dmap surf dd vram = Some (r, dd1, vram1)"
    and "dd' = dd1 \<and> d' = d \<or> (\<exists>e crtc fb. dd' = present_end e dd1 \<and> d' = snd (drm_ioctl_kern (PAGE_FLIP crtc fb) d))"
    by (auto simp: drawfs_drm_surface_present_def Let_def split_beta split: Option.bind_splits sum.splits) blast
  then show ?thesis using present_begin_keeps [OF b, of k]
    by (auto simp: present_end_keeps ioctl_open assms(2) holds_append ledger_defs)
qed

text \<open>Any number of presents of any surfaces.\<close>

fun presents :: "((vm_object \<Rightarrow> nat \<Rightarrow> nat option) \<times> (nat \<Rightarrow> byte) \<times> drawfs_surface) list \<Rightarrow> drawfs_drm_display \<Rightarrow> (u64 \<Rightarrow> buf) \<Rightarrow> drm_sys \<Rightarrow>
    (errno list \<times> drawfs_drm_display \<times> (u64 \<Rightarrow> buf) \<times> drm_sys) option" where
  "presents [] dd vram d = Some ([], dd, vram, d)"
| "presents ((pages, dmap, surf) # ps) dd vram d =
     Option.bind (drawfs_drm_surface_present pages dmap surf dd vram d) (\<lambda>(e, dd, vram, d).
       Option.bind (presents ps dd vram d) (\<lambda>(es, r). Some (e # es, r)))"

lemma presents_keep:
  assumes "presents ps dd vram d = Some (es, dd', vram', d')" "ds_fp d" "drm_holds (ds_trace d) gems fbs maps b"
  shows "dp_gems dd' = dp_gems dd \<and> dp_fbs dd' = dp_fbs dd \<and> dp_maps k dd' = dp_maps k dd \<and> display_ok k dd' = display_ok k dd \<and>
    drm_later d d' \<and> drm_holds (ds_trace d') gems fbs maps b"
  using assms
proof (induction ps dd vram d arbitrary: es rule: presents.induct)
  case (2 pages dmap surf ps dd vram d)
  from 2(2) obtain e dd1 vram1 d1 es' where p: "drawfs_drm_surface_present pages dmap surf dd vram d = Some (e, dd1, vram1, d1)"
    and r: "presents ps dd1 vram1 d1 = Some (es', dd', vram', d')"
    by (auto split: Option.bind_splits)
  note k1 = present_keeps [OF p 2(3), of k gems fbs maps b]
  have "ds_fp d1" using k1 later_keeps [of d d1] 2(3) by simp
  from 2(1) [OF p refl refl refl r this] k1 2(4) show ?case using later_trans [of d d1] by auto
qed simp

section \<open>The copy\<close>

text \<open>Where a byte of a row comes from: zero, left as it was, or a physical address.\<close>

datatype source = Zeroed | Kept | Phys nat

definition row_source :: "(nat \<Rightarrow> nat option) \<Rightarrow> nat \<Rightarrow> nat \<Rightarrow> source" where
  "row_source pages off k =
     (case pages (off div 4096) of None \<Rightarrow> Zeroed
      | Some pa \<Rightarrow> if off mod 4096 + k < 4096 then Phys (pa + off mod 4096 + k)
                   else case pages (off div 4096 + 1) of None \<Rightarrow> Kept | Some pa2 \<Rightarrow> Phys (pa2 + (off mod 4096 + k - 4096)))"

fun source_byte :: "(nat \<Rightarrow> byte) \<Rightarrow> source \<Rightarrow> byte \<Rightarrow> byte" where
  "source_byte dmap Zeroed old = 0"
| "source_byte dmap Kept old = old"
| "source_byte dmap (Phys a) old = dmap a"

lemma fb_store_Some: "off + length bs \<le> length mem \<Longrightarrow> fb_store mem off bs = Some (blit mem off bs)"
  by (simp add: fb_store_def)

lemma nth_blit_upt:
  assumes "off + t \<le> length bs" "j < length bs"
  shows "blit bs off (map f [a ..< a + t]) ! j = (if off \<le> j \<and> j < off + t then f (a + (j - off)) else bs ! j)"
  using assms by (auto simp: nth_blit)

text \<open>A row that crosses the end of its first page at byte \<open>t\<close>.\<close>

lemma two_page_bytes:
  fixes q t n dst :: nat
  assumes "t + q = 4096" "t < n" "dst + n \<le> length mem" "j < length mem"
  shows "blit (blit mem dst (map dmap [pa + q ..< pa + q + t])) (dst + t) (map dmap [pa2 ..< pa2 + (n - t)]) ! j =
    (if dst \<le> j \<and> j < dst + n then (if q + (j - dst) < 4096 then dmap (pa + q + (j - dst)) else dmap (pa2 + (q + (j - dst) - 4096))) else mem ! j)"
proof -
  let ?mem = "blit mem dst (map dmap [pa + q ..< pa + q + t])"
  have len: "length ?mem = length mem" using assms by simp
  have 1: "?mem ! j = (if dst \<le> j \<and> j < dst + t then dmap (pa + q + (j - dst)) else mem ! j)"
    using assms by (intro nth_blit_upt) linarith+
  have 2: "blit ?mem (dst + t) (map dmap [pa2 ..< pa2 + (n - t)]) ! j =
      (if dst + t \<le> j \<and> j < dst + t + (n - t) then dmap (pa2 + (j - (dst + t))) else ?mem ! j)"
    unfolding len [symmetric] using assms len by (intro nth_blit_upt) linarith+
  have "j - (dst + t) = q + (j - dst) - 4096" if "dst + t \<le> j" using that assms(1) by linarith
  moreover have "q + (j - dst) < 4096 \<longleftrightarrow> j < dst + t" if "dst \<le> j" using that assms(1) by linarith
  moreover have "dst + t + (n - t) = dst + n" using assms(2) by linarith
  ultimately show ?thesis unfolding 2 1 using assms(2) by auto
qed

lemma copy_row_bytes:
  fixes row sstride dstride n :: u32
  defines "dst \<equiv> unat (row * dstride)" and "off \<equiv> unat (row * sstride)"
  assumes "dst + unat n \<le> length mem"
  shows "\<exists>mem'. copy_row pages dmap sstride dstride n row mem = Some mem' \<and> length mem' = length mem \<and>
    (\<forall>j < length mem. mem' ! j = (if dst \<le> j \<and> j < dst + unat n then source_byte dmap (row_source pages off (j - dst)) (mem ! j) else mem ! j))"
proof (cases "pages (off div 4096)")
  case None
  then show ?thesis using assms(3)
    by (auto simp: copy_row_def dst_def [symmetric] off_def [symmetric] fb_store_Some nth_blit row_source_def Let_def)
next
  case (Some pa)
  define q m where "q = off mod 4096" and "m = unat n"
  have q: "q < 4096" by (simp add: q_def)
  have m: "dst + m \<le> length mem" using assms(3) by (simp add: m_def)
  let ?src = "\<lambda>k. if q + k < 4096 then Phys (pa + q + k) else case pages (off div 4096 + 1) of None \<Rightarrow> Kept | Some pa2 \<Rightarrow> Phys (pa2 + (q + k - 4096))"
  have src: "row_source pages off = ?src" unfolding row_source_def q_def Some by simp
  have cr: "copy_row pages dmap sstride dstride n row mem =
    Option.bind (fb_store mem dst (map dmap [pa + q ..< pa + q + min m (4096 - q)])) (\<lambda>mem.
      if min m (4096 - q) < m
      then case pages (off div 4096 + 1) of None \<Rightarrow> Some mem
           | Some pa2 \<Rightarrow> fb_store mem (dst + min m (4096 - q)) (map dmap [pa2 ..< pa2 + (m - min m (4096 - q))])
      else Some mem)"
    unfolding copy_row_def Let_def q_def m_def dst_def off_def Some [unfolded off_def] by simp
  show ?thesis unfolding src m_def [symmetric]
  proof (cases "4096 - q < m")
    case False
    let ?mem = "blit mem dst (map dmap [pa + q ..< pa + q + m])"
    have "min m (4096 - q) = m" using False by simp
    then have "copy_row pages dmap sstride dstride n row mem = Some ?mem" unfolding cr using m by (simp add: fb_store_Some)
    moreover have "?mem ! j = (if dst \<le> j \<and> j < dst + m then source_byte dmap (?src (j - dst)) (mem ! j) else mem ! j)" if "j < length mem" for j
      using nth_blit_upt [OF m that, of dmap "pa + q"] False by auto
    ultimately show "\<exists>mem'. copy_row pages dmap sstride dstride n row mem = Some mem' \<and> length mem' = length mem \<and>
      (\<forall>j < length mem. mem' ! j = (if dst \<le> j \<and> j < dst + m then source_byte dmap (?src (j - dst)) (mem ! j) else mem ! j))" using m by simp
  next
    case True
    define t where "t = 4096 - q"
    have t: "t + q = 4096" "t < m" "min m (4096 - q) = t" "q + k < 4096 \<longleftrightarrow> k < t" for k using True q by (auto simp: t_def)
    let ?mem = "blit mem dst (map dmap [pa + q ..< pa + q + t])"
    have len: "length ?mem = length mem" using m t by simp
    have nth: "?mem ! j = (if dst \<le> j \<and> j < dst + t then dmap (pa + q + (j - dst)) else mem ! j)" if "j < length mem" for j
      using nth_blit_upt [of dst t mem j dmap "pa + q"] m t(2) that by simp
    show "\<exists>mem'. copy_row pages dmap sstride dstride n row mem = Some mem' \<and> length mem' = length mem \<and>
      (\<forall>j < length mem. mem' ! j = (if dst \<le> j \<and> j < dst + m then source_byte dmap (?src (j - dst)) (mem ! j) else mem ! j))"
    proof (cases "pages (off div 4096 + 1)")
      case None
      then have "copy_row pages dmap sstride dstride n row mem = Some ?mem" unfolding cr t(3) using m t(2) by (simp add: fb_store_Some)
      moreover have "?mem ! j = (if dst \<le> j \<and> j < dst + m then source_byte dmap (?src (j - dst)) (mem ! j) else mem ! j)" if "j < length mem" for j
        unfolding None t(4) nth [OF that] using t(2) by auto
      ultimately show ?thesis using len by blast
    next
      case p2: (Some pa2)
      let ?mem2 = "blit ?mem (dst + t) (map dmap [pa2 ..< pa2 + (m - t)])"
      have "copy_row pages dmap sstride dstride n row mem = Some ?mem2" unfolding cr t(3) using m t(2) p2 len by (simp add: fb_store_Some)
      moreover have "?mem2 ! j = (if dst \<le> j \<and> j < dst + m then source_byte dmap (?src (j - dst)) (mem ! j) else mem ! j)" if "j < length mem" for j
        unfolding two_page_bytes [OF t(1,2) m that] p2 by simp
      moreover have "length ?mem2 = length mem" using len m t(2) by simp
      ultimately show ?thesis by blast
    qed
  qed
qed

lemma div_mod_row:
  fixes j r ds n :: nat
  assumes "0 < ds" "n \<le> ds"
  shows "r * ds \<le> j \<and> j < r * ds + n \<longleftrightarrow> j div ds = r \<and> j mod ds < n"
proof
  assume "r * ds \<le> j \<and> j < r * ds + n"
  then obtain i where "j = r * ds + i" "i < n" using le_Suc_ex by fastforce
  then show "j div ds = r \<and> j mod ds < n" using assms by simp
next
  assume "j div ds = r \<and> j mod ds < n"
  then show "r * ds \<le> j \<and> j < r * ds + n" using div_mult_mod_eq [of j ds] by auto
qed

lemma each_row_bytes:
  fixes ds n L :: nat
  assumes "0 < ds" "n \<le> ds"
    and "\<And>r mem. a \<le> r \<Longrightarrow> r < a + k \<Longrightarrow> length mem = L \<Longrightarrow> \<exists>mem'. f (of_nat r) mem = Some mem' \<and> length mem' = L \<and>
      (\<forall>j < L. mem' ! j = (if r * ds \<le> j \<and> j < r * ds + n then F r (j - r * ds) (mem ! j) else mem ! j))"
    and "length mem = L"
  shows "\<exists>mem'. each_row f k (of_nat a) mem = Some mem' \<and> length mem' = L \<and>
    (\<forall>j < L. mem' ! j = (if a \<le> j div ds \<and> j div ds < a + k \<and> j mod ds < n then F (j div ds) (j mod ds) (mem ! j) else mem ! j))"
  using assms(3,4)
proof (induction k arbitrary: a mem)
  case (Suc k)
  have row: "j - r * ds = j mod ds" if "r * ds \<le> j \<and> j < r * ds + n" for j r
    using that div_mod_row [OF assms(1,2), of r j] minus_div_mult_eq_mod [of j ds] by auto
  from Suc.prems(1) [of a, OF _ _ Suc.prems(2)] obtain m1 where m1: "f (of_nat a) mem = Some m1" "length m1 = L"
    "\<forall>j < L. m1 ! j = (if a * ds \<le> j \<and> j < a * ds + n then F a (j - a * ds) (mem ! j) else mem ! j)" by auto
  have "\<exists>mem'. each_row f k (of_nat (Suc a)) m1 = Some mem' \<and> length mem' = L \<and>
    (\<forall>j < L. mem' ! j = (if Suc a \<le> j div ds \<and> j div ds < Suc a + k \<and> j mod ds < n then F (j div ds) (j mod ds) (m1 ! j) else m1 ! j))"
    by (rule Suc.IH [OF Suc.prems(1) m1(2)]) simp_all
  then obtain m2 where m2: "each_row f k (of_nat (Suc a)) m1 = Some m2" "length m2 = L"
    "\<forall>j < L. m2 ! j = (if Suc a \<le> j div ds \<and> j div ds < Suc a + k \<and> j mod ds < n then F (j div ds) (j mod ds) (m1 ! j) else m1 ! j)"
    by blast
  have "m2 ! j = (if a \<le> j div ds \<and> j div ds < a + Suc k \<and> j mod ds < n then F (j div ds) (j mod ds) (mem ! j) else mem ! j)"
    if "j < L" for j
    using m2(3) [rule_format, OF that] m1(3) [rule_format, OF that] row [of a j] div_mod_row [OF assms(1,2), of a j]
    by (cases "j div ds = a") auto
  then show ?case using m1(1) m2 by (simp add: add.commute)
qed auto

lemma unat_row:
  fixes w :: u32
  assumes "r * unat w < 2 ^ 32" "r < 2 ^ 32"
  shows "unat (of_nat r * w) = r * unat w"
  using assms by (simp add: unat_word_ariths unat_of_nat take_bit_eq_mod)

lemma clear_row_bytes:
  assumes "unat (row * ds) + unat ds \<le> length mem"
  shows "\<exists>mem'. clear_row ds row mem = Some mem' \<and> length mem' = length mem \<and>
    (\<forall>j < length mem. mem' ! j = (if unat (row * ds) \<le> j \<and> j < unat (row * ds) + unat ds then 0 else mem ! j))"
  using assms by (auto simp: clear_row_def fb_store_Some nth_blit)

text \<open>The whole copy, byte by byte: it stays inside the back buffer, and every byte has the source its row gives it.\<close>

lemma copy_surface_bytes:
  fixes dd :: drawfs_drm_display and surf :: drawfs_surface
  defines "ds \<equiv> unat (dp_stride_bytes dd)" and "H \<equiv> unat (dp_height_px dd)"
    and "h \<equiv> min (unat (sf_height_px surf)) (unat (dp_height_px dd))" and "n \<equiv> min (unat (sf_stride_bytes surf)) (unat (dp_stride_bytes dd))"
  assumes "0 < ds" "H * ds \<le> length mem" "H * ds < 2 ^ 32"
  shows "\<exists>mem'. copy_surface pages dmap dd surf mem = Some mem' \<and> length mem' = length mem \<and>
    (\<forall>j < length mem. mem' ! j =
       (if j div ds < h then (if j mod ds < n
          then source_byte dmap (row_source pages (unat (of_nat (j div ds) * sf_stride_bytes surf)) (j mod ds)) (mem ! j) else mem ! j)
        else if j div ds < H then 0 else mem ! j))"
proof -
  let ?L = "length mem"
  have h: "h \<le> H" "n \<le> ds" by (simp_all add: h_def H_def n_def ds_def)
  have hu: "unat (min (sf_height_px surf) (dp_height_px dd)) = h" "unat (min (sf_stride_bytes surf) (dp_stride_bytes dd)) = n"
    by (simp_all add: h_def n_def min_def word_le_nat_alt)
  have row: "unat (of_nat r * dp_stride_bytes dd) = r * ds \<and> r * ds + ds \<le> ?L" if "r < H" for r
  proof -
    have "(r + 1) * ds \<le> H * ds" using that by (intro mult_right_mono) simp_all
    moreover have "r < 2 ^ 32" using that unat_lt_size [of "dp_height_px dd"] by (simp add: H_def)
    ultimately show ?thesis using assms(6,7) using unat_row [of r "dp_stride_bytes dd"] by (auto simp: ds_def algebra_simps)
  qed
  let ?f = "copy_row pages dmap (sf_stride_bytes surf) (dp_stride_bytes dd) (min (sf_stride_bytes surf) (dp_stride_bytes dd))"
  let ?F = "\<lambda>r i. source_byte dmap (row_source pages (unat (of_nat r * sf_stride_bytes surf)) i)"
  have 1: "\<exists>mem'. ?f (of_nat r) m = Some mem' \<and> length mem' = ?L \<and>
      (\<forall>j < ?L. mem' ! j = (if r * ds \<le> j \<and> j < r * ds + n then ?F r (j - r * ds) (m ! j) else m ! j))"
    if "0 \<le> r" "r < 0 + h" "length m = ?L" for r m
  proof -
    have r: "unat (of_nat r * dp_stride_bytes dd) = r * ds" "r * ds + n \<le> length m" using row [of r] that h by simp_all
    show ?thesis
      using copy_row_bytes [of "of_nat r" "dp_stride_bytes dd" "min (sf_stride_bytes surf) (dp_stride_bytes dd)" m pages dmap "sf_stride_bytes surf",
        unfolded hu r(1) that(3), OF r(2) [unfolded that(3)]] .
  qed
  from each_row_bytes [OF assms(5) h(2) 1 refl] obtain m1 where m1: "each_row ?f h (of_nat 0) mem = Some m1" "length m1 = ?L"
    "\<forall>j < ?L. m1 ! j = (if 0 \<le> j div ds \<and> j div ds < 0 + h \<and> j mod ds < n then ?F (j div ds) (j mod ds) (mem ! j) else mem ! j)" by blast
  have 2: "\<exists>mem'. clear_row (dp_stride_bytes dd) (of_nat r) m = Some mem' \<and> length mem' = ?L \<and>
      (\<forall>j < ?L. mem' ! j = (if r * ds \<le> j \<and> j < r * ds + ds then 0 else m ! j))"
    if "h \<le> r" "r < h + (H - h)" "length m = ?L" for r m
    using clear_row_bytes [of "of_nat r" "dp_stride_bytes dd" m] row [of r] that h by (simp add: ds_def)
  from each_row_bytes [OF assms(5) order_refl 2 m1(2)] obtain m2 where m2: "each_row (clear_row (dp_stride_bytes dd)) (H - h) (of_nat h) m1 = Some m2"
    "length m2 = ?L" "\<forall>j < ?L. m2 ! j = (if h \<le> j div ds \<and> j div ds < h + (H - h) \<and> j mod ds < ds then 0 else m1 ! j)" by blast
  have w: "of_nat h = min (sf_height_px surf) (dp_height_px dd)" by (simp flip: hu(1))
  have "copy_surface pages dmap dd surf mem = Some m2"
    unfolding copy_surface_def Let_def hu using m1(1) m2(1) unfolding w H_def by simp
  moreover have "m2 ! j = (if j div ds < h then (if j mod ds < n then ?F (j div ds) (j mod ds) (mem ! j) else mem ! j)
      else if j div ds < H then 0 else mem ! j)" if "j < ?L" for j
    using m2(3) [rule_format, OF that] m1(3) [rule_format, OF that] assms(5) h(1) by auto
  ultimately show ?thesis using m2(2) by blast
qed

section \<open>Concurrent presents\<close>

text \<open>
  Threads of several sessions present through one display. The sections under \<^verbatim>\<open>drm_mtx\<close> are single steps, the flip between them is
  a step of its own; \<open>fs_shown\<close> is the framebuffer the last flip put on the screen, \<open>fs_flips\<close> counts the flips that succeeded.
\<close>

datatype present_pc = PIdle | PClaimed u32 u32 | PFlipped errno | PDone errno

record flip_sys =
  fs_dd :: drawfs_drm_display
  fs_vram :: "u64 \<Rightarrow> buf"
  fs_pc :: "nat \<Rightarrow> present_pc"
  fs_shown :: u32
  fs_flips :: nat

inductive present_step :: "flip_sys \<Rightarrow> flip_sys \<Rightarrow> bool" where
  begin_step: "fs_pc w t = PIdle \<Longrightarrow> present_begin pages dmap surf (fs_dd w) (fs_vram w) = Some (r, dd, vram) \<Longrightarrow>
    present_step w (w\<lparr>fs_dd := dd, fs_vram := vram,
      fs_pc := (fs_pc w)(t := case r of Inl e \<Rightarrow> PDone e | Inr (crtc, fb) \<Rightarrow> PClaimed crtc fb)\<rparr>)"
| flip_step: "fs_pc w t = PClaimed crtc fb \<Longrightarrow>
    present_step w (w\<lparr>fs_pc := (fs_pc w)(t := PFlipped 0), fs_shown := fb, fs_flips := Suc (fs_flips w)\<rparr>)"
| fail_step: "fs_pc w t = PClaimed crtc fb \<Longrightarrow> e \<noteq> 0 \<Longrightarrow> present_step w (w\<lparr>fs_pc := (fs_pc w)(t := PFlipped e)\<rparr>)"
| end_step: "fs_pc w t = PFlipped e \<Longrightarrow>
    present_step w (w\<lparr>fs_dd := present_end e (fs_dd w), fs_pc := (fs_pc w)(t := PDone e)\<rparr>)"
| return_step: "fs_pc w t = PDone e \<Longrightarrow> present_step w (w\<lparr>fs_pc := (fs_pc w)(t := PIdle)\<rparr>)"

fun in_flight :: "present_pc \<Rightarrow> bool" where
  "in_flight (PClaimed crtc fb) = True"
| "in_flight (PFlipped e) = True"
| "in_flight _ = False"

fun present_pc_ok :: "flip_sys \<Rightarrow> present_pc \<Rightarrow> bool" where
  "present_pc_ok w (PClaimed crtc fb) \<longleftrightarrow> dp_flip_pending (fs_dd w) \<and> fb = dp_back_fb_id (fs_dd w) \<and> fs_shown w = dp_mode_fb_id (fs_dd w) \<and> fs_flips w = 0"
| "present_pc_ok w (PFlipped e) \<longleftrightarrow> dp_flip_pending (fs_dd w) \<and>
     (if e = 0 then fs_shown w = dp_back_fb_id (fs_dd w) \<and> fs_flips w = 1 else fs_shown w = dp_mode_fb_id (fs_dd w) \<and> fs_flips w = 0)"
| "present_pc_ok w _ \<longleftrightarrow> True"

definition flip_inv :: "flip_sys \<Rightarrow> bool" where
  "flip_inv w \<longleftrightarrow> (\<forall>t u. in_flight (fs_pc w t) \<longrightarrow> in_flight (fs_pc w u) \<longrightarrow> t = u) \<and> (\<forall>t. present_pc_ok w (fs_pc w t)) \<and>
     ((\<forall>t. \<not> in_flight (fs_pc w t)) \<longrightarrow> fs_shown w = dp_mode_fb_id (fs_dd w) \<and> fs_flips w = (if dp_flip_pending (fs_dd w) then 1 else 0)) \<and>
     dp_mode_fb_id (fs_dd w) \<noteq> dp_back_fb_id (fs_dd w)"

lemma present_begin_cases:
  assumes "present_begin pages dmap surf dd vram = Some (r, dd', vram')"
  shows "(\<exists>e. r = Inl e \<and> dd' = dd \<and> vram' = vram) \<or>
    (\<not> dp_flip_pending dd \<and> r = Inr (dp_crtc_id dd, dp_back_fb_id dd) \<and> dd' = dd\<lparr>dp_flip_pending := True\<rparr> \<and>
     (\<exists>mem. vram' = vram(dp_back_map dd := mem)) \<and> dp_back_map dd \<noteq> 0)"
  using assms by (auto simp: present_begin_def split: if_splits option.splits)

lemma not_in_flight:
  assumes "flip_inv w" "\<not> dp_flip_pending (fs_dd w)"
  shows "\<not> in_flight (fs_pc w t)"
proof -
  have "present_pc_ok w (fs_pc w t)" using assms(1) by (simp add: flip_inv_def)
  then show ?thesis using assms(2) by (cases "fs_pc w t") simp_all
qed

lemma flip_inv_quiet:
  assumes "flip_inv w" "\<not> in_flight (fs_pc w t)" "\<not> in_flight p"
  shows "flip_inv (w\<lparr>fs_pc := (fs_pc w)(t := p)\<rparr>)"
proof -
  have "in_flight (((fs_pc w)(t := p)) u) = in_flight (fs_pc w u)" for u using assms(2,3) by simp
  moreover have "present_pc_ok (w\<lparr>fs_pc := f\<rparr>) p = present_pc_ok w p" for f p by (cases p) simp_all
  moreover have "present_pc_ok w p" using assms(3) by (cases p) simp_all
  ultimately show ?thesis using assms(1) by (simp add: flip_inv_def)
qed

lemma flip_inv_step:
  assumes "present_step w w'" "flip_inv w"
  shows "flip_inv w'"
  using assms
proof (induction rule: present_step.induct)
  case (begin_step w t pages dmap surf r dd vram)
  have pc: "\<not> in_flight (fs_pc w t)" using begin_step(1) by simp
  from present_begin_cases [OF begin_step(2)] show ?case
  proof (elim disjE exE conjE, goal_cases)
    case (1 e)
    then show ?thesis using flip_inv_quiet [OF begin_step(3) pc, of "PDone e"] by simp
  next
    case (2 mem)
    have n: "\<not> in_flight (fs_pc w u)" for u using not_in_flight [OF begin_step(3) 2(1)] .
    have "present_pc_ok w' (fs_pc w u)" for w' u using n [of u] by (cases "fs_pc w u") simp_all
    then show ?thesis using 2 n begin_step(3) by (auto simp: flip_inv_def)
  qed
next
  case (flip_step w t crtc fb)
  have o: "\<not> in_flight (fs_pc w u)" if "u \<noteq> t" for u using flip_step that by (auto simp: flip_inv_def)
  have "present_pc_ok w' (fs_pc w u)" if "u \<noteq> t" for w' u using o [OF that] by (cases "fs_pc w u") simp_all
  moreover have "present_pc_ok w (fs_pc w t)" using flip_step(2) by (simp add: flip_inv_def)
  ultimately show ?case using o flip_step by (auto simp: flip_inv_def)
next
  case (fail_step w t crtc fb e)
  have o: "\<not> in_flight (fs_pc w u)" if "u \<noteq> t" for u using fail_step that by (auto simp: flip_inv_def)
  have "present_pc_ok w' (fs_pc w u)" if "u \<noteq> t" for w' u using o [OF that] by (cases "fs_pc w u") simp_all
  moreover have "present_pc_ok w (fs_pc w t)" using fail_step(3) by (simp add: flip_inv_def)
  ultimately show ?case using o fail_step by (auto simp: flip_inv_def)
next
  case (end_step w t e)
  have o: "\<not> in_flight (fs_pc w u)" if "u \<noteq> t" for u using end_step that by (auto simp: flip_inv_def)
  have "present_pc_ok w' (fs_pc w u)" if "u \<noteq> t" for w' u using o [OF that] by (cases "fs_pc w u") simp_all
  moreover have "present_pc_ok w (fs_pc w t)" using end_step(2) by (simp add: flip_inv_def)
  ultimately show ?case using o end_step by (auto simp: flip_inv_def present_end_def)
next
  case (return_step w t e)
  then show ?case by (intro flip_inv_quiet) simp_all
qed

lemma flip_inv_steps: "present_step\<^sup>*\<^sup>* w w' \<Longrightarrow> flip_inv w \<Longrightarrow> flip_inv w'"
  by (induction rule: rtranclp_induct) (auto intro: flip_inv_step)

lemma flips_at_most_one:
  assumes "flip_inv w"
  shows "fs_flips w \<le> 1 \<and> (fs_flips w = 1 \<longrightarrow> dp_flip_pending (fs_dd w))"
proof (cases "\<exists>t. in_flight (fs_pc w t)")
  case True
  then obtain t where "in_flight (fs_pc w t)" by blast
  moreover have "present_pc_ok w (fs_pc w t)" using assms by (simp add: flip_inv_def)
  ultimately show ?thesis by (cases "fs_pc w t") (auto split: if_splits)
qed (use assms in \<open>auto simp: flip_inv_def\<close>)

section \<open>The completion thread\<close>

text \<open>
  \<^verbatim>\<open>drawfs_drm_completion_thread\<close> and the join in \<^verbatim>\<open>drawfs_drm_display_close\<close>, which share \<^verbatim>\<open>completion_run\<close>.
  Each test of the flag, each assignment to it and the release of the descriptor is one step.
\<close>

datatype thread_pc = TLoop | TLeave | TExited
datatype closer_pc = CIdle | CJoin | CFreed

record join_sys =
  js_run :: nat
  js_thread :: thread_pc
  js_closer :: closer_pc

definition join_start :: join_sys where
  "join_start = \<lparr>js_run = 1, js_thread = TLoop, js_closer = CIdle\<rparr>"

inductive join_step :: "join_sys \<Rightarrow> join_sys \<Rightarrow> bool" where
  thread_pause: "js_thread j = TLoop \<Longrightarrow> js_run j = 1 \<Longrightarrow> join_step j j"
| thread_stop: "js_thread j = TLoop \<Longrightarrow> js_run j \<noteq> 1 \<Longrightarrow> join_step j (j\<lparr>js_thread := TLeave\<rparr>)"
| thread_exit: "js_thread j = TLeave \<Longrightarrow> join_step j (j\<lparr>js_run := 2, js_thread := TExited\<rparr>)"
| close_request: "js_closer j = CIdle \<Longrightarrow> join_step j (j\<lparr>js_run := 0, js_closer := CJoin\<rparr>)"
| close_wait: "js_closer j = CJoin \<Longrightarrow> js_run j \<noteq> 2 \<Longrightarrow> join_step j j"
| close_free: "js_closer j = CJoin \<Longrightarrow> js_run j = 2 \<Longrightarrow> join_step j (j\<lparr>js_closer := CFreed\<rparr>)"

definition join_inv :: "join_sys \<Rightarrow> bool" where
  "join_inv j \<longleftrightarrow> (js_closer j = CIdle \<longrightarrow> js_run j = 1 \<and> js_thread j = TLoop) \<and>
     (js_closer j \<noteq> CIdle \<longrightarrow> js_run j = (if js_thread j = TExited then 2 else 0)) \<and>
     (js_closer j = CFreed \<longrightarrow> js_thread j = TExited)"

lemma join_inv_steps: "join_step\<^sup>*\<^sup>* join_start j \<Longrightarrow> join_inv j"
proof (induction rule: rtranclp_induct)
  case (step j k)
  from step(2,3) show ?case by cases (auto simp: join_inv_def split: if_splits)
qed (simp add: join_inv_def join_start_def)

text \<open>A waiting closer is at most three steps from the release, whatever has happened so far.\<close>

lemma join_returns:
  assumes "join_inv j" "js_closer j = CJoin"
  shows "\<exists>k. join_step\<^sup>*\<^sup>* j k \<and> js_closer k = CFreed"
proof -
  have free: "\<exists>k. join_step\<^sup>*\<^sup>* i k \<and> js_closer k = CFreed" if "js_closer i = CJoin" "js_run i = 2" for i
    using close_free [OF that] by (intro exI [of _ "i\<lparr>js_closer := CFreed\<rparr>"]) auto
  have leave: "\<exists>k. join_step\<^sup>*\<^sup>* i k \<and> js_closer k = CFreed" if "js_closer i = CJoin" "js_thread i = TLeave" for i
    using thread_exit [OF that(2)] free [of "i\<lparr>js_run := 2, js_thread := TExited\<rparr>"] that(1)
    by (auto intro: converse_rtranclp_into_rtranclp)
  show ?thesis
  proof (cases "js_thread j")
    case TLoop
    then have "join_step j (j\<lparr>js_thread := TLeave\<rparr>)" using assms by (intro thread_stop) (auto simp: join_inv_def)
    then show ?thesis using leave [of "j\<lparr>js_thread := TLeave\<rparr>"] assms(2) by (auto intro: converse_rtranclp_into_rtranclp)
  qed (use assms leave free in \<open>auto simp: join_inv_def\<close>)
qed

section \<open>The life of the module\<close>

text \<open>What can happen to the backend between load and unload: a write to the control knob, a bind, a present.\<close>

inductive drm_op :: "drm_module \<Rightarrow> drm_module \<Rightarrow> bool" where
  set_backend: "drm_op m (m\<lparr>dg_backend := b\<rparr>)"
| bind_op: "drm_bind kproc m = Some m' \<Longrightarrow> drm_op m m'"
| present_op: "drm_present pages dmap s payload m = Some m' \<Longrightarrow> drm_op m m'"

definition drm_boot :: "(drm_ev list \<Rightarrow> drm_req \<Rightarrow> drm_reply) \<Rightarrow> (drm_ev list \<Rightarrow> u64 \<Rightarrow> u64 \<Rightarrow> u64) \<Rightarrow> drm_module" where
  "drm_boot driver mapdev = \<lparr>dg_backend = ''swap'', dg_display = None, dg_vram = \<lambda>_. [],
     dg_sys = \<lparr>ds_fp = False, ds_driver = driver, ds_mapdev = mapdev, ds_trace = []\<rparr>\<rparr>"

lemma open_without_card: "\<not> ds_fp d \<Longrightarrow> drawfs_drm_display_open kproc d = Some (None, d)"
  by (simp add: drawfs_drm_display_open_def select_output_def drm_ioctl_kern_def)

lemma drm_op_closed:
  assumes "drm_op m m'" "\<not> ds_fp (dg_sys m)" "dg_display m = None"
  shows "\<not> ds_fp (dg_sys m') \<and> dg_display m' = None \<and> ds_trace (dg_sys m') = ds_trace (dg_sys m)"
  using assms
proof cases
  case (present_op pages dmap s payload)
  then show ?thesis using assms(2,3) by (auto simp: drm_present_def split: prod.splits if_splits option.splits)
qed (auto simp: drm_bind_def open_without_card split: if_splits)

end
