(* ===== verification/Drawfs_Drm_Properties.thy ===== *)
theory Drawfs_Drm_Properties
  imports Drawfs_Drm
begin

text \<open>
  The properties of the DRM backend of drawfs, each followed by a concrete instance.
\<close>

section \<open>What a display holds\<close>


definition demo_driver :: "drm_ev list \<Rightarrow> drm_req \<Rightarrow> drm_reply" where
  "demo_driver tr q = (case q of
       GETRESOURCES n k \<Rightarrow> no_reply\<lparr>rp_count_connectors := 1, rp_count_crtcs := 1, rp_connector_ids := [7], rp_crtc_ids := [9]\<rparr>
     | GETCONNECTOR c n \<Rightarrow> no_reply\<lparr>rp_connection := 1, rp_count_modes := 1, rp_modes := [\<lparr>mi_hdisplay = 1024, mi_vdisplay = 2\<rparr>]\<rparr>
     | CREATE_DUMB w h bpp \<Rightarrow> no_reply\<lparr>rp_handle := (if gems_got tr = [] then 2 else 3), rp_pitch := 4096, rp_size := 4096 * ucast h\<rparr>
     | ADDFB w h p bpp dep gem \<Rightarrow> no_reply\<lparr>rp_fb_id := (if gem = 2 then 22 else 23)\<rparr>
     | _ \<Rightarrow> no_reply)"






section \<open>The copy of a present\<close>

text \<open>The bytes of a surface: its pages, read through the direct map; a page that was never touched is zero.\<close>

definition surface_byte :: "(nat \<Rightarrow> nat option) \<Rightarrow> (nat \<Rightarrow> byte) \<Rightarrow> nat \<Rightarrow> byte" where
  "surface_byte pages dmap i = (case pages (i div 4096) of None \<Rightarrow> 0 | Some pa \<Rightarrow> dmap (pa + i mod 4096))"

lemma row_source_surface:
  assumes "off mod 4096 + k < 8192" "pages (off div 4096) \<noteq> None" "pages ((off + k) div 4096) \<noteq> None"
  shows "source_byte dmap (row_source pages off k) old = surface_byte pages dmap (off + k)"
proof -
  define p q where "p = off div 4096" and "q = off mod 4096"
  have off: "off = 4096 * p + q" "q < 4096" by (simp_all add: p_def q_def)
  show ?thesis
  proof (cases "q + k < 4096")
    case True
    have e: "off + k = 4096 * p + (q + k)" using off by simp
    have "(off + k) div 4096 = p" "(off + k) mod 4096 = q + k" unfolding e using True by simp_all
    then show ?thesis using assms(2) True by (auto simp: row_source_def surface_byte_def add.assoc simp flip: p_def q_def)
  next
    case False
    define m where "m = q + k - 4096"
    have e: "off + k = 4096 * (p + 1) + m" "m < 4096" using off False assms(1) by (simp_all add: m_def flip: q_def)
    have "(4096 * x + m) div 4096 = x \<and> (4096 * x + m) mod 4096 = m" for x using e(2) by simp
    from this [of "p + 1"] have "(off + k) div 4096 = p + 1" "(off + k) mod 4096 = q + k - 4096" unfolding e(1) m_def [symmetric] by blast+
    then show ?thesis using assms(2,3) False by (auto simp: row_source_def surface_byte_def simp flip: p_def q_def)
  qed
qed

text \<open>
  C13. A present with no flip in flight claims the display and stays inside the back buffer. When a row fits in a page and the
  pages of the surface are resident, the rows of the back buffer are those of the surface, and the rows below it are zero. A row that runs into a
  third page is copied from the memory that follows its second page, whatever that memory belongs to.
\<close>

theorem drm_present_copies:
  fixes dd :: drawfs_drm_display and surf :: drawfs_surface
  defines "ds \<equiv> unat (dp_stride_bytes dd)" and "ss \<equiv> unat (sf_stride_bytes surf)" and "H \<equiv> unat (dp_height_px dd)"
    and "h \<equiv> min (unat (sf_height_px surf)) (unat (dp_height_px dd))" and "n \<equiv> min (unat (sf_stride_bytes surf)) (unat (dp_stride_bytes dd))"
  assumes "\<not> dp_flip_pending dd" "dp_back_map dd \<noteq> 0" "sf_vmobj surf = Some obj"
    and "0 < ds" "H * ds \<le> length (vram (dp_back_map dd))" "H * ds < 2 ^ 32" "h * ss < 2 ^ 32"
  shows "\<exists>mem'. present_begin pages dmap surf dd vram =
      Some (Inr (dp_crtc_id dd, dp_back_fb_id dd), dd\<lparr>dp_flip_pending := True\<rparr>, vram(dp_back_map dd := mem')) \<and>
    length mem' = length (vram (dp_back_map dd)) \<and>
    (ss \<le> 4096 \<and> (\<forall>i < h * ss. pages obj (i div 4096) \<noteq> None) \<longrightarrow>
       (\<forall>r < h. \<forall>k < n. mem' ! (r * ds + k) = surface_byte (pages obj) dmap (r * ss + k))) \<and>
    (\<forall>r k. h \<le> r \<and> r < H \<and> k < ds \<longrightarrow> mem' ! (r * ds + k) = 0) \<and>
    (\<forall>r k pa pa2. r < h \<and> k < n \<and> pages obj (r * ss div 4096) = Some pa \<and> pages obj (r * ss div 4096 + 1) = Some pa2 \<and>
         8192 \<le> r * ss mod 4096 + k \<longrightarrow> mem' ! (r * ds + k) = dmap (pa2 + 4096 + (r * ss mod 4096 + k - 8192)))"
proof -
  let ?mem = "vram (dp_back_map dd)"
  have hn: "h \<le> H" "n \<le> ds" "n \<le> ss" by (simp_all add: h_def H_def n_def ds_def ss_def)
  from copy_surface_bytes [of dd ?mem "pages obj" dmap surf, folded ds_def H_def h_def n_def, OF assms(9-11)]
  obtain mem' where m: "copy_surface (pages obj) dmap dd surf ?mem = Some mem'" "length mem' = length ?mem"
    and b: "\<forall>j < length ?mem. mem' ! j = (if j div ds < h then (if j mod ds < n
          then source_byte dmap (row_source (pages obj) (unat (of_nat (j div ds) * sf_stride_bytes surf)) (j mod ds)) (?mem ! j) else ?mem ! j)
        else if j div ds < H then 0 else ?mem ! j)" by blast
  have pos: "r * ds + k < length ?mem \<and> (r * ds + k) div ds = r \<and> (r * ds + k) mod ds = k" if "r < H" "k < ds" for r k
  proof -
    have "(r + 1) * ds \<le> H * ds" using that(1) by (intro mult_right_mono) simp_all
    then show ?thesis using that(2) assms(10) by simp
  qed
  have row: "mem' ! (r * ds + k) = source_byte dmap (row_source (pages obj) (r * ss) k) (?mem ! (r * ds + k))" if "r < h" "k < n" for r k
  proof -
    have "r * ss \<le> h * ss" "r < 2 ^ 32" using that(1) unat_lt_size [of "dp_height_px dd"] hn(1)
      by (auto simp: H_def intro: mult_right_mono)
    then have "unat (of_nat r * sf_stride_bytes surf) = r * ss"
      using assms(12) unat_row [of r "sf_stride_bytes surf"] unfolding ss_def [symmetric] by (meson le_less_trans)
    then show ?thesis using b pos [of r k] that hn by simp
  qed
  have c1: "mem' ! (r * ds + k) = surface_byte (pages obj) dmap (r * ss + k)"
    if "ss \<le> 4096" "\<forall>i < h * ss. pages obj (i div 4096) \<noteq> None" "r < h" "k < n" for r k
  proof -
    have "(r + 1) * ss \<le> h * ss" using that(3) by (intro mult_right_mono) simp_all
    then have "r * ss + k < h * ss" using that(4) hn(3) by simp
    moreover from this have "r * ss < h * ss" by linarith
    ultimately have "pages obj (r * ss div 4096) \<noteq> None" "pages obj ((r * ss + k) div 4096) \<noteq> None" using that(2) by blast+
    then show ?thesis unfolding row [OF that(3,4)] using that(1,4) hn(3) mod_less_divisor [of 4096 "r * ss"]
      by (intro row_source_surface) linarith+
  qed
  have c2: "mem' ! (r * ds + k) = 0" if "h \<le> r \<and> r < H \<and> k < ds" for r k using b pos [of r k] that by simp
  have c3: "mem' ! (r * ds + k) = dmap (pa2 + 4096 + (r * ss mod 4096 + k - 8192))"
    if "r < h" "k < n" "pages obj (r * ss div 4096) = Some pa" "pages obj (r * ss div 4096 + 1) = Some pa2" "8192 \<le> r * ss mod 4096 + k" for r k pa pa2
  proof -
    define q where "q = r * ss mod 4096"
    have e: "pa2 + (q + k - 4096) = pa2 + 4096 + (q + k - 8192)" "\<not> q + k < 4096" using that(5) unfolding q_def [symmetric] by linarith+
    have "row_source (pages obj) (r * ss) k = Phys (pa2 + (q + k - 4096))"
      unfolding row_source_def q_def [symmetric] that(3,4) using e(2) by simp
    then show ?thesis unfolding row [OF that(1,2)] e(1) q_def [symmetric] by simp
  qed
  have "present_begin pages dmap surf dd vram =
      Some (Inr (dp_crtc_id dd, dp_back_fb_id dd), dd\<lparr>dp_flip_pending := True\<rparr>, vram(dp_back_map dd := mem'))"
    using m(1) assms(6-8) by (simp add: present_begin_def)
  then show ?thesis using m(2) c1 c2 c3 by (intro exI [of _ mem'] conjI) blast+
qed

text \<open>A surface of 1920 by 2 pixels on a display of that size: the second row ends in the memory behind the third page.\<close>

definition demo_display :: drawfs_drm_display where
  "demo_display = \<lparr>dp_connector_id = 7, dp_crtc_id = 9, dp_mode_fb_id = 22, dp_back_fb_id = 23, dp_front_handle = 2, dp_back_handle = 3,
     dp_width_px = 1920, dp_height_px = 2, dp_stride_bytes = 7680, dp_front_map = 65536, dp_back_map = 131072, dp_flip_pending = False,
     dp_flip_failure_logged = False, dp_completion_proc = True, dp_completion_run = 1\<rparr>"

definition demo_surface :: drawfs_surface where
  "demo_surface = \<lparr>sf_id = 1, sf_width_px = 1920, sf_height_px = 2, sf_format = DRAWFS_FMT_XRGB8888, sf_stride_bytes = 7680,
     sf_bytes_total = 15360, sf_vmobj = Some 5\<rparr>"

theorem drm_present_copies_witness:
  "\<exists>mem'. present_begin (\<lambda>obj i. Some (8192 * i)) (\<lambda>a. of_nat (a div 4096)) demo_surface demo_display (\<lambda>_. replicate 15360 0) =
      Some (Inr (9, 23), demo_display\<lparr>dp_flip_pending := True\<rparr>, (\<lambda>_. replicate 15360 0)(131072 := mem')) \<and>
    mem' ! (1 * 7680 + 4608) = 5"
proof -
  have f: "unat (dp_stride_bytes demo_display) = 7680" "unat (sf_stride_bytes demo_surface) = 7680" "unat (dp_height_px demo_display) = 2"
    "unat (sf_height_px demo_surface) = 2" "dp_back_map demo_display = 131072" "dp_crtc_id demo_display = 9" "dp_back_fb_id demo_display = 23"
    "\<not> dp_flip_pending demo_display" "dp_back_map demo_display \<noteq> 0" "sf_vmobj demo_surface = Some 5"
    by (simp_all add: demo_display_def demo_surface_def)
  let ?pages = "\<lambda>(obj :: vm_object) i. Some (8192 * i)" and ?dmap = "\<lambda>a. of_nat (a div 4096) :: byte" and ?vram = "\<lambda>_ :: u64. replicate 15360 0 :: buf"
  from drm_present_copies [of demo_display demo_surface 5 ?vram ?pages ?dmap, unfolded f, OF f(8,9) [unfolded f(5)] refl]
  obtain mem' where m: "present_begin ?pages ?dmap demo_surface demo_display ?vram =
      Some (Inr (9, 23), demo_display\<lparr>dp_flip_pending := True\<rparr>, ?vram(131072 := mem'))"
    and c: "\<forall>r k pa pa2. r < min 2 2 \<and> k < min 7680 7680 \<and> Some (8192 * (r * 7680 div 4096)) = Some pa \<and>
         Some (8192 * (r * 7680 div 4096 + 1)) = Some pa2 \<and> 8192 \<le> r * 7680 mod 4096 + k \<longrightarrow>
         mem' ! (r * 7680 + k) = ?dmap (pa2 + 4096 + (r * 7680 mod 4096 + k - 8192))"
    by auto
  from c [rule_format, of 1 4608 8192 16384] have "mem' ! (1 * 7680 + 4608) = 5" by simp
  then show ?thesis using m by blast
qed

section \<open>Concurrent presents\<close>

definition flip_start :: "drawfs_drm_display \<Rightarrow> (u64 \<Rightarrow> buf) \<Rightarrow> flip_sys" where
  "flip_start dd vram = \<lparr>fs_dd = dd, fs_vram = vram, fs_pc = \<lambda>_. PIdle, fs_shown = dp_mode_fb_id dd, fs_flips = 0\<rparr>"

lemma flip_inv_start: "\<not> dp_flip_pending dd \<Longrightarrow> dp_mode_fb_id dd \<noteq> dp_back_fb_id dd \<Longrightarrow> flip_inv (flip_start dd vram)"
  by (simp add: flip_start_def flip_inv_def)

text \<open>
  C14. However the presents of several threads interleave, at most one of them is between its claim and its return; the buffer a present
  copies into is not the one on the screen; and at most one flip ever succeeds, since nothing clears the claim: from then on every present returns 0
  and changes nothing.
\<close>

theorem drm_flip_exclusive:
  assumes "present_step\<^sup>*\<^sup>* (flip_start dd vram) w" "\<not> dp_flip_pending dd" "dp_mode_fb_id dd \<noteq> dp_back_fb_id dd"
  shows "(\<forall>t u. in_flight (fs_pc w t) \<and> in_flight (fs_pc w u) \<longrightarrow> t = u) \<and> fs_flips w \<le> 1 \<and>
    (\<forall>pages dmap surf r dd' vram'. present_begin pages dmap surf (fs_dd w) (fs_vram w) = Some (r, dd', vram') \<longrightarrow>
       (if fs_flips w = 1 then r = Inl 0 \<and> dd' = fs_dd w \<and> vram' = fs_vram w
        else vram' \<noteq> fs_vram w \<longrightarrow> fs_shown w \<noteq> dp_back_fb_id (fs_dd w) \<and> (\<forall>va. va \<noteq> dp_back_map (fs_dd w) \<longrightarrow> vram' va = fs_vram w va)))"
proof -
  have inv: "flip_inv w" using flip_inv_steps [OF assms(1)] flip_inv_start assms(2,3) by blast
  note f = flips_at_most_one [OF inv]
  have "if fs_flips w = 1 then r = Inl 0 \<and> dd' = fs_dd w \<and> vram' = fs_vram w
        else vram' \<noteq> fs_vram w \<longrightarrow> fs_shown w \<noteq> dp_back_fb_id (fs_dd w) \<and> (\<forall>va. va \<noteq> dp_back_map (fs_dd w) \<longrightarrow> vram' va = fs_vram w va)"
    if b: "present_begin pages dmap surf (fs_dd w) (fs_vram w) = Some (r, dd', vram')" for pages dmap surf r dd' vram'
  proof (cases "fs_flips w = 1")
    case True
    then show ?thesis using f b by (simp add: present_begin_def)
  next
    case False
    have "fs_shown w = dp_mode_fb_id (fs_dd w) \<and> dp_mode_fb_id (fs_dd w) \<noteq> dp_back_fb_id (fs_dd w)" if "\<not> dp_flip_pending (fs_dd w)"
      using inv not_in_flight [OF inv that] by (simp add: flip_inv_def)
    then show ?thesis using False present_begin_cases [OF b] by auto
  qed
  moreover have "\<forall>t u. in_flight (fs_pc w t) \<and> in_flight (fs_pc w u) \<longrightarrow> t = u" using inv by (simp add: flip_inv_def)
  ultimately show ?thesis using f by blast
qed

lemma demo_begin: "\<exists>mem'. present_begin (\<lambda>_ _. None) (\<lambda>_. 0) demo_surface demo_display (\<lambda>_. replicate 15360 0) =
    Some (Inr (9, 23), demo_display\<lparr>dp_flip_pending := True\<rparr>, (\<lambda>_. replicate 15360 0)(131072 := mem'))"
  using copy_surface_bytes [of demo_display "replicate 15360 0" "\<lambda>_. None" "\<lambda>_. 0" demo_surface]
  by (auto simp: present_begin_def demo_display_def demo_surface_def)

theorem drm_flip_exclusive_witness:
  "\<exists>w. present_step\<^sup>*\<^sup>* (flip_start demo_display (\<lambda>_. replicate 15360 0)) w \<and> fs_flips w = 1 \<and>
     (\<forall>pages dmap surf r dd' vram'. present_begin pages dmap surf (fs_dd w) (fs_vram w) = Some (r, dd', vram') \<longrightarrow> r = Inl 0)"
proof -
  let ?vram = "\<lambda>_ :: u64. replicate 15360 0 :: buf"
  let ?w0 = "flip_start demo_display ?vram"
  let ?dd = "demo_display\<lparr>dp_flip_pending := True\<rparr>"
  obtain mem' where b: "present_begin (\<lambda>_ _. None) (\<lambda>_. 0) demo_surface demo_display ?vram =
      Some (Inr (9, 23), ?dd, ?vram(131072 := mem'))" using demo_begin by blast
  have f: "fs_dd ?w0 = demo_display" "fs_vram ?w0 = ?vram" "fs_pc ?w0 0 = PIdle" "fs_flips ?w0 = 0" by (simp_all add: flip_start_def)
  let ?w1 = "?w0\<lparr>fs_dd := ?dd, fs_vram := ?vram(131072 := mem'), fs_pc := (fs_pc ?w0)(0 := PClaimed 9 23)\<rparr>"
  let ?w2 = "?w1\<lparr>fs_pc := (fs_pc ?w1)(0 := PFlipped 0), fs_shown := 23, fs_flips := Suc (fs_flips ?w1)\<rparr>"
  have "present_begin (\<lambda>_ _. None) (\<lambda>_. 0) demo_surface (fs_dd ?w0) (fs_vram ?w0) = Some (Inr (9, 23), ?dd, ?vram(131072 := mem'))"
    using b by (simp only: f)
  from begin_step [OF f(3) this] have "present_step ?w0 ?w1" by simp
  moreover have "present_step ?w1 ?w2" by (rule flip_step) simp
  ultimately have "present_step\<^sup>*\<^sup>* ?w0 ?w2" by auto
  moreover have "fs_flips ?w2 = 1" by (simp add: f(4))
  ultimately obtain w where r: "present_step\<^sup>*\<^sup>* ?w0 w" and n: "fs_flips w = 1" by blast
  have d: "\<not> dp_flip_pending demo_display" "dp_mode_fb_id demo_display \<noteq> dp_back_fb_id demo_display" by (simp_all add: demo_display_def)
  have "r' = Inl 0" if "present_begin pages dmap surf (fs_dd w) (fs_vram w) = Some (r', dd', vram')" for pages dmap surf r' dd' vram'
  proof -
    have "if fs_flips w = 1 then r' = Inl 0 \<and> dd' = fs_dd w \<and> vram' = fs_vram w
        else vram' \<noteq> fs_vram w \<longrightarrow> fs_shown w \<noteq> dp_back_fb_id (fs_dd w) \<and> (\<forall>va. va \<noteq> dp_back_map (fs_dd w) \<longrightarrow> vram' va = fs_vram w va)"
      using drm_flip_exclusive [OF r d] that by blast
    then show ?thesis using n by simp
  qed
  then show ?thesis using r n by blast
qed

section \<open>Closing joins the completion thread\<close>

text \<open>
  The descriptor is freed only after the completion thread has left it for good, and a closer that waits can always get to that point.
\<close>

theorem drm_close_joins:
  assumes "join_step\<^sup>*\<^sup>* join_start j"
  shows "(js_closer j = CFreed \<longrightarrow> js_thread j = TExited) \<and> (js_closer j = CJoin \<longrightarrow> (\<exists>k. join_step\<^sup>*\<^sup>* j k \<and> js_closer k = CFreed))"
  using join_inv_steps [OF assms] join_returns by (auto simp: join_inv_def)

theorem drm_close_joins_witness:
  "\<exists>j k. join_step\<^sup>*\<^sup>* join_start j \<and> js_closer j = CJoin \<and> join_step\<^sup>*\<^sup>* j k \<and> js_closer k = CFreed"
proof -
  let ?j = "join_start\<lparr>js_run := 0, js_closer := CJoin\<rparr>"
  have "join_step join_start ?j" by (rule close_request) (simp add: join_start_def)
  then have r: "join_step\<^sup>*\<^sup>* join_start ?j" by blast
  moreover have "js_closer ?j = CJoin" by simp
  ultimately show ?thesis using drm_close_joins [OF r] by blast
qed

section \<open>The backend is never reached\<close>

text \<open>
  The backend name is \<^verbatim>\<open>swap\<close> when the module is loaded, so the card is not opened then, and no later
  write to the control knob, bind or present opens it: the display stays closed and no request reaches the driver.
\<close>

theorem drm_never_opened:
  assumes "drm_op\<^sup>*\<^sup>* (drm_load efifb opened got (drm_boot driver mapdev)) m"
  shows "dg_display m = None \<and> \<not> ds_fp (dg_sys m) \<and> ds_trace (dg_sys m) = []"
  using assms
proof (induction rule: rtranclp_induct)
  case base
  show ?case by (simp add: drm_load_def drm_boot_def is_drm_def)
next
  case (step m m')
  then show ?case using drm_op_closed [of m m'] by simp
qed

theorem drm_never_opened_witness:
  "\<exists>m. drm_op\<^sup>*\<^sup>* (drm_load ENODEV 0 0 (drm_boot demo_driver (\<lambda>_ _ _. 65536))) m \<and> dg_backend m = ''drm'' \<and> dg_display m = None"
proof -
  let ?m0 = "drm_load ENODEV 0 0 (drm_boot demo_driver (\<lambda>_ _ _. 65536))"
  let ?m1 = "?m0\<lparr>dg_backend := ''drm''\<rparr>"
  have "drm_bind 0 ?m1 = Some ?m1"
    by (simp add: drm_bind_def is_drm_def drm_load_def drm_boot_def open_without_card)
  then have "drm_op ?m1 ?m1" by (rule bind_op)
  then have "drm_op\<^sup>*\<^sup>* ?m0 ?m1" using set_backend [of ?m0 "''drm''"] by auto
  then show ?thesis using drm_never_opened [of ENODEV 0 0 demo_driver "\<lambda>_ _ _. 65536" ?m1] by auto
qed

end
