(* ===== verification/Inputfs_State.thy ===== *)
theory Inputfs_State
  imports Awase_Prelude
begin

text \<open>
  The published state region of \<^verbatim>\<open>inputfs.c\<close>: the byte writers and readers, the
  module-global state of the driver, the header and the seqlock counter, the device inventory
  (slot bitmap and 160-byte descriptors) and the pointer position. The spin mutex
  \<^verbatim>\<open>inputfs_state_mtx\<close> serialises every operation here, so each is one function of the
  globals; \<^verbatim>\<open>wakeup\<close> and the notify calls are counted.
\<close>

section \<open>Little-endian access to the published buffers\<close>

definition inputfs_put_u8 :: "buf \<Rightarrow> nat \<Rightarrow> byte \<Rightarrow> buf" where
  "inputfs_put_u8 bs off v = bs[off := v]"

definition inputfs_put_u16le :: "buf \<Rightarrow> nat \<Rightarrow> u16 \<Rightarrow> buf" where
  "inputfs_put_u16le bs off v =
    bs[off + 0 := ucast (v AND 0xff),
       off + 1 := ucast (drop_bit 8 v AND 0xff)]"

definition inputfs_put_u32le :: "buf \<Rightarrow> nat \<Rightarrow> u32 \<Rightarrow> buf" where
  "inputfs_put_u32le bs off v =
    bs[off + 0 := ucast (v AND 0xff),
       off + 1 := ucast (drop_bit 8 v AND 0xff),
       off + 2 := ucast (drop_bit 16 v AND 0xff),
       off + 3 := ucast (drop_bit 24 v AND 0xff)]"

definition inputfs_put_i32le :: "buf \<Rightarrow> nat \<Rightarrow> int \<Rightarrow> buf" where
  "inputfs_put_i32le bs off v = inputfs_put_u32le bs off (of_int v)"

definition inputfs_put_u64le :: "buf \<Rightarrow> nat \<Rightarrow> u64 \<Rightarrow> buf" where
  "inputfs_put_u64le bs off v =
    (let bs = inputfs_put_u32le bs (off + 0) (ucast (v AND 0xffffffff))
     in inputfs_put_u32le bs (off + 4) (ucast (drop_bit 32 v AND 0xffffffff)))"

definition inputfs_get_u32le :: "buf \<Rightarrow> nat \<Rightarrow> u32" where
  "inputfs_get_u32le bs off =
    ucast (bs ! (off + 0)) OR
    push_bit 8 (ucast (bs ! (off + 1))) OR
    push_bit 16 (ucast (bs ! (off + 2))) OR
    push_bit 24 (ucast (bs ! (off + 3)))"

definition inputfs_get_i32le :: "buf \<Rightarrow> nat \<Rightarrow> int" where
  "inputfs_get_i32le bs off = sint (inputfs_get_u32le bs off)"

definition inputfs_get_u64le :: "buf \<Rightarrow> nat \<Rightarrow> u64" where
  "inputfs_get_u64le bs off =
    ucast (inputfs_get_u32le bs (off + 0)) OR push_bit 32 (ucast (inputfs_get_u32le bs (off + 4)))"

text \<open>Inside the buffer, each writer is one \<open>blit\<close> of the little-endian bytes and each
  reader is the little-endian value.\<close>

lemma unat_drop_bit: "unat (drop_bit k (v :: 'a::len word)) = unat v div 2 ^ k"
proof -
  have "unat (drop_bit k v) = drop_bit k (unat v)"
    by (simp add: unsigned_drop_bit_eq take_bit_nat_eq_self [OF unat_lt_size])
  then show ?thesis by (simp only: drop_bit_eq_div)
qed

lemma byte_of_word: "(of_nat (unat v div 2 ^ k) :: byte) = ucast (drop_bit k (v :: 'a::len word) AND 0xff)"
proof -
  have m: "(0xff :: 'a word) = mask 8" by (simp add: mask_eq_exp_minus_1)
  have "unat (ucast (drop_bit k v AND 0xff) :: byte) = unat v div 2 ^ k mod 2 ^ 8"
    unfolding unat_ucast_mod m unat_and_mask unat_drop_bit by simp
  then show ?thesis by (intro word_unat_eq_iff [THEN iffD2]) (simp add: unat_of_nat)
qed

lemma le_of_nat_Suc4: "le_of_nat (Suc (Suc (Suc (Suc 0)))) n
    = [of_nat (n div 2 ^ 0), of_nat (n div 2 ^ 8), of_nat (n div 2 ^ 16), of_nat (n div 2 ^ 24)]"
  by (simp flip: div_mult2_eq)

lemma put16_bytes: "put16 v = [ucast (v AND 0xff), ucast (drop_bit 8 v AND 0xff)]"
proof -
  have "le_of_nat (Suc (Suc 0)) (unat v) = [of_nat (unat v div 2 ^ 0), of_nat (unat v div 2 ^ 8)]"
    by simp
  then have "put16 v = [of_nat (unat v div 2 ^ 0), of_nat (unat v div 2 ^ 8)]"
    by (simp only: put16_def numeral_2_eq_2)
  then show ?thesis by (simp only: byte_of_word drop_bit_0 id_apply)
qed

lemma put32_bytes: "put32 v = [ucast (v AND 0xff), ucast (drop_bit 8 v AND 0xff),
    ucast (drop_bit 16 v AND 0xff), ucast (drop_bit 24 v AND 0xff)]"
proof -
  have "put32 v = le_of_nat (Suc (Suc (Suc (Suc 0)))) (unat v)"
    by (simp only: put32_def numeral_eq_Suc pred_numeral_simps One_nat_def BitM.simps)
  then show ?thesis by (simp only: le_of_nat_Suc4 byte_of_word drop_bit_0 id_apply)
qed

lemma put_u8_blit: "off < length bs \<Longrightarrow> inputfs_put_u8 bs off v = blit bs off [v]"
  by (simp add: inputfs_put_u8_def list_update_blit)

lemma put_u16le_blit: "off + 2 \<le> length bs \<Longrightarrow> inputfs_put_u16le bs off v = blit bs off (put16 v)"
  unfolding inputfs_put_u16le_def put16_bytes
  using blit_blit_adjacent [of off "[a]" "[b]" bs for a b] by (simp add: list_update_blit)

lemma put_u32le_blit: "off + 4 \<le> length bs \<Longrightarrow> inputfs_put_u32le bs off v = blit bs off (put32 v)"
  unfolding inputfs_put_u32le_def put32_bytes
  using blit_blit_adjacent [of off "[a]" "[b]" bs for a b]
    blit_blit_adjacent [of off "[a, b]" "[c]" bs for a b c]
    blit_blit_adjacent [of off "[a, b, c]" "[d]" bs for a b c d]
  by (simp add: list_update_blit numeral_2_eq_2 numeral_3_eq_3)

lemma le_of_nat_append: "le_of_nat (a + b) n = le_of_nat a n @ le_of_nat b (n div 256 ^ a)"
  by (induction a arbitrary: n) (simp_all add: div_mult2_eq)

lemma le_of_nat_mod: "le_of_nat k (n mod 256 ^ k) = le_of_nat k n"
  using le_of_nat_nat_of_le [of "le_of_nat k n" k] by (simp add: nat_of_le_le_of_nat)

lemma put64_halves:
  "put64 v = put32 (ucast (v AND 0xffffffff)) @ put32 (ucast (drop_bit 32 v AND 0xffffffff))"
proof -
  have m: "(0xffffffff :: u64) = mask 32" by (simp add: mask_eq_exp_minus_1)
  have h: "unat (ucast (w AND 0xffffffff) :: u32) = unat w mod 256 ^ 4" for w :: u64
    unfolding unat_ucast_mod m unat_and_mask by simp
  show ?thesis
    using le_of_nat_append [of 4 4 "unat v"]
    by (simp only: put64_def put32_def h unat_drop_bit le_of_nat_mod) simp
qed

lemma put_u64le_blit: "off + 8 \<le> length bs \<Longrightarrow> inputfs_put_u64le bs off v = blit bs off (put64 v)"
  using blit_blit_adjacent [of off "put32 a" "put32 b" bs for a b]
  by (simp add: inputfs_put_u64le_def put_u32le_blit put64_halves del: ucast_bintr)

lemma or_push_bit_add:
  fixes x y :: "'a::len word"
  assumes "unat x < 2 ^ k"
  shows "x OR push_bit k y = x + y * 2 ^ k"
proof -
  have "x = take_bit k x" using assms
    by (intro word_unat_eq_iff [THEN iffD2]) (simp add: unsigned_take_bit_eq take_bit_nat_eq_self)
  then have "\<not> bit x n \<or> \<not> bit (push_bit k y) n" for n
    by (metis bit_push_bit_iff bit_take_bit_iff linorder_not_le)
  then have "x + push_bit k y = x OR push_bit k y" by (rule disjunctive_add)
  then show ?thesis by (simp add: push_bit_eq_mult)
qed

lemma take_drop_4: "off + 4 \<le> length bs \<Longrightarrow>
    take 4 (drop off bs) = [bs ! off, bs ! (off + 1), bs ! (off + 2), bs ! (off + 3)]"
  by (rule nth_equalityI) (auto simp: less_Suc_eq eval_nat_numeral)

lemma take_drop_halves: "take 8 (drop off bs) = take 4 (drop off bs) @ take 4 (drop (off + 4) bs)"
  using take_add [of 4 4 "drop off bs"] by (simp add: add.commute)

lemma nat_of_le_append: "nat_of_le (xs @ ys) = nat_of_le xs + 256 ^ length xs * nat_of_le ys"
  by (induction xs) (simp_all add: algebra_simps)

lemma get_u32le_get32:
  assumes "off + 4 \<le> length bs"
  shows "inputfs_get_u32le bs off = get32 bs off"
proof -
  obtain a b c d where q: "take 4 (drop off bs) = [a, b, c, d]"
    "bs ! off = a" "bs ! (off + 1) = b" "bs ! (off + 2) = c" "bs ! (off + 3) = d"
    using take_drop_4 [OF assms] by blast
  have l: "unat x < 256" for x :: byte using unat_lt_size [of x] by simp
  have p: "x OR push_bit 8 y OR push_bit 16 z OR push_bit 24 w
      = x OR push_bit 8 (y OR push_bit 8 (z OR push_bit 8 w))" for x y z w :: u32
    by (simp add: push_bit_or)
  have u: "unat (ucast x :: u32) < 2 ^ 8" for x :: byte
    using l [of x] by (simp add: unat_ucast_up)
  have "inputfs_get_u32le bs off
      = ucast a + (ucast b + (ucast c + ucast d * 2 ^ 8) * 2 ^ 8) * 2 ^ 8"
    unfolding inputfs_get_u32le_def add_0_right q p
    by (simp only: or_push_bit_add [OF u])
  also have "\<dots> = of_nat (nat_of_le [a, b, c, d])"
    by (simp add: algebra_simps)
  finally show ?thesis by (simp only: get32_def q)
qed

lemma get_u64le_get64:
  assumes "off + 8 \<le> length bs"
  shows "inputfs_get_u64le bs off = get64 bs off"
proof -
  define x y where "x = nat_of_le (take 4 (drop off bs))" and "y = nat_of_le (take 4 (drop (off + 4) bs))"
  have l: "length (take 4 (drop off bs)) = 4" "length (take 4 (drop (off + 4) bs)) = 4"
    using assms by simp_all
  have x: "x < 2 ^ 32" using nat_of_le_less [of "take 4 (drop off bs)"] by (simp only: l x_def) simp
  have y: "y < 2 ^ 32"
    using nat_of_le_less [of "take 4 (drop (off + 4) bs)"] by (simp only: l y_def) simp
  have g: "get32 bs off = of_nat x" "get32 bs (off + 4) = of_nat y"
    by (simp_all add: get32_def x_def y_def)
  have u: "(ucast (of_nat n :: u32) :: u64) = of_nat n" if "n < 2 ^ 32" for n
    using that by (intro word_unat_eq_iff [THEN iffD2]) (simp add: unat_ucast_mod unat_of_nat)
  have "inputfs_get_u64le bs off = of_nat x OR push_bit 32 (of_nat y)"
    using assms by (simp add: inputfs_get_u64le_def get_u32le_get32 g u [OF x] u [OF y])
  also have "\<dots> = of_nat x + of_nat y * 2 ^ 32"
    using x by (intro or_push_bit_add) (simp add: unat_of_nat)
  also have "\<dots> = of_nat (nat_of_le (take 8 (drop off bs)))"
    by (simp only: take_drop_halves nat_of_le_append l x_def y_def) simp
  finally show ?thesis by (simp only: get64_def)
qed

section \<open>The driver's globals\<close>

text \<open>
  The module-global variables of \<^verbatim>\<open>inputfs.c\<close>. The flags are C ints used as booleans; an
  open vnode is the content of its file for the two files the driver writes, and a flag for
  the three it reads. \<open>uptime\<close> is the value of the n-th \<^verbatim>\<open>nanouptime\<close> call, as seconds and
  nanoseconds.
\<close>

record inputfs_globals =
  state_buf :: buf
  state_seq :: u64
  state_slot_used :: u32
  state_dirty :: bool
  state_file :: "buf option"
  events_buf :: buf
  events_writer_seq :: u64
  events_synced :: u64
  events_dirty :: bool
  events_file :: "buf option"
  focus_buf :: buf
  focus_open :: bool
  focus_cache_valid :: bool
  clock_buf :: buf
  clock_open :: bool
  clock_cache_valid :: bool
  smoothing_buf :: buf
  smoothing_open :: bool
  smoothing_cache_valid :: bool
  geom_width :: u32
  geom_height :: u32
  geom_stride :: u32
  geom_bpp :: u32
  geom_known :: bool
  pointer_session_prev :: u32
  kbd_bridge_enabled :: bool
  wakeups :: nat
  notifies :: nat
  uptime :: "nat \<Rightarrow> u64 \<times> u64"
  uptime_reads :: nat

abbreviation (input) INPUTFS_STATE_MAGIC :: u32 where "INPUTFS_STATE_MAGIC \<equiv> 0x494E5354"
abbreviation (input) INPUTFS_STATE_SLOT_COUNT :: nat where "INPUTFS_STATE_SLOT_COUNT \<equiv> 32"
abbreviation (input) INPUTFS_DEV_SLOT_SIZE :: nat where "INPUTFS_DEV_SLOT_SIZE \<equiv> 160"
abbreviation (input) INPUTFS_DEV_OFF :: nat where "INPUTFS_DEV_OFF \<equiv> 64"
abbreviation (input) INPUTFS_KB_OFF :: nat where "INPUTFS_KB_OFF \<equiv> 64 + 32 * 160"
abbreviation (input) INPUTFS_TOUCH_OFF :: nat where "INPUTFS_TOUCH_OFF \<equiv> 64 + 32 * 160 + 32 * 64"
abbreviation (input) INPUTFS_STATE_SIZE :: nat where
  "INPUTFS_STATE_SIZE \<equiv> 64 + 32 * 160 + 32 * 64 + 32 * 128"

abbreviation (input) OFF_MAGIC :: nat where "OFF_MAGIC \<equiv> 0"
abbreviation (input) OFF_VERSION :: nat where "OFF_VERSION \<equiv> 4"
abbreviation (input) OFF_VALID :: nat where "OFF_VALID \<equiv> 5"
abbreviation (input) OFF_SLOT_COUNT :: nat where "OFF_SLOT_COUNT \<equiv> 6"
abbreviation (input) OFF_SEQLOCK :: nat where "OFF_SEQLOCK \<equiv> 8"
abbreviation (input) OFF_LAST_SEQ :: nat where "OFF_LAST_SEQ \<equiv> 16"
abbreviation (input) OFF_BOOT_OFFSET :: nat where "OFF_BOOT_OFFSET \<equiv> 24"
abbreviation (input) OFF_PTR_X :: nat where "OFF_PTR_X \<equiv> 32"
abbreviation (input) OFF_PTR_Y :: nat where "OFF_PTR_Y \<equiv> 36"
abbreviation (input) OFF_PTR_BUTTONS :: nat where "OFF_PTR_BUTTONS \<equiv> 40"
abbreviation (input) OFF_DEVICE_COUNT :: nat where "OFF_DEVICE_COUNT \<equiv> 44"
abbreviation (input) OFF_TOUCH_COUNT :: nat where "OFF_TOUCH_COUNT \<equiv> 46"
abbreviation (input) OFF_TRANSFORM_ACTIVE :: nat where "OFF_TRANSFORM_ACTIVE \<equiv> 48"

abbreviation (input) DEV_OFF_DEVICE_ID :: nat where "DEV_OFF_DEVICE_ID \<equiv> 0"
abbreviation (input) DEV_OFF_IDENTITY_HASH :: nat where "DEV_OFF_IDENTITY_HASH \<equiv> 16"
abbreviation (input) DEV_OFF_ROLES :: nat where "DEV_OFF_ROLES \<equiv> 32"
abbreviation (input) DEV_OFF_USB_VENDOR :: nat where "DEV_OFF_USB_VENDOR \<equiv> 36"
abbreviation (input) DEV_OFF_USB_PRODUCT :: nat where "DEV_OFF_USB_PRODUCT \<equiv> 38"
abbreviation (input) DEV_OFF_NAME :: nat where "DEV_OFF_NAME \<equiv> 40"
abbreviation (input) DEV_OFF_LIGHTING_CAPS :: nat where "DEV_OFF_LIGHTING_CAPS \<equiv> 104"

abbreviation (input) INPUTFS_NO_STATE_SLOT :: byte where "INPUTFS_NO_STATE_SLOT \<equiv> 0xff"

section \<open>Header, seqlock, dirty flag\<close>

definition inputfs_state_init_buf :: "buf \<Rightarrow> buf" where
  "inputfs_state_init_buf bs =
    (let bs = blit bs 0 (replicate INPUTFS_STATE_SIZE 0);
         bs = inputfs_put_u32le bs OFF_MAGIC INPUTFS_STATE_MAGIC;
         bs = inputfs_put_u8 bs OFF_VERSION 1;
         bs = inputfs_put_u8 bs OFF_VALID 0;
         bs = inputfs_put_u16le bs OFF_SLOT_COUNT 32;
         bs = inputfs_put_u32le bs OFF_SEQLOCK 0;
         bs = inputfs_put_u64le bs OFF_LAST_SEQ 0
     in inputfs_put_u64le bs OFF_BOOT_OFFSET 0)"

definition inputfs_state_seqlock_begin :: "inputfs_globals \<Rightarrow> inputfs_globals" where
  "inputfs_state_seqlock_begin g =
    (let cur = inputfs_get_u32le (state_buf g) OFF_SEQLOCK
     in g\<lparr>state_buf := inputfs_put_u32le (state_buf g) OFF_SEQLOCK (cur + 1)\<rparr>)"

definition inputfs_state_seqlock_end :: "inputfs_globals \<Rightarrow> inputfs_globals" where
  "inputfs_state_seqlock_end g =
    (let cur = inputfs_get_u32le (state_buf g) OFF_SEQLOCK
     in g\<lparr>state_buf := inputfs_put_u32le (state_buf g) OFF_SEQLOCK (cur + 1)\<rparr>)"

definition inputfs_state_mark_dirty :: "inputfs_globals \<Rightarrow> inputfs_globals" where
  "inputfs_state_mark_dirty g = g\<lparr>state_dirty := True, wakeups := wakeups g + 1\<rparr>"

definition inputfs_state_advance_seq :: "inputfs_globals \<Rightarrow> inputfs_globals" where
  "inputfs_state_advance_seq g =
    (let seq = state_seq g + 1
     in g\<lparr>state_seq := seq, state_buf := inputfs_put_u64le (state_buf g) OFF_LAST_SEQ seq\<rparr>)"

section \<open>The device inventory\<close>

text \<open>The first clear bit of the bitmap from \<open>i\<close> on, marked used, or the sentinel.\<close>

function alloc_slot_from :: "nat \<Rightarrow> inputfs_globals \<Rightarrow> byte \<times> inputfs_globals" where
  "alloc_slot_from i g =
    (if INPUTFS_STATE_SLOT_COUNT \<le> i then (INPUTFS_NO_STATE_SLOT, g)
     else if state_slot_used g AND push_bit i 1 = 0
       then (of_nat i, g\<lparr>state_slot_used := state_slot_used g OR push_bit i 1\<rparr>)
     else alloc_slot_from (i + 1) g)"
  by pat_completeness auto
termination by (relation "measure (\<lambda>(i, _). 32 - i)") auto

declare alloc_slot_from.simps [simp del]

definition inputfs_state_alloc_slot :: "inputfs_globals \<Rightarrow> byte \<times> inputfs_globals" where
  "inputfs_state_alloc_slot g = alloc_slot_from 0 g"

definition inputfs_state_release_slot :: "byte \<Rightarrow> inputfs_globals \<Rightarrow> inputfs_globals" where
  "inputfs_state_release_slot slot g =
    (if unat slot < INPUTFS_STATE_SLOT_COUNT
     then g\<lparr>state_slot_used := state_slot_used g AND NOT (push_bit (unat slot) 1)\<rparr> else g)"

function count_mask :: "u16 \<Rightarrow> u32 \<Rightarrow> u16" where
  "count_mask count m =
    (if m = 0 then count else count_mask (count + ucast (m AND 1)) (drop_bit 1 m))"
  by pat_completeness auto
termination
proof (relation "measure (\<lambda>(_, m). unat m)")
  fix count :: u16 and m :: u32
  assume "m \<noteq> 0"
  then have "unat m \<noteq> 0" by (simp add: unat_eq_zero)
  then show "((count + ucast (m AND 1), drop_bit 1 m), count, m) \<in> measure (\<lambda>(_, m). unat m)"
    by (simp add: unat_drop_bit [of 1, simplified] del: drop_bit_Suc)
qed simp

declare count_mask.simps [simp del]

definition inputfs_state_count_devices :: "inputfs_globals \<Rightarrow> u16" where
  "inputfs_state_count_devices g = count_mask 0 (state_slot_used g)"

text \<open>
  What the bus framework answers about a device: its unit number, the USB vendor and product
  of \<^verbatim>\<open>hid_get_device_info\<close> when it returns a structure, and the bytes of the
  description string of \<^verbatim>\<open>device_get_desc\<close> without its terminator.
\<close>

record device =
  dev_unit :: u32
  dev_info :: "(u16 \<times> u16) option"
  dev_desc :: "buf option"

definition inputfs_state_put_device :: "byte \<Rightarrow> device \<Rightarrow> byte \<Rightarrow> inputfs_globals \<Rightarrow> inputfs_globals" where
  "inputfs_state_put_device slot dev roles g =
    (if INPUTFS_STATE_SLOT_COUNT \<le> unat slot then g
     else
       let base = INPUTFS_DEV_OFF + unat slot * INPUTFS_DEV_SLOT_SIZE;
           bs = blit (state_buf g) (base + DEV_OFF_DEVICE_ID) (replicate 16 0);
           bs = bs[base + DEV_OFF_DEVICE_ID + 0 := 0x01];
           bs = bs[base + DEV_OFF_DEVICE_ID + 1 := ucast (dev_unit dev AND 0xff)];
           bs = blit bs (base + DEV_OFF_IDENTITY_HASH) (replicate 16 0);
           bs = inputfs_put_u32le bs (base + DEV_OFF_ROLES) (ucast roles);
           bs = (case dev_info dev of
               Some (vendor, product) \<Rightarrow>
                 inputfs_put_u16le (inputfs_put_u16le bs (base + DEV_OFF_USB_VENDOR) vendor)
                   (base + DEV_OFF_USB_PRODUCT) product
             | None \<Rightarrow>
                 inputfs_put_u16le (inputfs_put_u16le bs (base + DEV_OFF_USB_VENDOR) 0)
                   (base + DEV_OFF_USB_PRODUCT) 0);
           bs = blit bs (base + DEV_OFF_NAME) (replicate 64 0);
           bs = (case dev_desc dev of
               Some desc \<Rightarrow>
                 if desc = [] then bs else blit bs (base + DEV_OFF_NAME) (take 63 desc)
             | None \<Rightarrow> bs);
           bs = blit bs (base + DEV_OFF_LIGHTING_CAPS) (replicate 56 0)
       in g\<lparr>state_buf := bs\<rparr>)"

definition inputfs_state_clear_device :: "byte \<Rightarrow> inputfs_globals \<Rightarrow> inputfs_globals" where
  "inputfs_state_clear_device slot g =
    (if INPUTFS_STATE_SLOT_COUNT \<le> unat slot then g
     else g\<lparr>state_buf := blit (state_buf g)
       (INPUTFS_DEV_OFF + unat slot * INPUTFS_DEV_SLOT_SIZE) (replicate INPUTFS_DEV_SLOT_SIZE 0)\<rparr>)"

section \<open>The pointer\<close>

definition clamp_to :: "u32 \<Rightarrow> int \<Rightarrow> int" where
  "clamp_to extent v =
    (if v < 0 then 0
     else if extent \<le> (of_int v :: u32) then sint (extent - 1)
     else v)"

text \<open>Returns the deltas after the edge clamp and the updated globals.\<close>

definition inputfs_state_update_pointer ::
  "int \<Rightarrow> int \<Rightarrow> u32 \<Rightarrow> inputfs_globals \<Rightarrow> (int \<times> int) \<times> inputfs_globals" where
  "inputfs_state_update_pointer dx dy buttons g =
    (let cur_x = inputfs_get_i32le (state_buf g) OFF_PTR_X;
         cur_y = inputfs_get_i32le (state_buf g) OFF_PTR_Y;
         new_x = wrap32 (cur_x + dx);
         new_y = wrap32 (cur_y + dy);
         new_x = (if geom_known g then clamp_to (geom_width g) new_x else new_x);
         new_y = (if geom_known g then clamp_to (geom_height g) new_y else new_y);
         bs = inputfs_put_i32le (state_buf g) OFF_PTR_X new_x;
         bs = inputfs_put_i32le bs OFF_PTR_Y new_y;
         bs = inputfs_put_u32le bs OFF_PTR_BUTTONS buttons
     in ((wrap32 (new_x - cur_x), wrap32 (new_y - cur_y)), g\<lparr>state_buf := bs\<rparr>))"

definition inputfs_state_apply_geom :: "inputfs_globals \<Rightarrow> inputfs_globals" where
  "inputfs_state_apply_geom g =
    (if geom_known g then
       let bs = inputfs_put_u8 (state_buf g) OFF_TRANSFORM_ACTIVE 1;
           bs = inputfs_put_i32le bs OFF_PTR_X (sint (geom_width g div 2));
           bs = inputfs_put_i32le bs OFF_PTR_Y (sint (geom_height g div 2))
       in g\<lparr>state_buf := bs\<rparr>
     else g\<lparr>state_buf := inputfs_put_u8 (state_buf g) OFF_TRANSFORM_ACTIVE 0\<rparr>)"

end
