(* ===== verification/Event_Ring.thy ===== *)
theory Event_Ring
  imports Awase_Prelude
begin

text \<open>
  The contract of the event rings the drivers publish: a bounded window onto an append-only
  log. A publication appends one event; a sequence number from the window reads the event
  of that number, and one from outside it reads nothing. The lemmas are the reader's side:
  what a consumer that polls the ring receives.
\<close>

section \<open>The slots of a ring\<close>

text \<open>
  \<open>slot_owner w k q\<close> is the last of the events \<open>1\<close> to \<open>k\<close> whose slot is \<open>q\<close>, or 0, when event
  \<open>s\<close> goes to slot \<open>s mod w\<close>.
\<close>

fun slot_owner :: "nat \<Rightarrow> nat \<Rightarrow> nat \<Rightarrow> nat" where
  "slot_owner w 0 q = 0"
| "slot_owner w (Suc k) q = (if Suc k mod w = q then Suc k else slot_owner w k q)"

lemma slot_owner_le: "slot_owner w k q \<le> k"
  by (induction k) auto

lemma slot_owner_mono: "j \<le> k \<Longrightarrow> slot_owner w j q \<le> slot_owner w k q"
proof (induction k)
  case (Suc k)
  then show ?case using slot_owner_le [of w j q] by (cases "j = Suc k") auto
qed simp

lemma slot_owner_mod: "slot_owner w k q \<noteq> 0 \<Longrightarrow> slot_owner w k q mod w = q"
  by (induction k) (auto split: if_splits)

lemma slot_owner_recent: "0 < s \<Longrightarrow> s \<le> k \<Longrightarrow> k < s + w \<Longrightarrow> slot_owner w k (s mod w) = s"
proof (induction k)
  case (Suc k)
  show ?case
  proof (cases "s = Suc k")
    case False
    have "Suc k mod w \<noteq> s mod w"
    proof
      assume "Suc k mod w = s mod w"
      then have "w dvd Suc k - s" using mod_eq_dvd_iff_nat [of s "Suc k" w] Suc.prems by simp
      then show False using Suc.prems False by (auto dest!: dvd_imp_le)
    qed
    then show ?thesis using Suc False by simp
  qed simp
qed simp

lemma slot_owner_step: "n \<noteq> 0 \<Longrightarrow> q \<noteq> n mod w \<Longrightarrow> slot_owner w n q = slot_owner w (n - 1) q"
  by (cases n) auto

lemma slot_owner_current: "n \<noteq> 0 \<Longrightarrow> slot_owner w n (n mod w) = n"
  by (cases n) auto

lemma slot_owner_old: "0 < s \<Longrightarrow> 0 < w \<Longrightarrow> s + w \<le> k \<Longrightarrow> slot_owner w k (s mod w) \<noteq> s"
proof -
  assume a: "0 < s" "0 < w" "s + w \<le> k"
  have "slot_owner w (s + w) (s mod w) = s + w" using slot_owner_current [of "s + w" w] a by simp
  then show ?thesis using slot_owner_mono [OF a(3), of w "s mod w"] a(2) by simp
qed

section \<open>The contract\<close>

locale event_ring =
  fixes ok :: "'r \<Rightarrow> 'e list \<Rightarrow> bool"
    and publish :: "'a \<Rightarrow> 'r \<Rightarrow> 'r"
    and recorded :: "'a \<Rightarrow> 'r \<Rightarrow> 'e"
    and read :: "'r \<Rightarrow> nat \<Rightarrow> 'e option"
    and wseq :: "'r \<Rightarrow> nat"
    and eseq :: "'r \<Rightarrow> nat"
    and window :: nat
    and limit :: nat
  assumes window_pos: "0 < window"
    and ok_publish: "ok r h \<Longrightarrow> length h + 1 < limit \<Longrightarrow> ok (publish a r) (h @ [recorded a r])"
    and ok_wseq: "ok r h \<Longrightarrow> wseq r = length h"
    and ok_eseq: "ok r h \<Longrightarrow> eseq r = max 1 (length h + 1 - window)"
    and ok_read: "ok r h \<Longrightarrow> 0 < s \<Longrightarrow> s \<le> length h \<Longrightarrow> length h < s + window \<Longrightarrow>
      read r s = Some (h ! (s - 1))"
    and ok_stale: "ok r h \<Longrightarrow> 0 < s \<Longrightarrow> length h < s \<or> s + window \<le> length h \<Longrightarrow> read r s = None"
begin

primrec recorded_all :: "'a list \<Rightarrow> 'r \<Rightarrow> 'e list" where
  "recorded_all [] r = []"
| "recorded_all (a # as) r = recorded a r # recorded_all as (publish a r)"

text \<open>A consumer that has seen the first \<open>k\<close> events reads on from the oldest still there.\<close>

definition catch_up :: "'r \<Rightarrow> nat \<Rightarrow> 'e list" where
  "catch_up r k = map (\<lambda>s. the (read r s)) [max (k + 1) (eseq r)..<wseq r + 1]"

lemma length_recorded_all [simp]: "length (recorded_all as r) = length as"
  by (induction as arbitrary: r) auto

lemma ok_publish_all:
  "ok r h \<Longrightarrow> length h + length as < limit \<Longrightarrow> ok (fold publish as r) (h @ recorded_all as r)"
proof (induction as arbitrary: r h)
  case (Cons a as)
  have "ok (publish a r) (h @ [recorded a r])" using Cons.prems by (intro ok_publish) auto
  from Cons.IH [OF this] Cons.prems(2) show ?case by simp
qed simp

lemma read_iff:
  assumes "ok r h" "0 < s"
  shows "read r s \<noteq> None \<longleftrightarrow> eseq r \<le> s \<and> s \<le> wseq r"
proof (cases "s \<le> length h \<and> length h < s + window")
  case True
  then show ?thesis using ok_read [OF assms] ok_wseq [OF assms(1)] ok_eseq [OF assms(1)] assms(2) by auto
next
  case False
  then have "read r s = None" using ok_stale [OF assms] by auto
  then show ?thesis using False ok_wseq [OF assms(1)] ok_eseq [OF assms(1)] by auto
qed

lemma catch_up_eq:
  assumes "ok r h" "k \<le> length h"
  shows "catch_up r k = drop (max k (length h - window)) h"
proof (rule nth_equalityI)
  let ?d = "max k (length h - window)"
  have lo: "max (k + 1) (eseq r) = ?d + 1" using ok_eseq [OF assms(1)] by auto
  show l: "length (catch_up r k) = length (drop ?d h)"
    unfolding catch_up_def lo ok_wseq [OF assms(1)] by (simp del: upt_Suc)
  fix i assume "i < length (catch_up r k)"
  then have i: "i < length h - ?d" using l by simp
  have "read r (?d + 1 + i) = Some (h ! (?d + i))"
    using ok_read [OF assms(1), of "?d + 1 + i"] i by simp
  then show "catch_up r k ! i = drop ?d h ! i"
    unfolding catch_up_def lo ok_wseq [OF assms(1)] using i by (simp del: upt_Suc)
qed

text \<open>A consumer that is up to date and polls before the window is full misses nothing.\<close>

lemma catch_up_complete:
  assumes "ok r h" "length h + length as < limit" "length as \<le> window"
  shows "catch_up (fold publish as r) (length h) = recorded_all as r"
proof -
  have ok: "ok (fold publish as r) (h @ recorded_all as r)" by (rule ok_publish_all [OF assms(1,2)])
  have "catch_up (fold publish as r) (length h)
      = drop (max (length h) (length (h @ recorded_all as r) - window)) (h @ recorded_all as r)"
    by (rule catch_up_eq [OF ok]) simp
  moreover have "max (length h) (length (h @ recorded_all as r) - window) = length h"
    using assms(3) by auto
  ultimately show ?thesis by simp
qed

end

end
