(* ===== verification/Inputfs_Events.thy ===== *)
theory Inputfs_Events
  imports Inputfs_State Event_Ring
begin

text \<open>
  The event ring of \<^verbatim>\<open>inputfs.c\<close>: 1024 slots of 64 bytes behind a 64-byte header.
  \<open>inputfs_events_publish\<close> is the whole publication as one function of the globals; the
  writer's stores are also given one at a time, as a step relation, because readers map the
  ring and look at it between any two of them.
\<close>

section \<open>Layout\<close>

abbreviation (input) INPUTFS_EVENTS_MAGIC :: u32 where "INPUTFS_EVENTS_MAGIC \<equiv> 0x494E5645"
abbreviation (input) INPUTFS_EVENTS_HEADER_SIZE :: nat where "INPUTFS_EVENTS_HEADER_SIZE \<equiv> 64"
abbreviation (input) INPUTFS_EVENTS_SLOT_SIZE :: nat where "INPUTFS_EVENTS_SLOT_SIZE \<equiv> 64"
abbreviation (input) INPUTFS_EVENTS_SLOT_COUNT :: nat where "INPUTFS_EVENTS_SLOT_COUNT \<equiv> 1024"
abbreviation (input) INPUTFS_EVENTS_SIZE :: nat where "INPUTFS_EVENTS_SIZE \<equiv> 64 + 1024 * 64"

abbreviation (input) EV_OFF_MAGIC :: nat where "EV_OFF_MAGIC \<equiv> 0"
abbreviation (input) EV_OFF_VERSION :: nat where "EV_OFF_VERSION \<equiv> 4"
abbreviation (input) EV_OFF_VALID :: nat where "EV_OFF_VALID \<equiv> 5"
abbreviation (input) EV_OFF_EVENT_SIZE :: nat where "EV_OFF_EVENT_SIZE \<equiv> 6"
abbreviation (input) EV_OFF_SLOT_COUNT :: nat where "EV_OFF_SLOT_COUNT \<equiv> 8"
abbreviation (input) EV_OFF_WRITER_SEQ :: nat where "EV_OFF_WRITER_SEQ \<equiv> 16"
abbreviation (input) EV_OFF_EARLIEST_SEQ :: nat where "EV_OFF_EARLIEST_SEQ \<equiv> 24"

abbreviation (input) EV_SLOT_OFF_SEQ :: nat where "EV_SLOT_OFF_SEQ \<equiv> 0"
abbreviation (input) EV_SLOT_OFF_TS_ORDERING :: nat where "EV_SLOT_OFF_TS_ORDERING \<equiv> 8"
abbreviation (input) EV_SLOT_OFF_TS_SYNC :: nat where "EV_SLOT_OFF_TS_SYNC \<equiv> 16"
abbreviation (input) EV_SLOT_OFF_DEVICE_SLOT :: nat where "EV_SLOT_OFF_DEVICE_SLOT \<equiv> 24"
abbreviation (input) EV_SLOT_OFF_SOURCE_ROLE :: nat where "EV_SLOT_OFF_SOURCE_ROLE \<equiv> 26"
abbreviation (input) EV_SLOT_OFF_EVENT_TYPE :: nat where "EV_SLOT_OFF_EVENT_TYPE \<equiv> 27"
abbreviation (input) EV_SLOT_OFF_FLAGS :: nat where "EV_SLOT_OFF_FLAGS \<equiv> 28"
abbreviation (input) EV_SLOT_OFF_PAYLOAD :: nat where "EV_SLOT_OFF_PAYLOAD \<equiv> 32"

section \<open>The cached clock\<close>

abbreviation (input) INPUTFS_CLOCK_MAGIC :: u32 where "INPUTFS_CLOCK_MAGIC \<equiv> 0x534D434B"
abbreviation (input) INPUTFS_CLOCK_SIZE :: nat where "INPUTFS_CLOCK_SIZE \<equiv> 20"
abbreviation (input) CLK_OFF_MAGIC :: nat where "CLK_OFF_MAGIC \<equiv> 0"
abbreviation (input) CLK_OFF_VERSION :: nat where "CLK_OFF_VERSION \<equiv> 4"
abbreviation (input) CLK_OFF_VALID :: nat where "CLK_OFF_VALID \<equiv> 5"
abbreviation (input) CLK_OFF_SAMPLES :: nat where "CLK_OFF_SAMPLES \<equiv> 12"

definition inputfs_clock_samples_now :: "inputfs_globals \<Rightarrow> u64" where
  "inputfs_clock_samples_now g =
    (if \<not> clock_cache_valid g then 0 else inputfs_get_u64le (clock_buf g) CLK_OFF_SAMPLES)"

section \<open>Publication\<close>

definition inputfs_events_init_buf :: "buf \<Rightarrow> buf" where
  "inputfs_events_init_buf bs =
    (let bs = blit bs 0 (replicate INPUTFS_EVENTS_SIZE 0);
         bs = inputfs_put_u32le bs EV_OFF_MAGIC INPUTFS_EVENTS_MAGIC;
         bs = inputfs_put_u8 bs EV_OFF_VERSION 1;
         bs = inputfs_put_u8 bs EV_OFF_VALID 0;
         bs = inputfs_put_u16le bs EV_OFF_EVENT_SIZE 64;
         bs = inputfs_put_u32le bs EV_OFF_SLOT_COUNT 1024;
         bs = inputfs_put_u64le bs EV_OFF_WRITER_SEQ 0
     in inputfs_put_u64le bs EV_OFF_EARLIEST_SEQ 1)"

text \<open>A store that other processors see whole.\<close>

definition atomic_store_rel_64 :: "buf \<Rightarrow> nat \<Rightarrow> u64 \<Rightarrow> buf" where
  "atomic_store_rel_64 bs off v = blit bs off (put64 v)"

text \<open>\<open>payload\<close> is \<open>None\<close> for a null pointer; the two wakes at the end are
  \<^verbatim>\<open>wakeup\<close> of the worker and \<^verbatim>\<open>selwakeup\<close> with \<^verbatim>\<open>KNOTE\<close> of the pollers.\<close>

definition inputfs_events_publish ::
  "byte \<Rightarrow> byte \<Rightarrow> u16 \<Rightarrow> u32 \<Rightarrow> buf option \<Rightarrow> nat \<Rightarrow> inputfs_globals \<Rightarrow> inputfs_globals" where
  "inputfs_events_publish source_role event_type device_slot flags payload payload_len g =
    (let new_seq = events_writer_seq g + 1;
         slot_idx = unat (new_seq AND 1023);
         slot_base = INPUTFS_EVENTS_HEADER_SIZE + slot_idx * INPUTFS_EVENTS_SLOT_SIZE;
         bs = atomic_store_rel_64 (events_buf g) (slot_base + EV_SLOT_OFF_SEQ) 0;
         (tv_sec, tv_nsec) = uptime g (uptime_reads g);
         bs = inputfs_put_u64le bs (slot_base + EV_SLOT_OFF_TS_ORDERING) (tv_sec * 1000000000 + tv_nsec);
         bs = inputfs_put_u64le bs (slot_base + EV_SLOT_OFF_TS_SYNC) (inputfs_clock_samples_now g);
         bs = inputfs_put_u16le bs (slot_base + EV_SLOT_OFF_DEVICE_SLOT) device_slot;
         bs = inputfs_put_u8 bs (slot_base + EV_SLOT_OFF_SOURCE_ROLE) source_role;
         bs = inputfs_put_u8 bs (slot_base + EV_SLOT_OFF_EVENT_TYPE) event_type;
         bs = inputfs_put_u32le bs (slot_base + EV_SLOT_OFF_FLAGS) flags;
         bs = blit bs (slot_base + EV_SLOT_OFF_PAYLOAD) (replicate 32 0);
         bs = (case payload of
             None \<Rightarrow> bs
           | Some p \<Rightarrow>
               if payload_len = 0 then bs
               else blit bs (slot_base + EV_SLOT_OFF_PAYLOAD)
                 (take (if 32 < payload_len then 32 else payload_len) p));
         bs = atomic_store_rel_64 bs (slot_base + EV_SLOT_OFF_SEQ) new_seq;
         bs = atomic_store_rel_64 bs EV_OFF_WRITER_SEQ new_seq;
         bs = (if 1024 < new_seq
           then atomic_store_rel_64 bs EV_OFF_EARLIEST_SEQ (new_seq - 1024 + 1) else bs)
     in g\<lparr>events_buf := bs, events_writer_seq := new_seq, events_dirty := True,
          wakeups := wakeups g + 1, notifies := notifies g + 1,
          uptime_reads := uptime_reads g + 1\<rparr>)"

definition inputfs_notify_filt_event :: "u64 \<Rightarrow> inputfs_globals \<Rightarrow> bool" where
  "inputfs_notify_filt_event kn_data g = (kn_data < get64 (events_buf g) EV_OFF_WRITER_SEQ)"

section \<open>Events as readers decode them\<close>

record ring_event =
  ev_ts_ordering :: u64
  ev_ts_sync :: u64
  ev_device_slot :: u16
  ev_source_role :: byte
  ev_event_type :: byte
  ev_flags :: u32
  ev_payload :: buf

abbreviation slot_base :: "nat \<Rightarrow> nat" where "slot_base q \<equiv> 64 + q * 64"

definition slot_seq :: "buf \<Rightarrow> nat \<Rightarrow> nat" where "slot_seq bs q = unat (get64 bs (slot_base q))"

definition slot_event :: "buf \<Rightarrow> nat \<Rightarrow> ring_event" where
  "slot_event bs q =
    \<lparr>ev_ts_ordering = get64 bs (slot_base q + 8), ev_ts_sync = get64 bs (slot_base q + 16),
     ev_device_slot = get16 bs (slot_base q + 24), ev_source_role = bs ! (slot_base q + 26),
     ev_event_type = bs ! (slot_base q + 27), ev_flags = get32 bs (slot_base q + 28),
     ev_payload = field (slot_base q + 32) 32 bs\<rparr>"

text \<open>The payload field after the zero fill and the copy.\<close>

definition padded :: "buf option \<Rightarrow> nat \<Rightarrow> buf" where
  "padded payload n = (case payload of
      None \<Rightarrow> replicate 32 0
    | Some p \<Rightarrow> blit (replicate 32 0) 0 (take (min 32 n) p))"

definition published_event ::
  "byte \<Rightarrow> byte \<Rightarrow> u16 \<Rightarrow> u32 \<Rightarrow> buf option \<Rightarrow> nat \<Rightarrow> inputfs_globals \<Rightarrow> ring_event" where
  "published_event source_role event_type device_slot flags payload n g =
    (let (s, ns) = uptime g (uptime_reads g)
     in \<lparr>ev_ts_ordering = s * 1000000000 + ns, ev_ts_sync = inputfs_clock_samples_now g,
         ev_device_slot = device_slot, ev_source_role = source_role, ev_event_type = event_type,
         ev_flags = flags, ev_payload = padded payload n\<rparr>)"

section \<open>The writer one store at a time\<close>

text \<open>
  The stores that fill the body of slot \<open>q\<close>, a byte at a time except where the C code fills
  a field with one \<^verbatim>\<open>memset\<close> or \<^verbatim>\<open>memcpy\<close>, which are split into bytes as well; and the
  header stores after the commit.
\<close>

definition byte_stores :: "nat \<Rightarrow> buf \<Rightarrow> (nat \<times> byte) list" where
  "byte_stores off src = zip [off..<off + length src] src"

definition body_stores :: "nat \<Rightarrow> ring_event \<Rightarrow> (nat \<times> byte) list" where
  "body_stores q e =
     byte_stores (slot_base q + 8) (put64 (ev_ts_ordering e)) @
     byte_stores (slot_base q + 16) (put64 (ev_ts_sync e)) @
     byte_stores (slot_base q + 24) (put16 (ev_device_slot e)) @
     byte_stores (slot_base q + 26) [ev_source_role e] @
     byte_stores (slot_base q + 27) [ev_event_type e] @
     byte_stores (slot_base q + 28) (put32 (ev_flags e)) @
     byte_stores (slot_base q + 32) (replicate 32 0) @
     byte_stores (slot_base q + 32) (ev_payload e)"

definition run_stores :: "(nat \<times> byte) list \<Rightarrow> buf \<Rightarrow> buf" where
  "run_stores = fold (\<lambda>(i, b) bs. bs[i := b])"

text \<open>Where the writer stands inside a publication.\<close>

datatype writer_pc =
    Idle
  | Invalidate
  | Body "(nat \<times> byte) list"
  | Commit
  | Writer_seq
  | Earliest_seq

text \<open>The ring, the events whose publication has begun, oldest first, and the position.\<close>

record ring_run =
  rr_buf :: buf
  rr_hist :: "ring_event list"
  rr_pc :: writer_pc

abbreviation cur_seq :: "ring_run \<Rightarrow> nat" where "cur_seq r \<equiv> length (rr_hist r)"
abbreviation cur_slot :: "ring_run \<Rightarrow> nat" where "cur_slot r \<equiv> length (rr_hist r) mod 1024"

inductive ring_step :: "ring_run \<Rightarrow> ring_run \<Rightarrow> bool" where
  begin_publish: "rr_pc r = Idle \<Longrightarrow> cur_seq r + 1 < 2 ^ 64 \<Longrightarrow> length (ev_payload e) = 32 \<Longrightarrow>
    ring_step r (r\<lparr>rr_hist := rr_hist r @ [e], rr_pc := Invalidate\<rparr>)"
| invalidate: "rr_pc r = Invalidate \<Longrightarrow>
    ring_step r (r\<lparr>rr_buf := atomic_store_rel_64 (rr_buf r) (slot_base (cur_slot r)) 0,
                   rr_pc := Body (body_stores (cur_slot r) (last (rr_hist r)))\<rparr>)"
| body_store: "rr_pc r = Body ((i, b) # todo) \<Longrightarrow>
    ring_step r (r\<lparr>rr_buf := (rr_buf r)[i := b], rr_pc := Body todo\<rparr>)"
| body_done: "rr_pc r = Body [] \<Longrightarrow> ring_step r (r\<lparr>rr_pc := Commit\<rparr>)"
| commit: "rr_pc r = Commit \<Longrightarrow>
    ring_step r (r\<lparr>rr_buf := atomic_store_rel_64 (rr_buf r) (slot_base (cur_slot r)) (of_nat (cur_seq r)),
                   rr_pc := Writer_seq\<rparr>)"
| writer_seq: "rr_pc r = Writer_seq \<Longrightarrow>
    ring_step r (r\<lparr>rr_buf := atomic_store_rel_64 (rr_buf r) EV_OFF_WRITER_SEQ (of_nat (cur_seq r)),
                   rr_pc := Earliest_seq\<rparr>)"
| earliest_seq: "rr_pc r = Earliest_seq \<Longrightarrow>
    ring_step r (r\<lparr>rr_buf :=
        (if 1024 < cur_seq r
         then atomic_store_rel_64 (rr_buf r) EV_OFF_EARLIEST_SEQ (of_nat (cur_seq r - 1024 + 1))
         else rr_buf r),
      rr_pc := Idle\<rparr>)"

inductive ring_steps :: "ring_run \<Rightarrow> ring_run \<Rightarrow> bool" where
  ring_here: "ring_steps r r"
| ring_next: "ring_steps r s \<Longrightarrow> ring_step s t \<Longrightarrow> ring_steps r t"

definition ring_start :: ring_run where
  "ring_start = \<lparr>rr_buf = inputfs_events_init_buf (replicate INPUTFS_EVENTS_SIZE 0),
     rr_hist = [], rr_pc = Idle\<rparr>"

section \<open>Stores and slots\<close>

lemma run_stores_simps [simp]:
  "run_stores [] bs = bs" "run_stores ((i, b) # xs) bs = run_stores xs (bs[i := b])"
  "run_stores (xs @ ys) bs = run_stores ys (run_stores xs bs)"
  by (simp_all add: run_stores_def)

lemma length_run_stores [simp]: "length (run_stores xs bs) = length bs"
  by (induction xs arbitrary: bs) auto

lemma nth_run_stores: "\<forall>(j, x) \<in> set todo. j \<noteq> i \<Longrightarrow> run_stores todo bs ! i = bs ! i"
  by (induction todo arbitrary: bs) auto

lemma run_byte_stores:
  "off + length src \<le> length bs \<Longrightarrow> run_stores (byte_stores off src) bs = blit bs off src"
proof (induction src arbitrary: off bs)
  case Nil
  then show ?case by (simp add: byte_stores_def blit_def)
next
  case (Cons b src)
  have "run_stores (byte_stores off (b # src)) bs = run_stores (byte_stores (Suc off) src) (bs[off := b])"
    by (simp add: byte_stores_def upt_rec)
  also have "\<dots> = blit (blit bs off [b]) (off + 1) src"
    using Cons by (simp add: list_update_blit)
  also have "\<dots> = blit bs off (b # src)" using blit_blit_adjacent [of off "[b]" src bs] Cons.prems by simp
  finally show ?case .
qed

lemma blit_over: "length s \<le> length t \<Longrightarrow> off + length t \<le> length bs \<Longrightarrow>
    blit (blit bs off t) off s = blit bs off (blit t 0 s)"
  by (rule nth_equalityI) (auto simp: nth_blit)

lemma length_atomic [simp]: "off + 8 \<le> length bs \<Longrightarrow> length (atomic_store_rel_64 bs off v) = length bs"
  by (simp add: atomic_store_rel_64_def)

text \<open>What a slot holds depends on its own 64 bytes only.\<close>

lemma slot_seq_field: "slot_seq bs q = unat (get64 (field (slot_base q) 64 bs) 0)"
  by (simp add: slot_seq_def field_def get_take get_drop)

lemma slot_event_field:
  assumes "length bs = INPUTFS_EVENTS_SIZE" "q < 1024"
  shows "slot_event bs q = (let s = field (slot_base q) 64 bs in
    \<lparr>ev_ts_ordering = get64 s 8, ev_ts_sync = get64 s 16, ev_device_slot = get16 s 24,
     ev_source_role = s ! 26, ev_event_type = s ! 27, ev_flags = get32 s 28,
     ev_payload = field 32 32 s\<rparr>)"
proof -
  have "slot_base q + 64 \<le> length bs" using assms by simp
  then show ?thesis
    by (simp add: slot_event_def Let_def field_def get_take get_drop drop_take add.commute)
qed

definition slot_eq :: "nat \<Rightarrow> buf \<Rightarrow> buf \<Rightarrow> bool" where
  "slot_eq q bs bs' \<longleftrightarrow> field (slot_base q) 64 bs = field (slot_base q) 64 bs'"

lemma slot_eq_refl: "slot_eq q bs bs"
  by (simp add: slot_eq_def)

lemma slot_eqD:
  assumes "slot_eq q bs bs'" "length bs = INPUTFS_EVENTS_SIZE" "length bs' = INPUTFS_EVENTS_SIZE" "q < 1024"
  shows "slot_seq bs q = slot_seq bs' q" "slot_event bs q = slot_event bs' q"
  using assms by (simp_all add: slot_eq_def slot_seq_field slot_event_field)

lemma slot_eq_blit:
  assumes "off + length src \<le> length bs" "off + length src \<le> slot_base q \<or> slot_base q + 64 \<le> off"
  shows "slot_eq q (blit bs off src) bs"
  using assms unfolding slot_eq_def by (intro field_blit_other) auto

lemma slot_eq_update:
  assumes "i < length bs" "i < slot_base q \<or> slot_base q + 64 \<le> i"
  shows "slot_eq q (bs[i := b]) bs"
  using assms slot_eq_blit [of i "[b]" bs q] by (simp add: list_update_blit Suc_le_eq)

lemma other_slot:
  assumes "q \<noteq> q'" "slot_base q \<le> off" "off + n \<le> slot_base q + 64"
  shows "off + n \<le> slot_base q' \<or> slot_base q' + 64 \<le> off"
  using assms by (cases q q' rule: linorder_cases) auto

lemma slot_eq_atomic_seq:
  assumes "q \<noteq> q'" "q < 1024" "length bs = INPUTFS_EVENTS_SIZE"
  shows "slot_eq q' (atomic_store_rel_64 bs (slot_base q) v) bs"
  unfolding atomic_store_rel_64_def
  using assms other_slot [OF assms(1), of "slot_base q" 8] by (intro slot_eq_blit) auto

lemma slot_eq_atomic_header:
  assumes "off + 8 \<le> 64" "length bs = INPUTFS_EVENTS_SIZE"
  shows "slot_eq q (atomic_store_rel_64 bs off v) bs"
  unfolding atomic_store_rel_64_def using assms by (intro slot_eq_blit) auto

lemma slot_seq_atomic:
  assumes "q < 1024" "length bs = INPUTFS_EVENTS_SIZE"
  shows "slot_seq (atomic_store_rel_64 bs (slot_base q) v) q = unat v"
  using assms by (simp add: slot_seq_def atomic_store_rel_64_def get_blit_same)

lemma slot_event_atomic:
  assumes "q < 1024" "length bs = INPUTFS_EVENTS_SIZE"
  shows "slot_event (atomic_store_rel_64 bs (slot_base q) v) q = slot_event bs q"
  using assms
  by (simp add: slot_event_def atomic_store_rel_64_def get_blit_other nth_blit field_blit_other)

text \<open>The body stores stay inside the body of their slot, and together they write the event.\<close>

lemma body_stores_range:
  assumes "(i, b) \<in> set (body_stores q e)" "length (ev_payload e) = 32"
  shows "slot_base q + 8 \<le> i \<and> i < slot_base q + 64"
proof -
  have z: "(i, b) \<in> set (byte_stores off src) \<Longrightarrow> off \<le> i \<and> i < off + length src" for off src
    by (auto simp: byte_stores_def dest: set_zip_leftD)
  show ?thesis using assms by (auto simp: body_stores_def dest!: z)
qed

lemma run_body_stores:
  assumes "q < 1024" "length bs = INPUTFS_EVENTS_SIZE" "length (ev_payload e) = 32"
  shows "slot_event (run_stores (body_stores q e) bs) q = e"
    and "slot_seq (run_stores (body_stores q e) bs) q = slot_seq bs q"
proof -
  have b: "run_stores (body_stores q e) bs =
      blit (blit (blit (blit (blit (blit (blit (blit bs
        (slot_base q + 8) (put64 (ev_ts_ordering e))) (slot_base q + 16) (put64 (ev_ts_sync e)))
        (slot_base q + 24) (put16 (ev_device_slot e))) (slot_base q + 26) [ev_source_role e])
        (slot_base q + 27) [ev_event_type e]) (slot_base q + 28) (put32 (ev_flags e)))
        (slot_base q + 32) (replicate 32 0)) (slot_base q + 32) (ev_payload e)"
    unfolding body_stores_def using assms by (simp add: run_byte_stores)
  show "slot_seq (run_stores (body_stores q e) bs) q = slot_seq bs q"
    unfolding b slot_seq_def using assms by (simp add: get_blit_other)
  show "slot_event (run_stores (body_stores q e) bs) q = e"
    unfolding b slot_event_def using assms
    by (simp add: get_blit_other get_blit_same nth_blit field_blit_same)
qed

section \<open>What the slots hold at every step\<close>

abbreviation owner :: "nat \<Rightarrow> nat \<Rightarrow> nat" where "owner \<equiv> slot_owner 1024"

lemmas owner_le = slot_owner_le [of 1024]
  and owner_mono = slot_owner_mono [of _ _ 1024]
  and owner_mod = slot_owner_mod [of 1024]
  and owner_recent = slot_owner_recent [of _ _ 1024]
  and owner_committed_step = slot_owner_step [of _ _ 1024]
  and owner_current = slot_owner_current [of _ 1024]

text \<open>The completed publications, and whether the current one has emptied its slot.\<close>

definition committed :: "ring_run \<Rightarrow> nat" where
  "committed r = (case rr_pc r of
      Idle \<Rightarrow> cur_seq r | Writer_seq \<Rightarrow> cur_seq r | Earliest_seq \<Rightarrow> cur_seq r
    | _ \<Rightarrow> cur_seq r - 1)"

definition filling :: "ring_run \<Rightarrow> bool" where
  "filling r = (case rr_pc r of Body _ \<Rightarrow> True | Commit \<Rightarrow> True | _ \<Rightarrow> False)"

definition expected :: "ring_run \<Rightarrow> nat \<Rightarrow> nat" where
  "expected r q = (if filling r \<and> q = cur_slot r then 0 else owner (committed r) q)"

text \<open>
  The writer's invariant: every slot carries the sequence number of the last event committed
  to it, with that whole event in its body, or 0 while it is being refilled; and what is left
  to store completes the current event.
\<close>

definition slots_ok :: "ring_run \<Rightarrow> bool" where
  "slots_ok r \<longleftrightarrow> (\<forall>q<1024. slot_seq (rr_buf r) q = expected r q \<and>
     (expected r q \<noteq> 0 \<longrightarrow> slot_event (rr_buf r) q = rr_hist r ! (expected r q - 1)))"

definition pending_ok :: "ring_run \<Rightarrow> bool" where
  "pending_ok r \<longleftrightarrow> (case rr_pc r of
      Idle \<Rightarrow> True
    | Body todo \<Rightarrow> rr_hist r \<noteq> [] \<and> (\<forall>(i, b) \<in> set todo. slot_base (cur_slot r) + 8 \<le> i \<and> i < slot_base (cur_slot r) + 64)
        \<and> slot_event (run_stores todo (rr_buf r)) (cur_slot r) = last (rr_hist r)
    | Commit \<Rightarrow> rr_hist r \<noteq> [] \<and> slot_event (rr_buf r) (cur_slot r) = last (rr_hist r)
    | _ \<Rightarrow> rr_hist r \<noteq> [])"

definition ring_inv :: "ring_run \<Rightarrow> bool" where
  "ring_inv r \<longleftrightarrow> length (rr_buf r) = INPUTFS_EVENTS_SIZE \<and> cur_seq r < 2 ^ 64 \<and>
     (\<forall>e \<in> set (rr_hist r). length (ev_payload e) = 32) \<and> slots_ok r \<and> pending_ok r"

lemma ring_invI:
  assumes "length (rr_buf r) = INPUTFS_EVENTS_SIZE" "cur_seq r < 2 ^ 64"
    "\<forall>e \<in> set (rr_hist r). length (ev_payload e) = 32" "slots_ok r" "pending_ok r"
  shows "ring_inv r"
  using assms by (simp add: ring_inv_def)

lemma ring_invD:
  assumes "ring_inv r"
  shows "length (rr_buf r) = INPUTFS_EVENTS_SIZE" "cur_seq r < 2 ^ 64"
    "\<forall>e \<in> set (rr_hist r). length (ev_payload e) = 32" "slots_ok r" "pending_ok r"
  using assms by (simp_all add: ring_inv_def)

text \<open>A step that leaves the history alone and changes at most the current slot.\<close>

lemma slots_ok_step:
  assumes "slots_ok r" "length (rr_buf r) = INPUTFS_EVENTS_SIZE" "length (rr_buf r') = INPUTFS_EVENTS_SIZE"
    and h: "rr_hist r' = rr_hist r"
    and other: "\<And>q. q < 1024 \<Longrightarrow> q \<noteq> cur_slot r \<Longrightarrow> slot_eq q (rr_buf r') (rr_buf r) \<and> expected r' q = expected r q"
    and cur: "slot_seq (rr_buf r') (cur_slot r) = expected r' (cur_slot r)"
      "expected r' (cur_slot r) \<noteq> 0 \<Longrightarrow>
        slot_event (rr_buf r') (cur_slot r) = rr_hist r ! (expected r' (cur_slot r) - 1)"
  shows "slots_ok r'"
  unfolding slots_ok_def
proof (intro allI impI)
  fix q :: nat assume q: "q < 1024"
  show "slot_seq (rr_buf r') q = expected r' q \<and>
      (expected r' q \<noteq> 0 \<longrightarrow> slot_event (rr_buf r') q = rr_hist r' ! (expected r' q - 1))"
  proof (cases "q = cur_slot r")
    case True
    then show ?thesis using cur h by simp
  next
    case False
    then show ?thesis
      using other [OF q False] slot_eqD [of q "rr_buf r'" "rr_buf r"] assms(1-3) q h
      by (simp add: slots_ok_def)
  qed
qed

lemma slots_ok_header:
  assumes "slots_ok r" "length (rr_buf r) = INPUTFS_EVENTS_SIZE" "length (rr_buf r') = INPUTFS_EVENTS_SIZE"
    and "rr_hist r' = rr_hist r" "\<And>q. slot_eq q (rr_buf r') (rr_buf r)" "\<And>q. expected r' q = expected r q"
  shows "slots_ok r'"
  unfolding slots_ok_def using assms slot_eqD [of _ "rr_buf r'" "rr_buf r"]
  by (simp add: slots_ok_def)

lemma ring_step_inv: "ring_step r r' \<Longrightarrow> ring_inv r \<Longrightarrow> ring_inv r'"
proof (induction rule: ring_step.induct)
  case (begin_publish r e)
  note i = ring_invD [OF begin_publish.prems]
  let ?r = "r\<lparr>rr_hist := rr_hist r @ [e], rr_pc := Invalidate\<rparr>"
  have x: "expected ?r q = expected r q" for q
    using begin_publish.hyps by (simp add: expected_def committed_def filling_def)
  have le: "expected r q \<le> cur_seq r" for q
    using begin_publish.hyps owner_le [of "cur_seq r" q] by (simp add: expected_def committed_def filling_def)
  have "slots_ok ?r" unfolding slots_ok_def x
  proof (intro allI impI)
    fix q :: nat assume q: "q < 1024"
    have "expected r q \<noteq> 0 \<Longrightarrow> (rr_hist r @ [e]) ! (expected r q - 1) = rr_hist r ! (expected r q - 1)"
      using le [of q] by (simp add: nth_append)
    then show "slot_seq (rr_buf ?r) q = expected r q \<and>
        (expected r q \<noteq> 0 \<longrightarrow> slot_event (rr_buf ?r) q = rr_hist ?r ! (expected r q - 1))"
      using i(4) q by (simp add: slots_ok_def)
  qed
  then show ?case using i begin_publish.hyps by (intro ring_invI) (auto simp: pending_ok_def)
next
  case (invalidate r)
  note i = ring_invD [OF invalidate.prems]
  have h: "rr_hist r \<noteq> []" using i(5) invalidate.hyps by (simp add: pending_ok_def)
  have p: "length (ev_payload (last (rr_hist r))) = 32" using i(3) h by simp
  let ?b = "atomic_store_rel_64 (rr_buf r) (slot_base (cur_slot r)) 0"
  have l: "length ?b = INPUTFS_EVENTS_SIZE" using i(1) by simp
  show ?case
  proof (intro ring_invI)
    show "pending_ok (r\<lparr>rr_buf := ?b, rr_pc := Body (body_stores (cur_slot r) (last (rr_hist r)))\<rparr>)"
      using h p run_body_stores(1) [OF _ l p] by (auto simp: pending_ok_def dest: body_stores_range)
    show "slots_ok (r\<lparr>rr_buf := ?b, rr_pc := Body (body_stores (cur_slot r) (last (rr_hist r)))\<rparr>)"
      using i(1) l invalidate.hyps
      by (intro slots_ok_step [OF i(4) i(1)])
        (auto simp: slot_eq_atomic_seq slot_seq_atomic expected_def committed_def filling_def)
  qed (use i l in auto)
next
  case (body_store r j b todo)
  note i = ring_invD [OF body_store.prems]
  have h: "rr_hist r \<noteq> []" and rng: "slot_base (cur_slot r) + 8 \<le> j" "j < slot_base (cur_slot r) + 64"
    using i(5) body_store.hyps by (auto simp: pending_ok_def)
  have jl: "j < length (rr_buf r)" using rng i(1) by simp
  let ?b = "(rr_buf r)[j := b]"
  have e: "slot_eq q ?b (rr_buf r)" if "q \<noteq> cur_slot r" for q
    using other_slot [OF that [symmetric], of j 1] rng jl by (intro slot_eq_update) auto
  have s: "slot_seq ?b (cur_slot r) = slot_seq (rr_buf r) (cur_slot r)"
    using jl rng by (simp add: slot_seq_def list_update_blit get_blit_other)
  show ?case
  proof (intro ring_invI)
    show "slots_ok (r\<lparr>rr_buf := ?b, rr_pc := Body todo\<rparr>)"
      using i(4) s body_store.hyps
      by (intro slots_ok_step [OF i(4) i(1)])
        (auto simp: i(1) e expected_def committed_def filling_def slots_ok_def)
  qed (use i body_store.hyps in \<open>auto simp: pending_ok_def\<close>)
next
  case (body_done r)
  note i = ring_invD [OF body_done.prems]
  have "expected (r\<lparr>rr_pc := Commit\<rparr>) q = expected r q" for q
    using body_done.hyps by (simp add: expected_def committed_def filling_def)
  then show ?case using i body_done.hyps
    by (intro ring_invI) (auto simp: pending_ok_def slots_ok_def)
next
  case (commit r)
  note i = ring_invD [OF commit.prems]
  have h: "rr_hist r \<noteq> []" and ev: "slot_event (rr_buf r) (cur_slot r) = last (rr_hist r)"
    using i(5) commit.hyps by (auto simp: pending_ok_def)
  let ?b = "atomic_store_rel_64 (rr_buf r) (slot_base (cur_slot r)) (of_nat (cur_seq r))"
  have n: "unat (of_nat (cur_seq r) :: u64) = cur_seq r" using i(2) by (simp add: unat_of_nat)
  show ?case
  proof (intro ring_invI)
    show "slots_ok (r\<lparr>rr_buf := ?b, rr_pc := Writer_seq\<rparr>)"
      using h ev commit.hyps
      by (intro slots_ok_step [OF i(4) i(1)])
        (auto simp: i(1) slot_eq_atomic_seq slot_seq_atomic slot_event_atomic expected_def committed_def
          filling_def n owner_current owner_committed_step last_conv_nth)
  qed (use i h in \<open>auto simp: pending_ok_def\<close>)
next
  case (writer_seq r)
  note i = ring_invD [OF writer_seq.prems]
  show ?case
  proof (intro ring_invI)
    show "slots_ok (r\<lparr>rr_buf := atomic_store_rel_64 (rr_buf r) EV_OFF_WRITER_SEQ (of_nat (cur_seq r)),
        rr_pc := Earliest_seq\<rparr>)"
      using writer_seq.hyps i(1)
      by (intro slots_ok_header [OF i(4) i(1)])
        (auto simp: slot_eq_atomic_header expected_def committed_def filling_def)
  qed (use i writer_seq.hyps in \<open>auto simp: pending_ok_def\<close>)
next
  case (earliest_seq r)
  note i = ring_invD [OF earliest_seq.prems]
  let ?b = "if 1024 < cur_seq r
    then atomic_store_rel_64 (rr_buf r) EV_OFF_EARLIEST_SEQ (of_nat (cur_seq r - 1024 + 1)) else rr_buf r"
  show ?case
  proof (intro ring_invI)
    show "slots_ok (r\<lparr>rr_buf := ?b, rr_pc := Idle\<rparr>)"
      using earliest_seq.hyps i(1)
      by (intro slots_ok_header [OF i(4) i(1)])
        (auto simp: slot_eq_atomic_header slot_eq_refl expected_def committed_def filling_def)
  qed (use i earliest_seq.hyps in \<open>auto simp: pending_ok_def\<close>)
qed

lemma ring_steps_inv: "ring_steps r r' \<Longrightarrow> ring_inv r \<Longrightarrow> ring_inv r'"
  by (induction rule: ring_steps.induct) (auto intro: ring_step_inv)

section \<open>The reader\<close>

text \<open>
  The writer's progress only grows: the committed events, the history, and, once the slot of
  an event is being refilled, the event that refills it.
\<close>

lemma ring_step_progress:
  assumes "ring_step r r'" "ring_inv r"
  shows "committed r \<le> committed r'" "\<exists>hs. rr_hist r' = rr_hist r @ hs"
    "filling r \<Longrightarrow> (filling r' \<and> cur_seq r' = cur_seq r) \<or> cur_seq r \<le> committed r'"
  using assms by (auto simp: committed_def filling_def elim!: ring_step.cases)

lemma ring_steps_progress:
  assumes "ring_steps r r'" "ring_inv r"
  shows "committed r \<le> committed r'" "\<exists>hs. rr_hist r' = rr_hist r @ hs"
    "filling r \<Longrightarrow> (filling r' \<and> cur_seq r' = cur_seq r) \<or> cur_seq r \<le> committed r'"
proof -
  have "committed r \<le> committed r' \<and> (\<exists>hs. rr_hist r' = rr_hist r @ hs) \<and>
      (filling r \<longrightarrow> (filling r' \<and> cur_seq r' = cur_seq r) \<or> cur_seq r \<le> committed r')"
    using assms
  proof (induction rule: ring_steps.induct)
    case (ring_next r s t)
    have "ring_inv s" using ring_steps_inv [OF ring_next.hyps(1) ring_next.prems] .
    note p = ring_step_progress [OF ring_next.hyps(2) this]
    show ?case using ring_next.IH [OF ring_next.prems] p by fastforce
  qed auto
  then show "committed r \<le> committed r'" "\<exists>hs. rr_hist r' = rr_hist r @ hs"
    "filling r \<Longrightarrow> (filling r' \<and> cur_seq r' = cur_seq r) \<or> cur_seq r \<le> committed r'"
    by blast+
qed

lemma filling_committed: "ring_inv r \<Longrightarrow> filling r \<Longrightarrow> committed r = cur_seq r - 1 \<and> cur_seq r \<noteq> 0"
  by (auto simp: filling_def committed_def ring_inv_def pending_ok_def split: writer_pc.splits)

lemma expected_between:
  assumes "ring_inv x" "ring_steps x m" "ring_steps m y"
    and "expected x q = s" "expected y q = s" "s \<noteq> 0"
  shows "expected m q = s"
proof -
  have im: "ring_inv m" and iy: "ring_inv y" using assms ring_steps_inv by blast+
  have o: "owner (committed x) q = s" "owner (committed y) q = s"
    using assms(4-6) by (auto simp: expected_def split: if_splits)
  have om: "owner (committed m) q = s"
    using owner_mono [OF ring_steps_progress(1) [OF assms(2,1)], of q]
      owner_mono [OF ring_steps_progress(1) [OF assms(3) im], of q] o by simp
  have "\<not> (filling m \<and> q = cur_slot m)"
  proof
    assume f: "filling m \<and> q = cur_slot m"
    then have c: "committed m = cur_seq m - 1" "cur_seq m \<noteq> 0" using filling_committed im by blast+
    have "\<not> (filling y \<and> cur_seq y = cur_seq m)" using f assms(5,6) by (auto simp: expected_def)
    then have "cur_seq m \<le> committed y" using ring_steps_progress(3) [OF assms(3) im] f by blast
    then have "cur_seq m \<le> s" using owner_mono [of "cur_seq m" "committed y" q] o(2) f c
      by (simp add: owner_current)
    then show False using om c owner_le [of "committed m" q] by simp
  qed
  then show ?thesis using om by (auto simp: expected_def)
qed

lemma reader_sees_event:
  assumes "ring_inv x" "ring_steps x m" "ring_steps m y" "q < 1024"
    and "slot_seq (rr_buf x) q = s" "slot_seq (rr_buf y) q = s" "s \<noteq> 0"
  shows "slot_event (rr_buf m) q = rr_hist y ! (s - 1)" "0 < s" "s \<le> cur_seq y" "s mod 1024 = q"
proof -
  have im: "ring_inv m" and iy: "ring_inv y" using assms ring_steps_inv by blast+
  have e: "expected x q = s" "expected y q = s"
    using assms ring_invD(4) [OF assms(1)] ring_invD(4) [OF iy] by (auto simp: slots_ok_def)
  have em: "expected m q = s" by (rule expected_between [OF assms(1-3) e assms(7)])
  have o: "owner (committed m) q = s" using em assms(7) by (auto simp: expected_def split: if_splits)
  have "committed m \<le> cur_seq m" by (auto simp: committed_def split: writer_pc.splits)
  then have le: "s \<le> cur_seq m" using owner_le [of "committed m" q] o by simp
  obtain hs where hs: "rr_hist y = rr_hist m @ hs" using ring_steps_progress(2) [OF assms(3) im] by blast
  have "slot_event (rr_buf m) q = rr_hist m ! (s - 1)"
    using ring_invD(4) [OF im] em assms(4,7) by (simp add: slots_ok_def)
  then show "slot_event (rr_buf m) q = rr_hist y ! (s - 1)"
    using le assms(7) by (simp add: hs nth_append)
  show "0 < s" "s \<le> cur_seq y" using assms(7) le hs by simp_all
  show "s mod 1024 = q" using owner_mod o assms(7) by blast
qed

section \<open>One publication is one run of the writer\<close>

lemma length_padded [simp]: "length (padded p n) = 32"
  by (simp add: padded_def split: option.splits)

lemma length_published_payload [simp]: "length (ev_payload (published_event sr et d f p n g)) = 32"
  by (simp add: published_event_def split: prod.splits)

lemma slot_index: "unat ((n :: u64) AND 1023) = unat n mod 1024"
  using unat_and_mask [of n 10] by (simp add: mask_eq_exp_minus_1)

text \<open>The slot after the invalidation, the body stores and the commit, then the header.\<close>

definition filled :: "nat \<Rightarrow> ring_event \<Rightarrow> u64 \<Rightarrow> buf \<Rightarrow> buf" where
  "filled q e n bs =
    atomic_store_rel_64 (run_stores (body_stores q e) (atomic_store_rel_64 bs (slot_base q) 0))
      (slot_base q) n"

definition headed :: "u64 \<Rightarrow> buf \<Rightarrow> buf" where
  "headed n bs =
    (let bs = atomic_store_rel_64 bs EV_OFF_WRITER_SEQ n
     in if 1024 < n then atomic_store_rel_64 bs EV_OFF_EARLIEST_SEQ (n - 1024 + 1) else bs)"

lemma payload_stores:
  assumes "off + 32 \<le> length bs"
  shows "(case payload of
      None \<Rightarrow> blit bs off (replicate 32 0)
    | Some p \<Rightarrow>
        if n = 0 then blit bs off (replicate 32 0)
        else blit (blit bs off (replicate 32 0)) off (take (if 32 < n then 32 else n) p))
    = blit (blit bs off (replicate 32 0)) off (padded payload n)"
proof -
  have zz: "blit (blit bs off (replicate 32 0)) off (replicate 32 0) = blit bs off (replicate 32 0)"
    using assms by (subst blit_over) (auto simp: blit_def)
  have e: "blit (replicate 32 0) 0 [] = replicate 32 (0::byte)" by (simp add: blit_def)
  have o: "blit (blit bs off (replicate 32 0)) off (blit (replicate 32 0) 0 s)
      = blit (blit bs off (replicate 32 0)) off s" if "length s \<le> 32" for s
    using that assms by (subst blit_over [symmetric]) (auto simp: zz)
  show ?thesis
    using o [of "take (min 32 n) p" for p]
    by (auto simp: padded_def zz e min_def split: option.splits)
qed

lemma publish_buf:
  assumes "length (events_buf g) = INPUTFS_EVENTS_SIZE"
  shows "events_buf (inputfs_events_publish sr et d f p n g)
    = headed (events_writer_seq g + 1)
        (filled (unat (events_writer_seq g + 1) mod 1024) (published_event sr et d f p n g)
          (events_writer_seq g + 1) (events_buf g))"
proof -
  define q where "q = unat (events_writer_seq g + 1) mod 1024"
  obtain s ns where u: "uptime g (uptime_reads g) = (s, ns)" by (cases "uptime g (uptime_reads g)")
  have q: "q < 1024" by (simp add: q_def)
  have l: "slot_base q + 64 \<le> INPUTFS_EVENTS_SIZE" using q by simp
  show ?thesis
    using l assms
    unfolding inputfs_events_publish_def filled_def headed_def body_stores_def Let_def slot_index
      q_def [symmetric] u prod.case
    by (simp add: run_byte_stores put_u64le_blit put_u16le_blit put_u8_blit put_u32le_blit
        published_event_def u payload_stores)
qed

lemma publish_fields [simp]:
  "events_writer_seq (inputfs_events_publish sr et d f p n g) = events_writer_seq g + 1"
  "events_dirty (inputfs_events_publish sr et d f p n g)"
  "notifies (inputfs_events_publish sr et d f p n g) = notifies g + 1"
  "wakeups (inputfs_events_publish sr et d f p n g) = wakeups g + 1"
  "uptime (inputfs_events_publish sr et d f p n g) = uptime g"
  "uptime_reads (inputfs_events_publish sr et d f p n g) = uptime_reads g + 1"
  "state_buf (inputfs_events_publish sr et d f p n g) = state_buf g"
  "state_seq (inputfs_events_publish sr et d f p n g) = state_seq g"
  "state_slot_used (inputfs_events_publish sr et d f p n g) = state_slot_used g"
  "state_dirty (inputfs_events_publish sr et d f p n g) = state_dirty g"
  "focus_buf (inputfs_events_publish sr et d f p n g) = focus_buf g"
  "focus_cache_valid (inputfs_events_publish sr et d f p n g) = focus_cache_valid g"
  "clock_buf (inputfs_events_publish sr et d f p n g) = clock_buf g"
  "clock_cache_valid (inputfs_events_publish sr et d f p n g) = clock_cache_valid g"
  "geom_width (inputfs_events_publish sr et d f p n g) = geom_width g"
  "geom_height (inputfs_events_publish sr et d f p n g) = geom_height g"
  "geom_known (inputfs_events_publish sr et d f p n g) = geom_known g"
  "pointer_session_prev (inputfs_events_publish sr et d f p n g) = pointer_session_prev g"
  "kbd_bridge_enabled (inputfs_events_publish sr et d f p n g) = kbd_bridge_enabled g"
  "events_file (inputfs_events_publish sr et d f p n g) = events_file g"
  "events_synced (inputfs_events_publish sr et d f p n g) = events_synced g"
  by (simp_all add: inputfs_events_publish_def Let_def split: prod.splits)

text \<open>The ring between two publications, with the events published so far.\<close>

definition ring_of :: "inputfs_globals \<Rightarrow> ring_event list \<Rightarrow> ring_run" where
  "ring_of g hist = \<lparr>rr_buf = events_buf g, rr_hist = hist, rr_pc = Idle\<rparr>"

definition events_ok :: "inputfs_globals \<Rightarrow> ring_event list \<Rightarrow> bool" where
  "events_ok g hist \<longleftrightarrow> ring_inv (ring_of g hist) \<and> events_writer_seq g = of_nat (length hist) \<and>
     get64 (events_buf g) EV_OFF_WRITER_SEQ = events_writer_seq g \<and>
     get64 (events_buf g) EV_OFF_EARLIEST_SEQ
       = (if 1024 < length hist then of_nat (length hist - 1024 + 1) else 1)"

lemma ring_steps_trans: "ring_steps r s \<Longrightarrow> ring_steps s t \<Longrightarrow> ring_steps r t"
  by (rotate_tac, induction rule: ring_steps.induct) (auto intro: ring_next)

lemma ring_steps_one: "ring_step r s \<Longrightarrow> ring_steps r s"
  by (blast intro: ring_steps.intros)

lemma body_steps:
  "rr_pc r = Body todo \<Longrightarrow> ring_steps r (r\<lparr>rr_buf := run_stores todo (rr_buf r), rr_pc := Commit\<rparr>)"
proof (induction todo arbitrary: r)
  case Nil
  then show ?case using ring_steps_one [OF body_done [of r]] by simp
next
  case (Cons s todo)
  obtain i b where s: "s = (i, b)" by (cases s)
  let ?r = "r\<lparr>rr_buf := (rr_buf r)[i := b], rr_pc := Body todo\<rparr>"
  have "ring_steps r ?r" using body_store [of r i b todo] Cons.prems s by (auto intro: ring_steps_one)
  moreover have "ring_steps ?r (?r\<lparr>rr_buf := run_stores todo (rr_buf ?r), rr_pc := Commit\<rparr>)"
    by (rule Cons.IH) simp
  ultimately show ?case using s by (auto dest: ring_steps_trans)
qed

lemma of_nat_gt_1024: "n < 2 ^ 64 \<Longrightarrow> (1024 :: u64) < of_nat n \<longleftrightarrow> 1024 < n"
  by (simp add: word_less_nat_alt unat_of_nat)

lemma publish_steps:
  assumes "length hist + 1 < 2 ^ 64" "events_writer_seq g = of_nat (length hist)"
    "length (events_buf g) = INPUTFS_EVENTS_SIZE"
  shows "ring_steps (ring_of g hist)
    (ring_of (inputfs_events_publish sr et d f p n g) (hist @ [published_event sr et d f p n g]))"
proof -
  define e where "e = published_event sr et d f p n g"
  let ?k = "length hist + 1" and ?q = "(length hist + 1) mod 1024"
  let ?w = "of_nat (length hist + 1) :: u64"
  have w: "events_writer_seq g + 1 = ?w" "unat ?w = ?k"
    using assms by simp (rule unat_of_nat_small, use assms in simp)
  define r1 where "r1 = \<lparr>rr_buf = events_buf g, rr_hist = hist @ [e], rr_pc = Invalidate\<rparr>"
  define r2 where "r2 = \<lparr>rr_buf = atomic_store_rel_64 (events_buf g) (slot_base ?q) 0,
    rr_hist = hist @ [e], rr_pc = Body (body_stores ?q e)\<rparr>"
  define r3 where "r3 = r2\<lparr>rr_buf := run_stores (body_stores ?q e) (rr_buf r2), rr_pc := Commit\<rparr>"
  define r4 where "r4 = r3\<lparr>rr_buf := atomic_store_rel_64 (rr_buf r3) (slot_base ?q) ?w, rr_pc := Writer_seq\<rparr>"
  define r5 where "r5 = r4\<lparr>rr_buf := atomic_store_rel_64 (rr_buf r4) EV_OFF_WRITER_SEQ ?w, rr_pc := Earliest_seq\<rparr>"
  define r6 where "r6 = r5\<lparr>rr_buf := (if 1024 < ?k
      then atomic_store_rel_64 (rr_buf r5) EV_OFF_EARLIEST_SEQ (of_nat (?k - 1024 + 1)) else rr_buf r5),
    rr_pc := Idle\<rparr>"
  have pl: "length (ev_payload e) = 32" by (simp add: e_def)
  have s1: "ring_steps (ring_of g hist) r1"
    using begin_publish [of "ring_of g hist" e] assms(1) pl
    by (auto simp: ring_of_def r1_def intro!: ring_steps_one)
  have s2: "ring_steps r1 r2"
    using invalidate [of r1] by (auto simp: r1_def r2_def intro!: ring_steps_one)
  have s3: "ring_steps r2 r3" unfolding r3_def by (rule body_steps) (simp add: r2_def)
  have s4: "ring_steps r3 r4"
    using commit [of r3] by (auto simp: r2_def r3_def r4_def intro!: ring_steps_one)
  have s5: "ring_steps r4 r5"
    using writer_seq [of r4] by (auto simp: r2_def r3_def r4_def r5_def intro!: ring_steps_one)
  have s6: "ring_steps r5 r6"
    using earliest_seq [of r5] by (auto simp: r2_def r3_def r4_def r5_def r6_def intro!: ring_steps_one)
  have v: "(1024 < ?w) = (1024 < ?k)" using assms(1) of_nat_gt_1024 by blast
  have v2: "1024 < ?k \<Longrightarrow> ?w - 1024 + 1 = of_nat (?k - 1024 + 1)" by (simp add: of_nat_diff)
  have "ring_of (inputfs_events_publish sr et d f p n g) (hist @ [e]) = r6"
    unfolding ring_of_def publish_buf [OF assms(3)] w v headed_def Let_def
    using v2 by (auto simp: e_def [symmetric] filled_def r2_def r3_def r4_def r5_def r6_def v)
  then show ?thesis using s1 s2 s3 s4 s5 s6 unfolding e_def by (metis ring_steps_trans)
qed

lemma get_headed:
  assumes "length bs = INPUTFS_EVENTS_SIZE" "0 < k" "k < 2 ^ 64"
  shows "get64 (headed (of_nat k) bs) EV_OFF_WRITER_SEQ = of_nat k"
    and "get64 (headed (of_nat k) bs) EV_OFF_EARLIEST_SEQ
      = (if 1024 < k then of_nat (k - 1024 + 1) else get64 bs EV_OFF_EARLIEST_SEQ)"
  using assms of_nat_gt_1024 [of k]
  by (auto simp: headed_def atomic_store_rel_64_def get_blit_same get_blit_other of_nat_diff)

lemma length_filled: "q < 1024 \<Longrightarrow> length bs = INPUTFS_EVENTS_SIZE \<Longrightarrow> length (filled q e n bs) = length bs"
  by (simp add: filled_def)

lemma get_filled_header:
  assumes "q < 1024" "length bs = INPUTFS_EVENTS_SIZE" "length (ev_payload e) = 32" "off + 8 \<le> 64"
  shows "get64 (filled q e n bs) off = get64 bs off"
proof -
  have "field off 8 (run_stores (body_stores q e) b) = field off 8 b" for b
    using assms(4) body_stores_range [OF _ assms(3), of _ _ q]
    by (intro field_eq_nthI nth_run_stores) fastforce+
  then show ?thesis using assms
    by (simp add: filled_def atomic_store_rel_64_def get_blit_other) (simp add: get_field atomic_store_rel_64_def field_blit_other)
qed

lemma events_ok_publish:
  assumes "events_ok g hist" "length hist + 1 < 2 ^ 64"
  shows "events_ok (inputfs_events_publish sr et d f p n g) (hist @ [published_event sr et d f p n g])"
proof -
  have l: "length (events_buf g) = INPUTFS_EVENTS_SIZE" and w: "events_writer_seq g = of_nat (length hist)"
    and i: "ring_inv (ring_of g hist)" using assms(1) by (auto simp: events_ok_def ring_inv_def ring_of_def)
  have k: "events_writer_seq g + 1 = of_nat (length hist + 1)" by (simp add: w)
  have q: "unat (of_nat (length hist + 1) :: u64) mod 1024 < 1024" by simp
  note b = publish_buf [OF l, of sr et d f p n, unfolded k]
  have lf: "length (filled (unat (of_nat (length hist + 1) :: u64) mod 1024)
      (published_event sr et d f p n g) (of_nat (length hist + 1)) (events_buf g)) = INPUTFS_EVENTS_SIZE"
    using length_filled [OF q l] l by simp
  note g = get_headed [OF lf, of "length hist + 1"]
  have e: "get64 (events_buf g) EV_OFF_EARLIEST_SEQ
      = (if 1024 < length hist then of_nat (length hist - 1024 + 1) else 1)"
    using assms(1) by (simp add: events_ok_def)
  have "ring_inv (ring_of (inputfs_events_publish sr et d f p n g) (hist @ [published_event sr et d f p n g]))"
    using ring_steps_inv [OF publish_steps [OF assms(2) w l] i] .
  moreover have "get64 (events_buf (inputfs_events_publish sr et d f p n g)) EV_OFF_WRITER_SEQ
      = of_nat (length hist + 1)"
    unfolding b using g(1) assms(2) by simp
  moreover have "get64 (events_buf (inputfs_events_publish sr et d f p n g)) EV_OFF_EARLIEST_SEQ
      = (if 1024 < length hist + 1 then of_nat (length hist + 1 - 1024 + 1) else 1)"
    unfolding b using g(2) assms(2) get_filled_header [OF q l] e by simp
  ultimately show ?thesis using k unfolding events_ok_def by simp
qed

lemma slot_eq_trans: "slot_eq q a b \<Longrightarrow> slot_eq q b c \<Longrightarrow> slot_eq q a c"
  by (simp add: slot_eq_def)

lemma slot_eq_body_stores:
  assumes "q \<noteq> q'" "length (ev_payload e) = 32"
  shows "slot_eq q' (run_stores (body_stores q e) bs) bs"
proof -
  have "run_stores (body_stores q e) bs ! i = bs ! i" if i: "slot_base q' \<le> i" "i < slot_base q' + 64" for i
  proof (rule nth_run_stores, safe)
    fix x assume "(i, x) \<in> set (body_stores q e)"
    then show False using body_stores_range [OF _ assms(2)] i other_slot [OF assms(1), of i 1] by fastforce
  qed
  then show ?thesis unfolding slot_eq_def by (intro field_eq_nthI) auto
qed

lemma publish_keeps_slots:
  assumes "length (events_buf g) = INPUTFS_EVENTS_SIZE" "q \<noteq> unat (events_writer_seq g + 1) mod 1024"
  shows "slot_eq q (events_buf (inputfs_events_publish sr et d f p n g)) (events_buf g)"
proof -
  define k where "k = unat (events_writer_seq g + 1) mod 1024"
  have k: "k < 1024" "k \<noteq> q" using assms(2) by (auto simp: k_def)
  let ?e = "published_event sr et d f p n g"
  have l: "length (filled k ?e (events_writer_seq g + 1) (events_buf g)) = INPUTFS_EVENTS_SIZE"
    using length_filled [OF k(1) assms(1)] assms(1) by simp
  have a: "slot_eq q (atomic_store_rel_64 b (slot_base k) v) b" if "length b = INPUTFS_EVENTS_SIZE" for b v
    using slot_eq_atomic_seq [OF k(2,1) that] .
  have l1: "length (atomic_store_rel_64 (events_buf g) (slot_base k) 0) = INPUTFS_EVENTS_SIZE"
    using assms(1) k by simp
  have "slot_eq q (filled k ?e (events_writer_seq g + 1) (events_buf g)) (events_buf g)"
    unfolding filled_def
  proof (rule slot_eq_trans [OF a])
    show "length (run_stores (body_stores k ?e) (atomic_store_rel_64 (events_buf g) (slot_base k) 0))
        = INPUTFS_EVENTS_SIZE" using l1 by simp
    show "slot_eq q (run_stores (body_stores k ?e) (atomic_store_rel_64 (events_buf g) (slot_base k) 0))
        (events_buf g)"
      using slot_eq_trans [OF slot_eq_body_stores [OF k(2)] a [OF assms(1)]] by simp
  qed
  moreover have "slot_eq q (headed w b) b" if "length b = INPUTFS_EVENTS_SIZE" for w b
    using slot_eq_atomic_header [of 16 b q w]
      slot_eq_atomic_header [of 24 "atomic_store_rel_64 b 16 w" q "w - 1024 + 1"] that
    by (auto simp: headed_def Let_def intro: slot_eq_trans)
  ultimately show ?thesis
    unfolding publish_buf [OF assms(1)] k_def [symmetric] using l slot_eq_trans by blast
qed

lemma length_publish_buf:
  assumes "length (events_buf g) = INPUTFS_EVENTS_SIZE"
  shows "length (events_buf (inputfs_events_publish sr et d f p n g)) = INPUTFS_EVENTS_SIZE"
  unfolding publish_buf [OF assms] headed_def Let_def filled_def using assms by simp

section \<open>The ring after module load\<close>

lemma nat_of_le_zeros: "nat_of_le (replicate n 0) = 0"
  by (induction n) auto

lemma field_zeros: "off + n \<le> m \<Longrightarrow> field off n (replicate m 0) = replicate n 0"
  by (simp add: field_def)

lemma get64_zeros: "off + 8 \<le> m \<Longrightarrow> get64 (replicate m 0) off = 0"
  by (simp add: get_field field_zeros nat_of_le_zeros)

lemma blit_whole: "length src = length bs \<Longrightarrow> blit bs 0 src = src"
  by (simp add: blit_def)

lemma init_buf_header:
  "inputfs_events_init_buf (replicate INPUTFS_EVENTS_SIZE b) =
    blit (blit (blit (blit (blit (blit (blit (replicate INPUTFS_EVENTS_SIZE 0) 0 (put32 0x494E5645))
      4 [1]) 5 [0]) 6 (put16 64)) 8 (put32 1024)) 16 (put64 0)) 24 (put64 1)"
  unfolding inputfs_events_init_buf_def Let_def
  by (simp add: blit_whole put_u64le_blit put_u16le_blit put_u8_blit put_u32le_blit del: replicate_eq_replicate)

lemma events_ok_init:
  assumes "events_buf g = inputfs_events_init_buf (replicate INPUTFS_EVENTS_SIZE b)"
    "events_writer_seq g = 0"
  shows "events_ok g []"
proof -
  have l: "length (events_buf g) = INPUTFS_EVENTS_SIZE" unfolding assms(1) init_buf_header by simp
  have z: "slot_seq (events_buf g) q = 0" if "q < 1024" for q
    using that unfolding assms(1) init_buf_header slot_seq_def
    by (simp add: get_blit_other get64_zeros)
  have "get64 (events_buf g) 16 = 0" "get64 (events_buf g) 24 = 1"
    unfolding assms(1) init_buf_header by (simp_all add: get_blit_other get_blit_same)
  moreover have "slots_ok (ring_of g [])"
    using z by (simp add: slots_ok_def ring_of_def expected_def committed_def filling_def)
  ultimately show ?thesis using l assms(2)
    by (auto simp: events_ok_def ring_inv_def ring_of_def pending_ok_def)
qed

text \<open>Setting the valid byte of the header touches nothing else.\<close>

lemma events_ok_valid:
  assumes "events_ok g h"
  shows "events_ok (g\<lparr>events_buf := inputfs_put_u8 (events_buf g) EV_OFF_VALID v\<rparr>) h"
proof -
  have l: "length (events_buf g) = INPUTFS_EVENTS_SIZE"
    using assms by (simp add: events_ok_def ring_inv_def ring_of_def)
  let ?b = "blit (events_buf g) 5 [v]"
  have "slots_ok (ring_of g h)" "length (rr_buf (ring_of g h)) = INPUTFS_EVENTS_SIZE"
    using assms by (simp_all add: events_ok_def ring_inv_def)
  then have "slots_ok (ring_of (g\<lparr>events_buf := ?b\<rparr>) h)"
  proof (rule slots_ok_header)
    show "slot_eq q (rr_buf (ring_of (g\<lparr>events_buf := ?b\<rparr>) h)) (rr_buf (ring_of g h))" for q
      using slot_eq_blit [of 5 "[v]" "events_buf g" q] l by (simp add: ring_of_def)
  qed (simp_all add: l ring_of_def expected_def committed_def filling_def)
  moreover have "get64 ?b 16 = get64 (events_buf g) 16" "get64 ?b 24 = get64 (events_buf g) 24"
    using l by (simp_all add: get_blit_other)
  ultimately show ?thesis using assms l
    by (simp add: events_ok_def ring_inv_def ring_of_def pending_ok_def put_u8_blit)
qed

section \<open>The ring as a log with a window\<close>

type_synonym publish_args = "byte \<times> byte \<times> u16 \<times> u32 \<times> buf option \<times> nat"

definition publish_args :: "publish_args \<Rightarrow> inputfs_globals \<Rightarrow> inputfs_globals" where
  "publish_args = (\<lambda>(sr, et, d, f, p, n). inputfs_events_publish sr et d f p n)"

definition recorded_args :: "publish_args \<Rightarrow> inputfs_globals \<Rightarrow> ring_event" where
  "recorded_args = (\<lambda>(sr, et, d, f, p, n). published_event sr et d f p n)"

text \<open>The reader's look-up of \<^verbatim>\<open>shared/INPUT_EVENTS.md\<close>: the slot of the sequence number,
  if it carries that number.\<close>

definition read_event :: "inputfs_globals \<Rightarrow> nat \<Rightarrow> ring_event option" where
  "read_event g s =
    (if slot_seq (events_buf g) (s mod 1024) = s then Some (slot_event (events_buf g) (s mod 1024))
     else None)"

definition header_writer_seq :: "inputfs_globals \<Rightarrow> nat" where
  "header_writer_seq g = unat (get64 (events_buf g) EV_OFF_WRITER_SEQ)"

definition header_earliest_seq :: "inputfs_globals \<Rightarrow> nat" where
  "header_earliest_seq g = unat (get64 (events_buf g) EV_OFF_EARLIEST_SEQ)"

lemma events_ok_slot:
  assumes "events_ok g h" "q < 1024"
  shows "slot_seq (events_buf g) q = owner (length h) q"
    "owner (length h) q \<noteq> 0 \<Longrightarrow> slot_event (events_buf g) q = h ! (owner (length h) q - 1)"
proof -
  have "slots_ok (ring_of g h)" using assms(1) by (simp add: events_ok_def ring_inv_def)
  then show "slot_seq (events_buf g) q = owner (length h) q"
    "owner (length h) q \<noteq> 0 \<Longrightarrow> slot_event (events_buf g) q = h ! (owner (length h) q - 1)"
    using assms(2) by (simp_all add: slots_ok_def ring_of_def expected_def committed_def filling_def)
qed

lemma events_ok_length: "events_ok g h \<Longrightarrow> length h < 2 ^ 64"
  by (simp add: events_ok_def ring_inv_def ring_of_def)

interpretation inputfs_ring: event_ring events_ok publish_args recorded_args read_event
  header_writer_seq header_earliest_seq 1024 "2 ^ 64"
proof
  fix g :: inputfs_globals and h :: "ring_event list" and a :: publish_args and s :: nat
  show "0 < (1024::nat)" by simp
  show "events_ok g h \<Longrightarrow> length h + 1 < 2 ^ 64 \<Longrightarrow> events_ok (publish_args a g) (h @ [recorded_args a g])"
    by (cases a) (simp add: publish_args_def recorded_args_def events_ok_publish)
  assume ok: "events_ok g h"
  note l = events_ok_length [OF ok]
  show "header_writer_seq g = length h"
    using ok l by (simp add: header_writer_seq_def events_ok_def unat_of_nat)
  have "unat (of_nat (length h - 1024 + 1) :: u64) = length h - 1024 + 1"
    by (rule unat_of_nat_small) (use l in simp)
  then show "header_earliest_seq g = max 1 (length h + 1 - 1024)"
    using ok by (simp add: header_earliest_seq_def events_ok_def del: of_nat_Suc of_nat_add) arith
  assume s: "0 < s"
  note sl = events_ok_slot [OF ok, of "s mod 1024"]
  show "s \<le> length h \<Longrightarrow> length h < s + 1024 \<Longrightarrow> read_event g s = Some (h ! (s - 1))"
    using sl owner_recent [OF s, of "length h"] s by (simp add: read_event_def)
  show "length h < s \<or> s + 1024 \<le> length h \<Longrightarrow> read_event g s = None"
    using sl(1) slot_owner_old [OF s, of 1024 "length h"] owner_le [of "length h" "s mod 1024"]
    by (auto simp: read_event_def)
qed

end
