(* ===== verification/Inputfs_Focus.thy ===== *)
theory Inputfs_Focus
  imports Inputfs_Events
begin

text \<open>
  The regions the driver reads: the compositor's focus file with its surface map, the clock
  file and the smoothing file, each cached by the worker thread, and the display geometry of
  drawfs's sysctls. The result of \<^verbatim>\<open>vn_open\<close> (whether it succeeded) and of
  \<^verbatim>\<open>vn_rdwr\<close> (an error or the bytes read) are arguments.
\<close>

section \<open>The focus region\<close>

abbreviation (input) INPUTFS_FOCUS_MAGIC :: u32 where "INPUTFS_FOCUS_MAGIC \<equiv> 0x4946434F"
abbreviation (input) INPUTFS_FOCUS_HEADER_SIZE :: nat where "INPUTFS_FOCUS_HEADER_SIZE \<equiv> 64"
abbreviation (input) INPUTFS_FOCUS_SLOT_SIZE :: nat where "INPUTFS_FOCUS_SLOT_SIZE \<equiv> 20"
abbreviation (input) INPUTFS_FOCUS_SLOT_COUNT :: nat where "INPUTFS_FOCUS_SLOT_COUNT \<equiv> 256"
abbreviation (input) INPUTFS_FOCUS_SIZE :: nat where "INPUTFS_FOCUS_SIZE \<equiv> 64 + 256 * 20"
abbreviation (input) FC_OFF_MAGIC :: nat where "FC_OFF_MAGIC \<equiv> 0"
abbreviation (input) FC_OFF_VERSION :: nat where "FC_OFF_VERSION \<equiv> 4"
abbreviation (input) FC_OFF_VALID :: nat where "FC_OFF_VALID \<equiv> 5"
abbreviation (input) FC_OFF_SEQLOCK :: nat where "FC_OFF_SEQLOCK \<equiv> 8"
abbreviation (input) FC_OFF_KB_FOCUS :: nat where "FC_OFF_KB_FOCUS \<equiv> 12"
abbreviation (input) FC_OFF_PTR_GRAB :: nat where "FC_OFF_PTR_GRAB \<equiv> 16"
abbreviation (input) FC_OFF_SURFACE_COUNT :: nat where "FC_OFF_SURFACE_COUNT \<equiv> 20"
abbreviation (input) FC_SLOT_OFF_SESSION_ID :: nat where "FC_SLOT_OFF_SESSION_ID \<equiv> 0"
abbreviation (input) FC_SLOT_OFF_X :: nat where "FC_SLOT_OFF_X \<equiv> 4"
abbreviation (input) FC_SLOT_OFF_Y :: nat where "FC_SLOT_OFF_Y \<equiv> 8"
abbreviation (input) FC_SLOT_OFF_WIDTH :: nat where "FC_SLOT_OFF_WIDTH \<equiv> 12"
abbreviation (input) FC_SLOT_OFF_HEIGHT :: nat where "FC_SLOT_OFF_HEIGHT \<equiv> 16"

definition inputfs_focus_open_file :: "bool \<Rightarrow> inputfs_globals \<Rightarrow> inputfs_globals" where
  "inputfs_focus_open_file opens g =
    (if focus_open g then g else if \<not> opens then g else g\<lparr>focus_open := True\<rparr>)"

definition inputfs_focus_close_file :: "inputfs_globals \<Rightarrow> inputfs_globals" where
  "inputfs_focus_close_file g =
    (if \<not> focus_open g then g else g\<lparr>focus_open := False, focus_cache_valid := False\<rparr>)"

definition inputfs_focus_refresh :: "bool \<Rightarrow> errno + buf \<Rightarrow> inputfs_globals \<Rightarrow> inputfs_globals" where
  "inputfs_focus_refresh opens rdwr g =
    (let g = (if focus_open g then g else inputfs_focus_open_file opens g)
     in if \<not> focus_open g then g
     else (case rdwr of
         Inl error \<Rightarrow> inputfs_focus_close_file g
       | Inr bytes \<Rightarrow>
           if inputfs_get_u32le bytes FC_OFF_MAGIC \<noteq> INPUTFS_FOCUS_MAGIC
             then g\<lparr>focus_cache_valid := False\<rparr>
           else if bytes ! FC_OFF_VERSION \<noteq> 1 then g\<lparr>focus_cache_valid := False\<rparr>
           else g\<lparr>focus_buf := bytes, focus_cache_valid := (bytes ! FC_OFF_VALID \<noteq> 0)\<rparr>))"

text \<open>The walk over the surface slots \<open>is\<close>: the session of the first one that contains the
  point.\<close>

fun resolve_surfaces :: "buf \<Rightarrow> int \<Rightarrow> int \<Rightarrow> nat list \<Rightarrow> u32" where
  "resolve_surfaces bs x y [] = 0"
| "resolve_surfaces bs x y (i # is) =
    (let off = INPUTFS_FOCUS_HEADER_SIZE + i * INPUTFS_FOCUS_SLOT_SIZE;
         sid = inputfs_get_u32le bs (off + FC_SLOT_OFF_SESSION_ID);
         sx = inputfs_get_i32le bs (off + FC_SLOT_OFF_X);
         sy = inputfs_get_i32le bs (off + FC_SLOT_OFF_Y);
         sw = inputfs_get_u32le bs (off + FC_SLOT_OFF_WIDTH);
         sh = inputfs_get_u32le bs (off + FC_SLOT_OFF_HEIGHT)
     in if sid = 0 then resolve_surfaces bs x y is
        else if x < sx \<or> y < sy then resolve_surfaces bs x y is
        else if sw \<le> of_int (x - sx) then resolve_surfaces bs x y is
        else if sh \<le> of_int (y - sy) then resolve_surfaces bs x y is
        else sid)"

definition inputfs_focus_resolve_pointer :: "int \<Rightarrow> int \<Rightarrow> inputfs_globals \<Rightarrow> u32" where
  "inputfs_focus_resolve_pointer x y g =
    (if \<not> focus_cache_valid g then 0
     else if inputfs_get_u32le (focus_buf g) FC_OFF_SEQLOCK AND 1 \<noteq> 0 then 0
     else
       let pointer_grab = inputfs_get_u32le (focus_buf g) FC_OFF_PTR_GRAB
       in if pointer_grab \<noteq> 0 then pointer_grab
          else
            let surface_count = (ucast (focus_buf g ! FC_OFF_SURFACE_COUNT) OR
                  push_bit 8 (ucast (focus_buf g ! (FC_OFF_SURFACE_COUNT + 1))) :: u32);
                surface_count = (if 256 < surface_count then 256 else surface_count)
            in resolve_surfaces (focus_buf g) x y [0..<unat surface_count])"

definition inputfs_focus_keyboard_session :: "inputfs_globals \<Rightarrow> u32" where
  "inputfs_focus_keyboard_session g =
    (if \<not> focus_cache_valid g then 0
     else if inputfs_get_u32le (focus_buf g) FC_OFF_SEQLOCK AND 1 \<noteq> 0 then 0
     else inputfs_get_u32le (focus_buf g) FC_OFF_KB_FOCUS)"

section \<open>The clock region\<close>

definition inputfs_clock_open_file :: "bool \<Rightarrow> inputfs_globals \<Rightarrow> inputfs_globals" where
  "inputfs_clock_open_file opens g =
    (if clock_open g then g else if \<not> opens then g else g\<lparr>clock_open := True\<rparr>)"

definition inputfs_clock_close_file :: "inputfs_globals \<Rightarrow> inputfs_globals" where
  "inputfs_clock_close_file g =
    (if \<not> clock_open g then g else g\<lparr>clock_open := False, clock_cache_valid := False\<rparr>)"

definition inputfs_clock_refresh :: "bool \<Rightarrow> errno + buf \<Rightarrow> inputfs_globals \<Rightarrow> inputfs_globals" where
  "inputfs_clock_refresh opens rdwr g =
    (let g = (if clock_open g then g else inputfs_clock_open_file opens g)
     in if \<not> clock_open g then g
     else (case rdwr of
         Inl error \<Rightarrow> inputfs_clock_close_file g
       | Inr bytes \<Rightarrow>
           if inputfs_get_u32le bytes CLK_OFF_MAGIC \<noteq> INPUTFS_CLOCK_MAGIC
             then g\<lparr>clock_cache_valid := False\<rparr>
           else if bytes ! CLK_OFF_VERSION \<noteq> 1 then g\<lparr>clock_cache_valid := False\<rparr>
           else g\<lparr>clock_buf := bytes, clock_cache_valid := (bytes ! CLK_OFF_VALID \<noteq> 0)\<rparr>))"

section \<open>The smoothing region\<close>

abbreviation (input) INPUTFS_SMOOTHING_MAGIC :: u32 where "INPUTFS_SMOOTHING_MAGIC \<equiv> 0x494E534D"
abbreviation (input) INPUTFS_SMOOTHING_SIZE :: nat where "INPUTFS_SMOOTHING_SIZE \<equiv> 12 + 20"
abbreviation (input) SM_OFF_MAGIC :: nat where "SM_OFF_MAGIC \<equiv> 0"
abbreviation (input) SM_OFF_VERSION :: nat where "SM_OFF_VERSION \<equiv> 4"
abbreviation (input) SM_OFF_VALID :: nat where "SM_OFF_VALID \<equiv> 6"

definition inputfs_smoothing_open_file :: "bool \<Rightarrow> inputfs_globals \<Rightarrow> inputfs_globals" where
  "inputfs_smoothing_open_file opens g =
    (if smoothing_open g then g else if \<not> opens then g else g\<lparr>smoothing_open := True\<rparr>)"

definition inputfs_smoothing_close_file :: "inputfs_globals \<Rightarrow> inputfs_globals" where
  "inputfs_smoothing_close_file g =
    (if \<not> smoothing_open g then g else g\<lparr>smoothing_open := False, smoothing_cache_valid := False\<rparr>)"

definition inputfs_smoothing_refresh :: "bool \<Rightarrow> errno + buf \<Rightarrow> inputfs_globals \<Rightarrow> inputfs_globals" where
  "inputfs_smoothing_refresh opens rdwr g =
    (let g = (if smoothing_open g then g else inputfs_smoothing_open_file opens g)
     in if \<not> smoothing_open g then g
     else (case rdwr of
         Inl error \<Rightarrow> inputfs_smoothing_close_file g
       | Inr bytes \<Rightarrow>
           if inputfs_get_u32le bytes SM_OFF_MAGIC \<noteq> INPUTFS_SMOOTHING_MAGIC
             then g\<lparr>smoothing_cache_valid := False\<rparr>
           else if bytes ! SM_OFF_VERSION \<noteq> 1 then g\<lparr>smoothing_cache_valid := False\<rparr>
           else g\<lparr>smoothing_buf := bytes, smoothing_cache_valid := (bytes ! SM_OFF_VALID \<noteq> 0)\<rparr>))"

section \<open>Display geometry\<close>

text \<open>Each sysctl read is an error or the value it stored; a failed read leaves the
  variable at 0, and is \<open>None\<close>.\<close>

definition inputfs_geom_read ::
  "u32 option \<Rightarrow> u32 option \<Rightarrow> u32 option \<Rightarrow> u32 option \<Rightarrow> inputfs_globals \<Rightarrow> inputfs_globals" where
  "inputfs_geom_read width height stride bpp g =
    (case (width, height, stride, bpp) of
       (Some w, Some h, Some s, Some b) \<Rightarrow>
         if 0 < w \<and> 0 < h
         then g\<lparr>geom_width := w, geom_height := h, geom_stride := s, geom_bpp := b, geom_known := True\<rparr>
         else g\<lparr>geom_width := 1024, geom_height := 768, geom_stride := 1024 * 4, geom_bpp := 32,
           geom_known := False\<rparr>
     | _ \<Rightarrow> g\<lparr>geom_width := 1024, geom_height := 768, geom_stride := 1024 * 4, geom_bpp := 32,
         geom_known := False\<rparr>)"

section \<open>The surface map\<close>

record surface_rect =
  sr_session :: u32
  sr_x :: int
  sr_y :: int
  sr_w :: u32
  sr_h :: u32

definition surface_slot :: "buf \<Rightarrow> nat \<Rightarrow> surface_rect" where
  "surface_slot bs i =
    \<lparr>sr_session = get32 bs (64 + i * 20), sr_x = sint (get32 bs (64 + i * 20 + 4)),
     sr_y = sint (get32 bs (64 + i * 20 + 8)), sr_w = get32 bs (64 + i * 20 + 12),
     sr_h = get32 bs (64 + i * 20 + 16)\<rparr>"

text \<open>The half-open rectangle on the unbounded integer plane.\<close>

definition contains :: "int \<Rightarrow> int \<Rightarrow> surface_rect \<Rightarrow> bool" where
  "contains x y s \<longleftrightarrow> sr_session s \<noteq> 0 \<and> sr_x s \<le> x \<and> x < sr_x s + uint (sr_w s) \<and>
     sr_y s \<le> y \<and> y < sr_y s + uint (sr_h s)"

definition surface_map :: "buf \<Rightarrow> surface_rect list" where
  "surface_map bs = map (surface_slot bs) [0..<min 256 (unat (get16 bs 20))]"

lemma and_one_odd: "w AND 1 \<noteq> (0 :: 'a::len word) \<longleftrightarrow> odd (unat w)"
  using unat_and_mask [of w 1] by (simp add: mask_eq_exp_minus_1 flip: unat_eq_zero) presburger

lemma sint_is32: "is32 (sint (w :: u32))"
  using sint_range_size [of w] by (simp add: word_size)

lemma le_of_int_iff:
  assumes "0 \<le> d" "d < 2 ^ 32"
  shows "(w :: u32) \<le> of_int d \<longleftrightarrow> uint w \<le> d"
  using assms by (simp add: word_le_def uint_word_of_int)

lemma resolve_surfaces_eq:
  assumes "length bs = INPUTFS_FOCUS_SIZE" "\<forall>i \<in> set is. i < 256" "is32 x" "is32 y"
  shows "resolve_surfaces bs x y is
    = (case find (contains x y) (map (surface_slot bs) is) of Some s \<Rightarrow> sr_session s | None \<Rightarrow> 0)"
  using assms(2)
proof (induction "is")
  case (Cons i "is")
  define s where "s = surface_slot bs i"
  have i: "i < 256" using Cons.prems by simp
  have rx: "is32 (sr_x s)" and ry: "is32 (sr_y s)" 
    using sint_is32 [of "get32 bs (64 + i * 20 + 4)"] sint_is32 [of "get32 bs (64 + i * 20 + 8)"]
    by (simp_all add: s_def surface_slot_def)
  have cx: "sr_x s \<le> x \<Longrightarrow> sr_w s \<le> of_int (x - sr_x s) \<longleftrightarrow> sr_x s + uint (sr_w s) \<le> x"
    using rx assms(3) le_of_int_iff [of "x - sr_x s" "sr_w s"] by auto
  have cy: "sr_y s \<le> y \<Longrightarrow> sr_h s \<le> of_int (y - sr_y s) \<longleftrightarrow> sr_y s + uint (sr_h s) \<le> y"
    using ry assms(4) le_of_int_iff [of "y - sr_y s" "sr_h s"] by auto
  have f: "inputfs_get_u32le bs (64 + i * 20 + 0) = sr_session s"
    "inputfs_get_i32le bs (64 + i * 20 + 4) = sr_x s" "inputfs_get_i32le bs (64 + i * 20 + 8) = sr_y s"
    "inputfs_get_u32le bs (64 + i * 20 + 12) = sr_w s" "inputfs_get_u32le bs (64 + i * 20 + 16) = sr_h s"
    using i assms(1)
    by (simp_all add: s_def surface_slot_def inputfs_get_i32le_def get_u32le_get32)
  have "resolve_surfaces bs x y (i # is)
      = (if contains x y s then sr_session s else resolve_surfaces bs x y is)"
    unfolding resolve_surfaces.simps Let_def f using cx cy by (auto simp: contains_def)
  then show ?case using Cons by (simp add: s_def)
qed simp

lemma take_drop_2: "off + 2 \<le> length bs \<Longrightarrow> take 2 (drop off bs) = [bs ! off, bs ! (off + 1)]"
  by (rule nth_equalityI) (auto simp: less_Suc_eq eval_nat_numeral)

lemma surface_count_eq:
  assumes "length bs = INPUTFS_FOCUS_SIZE"
  shows "unat (ucast (bs ! 20) OR push_bit 8 (ucast (bs ! 21)) :: u32) = unat (get16 bs 20)"
proof -
  have l: "unat (x :: byte) < 256" for x using unat_lt_size [of x] by simp
  have u: "unat (ucast x :: u32) = unat x" for x :: byte by (simp add: unat_ucast_up)
  have "(ucast (bs ! 20) OR push_bit 8 (ucast (bs ! 21)) :: u32) = ucast (bs ! 20) + ucast (bs ! 21) * 2 ^ 8"
    using l [of "bs ! 20"] by (intro or_push_bit_add) (simp add: u)
  also have "\<dots> = of_nat (unat (bs ! 20) + 256 * unat (bs ! 21))" by simp
  finally have a: "unat (ucast (bs ! 20) OR push_bit 8 (ucast (bs ! 21)) :: u32)
      = unat (bs ! 20) + 256 * unat (bs ! 21)"
    using l [of "bs ! 20"] l [of "bs ! 21"] by (simp only:) (rule unat_of_nat_small, simp)
  have "nat_of_le (take 2 (drop 20 bs)) = unat (bs ! 20) + 256 * unat (bs ! 21)"
    using take_drop_2 [of 20 bs] assms by simp
  then have "unat (get16 bs 20) = unat (bs ! 20) + 256 * unat (bs ! 21)"
    unfolding get16_def using l [of "bs ! 20"] l [of "bs ! 21"] by (simp only:) (rule unat_of_nat_small, simp)
  then show ?thesis using a by simp
qed

lemma resolve_pointer_eq:
  assumes "length (focus_buf g) = INPUTFS_FOCUS_SIZE" "is32 x" "is32 y"
  shows "inputfs_focus_resolve_pointer x y g =
    (if focus_cache_valid g \<and> even (unat (get32 (focus_buf g) 8)) then
       if get32 (focus_buf g) 16 \<noteq> 0 then get32 (focus_buf g) 16
       else (case find (contains x y) (surface_map (focus_buf g)) of
           Some s \<Rightarrow> sr_session s | None \<Rightarrow> 0)
     else 0)"
proof -
  define c where "c = (ucast (focus_buf g ! 20) OR push_bit 8 (ucast (focus_buf g ! 21)) :: u32)"
  have c: "unat c = unat (get16 (focus_buf g) 20)" unfolding c_def by (rule surface_count_eq [OF assms(1)])
  have m: "unat (if 256 < c then 256 else c) = min 256 (unat (get16 (focus_buf g) 20))"
    by (simp add: c min_def word_less_nat_alt)
  have e: "inputfs_get_u32le (focus_buf g) 8 AND 1 \<noteq> 0 \<longleftrightarrow> odd (unat (get32 (focus_buf g) 8))"
    using assms(1) and_one_odd [of "get32 (focus_buf g) 8"] by (simp add: get_u32le_get32)
  have r: "resolve_surfaces (focus_buf g) x y [0..<min 256 (unat (get16 (focus_buf g) 20))]
      = (case find (contains x y) (surface_map (focus_buf g)) of Some s \<Rightarrow> sr_session s | None \<Rightarrow> 0)"
    unfolding surface_map_def by (rule resolve_surfaces_eq [OF assms(1) _ assms(2,3)]) simp
  show ?thesis
    using assms(1) unfolding inputfs_focus_resolve_pointer_def e Let_def
    by (simp add: get_u32le_get32 r [symmetric] m [symmetric] c_def)
qed

end
