(* ===== verification/Inputfs_Sync.thy ===== *)
theory Inputfs_Sync
  imports Inputfs_Focus
begin

text \<open>
  The worker thread of \<^verbatim>\<open>inputfs.c\<close>: it copies the state region and the event ring to
  their files and refreshes the cached regions. It holds no lock while it writes, so the
  interrupt path can publish between two of its writes: what happens before write \<open>i\<close> is
  the argument \<open>intr i\<close>, and the error of write \<open>i\<close> (0 for success) is \<open>io i\<close>.
\<close>

section \<open>Opening, closing and writing the two files\<close>

definition inputfs_state_sync_to_file :: "errno \<Rightarrow> inputfs_globals \<Rightarrow> inputfs_globals" where
  "inputfs_state_sync_to_file error g =
    (case state_file g of
       None \<Rightarrow> g
     | Some _ \<Rightarrow> if error \<noteq> 0 then g else g\<lparr>state_file := Some (state_buf g)\<rparr>)"

definition inputfs_state_close_file :: "inputfs_globals \<Rightarrow> inputfs_globals" where
  "inputfs_state_close_file g = g\<lparr>state_file := None\<rparr>"

text \<open>A created events file starts as the whole ring, when that write succeeds; the code
  does not look at its result.\<close>

definition inputfs_events_open_file :: "errno \<Rightarrow> errno \<Rightarrow> inputfs_globals \<Rightarrow> inputfs_globals" where
  "inputfs_events_open_file open_error write_error g =
    (if open_error \<noteq> 0 then g\<lparr>events_file := None\<rparr>
     else g\<lparr>events_file := Some (if write_error \<noteq> 0 then [] else events_buf g)\<rparr>)"

definition inputfs_events_close_file :: "inputfs_globals \<Rightarrow> inputfs_globals" where
  "inputfs_events_close_file g = g\<lparr>events_file := None\<rparr>"

definition write_events_file :: "nat \<Rightarrow> nat \<Rightarrow> inputfs_globals \<Rightarrow> inputfs_globals" where
  "write_events_file off n g =
    g\<lparr>events_file := map_option (\<lambda>f. blit f off (field off n (events_buf g))) (events_file g)\<rparr>"

text \<open>The slots of the sequence numbers \<open>synced + 1 + i\<close>; \<open>Inl\<close> when a write failed.\<close>

fun sync_slots :: "(nat \<Rightarrow> errno) \<Rightarrow> (nat \<Rightarrow> inputfs_globals \<Rightarrow> inputfs_globals) \<Rightarrow> u64 \<Rightarrow> nat list
    \<Rightarrow> inputfs_globals \<Rightarrow> inputfs_globals + inputfs_globals" where
  "sync_slots io intr synced [] g = Inr g"
| "sync_slots io intr synced (i # is) g =
    (let g = intr i g;
         seq = synced + 1 + of_nat i;
         slot_idx = unat (seq AND 1023);
         off = INPUTFS_EVENTS_HEADER_SIZE + slot_idx * INPUTFS_EVENTS_SLOT_SIZE
     in if io i \<noteq> 0 then Inl g
        else sync_slots io intr synced is (write_events_file off INPUTFS_EVENTS_SLOT_SIZE g))"

definition inputfs_events_sync_to_file ::
  "(nat \<Rightarrow> errno) \<Rightarrow> (nat \<Rightarrow> inputfs_globals \<Rightarrow> inputfs_globals) \<Rightarrow> inputfs_globals \<Rightarrow> inputfs_globals" where
  "inputfs_events_sync_to_file io intr g =
    (case events_file g of
       None \<Rightarrow> g
     | Some _ \<Rightarrow>
         let synced = events_synced g;
             latest = events_writer_seq g
         in if latest \<le> synced then g
         else
           let to_write = latest - synced;
               to_write = (if 1024 < to_write then 1024 else to_write)
           in case sync_slots io intr synced [0..<unat to_write] g of
                Inl g \<Rightarrow> g
              | Inr g \<Rightarrow>
                  let g = intr (unat to_write) g
                  in if io (unat to_write) \<noteq> 0 then g
                     else (write_events_file 0 INPUTFS_EVENTS_HEADER_SIZE g)
                       \<lparr>events_synced := synced + to_write\<rparr>)"

text \<open>
  One turn of the worker's loop after its sleep, while it is to keep running: the dirty flags
  are taken and cleared under the lock, then the files are written and the regions read.
\<close>

record worker_io =
  wio_state :: errno
  wio_events :: "nat \<Rightarrow> errno"
  wio_focus :: "bool \<times> (errno + buf)"
  wio_clock :: "bool \<times> (errno + buf)"
  wio_smoothing :: "bool \<times> (errno + buf)"

definition worker_turn ::
  "worker_io \<Rightarrow> (nat \<Rightarrow> inputfs_globals \<Rightarrow> inputfs_globals) \<Rightarrow> inputfs_globals \<Rightarrow> inputfs_globals" where
  "worker_turn io intr g =
    (let do_state = state_dirty g;
         do_events = events_dirty g;
         g = g\<lparr>state_dirty := False, events_dirty := False\<rparr>;
         g = (if do_state then inputfs_state_sync_to_file (wio_state io) g else g);
         g = (if do_events then inputfs_events_sync_to_file (wio_events io) intr g else g);
         g = inputfs_focus_refresh (fst (wio_focus io)) (snd (wio_focus io)) g;
         g = inputfs_clock_refresh (fst (wio_clock io)) (snd (wio_clock io)) g
     in inputfs_smoothing_refresh (fst (wio_smoothing io)) (snd (wio_smoothing io)) g)"

text \<open>The closes when the worker stops.\<close>

definition worker_stop :: "inputfs_globals \<Rightarrow> inputfs_globals" where
  "worker_stop g =
    inputfs_state_close_file (inputfs_events_close_file (inputfs_smoothing_close_file
      (inputfs_clock_close_file (inputfs_focus_close_file g))))"

abbreviation undisturbed :: "nat \<Rightarrow> inputfs_globals \<Rightarrow> inputfs_globals" where "undisturbed \<equiv> \<lambda>_ g. g"

section \<open>What the events file holds\<close>

text \<open>Every slot of the file agrees with the ring unless an event not yet written owns it.\<close>

definition pending_slots :: "inputfs_globals \<Rightarrow> nat set" where
  "pending_slots g = {s mod 1024 | s. unat (events_synced g) < s \<and> s \<le> unat (events_writer_seq g)}"

definition file_ok :: "inputfs_globals \<Rightarrow> bool" where
  "file_ok g \<longleftrightarrow> (case events_file g of
      None \<Rightarrow> False
    | Some f \<Rightarrow> length f = INPUTFS_EVENTS_SIZE \<and> length (events_buf g) = INPUTFS_EVENTS_SIZE \<and>
        events_synced g \<le> events_writer_seq g \<and>
        (\<forall>q<1024. q \<notin> pending_slots g \<longrightarrow> slot_eq q f (events_buf g)))"

lemma length_field64 [simp]: "q < 1024 \<Longrightarrow> length bs = INPUTFS_EVENTS_SIZE \<Longrightarrow>
    length (field (slot_base q) 64 bs) = 64"
  by (rule length_field) simp

lemma slot_eq_copied:
  assumes "q < 1024" "length f = INPUTFS_EVENTS_SIZE" "length bs = INPUTFS_EVENTS_SIZE"
  shows "slot_eq q (blit f (slot_base q) (field (slot_base q) 64 bs)) bs"
    and "q' \<noteq> q \<Longrightarrow> slot_eq q' (blit f (slot_base q) (field (slot_base q) 64 bs)) f"
  using assms other_slot [of q q' "slot_base q" 64]
  by (auto simp: slot_eq_def field_blit_same intro!: field_blit_other)

text \<open>The slot writes, when none fails and nothing is published meanwhile.\<close>

definition copy_slots :: "u64 \<Rightarrow> nat list \<Rightarrow> buf \<Rightarrow> buf \<Rightarrow> buf" where
  "copy_slots synced is bs =
    fold (\<lambda>i f. let q = unat (synced + 1 + of_nat i) mod 1024
                in blit f (slot_base q) (field (slot_base q) 64 bs)) is"

lemma sync_slots_copies:
  assumes "\<forall>i. io i = 0" "events_file g = Some f"
  shows "sync_slots io undisturbed synced is g
    = Inr (g\<lparr>events_file := Some (copy_slots synced is (events_buf g) f)\<rparr>)"
  using assms(2)
proof (induction "is" arbitrary: g f)
  case (Cons i "is")
  then show ?case
    by (simp add: assms(1) slot_index write_events_file_def copy_slots_def Let_def)
qed (simp add: copy_slots_def)

lemma length_copy_slots:
  assumes "length f = INPUTFS_EVENTS_SIZE" "length bs = INPUTFS_EVENTS_SIZE"
  shows "length (copy_slots synced is bs f) = INPUTFS_EVENTS_SIZE"
  using assms(1)
proof (induction "is" arbitrary: f)
  case (Cons i "is")
  define q where "q = unat (synced + 1 + of_nat i) mod 1024"
  have q: "q < 1024" by (simp add: q_def)
  have "length (blit f (slot_base q) (field (slot_base q) 64 bs)) = INPUTFS_EVENTS_SIZE"
    using q Cons.prems assms(2) by simp
  from Cons.IH [OF this] show ?case by (simp add: copy_slots_def q_def Let_def)
qed (simp add: copy_slots_def)

lemma copy_slots_slot:
  assumes "length f = INPUTFS_EVENTS_SIZE" "length bs = INPUTFS_EVENTS_SIZE" "q < 1024"
    and "slot_eq q f bs \<or> (\<exists>i \<in> set is. q = unat (synced + 1 + of_nat i) mod 1024)"
  shows "slot_eq q (copy_slots synced is bs f) bs"
  using assms(1,4)
proof (induction "is" arbitrary: f)
  case (Cons i "is")
  define p where "p = unat (synced + 1 + of_nat i) mod 1024"
  have p: "p < 1024" by (simp add: p_def)
  let ?f = "blit f (slot_base p) (field (slot_base p) 64 bs)"
  have l: "length ?f = INPUTFS_EVENTS_SIZE" using p Cons.prems(1) assms(2) by simp
  have "slot_eq q ?f bs \<or> (\<exists>i \<in> set is. q = unat (synced + 1 + of_nat i) mod 1024)"
  proof (cases "q = p")
    case True
    then show ?thesis using slot_eq_copied(1) [OF p Cons.prems(1) assms(2)] by simp
  next
    case False
    then have "slot_eq q ?f f" by (rule slot_eq_copied(2) [OF p Cons.prems(1) assms(2)])
    then show ?thesis using Cons.prems(2) False by (auto simp: p_def slot_eq_def)
  qed
  from Cons.IH [OF l this] show ?case by (simp add: copy_slots_def p_def Let_def)
qed (simp add: copy_slots_def)

text \<open>The slots written cover every pending one, the cap of one ring included.\<close>

lemma pending_covered:
  assumes "events_synced g < events_writer_seq g" "q \<in> pending_slots g"
  defines "w \<equiv> min 1024 (unat (events_writer_seq g) - unat (events_synced g))"
  shows "\<exists>i \<in> set [0..<w]. q = unat (events_synced g + 1 + of_nat i) mod 1024"
proof -
  obtain s where s: "q = s mod 1024" "unat (events_synced g) < s" "s \<le> unat (events_writer_seq g)"
    using assms(2) by (auto simp: pending_slots_def)
  define i where "i = (s - unat (events_synced g) - 1) mod 1024"
  have le: "i \<le> s - unat (events_synced g) - 1" by (simp add: i_def)
  have iw: "i < w" using s le by (auto simp: w_def i_def)
  have lt: "unat (events_synced g) + 1 + i < 2 ^ 64"
    using le s unat_lt_size [of "events_writer_seq g"] by simp
  have "unat (events_synced g + 1 + of_nat i) = unat (events_synced g) + 1 + i"
  proof -
    have "events_synced g + 1 + of_nat i = of_nat (unat (events_synced g) + 1 + i)" by simp
    then show ?thesis using lt by (simp only:) (rule unat_of_nat_small, simp)
  qed
  moreover have "(unat (events_synced g) + 1 + i) mod 1024 = s mod 1024"
  proof -
    have "(unat (events_synced g) + 1 + i) mod 1024
        = (unat (events_synced g) + 1 + (s - unat (events_synced g) - 1)) mod 1024"
      unfolding i_def by (rule mod_add_right_eq)
    then show ?thesis using s(2) by simp
  qed
  ultimately show ?thesis using iw s(1) by (intro bexI [of _ i]) auto
qed

lemma whole_ring:
  assumes "length f = INPUTFS_EVENTS_SIZE" "length bs = INPUTFS_EVENTS_SIZE"
    and "\<forall>q<1024. slot_eq q f bs"
  shows "blit f 0 (field 0 64 bs) = bs"
proof (rule nth_equalityI)
  have l: "length (field 0 64 bs) = 64" using assms(2) by (simp add: length_field)
  show "length (blit f 0 (field 0 64 bs)) = length bs" using assms l by simp
  fix i assume "i < length (blit f 0 (field 0 64 bs))"
  then have i: "i < length f" using assms l by simp
  show "blit f 0 (field 0 64 bs) ! i = bs ! i"
  proof (cases "i < 64")
    case True
    then show ?thesis using i assms l by (simp add: nth_blit) (simp add: field_def)
  next
    case False
    define q where "q = (i - 64) div 64"
    define j where "j = (i - 64) mod 64"
    have ij: "i = slot_base q + j" "j < 64" using False by (simp_all add: q_def j_def)
    have "q < 1024" using i assms(1) by (simp add: q_def less_mult_imp_div_less)
    then have "field (slot_base q) 64 f ! j = field (slot_base q) 64 bs ! j"
      using assms(3) by (simp add: slot_eq_def)
    then have "f ! i = bs ! i" using ij i assms by (simp add: field_def)
    then show ?thesis using False i assms l by (simp add: nth_blit)
  qed
qed

lemma sync_writes_ring:
  assumes "file_ok g" "\<forall>i. io i = 0" "events_synced g < events_writer_seq g"
  shows "events_file (inputfs_events_sync_to_file io undisturbed g) = Some (events_buf g)"
proof -
  obtain f where f: "events_file g = Some f" "length f = INPUTFS_EVENTS_SIZE"
      "length (events_buf g) = INPUTFS_EVENTS_SIZE"
    and ok: "\<forall>q<1024. q \<notin> pending_slots g \<longrightarrow> slot_eq q f (events_buf g)"
    using assms(1) by (auto simp: file_ok_def split: option.splits)
  let ?w = "if 1024 < events_writer_seq g - events_synced g then 1024
    else events_writer_seq g - events_synced g"
  have d: "unat (events_writer_seq g - events_synced g) = unat (events_writer_seq g) - unat (events_synced g)"
    using assms(3) by (intro unat_sub) simp
  have w: "unat ?w = min 1024 (unat (events_writer_seq g) - unat (events_synced g))"
    by (simp add: word_less_nat_alt d min_def)
  let ?f = "copy_slots (events_synced g) [0..<unat ?w] (events_buf g) f"
  have "slot_eq q ?f (events_buf g)" if "q < 1024" for q
    using ok that pending_covered [OF assms(3), of q, folded w]
    by (intro copy_slots_slot [OF f(2,3) that]) auto
  then have "blit ?f 0 (field 0 64 (events_buf g)) = events_buf g"
    using whole_ring [OF length_copy_slots [OF f(2,3)] f(3)] by blast
  then show ?thesis
    using assms(3) f
    by (simp add: inputfs_events_sync_to_file_def Let_def sync_slots_copies [OF assms(2) f(1)] assms(2)
        write_events_file_def not_le [THEN iffD2] del: upt_Suc)
qed

lemma file_ok_publish:
  assumes "file_ok g" "unat (events_writer_seq g) + 1 < 2 ^ 64"
  shows "file_ok (inputfs_events_publish sr et d f p n g)"
proof -
  obtain fl where fl: "events_file g = Some fl" "length fl = INPUTFS_EVENTS_SIZE"
      "length (events_buf g) = INPUTFS_EVENTS_SIZE" "events_synced g \<le> events_writer_seq g"
    and ok: "\<forall>q<1024. q \<notin> pending_slots g \<longrightarrow> slot_eq q fl (events_buf g)"
    using assms(1) by (auto simp: file_ok_def split: option.splits)
  let ?g = "inputfs_events_publish sr et d f p n g"
  have u: "unat (events_writer_seq g + 1) = unat (events_writer_seq g) + 1"
    by (rule unat_inc_no_wrap) (use assms(2) in simp)
  have sub: "pending_slots g \<subseteq> pending_slots ?g" by (fastforce simp: pending_slots_def u)
  have new: "unat (events_writer_seq g + 1) mod 1024 \<in> pending_slots ?g"
    using fl(4) u by (auto simp: pending_slots_def word_le_nat_alt intro!: exI [of _ "unat (events_writer_seq g) + 1"])
  have "slot_eq q fl (events_buf ?g)" if "q < 1024" "q \<notin> pending_slots ?g" for q
  proof -
    have "q \<noteq> unat (events_writer_seq g + 1) mod 1024" using new that by auto
    then have "slot_eq q (events_buf ?g) (events_buf g)" by (rule publish_keeps_slots [OF fl(3)])
    moreover have "slot_eq q fl (events_buf g)" using ok that sub by auto
    ultimately show ?thesis by (simp add: slot_eq_def)
  qed
  then show ?thesis
    using fl length_publish_buf [OF fl(3)] u by (auto simp: file_ok_def word_le_nat_alt)
qed

lemma publish_buf_file:
  assumes "length (events_buf g) = INPUTFS_EVENTS_SIZE"
  shows "events_buf (inputfs_events_publish sr et d f p n (g\<lparr>events_file := x\<rparr>))
    = events_buf (inputfs_events_publish sr et d f p n g)"
proof -
  have "published_event sr et d f p n (g\<lparr>events_file := x\<rparr>) = published_event sr et d f p n g"
    by (simp add: published_event_def inputfs_clock_samples_now_def)
  then show ?thesis using assms publish_buf [of "g\<lparr>events_file := x\<rparr>"] publish_buf [OF assms] by simp
qed

lemma one_pending:
  assumes "file_ok g" "events_synced g + 1 = events_writer_seq g" "events_writer_seq g \<noteq> 0"
  shows "events_synced g < events_writer_seq g" "events_writer_seq g - events_synced g = 1"
    "pending_slots g = {unat (events_writer_seq g) mod 1024}"
proof -
  have n: "events_synced g \<noteq> - 1" using assms(2,3) by auto
  have u: "unat (events_writer_seq g) = unat (events_synced g) + 1"
    using unat_inc_ne [OF n] assms(2) by simp
  then show "events_synced g < events_writer_seq g" by (simp add: word_less_nat_alt)
  show "events_writer_seq g - events_synced g = 1" using assms(2) by (simp add: algebra_simps)
  have "unat (events_synced g) < s \<and> s \<le> unat (events_writer_seq g) \<longleftrightarrow> s = unat (events_writer_seq g)"
    for s using u by auto
  then show "pending_slots g = {unat (events_writer_seq g) mod 1024}" by (simp add: pending_slots_def)
qed

text \<open>An event published between the last slot write and the header write: the header of the
  file announces an event whose slot in the file still holds something else.\<close>

definition publish_before_write :: "nat \<Rightarrow> publish_args \<Rightarrow> nat \<Rightarrow> inputfs_globals \<Rightarrow> inputfs_globals" where
  "publish_before_write k a i g = (if i = k then publish_args a g else g)"

lemma sync_header_race:
  assumes ok: "events_ok g h" "length h + 1 < 2 ^ 64" and fo: "file_ok g" and io: "\<forall>i. io i = 0"
    and one: "events_synced g + 1 = events_writer_seq g" "h \<noteq> []"
  shows "\<exists>f. events_file (inputfs_events_sync_to_file io (publish_before_write 1 a) g) = Some f \<and>
    unat (get64 f EV_OFF_WRITER_SEQ) = length h + 1 \<and>
    slot_seq f ((length h + 1) mod 1024) \<noteq> length h + 1"
proof -
  let ?k = "length h + 1"
  have nz: "events_writer_seq g \<noteq> 0" and w: "unat (events_writer_seq g) = length h"
    using ok one(2) unat_of_nat_small [of "length h", where ?'n = 64] by (auto simp: events_ok_def)
  note p = one_pending [OF fo one(1) nz]
  obtain f where f: "events_file g = Some f" "length f = INPUTFS_EVENTS_SIZE"
      "length (events_buf g) = INPUTFS_EVENTS_SIZE"
    and old: "\<forall>q<1024. q \<notin> pending_slots g \<longrightarrow> slot_eq q f (events_buf g)"
    using fo by (auto simp: file_ok_def split: option.splits)
  define q where "q = length h mod 1024"
  have q: "q < 1024" "unat (events_writer_seq g) mod 1024 = q" by (simp_all add: q_def w)
  let ?g = "publish_args a g"
  define f1 where "f1 = blit f (slot_base q) (field (slot_base q) 64 (events_buf g))"
  define f2 where "f2 = blit f1 0 (field 0 64 (events_buf ?g))"
  have l1: "length f1 = INPUTFS_EVENTS_SIZE" using f q by (simp add: f1_def)
  obtain sr et d fl py n where a: "a = (sr, et, d, fl, py, n)" by (cases a)
  have lg: "length (events_buf ?g) = INPUTFS_EVENTS_SIZE"
    using length_publish_buf [OF f(3)] by (simp add: a publish_args_def)
  have hl: "length (field 0 64 (events_buf ?g)) = 64" using lg by (simp add: length_field)
  have "events_file (inputfs_events_sync_to_file io (publish_before_write 1 a) g) = Some f2"
    using p(1,2) f q io one(1)
    by (simp add: inputfs_events_sync_to_file_def Let_def publish_before_write_def slot_index
        write_events_file_def f1_def f2_def a publish_args_def publish_buf_file [OF f(3)] not_le [THEN iffD2])
  moreover have "get64 f2 EV_OFF_WRITER_SEQ = of_nat ?k"
  proof -
    have "get64 f2 16 = get64 (events_buf ?g) 16"
      using hl l1 lg unfolding f2_def
      by (simp add: get64_def blit_def) (simp add: field_def drop_take)
    moreover have "events_ok ?g (h @ [recorded_args a g])" using inputfs_ring.ok_publish [OF ok] .
    ultimately show ?thesis by (simp add: events_ok_def)
  qed
  then have "unat (get64 f2 EV_OFF_WRITER_SEQ) = ?k" using ok(2) by (simp only:) (rule unat_of_nat_small, simp)
  moreover have "slot_seq f2 (?k mod 1024) \<noteq> ?k"
  proof -
    have e2: "slot_eq (?k mod 1024) f2 f1" unfolding f2_def using l1 hl by (intro slot_eq_blit) auto
    have k: "?k mod 1024 \<noteq> q" "?k mod 1024 < 1024"
      unfolding q_def by (simp add: mod_Suc) (rule mod_less_divisor, simp)
    have e1: "slot_eq (?k mod 1024) f1 f" unfolding f1_def using slot_eq_copied(2) [OF q(1) f(2,3) k(1)] .
    have "?k mod 1024 \<notin> pending_slots g" using k(1) p(3) q(2) by simp
    then have e0: "slot_eq (?k mod 1024) f (events_buf g)" using old k(2) by blast
    have "slot_eq (?k mod 1024) f2 (events_buf g)" 
      by (rule slot_eq_trans [OF e2 slot_eq_trans [OF e1 e0]])
    then have "slot_seq f2 (?k mod 1024) = slot_seq (events_buf g) (?k mod 1024)"
      by (simp add: slot_eq_def slot_seq_field)
    also have "\<dots> \<le> length h" using events_ok_slot(1) [OF ok(1) k(2)] owner_le by simp
    finally show ?thesis by simp
  qed
  ultimately show ?thesis by blast
qed

text \<open>What the worker leaves alone: it writes only the files, the caches and its own flags.\<close>

definition same_live :: "inputfs_globals \<Rightarrow> inputfs_globals \<Rightarrow> bool" where
  "same_live g g' \<longleftrightarrow> state_buf g' = state_buf g \<and> state_seq g' = state_seq g \<and>
     state_slot_used g' = state_slot_used g \<and> events_buf g' = events_buf g \<and>
     events_writer_seq g' = events_writer_seq g"

lemma refresh_keeps [simp]:
  "state_dirty (inputfs_focus_refresh o1 r1 g) = state_dirty g"
  "state_dirty (inputfs_clock_refresh o1 r1 g) = state_dirty g"
  "state_dirty (inputfs_smoothing_refresh o1 r1 g) = state_dirty g"
  "state_file (inputfs_focus_refresh o1 r1 g) = state_file g"
  "state_file (inputfs_clock_refresh o1 r1 g) = state_file g"
  "state_file (inputfs_smoothing_refresh o1 r1 g) = state_file g"
  "same_live g0 (inputfs_focus_refresh o1 r1 g) = same_live g0 g"
  "same_live g0 (inputfs_clock_refresh o1 r1 g) = same_live g0 g"
  "same_live g0 (inputfs_smoothing_refresh o1 r1 g) = same_live g0 g"
  by (simp_all add: same_live_def inputfs_focus_refresh_def inputfs_clock_refresh_def inputfs_smoothing_refresh_def
      inputfs_focus_open_file_def inputfs_clock_open_file_def inputfs_smoothing_open_file_def
      inputfs_focus_close_file_def inputfs_clock_close_file_def inputfs_smoothing_close_file_def
      Let_def split: sum.splits)

lemma sync_slots_only_file:
  "\<exists>f. sync_slots io undisturbed synced is g \<in> {Inl (g\<lparr>events_file := f\<rparr>), Inr (g\<lparr>events_file := f\<rparr>)}"
proof (induction "is" arbitrary: g)
  case Nil
  have "g = g\<lparr>events_file := events_file g\<rparr>" by simp
  then show ?case by (metis insertCI sync_slots.simps(1))
next
  case (Cons i "is")
  show ?case
  proof (cases "io i = 0")
    case True
    then show ?thesis
      using Cons [of "write_events_file (slot_base (unat ((synced + 1 + of_nat i) AND 1023))) 64 g"]
      by (simp add: Let_def write_events_file_def)
  next
    case False
    have "g = g\<lparr>events_file := events_file g\<rparr>" by simp
    then have "Inl g = Inl (g\<lparr>events_file := events_file g\<rparr>)" by metis
    then show ?thesis using False by (intro exI [of _ "events_file g"]) (simp add: Let_def)
  qed
qed

lemma events_sync_keeps [simp]:
  "state_dirty (inputfs_events_sync_to_file io undisturbed g) = state_dirty g"
  "state_file (inputfs_events_sync_to_file io undisturbed g) = state_file g"
  "same_live g0 (inputfs_events_sync_to_file io undisturbed g) = same_live g0 g"
proof -
  have "state_dirty (inputfs_events_sync_to_file io undisturbed g) = state_dirty g \<and>
      state_file (inputfs_events_sync_to_file io undisturbed g) = state_file g \<and>
      same_live g0 (inputfs_events_sync_to_file io undisturbed g) = same_live g0 g"
    using sync_slots_only_file [of io "events_synced g"
        "[0..<unat (if 1024 < events_writer_seq g - events_synced g then 1024
          else events_writer_seq g - events_synced g)]" g]
    by (auto simp: inputfs_events_sync_to_file_def write_events_file_def same_live_def Let_def
        split: option.splits if_splits)
  then show "state_dirty (inputfs_events_sync_to_file io undisturbed g) = state_dirty g"
    "state_file (inputfs_events_sync_to_file io undisturbed g) = state_file g"
    "same_live g0 (inputfs_events_sync_to_file io undisturbed g) = same_live g0 g" by blast+
qed

lemma worker_turn_live: "same_live g (worker_turn io undisturbed g)"
  by (simp add: worker_turn_def Let_def)
    (simp add: same_live_def inputfs_state_sync_to_file_def split: option.splits)

text \<open>A write that fails is not tried again: the flag that asked for it is already clear.\<close>

lemma failed_sync_forgotten:
  assumes "wio_state io \<noteq> 0"
  shows "\<not> state_dirty (worker_turn io undisturbed g)"
    and "state_file (worker_turn io' undisturbed (worker_turn io undisturbed g)) = state_file g"
  using assms by (simp_all add: worker_turn_def inputfs_state_sync_to_file_def Let_def split: option.splits)

end
