(* ===== verification/Inputfs_Parser.thy ===== *)
theory Inputfs_Parser
  imports Awase_Prelude
begin

text \<open>
  The HID report parser of inputfs (\<^verbatim>\<open>inputfs_parser.c\<close>): locating the pointer, keyboard
  and digitizer fields of a device in its report descriptor, and extracting them from an
  input report. The descriptor parser of the kernel (\<^verbatim>\<open>hid_locate\<close>, \<^verbatim>\<open>hid_get_item\<close>,
  \<^verbatim>\<open>hid_report_size\<close>) is a record of functions, an argument of the locators; reading a
  field from a report is modelled from \<^verbatim>\<open>hid_get_data_sub\<close>.
\<close>

section \<open>HID vocabulary\<close>

record hid_location =
  hl_size :: u32
  hl_count :: u32
  hl_pos :: u32

definition no_loc :: hid_location where "no_loc = \<lparr>hl_size = 0, hl_count = 0, hl_pos = 0\<rparr>"

datatype hid_kind = hid_input | hid_output | hid_feature | hid_collection | hid_endcollection

record hid_item =
  hi_kind :: hid_kind
  hi_usage :: u32
  hi_flags :: u32
  hi_report_ID :: u32
  hi_collection :: u32
  hi_logical_minimum :: int
  hi_logical_maximum :: int
  hi_loc :: hid_location

text \<open>
  What the locators use of the descriptor parser for one descriptor: the occurrence of a
  usage with the given index (its location and report id), the items in order (\<open>None\<close>
  when no parse can be started), and the size of a report.
\<close>

record hid_desc =
  hd_locate :: "u32 \<Rightarrow> hid_kind \<Rightarrow> nat \<Rightarrow> (hid_location \<times> byte) option"
  hd_items :: "hid_item list option"
  hd_report_size :: "hid_kind \<Rightarrow> byte \<Rightarrow> int"

definition HID_USAGE2 :: "u32 \<Rightarrow> u32 \<Rightarrow> u32" where "HID_USAGE2 p u = push_bit 16 p OR u"
definition HID_GET_USAGE_PAGE :: "u32 \<Rightarrow> u32" where
  "HID_GET_USAGE_PAGE u = drop_bit 16 u AND 0xffff"
definition HID_GET_USAGE :: "u32 \<Rightarrow> u32" where "HID_GET_USAGE u = u AND 0xffff"

abbreviation (input) "HUP_GENERIC_DESKTOP \<equiv> 0x0001 :: u32"
abbreviation (input) "HUP_KEYBOARD \<equiv> 0x0007 :: u32"
abbreviation (input) "HUP_BUTTON \<equiv> 0x0009 :: u32"
abbreviation (input) "HUP_DIGITIZERS \<equiv> 0x000d :: u32"
abbreviation (input) "HUG_X \<equiv> 0x0030 :: u32"
abbreviation (input) "HUG_Y \<equiv> 0x0031 :: u32"
abbreviation (input) "HUG_WHEEL \<equiv> 0x0038 :: u32"
abbreviation (input) "HUD_TIP_SWITCH \<equiv> 0x0042 :: u32"
abbreviation (input) "HUD_CONFIDENCE \<equiv> 0x0047 :: u32"
abbreviation (input) "HUD_CONTACTID \<equiv> 0x0051 :: u32"
abbreviation (input) "HUD_INPUT_MODE \<equiv> 0x0052 :: u32"
abbreviation (input) "HUD_CONTACTCOUNT \<equiv> 0x0054 :: u32"
abbreviation (input) "HUD_SCAN_TIME \<equiv> 0x0056 :: u32"
abbreviation (input) "HIO_VARIABLE \<equiv> 0x002 :: u32"

text \<open>
  \<^verbatim>\<open>hid_get_data_sub\<close>: the bytes that hold the field, those past the end of the buffer
  read as zero, shifted down and cut to the field's size.
\<close>

fun hid_bytes :: "buf \<Rightarrow> nat \<Rightarrow> nat \<Rightarrow> u32" where
  "hid_bytes bs rpos 0 = 0"
| "hid_bytes bs rpos (Suc n) =
     (if rpos + n < length bs then push_bit (8 * n) (ucast (bs ! (rpos + n))) else 0)
     OR hid_bytes bs rpos n"

definition hid_get_data_sub :: "buf \<Rightarrow> hid_location \<Rightarrow> bool \<Rightarrow> u32" where
  "hid_get_data_sub bs loc is_signed =
     (let hpos = unat (hl_pos loc); hsize = unat (hl_size loc) in
      if hsize = 0 then 0
      else let hsize = min hsize 32;
               data = hid_bytes bs (hpos div 8) ((hsize + 7) div 8);
               data = drop_bit (hpos mod 8) data;
               n = 32 - hsize
           in if is_signed then signed_drop_bit n (push_bit n data)
              else drop_bit n (push_bit n data))"

definition hid_get_data :: "buf \<Rightarrow> hid_location \<Rightarrow> int" where
  "hid_get_data bs loc = sint (hid_get_data_sub bs loc True)"

definition hid_get_udata :: "buf \<Rightarrow> hid_location \<Rightarrow> u32" where
  "hid_get_udata bs loc = hid_get_data_sub bs loc False"

section \<open>Parser state\<close>

record inputfs_parser_state =
  pointer_locations_valid :: bool
  loc_x :: hid_location
  loc_y :: hid_location
  loc_wheel :: hid_location
  loc_buttons :: hid_location
  loc_x_id :: byte
  loc_y_id :: byte
  loc_wheel_id :: byte
  loc_buttons_id :: byte
  button_count :: nat
  has_wheel :: bool
  keyboard_locations_valid :: bool
  loc_modifiers :: hid_location
  loc_keys :: hid_location
  loc_modifiers_id :: byte
  loc_keys_id :: byte
  prev_modifiers :: byte
  prev_keys :: "byte list"
  digitizer_locations_valid :: bool
  digitizer_report_id :: byte
  loc_tip_switch :: hid_location
  loc_confidence :: hid_location
  loc_contact_id :: hid_location
  loc_touch_x :: hid_location
  loc_touch_y :: hid_location
  loc_scan_time :: hid_location
  loc_contact_count :: hid_location
  loc_touch_button :: hid_location
  touch_x_min :: int
  touch_x_max :: int
  touch_y_min :: int
  touch_y_max :: int
  device_mode_valid :: bool
  device_mode_rid :: byte
  device_mode_rlen :: nat
  loc_device_mode :: hid_location

definition inputfs_report_id_matches :: "byte \<Rightarrow> buf \<Rightarrow> bool" where
  "inputfs_report_id_matches cached_id bs =
     (if length bs = 0 then False else if cached_id = 0 then True else bs ! 0 = cached_id)"

section \<open>Pointer\<close>

text \<open>A failed \<^verbatim>\<open>hid_locate\<close> leaves the zeroed location and id.\<close>

definition located :: "(hid_location \<times> byte) option \<Rightarrow> hid_location \<times> byte" where
  "located r = (case r of None \<Rightarrow> (no_loc, 0) | Some p \<Rightarrow> p)"

fun count_buttons :: "hid_item list \<Rightarrow> nat \<Rightarrow> nat" where
  "count_buttons [] count = count"
| "count_buttons (hi # his) count =
     count_buttons his
       (if hi_kind hi = hid_input \<and> HID_GET_USAGE_PAGE (hi_usage hi) = HUP_BUTTON \<and> count < 32
        then count + 1 else count)"

definition inputfs_pointer_locate ::
  "hid_desc option \<Rightarrow> inputfs_parser_state \<Rightarrow> inputfs_parser_state" where
  "inputfs_pointer_locate rdesc p =
     (let p = p\<lparr>loc_x := no_loc, loc_y := no_loc, loc_wheel := no_loc, loc_buttons := no_loc,
                loc_x_id := 0, loc_y_id := 0, loc_wheel_id := 0, loc_buttons_id := 0,
                button_count := 0, has_wheel := False, pointer_locations_valid := False\<rparr> in
      case rdesc of
        None \<Rightarrow> p
      | Some d \<Rightarrow>
         (let (lx, ix) = located (hd_locate d (HID_USAGE2 HUP_GENERIC_DESKTOP HUG_X) hid_input 0);
              (ly, iy) = located (hd_locate d (HID_USAGE2 HUP_GENERIC_DESKTOP HUG_Y) hid_input 0);
              w = hd_locate d (HID_USAGE2 HUP_GENERIC_DESKTOP HUG_WHEEL) hid_input 0;
              (lw, iw) = located w;
              b = hd_locate d (HID_USAGE2 HUP_BUTTON 1) hid_input 0;
              (lb, ib) = located b;
              cnt = (if b = None then 0
                     else case hd_items d of None \<Rightarrow> 0 | Some his \<Rightarrow> count_buttons his 0)
          in p\<lparr>loc_x := lx, loc_x_id := ix, loc_y := ly, loc_y_id := iy,
               loc_wheel := lw, loc_wheel_id := iw, has_wheel := (w \<noteq> None),
               loc_buttons := lb, loc_buttons_id := ib, button_count := cnt,
               pointer_locations_valid :=
                 (hl_size lx > 0 \<or> hl_size ly > 0 \<or> hl_size lw > 0 \<or> hl_size lb > 0)\<rparr>))"

record pointer_report =
  pr_dx :: int
  pr_dy :: int
  pr_dw :: int
  pr_buttons :: u32

text \<open>The outputs start from the caller's values; a NULL buffer is the empty one.\<close>

definition inputfs_extract_pointer ::
  "inputfs_parser_state \<Rightarrow> buf \<Rightarrow> pointer_report \<Rightarrow> bool \<times> pointer_report" where
  "inputfs_extract_pointer p bs out =
     (if \<not> pointer_locations_valid p \<or> length bs = 0 then (False, out)
      else let mx = (hl_size (loc_x p) > 0 \<and> inputfs_report_id_matches (loc_x_id p) bs);
               my = (hl_size (loc_y p) > 0 \<and> inputfs_report_id_matches (loc_y_id p) bs);
               mw = (hl_size (loc_wheel p) > 0 \<and> inputfs_report_id_matches (loc_wheel_id p) bs);
               mb = (hl_size (loc_buttons p) > 0 \<and> inputfs_report_id_matches (loc_buttons_id p) bs);
               buttons_loc = (if button_count p > 0
                              then (loc_buttons p)\<lparr>hl_size := of_nat (button_count p)\<rparr>
                              else loc_buttons p);
               out = (if mx then out\<lparr>pr_dx := hid_get_data bs (loc_x p)\<rparr> else out);
               out = (if my then out\<lparr>pr_dy := hid_get_data bs (loc_y p)\<rparr> else out);
               out = (if mw then out\<lparr>pr_dw := hid_get_data bs (loc_wheel p)\<rparr> else out);
               out = (if mb then out\<lparr>pr_buttons := hid_get_udata bs buttons_loc\<rparr> else out)
           in (mx \<or> my \<or> mw \<or> mb, out))"

section \<open>Keyboard\<close>

definition keys_array_item :: "hid_item \<Rightarrow> bool" where
  "keys_array_item hi \<longleftrightarrow> hi_kind hi = hid_input \<and> HID_GET_USAGE_PAGE (hi_usage hi) = HUP_KEYBOARD \<and>
     hl_count (hi_loc hi) > 1 \<and> hi_flags hi AND HIO_VARIABLE = 0"

definition inputfs_keyboard_locate ::
  "hid_desc option \<Rightarrow> inputfs_parser_state \<Rightarrow> inputfs_parser_state" where
  "inputfs_keyboard_locate rdesc p =
     (let p = p\<lparr>loc_modifiers := no_loc, loc_keys := no_loc, loc_modifiers_id := 0,
                loc_keys_id := 0, prev_modifiers := 0, prev_keys := replicate 6 0,
                keyboard_locations_valid := False\<rparr> in
      case rdesc of
        None \<Rightarrow> p
      | Some d \<Rightarrow>
         (let (lm, im) = (case hd_locate d (HID_USAGE2 HUP_KEYBOARD 0xE0) hid_input 0 of
                            None \<Rightarrow> (no_loc, 0)
                          | Some (l, i) \<Rightarrow> (l\<lparr>hl_size := 8, hl_count := 1\<rparr>, i));
              (lk, ik) = (case hd_locate d (HID_USAGE2 HUP_KEYBOARD 0x00) hid_input 0 of
                            Some (l, i) \<Rightarrow> (l, i)
                          | None \<Rightarrow>
                             (case hd_items d of
                                None \<Rightarrow> (no_loc, 0)
                              | Some his \<Rightarrow>
                                 (case find keys_array_item his of
                                    None \<Rightarrow> (no_loc, 0)
                                  | Some hi \<Rightarrow> (hi_loc hi, ucast (hi_report_ID hi)))))
          in p\<lparr>loc_modifiers := lm, loc_modifiers_id := im, loc_keys := lk, loc_keys_id := ik,
               keyboard_locations_valid := (hl_size lm > 0 \<or> hl_size lk > 0)\<rparr>))"

fun extract_keys :: "buf \<Rightarrow> hid_location \<Rightarrow> nat \<Rightarrow> nat \<Rightarrow> byte list \<Rightarrow> byte list" where
  "extract_keys bs loc i 0 out = out"
| "extract_keys bs loc i (Suc n) out =
     (let elem = loc\<lparr>hl_pos := hl_pos loc + hl_size loc * of_nat i, hl_count := 1\<rparr>
      in extract_keys bs loc (Suc i) n (out[i := ucast (hid_get_udata bs elem)]))"

definition inputfs_extract_keyboard ::
  "inputfs_parser_state \<Rightarrow> buf \<Rightarrow> byte \<Rightarrow> byte list \<Rightarrow> bool \<times> byte \<times> byte list" where
  "inputfs_extract_keyboard p bs out_modifiers out_keys =
     (if \<not> keyboard_locations_valid p \<or> length bs = 0 then (False, out_modifiers, out_keys)
      else let mm = (hl_size (loc_modifiers p) > 0 \<and>
                     inputfs_report_id_matches (loc_modifiers_id p) bs);
               mk = (hl_size (loc_keys p) > 0 \<and> inputfs_report_id_matches (loc_keys_id p) bs);
               array_count = (if unat (hl_count (loc_keys p)) > 6 then 6
                              else unat (hl_count (loc_keys p)))
           in (mm \<or> mk,
               if mm then ucast (hid_get_udata bs (loc_modifiers p)) else out_modifiers,
               if mk then extract_keys bs (loc_keys p) 0 array_count out_keys else out_keys))"

section \<open>Digitizer\<close>

text \<open>The first of the occurrences \<open>idx\<close>, \<dots> whose report id is the digitizer's.\<close>

fun locate_in_report :: "hid_desc \<Rightarrow> u32 \<Rightarrow> byte \<Rightarrow> nat \<Rightarrow> nat \<Rightarrow> hid_location" where
  "locate_in_report d usage rid idx 0 = no_loc"
| "locate_in_report d usage rid idx (Suc n) =
     (case hd_locate d usage hid_input idx of
        None \<Rightarrow> no_loc
      | Some (l, i) \<Rightarrow> if i = rid then l else locate_in_report d usage rid (Suc idx) n)"

definition locate_once :: "hid_desc \<Rightarrow> u32 \<Rightarrow> byte \<Rightarrow> hid_location" where
  "locate_once d usage rid =
     (case hd_locate d usage hid_input 0 of
        None \<Rightarrow> no_loc | Some (l, i) \<Rightarrow> if i \<noteq> rid then no_loc else l)"

fun touch_ranges :: "byte \<Rightarrow> hid_item list \<Rightarrow> inputfs_parser_state \<Rightarrow> inputfs_parser_state" where
  "touch_ranges rid [] p = p"
| "touch_ranges rid (hi # his) p =
     touch_ranges rid his
       (if hi_kind hi \<noteq> hid_input then p
        else if hi_report_ID hi \<noteq> ucast rid then p
        else if hi_usage hi = HID_USAGE2 HUP_GENERIC_DESKTOP HUG_X
        then p\<lparr>touch_x_min := hi_logical_minimum hi, touch_x_max := hi_logical_maximum hi\<rparr>
        else if hi_usage hi = HID_USAGE2 HUP_GENERIC_DESKTOP HUG_Y
        then p\<lparr>touch_y_min := hi_logical_minimum hi, touch_y_max := hi_logical_maximum hi\<rparr>
        else p)"

definition locate_device_mode :: "hid_desc \<Rightarrow> inputfs_parser_state \<Rightarrow> inputfs_parser_state" where
  "locate_device_mode d p =
     (let p = p\<lparr>loc_device_mode := no_loc, device_mode_rid := 0, device_mode_rlen := 0,
                device_mode_valid := False\<rparr> in
      case hd_locate d (HID_USAGE2 HUP_DIGITIZERS HUD_INPUT_MODE) hid_feature 0 of
        None \<Rightarrow> p
      | Some (l, i) \<Rightarrow>
         (let rsize = hd_report_size d hid_feature i in
          if rsize > 0 \<and> hl_size l > 0
          then p\<lparr>loc_device_mode := l, device_mode_rid := i, device_mode_rlen := nat rsize,
                 device_mode_valid := True\<rparr>
          else p))"

definition inputfs_digitizer_locate ::
  "hid_desc option \<Rightarrow> inputfs_parser_state \<Rightarrow> inputfs_parser_state" where
  "inputfs_digitizer_locate rdesc p =
     (let p = p\<lparr>loc_tip_switch := no_loc, loc_confidence := no_loc, loc_contact_id := no_loc,
                loc_touch_x := no_loc, loc_touch_y := no_loc, loc_scan_time := no_loc,
                loc_contact_count := no_loc, loc_touch_button := no_loc,
                digitizer_report_id := 0, digitizer_locations_valid := False,
                touch_x_min := 0, touch_x_max := 0, touch_y_min := 0, touch_y_max := 0\<rparr> in
      case rdesc of
        None \<Rightarrow> p
      | Some d \<Rightarrow>
         (case hd_locate d (HID_USAGE2 HUP_DIGITIZERS HUD_TIP_SWITCH) hid_input 0 of
            None \<Rightarrow> p
          | Some (lt, rid) \<Rightarrow>
             (let p = p\<lparr>loc_tip_switch := lt, digitizer_report_id := rid,
                   loc_touch_x := locate_in_report d (HID_USAGE2 HUP_GENERIC_DESKTOP HUG_X) rid 0 8,
                   loc_touch_y := locate_in_report d (HID_USAGE2 HUP_GENERIC_DESKTOP HUG_Y) rid 0 8,
                   loc_confidence := locate_once d (HID_USAGE2 HUP_DIGITIZERS HUD_CONFIDENCE) rid,
                   loc_contact_id := locate_once d (HID_USAGE2 HUP_DIGITIZERS HUD_CONTACTID) rid,
                   loc_scan_time := locate_once d (HID_USAGE2 HUP_DIGITIZERS HUD_SCAN_TIME) rid,
                   loc_contact_count :=
                     locate_once d (HID_USAGE2 HUP_DIGITIZERS HUD_CONTACTCOUNT) rid,
                   loc_touch_button := locate_in_report d (HID_USAGE2 HUP_BUTTON 1) rid 0 8\<rparr>;
                  p = (case hd_items d of None \<Rightarrow> p | Some his \<Rightarrow> touch_ranges rid his p);
                  p = locate_device_mode d p
              in p\<lparr>digitizer_locations_valid :=
                     (hl_size (loc_tip_switch p) > 0 \<and> hl_size (loc_touch_x p) > 0 \<and>
                      hl_size (loc_touch_y p) > 0)\<rparr>)))"

record touch_report =
  tr_tip_switch :: byte
  tr_confidence :: byte
  tr_contact_id :: byte
  tr_x :: int
  tr_y :: int
  tr_scan_time :: u32
  tr_contact_count :: byte
  tr_button :: byte

definition get8 :: "buf \<Rightarrow> hid_location \<Rightarrow> byte \<Rightarrow> byte" where
  "get8 body loc old = (if hl_size loc > 0 then ucast (hid_get_udata body loc) else old)"

definition inputfs_extract_digitizer ::
  "inputfs_parser_state \<Rightarrow> buf \<Rightarrow> touch_report \<Rightarrow> bool \<times> touch_report" where
  "inputfs_extract_digitizer p bs out =
     (if length bs = 0 then (False, out)
      else if \<not> digitizer_locations_valid p then (False, out)
      else if \<not> inputfs_report_id_matches (digitizer_report_id p) bs then (False, out)
      else let body = drop 1 bs in
        (True,
         \<lparr>tr_tip_switch = get8 body (loc_tip_switch p) (tr_tip_switch out),
          tr_confidence = get8 body (loc_confidence p) 1,
          tr_contact_id = get8 body (loc_contact_id p) (tr_contact_id out),
          tr_x = (if hl_size (loc_touch_x p) > 0 then sint (hid_get_udata body (loc_touch_x p))
                  else tr_x out),
          tr_y = (if hl_size (loc_touch_y p) > 0 then sint (hid_get_udata body (loc_touch_y p))
                  else tr_y out),
          tr_scan_time = (if hl_size (loc_scan_time p) > 0
                          then hid_get_udata body (loc_scan_time p) else tr_scan_time out),
          tr_contact_count = get8 body (loc_contact_count p) (tr_contact_count out),
          tr_button = get8 body (loc_touch_button p) (tr_button out)\<rparr>))"

section \<open>Reading fields\<close>

lemma drop_push_take: "drop_bit n (push_bit n w) = take_bit (LENGTH('n) - n) w" for w :: "'n::len word"
  by (rule bit_eqI) (auto simp: bit_simps)

lemma hid_get_udata_take:
  "hid_get_udata bs loc =
     take_bit (min (unat (hl_size loc)) 32)
       (drop_bit (unat (hl_pos loc) mod 8)
         (hid_bytes bs (unat (hl_pos loc) div 8) ((min (unat (hl_size loc)) 32 + 7) div 8)))"
  by (simp add: hid_get_udata_def hid_get_data_sub_def Let_def drop_push_take)

text \<open>A field of \<open>n\<close> bits reads as a number below \<open>2 ^ n\<close>.\<close>

lemma hid_get_udata_bound: "unat (hid_get_udata bs loc) < 2 ^ unat (hl_size loc)"
proof -
  have "unat (hid_get_udata bs loc) < 2 ^ min (unat (hl_size loc)) 32"
    unfolding hid_get_udata_take by (simp add: unsigned_take_bit_eq)
  also have "\<dots> \<le> 2 ^ unat (hl_size loc)" by (intro power_increasing) simp_all
  finally show ?thesis .
qed

text \<open>A byte in front of the buffer is a shift of the field by eight bits.\<close>

lemma hid_bytes_Cons: "hid_bytes (b # bs) (Suc rpos) n = hid_bytes bs rpos n"
  by (induction n) simp_all

lemma hid_get_data_Cons:
  assumes "unat (hl_pos loc) + 8 < 2 ^ 32"
  shows "hid_get_data_sub (b # bs) (loc\<lparr>hl_pos := hl_pos loc + 8\<rparr>) sg = hid_get_data_sub bs loc sg"
proof -
  have p: "unat (hl_pos loc + 8) = unat (hl_pos loc) + 8"
    using assms by (subst unat_add_no_wrap) simp_all
  have "(unat (hl_pos loc) + 8) div 8 = Suc (unat (hl_pos loc) div 8)"
    "(unat (hl_pos loc) + 8) mod 8 = unat (hl_pos loc) mod 8" by simp_all
  then show ?thesis by (simp add: hid_get_data_sub_def Let_def p hid_bytes_Cons)
qed

section \<open>Locators\<close>

definition is_button :: "hid_item \<Rightarrow> bool" where
  "is_button hi \<longleftrightarrow> hi_kind hi = hid_input \<and> HID_GET_USAGE_PAGE (hi_usage hi) = HUP_BUTTON"

lemma count_buttons_acc:
  "c \<le> 32 \<Longrightarrow> count_buttons his c = min 32 (c + length (filter is_button his))"
  by (induction his arbitrary: c) (auto simp: is_button_def)

lemma count_buttons: "count_buttons his 0 = min 32 (length (filter is_button his))"
  by (simp add: count_buttons_acc)

lemma pointer_locate_button_count: "button_count (inputfs_pointer_locate rdesc p) \<le> 32"
  by (auto simp: inputfs_pointer_locate_def Let_def count_buttons split: option.splits prod.splits)

text \<open>A location the descriptor gives for a usage inside one report.\<close>

definition in_report :: "hid_desc \<Rightarrow> u32 \<Rightarrow> byte \<Rightarrow> hid_location \<Rightarrow> bool" where
  "in_report d usage rid l \<longleftrightarrow> (\<exists>idx. hd_locate d usage hid_input idx = Some (l, rid))"

lemma no_loc_size [simp]: "hl_size no_loc = 0"
  by (simp add: no_loc_def)

lemma locate_in_report:
  "hl_size (locate_in_report d usage rid idx n) > 0 \<Longrightarrow>
   in_report d usage rid (locate_in_report d usage rid idx n)"
proof (induction n arbitrary: idx)
  case (Suc n)
  show ?case
  proof (cases "hd_locate d usage hid_input idx")
    case None
    then show ?thesis using Suc.prems by simp
  next
    case (Some a)
    obtain l i where a: "a = (l, i)" by (cases a)
    show ?thesis
    proof (cases "i = rid")
      case True
      then have "in_report d usage rid l" using Some a by (auto simp: in_report_def)
      with True Some a show ?thesis by simp
    next
      case False
      then show ?thesis using Suc.IH [of "Suc idx"] Suc.prems Some a by simp
    qed
  qed
qed simp

lemma locate_once:
  "hl_size (locate_once d usage rid) > 0 \<Longrightarrow> in_report d usage rid (locate_once d usage rid)"
  by (auto simp: locate_once_def in_report_def split: option.splits prod.splits if_splits)

lemma touch_ranges_locs:
  "loc_tip_switch (touch_ranges rid his p) = loc_tip_switch p"
  "loc_touch_x (touch_ranges rid his p) = loc_touch_x p"
  "loc_touch_y (touch_ranges rid his p) = loc_touch_y p"
  "loc_confidence (touch_ranges rid his p) = loc_confidence p"
  "loc_contact_id (touch_ranges rid his p) = loc_contact_id p"
  "loc_scan_time (touch_ranges rid his p) = loc_scan_time p"
  "loc_contact_count (touch_ranges rid his p) = loc_contact_count p"
  "loc_touch_button (touch_ranges rid his p) = loc_touch_button p"
  "digitizer_report_id (touch_ranges rid his p) = digitizer_report_id p"
  by (induction his arbitrary: p) simp_all

lemma device_mode_locs:
  "loc_tip_switch (locate_device_mode d p) = loc_tip_switch p"
  "loc_touch_x (locate_device_mode d p) = loc_touch_x p"
  "loc_touch_y (locate_device_mode d p) = loc_touch_y p"
  "loc_confidence (locate_device_mode d p) = loc_confidence p"
  "loc_contact_id (locate_device_mode d p) = loc_contact_id p"
  "loc_scan_time (locate_device_mode d p) = loc_scan_time p"
  "loc_contact_count (locate_device_mode d p) = loc_contact_count p"
  "loc_touch_button (locate_device_mode d p) = loc_touch_button p"
  "digitizer_report_id (locate_device_mode d p) = digitizer_report_id p"
  by (simp_all add: locate_device_mode_def Let_def split: option.splits prod.splits)

lemmas locator_frame = touch_ranges_locs device_mode_locs

text \<open>The result of the digitizer locator, field by field, when there is a tip switch.\<close>

lemma digitizer_locate_fields:
  assumes "hd_locate d (HID_USAGE2 HUP_DIGITIZERS HUD_TIP_SWITCH) hid_input 0 = Some (lt, rid)"
  shows "let q = inputfs_digitizer_locate (Some d) p in
    digitizer_report_id q = rid \<and> loc_tip_switch q = lt \<and>
    loc_touch_x q = locate_in_report d (HID_USAGE2 HUP_GENERIC_DESKTOP HUG_X) rid 0 8 \<and>
    loc_touch_y q = locate_in_report d (HID_USAGE2 HUP_GENERIC_DESKTOP HUG_Y) rid 0 8 \<and>
    loc_confidence q = locate_once d (HID_USAGE2 HUP_DIGITIZERS HUD_CONFIDENCE) rid \<and>
    loc_contact_id q = locate_once d (HID_USAGE2 HUP_DIGITIZERS HUD_CONTACTID) rid \<and>
    loc_scan_time q = locate_once d (HID_USAGE2 HUP_DIGITIZERS HUD_SCAN_TIME) rid \<and>
    loc_contact_count q = locate_once d (HID_USAGE2 HUP_DIGITIZERS HUD_CONTACTCOUNT) rid \<and>
    loc_touch_button q = locate_in_report d (HID_USAGE2 HUP_BUTTON 1) rid 0 8 \<and>
    digitizer_locations_valid q = (hl_size (loc_tip_switch q) > 0 \<and> hl_size (loc_touch_x q) > 0 \<and>
      hl_size (loc_touch_y q) > 0)"
  using assms
  by (simp add: inputfs_digitizer_locate_def Let_def locator_frame split: option.split)

section \<open>Extraction\<close>

lemma length_extract_keys [simp]: "length (extract_keys bs loc i n out) = length out"
  by (induction n arbitrary: i out) (simp_all add: Let_def)

definition key_loc :: "hid_location \<Rightarrow> nat \<Rightarrow> hid_location" where
  "key_loc loc i = loc\<lparr>hl_pos := hl_pos loc + hl_size loc * of_nat i, hl_count := 1\<rparr>"

lemma nth_extract_keys:
  "i + n \<le> length out \<Longrightarrow> j < length out \<Longrightarrow>
   extract_keys bs loc i n out ! j =
     (if i \<le> j \<and> j < i + n then ucast (hid_get_udata bs (key_loc loc j)) else out ! j)"
  by (induction n arbitrary: i out) (auto simp: Let_def key_loc_def nth_list_update)

end
