(* ===== verification/Inputfs_Kbdmux.thy ===== *)
theory Inputfs_Kbdmux
  imports Bounded_Fifo
begin

text \<open>
  The keyboard bridge of \<^verbatim>\<open>inputfs_kbdmux.c\<close>: the scancode ring between the interrupt
  path and the console's keyboard multiplexer, the translation of HID usages to AT
  scancodes, and the keyboard-switch callbacks. The ring has one producer and one consumer,
  each with its own counter, so its two operations are modelled as atomic steps. The
  callback that the deferred task makes and the result of \<^verbatim>\<open>kbd_register\<close> are arguments.
\<close>

section \<open>Bridge state\<close>

abbreviation (input) INPUTFS_KBD_BUF_SIZE :: nat where "INPUTFS_KBD_BUF_SIZE \<equiv> 1024"

record inputfs_kbd_softc =
  kb_active :: bool
  kb_count :: u32
  sc_input :: "u32 list"
  sc_input_head :: u32
  sc_input_tail :: u32
  sc_mode :: u32
  sc_state :: u32
  sc_accents :: u32
  sc_task_enqueued :: bool

definition inputfs_kbd_trtab :: "u16 list" where
  "inputfs_kbd_trtab =
    [0, 0, 0, 0, 30, 48, 46, 32, 18, 33, 34, 35, 23, 36, 37, 38,
     50, 49, 24, 25, 16, 19, 31, 20, 22, 47, 17, 45, 21, 44, 2, 3,
     4, 5, 6, 7, 8, 9, 10, 11, 28, 1, 14, 15, 57, 12, 13, 26,
     27, 43, 43, 39, 40, 41, 51, 52, 53, 58, 59, 60, 61, 62, 63, 64,
     65, 66, 67, 68, 87, 88, 92, 70, 104, 0xE052, 0xE047, 0xE049, 0xE053, 0xE04F, 0xE051, 0xE04D,
     0xE04B, 0xE050, 0xE048, 69, 0xE035, 55, 74, 78, 0xE01C, 79, 80, 81, 75, 76, 77, 71,
     72, 73, 82, 83, 86, 107, 122, 0, 0, 0, 0, 0, 0, 0, 0, 0,
     0, 0, 0, 0, 115, 108, 111, 113, 109, 110, 112, 118, 114, 116, 117, 119,
     121, 120, 0, 0, 0, 0, 0, 123, 124, 125, 126, 127, 128, 0, 0, 0,
     129, 130, 0, 0, 0, 0, 0, 0, 0, 0, 0, 0, 0, 0, 0, 0,
     0, 0, 0, 0, 0, 0, 0, 0, 0, 0, 0, 0, 0, 0, 0, 0,
     0, 0, 0, 0, 0, 0, 0, 0, 0, 0, 0, 0, 0, 0, 0, 0,
     0, 0, 0, 0, 0, 0, 0, 0, 0, 0, 0, 0, 0, 0, 0, 0,
     0, 0, 0, 0, 0, 0, 0, 0, 0, 0, 0, 0, 0, 0, 0, 0,
     29, 42, 56, 0xE05B, 0xE01D, 54, 0xE038, 0xE05C, 0, 0, 0, 0, 0, 0, 0, 0,
     0, 0, 0, 0, 0, 0, 0, 0, 0, 0, 0, 0, 0, 0, 0, 0]"

section \<open>The scancode ring\<close>

definition inputfs_kbd_put_key :: "u32 \<Rightarrow> inputfs_kbd_softc \<Rightarrow> inputfs_kbd_softc" where
  "inputfs_kbd_put_key key sc =
    (let head = sc_input_head sc;
         tail = sc_input_tail sc
     in if 1024 \<le> head - tail then sc
        else sc\<lparr>sc_input := (sc_input sc)[unat (head AND 1023) := key], sc_input_head := head + 1\<rparr>)"

text \<open>The byte, or \<open>None\<close> for the return value \<open>-1\<close> of an empty ring.\<close>

definition inputfs_kbd_get_key :: "inputfs_kbd_softc \<Rightarrow> u32 option \<times> inputfs_kbd_softc" where
  "inputfs_kbd_get_key sc =
    (let tail = sc_input_tail sc;
         head = sc_input_head sc
     in if tail = head then (None, sc)
        else (Some (sc_input sc ! unat (tail AND 1023)), sc\<lparr>sc_input_tail := tail + 1\<rparr>))"

definition inputfs_kbd_input_pending :: "inputfs_kbd_softc \<Rightarrow> bool" where
  "inputfs_kbd_input_pending sc = (sc_input_tail sc \<noteq> sc_input_head sc)"

definition inputfs_kbd_emit_at :: "byte \<Rightarrow> bool \<Rightarrow> inputfs_kbd_softc \<Rightarrow> inputfs_kbd_softc" where
  "inputfs_kbd_emit_at hid_usage down sc =
    (let entry = inputfs_kbd_trtab ! unat hid_usage
     in if entry = 0 then sc
        else
          let prefix = (ucast (drop_bit 8 entry) :: byte);
              scancode = (ucast (entry AND 0xff) :: byte);
              sc = (if prefix \<noteq> 0 then inputfs_kbd_put_key (ucast prefix) sc else sc);
              scancode = (if \<not> down then scancode OR 0x80 else scancode)
          in inputfs_kbd_put_key (ucast scancode) sc)"

definition inputfs_kbd_intr_cb :: "byte \<Rightarrow> bool \<Rightarrow> inputfs_kbd_softc \<Rightarrow> inputfs_kbd_softc" where
  "inputfs_kbd_intr_cb hid_usage down sc =
    (inputfs_kbd_emit_at hid_usage down sc)\<lparr>sc_task_enqueued := True\<rparr>"

text \<open>The deferred task runs the registered callback, if there is one, on the keyboard.\<close>

definition inputfs_kbd_notify_task ::
  "(inputfs_kbd_softc \<Rightarrow> inputfs_kbd_softc) option \<Rightarrow> inputfs_kbd_softc \<Rightarrow> inputfs_kbd_softc" where
  "inputfs_kbd_notify_task callback sc =
    (let sc = sc\<lparr>sc_task_enqueued := False\<rparr>
     in case callback of None \<Rightarrow> sc | Some kc_func \<Rightarrow> kc_func sc)"

section \<open>Keyboard-switch callbacks\<close>

definition inputfs_kbd_sw_enable :: "inputfs_kbd_softc \<Rightarrow> inputfs_kbd_softc" where
  "inputfs_kbd_sw_enable sc = sc\<lparr>kb_active := True\<rparr>"

definition inputfs_kbd_sw_disable :: "inputfs_kbd_softc \<Rightarrow> inputfs_kbd_softc" where
  "inputfs_kbd_sw_disable sc = sc\<lparr>kb_active := False\<rparr>"

text \<open>\<open>None\<close> is \<open>-1\<close> for \<open>read\<close> and \<^verbatim>\<open>NOKEY\<close> for \<open>read_char\<close>.\<close>

definition inputfs_kbd_sw_read :: "inputfs_kbd_softc \<Rightarrow> u32 option \<times> inputfs_kbd_softc" where
  "inputfs_kbd_sw_read sc =
    (if \<not> kb_active sc then (None, sc)
     else case inputfs_kbd_get_key sc of
            (None, sc) \<Rightarrow> (None, sc)
          | (Some key, sc) \<Rightarrow> (Some (key AND 0xff), sc\<lparr>kb_count := kb_count sc + 1\<rparr>))"

definition inputfs_kbd_sw_check :: "inputfs_kbd_softc \<Rightarrow> bool" where
  "inputfs_kbd_sw_check sc = (if \<not> kb_active sc then False else inputfs_kbd_input_pending sc)"

definition inputfs_kbd_sw_read_char :: "inputfs_kbd_softc \<Rightarrow> u32 option \<times> inputfs_kbd_softc" where
  "inputfs_kbd_sw_read_char sc =
    (if \<not> kb_active sc then (None, sc)
     else case inputfs_kbd_get_key sc of
            (None, sc) \<Rightarrow> (None, sc)
          | (Some key, sc) \<Rightarrow> (Some (key AND 0xff), sc\<lparr>kb_count := kb_count sc + 1\<rparr>))"

definition inputfs_kbd_sw_check_char :: "inputfs_kbd_softc \<Rightarrow> bool" where
  "inputfs_kbd_sw_check_char sc = (if \<not> kb_active sc then False else inputfs_kbd_input_pending sc)"

text \<open>The keyboard ioctls, with the modes and the lock mask of the console's headers.\<close>

datatype kbd_cmd =
    KDGKBMODE | KDSKBMODE u32 | KDGETLED | KDSETLED u32 | KDGKBSTATE | KDSKBSTATE u32
  | KDSETREPEAT | KDSETRAD | PIO_KEYMAP | PIO_KEYMAPENT | PIO_DEADKEYMAP | KBD_OTHER

abbreviation (input) K_RAW :: u32 where "K_RAW \<equiv> 0"
abbreviation (input) K_XLATE :: u32 where "K_XLATE \<equiv> 1"
abbreviation (input) K_CODE :: u32 where "K_CODE \<equiv> 2"
abbreviation (input) LOCK_MASK :: u32 where "LOCK_MASK \<equiv> 7"

datatype kbd_err = KBD_EINVAL | KBD_ENOIOCTL

text \<open>An error, or the value stored in the caller's argument (if any) and the new state.\<close>

definition inputfs_kbd_sw_ioctl ::
  "kbd_cmd \<Rightarrow> inputfs_kbd_softc \<Rightarrow> kbd_err + (u32 option \<times> inputfs_kbd_softc)" where
  "inputfs_kbd_sw_ioctl cmd sc =
    (case cmd of
       KDGKBMODE \<Rightarrow> Inr (Some (sc_mode sc), sc)
     | KDSKBMODE i \<Rightarrow>
         if i \<noteq> K_XLATE \<and> i \<noteq> K_RAW \<and> i \<noteq> K_CODE then Inl KBD_EINVAL
         else Inr (None, sc\<lparr>sc_mode := i\<rparr>)
     | KDGETLED \<Rightarrow> Inr (Some (sc_state sc AND LOCK_MASK), sc)
     | KDSETLED i \<Rightarrow> Inr (None, sc\<lparr>sc_state := (sc_state sc AND NOT LOCK_MASK) OR (i AND LOCK_MASK)\<rparr>)
     | KDGKBSTATE \<Rightarrow> Inr (Some (sc_state sc AND LOCK_MASK), sc)
     | KDSKBSTATE i \<Rightarrow>
         if i AND NOT LOCK_MASK \<noteq> 0 then Inl KBD_EINVAL
         else Inr (None, sc\<lparr>sc_state := (sc_state sc AND NOT LOCK_MASK) OR i\<rparr>)
     | KDSETREPEAT \<Rightarrow> Inr (None, sc)
     | KDSETRAD \<Rightarrow> Inr (None, sc)
     | PIO_KEYMAP \<Rightarrow> Inl KBD_ENOIOCTL
     | PIO_KEYMAPENT \<Rightarrow> Inl KBD_ENOIOCTL
     | PIO_DEADKEYMAP \<Rightarrow> Inl KBD_ENOIOCTL
     | KBD_OTHER \<Rightarrow> Inl KBD_ENOIOCTL)"

definition inputfs_kbd_sw_clear_state :: "inputfs_kbd_softc \<Rightarrow> inputfs_kbd_softc" where
  "inputfs_kbd_sw_clear_state sc = sc\<lparr>sc_state := 0, sc_accents := 0\<rparr>"

section \<open>Bridge life cycle\<close>

definition inputfs_kbd_bridge_attach :: "int \<Rightarrow> inputfs_kbd_softc option" where
  "inputfs_kbd_bridge_attach kbd_register =
    (let sc = \<lparr>kb_active = False, kb_count = 0, sc_input = replicate INPUTFS_KBD_BUF_SIZE 0,
               sc_input_head = 0, sc_input_tail = 0, sc_mode = 0, sc_state = 0, sc_accents = 0,
               sc_task_enqueued = False\<rparr>
     in if kbd_register < 0 then None else Some sc)"

definition inputfs_kbd_bridge_intr_cb ::
  "inputfs_kbd_softc option \<Rightarrow> byte \<Rightarrow> bool \<Rightarrow> inputfs_kbd_softc option" where
  "inputfs_kbd_bridge_intr_cb bridge hid_usage down =
    (case bridge of None \<Rightarrow> None | Some sc \<Rightarrow> Some (inputfs_kbd_intr_cb hid_usage down sc))"

section \<open>The ring is a bounded queue\<close>

definition ring_len :: "inputfs_kbd_softc \<Rightarrow> nat" where
  "ring_len sc = unat (sc_input_head sc - sc_input_tail sc)"

definition ring_items :: "inputfs_kbd_softc \<Rightarrow> u32 list" where
  "ring_items sc = map (\<lambda>i. sc_input sc ! ((unat (sc_input_tail sc) + i) mod 1024)) [0..<ring_len sc]"

definition kbd_ring_ok :: "inputfs_kbd_softc \<Rightarrow> bool" where
  "kbd_ring_ok sc \<longleftrightarrow> length (sc_input sc) = INPUTFS_KBD_BUF_SIZE \<and> ring_len sc \<le> INPUTFS_KBD_BUF_SIZE"

lemma and_1023: "unat (w AND 1023 :: u32) = unat w mod 1024"
  using unat_and_mask [of w 10] by (simp add: mask_eq_exp_minus_1)

text \<open>The counters wrap at 32 bits, a multiple of the ring size.\<close>

lemma unat_add_mod_1024: "unat (a + b :: u32) mod 1024 = (unat a + unat b) mod 1024"
proof -
  have "unat (a + b) = (unat a + unat b) mod 2 ^ 32" by (simp add: unat_word_ariths)
  then show ?thesis using mod_mod_cancel [of "1024 :: nat" "2 ^ 32" "unat a + unat b"] by simp
qed

lemma head_index: "unat (sc_input_head sc) mod 1024 = (unat (sc_input_tail sc) + ring_len sc) mod 1024"
  using unat_add_mod_1024 [of "sc_input_tail sc" "sc_input_head sc - sc_input_tail sc"]
  by (simp add: ring_len_def)

lemma length_ring_items [simp]: "length (ring_items sc) = ring_len sc"
  by (simp add: ring_items_def)

lemma put_key_full: "ring_len sc \<ge> 1024 \<Longrightarrow> inputfs_kbd_put_key key sc = sc"
  by (simp add: inputfs_kbd_put_key_def ring_len_def word_le_nat_alt)

lemma distinct_offsets:
  assumes "i < j" "j < (1024::nat)"
  shows "(t + i) mod 1024 \<noteq> (t + j) mod 1024"
proof
  assume "(t + i) mod 1024 = (t + j) mod 1024"
  then have "1024 dvd (t + j) - (t + i)" using assms by (subst mod_eq_dvd_iff_nat [symmetric]) auto
  then show False using assms by (auto dest: dvd_imp_le)
qed

lemma put_key_room:
  assumes "length (sc_input sc) = INPUTFS_KBD_BUF_SIZE" "ring_len sc < 1024"
  shows "ring_items (inputfs_kbd_put_key key sc) = ring_items sc @ [key]"
    and "length (sc_input (inputfs_kbd_put_key key sc)) = INPUTFS_KBD_BUF_SIZE"
    and "ring_len (inputfs_kbd_put_key key sc) = ring_len sc + 1"
proof -
  let ?h = "(unat (sc_input_tail sc) + ring_len sc) mod 1024"
  have p: "inputfs_kbd_put_key key sc
      = sc\<lparr>sc_input := (sc_input sc)[?h := key], sc_input_head := sc_input_head sc + 1\<rparr>"
    using assms(2) head_index [of sc]
    by (simp add: inputfs_kbd_put_key_def ring_len_def word_le_nat_alt and_1023 Let_def)
  have "sc_input_head (inputfs_kbd_put_key key sc) - sc_input_tail (inputfs_kbd_put_key key sc)
      = (sc_input_head sc - sc_input_tail sc) + 1" by (simp add: p)
  moreover have "unat ((sc_input_head sc - sc_input_tail sc) + 1) = ring_len sc + 1"
    unfolding ring_len_def using assms(2) by (intro unat_inc_no_wrap) (simp add: ring_len_def)
  ultimately show l: "ring_len (inputfs_kbd_put_key key sc) = ring_len sc + 1"
    unfolding ring_len_def by (simp only:)
  show "length (sc_input (inputfs_kbd_put_key key sc)) = INPUTFS_KBD_BUF_SIZE" using assms(1) by (simp add: p)
  show "ring_items (inputfs_kbd_put_key key sc) = ring_items sc @ [key]"
    unfolding ring_items_def l using assms distinct_offsets [of _ "ring_len sc" "unat (sc_input_tail sc)"]
    by (auto simp: p intro!: nth_list_update_neq [OF not_sym])
qed

lemma get_key_some:
  assumes "kbd_ring_ok sc" "sc_input_tail sc \<noteq> sc_input_head sc"
  shows "\<exists>k. inputfs_kbd_get_key sc = (Some k, sc\<lparr>sc_input_tail := sc_input_tail sc + 1\<rparr>) \<and>
     ring_items sc = k # ring_items (sc\<lparr>sc_input_tail := sc_input_tail sc + 1\<rparr>)"
proof -
  let ?s = "sc\<lparr>sc_input_tail := sc_input_tail sc + 1\<rparr>"
  have nz: "sc_input_head sc - sc_input_tail sc \<noteq> 0" using assms(2) by simp
  then have pos: "0 < ring_len sc" by (simp add: ring_len_def unat_gt_0)
  have "sc_input_head sc - (sc_input_tail sc + 1) = (sc_input_head sc - sc_input_tail sc) - 1" by simp
  moreover have "unat ((sc_input_head sc - sc_input_tail sc) - 1) = ring_len sc - 1"
    unfolding ring_len_def using nz by (rule unat_minus_one)
  ultimately have l: "ring_len ?s = ring_len sc - 1" by (simp add: ring_len_def diff_diff_eq)
  have t: "(unat (sc_input_tail sc + 1) + i) mod 1024 = (unat (sc_input_tail sc) + Suc i) mod 1024" for i
    using unat_add_mod_1024 [of "sc_input_tail sc" 1] by (simp add: mod_add_cong)
  have "ring_items sc = (sc_input sc ! (unat (sc_input_tail sc) mod 1024)) # ring_items ?s"
    unfolding ring_items_def l using pos
    by (cases "ring_len sc") (auto simp: t upt_conv_Cons map_Suc_upt [symmetric] simp del: upt_Suc)
  then show ?thesis using assms(2) by (simp add: inputfs_kbd_get_key_def Let_def and_1023)
qed

definition kbd_put :: "inputfs_kbd_softc \<Rightarrow> u32 \<Rightarrow> bool \<times> inputfs_kbd_softc" where
  "kbd_put sc key = (\<not> 1024 \<le> sc_input_head sc - sc_input_tail sc, inputfs_kbd_put_key key sc)"

definition kbd_get :: "inputfs_kbd_softc \<Rightarrow> (u32 \<times> inputfs_kbd_softc) option" where
  "kbd_get sc = (case inputfs_kbd_get_key sc of (None, _) \<Rightarrow> None | (Some k, sc') \<Rightarrow> Some (k, sc'))"

lemma full_iff: "1024 \<le> sc_input_head sc - sc_input_tail sc \<longleftrightarrow> 1024 \<le> ring_len sc"
  by (simp add: ring_len_def word_le_nat_alt)

interpretation kbd_ring: bounded_fifo kbd_put kbd_get ring_items "\<lambda>_. 1" INPUTFS_KBD_BUF_SIZE kbd_ring_ok
proof (unfold_locales, goal_cases)
  case (1 sc key ok sc')
  show ?case
  proof (cases "1024 \<le> ring_len sc")
    case True
    then show ?thesis using 1 put_key_full [OF True] by (auto simp: kbd_put_def full_iff)
  next
    case False
    then show ?thesis using 1 put_key_room [of sc key]
      by (auto simp: kbd_put_def full_iff kbd_ring_ok_def)
  qed
next
  case (2 sc key sc')
  then have "sc_input_tail sc \<noteq> sc_input_head sc"
    by (auto simp: kbd_get_def inputfs_kbd_get_key_def)
  from get_key_some [OF 2(1) this] 2(2)
  have r: "sc' = sc\<lparr>sc_input_tail := sc_input_tail sc + 1\<rparr>" "ring_items sc = key # ring_items sc'"
    by (auto simp: kbd_get_def)
  then have "ring_len sc = ring_len sc' + 1" by (metis length_Cons length_ring_items Suc_eq_plus1)
  then show ?case using 2(1) r by (simp add: kbd_ring_ok_def)
next
  case (3 sc)
  have "sc_input_tail sc = sc_input_head sc"
  proof (rule ccontr)
    assume "sc_input_tail sc \<noteq> sc_input_head sc"
    from get_key_some [OF 3(1) this] 3(2) show False by (auto simp: kbd_get_def)
  qed
  then show ?case by (simp add: ring_items_def ring_len_def)
next
  case (4 sc)
  then show ?case by (simp add: kbd_ring_ok_def sum_list_triv)
qed

section \<open>Scancodes\<close>

text \<open>The bytes one key transition puts on the wire, when the ring has room.\<close>

definition at_bytes :: "byte \<Rightarrow> bool \<Rightarrow> u32 list" where
  "at_bytes usage down =
    (let entry = inputfs_kbd_trtab ! unat usage; code = ucast (entry AND 0xff) :: byte
     in if entry = 0 then []
        else (if ucast (drop_bit 8 entry) \<noteq> (0 :: byte) then [ucast (ucast (drop_bit 8 entry) :: byte)] else [])
          @ [ucast (if down then code else code OR 0x80)])"

lemma emit_at_room:
  assumes "kbd_ring_ok sc" "ring_len sc + 2 \<le> 1024"
  shows "ring_items (inputfs_kbd_emit_at usage down sc) = ring_items sc @ at_bytes usage down"
    and "kbd_ring_ok (inputfs_kbd_emit_at usage down sc)"
proof -
  let ?e = "inputfs_kbd_trtab ! unat usage"
  let ?p = "ucast (drop_bit 8 ?e) :: byte"
  have l: "length (sc_input sc) = 1024" using assms(1) by (simp add: kbd_ring_ok_def)
  define sc1 where "sc1 = (if ?p \<noteq> 0 then inputfs_kbd_put_key (ucast ?p) sc else sc)"
  have r1: "ring_items sc1 = ring_items sc @ (if ?p \<noteq> 0 then [ucast ?p] else [])"
    "length (sc_input sc1) = 1024" "ring_len sc1 < 1024"
    using put_key_room [of sc "ucast ?p"] l assms(2) by (auto simp: sc1_def)
  have e: "inputfs_kbd_emit_at usage down sc
      = (if ?e = 0 then sc else inputfs_kbd_put_key
          (ucast (if down then ucast (?e AND 0xff) else (ucast (?e AND 0xff) OR 0x80 :: byte))) sc1)"
    by (simp add: inputfs_kbd_emit_at_def Let_def sc1_def if_distrib)
  show "ring_items (inputfs_kbd_emit_at usage down sc) = ring_items sc @ at_bytes usage down"
    unfolding e at_bytes_def Let_def using put_key_room(1) [OF r1(2,3)] r1(1) by auto
  show "kbd_ring_ok (inputfs_kbd_emit_at usage down sc)"
    unfolding e using put_key_room(2,3) [OF r1(2,3)] r1(3) assms(1) by (auto simp: kbd_ring_ok_def)
qed

text \<open>The reading of set 1 scancodes by the consumer: an optional prefix \<open>0xE0\<close>, then a
  code whose high bit tells a release.\<close>

fun at_decode :: "u32 list \<Rightarrow> (bool \<times> u32 \<times> bool) list" where
  "at_decode [] = []"
| "at_decode (b # bs) =
    (if b = 0xE0 then
       (case bs of [] \<Rightarrow> [] | c # cs \<Rightarrow> (True, c AND 0x7f, c AND 0x80 = 0) # at_decode cs)
     else (False, b AND 0x7f, b AND 0x80 = 0) # at_decode bs)"

definition at_key :: "byte \<Rightarrow> bool \<times> u32" where
  "at_key usage = (let entry = inputfs_kbd_trtab ! unat usage
     in (drop_bit 8 entry = 0xE0, ucast (entry AND 0xff)))"

text \<open>Every entry but those of the usages 0x8C, 0x90 and 0x91 is a plain set 1 code.\<close>

definition at_entry_ok :: "u16 \<Rightarrow> bool" where
  "at_entry_ok e \<longleftrightarrow>
    (let c = ucast (ucast (e AND 0xff) :: byte) :: u32;
         r = ucast ((ucast (e AND 0xff) :: byte) OR 0x80) :: u32
     in (drop_bit 8 e = 0 \<or> drop_bit 8 e = 0xE0) \<and> c \<noteq> 0xE0 \<and> r \<noteq> 0xE0 \<and>
        c AND 0x80 = 0 \<and> r AND 0x80 \<noteq> 0 \<and>
        c AND 0x7f = ucast (e AND 0xff) \<and> r AND 0x7f = ucast (e AND 0xff))"

definition translated :: "byte \<Rightarrow> bool" where
  "translated usage \<longleftrightarrow> inputfs_kbd_trtab ! unat usage \<noteq> 0 \<and> usage \<notin> {0x8C, 0x90, 0x91}"

lemma trtab_length: "length inputfs_kbd_trtab = 256"
  by (simp add: inputfs_kbd_trtab_def)

lemma trtab_entries:
  "list_all (\<lambda>(i, e). i \<in> {0x8C, 0x90, 0x91} \<or> e = 0 \<or> at_entry_ok e)
     (zip [0..<256] inputfs_kbd_trtab)"
  by code_simp

lemma translated_entry: "translated usage \<Longrightarrow> at_entry_ok (inputfs_kbd_trtab ! unat usage)"
proof -
  assume t: "translated usage"
  have u: "unat usage < 256" using unat_lt_size [of usage] by simp
  have "(unat usage, inputfs_kbd_trtab ! unat usage) \<in> set (zip [0..<256] inputfs_kbd_trtab)"
    using u trtab_length by (auto simp: set_zip intro!: exI [of _ "unat usage"])
  then have "unat usage \<in> {0x8C, 0x90, 0x91} \<or> inputfs_kbd_trtab ! unat usage = 0 \<or>
      at_entry_ok (inputfs_kbd_trtab ! unat usage)"
    using trtab_entries unfolding list_all_iff by blast
  moreover have "unat usage \<notin> {0x8C, 0x90, 0x91}"
    using t by (simp add: translated_def word_unat_eq_iff)
  ultimately show ?thesis using t by (simp add: translated_def)
qed

lemma decode_at_bytes:
  assumes "translated usage"
  shows "at_decode (at_bytes usage down @ bs) = (fst (at_key usage), snd (at_key usage), down) # at_decode bs"
proof -
  define e where "e = inputfs_kbd_trtab ! unat usage"
  have ok: "at_entry_ok e" "e \<noteq> 0"
    using translated_entry [OF assms] assms by (auto simp: e_def translated_def)
  define c where "c = (ucast (ucast (e AND 0xff) :: byte) :: u32)"
  define r where "r = (ucast ((ucast (e AND 0xff) :: byte) OR 0x80) :: u32)"
  define k where "k = (ucast (e AND 0xff) :: u32)"
  have f: "c \<noteq> 0xE0" "r \<noteq> 0xE0" "c AND 0x80 = 0" "r AND 0x80 \<noteq> 0" "c AND 0x7f = k" "r AND 0x7f = k"
    and d: "drop_bit 8 e = 0 \<or> drop_bit 8 e = 0xE0"
    using ok(1) by (simp_all only: at_entry_ok_def Let_def c_def r_def k_def simp_thms)
  have key: "at_key usage = (drop_bit 8 e = 0xE0, k)"
    by (simp only: at_key_def Let_def e_def k_def)
  have b: "at_bytes usage down
      = (if ucast (drop_bit 8 e) \<noteq> (0 :: byte) then [ucast (ucast (drop_bit 8 e) :: byte)] else [])
        @ [if down then c else r]"
    unfolding at_bytes_def Let_def e_def [symmetric] c_def r_def using ok(2) by simp
  show ?thesis
  proof (cases "drop_bit 8 e = 0")
    case True
    then show ?thesis unfolding b key using f by simp
  next
    case False
    then have h: "drop_bit 8 e = 0xE0" using d by simp
    then show ?thesis unfolding b key using f by simp
  qed
qed

text \<open>A run of transitions, as the interrupt path hands them to the bridge.\<close>

definition emit_all :: "(byte \<times> bool) list \<Rightarrow> inputfs_kbd_softc \<Rightarrow> inputfs_kbd_softc" where
  "emit_all = fold (\<lambda>(usage, down). inputfs_kbd_intr_cb usage down)"

lemma intr_cb_room:
  assumes "kbd_ring_ok sc" "ring_len sc + 2 \<le> 1024"
  shows "ring_items (inputfs_kbd_intr_cb usage down sc) = ring_items sc @ at_bytes usage down"
    and "kbd_ring_ok (inputfs_kbd_intr_cb usage down sc)"
  using emit_at_room [OF assms]
  by (simp_all add: inputfs_kbd_intr_cb_def ring_items_def ring_len_def kbd_ring_ok_def)

lemma length_at_bytes: "length (at_bytes usage down) \<le> 2"
  by (simp add: at_bytes_def Let_def)

lemma emit_all_room:
  assumes "kbd_ring_ok sc" "ring_len sc + 2 * length ts \<le> 1024"
  shows "ring_items (emit_all ts sc) = ring_items sc @ concat (map (\<lambda>(u, d). at_bytes u d) ts) \<and>
    kbd_ring_ok (emit_all ts sc)"
  using assms
proof (induction ts arbitrary: sc)
  case Nil
  then show ?case by (simp add: emit_all_def)
next
  case (Cons t ts)
  obtain u d where t: "t = (u, d)" by (cases t)
  let ?s = "inputfs_kbd_intr_cb u d sc"
  have i: "ring_items ?s = ring_items sc @ at_bytes u d" "kbd_ring_ok ?s"
    using intr_cb_room [OF Cons.prems(1), of u d] Cons.prems(2) by simp_all
  have "ring_len ?s = ring_len sc + length (at_bytes u d)"
    using arg_cong [OF i(1), of length] by simp
  then have "ring_len ?s + 2 * length ts \<le> 1024" using Cons.prems(2) length_at_bytes [of u d] by simp
  from Cons.IH [OF i(2) this] show ?case using i(1) by (simp add: emit_all_def t)
qed

text \<open>The whole way: what the consumer decodes is what the interrupt path reported.\<close>

lemma decode_concat:
  "\<forall>(u, d) \<in> set ts. translated u \<Longrightarrow>
   at_decode (concat (map (\<lambda>(u, d). at_bytes u d) ts)) = map (\<lambda>(u, d). (fst (at_key u), snd (at_key u), d)) ts"
  by (induction ts) (auto simp: decode_at_bytes)

section \<open>Where the translation loses information\<close>

text \<open>Press and release of the usages 0x8C, 0x90 and 0x91 are the same byte.\<close>

lemma press_is_release:
  "at_bytes 0x8C True = at_bytes 0x8C False" "at_bytes 0x8C True = [0x80]"
  "at_bytes 0x90 True = at_bytes 0x90 False" "at_bytes 0x91 True = at_bytes 0x91 False"
  by code_simp+

text \<open>With one free entry an extended key leaves its prefix in the ring without its code.\<close>

lemma prefix_without_code:
  assumes "length (sc_input sc) = INPUTFS_KBD_BUF_SIZE" "ring_len sc = 1023"
  shows "ring_items (inputfs_kbd_emit_at 0x52 True sc) = ring_items sc @ [0xE0]"
proof -
  have e: "inputfs_kbd_trtab ! unat (0x52 :: byte) = 0xE048" by code_simp
  have r: "ring_items (inputfs_kbd_put_key 0xE0 sc) = ring_items sc @ [0xE0]"
    "ring_len (inputfs_kbd_put_key 0xE0 sc) = 1024"
    using put_key_room [OF assms(1), of "0xE0"] assms(2) by simp_all
  show ?thesis
    unfolding inputfs_kbd_emit_at_def Let_def e using r put_key_full [of "inputfs_kbd_put_key 0xE0 sc"] by simp
qed

end
