(* ===== verification/Inputfs_Softc.thy ===== *)
theory Inputfs_Softc
  imports Inputfs_Sync Inputfs_Parser Inputfs_Kbdmux
begin

text \<open>
  The per-device state of \<^verbatim>\<open>inputfs.c\<close>, the device roles, and the walks over a report
  descriptor that fill them at attach.
\<close>

section \<open>Per-device state\<close>

record touch_contact =
  tc_active :: bool
  tc_last_x :: int
  tc_last_y :: int
  tc_session_id :: u32

text \<open>\<open>sc_ibuf\<close> and \<open>sc_kbd_bridge\<close> are \<open>None\<close> for a null pointer.\<close>

record inputfs_softc =
  sc_input_items :: u32
  sc_output_items :: u32
  sc_feature_items :: u32
  sc_collection_depth :: u32
  sc_ibuf :: "buf option"
  sc_roles :: byte
  sc_state_slot :: byte
  sc_parser :: inputfs_parser_state
  sc_logged_truncated :: bool
  sc_touch_contacts :: "touch_contact list"
  sc_active_contact_count :: byte
  sc_primary_cid :: byte
  sc_primary_last_x :: int
  sc_primary_last_y :: int
  sc_touch_prev_button :: byte
  sc_kbd_bridge :: "inputfs_kbd_softc option"

abbreviation (input) INPUTFS_ROLE_POINTER :: byte where "INPUTFS_ROLE_POINTER \<equiv> 1"
abbreviation (input) INPUTFS_ROLE_KEYBOARD :: byte where "INPUTFS_ROLE_KEYBOARD \<equiv> 2"
abbreviation (input) INPUTFS_ROLE_TOUCH :: byte where "INPUTFS_ROLE_TOUCH \<equiv> 4"
abbreviation (input) INPUTFS_ROLE_PEN :: byte where "INPUTFS_ROLE_PEN \<equiv> 8"

abbreviation (input) INPUTFS_SOURCE_POINTER :: byte where "INPUTFS_SOURCE_POINTER \<equiv> 1"
abbreviation (input) INPUTFS_SOURCE_KEYBOARD :: byte where "INPUTFS_SOURCE_KEYBOARD \<equiv> 2"
abbreviation (input) INPUTFS_SOURCE_TOUCH :: byte where "INPUTFS_SOURCE_TOUCH \<equiv> 3"
abbreviation (input) INPUTFS_SOURCE_DEVICE_LIFECYCLE :: byte where "INPUTFS_SOURCE_DEVICE_LIFECYCLE \<equiv> 6"
abbreviation (input) INPUTFS_POINTER_MOTION :: byte where "INPUTFS_POINTER_MOTION \<equiv> 1"
abbreviation (input) INPUTFS_POINTER_BUTTON_DOWN :: byte where "INPUTFS_POINTER_BUTTON_DOWN \<equiv> 2"
abbreviation (input) INPUTFS_POINTER_BUTTON_UP :: byte where "INPUTFS_POINTER_BUTTON_UP \<equiv> 3"
abbreviation (input) INPUTFS_POINTER_SCROLL :: byte where "INPUTFS_POINTER_SCROLL \<equiv> 4"
abbreviation (input) INPUTFS_POINTER_ENTER :: byte where "INPUTFS_POINTER_ENTER \<equiv> 5"
abbreviation (input) INPUTFS_POINTER_LEAVE :: byte where "INPUTFS_POINTER_LEAVE \<equiv> 6"
abbreviation (input) INPUTFS_KEYBOARD_KEY_DOWN :: byte where "INPUTFS_KEYBOARD_KEY_DOWN \<equiv> 1"
abbreviation (input) INPUTFS_KEYBOARD_KEY_UP :: byte where "INPUTFS_KEYBOARD_KEY_UP \<equiv> 2"
abbreviation (input) INPUTFS_TOUCH_DOWN :: byte where "INPUTFS_TOUCH_DOWN \<equiv> 1"
abbreviation (input) INPUTFS_TOUCH_MOVE :: byte where "INPUTFS_TOUCH_MOVE \<equiv> 2"
abbreviation (input) INPUTFS_TOUCH_UP :: byte where "INPUTFS_TOUCH_UP \<equiv> 3"
abbreviation (input) INPUTFS_LIFECYCLE_ATTACH :: byte where "INPUTFS_LIFECYCLE_ATTACH \<equiv> 1"
abbreviation (input) INPUTFS_LIFECYCLE_DETACH :: byte where "INPUTFS_LIFECYCLE_DETACH \<equiv> 2"
abbreviation (input) INPUTFS_SYNTHETIC_DEVICE :: u16 where "INPUTFS_SYNTHETIC_DEVICE \<equiv> 0xFFFF"
abbreviation (input) INPUTFS_MAX_CONTACTS :: nat where "INPUTFS_MAX_CONTACTS \<equiv> 8"
abbreviation (input) INPUTFS_NO_PRIMARY :: byte where "INPUTFS_NO_PRIMARY \<equiv> 0xff"

definition event_dev_slot :: "inputfs_softc \<Rightarrow> u16" where
  "event_dev_slot sc =
    (if sc_state_slot sc = INPUTFS_NO_STATE_SLOT then INPUTFS_SYNTHETIC_DEVICE
     else ucast (sc_state_slot sc))"

section \<open>Descriptor walks at attach\<close>

text \<open>The three passes of \<^verbatim>\<open>hid_get_item\<close>, one per kind, as the item lists they yield;
  \<open>None\<close> when the parse could not be started.\<close>

definition count_kind :: "hid_kind \<Rightarrow> hid_item list option \<Rightarrow> u32" where
  "count_kind k items =
    (case items of None \<Rightarrow> 0 | Some his \<Rightarrow> fold (\<lambda>hi n. if hi_kind hi = k then n + 1 else n) his 0)"

fun walk_depth :: "hid_item list \<Rightarrow> u32 \<Rightarrow> u32 \<Rightarrow> u32" where
  "walk_depth [] depth max_depth = max_depth"
| "walk_depth (hi # his) depth max_depth =
    (if hi_kind hi = hid_collection then
       let depth = depth + 1
       in walk_depth his depth (if max_depth < depth then depth else max_depth)
     else if hi_kind hi = hid_endcollection then
       walk_depth his (if 0 < depth then depth - 1 else depth) max_depth
     else walk_depth his depth max_depth)"

definition inputfs_walk_rdesc ::
  "hid_item list option \<Rightarrow> hid_item list option \<Rightarrow> hid_item list option \<Rightarrow> inputfs_softc \<Rightarrow> inputfs_softc" where
  "inputfs_walk_rdesc inputs outputs features sc =
    sc\<lparr>sc_input_items := count_kind hid_input inputs,
       sc_output_items := count_kind hid_output outputs,
       sc_feature_items := count_kind hid_feature features,
       sc_collection_depth := (case inputs of None \<Rightarrow> 0 | Some his \<Rightarrow> walk_depth his 0 0)\<rparr>"

fun classify_items :: "hid_item list \<Rightarrow> byte \<Rightarrow> byte" where
  "classify_items [] roles = roles"
| "classify_items (hi # his) roles =
    classify_items his
      (if hi_kind hi \<noteq> hid_collection then roles
       else if hi_collection hi \<noteq> 1 then roles
       else if HID_GET_USAGE_PAGE (hi_usage hi) \<noteq> HUP_DIGITIZERS then roles
       else if HID_GET_USAGE (hi_usage hi) = 0x05 \<or> HID_GET_USAGE (hi_usage hi) = 0x04
         then roles OR INPUTFS_ROLE_TOUCH
       else if HID_GET_USAGE (hi_usage hi) = 0x02 then roles OR INPUTFS_ROLE_PEN
       else roles)"

text \<open>\<open>usage\<close> is the matched top-level collection of \<^verbatim>\<open>hidbus_get_usage\<close>; \<open>items\<close> the
  input walk, \<open>None\<close> without a descriptor.\<close>

definition inputfs_classify_roles :: "u32 \<Rightarrow> hid_item list option \<Rightarrow> inputfs_softc \<Rightarrow> inputfs_softc" where
  "inputfs_classify_roles usage items sc =
    (let page = HID_GET_USAGE_PAGE usage;
         id = HID_GET_USAGE usage;
         roles = (if page = HUP_GENERIC_DESKTOP then
             if id = 0x06 then INPUTFS_ROLE_KEYBOARD
             else if id = 0x02 \<or> id = 0x01 then INPUTFS_ROLE_POINTER
             else 0
           else 0);
         roles = (case items of None \<Rightarrow> roles | Some his \<Rightarrow> classify_items his roles)
     in sc\<lparr>sc_roles := roles\<rparr>)"

definition role_names :: "string list" where
  "role_names = [''pointer'', ''keyboard'', ''touch'', ''pen'', ''lighting'']"

text \<open>The loop over the five role bits; the string written before the terminator.\<close>

fun format_names :: "byte \<Rightarrow> nat \<Rightarrow> nat \<Rightarrow> string list \<Rightarrow> string \<Rightarrow> string" where
  "format_names roles buflen i [] buf = buf"
| "format_names roles buflen i (name # names) buf =
    (if roles AND push_bit i 1 = 0 then format_names roles buflen (i + 1) names buf
     else
       let first = (buf = []);
           need = length name + (if first then 0 else 1)
       in if buflen < length buf + need + 1 then buf
          else format_names roles buflen (i + 1) names (buf @ (if first then [] else '','') @ name))"

definition inputfs_format_roles :: "byte \<Rightarrow> nat \<Rightarrow> string option" where
  "inputfs_format_roles roles buflen =
    (if buflen = 0 then None
     else if roles = 0 then Some (take (buflen - 1) ''<none>'')
     else Some (format_names roles buflen 0 role_names []))"

text \<open>Nothing is written past the buffer: the string and its terminator fit.\<close>

lemma length_format_names:
  "length buf < buflen \<Longrightarrow> length (format_names roles buflen i names buf) < buflen"
  by (induction names arbitrary: i buf) (auto simp: Let_def)

lemma format_roles_fits: "inputfs_format_roles roles buflen = Some s \<Longrightarrow> length s < buflen"
  using length_format_names [of "[]" buflen roles 0 role_names]
  by (auto simp: inputfs_format_roles_def split: if_splits)

end
