(* ===== verification/Inputfs_Pointer.thy ===== *)
theory Inputfs_Pointer
  imports Inputfs_Softc
begin

text \<open>
  The pointer in \<^verbatim>\<open>inputfs.c\<close>: the update of the published position under the seqlock, the
  leave and enter events when the cursor crosses a surface boundary, and the pointer part of
  the interrupt handler.
\<close>

section \<open>Updating the published pointer\<close>

text \<open>The bracketed update both the mouse and the touch path make.\<close>

definition pointer_update :: "int \<Rightarrow> int \<Rightarrow> u32 \<Rightarrow> inputfs_globals \<Rightarrow> (int \<times> int) \<times> inputfs_globals" where
  "pointer_update dx dy buttons g =
    (let g = inputfs_state_seqlock_begin g;
         (actual, g) = inputfs_state_update_pointer dx dy buttons g;
         g = inputfs_state_advance_seq g;
         g = inputfs_state_seqlock_end g
     in (actual, inputfs_state_mark_dirty g))"

definition crossing_payload :: "int \<Rightarrow> int \<Rightarrow> u32 \<Rightarrow> buf" where
  "crossing_payload new_x new_y session =
    (let lp = replicate 32 0;
         lp = inputfs_put_i32le lp 0 new_x;
         lp = inputfs_put_i32le lp 4 new_y;
         lp = inputfs_put_u32le lp 8 session
     in inputfs_put_u32le lp 12 session)"

definition publish_crossing :: "u16 \<Rightarrow> int \<Rightarrow> int \<Rightarrow> u32 \<Rightarrow> inputfs_globals \<Rightarrow> inputfs_globals" where
  "publish_crossing dev_slot new_x new_y curr_session g =
    (if curr_session = pointer_session_prev g then g
     else
       let prev = pointer_session_prev g;
           g = (if prev \<noteq> 0 then inputfs_events_publish INPUTFS_SOURCE_POINTER INPUTFS_POINTER_LEAVE
                  dev_slot 1 (Some (crossing_payload new_x new_y prev)) 16 g else g);
           g = (if curr_session \<noteq> 0 then inputfs_events_publish INPUTFS_SOURCE_POINTER INPUTFS_POINTER_ENTER
                  dev_slot 1 (Some (crossing_payload new_x new_y curr_session)) 16 g else g)
       in g\<lparr>pointer_session_prev := curr_session\<rparr>)"

definition motion_payload :: "int \<Rightarrow> int \<Rightarrow> int \<Rightarrow> int \<Rightarrow> u32 \<Rightarrow> u32 \<Rightarrow> buf" where
  "motion_payload new_x new_y actual_dx actual_dy buttons session =
    (let payload = replicate 32 0;
         payload = inputfs_put_i32le payload 0 new_x;
         payload = inputfs_put_i32le payload 4 new_y;
         payload = inputfs_put_i32le payload 8 actual_dx;
         payload = inputfs_put_i32le payload 12 actual_dy;
         payload = inputfs_put_u32le payload 16 buttons
     in inputfs_put_u32le payload 20 session)"

definition button_payload :: "int \<Rightarrow> int \<Rightarrow> u32 \<Rightarrow> u32 \<Rightarrow> u32 \<Rightarrow> buf" where
  "button_payload new_x new_y bmask buttons session =
    (let payload = replicate 32 0;
         payload = inputfs_put_i32le payload 0 new_x;
         payload = inputfs_put_i32le payload 4 new_y;
         payload = inputfs_put_u32le payload 8 bmask;
         payload = inputfs_put_u32le payload 12 buttons
     in inputfs_put_u32le payload 16 session)"

definition scroll_payload :: "int \<Rightarrow> int \<Rightarrow> int \<Rightarrow> u32 \<Rightarrow> buf" where
  "scroll_payload new_x new_y dw session =
    (let payload = replicate 32 0;
         payload = inputfs_put_i32le payload 0 new_x;
         payload = inputfs_put_i32le payload 4 new_y;
         payload = inputfs_put_i32le payload 8 0;
         payload = inputfs_put_i32le payload 12 dw;
         payload = inputfs_put_u32le payload 16 0
     in inputfs_put_u32le payload 20 session)"

section \<open>A pointer report\<close>

text \<open>The part of \<^verbatim>\<open>inputfs_intr\<close> under \<^verbatim>\<open>if (extracted)\<close>.\<close>

definition pointer_extracted :: "inputfs_softc \<Rightarrow> pointer_report \<Rightarrow> inputfs_globals \<Rightarrow> inputfs_globals" where
  "pointer_extracted sc out g =
    (let buttons = pr_buttons out;
         prev_buttons = inputfs_get_u32le (state_buf g) OFF_PTR_BUTTONS;
         ((actual_dx, actual_dy), g) = pointer_update (pr_dx out) (pr_dy out) buttons g;
         new_x = inputfs_get_i32le (state_buf g) OFF_PTR_X;
         new_y = inputfs_get_i32le (state_buf g) OFF_PTR_Y;
         dev_slot = event_dev_slot sc;
         curr_session = inputfs_focus_resolve_pointer new_x new_y g;
         g = publish_crossing dev_slot new_x new_y curr_session g;
         g = (if 0 < hl_size (loc_x (sc_parser sc)) \<or> 0 < hl_size (loc_y (sc_parser sc))
              then inputfs_events_publish INPUTFS_SOURCE_POINTER INPUTFS_POINTER_MOTION dev_slot 0
                (Some (motion_payload new_x new_y actual_dx actual_dy buttons curr_session)) 24 g
              else g);
         changed = prev_buttons XOR buttons;
         g = fold (\<lambda>b g.
             if changed AND push_bit b 1 = 0 then g
             else inputfs_events_publish INPUTFS_SOURCE_POINTER
               (if buttons AND push_bit b 1 \<noteq> 0 then INPUTFS_POINTER_BUTTON_DOWN else INPUTFS_POINTER_BUTTON_UP)
               dev_slot 0 (Some (button_payload new_x new_y (push_bit b 1) buttons curr_session)) 20 g)
           [0..<32] g
     in if has_wheel (sc_parser sc) \<and> pr_dw out \<noteq> 0
        then inputfs_events_publish INPUTFS_SOURCE_POINTER INPUTFS_POINTER_SCROLL dev_slot 0
          (Some (scroll_payload new_x new_y (pr_dw out) curr_session)) 24 g
        else g)"

definition intr_pointer :: "buf \<Rightarrow> inputfs_softc \<Rightarrow> inputfs_globals \<Rightarrow> inputfs_globals" where
  "intr_pointer report sc g =
    (if sc_roles sc AND INPUTFS_ROLE_POINTER \<noteq> 0 \<and> pointer_locations_valid (sc_parser sc) \<and> 0 < length report
     then
       let (extracted, out) = inputfs_extract_pointer (sc_parser sc) report
             \<lparr>pr_dx = 0, pr_dy = 0, pr_dw = 0, pr_buttons = 0\<rparr>
       in if extracted then pointer_extracted sc out g else g
     else g)"

section \<open>The published fields\<close>

definition ptr_x :: "inputfs_globals \<Rightarrow> int" where "ptr_x g = sint (get32 (state_buf g) OFF_PTR_X)"
definition ptr_y :: "inputfs_globals \<Rightarrow> int" where "ptr_y g = sint (get32 (state_buf g) OFF_PTR_Y)"
definition ptr_buttons :: "inputfs_globals \<Rightarrow> u32" where
  "ptr_buttons g = get32 (state_buf g) OFF_PTR_BUTTONS"

abbreviation state_sized :: "inputfs_globals \<Rightarrow> bool" where
  "state_sized g \<equiv> length (state_buf g) = INPUTFS_STATE_SIZE"

lemma sint_of_int32: "is32 v \<Longrightarrow> sint (of_int v :: u32) = v"
  by (simp add: signed_of_int signed_take_bit_int_eq_self)

text \<open>The clamp is the clamp of the integers.\<close>

lemma clamp_to_eq:
  assumes "0 < uint w" "uint w < 2 ^ 31" "is32 v"
  shows "clamp_to w v = max 0 (min (uint w - 1) v)"
proof -
  have "w - 1 = of_int (uint w - 1)" by simp
  moreover have "is32 (uint w - 1)" using assms(1,2) by simp
  ultimately have s: "sint (w - 1) = uint w - 1" by (metis sint_of_int32)
  have le: "0 \<le> v \<Longrightarrow> w \<le> of_int v \<longleftrightarrow> uint w \<le> v" using le_of_int_iff [of v w] assms(3) by simp
  show ?thesis unfolding clamp_to_def using le s assms(1) by auto
qed

text \<open>The new coordinate on an axis of the given extent.\<close>

definition moved :: "bool \<Rightarrow> u32 \<Rightarrow> int \<Rightarrow> int \<Rightarrow> int" where
  "moved known extent cur d = (let v = wrap32 (cur + d) in if known then clamp_to extent v else v)"

lemma is32_moved: "is32 (moved known extent cur d)"
  using wrap32_range [of "cur + d"] sint_is32 [of "extent - 1"] by (auto simp: moved_def Let_def clamp_to_def)

lemma put_i32_blit: "off + 4 \<le> length bs \<Longrightarrow> inputfs_put_i32le bs off v = blit bs off (put32 (of_int v))"
  by (simp add: inputfs_put_i32le_def put_u32le_blit)

lemma get_i32_get32: "off + 4 \<le> length bs \<Longrightarrow> inputfs_get_i32le bs off = sint (get32 bs off)"
  by (simp add: inputfs_get_i32le_def get_u32le_get32)

text \<open>The buffer after the update: the pointer fields, the sequence number, and the seqlock
  two further on.\<close>

lemma pointer_update_buf:
  assumes "state_sized g"
  shows "state_buf (snd (pointer_update dx dy b g)) =
    blit (blit (blit (blit (blit (blit (state_buf g) 8 (put32 (get32 (state_buf g) 8 + 1)))
      32 (put32 (of_int (moved (geom_known g) (geom_width g) (ptr_x g) dx))))
      36 (put32 (of_int (moved (geom_known g) (geom_height g) (ptr_y g) dy))))
      40 (put32 b)) 16 (put64 (state_seq g + 1))) 8 (put32 (get32 (state_buf g) 8 + 2))"
  using assms
  by (simp add: pointer_update_def inputfs_state_seqlock_begin_def inputfs_state_seqlock_end_def
      inputfs_state_update_pointer_def inputfs_state_advance_seq_def inputfs_state_mark_dirty_def Let_def
      put_u32le_blit put_i32_blit put_u64le_blit get_u32le_get32 get_i32_get32 get_blit_same get_blit_other
      moved_def ptr_x_def ptr_y_def add.assoc)

lemma pointer_update_fields:
  assumes "state_sized g"
    and g'_def: "g' = snd (pointer_update dx dy b g)"
  shows "state_sized g'"
    and "ptr_x g' = moved (geom_known g) (geom_width g) (ptr_x g) dx"
    and "ptr_y g' = moved (geom_known g) (geom_height g) (ptr_y g) dy"
    and "ptr_buttons g' = b"
    and "get32 (state_buf g') OFF_SEQLOCK = get32 (state_buf g) OFF_SEQLOCK + 2"
    and "get64 (state_buf g') OFF_LAST_SEQ = state_seq g + 1"
proof -
  note b = pointer_update_buf [OF assms(1), of dx dy b, folded g'_def]
  show "state_sized g'" "ptr_buttons g' = b"
    "get32 (state_buf g') OFF_SEQLOCK = get32 (state_buf g) OFF_SEQLOCK + 2"
    "get64 (state_buf g') OFF_LAST_SEQ = state_seq g + 1"
    unfolding ptr_buttons_def b using assms(1) by (simp_all add: get_blit_same get_blit_other)
  show "ptr_x g' = moved (geom_known g) (geom_width g) (ptr_x g) dx"
    "ptr_y g' = moved (geom_known g) (geom_height g) (ptr_y g) dy"
    unfolding ptr_x_def [of g'] ptr_y_def [of g'] b
    using assms(1) sint_of_int32 [OF is32_moved] by (simp_all add: get_blit_same get_blit_other)
qed

lemma pointer_update_rest:
  assumes "state_sized g"
  shows "drop 48 (state_buf (snd (pointer_update dx dy b g))) = drop 48 (state_buf g)"
    and "take 8 (state_buf (snd (pointer_update dx dy b g))) = take 8 (state_buf g)"
  unfolding pointer_update_buf [OF assms] blit_def using assms by simp_all

lemma pointer_update_globals [simp]:
  "geom_known (snd (pointer_update dx dy b g)) = geom_known g"
  "geom_width (snd (pointer_update dx dy b g)) = geom_width g"
  "geom_height (snd (pointer_update dx dy b g)) = geom_height g"
  "events_buf (snd (pointer_update dx dy b g)) = events_buf g"
  "events_writer_seq (snd (pointer_update dx dy b g)) = events_writer_seq g"
  "state_seq (snd (pointer_update dx dy b g)) = state_seq g + 1"
  "state_slot_used (snd (pointer_update dx dy b g)) = state_slot_used g"
  "state_dirty (snd (pointer_update dx dy b g))"
  "focus_buf (snd (pointer_update dx dy b g)) = focus_buf g"
  "focus_cache_valid (snd (pointer_update dx dy b g)) = focus_cache_valid g"
  "clock_buf (snd (pointer_update dx dy b g)) = clock_buf g"
  "clock_cache_valid (snd (pointer_update dx dy b g)) = clock_cache_valid g"
  "uptime (snd (pointer_update dx dy b g)) = uptime g"
  "uptime_reads (snd (pointer_update dx dy b g)) = uptime_reads g"
  "pointer_session_prev (snd (pointer_update dx dy b g)) = pointer_session_prev g"
  by (simp_all add: pointer_update_def inputfs_state_seqlock_begin_def inputfs_state_seqlock_end_def
      inputfs_state_update_pointer_def inputfs_state_advance_seq_def inputfs_state_mark_dirty_def Let_def)

lemma pointer_update_delta:
  assumes "state_sized g"
  shows "fst (pointer_update dx dy b g)
    = (wrap32 (ptr_x (snd (pointer_update dx dy b g)) - ptr_x g),
       wrap32 (ptr_y (snd (pointer_update dx dy b g)) - ptr_y g))"
  unfolding pointer_update_fields(2,3) [OF assms refl] using assms
  by (simp add: pointer_update_def inputfs_state_seqlock_begin_def
      inputfs_state_update_pointer_def Let_def put_u32le_blit get_u32le_get32 get_i32_get32 get_blit_other
      moved_def ptr_x_def ptr_y_def split: prod.splits)

text \<open>A pointer that is on the screen.\<close>

definition screen_ok :: "inputfs_globals \<Rightarrow> bool" where
  "screen_ok g \<longleftrightarrow> geom_known g \<and> 0 < uint (geom_width g) \<and> uint (geom_width g) < 2 ^ 31 \<and>
     0 < uint (geom_height g) \<and> uint (geom_height g) < 2 ^ 31"

definition on_screen :: "inputfs_globals \<Rightarrow> bool" where
  "on_screen g \<longleftrightarrow> 0 \<le> ptr_x g \<and> ptr_x g < uint (geom_width g) \<and> 0 \<le> ptr_y g \<and> ptr_y g < uint (geom_height g)"

lemma moved_range:
  assumes "0 < uint w" "uint w < 2 ^ 31"
  shows "0 \<le> moved True w c d" "moved True w c d < uint w"
  using clamp_to_eq [OF assms wrap32_range, of "c + d"] assms by (auto simp: moved_def)

lemma moved_clamped:
  assumes "0 < uint w" "uint w < 2 ^ 31" "is32 (c + d)"
  shows "moved True w c d = max 0 (min (uint w - 1) (c + d))"
  using clamp_to_eq [OF assms(1,2,3)] wrap32_id [OF assms(3)] by (simp add: moved_def)

text \<open>The payloads read back.\<close>

lemma length_payloads [simp]:
  "length (crossing_payload x y s) = 32" "length (motion_payload x y dx dy b s) = 32"
  "length (button_payload x y m b s) = 32" "length (scroll_payload x y w s) = 32"
  by (simp_all add: crossing_payload_def motion_payload_def button_payload_def scroll_payload_def Let_def
      put_i32_blit put_u32le_blit)

lemma padded_id: "length p = 32 \<Longrightarrow> n \<le> 32 \<Longrightarrow> drop n p = replicate (32 - n) 0 \<Longrightarrow> padded (Some p) n = p"
  by (simp add: padded_def blit_def min_def) (metis append_take_drop_id)

section \<open>The events of a pointer report\<close>

definition crossing_args :: "u16 \<Rightarrow> int \<Rightarrow> int \<Rightarrow> u32 \<Rightarrow> u32 \<Rightarrow> publish_args list" where
  "crossing_args ds x y prev cur =
    (if cur = prev then []
     else (if prev \<noteq> 0 then [(1, INPUTFS_POINTER_LEAVE, ds, 1, Some (crossing_payload x y prev), 16)] else []) @
          (if cur \<noteq> 0 then [(1, INPUTFS_POINTER_ENTER, ds, 1, Some (crossing_payload x y cur), 16)] else []))"

definition button_args :: "u16 \<Rightarrow> int \<Rightarrow> int \<Rightarrow> u32 \<Rightarrow> u32 \<Rightarrow> nat \<Rightarrow> publish_args" where
  "button_args ds x y buttons session b =
    (1, if bit buttons b then INPUTFS_POINTER_BUTTON_DOWN else INPUTFS_POINTER_BUTTON_UP, ds, 0,
     Some (button_payload x y (push_bit b 1) buttons session), 20)"

definition pointer_events ::
  "inputfs_softc \<Rightarrow> pointer_report \<Rightarrow> int \<times> int \<Rightarrow> int \<times> int \<Rightarrow> u32 \<Rightarrow> u32 \<Rightarrow> u32 \<Rightarrow> publish_args list" where
  "pointer_events sc out pos delta prev_session session prev_buttons =
    (let (x, y) = pos; ds = event_dev_slot sc; buttons = pr_buttons out
     in crossing_args ds x y prev_session session @
        (if 0 < hl_size (loc_x (sc_parser sc)) \<or> 0 < hl_size (loc_y (sc_parser sc))
         then [(1, INPUTFS_POINTER_MOTION, ds, 0,
                Some (motion_payload x y (fst delta) (snd delta) buttons session), 24)] else []) @
        map (button_args ds x y buttons session) (filter (bit (prev_buttons XOR buttons)) [0..<32]) @
        (if has_wheel (sc_parser sc) \<and> pr_dw out \<noteq> 0
         then [(1, INPUTFS_POINTER_SCROLL, ds, 0, Some (scroll_payload x y (pr_dw out) session), 24)] else []))"

lemma publish_session_commute:
  "inputfs_events_publish sr et d f p n (g\<lparr>pointer_session_prev := s\<rparr>)
    = (inputfs_events_publish sr et d f p n g)\<lparr>pointer_session_prev := s\<rparr>"
proof -
  have c: "inputfs_clock_samples_now (g\<lparr>pointer_session_prev := s\<rparr>) = inputfs_clock_samples_now g"
    by (simp add: inputfs_clock_samples_now_def)
  show ?thesis
    unfolding inputfs_events_publish_def Let_def c
    by (simp cong: if_cong option.case_cong split: prod.split)
qed

lemma publish_crossing_eq:
  "publish_crossing ds x y s g
    = fold publish_args (crossing_args ds x y (pointer_session_prev g) s) (g\<lparr>pointer_session_prev := s\<rparr>)"
  by (auto simp: publish_crossing_def crossing_args_def publish_args_def publish_session_commute Let_def)

lemma u32_bit: "(w :: u32) AND push_bit b 1 = 0 \<longleftrightarrow> \<not> bit w b"
  by (simp add: bit_iff_and_push_bit_not_eq_0)

lemma button_loop:
  "fold (\<lambda>b g. if changed AND push_bit b 1 = 0 then g
       else inputfs_events_publish 1
         (if buttons AND push_bit b 1 \<noteq> 0 then INPUTFS_POINTER_BUTTON_DOWN else INPUTFS_POINTER_BUTTON_UP)
         ds 0 (Some (button_payload x y (push_bit b 1) buttons s)) 20 g) bs g
   = fold publish_args (map (button_args ds x y buttons s) (filter (bit (changed :: u32)) bs)) g"
  unfolding u32_bit
  by (induction bs arbitrary: g) (simp_all add: button_args_def publish_args_def)

lemma pointer_extracted_events:
  assumes "state_sized g"
    and g1_def: "g1 = snd (pointer_update (pr_dx out) (pr_dy out) (pr_buttons out) g)"
    and s_def: "s = inputfs_focus_resolve_pointer (ptr_x g1) (ptr_y g1) g1"
  shows "pointer_extracted sc out g =
    fold publish_args
      (pointer_events sc out (ptr_x g1, ptr_y g1) (fst (pointer_update (pr_dx out) (pr_dy out) (pr_buttons out) g))
         (pointer_session_prev g) s (ptr_buttons g))
      (g1\<lparr>pointer_session_prev := s\<rparr>)"
proof -
  have l: "state_sized g1" by (rule pointer_update_fields(1) [OF assms(1) g1_def])
  have r: "inputfs_get_i32le (state_buf g1) 32 = ptr_x g1" "inputfs_get_i32le (state_buf g1) 36 = ptr_y g1"
    using l by (simp_all add: get_i32_get32 ptr_x_def ptr_y_def)
  have b: "inputfs_get_u32le (state_buf g) 40 = ptr_buttons g"
    using assms(1) by (simp add: get_u32le_get32 ptr_buttons_def)
  obtain adx ady where u: "pointer_update (pr_dx out) (pr_dy out) (pr_buttons out) g = ((adx, ady), g1)"
    unfolding g1_def by (metis prod.collapse)
  have sp: "pointer_session_prev g1 = pointer_session_prev g" by (simp add: g1_def)
  show ?thesis
    unfolding pointer_extracted_def Let_def b u prod.case r s_def [symmetric] publish_crossing_eq sp button_loop
    by (auto simp: pointer_events_def Let_def publish_args_def)
qed

lemma publish_args_frame [simp]:
  "state_buf (publish_args a g) = state_buf g" "geom_known (publish_args a g) = geom_known g"
  "geom_width (publish_args a g) = geom_width g" "geom_height (publish_args a g) = geom_height g"
  "pointer_session_prev (publish_args a g) = pointer_session_prev g"
  "state_slot_used (publish_args a g) = state_slot_used g" "state_seq (publish_args a g) = state_seq g"
  "focus_buf (publish_args a g) = focus_buf g"
  "focus_cache_valid (publish_args a g) = focus_cache_valid g"
  by (cases a, simp add: publish_args_def)+

lemma fold_publish_frame [simp]:
  "state_buf (fold publish_args as g) = state_buf g" "geom_known (fold publish_args as g) = geom_known g"
  "geom_width (fold publish_args as g) = geom_width g" "geom_height (fold publish_args as g) = geom_height g"
  "pointer_session_prev (fold publish_args as g) = pointer_session_prev g"
  "state_slot_used (fold publish_args as g) = state_slot_used g" "state_seq (fold publish_args as g) = state_seq g"
  "focus_buf (fold publish_args as g) = focus_buf g"
  "focus_cache_valid (fold publish_args as g) = focus_cache_valid g"
  by (induction as arbitrary: g) simp_all

text \<open>The pointer of every device is one: a report without buttons from one device releases,
  in its own name, the buttons another device holds.\<close>

lemma foreign_release:
  assumes "ptr_buttons g = 1" "pr_buttons out = 0"
  shows "\<exists>p. (1, INPUTFS_POINTER_BUTTON_UP, event_dev_slot sc, 0, Some p, 20)
    \<in> set (pointer_events sc out pos delta ps s (ptr_buttons g))"
proof -
  have "button_args (event_dev_slot sc) (fst pos) (snd pos) 0 s 0
      \<in> set (pointer_events sc out pos delta ps s (ptr_buttons g))"
    using assms by (cases pos) (auto simp: pointer_events_def Let_def bit_1_iff)
  then show ?thesis by (auto simp: button_args_def)
qed

end
