(* ===== verification/Inputfs_Touch.thy ===== *)
theory Inputfs_Touch
  imports Inputfs_Pointer
begin

text \<open>
  Touch reports in \<^verbatim>\<open>inputfs.c\<close>: the scaling to pixels, the state machine of the contacts
  with its touch events, the cursor that follows a single contact, and the clickpad button.
\<close>

section \<open>Touchpad mode\<close>

text \<open>What \<^verbatim>\<open>inputfs_digitizer_set_touchpad_mode\<close> asks of the device: nothing, or to set a
  feature report of the given id and length; \<open>None\<close> when nothing is sent.\<close>

definition inputfs_digitizer_set_touchpad_mode ::
  "(buf \<Rightarrow> hid_location \<Rightarrow> u32 \<Rightarrow> buf) \<Rightarrow> inputfs_softc \<Rightarrow> (byte \<times> buf) option" where
  "inputfs_digitizer_set_touchpad_mode hid_put_udata sc =
    (if \<not> device_mode_valid (sc_parser sc) then None
     else
       let rlen = device_mode_rlen (sc_parser sc)
       in if rlen < 2 \<or> 64 < rlen then None
          else
            let rid = device_mode_rid (sc_parser sc);
                body = hid_put_udata (replicate (rlen - 1) 0) (loc_device_mode (sc_parser sc)) 0x03
            in Some (rid, rid # body))"

section \<open>Device units to pixels\<close>

definition to_pixel_axis :: "int \<Rightarrow> int \<Rightarrow> int \<Rightarrow> int \<Rightarrow> int" where
  "to_pixel_axis device dev_min dev_range px_max =
    (let px = cdiv (wrap64 (wrap32 (device - dev_min) * px_max)) dev_range;
         px = (if px < 0 then 0 else px);
         px = (if px_max < px then px_max else px)
     in px)"

definition inputfs_digitizer_to_pixel :: "inputfs_globals \<Rightarrow> inputfs_softc \<Rightarrow> int \<Rightarrow> int \<Rightarrow> int \<times> int" where
  "inputfs_digitizer_to_pixel g sc device_x device_y =
    (let p = sc_parser sc;
         dev_x_range = wrap32 (touch_x_max p - touch_x_min p);
         dev_y_range = wrap32 (touch_y_max p - touch_y_min p)
     in if \<not> geom_known g \<or> dev_x_range \<le> 0 \<or> dev_y_range \<le> 0 then (device_x, device_y)
        else
          let px_max = wrap32 (sint (geom_width g) - 1);
              py_max = wrap32 (sint (geom_height g) - 1);
              px_max = (if px_max < 0 then 0 else px_max);
              py_max = (if py_max < 0 then 0 else py_max)
          in (to_pixel_axis device_x (touch_x_min p) dev_x_range px_max,
              to_pixel_axis device_y (touch_y_min p) dev_y_range py_max))"

section \<open>The contacts\<close>

definition touch_payload :: "byte \<Rightarrow> int \<Rightarrow> int \<Rightarrow> u32 \<Rightarrow> buf" where
  "touch_payload cid px py session =
    (let payload = replicate 32 0;
         payload = inputfs_put_u32le payload 0 (ucast cid);
         payload = inputfs_put_i32le payload 4 px;
         payload = inputfs_put_i32le payload 8 py;
         payload = inputfs_put_u32le payload 12 0
     in inputfs_put_u32le payload 16 session)"

definition touch_up_payload :: "byte \<Rightarrow> int \<Rightarrow> int \<Rightarrow> u32 \<Rightarrow> buf" where
  "touch_up_payload cid x y session =
    (let payload = replicate 32 0;
         payload = inputfs_put_u32le payload 0 (ucast cid);
         payload = inputfs_put_i32le payload 4 x;
         payload = inputfs_put_i32le payload 8 y
     in inputfs_put_u32le payload 12 session)"

definition set_contact :: "nat \<Rightarrow> (touch_contact \<Rightarrow> touch_contact) \<Rightarrow> inputfs_softc \<Rightarrow> inputfs_softc" where
  "set_contact i f sc = sc\<lparr>sc_touch_contacts := (sc_touch_contacts sc)[i := f (sc_touch_contacts sc ! i)]\<rparr>"

text \<open>A contact with the tip down: the new contact and touch event, and the motion of the
  cursor it asks for.\<close>

definition contact_down :: "u16 \<Rightarrow> byte \<Rightarrow> int \<Rightarrow> int \<Rightarrow> u32 \<Rightarrow> inputfs_softc \<Rightarrow> inputfs_globals
    \<Rightarrow> inputfs_softc \<times> inputfs_globals \<times> (int \<times> int) option" where
  "contact_down dev_slot cid px py session sc g =
    (let i = unat cid;
         (sc, g, synth) =
           (if \<not> tc_active (sc_touch_contacts sc ! i) then
              let g = inputfs_events_publish INPUTFS_SOURCE_TOUCH INPUTFS_TOUCH_DOWN dev_slot 0
                    (Some (touch_payload cid px py session)) 20 g;
                  sc = set_contact i (\<lambda>c. c\<lparr>tc_active := True, tc_session_id := session\<rparr>) sc;
                  sc = sc\<lparr>sc_active_contact_count := sc_active_contact_count sc + 1\<rparr>;
                  sc = (if sc_active_contact_count sc = 1
                        then sc\<lparr>sc_primary_cid := cid, sc_primary_last_x := px, sc_primary_last_y := py\<rparr>
                        else if sc_active_contact_count sc = 2
                        then sc\<lparr>sc_primary_cid := INPUTFS_NO_PRIMARY\<rparr> else sc)
              in (sc, g, None)
            else
              let g = inputfs_events_publish INPUTFS_SOURCE_TOUCH INPUTFS_TOUCH_MOVE dev_slot 0
                    (Some (touch_payload cid px py (tc_session_id (sc_touch_contacts sc ! i)))) 20 g
              in if sc_active_contact_count sc = 1 \<and> sc_primary_cid sc = cid
                 then (sc\<lparr>sc_primary_last_x := px, sc_primary_last_y := py\<rparr>, g,
                   Some (wrap32 (px - sc_primary_last_x sc), wrap32 (py - sc_primary_last_y sc)))
                 else (sc, g, None))
     in (set_contact i (\<lambda>c. c\<lparr>tc_last_x := px, tc_last_y := py\<rparr>) sc, g, synth))"

definition first_active :: "inputfs_softc \<Rightarrow> nat option" where
  "first_active sc = find (\<lambda>i. tc_active (sc_touch_contacts sc ! i)) [0..<INPUTFS_MAX_CONTACTS]"

definition contact_up :: "u16 \<Rightarrow> byte \<Rightarrow> inputfs_softc \<Rightarrow> inputfs_globals \<Rightarrow> inputfs_softc \<times> inputfs_globals" where
  "contact_up dev_slot cid sc g =
    (let i = unat cid; c = sc_touch_contacts sc ! i
     in if \<not> tc_active c then (sc, g)
        else
          let g = inputfs_events_publish INPUTFS_SOURCE_TOUCH INPUTFS_TOUCH_UP dev_slot 0
                (Some (touch_up_payload cid (tc_last_x c) (tc_last_y c) (tc_session_id c))) 16 g;
              sc = set_contact i (\<lambda>c. c\<lparr>tc_active := False, tc_session_id := 0\<rparr>) sc;
              sc = (if 0 < sc_active_contact_count sc
                    then sc\<lparr>sc_active_contact_count := sc_active_contact_count sc - 1\<rparr> else sc);
              sc = (if sc_active_contact_count sc = 0 then sc\<lparr>sc_primary_cid := INPUTFS_NO_PRIMARY\<rparr>
                    else if sc_active_contact_count sc = 1 then
                      (case first_active sc of
                         None \<Rightarrow> sc
                       | Some j \<Rightarrow> sc\<lparr>sc_primary_cid := of_nat j,
                           sc_primary_last_x := tc_last_x (sc_touch_contacts sc ! j),
                           sc_primary_last_y := tc_last_y (sc_touch_contacts sc ! j)\<rparr>)
                    else sc)
          in (sc, g))"

text \<open>The cursor follows: position, crossing events and a synthesised motion event.\<close>

definition synth_motion :: "u16 \<Rightarrow> int \<Rightarrow> int \<Rightarrow> inputfs_globals \<Rightarrow> inputfs_globals" where
  "synth_motion dev_slot synth_dx synth_dy g =
    (let prev_buttons = inputfs_get_u32le (state_buf g) OFF_PTR_BUTTONS;
         ((actual_dx, actual_dy), g) = pointer_update synth_dx synth_dy prev_buttons g;
         new_x = inputfs_get_i32le (state_buf g) OFF_PTR_X;
         new_y = inputfs_get_i32le (state_buf g) OFF_PTR_Y;
         cur_session = inputfs_focus_resolve_pointer new_x new_y g;
         g = publish_crossing dev_slot new_x new_y cur_session g
     in inputfs_events_publish INPUTFS_SOURCE_POINTER INPUTFS_POINTER_MOTION dev_slot 1
          (Some (motion_payload new_x new_y actual_dx actual_dy prev_buttons cur_session)) 24 g)"

definition clickpad_button ::
  "u16 \<Rightarrow> byte \<Rightarrow> int \<Rightarrow> int \<Rightarrow> u32 \<Rightarrow> inputfs_softc \<Rightarrow> inputfs_globals \<Rightarrow> inputfs_softc \<times> inputfs_globals" where
  "clickpad_button dev_slot btn px py session sc g =
    (if 0 < hl_size (loc_touch_button (sc_parser sc)) \<and> btn \<noteq> sc_touch_prev_button sc then
       let (btn_x, btn_y, btn_session) =
             (case first_active sc of
                Some i \<Rightarrow> (tc_last_x (sc_touch_contacts sc ! i), tc_last_y (sc_touch_contacts sc ! i),
                  tc_session_id (sc_touch_contacts sc ! i))
              | None \<Rightarrow> (px, py, session));
           g = inputfs_events_publish INPUTFS_SOURCE_POINTER
             (if btn \<noteq> 0 then INPUTFS_POINTER_BUTTON_DOWN else INPUTFS_POINTER_BUTTON_UP) dev_slot 0
             (Some (button_payload btn_x btn_y 1 (if btn \<noteq> 0 then 1 else 0) btn_session)) 20 g
       in (sc\<lparr>sc_touch_prev_button := btn\<rparr>, g)
     else (sc, g))"

definition inputfs_digitizer_dispatch ::
  "buf \<Rightarrow> u16 \<Rightarrow> inputfs_softc \<times> inputfs_globals \<Rightarrow> inputfs_softc \<times> inputfs_globals" where
  "inputfs_digitizer_dispatch report dev_slot st =
    (let (sc, g) = st;
         (rc, out) = inputfs_extract_digitizer (sc_parser sc) report
           \<lparr>tr_tip_switch = 0, tr_confidence = 0, tr_contact_id = 0, tr_x = 0, tr_y = 0,
            tr_scan_time = 0, tr_contact_count = 0, tr_button = 0\<rparr>
     in if \<not> rc then (sc, g)
        else
          let cid = (if 8 \<le> tr_contact_id out then 7 else tr_contact_id out);
              effective_tip =
                (if 0 < hl_size (loc_confidence (sc_parser sc)) \<and> tr_confidence out = 0 then 0
                 else tr_tip_switch out);
              (px, py) = inputfs_digitizer_to_pixel g sc (tr_x out) (tr_y out);
              session = inputfs_focus_resolve_pointer px py g;
              (sc, g, synth) =
                (if effective_tip \<noteq> 0 then contact_down dev_slot cid px py session sc g
                 else case contact_up dev_slot cid sc g of (sc, g) \<Rightarrow> (sc, g, None));
              g = (case synth of None \<Rightarrow> g | Some (dx, dy) \<Rightarrow> synth_motion dev_slot dx dy g)
          in clickpad_button dev_slot (tr_button out) px py session sc g)"

section \<open>The contact invariant\<close>

definition active_set :: "inputfs_softc \<Rightarrow> nat set" where
  "active_set sc = {i. i < 8 \<and> tc_active (sc_touch_contacts sc ! i)}"

text \<open>The count is the number of active contacts; with exactly one, it is the primary and the
  baseline is its last position; otherwise there is no primary.\<close>

definition touch_ok :: "inputfs_softc \<Rightarrow> bool" where
  "touch_ok sc \<longleftrightarrow> length (sc_touch_contacts sc) = 8 \<and>
     unat (sc_active_contact_count sc) = card (active_set sc) \<and>
     (if card (active_set sc) = 1
      then unat (sc_primary_cid sc) \<in> active_set sc \<and>
        sc_primary_last_x sc = tc_last_x (sc_touch_contacts sc ! unat (sc_primary_cid sc)) \<and>
        sc_primary_last_y sc = tc_last_y (sc_touch_contacts sc ! unat (sc_primary_cid sc))
      else sc_primary_cid sc = INPUTFS_NO_PRIMARY)"

lemma active_set_finite [simp]: "finite (active_set sc)"
  by (rule finite_subset [of _ "{..<8}"]) (auto simp: active_set_def)

lemma card_active_set: "card (active_set sc) \<le> 8"
  using card_mono [of "{..<8}" "active_set sc"] by (simp add: active_set_def subset_eq)

lemma set_contact_simps [simp]:
  "sc_active_contact_count (set_contact i f sc) = sc_active_contact_count sc"
  "sc_primary_cid (set_contact i f sc) = sc_primary_cid sc"
  "sc_primary_last_x (set_contact i f sc) = sc_primary_last_x sc"
  "sc_primary_last_y (set_contact i f sc) = sc_primary_last_y sc"
  "sc_parser (set_contact i f sc) = sc_parser sc"
  "length (sc_touch_contacts (set_contact i f sc)) = length (sc_touch_contacts sc)"
  by (simp_all add: set_contact_def)

lemma nth_set_contact:
  "i < length (sc_touch_contacts sc) \<Longrightarrow>
   sc_touch_contacts (set_contact i f sc) ! j =
     (if j = i then f (sc_touch_contacts sc ! i) else sc_touch_contacts sc ! j)"
  by (simp add: set_contact_def nth_list_update)

lemma first_active_Some:
  assumes "active_set sc \<noteq> {}"
  obtains j where "first_active sc = Some j" "j \<in> active_set sc"
proof -
  have "first_active sc \<noteq> None"
    using assms by (auto simp: first_active_def find_None_iff active_set_def)
  then obtain j where j: "first_active sc = Some j" by blast
  then have "j \<in> active_set sc"
    by (auto simp: first_active_def find_Some_iff active_set_def)
  with j that show thesis by blast
qed

lemma single_active:
  assumes "card (active_set sc) = 1" "i \<in> active_set sc" "j \<in> active_set sc"
  shows "i = j"
  using assms by (metis card_1_singletonE singletonD)

lemma touch_okI:
  assumes "length (sc_touch_contacts sc) = 8"
    and "unat (sc_active_contact_count sc) = card (active_set sc)"
    and "card (active_set sc) = 1 \<Longrightarrow> unat (sc_primary_cid sc) \<in> active_set sc \<and>
        sc_primary_last_x sc = tc_last_x (sc_touch_contacts sc ! unat (sc_primary_cid sc)) \<and>
        sc_primary_last_y sc = tc_last_y (sc_touch_contacts sc ! unat (sc_primary_cid sc))"
    and "card (active_set sc) \<noteq> 1 \<Longrightarrow> sc_primary_cid sc = INPUTFS_NO_PRIMARY"
  shows "touch_ok sc"
  using assms by (simp add: touch_ok_def)

lemma count_eq:
  assumes "touch_ok sc" "n \<le> 8"
  shows "sc_active_contact_count sc = of_nat n \<longleftrightarrow> card (active_set sc) = n"
  using assms by (simp add: touch_ok_def word_unat_eq_iff unat_of_nat)

lemma unat_count_plus:
  assumes "touch_ok sc" shows "unat (sc_active_contact_count sc + 1) = card (active_set sc) + 1"
  using assms card_active_set [of sc] by (simp add: touch_ok_def unat_word_ariths)

lemma contact_down_ok:
  assumes ok: "touch_ok sc" and cid: "unat cid < 8"
    and r: "contact_down dev_slot cid px py session sc g = (sc', g', synth)"
  shows "touch_ok sc'" "unat cid \<in> active_set sc'"
    "active_set sc' = insert (unat cid) (active_set sc)"
proof -
  let ?i = "unat cid" and ?A = "active_set sc"
  have len: "length (sc_touch_contacts sc) = 8" using ok by (simp add: touch_ok_def)
  show A: "active_set sc' = insert ?i ?A"
    using r cid len
    by (auto simp: contact_down_def Let_def active_set_def nth_set_contact set_contact_def
        nth_list_update split: if_splits)
  then show "?i \<in> active_set sc'" by simp
  show "touch_ok sc'"
  proof (cases "?i \<in> ?A")
    case True
    then have act: "tc_active (sc_touch_contacts sc ! ?i)" by (simp add: active_set_def)
    have A': "active_set sc' = ?A" using A True by auto
    have one: "sc_active_contact_count sc = 1 \<longleftrightarrow> card ?A = 1" using count_eq [OF ok, of 1] by simp
    have prim: "sc_primary_cid sc = cid" if "card ?A = 1"
      using ok that single_active [OF that _ True] by (auto simp: touch_ok_def word_unat_eq_iff)
    show ?thesis
    proof (rule touch_okI)
      show "length (sc_touch_contacts sc') = 8" "unat (sc_active_contact_count sc') = card (active_set sc')"
        "card (active_set sc') \<noteq> 1 \<Longrightarrow> sc_primary_cid sc' = INPUTFS_NO_PRIMARY"
        using r act ok by (auto simp: contact_down_def Let_def A' touch_ok_def split: if_splits)
      assume c: "card (active_set sc') = 1"
      with A' one prim have "sc_active_contact_count sc = 1" "sc_primary_cid sc = cid" by simp_all
      with r act len cid True show "unat (sc_primary_cid sc') \<in> active_set sc' \<and>
          sc_primary_last_x sc' = tc_last_x (sc_touch_contacts sc' ! unat (sc_primary_cid sc')) \<and>
          sc_primary_last_y sc' = tc_last_y (sc_touch_contacts sc' ! unat (sc_primary_cid sc'))"
        by (auto simp: contact_down_def Let_def A' nth_set_contact)
    qed
  next
    case False
    then have act: "\<not> tc_active (sc_touch_contacts sc ! ?i)" using cid by (simp add: active_set_def)
    have card: "card (active_set sc') = card ?A + 1" using A False by simp
    have one: "sc_active_contact_count sc + 1 = 1 \<longleftrightarrow> card ?A = 0"
      and two: "sc_active_contact_count sc + 1 = 2 \<longleftrightarrow> card ?A = 1"
      using unat_count_plus [OF ok] by (simp_all add: word_unat_eq_iff)
    show ?thesis
    proof (rule touch_okI)
      show "length (sc_touch_contacts sc') = 8"
        using r act len by (auto simp: contact_down_def Let_def)
      show "unat (sc_active_contact_count sc') = card (active_set sc')"
        using r act unat_count_plus [OF ok] card by (auto simp: contact_down_def Let_def)
      show "sc_primary_cid sc' = INPUTFS_NO_PRIMARY" if "card (active_set sc') \<noteq> 1"
        using r act that card one two ok by (auto simp: contact_down_def Let_def touch_ok_def)
      show "unat (sc_primary_cid sc') \<in> active_set sc' \<and>
          sc_primary_last_x sc' = tc_last_x (sc_touch_contacts sc' ! unat (sc_primary_cid sc')) \<and>
          sc_primary_last_y sc' = tc_last_y (sc_touch_contacts sc' ! unat (sc_primary_cid sc'))"
        if "card (active_set sc') = 1"
        using r act that card one len cid A
        by (auto simp: contact_down_def Let_def nth_set_contact)
    qed
  qed
qed

lemma contact_up_ok:
  assumes ok: "touch_ok sc" and cid: "unat cid < 8"
    and r: "contact_up dev_slot cid sc g = (sc', g')"
  shows "touch_ok sc'" "active_set sc' = active_set sc - {unat cid}"
proof -
  let ?i = "unat cid" and ?A = "active_set sc"
  have len: "length (sc_touch_contacts sc) = 8" using ok by (simp add: touch_ok_def)
  show A: "active_set sc' = ?A - {?i}"
    using r cid len
    by (auto simp: contact_up_def Let_def active_set_def nth_set_contact
        split: if_splits option.splits)
  show "touch_ok sc'"
  proof (cases "?i \<in> ?A")
    case False
    then show ?thesis using r cid ok by (auto simp: contact_up_def active_set_def)
  next
    case True
    then have act: "tc_active (sc_touch_contacts sc ! ?i)" by (simp add: active_set_def)
    have pos: "0 < card ?A" using True by (metis active_set_finite card_gt_0_iff empty_iff)
    have card: "card (active_set sc') = card ?A - 1" using A True by simp
    have cnt: "unat (sc_active_contact_count sc) = card ?A" using ok by (simp add: touch_ok_def)
    have nz: "0 < sc_active_contact_count sc" using cnt pos by (simp add: word_less_nat_alt)
    have dec: "unat (sc_active_contact_count sc - 1) = card ?A - 1"
      using cnt pos nz by (simp add: unat_minus_one word_gt_0)
    define sc1 where "sc1 = (set_contact ?i (\<lambda>c. c\<lparr>tc_active := False, tc_session_id := 0\<rparr>) sc)
      \<lparr>sc_active_contact_count := sc_active_contact_count sc - 1\<rparr>"
    have A1: "active_set sc1 = active_set sc'"
      using cid len unfolding A by (auto simp: sc1_def active_set_def nth_set_contact)
    have sc': "sc' = (if card (active_set sc') = 0 then sc1\<lparr>sc_primary_cid := INPUTFS_NO_PRIMARY\<rparr>
        else if card (active_set sc') = 1 then
          (case first_active sc1 of None \<Rightarrow> sc1
           | Some j \<Rightarrow> sc1\<lparr>sc_primary_cid := of_nat j,
               sc_primary_last_x := tc_last_x (sc_touch_contacts sc1 ! j),
               sc_primary_last_y := tc_last_y (sc_touch_contacts sc1 ! j)\<rparr>)
        else sc1)"
    proof -
      have "sc_active_contact_count sc - 1 = 0 \<longleftrightarrow> card (active_set sc') = 0"
        "sc_active_contact_count sc - 1 = 1 \<longleftrightarrow> card (active_set sc') = 1"
        unfolding word_unat_eq_iff dec card by simp_all
      then show ?thesis using r act nz by (simp add: contact_up_def Let_def sc1_def cong: if_cong option.case_cong)
    qed
    have base: "length (sc_touch_contacts sc1) = 8" "unat (sc_active_contact_count sc1) = card (active_set sc')"
      using len dec card by (simp_all add: sc1_def)
    have many: "sc_primary_cid sc1 = INPUTFS_NO_PRIMARY" if "card (active_set sc') \<noteq> 0" 
      using ok that card by (auto simp: touch_ok_def sc1_def)
    have one: "\<exists>j. first_active sc1 = Some j \<and> j \<in> active_set sc'" if "card (active_set sc') = 1"
    proof -
      have "active_set sc1 \<noteq> {}" using that A1 by auto
      then show ?thesis using A1 by (metis first_active_Some)
    qed
    have small: "unat (of_nat j :: byte) = j" if "j \<in> active_set sc'" for j
      using that by (simp add: active_set_def unat_of_nat)
    have same: "sc_touch_contacts sc' = sc_touch_contacts sc1"
      by (subst sc') (simp split: option.split)
    show ?thesis
    proof (rule touch_okI)
      show "length (sc_touch_contacts sc') = 8" using base same by simp
      show "unat (sc_active_contact_count sc') = card (active_set sc')"
        using base by (subst sc') (simp split: option.split)
      show "sc_primary_cid sc' = INPUTFS_NO_PRIMARY" if "card (active_set sc') \<noteq> 1"
        using that many by (subst sc') simp
      show "unat (sc_primary_cid sc') \<in> active_set sc' \<and>
          sc_primary_last_x sc' = tc_last_x (sc_touch_contacts sc' ! unat (sc_primary_cid sc')) \<and>
          sc_primary_last_y sc' = tc_last_y (sc_touch_contacts sc' ! unat (sc_primary_cid sc'))"
        if c: "card (active_set sc') = 1"
      proof -
        obtain j where j: "first_active sc1 = Some j" "j \<in> active_set sc'" using one [OF c] by blast
        have "sc' = sc1\<lparr>sc_primary_cid := of_nat j,
               sc_primary_last_x := tc_last_x (sc_touch_contacts sc1 ! j),
               sc_primary_last_y := tc_last_y (sc_touch_contacts sc1 ! j)\<rparr>"
          using sc' c j(1) by simp
        then show ?thesis using j(2) small [OF j(2)] by simp
      qed
    qed
  qed
qed

lemma clickpad_button_ok:
  "touch_ok (fst (clickpad_button dev_slot btn px py session sc g)) = touch_ok sc"
  "active_set (fst (clickpad_button dev_slot btn px py session sc g)) = active_set sc"
  "sc_touch_contacts (fst (clickpad_button dev_slot btn px py session sc g)) = sc_touch_contacts sc"
  by (auto simp: clickpad_button_def Let_def touch_ok_def active_set_def split: option.split)

lemma digitizer_dispatch_ok:
  assumes "touch_ok sc"
  shows "touch_ok (fst (inputfs_digitizer_dispatch report dev_slot (sc, g)))"
proof -
  have c: "unat (if (8 :: byte) \<le> w then 7 else w) < 8" for w :: byte
    by (simp add: word_le_nat_alt not_le)
  have down: "touch_ok (fst (contact_down dev_slot (if 8 \<le> w then 7 else w) px py session sc g))"
    for w px py session
    using contact_down_ok(1) [OF assms c] by (metis prod.collapse)
  have up: "touch_ok (fst (contact_up dev_slot (if 8 \<le> w then 7 else w) sc g))" for w
    using contact_up_ok(1) [OF assms c] by (metis prod.collapse)
  obtain rc out where e: "inputfs_extract_digitizer (sc_parser sc) report
      \<lparr>tr_tip_switch = 0, tr_confidence = 0, tr_contact_id = 0, tr_x = 0, tr_y = 0,
       tr_scan_time = 0, tr_contact_count = 0, tr_button = 0\<rparr> = (rc, out)" by force
  show ?thesis
    unfolding inputfs_digitizer_dispatch_def
    using assms down up
    by (simp add: Let_def e clickpad_button_ok(1) split_beta if_distrib [of fst] if_distrib [of touch_ok]
        split del: if_split cong: if_cong)
qed

section \<open>Pixels are on the display\<close>

lemma to_pixel_axis_range:
  assumes "0 \<le> px_max" shows "0 \<le> to_pixel_axis d lo r px_max" "to_pixel_axis d lo r px_max \<le> px_max"
  using assms by (auto simp: to_pixel_axis_def Let_def)

text \<open>The ends of the device's range land on the ends of the display, without overflow.\<close>

lemma to_pixel_axis_exact:
  assumes "is32 px_max" "0 \<le> px_max" "lo \<le> d" "d \<le> hi" "lo < hi" "is32 (hi - lo)"
  shows "to_pixel_axis d lo (hi - lo) px_max = (d - lo) * px_max div (hi - lo)"
proof -
  have p: "0 \<le> (d - lo) * px_max" "(d - lo) * px_max \<le> (hi - lo) * px_max"
    using assms by (simp_all add: mult_right_mono)
  have "(hi - lo) * px_max \<le> 2 ^ 31 * 2 ^ 31"
    using assms by (intro mult_mono) simp_all
  then have w: "wrap64 ((d - lo) * px_max) = (d - lo) * px_max"
    using p by (intro wrap64_id) simp
  have "is32 (d - lo)" using assms by simp
  then have w32: "wrap32 (d - lo) = d - lo" by (rule wrap32_id)
  have q: "cdiv ((d - lo) * px_max) (hi - lo) = (d - lo) * px_max div (hi - lo)"
    using p assms by (simp add: cdiv_def)
  have "(d - lo) * px_max div (hi - lo) \<le> (hi - lo) * px_max div (hi - lo)"
    using assms p(2) by (intro zdiv_mono1) simp_all
  moreover have "0 \<le> (d - lo) * px_max div (hi - lo)"
    using p(1) assms by (simp only: pos_imp_zdiv_nonneg_iff diff_gt_0_iff_gt)
  ultimately show ?thesis using assms by (simp add: to_pixel_axis_def Let_def w w32 q)
qed

end
