(* ===== verification/Inputfs_Inventory.thy ===== *)
theory Inputfs_Inventory
  imports Inputfs_Touch
begin

text \<open>
  The device inventory of \<^verbatim>\<open>inputfs.c\<close>: the parts of attach and detach that publish a
  device in the state region, and the invariant that ties the slot bitmap, the device count,
  the slots and the sequence lock together.
\<close>

section \<open>Publishing and withdrawing a device\<close>

text \<open>The part of \<^verbatim>\<open>inputfs_attach\<close> under the two locks.\<close>

definition attach_slot :: "device \<Rightarrow> inputfs_softc \<times> inputfs_globals \<Rightarrow> inputfs_softc \<times> inputfs_globals" where
  "attach_slot dev st =
    (let (sc, g) = st;
         (slot, g) = inputfs_state_alloc_slot g;
         sc = sc\<lparr>sc_state_slot := slot\<rparr>
     in if slot \<noteq> INPUTFS_NO_STATE_SLOT then
          let g = inputfs_state_seqlock_begin g;
              g = inputfs_state_put_device slot dev (sc_roles sc) g;
              g = g\<lparr>state_buf := inputfs_put_u16le (state_buf g) OFF_DEVICE_COUNT
                (inputfs_state_count_devices g)\<rparr>;
              g = inputfs_state_advance_seq g;
              g = inputfs_state_seqlock_end g;
              g = g\<lparr>state_buf := inputfs_put_u8 (state_buf g) OFF_VALID 1\<rparr>;
              g = inputfs_state_mark_dirty g;
              payload = inputfs_put_u32le (replicate 32 0) 0 (ucast (sc_roles sc));
              g = inputfs_events_publish INPUTFS_SOURCE_DEVICE_LIFECYCLE INPUTFS_LIFECYCLE_ATTACH
                (ucast slot) 0 (Some payload) 4 g
          in (sc, g)
        else (sc, g))"

text \<open>The part of \<^verbatim>\<open>inputfs_detach\<close> under the two locks.\<close>

definition detach_slot :: "inputfs_softc \<times> inputfs_globals \<Rightarrow> inputfs_softc \<times> inputfs_globals" where
  "detach_slot st =
    (let (sc, g) = st; slot = sc_state_slot sc
     in if slot \<noteq> INPUTFS_NO_STATE_SLOT then
          let g = inputfs_events_publish INPUTFS_SOURCE_DEVICE_LIFECYCLE INPUTFS_LIFECYCLE_DETACH
                (ucast slot) 0 None 0 g;
              g = inputfs_state_seqlock_begin g;
              g = inputfs_state_clear_device slot g;
              g = inputfs_state_release_slot slot g;
              g = g\<lparr>state_buf := inputfs_put_u16le (state_buf g) OFF_DEVICE_COUNT
                (inputfs_state_count_devices g)\<rparr>;
              g = inputfs_state_advance_seq g;
              g = inputfs_state_seqlock_end g;
              g = inputfs_state_mark_dirty g
          in (sc\<lparr>sc_state_slot := INPUTFS_NO_STATE_SLOT\<rparr>, g)
        else (sc, g))"

section \<open>The bitmap\<close>

definition used_slots :: "inputfs_globals \<Rightarrow> nat set" where
  "used_slots g = {i. i < 32 \<and> bit (state_slot_used g) i}"

lemma used_slots_finite [simp]: "finite (used_slots g)"
  by (rule finite_subset [of _ "{..<32}"]) (auto simp: used_slots_def)

lemma used_slots_bits: "used_slots g = {i. bit (state_slot_used g) i}"
  by (auto simp: used_slots_def dest: bit_imp_le_length)

lemma finite_bits: "finite {i. bit (m :: u32) i}"
  by (rule finite_subset [of _ "{..<32}"]) (auto dest: bit_imp_le_length)

lemma card_bits_shift: "card {i. bit (m :: u32) i} = (if odd m then 1 else 0) + card {i. bit (drop_bit 1 m) i}"
proof -
  have "{i. bit m i} = (if odd m then {0} else {}) \<union> Suc ` {i. bit (drop_bit 1 m) i}"
  proof (intro set_eqI iffI)
    fix i assume "i \<in> {i. bit m i}"
    then show "i \<in> (if odd m then {0} else {}) \<union> Suc ` {i. bit (drop_bit 1 m) i}"
      by (cases i) (auto simp: bit_drop_bit_eq bit_0 comp_def simp del: drop_bit_Suc)
  next
    fix i assume "i \<in> (if odd m then {0} else {}) \<union> Suc ` {i. bit (drop_bit 1 m) i}"
    then show "i \<in> {i. bit m i}"
      by (auto simp: bit_drop_bit_eq bit_0 comp_def simp del: drop_bit_Suc split: if_splits)
  qed
  moreover have "card (Suc ` {i. bit (drop_bit 1 m) i}) = card {i. bit (drop_bit 1 m) i}"
    by (simp add: card_image)
  ultimately show ?thesis by (simp add: finite_bits card_insert_if)
qed

lemma count_mask_card: "count_mask c m = c + of_nat (card {i. bit m i})"
proof (induction c m rule: count_mask.induct)
  case (1 c m)
  show ?case
  proof (cases "m = 0")
    case True
    then show ?thesis by (simp add: count_mask.simps)
  next
    case False
    have "(ucast (m AND 1) :: u16) = (if odd m then 1 else 0)" by (simp add: and_one_eq mod_2_eq_odd)
    then show ?thesis
      using 1 [OF False] False
      by (subst count_mask.simps, subst card_bits_shift) (simp del: drop_bit_Suc)
  qed
qed

lemma count_devices_card: "inputfs_state_count_devices g = of_nat (card (used_slots g))"
  by (simp add: inputfs_state_count_devices_def count_mask_card used_slots_bits)

lemma alloc_slot_from_cases:
  assumes "i \<le> 32" "alloc_slot_from i g = (slot, g')"
  shows "(\<forall>k. i \<le> k \<and> k < 32 \<longrightarrow> bit (state_slot_used g) k) \<and> slot = INPUTFS_NO_STATE_SLOT \<and> g' = g \<or>
    (\<exists>j. i \<le> j \<and> j < 32 \<and> slot = of_nat j \<and> \<not> bit (state_slot_used g) j \<and>
       (\<forall>k. i \<le> k \<and> k < j \<longrightarrow> bit (state_slot_used g) k) \<and>
       g' = g\<lparr>state_slot_used := set_bit j (state_slot_used g)\<rparr>)"
  using assms
proof (induction i g rule: alloc_slot_from.induct)
  case (1 i g)
  consider (full) "32 \<le> i" | (free) "i < 32" "\<not> bit (state_slot_used g) i"
    | (taken) "i < 32" "bit (state_slot_used g) i" by linarith
  then show ?case
  proof cases
    case full
    then show ?thesis using 1(2,3) by (auto simp: alloc_slot_from.simps)
  next
    case free
    then show ?thesis
      using 1(3) by (subst (asm) alloc_slot_from.simps)
        (auto simp: u32_bit set_bit_eq_or simp del: push_bit_of_1)
  next
    case taken
    then have r: "alloc_slot_from (i + 1) g = (slot, g')"
      using 1(3) by (subst (asm) alloc_slot_from.simps) (simp add: u32_bit del: push_bit_of_1)
    have "\<not> 32 \<le> i" "\<not> state_slot_used g AND push_bit i 1 = 0"
      using taken by (simp_all add: u32_bit del: push_bit_of_1)
    from 1(1) [OF this _ r] taken show ?thesis
      by (auto simp: Suc_le_eq) (metis le_neq_implies_less nat_less_le Suc_leI)+
  qed
qed

text \<open>The allocator takes the lowest free slot, and fails only when there is none.\<close>

lemma alloc_slot_cases:
  assumes "inputfs_state_alloc_slot g = (slot, g')"
  obtains (full) "used_slots g = {..<32}" "slot = INPUTFS_NO_STATE_SLOT" "g' = g"
  | (free) j where "j < 32" "slot = of_nat j" "j \<notin> used_slots g" "\<And>k. k < j \<Longrightarrow> k \<in> used_slots g"
      "g' = g\<lparr>state_slot_used := set_bit j (state_slot_used g)\<rparr>"
  using alloc_slot_from_cases [of 0 g slot g'] assms
  by (auto simp: inputfs_state_alloc_slot_def used_slots_def)

section \<open>The invariant\<close>

abbreviation dev_base :: "nat \<Rightarrow> nat" where "dev_base i \<equiv> INPUTFS_DEV_OFF + i * INPUTFS_DEV_SLOT_SIZE"

definition slot_published :: "buf \<Rightarrow> nat \<Rightarrow> bool" where
  "slot_published bs i \<longleftrightarrow> bs ! dev_base i = 0x01"

definition slot_empty :: "buf \<Rightarrow> nat \<Rightarrow> bool" where
  "slot_empty bs i \<longleftrightarrow> field (dev_base i) INPUTFS_DEV_SLOT_SIZE bs = replicate INPUTFS_DEV_SLOT_SIZE 0"

text \<open>
  The region has its size, its sequence lock is even (no writer inside), its sequence number
  is the driver's, its device count is the number of slots in use, each slot in use starts
  with the device marker and each other slot is all zero.
\<close>

definition inventory_ok :: "inputfs_globals \<Rightarrow> bool" where
  "inventory_ok g \<longleftrightarrow> state_sized g \<and> even (get32 (state_buf g) OFF_SEQLOCK) \<and>
     get64 (state_buf g) OFF_LAST_SEQ = state_seq g \<and>
     get16 (state_buf g) OFF_DEVICE_COUNT = of_nat (card (used_slots g)) \<and>
     (\<forall>i<32. if i \<in> used_slots g then slot_published (state_buf g) i else slot_empty (state_buf g) i)"

lemma inventory_okD:
  assumes "inventory_ok g"
  shows "state_sized g" "even (get32 (state_buf g) OFF_SEQLOCK)" "get64 (state_buf g) OFF_LAST_SEQ = state_seq g"
    "get16 (state_buf g) OFF_DEVICE_COUNT = of_nat (card (used_slots g))"
    "i < 32 \<Longrightarrow> i \<in> used_slots g \<Longrightarrow> slot_published (state_buf g) i"
    "i < 32 \<Longrightarrow> i \<notin> used_slots g \<Longrightarrow> slot_empty (state_buf g) i"
  using assms by (auto simp: inventory_ok_def)

text \<open>The header and the other slots do not see a write inside one slot.\<close>

definition same_outside :: "nat \<Rightarrow> buf \<Rightarrow> buf \<Rightarrow> bool" where
  "same_outside i bs bs' \<longleftrightarrow> length bs' = length bs \<and>
     (\<forall>a n. a + n \<le> length bs \<longrightarrow> a + n \<le> dev_base i \<or> dev_base i + 160 \<le> a \<longrightarrow> field a n bs' = field a n bs)"

lemma same_outside_refl [simp]: "same_outside i bs bs" by (simp add: same_outside_def)

lemma same_outside_trans: "same_outside i bs bs1 \<Longrightarrow> same_outside i bs1 bs2 \<Longrightarrow> same_outside i bs bs2"
  by (auto simp: same_outside_def)

lemma same_outside_blit:
  assumes "same_outside i bs bs1" "dev_base i \<le> off" "off + length src \<le> dev_base i + 160"
    "dev_base i + 160 \<le> length bs"
  shows "same_outside i bs (blit bs1 off src)"
  using assms by (auto simp: same_outside_def field_blit_other)

lemma nth_field: "field a 1 bs = field a 1 bs' \<Longrightarrow> a < length bs \<Longrightarrow> a < length bs' \<Longrightarrow> bs ! a = bs' ! a"
  by (simp add: field_def take_Suc_conv_app_nth hd_drop_conv_nth take_Suc)

lemma same_outside_slots:
  assumes "same_outside i bs bs'" "j \<noteq> i" "j < 32" "length bs = INPUTFS_STATE_SIZE"
  shows "slot_published bs' j = slot_published bs j" "slot_empty bs' j = slot_empty bs j"
proof -
  have l: "length bs' = INPUTFS_STATE_SIZE" using assms by (simp add: same_outside_def)
  have d: "j < i \<or> i < j" using assms(2) by auto
  then have "field (dev_base j) 160 bs' = field (dev_base j) 160 bs" "field (dev_base j) 1 bs' = field (dev_base j) 1 bs"
    using assms(1,3,4) unfolding same_outside_def by auto
  then show "slot_published bs' j = slot_published bs j" "slot_empty bs' j = slot_empty bs j"
    using nth_field [of "dev_base j" bs' bs] l assms(3,4) by (auto simp: slot_published_def slot_empty_def)
qed

lemma same_outside_header:
  assumes "same_outside i bs bs'" "a + 8 \<le> 64" "length bs = INPUTFS_STATE_SIZE"
  shows "get16 bs' a = get16 bs a" "get32 bs' a = get32 bs a" "get64 bs' a = get64 bs a"
  using assms unfolding same_outside_def get_field by auto

text \<open>With the length carried along, the writes after the marker keep it.\<close>

definition marked :: "nat \<Rightarrow> nat \<Rightarrow> buf \<Rightarrow> bool" where
  "marked n i bs \<longleftrightarrow> length bs = n \<and> slot_published bs i"

lemma marked_blit:
  "marked n i bs \<Longrightarrow> dev_base i < off \<Longrightarrow> off + length src \<le> n \<Longrightarrow> marked n i (blit bs off src)"
  by (auto simp: marked_def slot_published_def nth_blit)

lemma marked_here: "dev_base i < n \<Longrightarrow> length bs = n \<Longrightarrow> marked n i (blit bs (dev_base i) [1])"
  by (simp add: marked_def slot_published_def nth_blit)

lemma put_device_buf:
  assumes "unat slot < 32" "state_sized g"
    and b_def: "b = state_buf (inputfs_state_put_device slot dev roles g)"
  shows "same_outside (unat slot) (state_buf g) b" "slot_published b (unat slot)"
proof -
  let ?i = "unat slot"
  have l: "length (state_buf g) = INPUTFS_STATE_SIZE" by (fact assms(2))
  have f: "dev_base ?i + 160 \<le> INPUTFS_STATE_SIZE" using assms(1) by simp
  show "same_outside ?i (state_buf g) b"
    using assms(1) l f unfolding b_def inputfs_state_put_device_def
    by (auto simp: Let_def put_u32le_blit put_u16le_blit list_update_blit intro!: same_outside_blit
        split: option.split)
  have "marked INPUTFS_STATE_SIZE ?i b"
    using assms(1) l f unfolding b_def inputfs_state_put_device_def
    by (auto simp: Let_def put_u32le_blit put_u16le_blit list_update_blit
        intro!: marked_blit marked_here split: option.split)
  then show "slot_published b ?i" by (simp add: marked_def)
qed

lemma clear_device_buf:
  assumes "unat slot < 32" "state_sized g"
    and b_def: "b = state_buf (inputfs_state_clear_device slot g)"
  shows "same_outside (unat slot) (state_buf g) b" "slot_empty b (unat slot)"
  using assms unfolding b_def inputfs_state_clear_device_def slot_empty_def
  by (auto intro!: same_outside_blit simp: field_blit_same)

text \<open>A write inside the header leaves every slot.\<close>

lemma slots_header_blit:
  assumes "off + length src \<le> 64" "length bs = INPUTFS_STATE_SIZE" "j < 32"
  shows "slot_published (blit bs off src) j = slot_published bs j" "slot_empty (blit bs off src) j = slot_empty bs j"
  using assms by (auto simp: slot_published_def slot_empty_def nth_blit field_blit_other)

lemmas header_access = put_u32le_blit put_u16le_blit put_u64le_blit put_u8_blit get_u32le_get32 get_u64le_get64

lemma inventory_ok_state: 
  assumes "inventory_ok g" "state_buf g' = state_buf g" "state_seq g' = state_seq g"
    "state_slot_used g' = state_slot_used g"
  shows "inventory_ok g'"
  using assms by (simp add: inventory_ok_def used_slots_def)

text \<open>Both operations open the sequence lock, change one slot, and close with the same three
  steps; afterwards the invariant holds when the slots agree with the bitmap.\<close>

lemma seqlock_begin_ok:
  assumes "inventory_ok g"
    and g1_def: "g1 = inputfs_state_seqlock_begin g"
  shows "state_sized g1" "odd (get32 (state_buf g1) OFF_SEQLOCK)" "state_slot_used g1 = state_slot_used g"
    "j < 32 \<Longrightarrow> slot_published (state_buf g1) j = slot_published (state_buf g) j"
    "j < 32 \<Longrightarrow> slot_empty (state_buf g1) j = slot_empty (state_buf g) j"
  using inventory_okD(1,2) [OF assms(1)] unfolding g1_def inputfs_state_seqlock_begin_def
  by (simp_all add: header_access get_blit_same slots_header_blit)

lemma close_bracket_ok:
  assumes "state_sized g" "odd (get32 (state_buf g) OFF_SEQLOCK)"
    and slots: "\<And>j. j < 32 \<Longrightarrow> if j \<in> used_slots g then slot_published (state_buf g) j else slot_empty (state_buf g) j"
  shows "inventory_ok (inputfs_state_seqlock_end (inputfs_state_advance_seq
    (g\<lparr>state_buf := inputfs_put_u16le (state_buf g) OFF_DEVICE_COUNT (inputfs_state_count_devices g)\<rparr>)))"
    (is "inventory_ok ?g")
proof -
  let ?c = "put16 (inputfs_state_count_devices g)" and ?s = "put64 (state_seq g + 1)"
  have b: "state_buf ?g = blit (blit (blit (state_buf g) 44 ?c) 16 ?s) 8 (put32 (get32 (state_buf g) 8 + 1))"
    using assms(1) by (simp add: inputfs_state_seqlock_end_def inputfs_state_advance_seq_def Let_def header_access
        get_blit_other)
  have u: "used_slots ?g = used_slots g" "state_seq ?g = state_seq g + 1"
    by (simp_all add: used_slots_def inputfs_state_seqlock_end_def inputfs_state_advance_seq_def Let_def)
  show ?thesis
    unfolding inventory_ok_def b u using assms(1,2) slots
    by (simp add: get_blit_same get_blit_other slots_header_blit count_devices_card)
qed

lemma inventory_ok_valid:
  assumes "inventory_ok g"
  shows "inventory_ok (g\<lparr>state_buf := inputfs_put_u8 (state_buf g) OFF_VALID 1\<rparr>)"
  using assms by (simp add: inventory_ok_def header_access get_blit_other slots_header_blit used_slots_def)

lemma inventory_ok_mark_dirty: "inventory_ok (inputfs_state_mark_dirty g) = inventory_ok g"
  by (simp add: inputfs_state_mark_dirty_def inventory_ok_def used_slots_def)

lemma inventory_ok_publish: "inventory_ok (inputfs_events_publish sr et d f p n g) = inventory_ok g"
  by (simp add: inventory_ok_def used_slots_def)

lemma used_slots_set_bit:
  "j < 32 \<Longrightarrow> used_slots (g\<lparr>state_slot_used := set_bit j (state_slot_used g)\<rparr>) = insert j (used_slots g)"
  by (auto simp: used_slots_def bit_simps)

lemma attach_slot_ok:
  assumes ok: "inventory_ok g" and r: "attach_slot dev (sc, g) = (sc', g')"
  shows "inventory_ok g'"
    and "used_slots g = {..<32} \<Longrightarrow> g' = g \<and> sc_state_slot sc' = INPUTFS_NO_STATE_SLOT"
    and "used_slots g \<noteq> {..<32} \<Longrightarrow> unat (sc_state_slot sc') = (LEAST j. j \<notin> used_slots g) \<and>
      unat (sc_state_slot sc') < 32 \<and> used_slots g' = insert (unat (sc_state_slot sc')) (used_slots g)"
proof -
  obtain slot g1 where a: "inputfs_state_alloc_slot g = (slot, g1)" by force
  have "inventory_ok g' \<and> (used_slots g = {..<32} \<longrightarrow> g' = g \<and> sc_state_slot sc' = INPUTFS_NO_STATE_SLOT) \<and>
    (used_slots g \<noteq> {..<32} \<longrightarrow> unat (sc_state_slot sc') = (LEAST j. j \<notin> used_slots g) \<and>
      unat (sc_state_slot sc') < 32 \<and> used_slots g' = insert (unat (sc_state_slot sc')) (used_slots g))"
    using a
  proof (cases rule: alloc_slot_cases)
    case full
    have a': "inputfs_state_alloc_slot g = (INPUTFS_NO_STATE_SLOT, g)" using a full(2,3) by simp
    have "sc' = sc\<lparr>sc_state_slot := INPUTFS_NO_STATE_SLOT\<rparr>" "g' = g"
      using r by (simp_all add: attach_slot_def a')
    then show ?thesis using ok full(1) by simp
  next
    case (free j)
    have s: "unat slot = j" using free(1,2) by (simp add: unat_of_nat)
    then have ne: "slot \<noteq> INPUTFS_NO_STATE_SLOT" using free(1) by auto
    have least: "(LEAST j. j \<notin> used_slots g) = j"
      using free(3,4) by (intro Least_equality) (auto simp: not_less [symmetric])
    define g2 where "g2 = inputfs_state_seqlock_begin g"
    define g3 where "g3 = inputfs_state_put_device slot dev (sc_roles sc) (g2\<lparr>state_slot_used := state_slot_used g1\<rparr>)"
    note b = seqlock_begin_ok [OF ok g2_def]
    have o: "same_outside j (state_buf g2) (state_buf g3)" "slot_published (state_buf g3) j"
      using put_device_buf [of slot "g2\<lparr>state_slot_used := state_slot_used g1\<rparr>" _ dev "sc_roles sc"] s free(1) b(1)
      by (simp_all add: g3_def)
    have sz: "state_sized g3" using o(1) b(1) by (simp add: same_outside_def)
    have od: "odd (get32 (state_buf g3) OFF_SEQLOCK)"
      using same_outside_header(2) [OF o(1), of 8] b(1,2) by simp
    have u3: "used_slots g3 = insert j (used_slots g)"
      using used_slots_set_bit [OF free(1), of g]
      by (simp add: g3_def inputfs_state_put_device_def Let_def used_slots_def free(5))
    have sl: "if i \<in> used_slots g3 then slot_published (state_buf g3) i else slot_empty (state_buf g3) i"
      if "i < 32" for i
      using that o(2) same_outside_slots [OF o(1) _ that b(1)] b(4,5) [OF that] inventory_okD(5,6) [OF ok that]
      by (cases "i = j") (auto simp: u3)
    define g4 where "g4 = inputfs_state_seqlock_end (inputfs_state_advance_seq
      (g3\<lparr>state_buf := inputfs_put_u16le (state_buf g3) OFF_DEVICE_COUNT (inputfs_state_count_devices g3)\<rparr>))"
    have ok4: "inventory_ok g4" unfolding g4_def by (rule close_bracket_ok [OF sz od sl])
    have u4: "used_slots g4 = insert j (used_slots g)"
      unfolding u3 [symmetric] by (simp add: g4_def used_slots_def inputfs_state_seqlock_end_def
          inputfs_state_advance_seq_def Let_def)
    have g3: "g3 = inputfs_state_put_device slot dev (sc_roles sc) (inputfs_state_seqlock_begin g1)"
      by (cases g) (simp add: g3_def g2_def free(5) inputfs_state_seqlock_begin_def Let_def)
    have r': "sc' = sc\<lparr>sc_state_slot := slot\<rparr>"
      "g' = inputfs_events_publish 6 1 (ucast slot) 0
        (Some (inputfs_put_u32le (replicate 32 0) 0 (ucast (sc_roles sc)))) 4
        (inputfs_state_mark_dirty (g4\<lparr>state_buf := inputfs_put_u8 (state_buf g4) OFF_VALID 1\<rparr>))"
      using r ne by (simp_all add: attach_slot_def a g4_def g3 Let_def)
    have "inventory_ok g'" unfolding r' inventory_ok_publish inventory_ok_mark_dirty
      by (rule inventory_ok_valid [OF ok4])
    moreover have "used_slots g' = used_slots g4"
      by (simp add: r' used_slots_def inputfs_state_mark_dirty_def)
    ultimately show ?thesis using s least free(1,3) u4 r'(1) by auto
  qed
  then show "inventory_ok g'" "used_slots g = {..<32} \<Longrightarrow> g' = g \<and> sc_state_slot sc' = INPUTFS_NO_STATE_SLOT"
    "used_slots g \<noteq> {..<32} \<Longrightarrow> unat (sc_state_slot sc') = (LEAST j. j \<notin> used_slots g) \<and>
      unat (sc_state_slot sc') < 32 \<and> used_slots g' = insert (unat (sc_state_slot sc')) (used_slots g)"
    by blast+
qed

lemma detach_slot_ok:
  assumes ok: "inventory_ok g" and r: "detach_slot (sc, g) = (sc', g')" and s: "unat (sc_state_slot sc) < 32"
  shows "inventory_ok g'" "used_slots g' = used_slots g - {unat (sc_state_slot sc)}"
    "sc_state_slot sc' = INPUTFS_NO_STATE_SLOT"
proof -
  let ?slot = "sc_state_slot sc"
  define g0 where "g0 = inputfs_events_publish 6 2 (ucast ?slot) 0 None 0 g"
  have ok0: "inventory_ok g0" using ok by (simp add: g0_def inventory_ok_publish)
  define g2 where "g2 = inputfs_state_seqlock_begin g0"
  define g3 where "g3 = inputfs_state_release_slot ?slot (inputfs_state_clear_device ?slot g2)"
  note b = seqlock_begin_ok [OF ok0 g2_def]
  have o: "same_outside (unat ?slot) (state_buf g2) (state_buf g3)" "slot_empty (state_buf g3) (unat ?slot)"
    using clear_device_buf [OF s b(1) refl] s by (simp_all add: g3_def inputfs_state_release_slot_def)
  have sz: "state_sized g3" using o(1) b(1) by (simp add: same_outside_def)
  have od: "odd (get32 (state_buf g3) OFF_SEQLOCK)"
    using same_outside_header(2) [OF o(1), of 8] b(1,2) by simp
  have u3: "used_slots g3 = used_slots g0 - {unat ?slot}"
    using s b(3) by (auto simp: g3_def inputfs_state_release_slot_def inputfs_state_clear_device_def
        used_slots_def bit_simps)
  have sl: "if i \<in> used_slots g3 then slot_published (state_buf g3) i else slot_empty (state_buf g3) i"
    if "i < 32" for i
    using that o(2) same_outside_slots [OF o(1) _ that b(1)] b(4,5) [OF that] inventory_okD(5,6) [OF ok0 that]
    by (cases "i = unat ?slot") (auto simp: u3)
  define g4 where "g4 = inputfs_state_seqlock_end (inputfs_state_advance_seq
    (g3\<lparr>state_buf := inputfs_put_u16le (state_buf g3) OFF_DEVICE_COUNT (inputfs_state_count_devices g3)\<rparr>))"
  have ok4: "inventory_ok g4" unfolding g4_def by (rule close_bracket_ok [OF sz od sl])
  have ne: "?slot \<noteq> INPUTFS_NO_STATE_SLOT" using s by auto
  have r': "sc' = sc\<lparr>sc_state_slot := INPUTFS_NO_STATE_SLOT\<rparr>" "g' = inputfs_state_mark_dirty g4"
    using r ne by (simp_all add: detach_slot_def g4_def g3_def g2_def g0_def Let_def)
  show "inventory_ok g'" using ok4 by (simp add: r' inventory_ok_mark_dirty)
  show "used_slots g' = used_slots g - {unat ?slot}"
    using u3 by (simp add: r' g4_def used_slots_def inputfs_state_mark_dirty_def inputfs_state_seqlock_end_def
        inputfs_state_advance_seq_def Let_def g0_def)
  show "sc_state_slot sc' = INPUTFS_NO_STATE_SLOT" by (simp add: r')
qed

end
