(* ===== verification/Inputfs_Keyboard.thy ===== *)
theory Inputfs_Keyboard
  imports Inputfs_Softc
begin

text \<open>
  Keyboard reports in \<^verbatim>\<open>inputfs.c\<close>: the difference between the previous and the current
  report becomes a sequence of key events, each published to the ring and handed to the
  keyboard bridge. Against it stands the abstract reading: a set of held keys, and the events
  as removals and insertions.
\<close>

section \<open>The diff emitter\<close>

definition inputfs_keyboard_key_in_set :: "byte \<Rightarrow> byte list \<Rightarrow> bool" where
  "inputfs_keyboard_key_in_set usage keys =
    (if usage \<le> 0x03 then True else usage \<in> set (take 6 keys))"

definition inputfs_keyboard_bridge_poke ::
  "byte \<Rightarrow> bool \<Rightarrow> inputfs_globals \<Rightarrow> inputfs_softc \<Rightarrow> inputfs_softc" where
  "inputfs_keyboard_bridge_poke hid_usage down g sc =
    (if \<not> kbd_bridge_enabled g then sc
     else if sc_kbd_bridge sc = None then sc
     else sc\<lparr>sc_kbd_bridge := inputfs_kbd_bridge_intr_cb (sc_kbd_bridge sc) hid_usage down\<rparr>)"

definition key_payload :: "u32 \<Rightarrow> byte \<Rightarrow> u32 \<Rightarrow> buf" where
  "key_payload usage modifiers kbd_session =
    (let payload = replicate 32 0;
         payload = inputfs_put_u32le payload 0 usage;
         payload = inputfs_put_u32le payload 4 0xFFFFFFFF;
         payload = inputfs_put_u32le payload 8 (ucast modifiers)
     in inputfs_put_u32le payload 12 kbd_session)"

text \<open>One publish-and-poke, the body of the four loops.\<close>

definition emit_key :: "u16 \<Rightarrow> byte \<Rightarrow> u32 \<Rightarrow> byte \<times> bool
    \<Rightarrow> inputfs_softc \<times> inputfs_globals \<Rightarrow> inputfs_softc \<times> inputfs_globals" where
  "emit_key dev_slot modifiers kbd_session = (\<lambda>(usage, down) (sc, g).
    let g = inputfs_events_publish INPUTFS_SOURCE_KEYBOARD
          (if down then INPUTFS_KEYBOARD_KEY_DOWN else INPUTFS_KEYBOARD_KEY_UP)
          dev_slot 0 (Some (key_payload (ucast usage) modifiers kbd_session)) 16 g
    in (inputfs_keyboard_bridge_poke usage down g sc, g))"

definition inputfs_keyboard_diff_emit ::
  "byte \<Rightarrow> byte list \<Rightarrow> inputfs_softc \<times> inputfs_globals \<Rightarrow> inputfs_softc \<times> inputfs_globals" where
  "inputfs_keyboard_diff_emit modifiers keys st =
    (let (sc, g) = st;
         prev_mods = prev_modifiers (sc_parser sc);
         prev = prev_keys (sc_parser sc);
         mod_changed = prev_mods XOR modifiers;
         dev_slot = event_dev_slot sc;
         kbd_session = inputfs_focus_keyboard_session g;
         emit = emit_key dev_slot modifiers kbd_session;
         st = fold (\<lambda>b st.
             if mod_changed AND push_bit b 1 = 0 then st
             else if prev_mods AND push_bit b 1 = 0 then st
             else emit (0xE0 + of_nat b, False) st) [0..<8] st;
         st = fold (\<lambda>i st.
             if prev ! i = 0 then st
             else if prev ! i \<le> 0x03 then st
             else if inputfs_keyboard_key_in_set (prev ! i) keys then st
             else emit (prev ! i, False) st) [0..<6] st;
         st = fold (\<lambda>b st.
             if mod_changed AND push_bit b 1 = 0 then st
             else if modifiers AND push_bit b 1 = 0 then st
             else emit (0xE0 + of_nat b, True) st) [0..<8] st;
         st = fold (\<lambda>i st.
             if keys ! i = 0 then st
             else if keys ! i \<le> 0x03 then st
             else if inputfs_keyboard_key_in_set (keys ! i) prev then st
             else emit (keys ! i, True) st) [0..<6] st;
         (sc, g) = st
     in (sc\<lparr>sc_parser := (sc_parser sc)\<lparr>prev_modifiers := modifiers, prev_keys := keys\<rparr>\<rparr>, g))"

section \<open>Held keys\<close>

definition mod_usages :: "byte \<Rightarrow> byte set" where
  "mod_usages m = {0xE0 + of_nat b | b. b < 8 \<and> bit m b}"

definition held :: "byte \<Rightarrow> byte list \<Rightarrow> byte set" where
  "held m keys = mod_usages m \<union> {k \<in> set keys. 0x03 < k}"

definition replay :: "(byte \<times> bool) list \<Rightarrow> byte set \<Rightarrow> byte set" where
  "replay = fold (\<lambda>(u, down) S. if down then insert u S else S - {u})"

text \<open>The key events of a report, in order: all releases, then all presses.\<close>

definition released :: "byte \<Rightarrow> byte list \<Rightarrow> byte \<Rightarrow> byte list \<Rightarrow> byte list" where
  "released pm pk m ks =
    map (\<lambda>b. 0xE0 + of_nat b) (filter (\<lambda>b. bit pm b \<and> \<not> bit m b) [0..<8]) @
    filter (\<lambda>k. 0x03 < k \<and> k \<notin> set ks) pk"

definition pressed :: "byte \<Rightarrow> byte list \<Rightarrow> byte \<Rightarrow> byte list \<Rightarrow> byte list" where
  "pressed pm pk m ks = released m ks pm pk"

definition diff_events :: "byte \<Rightarrow> byte list \<Rightarrow> byte \<Rightarrow> byte list \<Rightarrow> (byte \<times> bool) list" where
  "diff_events pm pk m ks =
    map (\<lambda>u. (u, False)) (released pm pk m ks) @ map (\<lambda>u. (u, True)) (pressed pm pk m ks)"

lemma fold_skip: "fold (\<lambda>x st. if P x then f x st else st) xs st = fold f (filter P xs) st"
  by (induction xs arbitrary: st) auto

lemma fold_cong_on:
  "(\<And>x st. x \<in> set xs \<Longrightarrow> f x st = g x st) \<Longrightarrow> fold f xs st = fold g xs st"
  by (induction xs arbitrary: st) auto

lemma byte_bit: "(w :: byte) AND push_bit b 1 = 0 \<longleftrightarrow> \<not> bit w b"
  by (simp add: bit_iff_and_push_bit_not_eq_0)

lemma filter_nth: "map ((!) xs) (filter (\<lambda>i. P (xs ! i)) [0..<length xs]) = filter P xs"
proof -
  have "filter P xs = filter P (map ((!) xs) [0..<length xs])" by (simp only: map_nth)
  then show ?thesis by (simp add: filter_map comp_def)
qed

lemma mod_loop:
  "fold (\<lambda>b st. if (pm XOR m) AND push_bit b 1 = 0 then st
       else if pm AND push_bit b 1 = 0 then st else emit (0xE0 + of_nat b, d) st) [0..<8] st
   = fold emit (map (\<lambda>b. (0xE0 + of_nat b, d)) (filter (\<lambda>b. bit pm b \<and> \<not> bit (m :: byte) b) [0..<8])) st"
proof -
  have "fold (\<lambda>b st. if (pm XOR m) AND push_bit b 1 = 0 then st
       else if pm AND push_bit b 1 = 0 then st else emit (0xE0 + of_nat b, d) st) [0..<8] st
     = fold (\<lambda>b st. if bit pm b \<and> \<not> bit m b then emit (0xE0 + of_nat b, d) st else st) [0..<8] st"
    unfolding byte_bit by (intro fold_cong_on) (auto simp: bit_xor_iff)
  then show ?thesis by (simp only: fold_skip fold_map comp_def)
qed

lemma key_loop:
  assumes "length pk = 6" "length ks = 6"
  shows "fold (\<lambda>i st. if pk ! i = 0 then st else if pk ! i \<le> 0x03 then st
       else if inputfs_keyboard_key_in_set (pk ! i) ks then st else emit (pk ! i, d) st) [0..<6] st
   = fold emit (map (\<lambda>k. (k, d)) (filter (\<lambda>k. 0x03 < k \<and> k \<notin> set ks) pk)) st"
proof -
  let ?P = "\<lambda>k. 0x03 < k \<and> k \<notin> set ks"
  have "fold (\<lambda>i st. if pk ! i = 0 then st else if pk ! i \<le> 0x03 then st
       else if inputfs_keyboard_key_in_set (pk ! i) ks then st else emit (pk ! i, d) st) [0..<6] st
     = fold (\<lambda>i st. if ?P (pk ! i) then emit (pk ! i, d) st else st) [0..<6] st"
    using assms(2) by (intro fold_cong_on) (auto simp: inputfs_keyboard_key_in_set_def not_le)
  also have "\<dots> = fold (\<lambda>k. emit (k, d)) (map ((!) pk) (filter (\<lambda>i. ?P (pk ! i)) [0..<6])) st"
    by (simp only: fold_skip fold_map comp_def)
  also have "map ((!) pk) (filter (\<lambda>i. ?P (pk ! i)) [0..<6]) = filter ?P pk"
    using filter_nth [of pk ?P] assms(1) by simp
  finally show ?thesis by (simp only: fold_map comp_def)
qed

text \<open>The four loops are one pass over the difference.\<close>

lemma diff_emit_events:
  assumes "length (prev_keys (sc_parser sc)) = 6" "length keys = 6"
  shows "inputfs_keyboard_diff_emit modifiers keys (sc, g) =
    (let (sc', g') = fold (emit_key (event_dev_slot sc) modifiers (inputfs_focus_keyboard_session g))
           (diff_events (prev_modifiers (sc_parser sc)) (prev_keys (sc_parser sc)) modifiers keys) (sc, g)
     in (sc'\<lparr>sc_parser := (sc_parser sc')\<lparr>prev_modifiers := modifiers, prev_keys := keys\<rparr>\<rparr>, g'))"
proof -
  note down = mod_loop [of modifiers "prev_modifiers (sc_parser sc)", unfolded xor.commute [of modifiers]]
  show ?thesis
    unfolding inputfs_keyboard_diff_emit_def Let_def prod.case mod_loop key_loop [OF assms]
      key_loop [OF assms(2,1)] down
    by (simp only: diff_events_def released_def pressed_def fold_append map_append map_map comp_def
        append_assoc)
qed

text \<open>The ring and the bridge both see exactly these events.\<close>

definition key_args :: "u16 \<Rightarrow> byte \<Rightarrow> u32 \<Rightarrow> byte \<times> bool \<Rightarrow> publish_args" where
  "key_args dev_slot modifiers session = (\<lambda>(usage, down).
    (INPUTFS_SOURCE_KEYBOARD, if down then INPUTFS_KEYBOARD_KEY_DOWN else INPUTFS_KEYBOARD_KEY_UP,
     dev_slot, 0, Some (key_payload (ucast usage) modifiers session), 16))"

definition bridge_fed :: "bool \<Rightarrow> (byte \<times> bool) list \<Rightarrow> inputfs_softc \<Rightarrow> inputfs_softc" where
  "bridge_fed enabled evs sc =
    (if enabled then sc\<lparr>sc_kbd_bridge := map_option (emit_all evs) (sc_kbd_bridge sc)\<rparr> else sc)"

lemma kbd_bridge_enabled_publish_args [simp]: "kbd_bridge_enabled (publish_args a g) = kbd_bridge_enabled g"
  by (cases a) (simp add: publish_args_def)

lemma emit_key_eq:
  "emit_key ds m s e (sc, g) = (bridge_fed (kbd_bridge_enabled g) [e] sc, publish_args (key_args ds m s e) g)"
  by (cases e) (simp add: emit_key_def Let_def publish_args_def key_args_def bridge_fed_def emit_all_def
      inputfs_keyboard_bridge_poke_def inputfs_kbd_bridge_intr_cb_def split: option.splits)

lemma bridge_fed_append: "bridge_fed en ys (bridge_fed en xs sc) = bridge_fed en (xs @ ys) sc"
  by (cases "sc_kbd_bridge sc") (auto simp: bridge_fed_def emit_all_def)

lemma emit_key_fold:
  "fold (emit_key ds m s) evs (sc, g)
    = (bridge_fed (kbd_bridge_enabled g) evs sc, fold publish_args (map (key_args ds m s) evs) g)"
proof (induction evs arbitrary: sc g)
  case Nil
  then show ?case by (cases "sc_kbd_bridge sc") (auto simp: bridge_fed_def emit_all_def id_def)
next
  case (Cons e evs)
  then show ?case by (simp add: emit_key_eq bridge_fed_append)
qed

lemma bridge_fed_parser [simp]: "sc_parser (bridge_fed en evs sc) = sc_parser sc"
  by (simp add: bridge_fed_def)

section \<open>Replaying the events\<close>

lemma replay_downs: "replay (map (\<lambda>u. (u, True)) us) S = S \<union> set us"
  by (induction us arbitrary: S) (auto simp: replay_def)

lemma replay_ups: "replay (map (\<lambda>u. (u, False)) us) S = S - set us"
  by (induction us arbitrary: S) (auto simp: replay_def)

lemma replay_append: "replay (xs @ ys) S = replay ys (replay xs S)"
  by (simp add: replay_def)

lemma mod_usage_inj: "b < 8 \<Longrightarrow> c < 8 \<Longrightarrow> (0xE0 + of_nat b :: byte) = 0xE0 + of_nat c \<Longrightarrow> b = c"
proof -
  assume b: "b < 8" "c < 8" "(0xE0 + of_nat b :: byte) = 0xE0 + of_nat c"
  then have "unat (of_nat b :: byte) = unat (of_nat c :: byte)" by simp
  then show "b = c" using b(1,2) unat_of_nat_small [where ?'n = 8] by simp
qed

text \<open>Usages in the key array that are not modifier usages.\<close>

definition plain_keys :: "byte list \<Rightarrow> bool" where
  "plain_keys ks \<longleftrightarrow> (\<forall>k \<in> set ks. k < 0xE0 \<or> 0xE7 < k)"

lemma mod_usage_range: "u \<in> mod_usages m \<Longrightarrow> \<not> (u < 0xE0 \<or> 0xE7 < u)"
proof -
  assume "u \<in> mod_usages m"
  then obtain b where b: "u = 0xE0 + of_nat b" "b < 8" by (auto simp: mod_usages_def)
  have "unat u = 0xE0 + b"
    unfolding b(1) using b(2) unat_of_nat_small [of b, where ?'n = 8]
    by (subst unat_add_no_wrap) simp_all
  then show ?thesis using b(2) by (simp add: word_less_nat_alt)
qed

lemma set_released:
  "set (released pm pk m ks) = (mod_usages pm - mod_usages m) \<union> {k \<in> set pk. 0x03 < k \<and> k \<notin> set ks}"
  unfolding released_def mod_usages_def using mod_usage_inj by (auto simp: image_def) blast+

lemma replay_diff:
  assumes "plain_keys pk" "plain_keys ks"
  shows "replay (diff_events pm pk m ks) (held pm pk) = held m ks"
proof -
  have d: "\<And>k. k \<in> set pk \<Longrightarrow> k \<notin> mod_usages x" "\<And>k. k \<in> set ks \<Longrightarrow> k \<notin> mod_usages x" for x
    using assms mod_usage_range unfolding plain_keys_def by blast+
  show ?thesis
    unfolding diff_events_def replay_append replay_ups replay_downs pressed_def set_released held_def
    using d by blast
qed

text \<open>Each event changes the set: a release of a held key, a press of one that is not.\<close>

lemma diff_genuine:
  assumes "plain_keys pk" "plain_keys ks"
  shows "set (released pm pk m ks) = held pm pk - held m ks" "set (pressed pm pk m ks) = held m ks - held pm pk"
proof -
  have d: "\<And>k. k \<in> set pk \<Longrightarrow> k \<notin> mod_usages x" "\<And>k. k \<in> set ks \<Longrightarrow> k \<notin> mod_usages x" for x
    using assms mod_usage_range unfolding plain_keys_def by blast+
  show "set (released pm pk m ks) = held pm pk - held m ks" "set (pressed pm pk m ks) = held m ks - held pm pk"
    unfolding pressed_def set_released held_def using d by blast+
qed

text \<open>A report full of rollover codes releases every held key of the array.\<close>

lemma rollover_releases:
  assumes "\<forall>k \<in> set pk. 0x03 < k"
  shows "released m pk m (replicate 6 0x01) = pk"
proof -
  have "filter (\<lambda>k. 0x03 < k \<and> k \<noteq> 0x01) pk = pk" using assms by (intro filter_True) auto
  moreover have "set (replicate 6 (0x01 :: byte)) = {0x01}" by simp
  ultimately show ?thesis by (simp add: released_def)
qed

end
