(* ===== verification/Inputfs_Driver.thy ===== *)
theory Inputfs_Driver
  imports Inputfs_Inventory Inputfs_Keyboard
begin

text \<open>
  The driver of \<^verbatim>\<open>inputfs.c\<close> as a whole: the interrupt handler, attach, detach and module
  load, a step relation over any number of devices, and the invariant that holds in every
  state they reach.
\<close>

section \<open>The interrupt handler\<close>

definition intr_keyboard :: "buf \<Rightarrow> inputfs_softc \<times> inputfs_globals \<Rightarrow> inputfs_softc \<times> inputfs_globals" where
  "intr_keyboard report st =
    (let (sc, g) = st
     in if sc_roles sc AND INPUTFS_ROLE_KEYBOARD \<noteq> 0 \<and> keyboard_locations_valid (sc_parser sc) \<and> 0 < length report
        then
          let (extracted, modifiers, keys) = inputfs_extract_keyboard (sc_parser sc) report 0 (replicate 6 0)
          in if extracted then inputfs_keyboard_diff_emit modifiers keys (sc, g) else (sc, g)
        else (sc, g))"

definition intr_touch :: "buf \<Rightarrow> inputfs_softc \<times> inputfs_globals \<Rightarrow> inputfs_softc \<times> inputfs_globals" where
  "intr_touch report st =
    (let (sc, g) = st
     in if sc_roles sc AND INPUTFS_ROLE_TOUCH \<noteq> 0 \<and> digitizer_locations_valid (sc_parser sc) \<and> 0 < length report
        then inputfs_digitizer_dispatch report (event_dev_slot sc) (sc, g)
        else (sc, g))"

definition inputfs_intr :: "buf \<Rightarrow> inputfs_softc \<times> inputfs_globals \<Rightarrow> inputfs_softc \<times> inputfs_globals" where
  "inputfs_intr data st =
    (let (sc, g) = st
     in case sc_ibuf sc of
          None \<Rightarrow> (sc, g)
        | Some ibuf \<Rightarrow>
            if length ibuf = 0 then (sc, g)
            else
              let (copy_len, sc) =
                    (if length ibuf < length data then (length ibuf, sc\<lparr>sc_logged_truncated := True\<rparr>)
                     else (length data, sc\<lparr>sc_logged_truncated := False\<rparr>));
                  ibuf = blit ibuf 0 (take copy_len data);
                  sc = sc\<lparr>sc_ibuf := Some ibuf\<rparr>;
                  report = take copy_len ibuf;
                  g = intr_pointer report sc g;
                  (sc, g) = intr_keyboard report (sc, g)
              in intr_touch report (sc, g))"

section \<open>Attach, detach and module load\<close>

text \<open>
  What the HID framework answers while a device attaches: the matched usage, the report
  descriptor with its output and feature walks (\<open>None\<close> when it could not be fetched), the
  maximal input report size, the result of registering the keyboard and the device's identity.
\<close>

record attach_env =
  env_usage :: u32
  env_rdesc :: "(hid_desc \<times> hid_item list option \<times> hid_item list option) option"
  env_report_size_max :: int
  env_kbd_register :: int
  env_dev :: device

text \<open>The part of attach with a descriptor: the three locators, the keyboard bridge and the
  report buffer.\<close>

definition attach_rdesc :: "attach_env \<Rightarrow> hid_desc \<Rightarrow> hid_item list option \<Rightarrow> hid_item list option
    \<Rightarrow> inputfs_softc \<Rightarrow> inputfs_softc" where
  "attach_rdesc env d outputs features sc =
    (let sc = inputfs_walk_rdesc (hd_items d) outputs features sc;
         sc = sc\<lparr>sc_parser := inputfs_pointer_locate (Some d) (sc_parser sc)\<rparr>;
         sc = sc\<lparr>sc_parser := inputfs_keyboard_locate (Some d) (sc_parser sc)\<rparr>;
         sc = (if keyboard_locations_valid (sc_parser sc)
               then sc\<lparr>sc_kbd_bridge := inputfs_kbd_bridge_attach (env_kbd_register env)\<rparr> else sc);
         sc = sc\<lparr>sc_parser := inputfs_digitizer_locate (Some d) (sc_parser sc)\<rparr>
     in if env_report_size_max env \<le> 0 then sc
        else sc\<lparr>sc_ibuf := Some (replicate (nat (env_report_size_max env)) 0)\<rparr>)"

definition inputfs_attach ::
  "attach_env \<Rightarrow> inputfs_softc \<times> inputfs_globals \<Rightarrow> inputfs_softc \<times> inputfs_globals" where
  "inputfs_attach env st =
    (let (sc, g) = st;
         sc = sc\<lparr>sc_state_slot := INPUTFS_NO_STATE_SLOT, sc_logged_truncated := False,
                  sc_primary_cid := INPUTFS_NO_PRIMARY\<rparr>;
         sc = (case env_rdesc env of
                 None \<Rightarrow> sc
               | Some (d, outputs, features) \<Rightarrow> attach_rdesc env d outputs features sc);
         sc = inputfs_classify_roles (env_usage env)
           (case env_rdesc env of None \<Rightarrow> None | Some (d, _) \<Rightarrow> hd_items d) sc
     in attach_slot (env_dev env) (sc, g))"

definition inputfs_detach :: "inputfs_softc \<times> inputfs_globals \<Rightarrow> inputfs_softc \<times> inputfs_globals" where
  "inputfs_detach st =
    (let (sc, g) = st;
         (sc, g) = detach_slot (sc\<lparr>sc_kbd_bridge := None\<rparr>, g)
     in (sc\<lparr>sc_ibuf := None\<rparr>, g))"

text \<open>The static variables before the module is loaded, with the clock as a parameter; the
  buffers are null pointers then.\<close>

definition bss_globals :: "(nat \<Rightarrow> u64 \<times> u64) \<Rightarrow> inputfs_globals" where
  "bss_globals clock =
    \<lparr>state_buf = [], state_seq = 0, state_slot_used = 0, state_dirty = False, state_file = None,
     events_buf = [], events_writer_seq = 0, events_synced = 0, events_dirty = False, events_file = None,
     focus_buf = [], focus_open = False, focus_cache_valid = False,
     clock_buf = [], clock_open = False, clock_cache_valid = False,
     smoothing_buf = [], smoothing_open = False, smoothing_cache_valid = False,
     geom_width = 0, geom_height = 0, geom_stride = 0, geom_bpp = 0, geom_known = False,
     pointer_session_prev = 0, kbd_bridge_enabled = True, wakeups = 0, notifies = 0,
     uptime = clock, uptime_reads = 0\<rparr>"

text \<open>The buffers and variables \<^verbatim>\<open>MOD_LOAD\<close> sets and the display geometry it reads, before it starts the worker; then, when the
  worker starts, the valid byte of the event ring; \<open>Inl\<close> with the error when it does not.\<close>

definition mod_init :: "u32 option \<Rightarrow> u32 option \<Rightarrow> u32 option \<Rightarrow> u32 option \<Rightarrow> inputfs_globals \<Rightarrow> inputfs_globals" where
  "mod_init width height stride bpp g =
    (let g = g\<lparr>state_buf := inputfs_state_init_buf (replicate INPUTFS_STATE_SIZE 0),
               state_seq := 0, state_slot_used := 0, state_dirty := False,
               events_buf := inputfs_events_init_buf (replicate INPUTFS_EVENTS_SIZE 0),
               events_writer_seq := 0, events_synced := 0, events_dirty := False,
               focus_buf := replicate INPUTFS_FOCUS_SIZE 0, focus_open := False, focus_cache_valid := False,
               clock_buf := replicate INPUTFS_CLOCK_SIZE 0, clock_open := False, clock_cache_valid := False,
               smoothing_buf := replicate INPUTFS_SMOOTHING_SIZE 0, smoothing_open := False,
               smoothing_cache_valid := False, pointer_session_prev := 0\<rparr>;
         g = inputfs_geom_read width height stride bpp g
     in inputfs_state_apply_geom g)"

definition mod_valid :: "inputfs_globals \<Rightarrow> inputfs_globals" where
  "mod_valid g = g\<lparr>events_buf := inputfs_put_u8 (events_buf g) EV_OFF_VALID 1\<rparr>"

definition mod_load ::
  "u32 option \<Rightarrow> u32 option \<Rightarrow> u32 option \<Rightarrow> u32 option \<Rightarrow> errno \<Rightarrow> inputfs_globals \<Rightarrow> errno + inputfs_globals" where
  "mod_load width height stride bpp kproc_error g =
    (let g = mod_init width height stride bpp g
     in if kproc_error \<noteq> 0 then Inl kproc_error else Inr (mod_valid g))"

section \<open>What a handler may do to the regions\<close>

text \<open>
  From a state that satisfies the inventory invariant, the handler leads to one that does,
  with the same slots in use, and appends at most \<open>k\<close> events to the log of the ring.
\<close>

definition appends :: "nat \<Rightarrow> inputfs_globals \<Rightarrow> inputfs_globals \<Rightarrow> bool" where
  "appends k g g' \<longleftrightarrow> (\<forall>h. events_ok g h \<and> length h + k < 2 ^ 64 \<longrightarrow>
     (\<exists>h'. length h' \<le> k \<and> events_ok g' (h @ h')))"

definition keeps :: "nat \<Rightarrow> inputfs_globals \<Rightarrow> inputfs_globals \<Rightarrow> bool" where
  "keeps k g g' \<longleftrightarrow>
     (inventory_ok g \<longrightarrow> inventory_ok g' \<and> used_slots g' = used_slots g \<and> appends k g g')"

lemma events_ok_cong:
  "events_buf g' = events_buf g \<Longrightarrow> events_writer_seq g' = events_writer_seq g \<Longrightarrow>
   events_ok g' h = events_ok g h"
  by (simp add: events_ok_def ring_of_def)

lemma appends_same:
  "events_buf g' = events_buf g \<Longrightarrow> events_writer_seq g' = events_writer_seq g \<Longrightarrow> appends 0 g g'"
  by (auto simp: appends_def events_ok_cong [of g' g] intro!: exI [of _ "[]"])

lemma appends_publish: "appends 1 g (inputfs_events_publish sr et d f p n g)"
proof (unfold appends_def, intro allI impI)
  fix h assume "events_ok g h \<and> length h + 1 < 2 ^ 64"
  then have "events_ok (inputfs_events_publish sr et d f p n g) (h @ [published_event sr et d f p n g])"
    by (intro events_ok_publish) simp_all
  then show "\<exists>h'. length h' \<le> 1 \<and> events_ok (inputfs_events_publish sr et d f p n g) (h @ h')"
    by (intro exI [of _ "[published_event sr et d f p n g]"]) simp
qed

lemma appends_trans:
  assumes "appends a g g1" "appends b g1 g2" shows "appends (a + b) g g2"
  unfolding appends_def
proof (intro allI impI)
  fix h assume h: "events_ok g h \<and> length h + (a + b) < 2 ^ 64"
  then obtain h1 where h1: "length h1 \<le> a" "events_ok g1 (h @ h1)" using assms(1) by (auto simp: appends_def)
  then obtain h2 where "length h2 \<le> b" "events_ok g2 ((h @ h1) @ h2)"
    using assms(2) h unfolding appends_def by fastforce
  with h1 show "\<exists>h'. length h' \<le> a + b \<and> events_ok g2 (h @ h')" by (intro exI [of _ "h1 @ h2"]) simp
qed

lemma appends_mono: "appends a g g' \<Longrightarrow> a \<le> b \<Longrightarrow> appends b g g'"
  unfolding appends_def by (meson add_le_cancel_left le_less_trans le_trans)

lemma keeps_trans: "keeps a g g1 \<Longrightarrow> keeps b g1 g2 \<Longrightarrow> keeps (a + b) g g2"
  by (auto simp: keeps_def intro: appends_trans)

lemma keeps_mono: "keeps a g g' \<Longrightarrow> a \<le> b \<Longrightarrow> keeps b g g'"
  by (auto simp: keeps_def intro: appends_mono)

lemma keeps_same: "same_live g g' \<Longrightarrow> keeps 0 g g'"
  using inventory_ok_state [of g g']
  by (auto simp: keeps_def same_live_def used_slots_def intro: appends_same)

lemma keeps_refl: "keeps 0 g g" by (rule keeps_same) (simp add: same_live_def)

lemma keeps_session: "keeps 0 g (g\<lparr>pointer_session_prev := s\<rparr>)"
  by (rule keeps_same) (simp add: same_live_def)

lemma keeps_publish: "keeps 1 g (inputfs_events_publish sr et d f p n g)"
  by (simp add: keeps_def inventory_ok_publish appends_publish [simplified] used_slots_def)

lemma keeps_publish_args: "keeps 1 g (publish_args a g)"
  by (cases a) (simp add: publish_args_def keeps_publish [simplified])

lemma keeps_fold: "keeps (length as) g (fold publish_args as g)"
proof (induction as arbitrary: g)
  case Nil
  then show ?case using keeps_refl by simp
next
  case (Cons a as)
  show ?case using keeps_trans [OF keeps_publish_args [of g a] Cons] by simp
qed

lemma keeps_pointer_update: "keeps 0 g (snd (pointer_update dx dy b g))"
proof (unfold keeps_def, intro impI conjI)
  let ?g = "snd (pointer_update dx dy b g)"
  assume ok: "inventory_ok g"
  note sz = inventory_okD(1) [OF ok]
  note f = pointer_update_fields [OF sz refl, of dx dy b]
  have r: "get16 (state_buf ?g) 44 = get16 (state_buf g) 44"
    "j < 32 \<Longrightarrow> slot_published (state_buf ?g) j = slot_published (state_buf g) j"
    "j < 32 \<Longrightarrow> slot_empty (state_buf ?g) j = slot_empty (state_buf g) j" for j
    unfolding pointer_update_buf [OF sz] using sz
    by (simp_all add: get_blit_other slots_header_blit)
  show u: "used_slots ?g = used_slots g" by (simp add: used_slots_def)
  show "inventory_ok ?g"
    using ok f(1,5,6) r unfolding inventory_ok_def u by simp
  show "appends 0 g ?g" by (rule appends_same) simp_all
qed

text \<open>The three handlers.\<close>

lemma length_crossing_args: "length (crossing_args ds x y p c) \<le> 2" by (simp add: crossing_args_def)

lemma length_pointer_events: "length (pointer_events sc out pos delta ps s pb) \<le> 36"
proof -
  have "length (filter (bit (pb XOR pr_buttons out)) [0..<32]) \<le> 32"
    using length_filter_le [of _ "[0..<32]"] by simp
  then show ?thesis
    using length_crossing_args [of "event_dev_slot sc" "fst pos" "snd pos" ps s]
    by (auto simp: pointer_events_def Let_def split_beta)
qed

lemma keeps_pointer_extracted: "keeps 36 g (pointer_extracted sc out g)"
proof (cases "inventory_ok g")
  case True
  then have sz: "state_sized g" by (rule inventory_okD(1))
  define g1 where "g1 = snd (pointer_update (pr_dx out) (pr_dy out) (pr_buttons out) g)"
  define s where "s = inputfs_focus_resolve_pointer (ptr_x g1) (ptr_y g1) g1"
  define as where "as = pointer_events sc out (ptr_x g1, ptr_y g1)
    (fst (pointer_update (pr_dx out) (pr_dy out) (pr_buttons out) g)) (pointer_session_prev g) s (ptr_buttons g)"
  have "keeps (0 + 0 + length as) g (fold publish_args as (g1\<lparr>pointer_session_prev := s\<rparr>))"
    unfolding g1_def
    by (rule keeps_trans [OF keeps_trans [OF keeps_pointer_update keeps_session] keeps_fold])
  then have "keeps 36 g (fold publish_args as (g1\<lparr>pointer_session_prev := s\<rparr>))"
    by (rule keeps_mono) (simp add: as_def length_pointer_events)
  then show ?thesis
    unfolding pointer_extracted_events [OF sz g1_def s_def] as_def .
qed (simp add: keeps_def)

lemma keeps_intr_pointer: "keeps 36 g (intr_pointer report sc g)"
  using keeps_mono [OF keeps_refl, of 36 g] keeps_pointer_extracted
  by (auto simp: intr_pointer_def split: prod.split)

definition softc_ok :: "inputfs_softc \<Rightarrow> bool" where
  "softc_ok sc \<longleftrightarrow> touch_ok sc \<and> length (prev_keys (sc_parser sc)) = 6"

lemma length_diff_events:
  assumes "length pk = 6" "length ks = 6" shows "length (diff_events pm pk m ks) \<le> 28"
proof -
  have "length (filter P [0..<8]) \<le> 8" "length (filter Q pk) \<le> 6" "length (filter Q ks) \<le> 6" for P Q
    using length_filter_le [of P "[0..<8]"] length_filter_le [of Q pk] length_filter_le [of Q ks] assms by simp_all
  then have "length (released pm pk m ks) \<le> 8 + 6" "length (pressed pm pk m ks) \<le> 8 + 6"
    unfolding released_def pressed_def length_append length_map by (intro add_mono; blast)+
  then show ?thesis by (simp add: diff_events_def)
qed

lemma touch_ok_updates [simp]:
  "touch_ok (sc\<lparr>sc_parser := p\<rparr>) = touch_ok sc"
  "touch_ok (sc\<lparr>sc_ibuf := b\<rparr>) = touch_ok sc"
  "touch_ok (sc\<lparr>sc_logged_truncated := t\<rparr>) = touch_ok sc"
  "touch_ok (sc\<lparr>sc_state_slot := sl\<rparr>) = touch_ok sc"
  "touch_ok (sc\<lparr>sc_kbd_bridge := k\<rparr>) = touch_ok sc"
  "touch_ok (sc\<lparr>sc_roles := r\<rparr>) = touch_ok sc"
  by (simp_all add: touch_ok_def active_set_def)

lemma bridge_fed_touch [simp]:
  "touch_ok (bridge_fed en evs sc) = touch_ok sc"
  "sc_state_slot (bridge_fed en evs sc) = sc_state_slot sc"
  by (simp_all add: bridge_fed_def touch_ok_def active_set_def)

lemma intr_keyboard_ok:
  assumes "softc_ok sc" and r: "intr_keyboard report (sc, g) = (sc', g')"
  shows "softc_ok sc'" "sc_state_slot sc' = sc_state_slot sc" "keeps 28 g g'"
proof -
  obtain ex m ks where e: "inputfs_extract_keyboard (sc_parser sc) report 0 (replicate 6 0) = (ex, m, ks)"
    using prod_cases3 by blast
  have l: "length ks = 6" "length (prev_keys (sc_parser sc)) = 6"
    using e assms(1) by (auto simp: inputfs_extract_keyboard_def softc_ok_def Let_def split: if_splits)
  define evs where "evs = diff_events (prev_modifiers (sc_parser sc)) (prev_keys (sc_parser sc)) m ks"
  define as where "as = map (key_args (event_dev_slot sc) m (inputfs_focus_keyboard_session g)) evs"
  have d: "inputfs_keyboard_diff_emit m ks (sc, g)
      = ((bridge_fed (kbd_bridge_enabled g) evs sc)
           \<lparr>sc_parser := (sc_parser sc)\<lparr>prev_modifiers := m, prev_keys := ks\<rparr>\<rparr>, fold publish_args as g)"
    unfolding diff_emit_events [OF l(2,1)] emit_key_fold evs_def [symmetric] as_def by simp
  consider (none) "sc' = sc" "g' = g"
    | (diff) "sc' = (bridge_fed (kbd_bridge_enabled g) evs sc)
           \<lparr>sc_parser := (sc_parser sc)\<lparr>prev_modifiers := m, prev_keys := ks\<rparr>\<rparr>" "g' = fold publish_args as g"
  proof -
    have "(sc', g') = (sc, g) \<or> (sc', g') = inputfs_keyboard_diff_emit m ks (sc, g)"
      unfolding r [symmetric] intr_keyboard_def Let_def prod.case e by simp
    then show thesis using none diff unfolding d prod.inject by blast
  qed
  then have "softc_ok sc' \<and> sc_state_slot sc' = sc_state_slot sc \<and> keeps 28 g g'"
  proof cases
    case none
    then show ?thesis using assms(1) keeps_mono [OF keeps_refl, of 28] by simp
  next
    case diff
    have "keeps 28 g g'"
      unfolding diff(2) using length_diff_events [OF l(2,1)]
      by (intro keeps_mono [OF keeps_fold]) (simp add: as_def evs_def)
    moreover have "touch_ok sc' = touch_ok sc" by (simp add: diff(1))
    ultimately show ?thesis using assms(1) l by (simp add: diff(1) softc_ok_def)
  qed
  then show "softc_ok sc'" "sc_state_slot sc' = sc_state_slot sc" "keeps 28 g g'" by blast+
qed

lemma keeps_synth_motion: "keeps 3 g (synth_motion ds dx dy g)"
proof -
  obtain adx ady g1 where u: "pointer_update dx dy (inputfs_get_u32le (state_buf g) 40) g = ((adx, ady), g1)"
    using prod.exhaust by metis
  have k1: "keeps 0 g g1" using keeps_pointer_update [of g dx dy "inputfs_get_u32le (state_buf g) 40"] u by simp
  have c: "keeps 2 g1 (publish_crossing ds x y s g1)" for x y s
    unfolding publish_crossing_eq
    by (rule keeps_mono [OF keeps_trans [OF keeps_session keeps_fold]]) (simp add: length_crossing_args)
  have "keeps (0 + 2 + 1) g (synth_motion ds dx dy g)"
    unfolding synth_motion_def Let_def u prod.case by (rule keeps_trans [OF keeps_trans [OF k1 c] keeps_publish])
  then show ?thesis by (simp only: numeral_3_eq_3 numeral_2_eq_2 One_nat_def add_0 add_Suc_right add_0_right)
qed

lemma contact_keeps:
  "keeps 1 g (fst (snd (contact_down ds cid px py s sc g)))"
  "sc_state_slot (fst (contact_down ds cid px py s sc g)) = sc_state_slot sc"
  "sc_parser (fst (contact_down ds cid px py s sc g)) = sc_parser sc"
  "keeps 1 g (snd (contact_up ds cid sc g))"
  "sc_state_slot (fst (contact_up ds cid sc g)) = sc_state_slot sc"
  "sc_parser (fst (contact_up ds cid sc g)) = sc_parser sc"
  "keeps 1 g (snd (clickpad_button ds btn px py s sc g))"
  "sc_state_slot (fst (clickpad_button ds btn px py s sc g)) = sc_state_slot sc"
  "sc_parser (fst (clickpad_button ds btn px py s sc g)) = sc_parser sc"
  using keeps_publish [of g] keeps_mono [OF keeps_refl, of 1 g]
  by (simp_all add: contact_down_def contact_up_def clickpad_button_def Let_def set_contact_def
      split: option.split prod.split)

lemma intr_touch_ok:
  assumes "softc_ok sc" and r: "intr_touch report (sc, g) = (sc', g')"
  shows "softc_ok sc'" "sc_state_slot sc' = sc_state_slot sc" "keeps 5 g g'"
proof -
  let ?out0 = "\<lparr>tr_tip_switch = 0, tr_confidence = 0, tr_contact_id = 0, tr_x = 0, tr_y = 0,
       tr_scan_time = 0, tr_contact_count = 0, tr_button = 0\<rparr>"
  obtain rc out where e: "inputfs_extract_digitizer (sc_parser sc) report ?out0 = (rc, out)" by force
  obtain px py where p: "inputfs_digitizer_to_pixel g sc (tr_x out) (tr_y out) = (px, py)" by force
  define s where "s = inputfs_focus_resolve_pointer px py g"
  define cid where "cid = (if 8 \<le> tr_contact_id out then 7 else tr_contact_id out)"
  obtain sc1 g1 y where m: "(if (if 0 < hl_size (loc_confidence (sc_parser sc)) \<and> tr_confidence out = 0 then 0
        else tr_tip_switch out) \<noteq> 0 then contact_down (event_dev_slot sc) cid px py s sc g
      else case contact_up (event_dev_slot sc) cid sc g of (sc, g) \<Rightarrow> (sc, g, None)) = (sc1, g1, y)"
    using prod_cases3 by blast
  define g2 where "g2 = (case y of None \<Rightarrow> g1 | Some (dx, dy) \<Rightarrow> synth_motion (event_dev_slot sc) dx dy g1)"
  have k1: "keeps 1 g g1" "sc_state_slot sc1 = sc_state_slot sc" "sc_parser sc1 = sc_parser sc"
    using m contact_keeps(1) [of g "event_dev_slot sc" cid px py s sc]
      contact_keeps(2,3) [of "event_dev_slot sc" cid px py s sc g]
      contact_keeps(4) [of g "event_dev_slot sc" cid sc] contact_keeps(5,6) [of "event_dev_slot sc" cid sc g]
    by (auto split: if_splits prod.splits)
  have k2: "keeps 3 g1 g2"
    using keeps_synth_motion keeps_mono [OF keeps_refl, of 3 g1] by (auto simp: g2_def split: option.split)
  have d: "(sc', g') = (sc, g) \<or> (sc', g') = inputfs_digitizer_dispatch report (event_dev_slot sc) (sc, g)"
    unfolding r [symmetric] intr_touch_def Let_def prod.case by simp
  have dd: "inputfs_digitizer_dispatch report (event_dev_slot sc) (sc, g)
      = (if \<not> rc then (sc, g) else clickpad_button (event_dev_slot sc) (tr_button out) px py s sc1 g2)"
    unfolding inputfs_digitizer_dispatch_def Let_def prod.case
    unfolding e prod.case unfolding p prod.case unfolding s_def [symmetric] cid_def [symmetric]
    unfolding m prod.case g2_def by (rule refl)
  let ?c = "clickpad_button (event_dev_slot sc) (tr_button out) px py s sc1 g2"
  have c: "keeps 5 g (snd ?c)" "sc_state_slot (fst ?c) = sc_state_slot sc" "sc_parser (fst ?c) = sc_parser sc"
    using keeps_mono [OF keeps_trans [OF keeps_trans [OF k1(1) k2] contact_keeps(7)], of 5] contact_keeps(8,9) k1
    by simp_all
  have t: "touch_ok sc'"
    using d digitizer_dispatch_ok [of sc report "event_dev_slot sc" g] assms(1)
    by (metis fst_conv softc_ok_def)
  have "sc_parser sc' = sc_parser sc \<and> sc_state_slot sc' = sc_state_slot sc \<and> keeps 5 g g'"
    using d dd c keeps_mono [OF keeps_refl, of 5 g] by (metis fst_conv snd_conv zero_le)
  then show "softc_ok sc'" "sc_state_slot sc' = sc_state_slot sc" "keeps 5 g g'"
    using assms(1) t by (simp_all add: softc_ok_def)
qed

lemma inputfs_intr_ok:
  assumes "softc_ok sc" and r: "inputfs_intr data (sc, g) = (sc', g')"
  shows "softc_ok sc'" "sc_state_slot sc' = sc_state_slot sc" "keeps 69 g g'"
proof -
  have "softc_ok sc' \<and> sc_state_slot sc' = sc_state_slot sc \<and> keeps 69 g g'"
  proof (cases "\<exists>b. sc_ibuf sc = Some b \<and> b \<noteq> []")
    case False
    then have "sc' = sc" "g' = g" using r by (auto simp: inputfs_intr_def split: option.splits if_splits)
    then show ?thesis using assms(1) keeps_mono [OF keeps_refl, of 69] by simp
  next
    case True
    then obtain b where b: "sc_ibuf sc = Some b" "b \<noteq> []" by blast
    define n where "n = (if length b < length data then length b else length data)"
    define b' where "b' = blit b 0 (take n data)"
    define sc0 where "sc0 = sc\<lparr>sc_logged_truncated := (length b < length data), sc_ibuf := Some b'\<rparr>"
    obtain sc1 g1 where k: "intr_keyboard (take n b') (sc0, intr_pointer (take n b') sc0 g) = (sc1, g1)" by force
    have ok0: "softc_ok sc0" using assms(1) by (simp add: softc_ok_def sc0_def)
    have t: "intr_touch (take n b') (sc1, g1) = (sc', g')"
      using r k b by (auto simp: inputfs_intr_def n_def b'_def sc0_def Let_def split: if_splits)
    note kk = intr_keyboard_ok [OF ok0 k] and tt = intr_touch_ok [OF intr_keyboard_ok(1) [OF ok0 k] t]
    have "keeps (36 + 28 + 5) g g'" by (rule keeps_trans [OF keeps_trans [OF keeps_intr_pointer kk(3)] tt(3)])
    then show ?thesis using kk tt by (simp add: sc0_def)
  qed
  then show "softc_ok sc'" "sc_state_slot sc' = sc_state_slot sc" "keeps 69 g g'" by blast+
qed

section \<open>The driver with its devices\<close>

text \<open>The zeroed structure the bus hands to attach.\<close>

definition zero_parser :: inputfs_parser_state where
  "zero_parser =
    \<lparr>pointer_locations_valid = False, loc_x = no_loc, loc_y = no_loc, loc_wheel = no_loc,
     loc_buttons = no_loc, loc_x_id = 0, loc_y_id = 0, loc_wheel_id = 0, loc_buttons_id = 0,
     button_count = 0, has_wheel = False, keyboard_locations_valid = False, loc_modifiers = no_loc,
     loc_keys = no_loc, loc_modifiers_id = 0, loc_keys_id = 0, prev_modifiers = 0,
     prev_keys = replicate 6 0, digitizer_locations_valid = False, digitizer_report_id = 0,
     loc_tip_switch = no_loc, loc_confidence = no_loc, loc_contact_id = no_loc, loc_touch_x = no_loc,
     loc_touch_y = no_loc, loc_scan_time = no_loc, loc_contact_count = no_loc, loc_touch_button = no_loc,
     touch_x_min = 0, touch_x_max = 0, touch_y_min = 0, touch_y_max = 0, device_mode_valid = False,
     device_mode_rid = 0, device_mode_rlen = 0, loc_device_mode = no_loc\<rparr>"

definition zero_softc :: inputfs_softc where
  "zero_softc =
    \<lparr>sc_input_items = 0, sc_output_items = 0, sc_feature_items = 0, sc_collection_depth = 0,
     sc_ibuf = None, sc_roles = 0, sc_state_slot = 0, sc_parser = zero_parser, sc_logged_truncated = False,
     sc_touch_contacts = replicate 8 \<lparr>tc_active = False, tc_last_x = 0, tc_last_y = 0, tc_session_id = 0\<rparr>,
     sc_active_contact_count = 0, sc_primary_cid = 0, sc_primary_last_x = 0, sc_primary_last_y = 0,
     sc_touch_prev_button = 0, sc_kbd_bridge = None\<rparr>"

record driver =
  drv_g :: inputfs_globals
  drv_devs :: "nat \<rightharpoonup> inputfs_softc"

inductive driver_step :: "driver \<Rightarrow> driver \<Rightarrow> bool" where
  dev_attach: "drv_devs d n = None \<Longrightarrow> inputfs_attach env (zero_softc, drv_g d) = (sc, g) \<Longrightarrow>
    driver_step d \<lparr>drv_g = g, drv_devs = (drv_devs d)(n \<mapsto> sc)\<rparr>"
| dev_detach: "drv_devs d n = Some sc \<Longrightarrow> inputfs_detach (sc, drv_g d) = (sc', g) \<Longrightarrow>
    driver_step d \<lparr>drv_g = g, drv_devs = (drv_devs d)(n := None)\<rparr>"
| dev_report: "drv_devs d n = Some sc \<Longrightarrow> inputfs_intr data (sc, drv_g d) = (sc', g) \<Longrightarrow>
    driver_step d \<lparr>drv_g = g, drv_devs = (drv_devs d)(n \<mapsto> sc')\<rparr>"
| worker: "driver_step d \<lparr>drv_g = worker_turn io undisturbed (drv_g d), drv_devs = drv_devs d\<rparr>"

inductive driver_runs :: "nat \<Rightarrow> driver \<Rightarrow> driver \<Rightarrow> bool" where
  run_here: "driver_runs 0 d d"
| run_next: "driver_runs n d d1 \<Longrightarrow> driver_step d1 d2 \<Longrightarrow> driver_runs (Suc n) d d2"

text \<open>
  The slots in use are exactly those of the attached devices, no two devices share one, and
  each device's own state is consistent.
\<close>

definition own_slot :: "inputfs_softc \<Rightarrow> nat option" where
  "own_slot sc = (if sc_state_slot sc \<noteq> INPUTFS_NO_STATE_SLOT then Some (unat (sc_state_slot sc)) else None)"

definition slot_map :: "(nat \<rightharpoonup> inputfs_softc) \<Rightarrow> (nat \<rightharpoonup> nat)" where
  "slot_map devs n = Option.bind (devs n) own_slot"

definition devices_ok :: "nat set \<Rightarrow> (nat \<rightharpoonup> inputfs_softc) \<Rightarrow> bool" where
  "devices_ok used devs \<longleftrightarrow> (\<forall>n sc. devs n = Some sc \<longrightarrow> softc_ok sc) \<and>
     used = ran (slot_map devs) \<and> inj_on (slot_map devs) (dom (slot_map devs))"

definition driver_ok :: "driver \<Rightarrow> bool" where
  "driver_ok d \<longleftrightarrow> inventory_ok (drv_g d) \<and> devices_ok (used_slots (drv_g d)) (drv_devs d)"

lemma slot_map_upd: "slot_map (devs(n := x)) = (slot_map devs)(n := Option.bind x own_slot)"
  by (auto simp: slot_map_def)

lemma inj_on_map_upd:
  assumes "inj_on m (dom m)" "m n = None" "i \<notin> ran m"
  shows "inj_on (m(n \<mapsto> i)) (dom (m(n \<mapsto> i)))"
  using assms by (auto simp: inj_on_def dom_def ran_def)

lemma inj_on_map_del:
  assumes "inj_on m (dom m)"
  shows "inj_on (m(n := None)) (dom (m(n := None)))"
  using assms by (auto simp: inj_on_def dom_def)

lemma ran_map_del:
  assumes "inj_on m (dom m)" "m n = Some i"
  shows "ran (m(n := None)) = ran m - {i}"
proof -
  have "k = n" if "m k = Some i" for k using inj_onD [OF assms(1), of k n] assms(2) that by auto
  then have "m k \<noteq> Some i" if "k \<noteq> n" for k using that by blast
  then show ?thesis using assms(2) unfolding ran_def fun_upd_def by force
qed

lemma devices_ok_same:
  assumes "devices_ok used devs" "devs n = Some sc" "softc_ok sc'" "sc_state_slot sc' = sc_state_slot sc"
  shows "devices_ok used (devs(n \<mapsto> sc'))"
proof -
  have "own_slot sc' = own_slot sc" using assms(4) by (simp add: own_slot_def)
  then have "slot_map (devs(n \<mapsto> sc')) = slot_map devs"
    using assms(2) unfolding slot_map_upd by (auto simp: slot_map_def)
  then show ?thesis using assms(1,3) by (auto simp: devices_ok_def)
qed

lemma devices_ok_attach:
  assumes "devices_ok used devs" "devs n = None" "softc_ok sc"
    and "\<And>i. own_slot sc = Some i \<Longrightarrow> i \<notin> used \<and> used' = insert i used"
    and "own_slot sc = None \<Longrightarrow> used' = used"
  shows "devices_ok used' (devs(n \<mapsto> sc))"
proof -
  have n: "slot_map devs n = None" using assms(2) by (simp add: slot_map_def)
  have d: "used = ran (slot_map devs)" "inj_on (slot_map devs) (dom (slot_map devs))"
    using assms(1) by (simp_all add: devices_ok_def)
  have "used' = ran (slot_map (devs(n \<mapsto> sc))) \<and>
    inj_on (slot_map (devs(n \<mapsto> sc))) (dom (slot_map (devs(n \<mapsto> sc))))"
  proof (cases "own_slot sc")
    case None
    then show ?thesis using d n assms(5) unfolding slot_map_upd by (simp add: fun_upd_idem)
  next
    case (Some i)
    then show ?thesis
      using d n assms(4) [OF Some] inj_on_map_upd [of "slot_map devs" n i] unfolding slot_map_upd
      by simp
  qed
  then show ?thesis using assms(1,3) by (auto simp: devices_ok_def)
qed

lemma devices_ok_detach:
  assumes "devices_ok used devs" "devs n = Some sc"
    and "\<And>i. own_slot sc = Some i \<Longrightarrow> used' = used - {i}" and "own_slot sc = None \<Longrightarrow> used' = used"
  shows "devices_ok used' (devs(n := None))"
proof -
  have n: "slot_map devs n = own_slot sc" using assms(2) by (simp add: slot_map_def)
  have d: "used = ran (slot_map devs)" "inj_on (slot_map devs) (dom (slot_map devs))"
    using assms(1) by (simp_all add: devices_ok_def)
  have "used' = ran (slot_map (devs(n := None)))"
  proof (cases "own_slot sc")
    case None
    then show ?thesis using d n assms(4) unfolding slot_map_upd by (simp add: fun_upd_idem)
  next
    case (Some i)
    then show ?thesis using d n assms(3) ran_map_del [of "slot_map devs" n i] unfolding slot_map_upd by simp
  qed
  then show ?thesis
    using assms(1) inj_on_map_del [OF d(2)] by (auto simp: devices_ok_def slot_map_upd)
qed

text \<open>Attach and detach.\<close>

lemma digitizer_prev_keys:
  "prev_keys (touch_ranges rid his p) = prev_keys p" "prev_keys (locate_device_mode d p) = prev_keys p"
  by (induction his arbitrary: p) (simp_all add: locate_device_mode_def Let_def split: option.split prod.split)

lemma locate_prev_keys:
  "prev_keys (inputfs_pointer_locate r p) = prev_keys p"
  "length (prev_keys (inputfs_keyboard_locate r p)) = 6"
  "prev_keys (inputfs_digitizer_locate r p) = prev_keys p"
  by (auto simp: inputfs_pointer_locate_def inputfs_keyboard_locate_def inputfs_digitizer_locate_def Let_def
      digitizer_prev_keys split: option.split prod.split)

lemma zero_softc_ok: "softc_ok (zero_softc\<lparr>sc_state_slot := INPUTFS_NO_STATE_SLOT, sc_logged_truncated := False,
    sc_primary_cid := INPUTFS_NO_PRIMARY\<rparr>)"
proof -
  have "active_set (zero_softc\<lparr>sc_state_slot := 255, sc_logged_truncated := False, sc_primary_cid := 255\<rparr>) = {}"
    by (auto simp: active_set_def zero_softc_def nth_Cons' numeral_eq_Suc)
  then show ?thesis by (simp add: softc_ok_def touch_ok_def) (simp add: zero_softc_def zero_parser_def)
qed

lemma walk_rdesc_ok: "touch_ok (inputfs_walk_rdesc i1 o1 f1 sc) = touch_ok sc"
  by (simp add: inputfs_walk_rdesc_def touch_ok_def active_set_def)

lemma attach_rdesc_ok: "softc_ok sc \<Longrightarrow> softc_ok (attach_rdesc env d o1 f1 sc)"
  by (simp add: softc_ok_def attach_rdesc_def walk_rdesc_ok locate_prev_keys Let_def)

lemma classify_roles_ok: "softc_ok (inputfs_classify_roles u items sc) = softc_ok sc"
  by (simp add: inputfs_classify_roles_def softc_ok_def Let_def)

lemma appends_attach_slot:
  "appends 1 g (snd (attach_slot dev (sc, g)))" "appends 1 g (snd (detach_slot (sc, g)))"
proof -
  have st: "appends 0 g (inputfs_state_put_device s dv r g)" "appends 0 g (inputfs_state_clear_device s g)"
    "appends 0 g (inputfs_state_release_slot s g)" "appends 0 g (inputfs_state_seqlock_begin g)"
    "appends 0 g (inputfs_state_seqlock_end g)" "appends 0 g (inputfs_state_advance_seq g)"
    "appends 0 g (inputfs_state_mark_dirty g)" "appends 0 g (g\<lparr>state_buf := bs\<rparr>)" for s dv r g bs
    by (auto intro!: appends_same simp: inputfs_state_put_device_def inputfs_state_clear_device_def
        inputfs_state_release_slot_def inputfs_state_seqlock_begin_def inputfs_state_seqlock_end_def
        inputfs_state_advance_seq_def inputfs_state_mark_dirty_def Let_def)
  obtain slot g1 where a: "inputfs_state_alloc_slot g = (slot, g1)" by force
  then have a1: "appends 0 g g1" 
    by (cases rule: alloc_slot_cases) (auto intro!: appends_same)
  note step = appends_trans [where a = 0, unfolded add_0]
  have after: "appends k g1 g3" if "appends k g1 g2" "appends 0 g2 g3" for k g1 g2 g3
    using appends_trans [OF that] by simp
  show "appends 1 g (snd (attach_slot dev (sc, g)))"
    using appends_mono [OF a1, of 1]
    by (simp add: attach_slot_def a Let_def del: One_nat_def)
      (intro impI step [OF a1] step [OF _ appends_publish] after [OF _ st(7)] after [OF _ st(8)]
        after [OF _ st(5)] after [OF _ st(6)] after [OF _ st(1)] st(4))
  show "appends 1 g (snd (detach_slot (sc, g)))"
    using appends_mono [OF appends_same, of g g 1]
    by (simp add: detach_slot_def Let_def del: One_nat_def)
      (intro impI after [OF _ st(7)] after [OF _ st(8)] after [OF _ st(5)] after [OF _ st(6)] after [OF _ st(3)]
        after [OF _ st(2)] after [OF _ st(4)] appends_publish)
qed

lemma inputfs_attach_ok:
  assumes "inventory_ok g" and r: "inputfs_attach env (zero_softc, g) = (sc, g')"
  shows "softc_ok sc" "inventory_ok g'" "appends 1 g g'"
    and "own_slot sc = Some i \<Longrightarrow> i \<notin> used_slots g \<and> used_slots g' = insert i (used_slots g)"
    and "own_slot sc = None \<Longrightarrow> used_slots g' = used_slots g"
proof -
  define sc0 where "sc0 = inputfs_classify_roles (env_usage env)
     (case env_rdesc env of None \<Rightarrow> None | Some (d, _) \<Rightarrow> hd_items d)
     (case env_rdesc env of
        None \<Rightarrow> zero_softc\<lparr>sc_state_slot := 255, sc_logged_truncated := False, sc_primary_cid := 255\<rparr>
      | Some (d, o1, f1) \<Rightarrow> attach_rdesc env d o1 f1
          (zero_softc\<lparr>sc_state_slot := 255, sc_logged_truncated := False, sc_primary_cid := 255\<rparr>))"
  have r': "attach_slot (env_dev env) (sc0, g) = (sc, g')" using r by (simp add: inputfs_attach_def sc0_def Let_def)
  have "softc_ok sc0"
    unfolding sc0_def classify_roles_ok using zero_softc_ok attach_rdesc_ok
    by (auto split: option.split prod.split)
  moreover obtain x where "sc = sc0\<lparr>sc_state_slot := x\<rparr>"
    using r' by (simp add: attach_slot_def Let_def split: prod.splits if_splits) blast+
  ultimately show "softc_ok sc" by (simp add: softc_ok_def)
  note a = attach_slot_ok [OF assms(1) r']
  show "inventory_ok g'" by (fact a(1))
  show "appends 1 g g'" using appends_attach_slot(1) [of g "env_dev env" sc0] r' by simp
  have ne: "sc_state_slot sc \<noteq> 255" if "unat (sc_state_slot sc) < 32" using that by auto
  have least: "(LEAST j. j \<notin> used_slots g) \<notin> used_slots g" if "used_slots g \<noteq> {..<32}"
    by (rule LeastI_ex) (use that in \<open>auto simp: used_slots_def\<close>)
  show "own_slot sc = Some i \<Longrightarrow> i \<notin> used_slots g \<and> used_slots g' = insert i (used_slots g)"
    using a(2,3) least by (cases "used_slots g = {..<32}") (auto simp: own_slot_def split: if_splits)
  show "own_slot sc = None \<Longrightarrow> used_slots g' = used_slots g"
    using a(2,3) ne by (cases "used_slots g = {..<32}") (auto simp: own_slot_def split: if_splits)
qed

lemma inputfs_detach_ok:
  assumes "inventory_ok g" and r: "inputfs_detach (sc, g) = (sc', g')"
    and s: "\<And>i. own_slot sc = Some i \<Longrightarrow> i < 32"
  shows "inventory_ok g'" "appends 1 g g'"
    and "own_slot sc = Some i \<Longrightarrow> used_slots g' = used_slots g - {i}"
    and "own_slot sc = None \<Longrightarrow> used_slots g' = used_slots g"
proof -
  obtain sc1 where d: "detach_slot (sc\<lparr>sc_kbd_bridge := None\<rparr>, g) = (sc1, g')"
    using r by (auto simp: inputfs_detach_def split: prod.splits)
  show "appends 1 g g'" using appends_attach_slot(2) [of g "sc\<lparr>sc_kbd_bridge := None\<rparr>"] d by simp
  have none: "g' = g" if "own_slot sc = None"
    using d that by (auto simp: detach_slot_def own_slot_def split: if_splits)
  have some: "inventory_ok g' \<and> used_slots g' = used_slots g - {i}" if "own_slot sc = Some i" for i
    using detach_slot_ok [OF assms(1) d] s [OF that] that by (auto simp: own_slot_def split: if_splits)
  show "inventory_ok g'" using none some assms(1) by (cases "own_slot sc") auto
  show "own_slot sc = Some i \<Longrightarrow> used_slots g' = used_slots g - {i}" using some by blast
  show "own_slot sc = None \<Longrightarrow> used_slots g' = used_slots g" using none by simp
qed

section \<open>Every reachable state\<close>

lemma driver_step_ok:
  assumes "driver_step d d'" "driver_ok d"
  shows "driver_ok d'" "appends 69 (drv_g d) (drv_g d')"
proof -
  have inv: "inventory_ok (drv_g d)" and devs: "devices_ok (used_slots (drv_g d)) (drv_devs d)"
    using assms(2) by (simp_all add: driver_ok_def)
  have "driver_ok d' \<and> appends 69 (drv_g d) (drv_g d')"
    using assms(1)
  proof cases
    case (dev_attach n env sc g)
    note a = inputfs_attach_ok [OF inv dev_attach(3)]
    show ?thesis
      using a(2) appends_mono [OF a(3), of 69] devices_ok_attach [OF devs dev_attach(2) a(1,4,5)]
      by (simp add: dev_attach(1) driver_ok_def)
  next
    case (dev_detach n sc sc' g)
    have s: "i < 32" if "own_slot sc = Some i" for i
    proof -
      have "slot_map (drv_devs d) n = Some i" using dev_detach(2) that by (simp add: slot_map_def)
      then have "i \<in> used_slots (drv_g d)" using devs by (auto simp: devices_ok_def intro: ranI)
      then show ?thesis by (simp add: used_slots_def)
    qed
    note a = inputfs_detach_ok [OF inv dev_detach(3) s]
    show ?thesis
      using a(1) appends_mono [OF a(2), of 69] devices_ok_detach [OF devs dev_detach(2) a(3,4)]
      by (simp add: dev_detach(1) driver_ok_def)
  next
    case (dev_report n sc data sc' g)
    have "softc_ok sc" using devs dev_report(2) by (simp add: devices_ok_def)
    note a = inputfs_intr_ok [OF this dev_report(3)]
    have k: "inventory_ok g \<and> used_slots g = used_slots (drv_g d) \<and> appends 69 (drv_g d) g"
      using a(3) inv by (simp add: keeps_def)
    then show ?thesis
      using devices_ok_same [OF devs dev_report(2) a(1,2)] by (simp add: dev_report(1) driver_ok_def)
  next
    case (worker io)
    have k: "keeps 0 (drv_g d) (drv_g d')"
      unfolding worker by simp (rule keeps_same [OF worker_turn_live])
    then have "appends 69 (drv_g d) (drv_g d')" using inv appends_mono [of 0 _ _ 69] by (simp add: keeps_def)
    with k show ?thesis using inv devs by (simp add: worker driver_ok_def keeps_def)
  qed
  then show "driver_ok d'" "appends 69 (drv_g d) (drv_g d')" by blast+
qed

inductive_cases driver_runsE: "driver_runs n d d'"

lemma driver_runs_ok:
  assumes "driver_runs n d d'" "driver_ok d"
  shows "driver_ok d' \<and> appends (69 * n) (drv_g d) (drv_g d')"
  using assms
proof (induction rule: driver_runs.induct)
  case (run_here d)
  then show ?case by (simp add: appends_same)
next
  case (run_next n d d1 d2)
  then have "driver_ok d1" "appends (69 * n) (drv_g d) (drv_g d1)" by simp_all
  with driver_step_ok [OF run_next(2)] show ?case
    using appends_trans [of "69 * n" "drv_g d" "drv_g d1" 69 "drv_g d2"] by (simp add: add.commute)
qed

text \<open>The state after module load.\<close>

lemma get_zeros: "a + 2 \<le> m \<Longrightarrow> get16 (replicate m 0) a = 0" "a + 4 \<le> m \<Longrightarrow> get32 (replicate m 0) a = 0"
  by (simp_all add: get_field field_zeros numeral_eq_Suc)

lemma inventory_ok_init:
  assumes "state_buf g = inputfs_state_init_buf (replicate INPUTFS_STATE_SIZE 0)" "state_seq g = 0"
    "state_slot_used g = 0"
  shows "inventory_ok (inputfs_state_apply_geom g)"
proof -
  let ?z = "replicate INPUTFS_STATE_SIZE 0 :: buf"
  have z: "blit ?z 0 ?z = ?z" by (simp add: blit_def)
  have e: "slot_empty ?z i" if "i < 32" for i
    unfolding slot_empty_def using that by (intro field_zeros) simp
  then have e': "\<forall>i<32. slot_empty (replicate 11328 0) i" by simp
  have u: "used_slots (inputfs_state_apply_geom g) = {}" "state_seq (inputfs_state_apply_geom g) = 0"
    using assms(2,3) by (auto simp: used_slots_def inputfs_state_apply_geom_def Let_def)
  show ?thesis
    unfolding inventory_ok_def u unfolding inputfs_state_apply_geom_def assms(1) inputfs_state_init_buf_def Let_def z
    by (simp add: header_access put_i32_blit get_blit_same get_blit_other slots_header_blit e' get_zeros)
qed

lemma mod_load_ok:
  assumes "mod_load w h s b 0 g = Inr g'"
  shows "driver_ok \<lparr>drv_g = g', drv_devs = Map.empty\<rparr>" "events_ok g' []"
proof -
  define g0 where "g0 = inputfs_geom_read w h s b
    (g\<lparr>state_buf := inputfs_state_init_buf (replicate INPUTFS_STATE_SIZE 0),
       state_seq := 0, state_slot_used := 0, state_dirty := False,
       events_buf := inputfs_events_init_buf (replicate INPUTFS_EVENTS_SIZE 0),
       events_writer_seq := 0, events_synced := 0, events_dirty := False,
       focus_buf := replicate INPUTFS_FOCUS_SIZE 0, focus_open := False, focus_cache_valid := False,
       clock_buf := replicate INPUTFS_CLOCK_SIZE 0, clock_open := False, clock_cache_valid := False,
       smoothing_buf := replicate INPUTFS_SMOOTHING_SIZE 0, smoothing_open := False,
       smoothing_cache_valid := False, pointer_session_prev := 0\<rparr>)"
  let ?g1 = "inputfs_state_apply_geom g0"
  have f: "state_buf g0 = inputfs_state_init_buf (replicate INPUTFS_STATE_SIZE 0)" "state_seq g0 = 0"
    "state_slot_used g0 = 0" "events_buf g0 = inputfs_events_init_buf (replicate INPUTFS_EVENTS_SIZE 0)"
    "events_writer_seq g0 = 0"
    by (auto simp: g0_def inputfs_geom_read_def split: option.split)
  have g': "g' = ?g1\<lparr>events_buf := inputfs_put_u8 (events_buf ?g1) EV_OFF_VALID 1\<rparr>"
    using assms by (simp add: mod_load_def mod_init_def mod_valid_def g0_def Let_def)
  have ev: "events_buf ?g1 = events_buf g0" "events_writer_seq ?g1 = events_writer_seq g0"
    by (simp_all add: inputfs_state_apply_geom_def Let_def)
  have ok1: "events_ok ?g1 []" by (rule events_ok_init [of ?g1 0]) (use ev f in simp_all)
  then show "events_ok g' []" unfolding g' by (rule events_ok_valid)
  have i: "inventory_ok ?g1" by (rule inventory_ok_init [OF f(1,2,3)])
  have u: "used_slots ?g1 = {}"
    using f(3) by (auto simp: used_slots_def inputfs_state_apply_geom_def Let_def)
  have none: "slot_map Map.empty = Map.empty" by (auto simp: slot_map_def)
  have "inventory_ok g'" by (rule inventory_ok_state [OF i]) (simp_all add: g')
  moreover have "used_slots g' = {}" using u by (simp add: g' used_slots_def)
  ultimately show "driver_ok \<lparr>drv_g = g', drv_devs = Map.empty\<rparr>"
    by (simp add: driver_ok_def devices_ok_def none)
qed

end
