(* ===== verification/Inputfs_Smooth.thy ===== *)
theory Inputfs_Smooth
  imports Awase_Prelude
begin

text \<open>
  Pointer smoothing of inputfs (\<^verbatim>\<open>inputfs_smooth.c\<close>): the exponential moving average and
  the One-Euro filter in Q16.16 fixed point. C integers are \<open>int\<close> with the wrap-around of
  their width at every operation that could leave it; a state pointer is an option, \<open>None\<close>
  for NULL.
\<close>

section \<open>State and constants\<close>

definition INPUTFS_SMOOTH_Q16_ONE :: int where "INPUTFS_SMOOTH_Q16_ONE = 0x10000"
definition INPUTFS_SMOOTH_EMA_ALPHA_MIN :: int where "INPUTFS_SMOOTH_EMA_ALPHA_MIN = 0x00CC"
definition INPUTFS_SMOOTH_EMA_ALPHA_MAX :: int where "INPUTFS_SMOOTH_EMA_ALPHA_MAX = 0xFF34"
definition TWO_PI_Q16 :: int where "TWO_PI_Q16 = 0x6487F"

lemmas smooth_consts = INPUTFS_SMOOTH_Q16_ONE_def INPUTFS_SMOOTH_EMA_ALPHA_MIN_def
  INPUTFS_SMOOTH_EMA_ALPHA_MAX_def TWO_PI_Q16_def

record inputfs_smooth_ema_state =
  em_prev :: int
  em_initialised :: bool

record inputfs_smooth_one_euro_state =
  oe_prev_x :: int
  oe_prev_dx :: int
  oe_prev_us :: int
  oe_initialised :: bool

definition inputfs_smooth_ema_reset ::
  "inputfs_smooth_ema_state option \<Rightarrow> inputfs_smooth_ema_state option" where
  "inputfs_smooth_ema_reset s = map_option (\<lambda>_. \<lparr>em_prev = 0, em_initialised = False\<rparr>) s"

definition inputfs_smooth_one_euro_reset ::
  "inputfs_smooth_one_euro_state option \<Rightarrow> inputfs_smooth_one_euro_state option" where
  "inputfs_smooth_one_euro_reset s =
     map_option (\<lambda>_. \<lparr>oe_prev_x = 0, oe_prev_dx = 0, oe_prev_us = 0, oe_initialised = False\<rparr>) s"

section \<open>Helpers\<close>

definition clamp_alpha :: "int \<Rightarrow> int" where
  "clamp_alpha alpha =
     (if alpha < INPUTFS_SMOOTH_EMA_ALPHA_MIN then INPUTFS_SMOOTH_EMA_ALPHA_MIN
      else if alpha > INPUTFS_SMOOTH_EMA_ALPHA_MAX then INPUTFS_SMOOTH_EMA_ALPHA_MAX
      else alpha)"

definition q16_mul :: "int \<Rightarrow> int \<Rightarrow> int" where
  "q16_mul a b = (let prod = wrap64 (a * b) in wrap32 (shr prod 16))"

definition ema_q16 :: "int \<Rightarrow> int \<Rightarrow> int \<Rightarrow> int" where
  "ema_q16 alpha in_px prev_px =
     (let in_a = wrap64 (alpha * in_px);
          one_minus_a = wrap64 (INPUTFS_SMOOTH_Q16_ONE - alpha);
          prev_b = wrap64 (one_minus_a * prev_px);
          sum = wrap64 (in_a + prev_b)
      in wrap32 (shr sum 16))"

definition one_euro_alpha :: "int \<Rightarrow> int \<Rightarrow> int" where
  "one_euro_alpha cutoff_q16 dt_us =
     (let cutoff_q16 = (if cutoff_q16 < 1 then 1 else cutoff_q16);
          dt_us = (if dt_us < 1 then 1 else dt_us);
          k_step1 = wrap64 (cutoff_q16 * dt_us);
          k_step1 = cdiv k_step1 1000000;
          k_q16 = cdiv (wrap64 (k_step1 * TWO_PI_Q16)) INPUTFS_SMOOTH_Q16_ONE;
          k_q16 = (if k_q16 < 1 then 1 else k_q16);
          alpha_q16 = cdiv (wrap64 (k_q16 * INPUTFS_SMOOTH_Q16_ONE))
                           (wrap64 (k_q16 + INPUTFS_SMOOTH_Q16_ONE));
          alpha_q16 = (if alpha_q16 < INPUTFS_SMOOTH_EMA_ALPHA_MIN
                       then INPUTFS_SMOOTH_EMA_ALPHA_MIN else alpha_q16);
          alpha_q16 = (if alpha_q16 > INPUTFS_SMOOTH_EMA_ALPHA_MAX
                       then INPUTFS_SMOOTH_EMA_ALPHA_MAX else alpha_q16)
      in alpha_q16)"

section \<open>The filters\<close>

definition inputfs_smooth_apply_ema ::
  "int \<Rightarrow> int \<Rightarrow> inputfs_smooth_ema_state option \<Rightarrow> int \<times> inputfs_smooth_ema_state option" where
  "inputfs_smooth_apply_ema alpha in_px state =
     (case state of
        None \<Rightarrow> (in_px, None)
      | Some st \<Rightarrow>
          if \<not> em_initialised st then (in_px, Some \<lparr>em_prev = in_px, em_initialised = True\<rparr>)
          else let out_px = ema_q16 (clamp_alpha alpha) in_px (em_prev st)
               in (out_px, Some (st\<lparr>em_prev := out_px\<rparr>)))"

text \<open>The parts of the One-Euro step: interval, smoothed derivative, adaptive cutoff.\<close>

definition one_euro_dt :: "inputfs_smooth_one_euro_state \<Rightarrow> int \<Rightarrow> int" where
  "one_euro_dt st t_us =
     (let dt_us = wrap64 (t_us - oe_prev_us st) in if dt_us < 1 then 1 else dt_us)"

definition one_euro_dx ::
  "int \<Rightarrow> int \<Rightarrow> int \<Rightarrow> inputfs_smooth_one_euro_state \<Rightarrow> int" where
  "one_euro_dx d_cutoff in_q16 dt_us st =
     (let raw_dx_wide = cdiv (wrap64 (wrap32 (in_q16 - oe_prev_x st) * 1000000)) dt_us;
          raw_dx_wide = (if raw_dx_wide > 0x7FFFFFFF then 0x7FFFFFFF else raw_dx_wide);
          raw_dx_q16 = (if raw_dx_wide < - 0x80000000 then - 0x80000000 else raw_dx_wide);
          d_alpha_q16 = one_euro_alpha d_cutoff dt_us;
          smoothed_dx_q16 = ema_q16 d_alpha_q16 raw_dx_q16 (oe_prev_dx st)
      in if smoothed_dx_q16 = - 0x80000000 then - 0x7FFFFFFF else smoothed_dx_q16)"

definition one_euro_cutoff :: "int \<Rightarrow> int \<Rightarrow> int \<Rightarrow> int" where
  "one_euro_cutoff min_cutoff beta smoothed_dx_q16 =
     (let abs_dx_q16 = (if smoothed_dx_q16 < 0 then - smoothed_dx_q16 else smoothed_dx_q16);
          cutoff_q16 = wrap32 (min_cutoff + q16_mul beta abs_dx_q16)
      in if cutoff_q16 < 1 then 1 else cutoff_q16)"

definition inputfs_smooth_apply_one_euro ::
  "int \<Rightarrow> int \<Rightarrow> int \<Rightarrow> int \<Rightarrow> int \<Rightarrow> inputfs_smooth_one_euro_state option \<Rightarrow>
   int \<times> inputfs_smooth_one_euro_state option" where
  "inputfs_smooth_apply_one_euro min_cutoff beta d_cutoff in_px t_us state =
     (case state of
        None \<Rightarrow> (in_px, None)
      | Some st \<Rightarrow>
          let min_cutoff = (if min_cutoff < 1 then 1 else min_cutoff);
              beta = (if beta < 0 then 0 else beta);
              d_cutoff = (if d_cutoff < 1 then 1 else d_cutoff);
              in_q16 = wrap32 (in_px * 2 ^ 16) in
          if \<not> oe_initialised st
          then (in_px, Some \<lparr>oe_prev_x = in_q16, oe_prev_dx = 0, oe_prev_us = t_us,
                             oe_initialised = True\<rparr>)
          else
            let dt_us = one_euro_dt st t_us;
                smoothed_dx_q16 = one_euro_dx d_cutoff in_q16 dt_us st;
                cutoff_q16 = one_euro_cutoff min_cutoff beta smoothed_dx_q16;
                alpha_q16 = one_euro_alpha cutoff_q16 dt_us;
                out_q16 = ema_q16 alpha_q16 in_q16 (oe_prev_x st)
            in (wrap32 (shr out_q16 16),
                Some (st\<lparr>oe_prev_x := out_q16, oe_prev_dx := smoothed_dx_q16,
                         oe_prev_us := t_us\<rparr>)))"

section \<open>Averaging stays between its inputs\<close>

definition alpha_ok :: "int \<Rightarrow> bool" where
  "alpha_ok a \<longleftrightarrow> INPUTFS_SMOOTH_EMA_ALPHA_MIN \<le> a \<and> a \<le> INPUTFS_SMOOTH_EMA_ALPHA_MAX"

lemma clamp_alpha_ok: "alpha_ok (clamp_alpha a)"
  by (simp add: alpha_ok_def clamp_alpha_def smooth_consts)

lemma clamp_alpha_id: "alpha_ok a \<Longrightarrow> clamp_alpha a = a"
  by (simp add: alpha_ok_def clamp_alpha_def)

lemma one_euro_alpha_ok: "alpha_ok (one_euro_alpha c d)"
  by (simp add: alpha_ok_def one_euro_alpha_def Let_def smooth_consts)

text \<open>No intermediate of the recurrence leaves 64 bits, and the result fits 32.\<close>

lemma weighted_between:
  fixes a x y :: int
  assumes "0 \<le> a" "a \<le> 65536" "lo \<le> x" "x \<le> hi" "lo \<le> y" "y \<le> hi"
  shows "lo * 65536 \<le> a * x + (65536 - a) * y" "a * x + (65536 - a) * y \<le> hi * 65536"
proof -
  have "a * lo + (65536 - a) * lo \<le> a * x + (65536 - a) * y"
    using assms by (intro add_mono mult_left_mono) auto
  then show "lo * 65536 \<le> a * x + (65536 - a) * y" by (simp add: algebra_simps)
  have "a * x + (65536 - a) * y \<le> a * hi + (65536 - a) * hi"
    using assms by (intro add_mono mult_left_mono) auto
  then show "a * x + (65536 - a) * y \<le> hi * 65536" by (simp add: algebra_simps)
qed

lemma product_is64:
  fixes a x :: int
  assumes "0 \<le> a" "a \<le> 65536" "is32 x"
  shows "is64 (a * x)"
proof -
  have "\<bar>a\<bar> * \<bar>x\<bar> \<le> 65536 * 2 ^ 31" using assms by (intro mult_mono) auto
  then have "\<bar>a * x\<bar> \<le> 65536 * 2 ^ 31" by (simp only: abs_mult)
  then have "\<bar>a * x\<bar> < 2 ^ 63" by (rule le_less_trans) simp
  then show ?thesis by (simp add: abs_less_iff)
qed

lemma ema_q16_eq:
  assumes "alpha_ok a" "is32 x" "is32 y"
  shows "ema_q16 a x y = shr (a * x + (65536 - a) * y) 16"
    "is32 (ema_q16 a x y)"
proof -
  have a: "0 \<le> a" "a \<le> 65536" using assms(1) by (auto simp: alpha_ok_def smooth_consts)
  have "is64 (a * x)" "is64 ((65536 - a) * y)"
    using product_is64 [of a x] product_is64 [of "65536 - a" y] a assms by auto
  moreover have sum: "- (2 ^ 31) * 65536 \<le> a * x + (65536 - a) * y"
    "a * x + (65536 - a) * y \<le> (2 ^ 31 - 1) * 65536"
    using weighted_between [of a "- (2 ^ 31)" x "2 ^ 31 - 1" y] a assms by auto
  moreover have "is64 (a * x + (65536 - a) * y)" using sum by simp
  ultimately have e: "ema_q16 a x y = wrap32 (shr (a * x + (65536 - a) * y) 16)"
    using a by (simp add: ema_q16_def Let_def INPUTFS_SMOOTH_Q16_ONE_def wrap64_id)
  have "is32 (shr (a * x + (65536 - a) * y) 16)"
    using shr_between [of "- (2 ^ 31)" 16 "a * x + (65536 - a) * y" "2 ^ 31 - 1"] sum by simp
  then show "ema_q16 a x y = shr (a * x + (65536 - a) * y) 16" "is32 (ema_q16 a x y)"
    by (simp_all add: e wrap32_id)
qed

lemma ema_q16_between:
  assumes "alpha_ok a" "is32 x" "is32 y"
  shows "min x y \<le> ema_q16 a x y" "ema_q16 a x y \<le> max x y"
proof -
  have a: "0 \<le> a" "a \<le> 65536" using assms(1) by (auto simp: alpha_ok_def smooth_consts)
  have "min x y * 2 ^ 16 \<le> a * x + (65536 - a) * y" "a * x + (65536 - a) * y \<le> max x y * 2 ^ 16"
    using weighted_between [OF a, of "min x y" x "max x y" y] by auto
  from shr_between [OF this] ema_q16_eq(1) [OF assms]
  show "min x y \<le> ema_q16 a x y" "ema_q16 a x y \<le> max x y" by simp_all
qed

section \<open>Approach to a constant input\<close>

text \<open>The rounding is downwards, so a step moves by at least one pixel when it goes down.\<close>

lemma ema_step:
  assumes "alpha_ok a" "is32 x" "is32 y"
  shows "ema_q16 a x y = y + shr (a * (x - y)) 16"
proof -
  have "a * x + (65536 - a) * y = a * (x - y) + y * 2 ^ 16" by (simp add: algebra_simps)
  then show ?thesis using ema_q16_eq(1) [OF assms] by (simp add: shr_def)
qed

lemma ema_down:
  assumes "alpha_ok a" "is32 x" "is32 y" "x < y"
  shows "x \<le> ema_q16 a x y" "ema_q16 a x y < y"
proof -
  have "0 < a" using assms(1) by (simp add: alpha_ok_def smooth_consts)
  then have "a * (x - y) < 0" using assms(4) by (simp add: mult_pos_neg)
  then have "shr (a * (x - y)) 16 < 0" by (simp add: shr_def)
  then show "ema_q16 a x y < y" using ema_step [OF assms(1-3)] by simp
  show "x \<le> ema_q16 a x y" using ema_q16_between(1) [OF assms(1-3)] assms(4) by simp
qed

lemma ema_up:
  assumes "alpha_ok a" "is32 x" "is32 y" "65536 \<le> a * (x - y)"
  shows "y < ema_q16 a x y" "ema_q16 a x y \<le> x"
proof -
  have "0 < a" using assms(1) by (simp add: alpha_ok_def smooth_consts)
  have "y < x"
  proof (rule ccontr)
    assume "\<not> y < x"
    with \<open>0 < a\<close> have "a * (x - y) \<le> 0" by (simp add: mult_le_0_iff)
    with assms(4) show False by simp
  qed
  then show "ema_q16 a x y \<le> x" using ema_q16_between(2) [OF assms(1-3)] by simp
  have "1 \<le> shr (a * (x - y)) 16"
    by (rule shr_between(1) [of _ _ _ "a * (x - y)"]) (use assms(4) in simp_all)
  then show "y < ema_q16 a x y" using ema_step [OF assms(1-3)] by simp
qed

lemma ema_rest:
  assumes "alpha_ok a" "is32 x" "is32 y" "y \<le> x" "a * (x - y) < 65536"
  shows "ema_q16 a x y = y"
proof -
  have "0 \<le> a * (x - y)" using assms(1,4) by (simp add: alpha_ok_def smooth_consts)
  then show ?thesis using assms(5) ema_step [OF assms(1-3)] by (simp add: shr_def)
qed

lemma ema_iterate_down:
  assumes "alpha_ok a" "is32 x"
  shows "is32 y \<Longrightarrow> x \<le> y \<Longrightarrow> nat (y - x) \<le> n \<Longrightarrow> (ema_q16 a x ^^ n) y = x"
proof (induction n arbitrary: y)
  case 0
  then show ?case by simp
next
  case (Suc n)
  show ?case
  proof (cases "x = y")
    case True
    then have "ema_q16 a x y = x" using ema_rest [OF assms Suc.prems(1)] by simp
    with Suc.IH [OF assms(2)] True show ?thesis by (simp add: funpow_Suc_right del: funpow.simps)
  next
    case False
    then have s: "x \<le> ema_q16 a x y" "ema_q16 a x y < y"
      using ema_down [OF assms Suc.prems(1)] Suc.prems(2) by simp_all
    have "is32 (ema_q16 a x y)" by (rule ema_q16_eq(2) [OF assms Suc.prems(1)])
    from Suc.IH [OF this s(1)] s(2) Suc.prems(3) show ?thesis
      by (simp add: funpow_Suc_right del: funpow.simps)
  qed
qed

lemma ema_iterate_up:
  assumes "alpha_ok a" "is32 x"
  shows "is32 y \<Longrightarrow> y \<le> x \<Longrightarrow> nat (x - y) \<le> n \<Longrightarrow>
    (ema_q16 a x ^^ n) y \<le> x \<and> a * (x - (ema_q16 a x ^^ n) y) < 65536"
proof (induction n arbitrary: y)
  case 0
  then show ?case by simp
next
  case (Suc n)
  show ?case
  proof (cases "a * (x - y) < 65536")
    case True
    then have "ema_q16 a x y = y" using ema_rest [OF assms Suc.prems(1,2)] by simp
    then have "(ema_q16 a x ^^ Suc n) y = y" by (induction n) simp_all
    with True Suc.prems(2) show ?thesis by (simp del: funpow.simps)
  next
    case False
    then have s: "y < ema_q16 a x y" "ema_q16 a x y \<le> x"
      using ema_up [OF assms Suc.prems(1)] by simp_all
    have "is32 (ema_q16 a x y)" by (rule ema_q16_eq(2) [OF assms Suc.prems(1)])
    from Suc.IH [OF this s(2)] s(1) Suc.prems(3) show ?thesis
      by (simp add: funpow_Suc_right del: funpow.simps)
  qed
qed

text \<open>Feeding the same sample \<open>n\<close> times.\<close>

fun ema_feed :: "int \<Rightarrow> int \<Rightarrow> nat \<Rightarrow> inputfs_smooth_ema_state option \<Rightarrow>
    inputfs_smooth_ema_state option" where
  "ema_feed alpha in_px 0 st = st"
| "ema_feed alpha in_px (Suc n) st = ema_feed alpha in_px n (snd (inputfs_smooth_apply_ema alpha in_px st))"

lemma ema_feed_iterate:
  "ema_feed alpha x n (Some \<lparr>em_prev = y, em_initialised = True\<rparr>) =
   Some \<lparr>em_prev = (ema_q16 (clamp_alpha alpha) x ^^ n) y, em_initialised = True\<rparr>"
proof (induction n arbitrary: y)
  case (Suc n)
  then show ?case
    by (simp add: inputfs_smooth_apply_ema_def Let_def funpow_Suc_right del: funpow.simps)
qed simp

section \<open>The One-Euro filter\<close>

text \<open>Coordinates below 32768 keep the Q16.16 values in 32 bits.\<close>

definition one_euro_ok :: "inputfs_smooth_one_euro_state \<Rightarrow> bool" where
  "one_euro_ok st \<longleftrightarrow> 0 \<le> oe_prev_x st \<and> oe_prev_x st \<le> 32767 * 65536 \<and> is32 (oe_prev_dx st)"

lemma one_euro_dx_is32: "is32 (one_euro_dx dc x dt st)"
proof -
  have "is32 (ema_q16 a x y)" for a x y
    unfolding ema_q16_def Let_def by (rule wrap32_range)
  then show ?thesis unfolding one_euro_dx_def Let_def by (simp split del: if_split) (simp split: if_split)
qed

lemma one_euro_step:
  assumes "oe_initialised st" "0 \<le> in_px" "in_px \<le> 32767"
    "inputfs_smooth_apply_one_euro mc beta dc in_px t (Some st) = (out, Some st')"
  shows "\<exists>a. alpha_ok a \<and> oe_prev_x st' = ema_q16 a (in_px * 65536) (oe_prev_x st) \<and>
      out = wrap32 (shr (oe_prev_x st') 16)"
    "is32 (oe_prev_dx st')" "oe_initialised st'" "oe_prev_us st' = t"
proof -
  have in_q16: "wrap32 (in_px * 65536) = in_px * 65536" using assms(2,3) by (intro wrap32_id) simp
  define dt where "dt = one_euro_dt st t"
  define dx where "dx = one_euro_dx (if dc < 1 then 1 else dc) (in_px * 65536) dt st"
  define a where "a = one_euro_alpha
    (one_euro_cutoff (if mc < 1 then 1 else mc) (if beta < 0 then 0 else beta) dx) dt"
  have e: "out = wrap32 (shr (ema_q16 a (in_px * 65536) (oe_prev_x st)) 16)"
    "st' = st\<lparr>oe_prev_x := ema_q16 a (in_px * 65536) (oe_prev_x st), oe_prev_dx := dx,
              oe_prev_us := t\<rparr>"
    using assms(1,4)
    by (simp_all add: inputfs_smooth_apply_one_euro_def Let_def in_q16 dt_def dx_def a_def
        split del: if_split)
  have "alpha_ok a" unfolding a_def by (rule one_euro_alpha_ok)
  with e show "\<exists>a. alpha_ok a \<and> oe_prev_x st' = ema_q16 a (in_px * 65536) (oe_prev_x st) \<and>
      out = wrap32 (shr (oe_prev_x st') 16)" by auto
  have "is32 dx" unfolding dx_def by (rule one_euro_dx_is32)
  with e assms(1) show "is32 (oe_prev_dx st')" "oe_initialised st'" "oe_prev_us st' = t"
    by simp_all
qed

lemma one_euro_between:
  assumes "one_euro_ok st" "oe_initialised st" "0 \<le> in_px" "in_px \<le> 32767"
    "inputfs_smooth_apply_one_euro mc beta dc in_px t (Some st) = (out, Some st')"
  shows "min in_px (oe_prev_x st div 65536) \<le> out" "out \<le> max in_px (oe_prev_x st div 65536)"
    "one_euro_ok st'"
proof -
  note step = one_euro_step [OF assms(2-5)]
  obtain a where a: "alpha_ok a" "oe_prev_x st' = ema_q16 a (in_px * 65536) (oe_prev_x st)"
    "out = wrap32 (shr (oe_prev_x st') 16)" using step(1) by blast
  have i32: "is32 (in_px * 65536)" "is32 (oe_prev_x st)"
    using assms(1,3,4) by (simp_all add: one_euro_ok_def)
  have b: "min (in_px * 65536) (oe_prev_x st) \<le> oe_prev_x st'"
    "oe_prev_x st' \<le> max (in_px * 65536) (oe_prev_x st)"
    using ema_q16_between [OF a(1) i32] a(2) by simp_all
  then have rng: "0 \<le> oe_prev_x st'" "oe_prev_x st' \<le> 32767 * 65536"
    using assms(1,3,4) by (auto simp: one_euro_ok_def)
  then show "one_euro_ok st'" using step(2) by (simp add: one_euro_ok_def)
  have "0 \<le> oe_prev_x st' div 65536" "oe_prev_x st' div 65536 \<le> 32767"
    using rng(1) zdiv_mono1 [OF rng(2), of 65536] by (simp_all add: pos_imp_zdiv_nonneg_iff)
  then have out: "out = oe_prev_x st' div 65536"
    using rng a(3) by (simp add: shr_def wrap32_id)
  show "min in_px (oe_prev_x st div 65536) \<le> out"
    using zdiv_mono1 [OF b(1), of 65536] unfolding out by (auto simp: min_def split: if_splits)
  show "out \<le> max in_px (oe_prev_x st div 65536)"
    using zdiv_mono1 [OF b(2), of 65536] unfolding out by (auto simp: max_def split: if_splits)
qed

end
