(* ===== verification/Inputfs_Properties.thy ===== *)
theory Inputfs_Properties
  imports Inputfs_Driver Inputfs_Smooth
begin

text \<open>
  The properties of inputfs, each with a concrete instance where it has hypotheses. The
  proofs are in the component theories; here they are put together.
\<close>

section \<open>The driver\<close>

text \<open>
  C15. Whatever devices attach, detach and report, and whenever the worker runs: after module
  load the state region stays consistent (even sequence lock, sequence number, device count,
  one published entry per slot in use and zeroes elsewhere), the slots in use are exactly those of
  the attached devices and no two share one, the contact state of each device is consistent,
  and the event ring is the log of at most 69 events per step.
\<close>

theorem driver_reachable:
  assumes "mod_load width height stride bpp 0 g0 = Inr g"
    and "driver_runs n \<lparr>drv_g = g, drv_devs = Map.empty\<rparr> d"
  shows "inventory_ok (drv_g d) \<and>
    used_slots (drv_g d) = ran (slot_map (drv_devs d)) \<and>
    inj_on (slot_map (drv_devs d)) (dom (slot_map (drv_devs d))) \<and>
    (\<forall>m sc. drv_devs d m = Some sc \<longrightarrow> touch_ok sc) \<and>
    (69 * n < 2 ^ 64 \<longrightarrow> (\<exists>h. length h \<le> 69 * n \<and> events_ok (drv_g d) h))"
proof -
  note l = mod_load_ok [OF assms(1)]
  have "driver_ok d" "appends (69 * n) g (drv_g d)"
    using driver_runs_ok [OF assms(2) l(1)] by simp_all
  with l(2) show ?thesis
    by (auto simp: driver_ok_def devices_ok_def softc_ok_def appends_def) (metis append_Nil list.size(3) add_0)
qed

definition loaded :: inputfs_globals where
  "loaded = (case mod_load (Some 1920) (Some 1080) (Some 7680) (Some 32) 0 (bss_globals (\<lambda>k. (of_nat k, 0))) of
     Inr g \<Rightarrow> g | Inl _ \<Rightarrow> bss_globals (\<lambda>k. (of_nat k, 0)))"

lemma loaded: "mod_load (Some 1920) (Some 1080) (Some 7680) (Some 32) 0 (bss_globals (\<lambda>k. (of_nat k, 0))) = Inr loaded"
  by (simp add: loaded_def mod_load_def Let_def)

definition mouse_env :: attach_env where
  "mouse_env = \<lparr>env_usage = 0x00010002, env_rdesc = None, env_report_size_max = 0, env_kbd_register = 0,
     env_dev = \<lparr>dev_unit = 0, dev_info = None, dev_desc = None\<rparr>\<rparr>"

theorem driver_reachable_witness:
  "\<exists>d. driver_runs 1 \<lparr>drv_g = loaded, drv_devs = Map.empty\<rparr> d \<and> inventory_ok (drv_g d) \<and>
     used_slots (drv_g d) = ran (slot_map (drv_devs d)) \<and> drv_devs d 0 \<noteq> None \<and>
     (\<exists>h. length h \<le> 69 \<and> events_ok (drv_g d) h)"
proof -
  let ?d0 = "\<lparr>drv_g = loaded, drv_devs = Map.empty\<rparr>"
  obtain sc g where a: "inputfs_attach mouse_env (zero_softc, drv_g ?d0) = (sc, g)" by force
  have "drv_devs ?d0 0 = None" by simp
  from run_next [OF run_here dev_attach [OF this a]]
  have r: "driver_runs 1 ?d0 \<lparr>drv_g = g, drv_devs = (drv_devs ?d0)(0 \<mapsto> sc)\<rparr>" by simp
  from driver_reachable [OF loaded r] r show ?thesis
    by (intro exI [of _ "\<lparr>drv_g = g, drv_devs = (drv_devs ?d0)(0 \<mapsto> sc)\<rparr>"]) simp
qed

text \<open>
  Attaching a device takes the lowest free slot of the inventory. When all 32 are taken the
  region and the ring stay as they are and the device runs without a slot, its events under the
  synthetic device number.
\<close>

theorem attach_slot_lowest:
  assumes "inventory_ok g" "attach_slot dev (sc, g) = (sc', g')"
  shows "if used_slots g = {..<32} then g' = g \<and> event_dev_slot sc' = INPUTFS_SYNTHETIC_DEVICE
    else unat (event_dev_slot sc') = (LEAST j. j \<notin> used_slots g) \<and>
      used_slots g' = insert (unat (event_dev_slot sc')) (used_slots g)"
proof -
  note a = attach_slot_ok [OF assms]
  have "unat (event_dev_slot sc') = unat (sc_state_slot sc')" if "unat (sc_state_slot sc') < 32"
    using that by (auto simp: event_dev_slot_def unat_ucast_up)
  then show ?thesis
    using a(2,3) by (cases "used_slots g = {..<32}") (simp_all add: event_dev_slot_def)
qed

theorem attach_slot_lowest_witness:
  "unat (event_dev_slot (fst (attach_slot (env_dev mouse_env) (zero_softc, loaded)))) = 0"
proof -
  have ok: "inventory_ok loaded" using mod_load_ok(1) [OF loaded] by (simp add: driver_ok_def)
  have u: "used_slots loaded = {}"
    using mod_load_ok(1) [OF loaded] by (auto simp: driver_ok_def devices_ok_def slot_map_def ran_def)
  then have n: "used_slots loaded \<noteq> {..<32}" by (metis empty_iff lessThan_iff zero_less_numeral)
  show ?thesis
    using attach_slot_lowest [OF ok prod.collapse [symmetric], of "env_dev mouse_env" zero_softc] n u by simp
qed

section \<open>The event ring\<close>




text \<open>
  A consumer that has read every event and polls again before more than 1024 others are
  published receives exactly those others, in order. Sequence numbers that have left the window
  or do not exist yet read as absent, never as another event.
\<close>

theorem ring_catch_up:
  assumes "events_ok g h" "length h + length as < 2 ^ 64" "length as \<le> 1024"
  shows "inputfs_ring.catch_up (fold publish_args as g) (length h) = inputfs_ring.recorded_all as g \<and>
    (\<forall>s>0. read_event g s \<noteq> None \<longleftrightarrow> header_earliest_seq g \<le> s \<and> s \<le> header_writer_seq g)"
  using inputfs_ring.catch_up_complete [OF assms] inputfs_ring.read_iff [OF assms(1)] by blast

lemma args_tuple:
  "publish_args (sr, et, ds, f, p, n) g = inputfs_events_publish sr et ds f p n g"
  "recorded_args (sr, et, ds, f, p, n) g = published_event sr et ds f p n g"
  by (simp_all add: publish_args_def recorded_args_def)

theorem ring_catch_up_witness:
  "inputfs_ring.catch_up (fold publish_args [(1, 1, 0, 0, None, 0), (2, 1, 0, 0, None, 0)] loaded) 0 =
   [published_event 1 1 0 0 None 0 loaded,
    published_event 2 1 0 0 None 0 (inputfs_events_publish 1 1 0 0 None 0 loaded)]"
  using ring_catch_up [OF mod_load_ok(2) [OF loaded], of "[(1, 1, 0, 0, None, 0), (2, 1, 0, 0, None, 0)]"]
  by (simp add: inputfs_ring.recorded_all.simps args_tuple)

text \<open>
  A worker turn that is not disturbed and whose writes succeed leaves the events file equal
  to the ring, however many events were pending; the condition it relies on holds for a file
  just created and survives every publication.
\<close>

theorem events_sync_writes_ring:
  assumes "file_ok g" "\<forall>i. io i = 0" "events_synced g < events_writer_seq g"
    "unat (events_writer_seq g) + 1 < 2 ^ 64"
  shows "events_file (inputfs_events_sync_to_file io undisturbed g) = Some (events_buf g) \<and>
    file_ok (publish_args a g)"
  using sync_writes_ring [OF assms(1-3)] file_ok_publish [OF assms(1,4)]
  by (cases a) (simp add: publish_args_def)

lemma file_ok_opened:
  assumes "events_ok g []" shows "file_ok (inputfs_events_open_file 0 0 g\<lparr>events_synced := 0\<rparr>)"
  using assms by (simp add: file_ok_def inputfs_events_open_file_def events_ok_def ring_inv_def ring_of_def slot_eq_def)

theorem events_sync_writes_ring_witness:
  "events_file (inputfs_events_sync_to_file (\<lambda>_. 0) undisturbed
     (publish_args (1, 1, 0, 0, None, 0) (inputfs_events_open_file 0 0 loaded\<lparr>events_synced := 0\<rparr>)))
   = Some (events_buf
     (publish_args (1, 1, 0, 0, None, 0) (inputfs_events_open_file 0 0 loaded\<lparr>events_synced := 0\<rparr>)))"
proof -
  let ?g = "inputfs_events_open_file 0 0 loaded\<lparr>events_synced := 0\<rparr>"
  have w: "events_writer_seq ?g = 0"
    using mod_load_ok(2) [OF loaded] by (simp add: events_ok_def inputfs_events_open_file_def)
  have ok: "file_ok ?g" by (rule file_ok_opened [OF mod_load_ok(2) [OF loaded]])
  have "file_ok (publish_args (1, 1, 0, 0, None, 0) ?g)"
    using file_ok_publish [OF ok] w by (simp add: publish_args_def)
  moreover have "events_writer_seq (publish_args (1, 1, 0, 0, None, 0) ?g) = 1"
    "events_synced (publish_args (1, 1, 0, 0, None, 0) ?g) = 0"
    using w by (simp_all add: publish_args_def inputfs_events_publish_def Let_def split: prod.split)
  ultimately show ?thesis
    using events_sync_writes_ring [of "publish_args (1, 1, 0, 0, None, 0) ?g" "\<lambda>_. 0"] by simp
qed

section \<open>Reports\<close>

text \<open>
  C17. The key events of a report, replayed on the set of held keys, give the keys the report
  says are held; each event changes the set; the ring and the keyboard bridge get the same
  events, and the report becomes the one the next is compared with.
\<close>

theorem keyboard_diff_replay:
  assumes "length (prev_keys (sc_parser sc)) = 6" "length keys = 6" "plain_keys (prev_keys (sc_parser sc))"
    "plain_keys keys" "inputfs_keyboard_diff_emit modifiers keys (sc, g) = (sc', g')"
  shows "\<exists>ups downs. let evs = map (\<lambda>u. (u, False)) ups @ map (\<lambda>u. (u, True)) downs;
      before = held (prev_modifiers (sc_parser sc)) (prev_keys (sc_parser sc)); after = held modifiers keys
    in replay evs before = after \<and> set ups = before - after \<and> set downs = after - before \<and>
      g' = fold publish_args
        (map (key_args (event_dev_slot sc) modifiers (inputfs_focus_keyboard_session g)) evs) g \<and>
      sc_kbd_bridge sc' = sc_kbd_bridge (bridge_fed (kbd_bridge_enabled g) evs sc) \<and>
      prev_modifiers (sc_parser sc') = modifiers \<and> prev_keys (sc_parser sc') = keys"
proof -
  define pm pk where "pm = prev_modifiers (sc_parser sc)" and "pk = prev_keys (sc_parser sc)"
  define evs where "evs = diff_events pm pk modifiers keys"
  have p: "plain_keys pk" "plain_keys keys" using assms(3,4) by (simp_all add: pk_def)
  note r = assms(5) [unfolded diff_emit_events [OF assms(1,2)] emit_key_fold Let_def prod.case prod.inject]
  have "replay evs (held pm pk) = held modifiers keys"
    unfolding evs_def by (rule replay_diff [OF p])
  then show ?thesis
    unfolding Let_def pm_def [symmetric] pk_def [symmetric]
    using diff_genuine [OF p, of pm modifiers] conjunct1 [OF r, symmetric] conjunct2 [OF r, symmetric]
    by (intro exI [of _ "released pm pk modifiers keys"] exI [of _ "pressed pm pk modifiers keys"])
      (simp add: evs_def diff_events_def pm_def pk_def)
qed

theorem keyboard_diff_replay_witness:
  "\<exists>ups downs. set ups = held 0 (replicate 6 0) - held 2 [4, 5, 0, 0, 0, 0] \<and>
     set downs = held 2 [4, 5, 0, 0, 0, 0] - held 0 (replicate 6 0) \<and> held 2 [4, 5, 0, 0, 0, 0] \<noteq> {}"
proof -
  let ?k = "[4, 5, 0, 0, 0, 0] :: byte list"
  have p: "plain_keys ?k" "plain_keys (replicate 6 0)" by (simp_all add: plain_keys_def)
  have z: "prev_keys (sc_parser zero_softc) = replicate 6 0" "prev_modifiers (sc_parser zero_softc) = 0"
    by (simp_all add: zero_softc_def zero_parser_def)
  have n: "held 2 ?k \<noteq> {}" by (auto simp: held_def)
  show ?thesis
    using keyboard_diff_replay [of zero_softc ?k 2 loaded, OF _ _ _ p(1) prod.collapse [symmetric]] p(2) n
    unfolding z by (simp add: Let_def) blast
qed

text \<open>
  C18. A pointer report moves the pointer by the reported deltas clamped to the display, so the
  published position is always on it; the ring gets, in order, the surface crossing, the motion
  with the deltas that really happened, one event per changed button and the scroll.
\<close>

theorem pointer_report:
  assumes "screen_ok g" "state_sized g" "is32 (ptr_x g + pr_dx out)" "is32 (ptr_y g + pr_dy out)"
    and g'_def: "g' = pointer_extracted sc out g"
  shows "on_screen g' \<and>
    ptr_x g' = max 0 (min (uint (geom_width g) - 1) (ptr_x g + pr_dx out)) \<and>
    ptr_y g' = max 0 (min (uint (geom_height g) - 1) (ptr_y g + pr_dy out)) \<and>
    ptr_buttons g' = pr_buttons out \<and>
    (\<exists>g1. g' = fold publish_args
      (pointer_events sc out (ptr_x g', ptr_y g') (wrap32 (ptr_x g' - ptr_x g), wrap32 (ptr_y g' - ptr_y g))
        (pointer_session_prev g) (pointer_session_prev g') (ptr_buttons g)) g1 \<and>
      events_buf g1 = events_buf g \<and> events_writer_seq g1 = events_writer_seq g)"
proof -
  define g1 where "g1 = snd (pointer_update (pr_dx out) (pr_dy out) (pr_buttons out) g)"
  define s where "s = inputfs_focus_resolve_pointer (ptr_x g1) (ptr_y g1) g1"
  note f = pointer_update_fields [OF assms(2) g1_def]
  note e = pointer_extracted_events [OF assms(2) g1_def s_def, of sc, folded g'_def]
  have same: "ptr_x g' = ptr_x g1" "ptr_y g' = ptr_y g1" "ptr_buttons g' = ptr_buttons g1"
    "pointer_session_prev g' = s" "geom_width g' = geom_width g" "geom_height g' = geom_height g"
    unfolding e by (simp_all add: ptr_x_def ptr_y_def ptr_buttons_def g1_def)
  have k: "geom_known g" "0 < uint (geom_width g)" "uint (geom_width g) < 2 ^ 31"
    "0 < uint (geom_height g)" "uint (geom_height g) < 2 ^ 31" using assms(1) by (simp_all add: screen_ok_def)
  have x: "ptr_x g1 = max 0 (min (uint (geom_width g) - 1) (ptr_x g + pr_dx out))"
    "ptr_y g1 = max 0 (min (uint (geom_height g) - 1) (ptr_y g + pr_dy out))"
    using f(2,3) moved_clamped [OF k(2,3) assms(3)] moved_clamped [OF k(4,5) assms(4)] k(1) by simp_all
  have d: "fst (pointer_update (pr_dx out) (pr_dy out) (pr_buttons out) g)
      = (wrap32 (ptr_x g1 - ptr_x g), wrap32 (ptr_y g1 - ptr_y g))"
    unfolding g1_def by (rule pointer_update_delta [OF assms(2)])
  have "on_screen g'" using x k by (auto simp: on_screen_def same)
  moreover have "events_buf (g1\<lparr>pointer_session_prev := s\<rparr>) = events_buf g"
    "events_writer_seq (g1\<lparr>pointer_session_prev := s\<rparr>) = events_writer_seq g" by (simp_all add: g1_def)
  ultimately show ?thesis using x f(4) e unfolding same d by blast
qed

lemma loaded_pointer: "screen_ok loaded" "state_sized loaded" "ptr_x loaded = 960" "ptr_y loaded = 540"
proof -
  have g: "geom_known loaded" "geom_width loaded = 1920" "geom_height loaded = 1080"
    by (simp_all add: loaded_def mod_load_def mod_init_def mod_valid_def inputfs_geom_read_def inputfs_state_apply_geom_def Let_def
        split: sum.split)
  show "screen_ok loaded" using g by (simp add: screen_ok_def)
  show "state_sized loaded" using mod_load_ok(1) [OF loaded] inventory_okD(1) by (simp add: driver_ok_def)
  have z: "length (inputfs_state_init_buf (replicate INPUTFS_STATE_SIZE 0)) = INPUTFS_STATE_SIZE"
    by (simp add: inputfs_state_init_buf_def Let_def header_access)
  have b: "state_buf loaded = blit (blit (blit (inputfs_state_init_buf (replicate INPUTFS_STATE_SIZE 0)) 48 [1])
      32 (put32 960)) 36 (put32 540)"
    using z by (simp add: loaded_def mod_load_def mod_init_def mod_valid_def inputfs_geom_read_def inputfs_state_apply_geom_def Let_def
        header_access put_i32_blit)
  show "ptr_x loaded = 960" "ptr_y loaded = 540"
    unfolding ptr_x_def ptr_y_def b using z by (simp_all add: get_blit_same get_blit_other)
qed

theorem pointer_report_witness:
  "on_screen (pointer_extracted zero_softc \<lparr>pr_dx = 5000, pr_dy = -7, pr_dw = 0, pr_buttons = 1\<rparr> loaded) \<and>
   ptr_x (pointer_extracted zero_softc \<lparr>pr_dx = 5000, pr_dy = -7, pr_dw = 0, pr_buttons = 1\<rparr> loaded) = 1919"
proof -
  have w: "uint (geom_width loaded) = 1920"
    by (simp add: loaded_def mod_load_def mod_init_def mod_valid_def inputfs_geom_read_def inputfs_state_apply_geom_def Let_def)
  show ?thesis
    using pointer_report [OF loaded_pointer(1,2), of "\<lparr>pr_dx = 5000, pr_dy = -7, pr_dw = 0, pr_buttons = 1\<rparr>"
        _ zero_softc, OF _ _ refl] loaded_pointer(3,4) w by simp
qed

text \<open>
  C19. The session under the pointer is the grab if there is one, otherwise the session of the
  first listed surface whose rectangle, on the unbounded plane, contains the point: the wrapped
  32-bit differences of the code decide it correctly. Without a valid cache, or while the
  compositor writes it, there is none.
\<close>

theorem focus_resolve:
  assumes "length (focus_buf g) = INPUTFS_FOCUS_SIZE" "is32 x" "is32 y"
  shows "inputfs_focus_resolve_pointer x y g =
    (if focus_cache_valid g \<and> even (unat (get32 (focus_buf g) 8)) then
       if get32 (focus_buf g) 16 \<noteq> 0 then get32 (focus_buf g) 16
       else (case find (contains x y) (surface_map (focus_buf g)) of Some s \<Rightarrow> sr_session s | None \<Rightarrow> 0)
     else 0)"
  by (rule resolve_pointer_eq [OF assms])

theorem focus_resolve_witness:
  "inputfs_focus_resolve_pointer 5 5 loaded = 0"
proof -
  have "length (focus_buf loaded) = INPUTFS_FOCUS_SIZE" "\<not> focus_cache_valid loaded"
    by (simp_all add: loaded_def mod_load_def mod_init_def mod_valid_def inputfs_geom_read_def inputfs_state_apply_geom_def Let_def)
  then show ?thesis using focus_resolve [of loaded 5 5] by simp
qed

text \<open>
  C20. A touch report with the tip down makes its contact active, one with the tip up (or not
  confident) inactive, and no other contact changes. The count is the number of active contacts,
  and exactly when it is one is there a primary, with the baseline of the cursor at its last position.
\<close>

theorem touch_report_contacts:
  assumes "touch_ok sc"
    and "inputfs_extract_digitizer (sc_parser sc) report
      \<lparr>tr_tip_switch = 0, tr_confidence = 0, tr_contact_id = 0, tr_x = 0, tr_y = 0,
       tr_scan_time = 0, tr_contact_count = 0, tr_button = 0\<rparr> = (True, out)"
    and "inputfs_digitizer_dispatch report dev_slot (sc, g) = (sc', g')"
  shows "touch_ok sc' \<and>
    active_set sc' =
      (if tr_tip_switch out \<noteq> 0 \<and> \<not> (0 < hl_size (loc_confidence (sc_parser sc)) \<and> tr_confidence out = 0)
       then insert (min 7 (unat (tr_contact_id out))) (active_set sc)
       else active_set sc - {min 7 (unat (tr_contact_id out))})"
proof -
  define cid where "cid = (if 8 \<le> tr_contact_id out then 7 else tr_contact_id out)"
  have c: "unat cid = min 7 (unat (tr_contact_id out))" "unat cid < 8"
    by (auto simp: cid_def word_le_nat_alt)
  have down: "active_set (fst (contact_down ds cid px py s sc g)) = insert (unat cid) (active_set sc)"
    for ds px py s using contact_down_ok(3) [OF assms(1) c(2)] by (metis prod.collapse)
  have up: "active_set (fst (contact_up ds cid sc g)) = active_set sc - {unat cid}"
    for ds using contact_up_ok(2) [OF assms(1) c(2)] by (metis prod.collapse)
  have "touch_ok sc'" using digitizer_dispatch_ok [OF assms(1), of report dev_slot g] assms(3) by simp
  moreover have "active_set sc' = active_set (fst (inputfs_digitizer_dispatch report dev_slot (sc, g)))"
    by (simp add: assms(3))
  ultimately show ?thesis
    unfolding inputfs_digitizer_dispatch_def
    by (simp add: Let_def assms(2) cid_def [symmetric] clickpad_button_ok(2) split_beta if_distrib [of fst]
        if_distrib [of active_set] down up c(1) split del: if_split cong: if_cong) simp
qed

definition touch_parser :: inputfs_parser_state where
  "touch_parser = zero_parser\<lparr>digitizer_locations_valid := True, digitizer_report_id := 0,
     loc_tip_switch := no_loc\<lparr>hl_size := 1, hl_pos := 0\<rparr>,
     loc_contact_id := no_loc\<lparr>hl_size := 7, hl_pos := 1\<rparr>\<rparr>"

theorem touch_report_contacts_witness:
  "active_set (fst (inputfs_digitizer_dispatch [7, 5] 0
     (zero_softc\<lparr>sc_primary_cid := INPUTFS_NO_PRIMARY, sc_parser := touch_parser\<rparr>, loaded))) = {2}"
proof -
  let ?sc = "zero_softc\<lparr>sc_primary_cid := INPUTFS_NO_PRIMARY, sc_parser := touch_parser\<rparr>"
  have a: "active_set ?sc = {}" by (auto simp: active_set_def zero_softc_def nth_Cons' numeral_eq_Suc)
  have ok: "touch_ok ?sc" unfolding touch_ok_def a by (simp add: zero_softc_def)
  have e: "inputfs_extract_digitizer (sc_parser ?sc) [7, 5]
      \<lparr>tr_tip_switch = 0, tr_confidence = 0, tr_contact_id = 0, tr_x = 0, tr_y = 0,
       tr_scan_time = 0, tr_contact_count = 0, tr_button = 0\<rparr>
    = (True, \<lparr>tr_tip_switch = 1, tr_confidence = 1, tr_contact_id = 2, tr_x = 0, tr_y = 0,
       tr_scan_time = 0, tr_contact_count = 0, tr_button = 0\<rparr>)"
    by code_simp
  show ?thesis
    using touch_report_contacts [OF ok e prod.collapse [symmetric], of 0 loaded] a by simp
qed

text \<open>
  The scaling of a touch coordinate to pixels computes the exact proportion, with no
  overflow, and lands on the display for every device value, also outside the logical range.
\<close>

theorem touch_pixel_on_display:
  assumes "is32 px_max" "0 \<le> px_max" "lo < hi" "is32 (hi - lo)"
  shows "0 \<le> to_pixel_axis d lo (hi - lo) px_max \<and> to_pixel_axis d lo (hi - lo) px_max \<le> px_max \<and>
    (lo \<le> d \<and> d \<le> hi \<longrightarrow> to_pixel_axis d lo (hi - lo) px_max = (d - lo) * px_max div (hi - lo))"
  using to_pixel_axis_range [OF assms(2)] to_pixel_axis_exact [OF assms(1,2) _ _ assms(3,4)] by blast

theorem touch_pixel_on_display_witness:
  "to_pixel_axis 2047 0 (4095 - 0) 1919 = 2047 * 1919 div 4095 \<and> to_pixel_axis 9999 0 (4095 - 0) 1919 \<le> 1919"
  using touch_pixel_on_display [of 1919 0 4095 2047] touch_pixel_on_display [of 1919 0 4095 9999] by simp

section \<open>The keyboard bridge\<close>

text \<open>
  The scancode ring of the bridge is a queue of 1024 entries, also across the wrap of its
  32-bit counters: the keys it delivers are, in order, the ones it accepted, the rest is still
  queued, and it never holds more than 1024.
\<close>

theorem kbd_ring_fifo:
  assumes "kbd_ring_ok sc" "qrun kbd_put kbd_get ops sc = (acc, del, sc')"
  shows "ring_items sc @ acc = del @ ring_items sc' \<and> kbd_ring_ok sc' \<and> length (ring_items sc') \<le> 1024"
  using kbd_ring.run_fifo [OF assms] by (auto simp: kbd_ring_ok_def)

definition empty_bridge :: inputfs_kbd_softc where
  "empty_bridge = the (inputfs_kbd_bridge_attach 0)"

lemma empty_bridge_ok: "kbd_ring_ok empty_bridge" "ring_items empty_bridge = []"
  by (simp_all add: empty_bridge_def inputfs_kbd_bridge_attach_def kbd_ring_ok_def ring_items_def ring_len_def)

theorem kbd_ring_fifo_witness:
  "case qrun kbd_put kbd_get [Put 30, Put 48, Get] empty_bridge of
     (acc, del, sc') \<Rightarrow> acc = del @ ring_items sc' \<and> kbd_ring_ok sc'"
proof -
  obtain acc del sc' where r: "qrun kbd_put kbd_get [Put 30, Put 48, Get] empty_bridge = (acc, del, sc')"
    using prod_cases3 by blast
  show ?thesis using kbd_ring_fifo [OF empty_bridge_ok(1) r] empty_bridge_ok(2) r by simp
qed



section \<open>Smoothing and the report parser\<close>

text \<open>
  The exponential filter settles: under a constant input no more than one sample per pixel of
  distance is needed; from above it then sits exactly on the input, from below so close that
  one step of its weight is less than a pixel, and it stays there.
\<close>

theorem ema_settles:
  assumes "is32 x" "is32 y" "nat \<bar>x - y\<bar> \<le> n"
  shows "\<exists>z. ema_feed alpha x n (Some \<lparr>em_prev = y, em_initialised = True\<rparr>)
      = Some \<lparr>em_prev = z, em_initialised = True\<rparr> \<and>
    (x \<le> y \<longrightarrow> z = x) \<and>
    (y \<le> x \<longrightarrow> z \<le> x \<and> clamp_alpha alpha * (x - z) < 65536) \<and>
    inputfs_smooth_apply_ema alpha x (Some \<lparr>em_prev = z, em_initialised = True\<rparr>)
      = (z, Some \<lparr>em_prev = z, em_initialised = True\<rparr>)"
proof -
  define a z where "a = clamp_alpha alpha" and "z = (ema_q16 a x ^^ n) y"
  have a: "alpha_ok a" by (simp add: a_def clamp_alpha_ok)
  have f: "ema_feed alpha x n (Some \<lparr>em_prev = y, em_initialised = True\<rparr>)
      = Some \<lparr>em_prev = z, em_initialised = True\<rparr>" by (simp add: ema_feed_iterate z_def a_def)
  have down: "x \<le> y \<longrightarrow> z = x" using ema_iterate_down [OF a assms(1,2)] assms(3) by (auto simp: z_def)
  have up: "y \<le> x \<longrightarrow> z \<le> x \<and> a * (x - z) < 65536"
    using ema_iterate_up [OF a assms(1,2)] assms(3) by (auto simp: z_def)
  have it: "is32 ((ema_q16 a x ^^ k) y)" for k
    using ema_q16_eq(2) [OF a assms(1)] assms(2) by (induction k) auto
  have z: "z \<le> x" "a * (x - z) < 65536"
    using down up linear [of x y] by (metis order_refl) (metis down up linear diff_self mult_zero_right zero_less_numeral)
  have "ema_q16 a x z = z" using ema_rest [OF a assms(1) it z(1) [unfolded z_def]] z(2) by (simp add: z_def)
  then show ?thesis using f down up by (simp add: inputfs_smooth_apply_ema_def Let_def a_def)
qed

theorem ema_settles_witness:
  "\<exists>z. ema_feed 6554 40 60 (Some \<lparr>em_prev = 100, em_initialised = True\<rparr>)
      = Some \<lparr>em_prev = z, em_initialised = True\<rparr> \<and> z = 40"
  using ema_settles [of 40 100 60 6554] by auto

text \<open>
  For coordinates of a display up to 32768 pixels wide, the One-Euro filter, whatever its
  parameters and the times of the samples, answers between its previous output and the input:
  it never overshoots, and no intermediate value overflows on the way.
\<close>

theorem one_euro_no_overshoot:
  assumes "one_euro_ok st" "oe_initialised st" "0 \<le> in_px" "in_px \<le> 32767"
    "inputfs_smooth_apply_one_euro mc beta dc in_px t (Some st) = (out, Some st')"
  shows "min in_px (oe_prev_x st div 65536) \<le> out \<and> out \<le> max in_px (oe_prev_x st div 65536) \<and> one_euro_ok st'"
  using one_euro_between [OF assms] by blast

theorem one_euro_no_overshoot_witness:
  "case inputfs_smooth_apply_one_euro 65536 655 65536 200 16000
      (Some \<lparr>oe_prev_x = 6553600, oe_prev_dx = 0, oe_prev_us = 0, oe_initialised = True\<rparr>) of
     (out, _) \<Rightarrow> 100 \<le> out \<and> out \<le> 200"
proof -
  let ?st = "\<lparr>oe_prev_x = 6553600, oe_prev_dx = 0, oe_prev_us = 0, oe_initialised = True\<rparr>"
  obtain out st' where r: "inputfs_smooth_apply_one_euro 65536 655 65536 200 16000 (Some ?st) = (out, Some st')"
    by (simp add: inputfs_smooth_apply_one_euro_def Let_def)
  have "one_euro_ok ?st" by (simp add: one_euro_ok_def)
  from one_euro_no_overshoot [OF this _ _ _ r] show ?thesis by (simp add: r)
qed

text \<open>
  Every digitizer field the parser will read was located in the report that carries the tip
  switch, under its own usage, and the parser turns on digitizer reports only with a tip switch and
  both coordinates.
\<close>

theorem digitizer_fields_in_report:
  assumes "hd_locate d (HID_USAGE2 HUP_DIGITIZERS HUD_TIP_SWITCH) hid_input 0 = Some (lt, rid)"
    and q_def: "q = inputfs_digitizer_locate (Some d) p"
  shows "digitizer_report_id q = rid \<and>
    (hl_size (loc_touch_x q) > 0 \<longrightarrow> in_report d (HID_USAGE2 HUP_GENERIC_DESKTOP HUG_X) rid (loc_touch_x q)) \<and>
    (hl_size (loc_touch_y q) > 0 \<longrightarrow> in_report d (HID_USAGE2 HUP_GENERIC_DESKTOP HUG_Y) rid (loc_touch_y q)) \<and>
    (hl_size (loc_confidence q) > 0 \<longrightarrow> in_report d (HID_USAGE2 HUP_DIGITIZERS HUD_CONFIDENCE) rid (loc_confidence q)) \<and>
    (hl_size (loc_contact_id q) > 0 \<longrightarrow> in_report d (HID_USAGE2 HUP_DIGITIZERS HUD_CONTACTID) rid (loc_contact_id q)) \<and>
    (hl_size (loc_touch_button q) > 0 \<longrightarrow> in_report d (HID_USAGE2 HUP_BUTTON 1) rid (loc_touch_button q)) \<and>
    digitizer_locations_valid q = (hl_size lt > 0 \<and> hl_size (loc_touch_x q) > 0 \<and> hl_size (loc_touch_y q) > 0)"
  using digitizer_locate_fields [OF assms(1), of p, folded q_def] locate_in_report locate_once
  by (simp add: Let_def)

definition touchpad_desc :: hid_desc where
  "touchpad_desc = \<lparr>hd_locate = (\<lambda>u k i. if i = 0 \<and> k = hid_input
       then Some (no_loc\<lparr>hl_size := 16, hl_pos := 8 + (u AND 0xff)\<rparr>, 7) else None),
     hd_items = None, hd_report_size = (\<lambda>_ _. 0)\<rparr>"

theorem digitizer_fields_in_report_witness:
  "digitizer_locations_valid (inputfs_digitizer_locate (Some touchpad_desc) zero_parser) \<and>
   digitizer_report_id (inputfs_digitizer_locate (Some touchpad_desc) zero_parser) = 7"
proof -
  have t: "hd_locate touchpad_desc (HID_USAGE2 HUP_DIGITIZERS HUD_TIP_SWITCH) hid_input 0
      = Some (no_loc\<lparr>hl_size := 16, hl_pos := 8 + (HID_USAGE2 HUP_DIGITIZERS HUD_TIP_SWITCH AND 0xff)\<rparr>, 7)"
    by (simp add: touchpad_desc_def)
  have s: "8 = Suc 7" by simp
  have x: "0 < hl_size (locate_in_report touchpad_desc u 7 0 8)" for u
    unfolding s locate_in_report.simps by (simp add: touchpad_desc_def)
  show ?thesis
    using digitizer_fields_in_report [OF t refl, of zero_parser] digitizer_locate_fields [OF t, of zero_parser] x
    by (simp add: Let_def)
qed

end
