(* ===== verification/Event_Notify.thy ===== *)
theory Event_Notify
  imports Event_Ring
begin

text \<open>
  The notification devices beside the event rings: a consumer registers a note that carries the sequence number it has seen,
  and is woken when the writer has gone past it. The locale states what a ring with such a device promises: a note becomes
  ready exactly when there is an event to read that was published after its registration.
\<close>

section \<open>Notes and the device\<close>

abbreviation (input) EVFILT_READ :: int where "EVFILT_READ \<equiv> - 1"
abbreviation (input) POLLIN :: u32 where "POLLIN \<equiv> 0x0001"
abbreviation (input) POLLRDNORM :: u32 where "POLLRDNORM \<equiv> 0x0040"

record knote =
  kn_filter :: int
  kn_attached :: bool
  kn_data :: u64

text \<open>The open count, the notes on the list and the number of recorded pollers.\<close>

record notify_dev =
  nt_open_count :: u32
  nt_notes :: "knote list"
  nt_selrecords :: nat

section \<open>The contract\<close>

locale wake_source = event_ring ok publish recorded read wseq eseq window limit
  for ok :: "'r \<Rightarrow> 'e list \<Rightarrow> bool" and publish :: "'a \<Rightarrow> 'r \<Rightarrow> 'r" and recorded :: "'a \<Rightarrow> 'r \<Rightarrow> 'e"
    and read :: "'r \<Rightarrow> nat \<Rightarrow> 'e option" and wseq :: "'r \<Rightarrow> nat" and eseq :: "'r \<Rightarrow> nat" and window :: nat and limit :: nat +
  fixes register :: "'r \<Rightarrow> knote \<Rightarrow> notify_dev \<Rightarrow> errno \<times> knote \<times> notify_dev"
    and ready :: "knote \<Rightarrow> 'r \<Rightarrow> bool"
  assumes register_marks: "ok r h \<Longrightarrow> register r kn nt = (0, kn', nt') \<Longrightarrow> unat (kn_data kn') = length h \<and> kn' \<in> set (nt_notes nt')"
    and ready_iff: "ok r h \<Longrightarrow> ready kn r \<longleftrightarrow> unat (kn_data kn) < length h"
begin

lemma ready_after:
  assumes "ok r h" "length h + length as < limit" "register r kn nt = (0, kn', nt')"
  shows "ready kn' (fold publish as r) \<longleftrightarrow> as \<noteq> []"
  using ready_iff [OF ok_publish_all [OF assms(1,2)], of kn'] register_marks [OF assms(1,3)] by auto

text \<open>A consumer that is woken finds exactly the events published since it registered.\<close>

lemma woken_reads:
  assumes "ok r h" "length h + length as < limit" "length as \<le> window" "register r kn nt = (0, kn', nt')"
  shows "(ready kn' (fold publish as r) \<longleftrightarrow> as \<noteq> []) \<and>
    catch_up (fold publish as r) (unat (kn_data kn')) = recorded_all as r"
  using ready_after [OF assms(1,2,4)] catch_up_complete [OF assms(1-3)] register_marks [OF assms(1,4)] by simp

end

end
