(* ===== verification/Inputfs_Module.thy ===== *)
theory Inputfs_Module
  imports Inputfs_Driver Event_Notify
begin

text \<open>
  The life of the inputfs module: the notification device, the worker thread from start to exit, module load and unload with
  what they allocate, and the interleaving of the loading thread with the worker.
\<close>

section \<open>The notification device\<close>

definition inputfs_notify_open :: "notify_dev \<Rightarrow> errno \<times> notify_dev" where
  "inputfs_notify_open nt = (0, nt\<lparr>nt_open_count := nt_open_count nt + 1\<rparr>)"

definition inputfs_notify_close :: "notify_dev \<Rightarrow> errno \<times> notify_dev" where
  "inputfs_notify_close nt = (0, nt\<lparr>nt_open_count := nt_open_count nt - 1\<rparr>)"

text \<open>The events that are ready, which is never any: a poller is only recorded.\<close>

definition inputfs_notify_poll :: "u32 \<Rightarrow> notify_dev \<Rightarrow> u32 \<times> notify_dev" where
  "inputfs_notify_poll events nt =
    (if events AND (POLLIN OR POLLRDNORM) = 0 then (0, nt) else (0, nt\<lparr>nt_selrecords := nt_selrecords nt + 1\<rparr>))"

definition inputfs_notify_kqfilter :: "inputfs_globals \<Rightarrow> knote \<Rightarrow> notify_dev \<Rightarrow> errno \<times> knote \<times> notify_dev" where
  "inputfs_notify_kqfilter g kn nt =
    (if kn_filter kn \<noteq> EVFILT_READ then (EOPNOTSUPP, kn, nt)
     else let kn = kn\<lparr>kn_attached := True, kn_data := get64 (events_buf g) EV_OFF_WRITER_SEQ\<rparr>
          in (0, kn, nt\<lparr>nt_notes := nt_notes nt @ [kn]\<rparr>))"

definition inputfs_notify_filt_detach :: "knote \<Rightarrow> notify_dev \<Rightarrow> notify_dev" where
  "inputfs_notify_filt_detach kn nt = nt\<lparr>nt_notes := remove1 kn (nt_notes nt)\<rparr>"

interpretation inputfs_wake: wake_source events_ok publish_args recorded_args read_event header_writer_seq header_earliest_seq
  1024 "2 ^ 64" inputfs_notify_kqfilter "\<lambda>kn. inputfs_notify_filt_event (kn_data kn)"
proof
  fix g :: inputfs_globals and h and kn kn' :: knote and nt nt' :: notify_dev
  assume ok: "events_ok g h"
  have w: "unat (get64 (events_buf g) EV_OFF_WRITER_SEQ) = length h"
    using inputfs_ring.ok_wseq [OF ok] by (simp add: header_writer_seq_def)
  show "inputfs_notify_filt_event (kn_data kn) g \<longleftrightarrow> unat (kn_data kn) < length h"
    unfolding inputfs_notify_filt_event_def word_less_nat_alt w ..
  show "inputfs_notify_kqfilter g kn nt = (0, kn', nt') \<Longrightarrow> unat (kn_data kn') = length h \<and> kn' \<in> set (nt_notes nt')"
    using w by (auto simp: inputfs_notify_kqfilter_def Let_def split: if_splits)
qed

section \<open>The worker\<close>

text \<open>
  \<^verbatim>\<open>inputfs_apply_attrs\<close>: the attributes a file has after it was opened, given those of \<^verbatim>\<open>vn_open\<close> and the result of
  \<^verbatim>\<open>VOP_SETATTR\<close>. The policy is the three control knobs, of which the mode is masked.
\<close>

record file_attrs =
  fa_uid :: u32
  fa_gid :: u32
  fa_mode :: u32

definition inputfs_apply_attrs :: "file_attrs \<Rightarrow> errno \<Rightarrow> file_attrs \<Rightarrow> file_attrs" where
  "inputfs_apply_attrs dev error opened =
    (if error \<noteq> 0 then opened else \<lparr>fa_uid = fa_uid dev, fa_gid = fa_gid dev, fa_mode = fa_mode dev AND 4095\<rparr>)"

text \<open>A created state file is empty until the first sync.\<close>

definition inputfs_state_open_file :: "errno \<Rightarrow> inputfs_globals \<Rightarrow> inputfs_globals" where
  "inputfs_state_open_file error g = g\<lparr>state_file := (if error \<noteq> 0 then None else Some [])\<rparr>"

text \<open>What the four opens at the start of the worker meet.\<close>

record open_io =
  oi_state :: errno
  oi_events :: "errno \<times> errno"
  oi_focus :: bool
  oi_clock :: bool

fun worker_open :: "open_io \<Rightarrow> nat \<Rightarrow> inputfs_globals \<Rightarrow> inputfs_globals" where
  "worker_open io 0 g = inputfs_state_open_file (oi_state io) g"
| "worker_open io (Suc 0) g = inputfs_events_open_file (fst (oi_events io)) (snd (oi_events io)) g"
| "worker_open io (Suc (Suc 0)) g = inputfs_focus_open_file (oi_focus io) g"
| "worker_open io (Suc (Suc (Suc i))) g = inputfs_clock_open_file (oi_clock io) g"

section \<open>Probe\<close>

definition inputfs_probe :: "errno \<Rightarrow> int" where
  "inputfs_probe lookup = (if lookup \<noteq> 0 then int lookup else BUS_PROBE_DEFAULT)"

section \<open>Load and unload\<close>

datatype mod_res = StateBuf | EventsBuf | FocusBuf | ClockBuf | SmoothingBuf | StateMtx | FocusMtx | ClockMtx | SmoothingMtx
  | NoteList | NotifyDev

datatype worker_pc = WNone | WOpen nat | WLoop | WClose | WExited
datatype loader_pc = Unloaded | Starting | Loaded | Joining

record inputfs_module =
  im_g :: inputfs_globals
  im_held :: "mod_res list"
  im_notify :: notify_dev
  im_run :: bool
  im_done :: bool
  im_worker :: worker_pc
  im_pc :: loader_pc

definition no_notify :: notify_dev where
  "no_notify = \<lparr>nt_open_count = 0, nt_notes = [], nt_selrecords = 0\<rparr>"

definition mod_bufs :: "mod_res list" where
  "mod_bufs = [StateBuf, EventsBuf, FocusBuf, ClockBuf, SmoothingBuf]"

definition mod_mtxs :: "mod_res list" where
  "mod_mtxs = [StateMtx, FocusMtx, ClockMtx, SmoothingMtx]"

definition release :: "mod_res list \<Rightarrow> inputfs_module \<Rightarrow> inputfs_module" where
  "release rs m = m\<lparr>im_held := fold remove1 rs (im_held m)\<rparr>"

text \<open>The freed buffers are null pointers.\<close>

definition free_bufs :: "inputfs_module \<Rightarrow> inputfs_module" where
  "free_bufs m = (release (rev mod_bufs) m)\<lparr>im_g := (im_g m)\<lparr>smoothing_buf := [], clock_buf := [], focus_buf := [],
     events_buf := [], state_buf := []\<rparr>\<rparr>"

text \<open>
  \<^verbatim>\<open>MOD_LOAD\<close> up to the creation of the worker, with the way back when that fails; then, beside the running worker, the valid byte, the note
  list and the device, whose absence is tolerated.
\<close>

definition load_begin :: "u32 option \<times> u32 option \<times> u32 option \<times> u32 option \<Rightarrow> errno \<Rightarrow> inputfs_module \<Rightarrow> errno \<times> inputfs_module" where
  "load_begin geom kproc m =
    (let (w, h, s, b) = geom;
         m = m\<lparr>im_g := mod_init w h s b (im_g m), im_held := im_held m @ mod_bufs @ mod_mtxs, im_run := True, im_done := False\<rparr>
     in if kproc \<noteq> 0 then (kproc, free_bufs (release (rev mod_mtxs) m))
        else (0, m\<lparr>im_worker := WOpen 0, im_pc := Starting\<rparr>))"

definition load_end :: "errno \<Rightarrow> inputfs_module \<Rightarrow> inputfs_module" where
  "load_end mkdev m = m\<lparr>im_g := mod_valid (im_g m),
     im_held := im_held m @ NoteList # (if mkdev \<noteq> 0 then [] else [NotifyDev]), im_pc := Loaded\<rparr>"

text \<open>\<^verbatim>\<open>MOD_UNLOAD\<close> up to the request to the worker to stop, and after it has stopped.\<close>

definition unload_begin :: "inputfs_module \<Rightarrow> inputfs_module" where
  "unload_begin m =
    (let m = (if NotifyDev \<in> set (im_held m) then release [NotifyDev] m else m);
         m = release [NoteList] (m\<lparr>im_notify := (im_notify m)\<lparr>nt_notes := [], nt_selrecords := 0\<rparr>\<rparr>)
     in m\<lparr>im_run := False, im_pc := Joining\<rparr>)"

definition unload_end :: "inputfs_module \<Rightarrow> inputfs_module" where
  "unload_end m = (free_bufs (release mod_mtxs m))\<lparr>im_pc := Unloaded\<rparr>"

definition module_boot :: "(nat \<Rightarrow> u64 \<times> u64) \<Rightarrow> inputfs_module" where
  "module_boot clock = \<lparr>im_g = bss_globals clock, im_held = [], im_notify = no_notify, im_run = False, im_done = False,
     im_worker = WNone, im_pc = Unloaded\<rparr>"

text \<open>
  The interleavings of the loading thread, the worker, the notification device and the publication of events. A load that fails is followed by no
  other step of that load; a worker that finds the flag cleared leaves its loop.
\<close>

inductive module_step :: "inputfs_module \<Rightarrow> inputfs_module \<Rightarrow> bool" where
  do_load: "im_pc m = Unloaded \<Longrightarrow> module_step m (snd (load_begin geom kproc m))"
| do_start: "im_pc m = Starting \<Longrightarrow> module_step m (load_end mkdev m)"
| do_unload: "im_pc m = Loaded \<Longrightarrow> module_step m (unload_begin m)"
| do_free: "im_pc m = Joining \<Longrightarrow> im_done m \<Longrightarrow> module_step m (unload_end m)"
| worker_opens: "im_worker m = WOpen i \<Longrightarrow>
    module_step m (m\<lparr>im_g := worker_open io i (im_g m), im_worker := (if i < 3 then WOpen (Suc i) else WLoop)\<rparr>)"
| worker_turns: "im_worker m = WLoop \<Longrightarrow> im_run m \<Longrightarrow> module_step m (m\<lparr>im_g := worker_turn io undisturbed (im_g m)\<rparr>)"
| worker_quits: "im_worker m = WLoop \<Longrightarrow> \<not> im_run m \<Longrightarrow> module_step m (m\<lparr>im_worker := WClose\<rparr>)"
| worker_exits: "im_worker m = WClose \<Longrightarrow> module_step m (m\<lparr>im_g := worker_stop (im_g m), im_done := True, im_worker := WExited\<rparr>)"
| do_publish: "im_pc m = Loaded \<Longrightarrow> module_step m (m\<lparr>im_g := publish_args a (im_g m)\<rparr>)"
| do_notify: "im_pc m = Loaded \<Longrightarrow> NotifyDev \<in> set (im_held m) \<Longrightarrow>
    nt \<in> {snd (inputfs_notify_open (im_notify m)), snd (inputfs_notify_close (im_notify m)), snd (inputfs_notify_poll e (im_notify m)),
      snd (snd (inputfs_notify_kqfilter (im_g m) kn (im_notify m))), inputfs_notify_filt_detach kn (im_notify m)} \<Longrightarrow>
    module_step m (m\<lparr>im_notify := nt\<rparr>)"

section \<open>Nothing is used after it is freed\<close>

definition files_closed :: "inputfs_globals \<Rightarrow> bool" where
  "files_closed g \<longleftrightarrow> state_file g = None \<and> events_file g = None \<and> \<not> focus_open g \<and> \<not> clock_open g \<and> \<not> smoothing_open g"

fun worker_at :: "loader_pc \<Rightarrow> bool \<Rightarrow> worker_pc \<Rightarrow> bool" where
  "worker_at Unloaded fin w \<longleftrightarrow> w = WNone \<or> w = WExited"
| "worker_at Joining fin w \<longleftrightarrow> w \<noteq> WNone \<and> fin = (w = WExited)"
| "worker_at _ fin w \<longleftrightarrow> \<not> fin \<and> (w = WLoop \<or> (\<exists>i. w = WOpen i))"

fun held_at :: "loader_pc \<Rightarrow> mod_res list \<Rightarrow> bool" where
  "held_at Unloaded rs \<longleftrightarrow> rs = []"
| "held_at Loaded rs \<longleftrightarrow> rs = mod_bufs @ mod_mtxs @ [NoteList] \<or> rs = mod_bufs @ mod_mtxs @ [NoteList, NotifyDev]"
| "held_at _ rs \<longleftrightarrow> rs = mod_bufs @ mod_mtxs"

definition module_inv :: "inputfs_module \<Rightarrow> bool" where
  "module_inv m \<longleftrightarrow> held_at (im_pc m) (im_held m) \<and> worker_at (im_pc m) (im_done m) (im_worker m) \<and>
     (im_pc m \<noteq> Unloaded \<longrightarrow> im_run m = (im_pc m \<noteq> Joining)) \<and>
     (im_worker m = WNone \<or> im_worker m = WExited \<longrightarrow> files_closed (im_g m))"

lemma files_closed_init: "files_closed g \<Longrightarrow> files_closed (mod_init w h s b g)"
  by (auto simp: files_closed_def mod_init_def inputfs_geom_read_def inputfs_state_apply_geom_def Let_def split: option.split)

lemma files_closed_stop: "files_closed (worker_stop g)"
  by (simp add: files_closed_def worker_stop_def inputfs_state_close_file_def inputfs_events_close_file_def
      inputfs_smoothing_close_file_def inputfs_clock_close_file_def inputfs_focus_close_file_def)

lemma release_loaded:
  "fold remove1 (rev mod_bufs) (fold remove1 (rev mod_mtxs) (mod_bufs @ mod_mtxs)) = []"
  "fold remove1 (rev mod_bufs) (fold remove1 mod_mtxs (mod_bufs @ mod_mtxs)) = []"
  by (simp_all add: mod_bufs_def mod_mtxs_def)

lemma release_notify:
  "held_at Loaded rs \<Longrightarrow> remove1 NoteList (if NotifyDev \<in> set rs then remove1 NotifyDev rs else rs) = mod_bufs @ mod_mtxs"
  by (auto simp: mod_bufs_def mod_mtxs_def)

lemma module_inv_step:
  assumes "module_step m m'" "module_inv m"
  shows "module_inv m'"
  using assms
proof cases
  case (do_load geom kproc)
  obtain w h s b where g: "geom = (w, h, s, b)" by (cases geom)
  from do_load assms(2) have "im_held m = []" "im_worker m = WNone \<or> im_worker m = WExited" "files_closed (im_g m)"
    by (auto simp: module_inv_def)
  then show ?thesis using do_load files_closed_init [of "im_g m" w h s b] release_loaded(1)
    by (auto simp: g module_inv_def load_begin_def free_bufs_def release_def files_closed_def Let_def)
next
  case do_unload
  then show ?thesis using assms(2) release_notify [of "im_held m"]
    by (auto simp: module_inv_def unload_begin_def release_def Let_def)
next
  case do_free
  then show ?thesis using assms(2) release_loaded(2)
    by (auto simp: module_inv_def unload_end_def free_bufs_def release_def files_closed_def)
next
  case (worker_opens i io)
  then show ?thesis using assms(2) by (cases "im_pc m") (auto simp: module_inv_def)
next
  case worker_quits
  then show ?thesis using assms(2) by (cases "im_pc m") (auto simp: module_inv_def)
next
  case worker_exits
  then show ?thesis using assms(2) files_closed_stop by (cases "im_pc m") (auto simp: module_inv_def)
qed (auto simp: module_inv_def load_end_def)

lemma module_inv_boot: "module_inv (module_boot clock)"
  by (simp add: module_boot_def module_inv_def bss_globals_def files_closed_def)

lemma module_inv_steps: "module_step\<^sup>*\<^sup>* (module_boot clock) m \<Longrightarrow> module_inv m"
  by (induction rule: rtranclp_induct) (auto intro: module_inv_step module_inv_boot)

text \<open>From any point of an unload the worker gets to its exit, and the unload to its end.\<close>

lemma worker_finishes:
  assumes "im_pc m = Joining" "\<not> im_run m" "im_worker m = WOpen i \<or> im_worker m = WLoop \<or> im_worker m = WClose"
  shows "\<exists>m'. module_step\<^sup>*\<^sup>* m m' \<and> im_pc m' = Joining \<and> im_done m'"
proof -
  have close: "\<exists>m'. module_step\<^sup>*\<^sup>* m m' \<and> im_pc m' = Joining \<and> im_done m'" if "im_pc m = Joining" "im_worker m = WClose" for m
    using worker_exits [OF that(2)] that(1)
    by (intro exI [of _ "m\<lparr>im_g := worker_stop (im_g m), im_done := True, im_worker := WExited\<rparr>"]) auto
  have loop: "\<exists>m'. module_step\<^sup>*\<^sup>* m m' \<and> im_pc m' = Joining \<and> im_done m'" if "im_pc m = Joining" "\<not> im_run m" "im_worker m = WLoop" for m
    using worker_quits [OF that(3,2)] close [of "m\<lparr>im_worker := WClose\<rparr>"] that(1)
    by (auto intro: converse_rtranclp_into_rtranclp)
  have op: "\<exists>m'. module_step\<^sup>*\<^sup>* m m' \<and> im_pc m' = Joining \<and> im_done m'"
    if "im_pc m = Joining" "\<not> im_run m" "im_worker m = WOpen i" for m i
    using that
  proof (induction "3 - i" arbitrary: m i)
    case 0
    let ?m = "m\<lparr>im_g := worker_open undefined i (im_g m), im_worker := WLoop\<rparr>"
    have "module_step m ?m" using worker_opens [OF 0(4), of undefined] 0(1) by simp
    then show ?case using loop [of ?m] 0(2,3) by (auto intro: converse_rtranclp_into_rtranclp)
  next
    case (Suc n)
    then have i: "i < 3" "n = 3 - Suc i" by simp_all
    let ?m = "m\<lparr>im_g := worker_open undefined i (im_g m), im_worker := WOpen (Suc i)\<rparr>"
    have "module_step m ?m" using worker_opens [OF Suc(5), of undefined] i(1) by simp
    then show ?case using Suc(1) [OF i(2), of ?m] Suc(3,4) by (auto intro: converse_rtranclp_into_rtranclp)
  qed
  show ?thesis using assms close loop op by blast
qed

lemma unload_finishes:
  assumes "module_inv m" "im_pc m = Joining"
  shows "\<exists>m'. module_step\<^sup>*\<^sup>* m m' \<and> im_pc m' = Unloaded"
proof -
  have "\<exists>m'. module_step\<^sup>*\<^sup>* m m' \<and> im_pc m' = Joining \<and> im_done m'"
  proof (cases "im_done m")
    case False
    then have "im_worker m \<noteq> WNone" "im_worker m \<noteq> WExited" "\<not> im_run m" using assms by (auto simp: module_inv_def)
    then show ?thesis using worker_finishes [OF assms(2)] by (cases "im_worker m") blast+
  qed (use assms(2) in blast)
  then obtain m1 where "module_step\<^sup>*\<^sup>* m m1" "im_pc m1 = Joining" "im_done m1" by blast
  moreover from this have "module_step m1 (unload_end m1)" by (intro do_free)
  ultimately show ?thesis by (intro exI [of _ "unload_end m1"]) (auto simp: unload_end_def)
qed

section \<open>The valid byte and the events file\<close>

text \<open>A turn of the worker with nothing to write leaves the events file alone.\<close>

lemma refresh_events:
  "events_file (inputfs_focus_refresh o1 r g) = events_file g" "events_buf (inputfs_focus_refresh o1 r g) = events_buf g"
  "events_dirty (inputfs_focus_refresh o1 r g) = events_dirty g"
  "events_file (inputfs_clock_refresh o1 r g) = events_file g" "events_buf (inputfs_clock_refresh o1 r g) = events_buf g"
  "events_dirty (inputfs_clock_refresh o1 r g) = events_dirty g"
  "events_file (inputfs_smoothing_refresh o1 r g) = events_file g" "events_buf (inputfs_smoothing_refresh o1 r g) = events_buf g"
  "events_dirty (inputfs_smoothing_refresh o1 r g) = events_dirty g"
  by (cases r; simp add: inputfs_focus_refresh_def inputfs_focus_open_file_def inputfs_focus_close_file_def inputfs_clock_refresh_def
      inputfs_clock_open_file_def inputfs_clock_close_file_def inputfs_smoothing_refresh_def inputfs_smoothing_open_file_def
      inputfs_smoothing_close_file_def Let_def)+

lemma worker_turn_quiet:
  assumes "\<not> events_dirty g"
  shows "events_file (worker_turn io undisturbed g) = events_file g" "events_buf (worker_turn io undisturbed g) = events_buf g"
    "\<not> events_dirty (worker_turn io undisturbed g)"
  using assms by (simp_all add: worker_turn_def inputfs_state_sync_to_file_def refresh_events Let_def split: option.split)

lemma init_not_valid:
  "inputfs_events_init_buf (replicate INPUTFS_EVENTS_SIZE 0) ! EV_OFF_VALID = 0"
  "inputfs_put_u8 (inputfs_events_init_buf (replicate INPUTFS_EVENTS_SIZE 0)) EV_OFF_VALID 1 ! EV_OFF_VALID = 1"
  unfolding init_buf_header by (simp_all add: nth_blit put_u8_blit)

lemma mod_init_events:
  "events_buf (mod_init w h s b g) = inputfs_events_init_buf (replicate INPUTFS_EVENTS_SIZE 0)" "\<not> events_dirty (mod_init w h s b g)"
  by (simp_all add: mod_init_def inputfs_geom_read_def inputfs_state_apply_geom_def Let_def split: option.split)

text \<open>
  When the worker opens the events file before the loading thread sets the valid byte, the file is written without it, and no dirty flag makes
  the worker write it again.
\<close>

lemma valid_byte_lost:
  "\<exists>m f. module_step\<^sup>*\<^sup>* (module_boot clock) m \<and> im_pc m = Loaded \<and> im_worker m = WLoop \<and> events_buf (im_g m) ! EV_OFF_VALID = 1 \<and>
     \<not> events_dirty (im_g m) \<and> events_file (im_g m) = Some f \<and> f ! EV_OFF_VALID = 0"
proof -
  define io :: open_io where "io = \<lparr>oi_state = 0, oi_events = (0, 0), oi_focus = False, oi_clock = False\<rparr>"
  define w where "w i m = m\<lparr>im_g := worker_open io i (im_g m), im_worker := (if i < 3 then WOpen (Suc i) else WLoop)\<rparr>" for i and m :: inputfs_module
  have step: "module_step m (w i m)" if "im_worker m = WOpen i" for m i unfolding w_def using that by (rule worker_opens)
  have pc: "im_worker (w i m) = (if i < 3 then WOpen (Suc i) else WLoop)" for m i by (simp add: w_def)
  define m1 where "m1 = snd (load_begin (None, None, None, None) 0 (module_boot clock))"
  define m3 where "m3 = w 1 (w 0 m1)"
  define m4 where "m4 = load_end 0 m3"
  let ?m6 = "w 3 (w 2 m4)"
  have w1: "im_worker m1 = WOpen 0" "im_pc m1 = Starting" by (simp_all add: m1_def load_begin_def)
  have w3: "im_worker m3 = WOpen 2" "im_pc m3 = Starting" using w1(2) by (simp_all add: m3_def w_def numeral_2_eq_2)
  have w4: "im_worker m4 = WOpen 2" using w3(1) by (simp add: m4_def load_end_def)
  have "module_step (module_boot clock) m1" unfolding m1_def by (rule do_load) (simp add: module_boot_def)
  moreover have "module_step m1 (w 0 m1)" by (rule step [OF w1(1)])
  moreover have "module_step (w 0 m1) m3" unfolding m3_def by (rule step) (simp add: pc)
  moreover have "module_step m3 m4" unfolding m4_def using w3(2) by (rule do_start)
  moreover have "module_step m4 (w 2 m4)" by (rule step [OF w4])
  moreover have "module_step (w 2 m4) ?m6" by (rule step) (simp add: pc)
  ultimately have "module_step\<^sup>*\<^sup>* (module_boot clock) ?m6" by (meson rtranclp.rtrancl_into_rtrancl rtranclp.rtrancl_refl)
  moreover have "im_pc ?m6 = Loaded \<and> im_worker ?m6 = WLoop \<and>
      events_buf (im_g ?m6) = inputfs_put_u8 (inputfs_events_init_buf (replicate INPUTFS_EVENTS_SIZE 0)) EV_OFF_VALID 1 \<and>
      \<not> events_dirty (im_g ?m6) \<and> events_file (im_g ?m6) = Some (inputfs_events_init_buf (replicate INPUTFS_EVENTS_SIZE 0))"
    by (simp add: w_def io_def m4_def m3_def m1_def load_end_def mod_valid_def load_begin_def numeral_2_eq_2 numeral_3_eq_3 inputfs_focus_open_file_def inputfs_clock_open_file_def
        inputfs_state_open_file_def inputfs_events_open_file_def mod_init_events Let_def)
  ultimately obtain m where "module_step\<^sup>*\<^sup>* (module_boot clock) m" "im_pc m = Loaded" "im_worker m = WLoop" "\<not> events_dirty (im_g m)"
      "events_buf (im_g m) = inputfs_put_u8 (inputfs_events_init_buf (replicate INPUTFS_EVENTS_SIZE 0)) EV_OFF_VALID 1"
      "events_file (im_g m) = Some (inputfs_events_init_buf (replicate INPUTFS_EVENTS_SIZE 0))" by blast
  then show ?thesis using init_not_valid by (intro exI [of _ m] exI conjI) (simp_all only: not_False_eq_True)
qed

end
