(* ===== verification/Inputfs_Kbd_Switch.thy ===== *)
theory Inputfs_Kbd_Switch
  imports Inputfs_Kbdmux
begin

text \<open>
  The rest of the keyboard switch of \<^verbatim>\<open>inputfs_kbdmux.c\<close>, and the life of its keyboards: the driver's registration at boot, attach, detach, the
  deferred task, and the keyboard layer's table. What \<^verbatim>\<open>kbd_add_driver\<close>, \<^verbatim>\<open>kbd_register\<close> and \<^verbatim>\<open>kbd_unregister\<close> return are
  arguments.
\<close>

section \<open>Callbacks without effect\<close>

text \<open>The bridge has no hardware to probe, service or test and no state to save; the results are those of C, with \<open>-1\<close> for not supported.\<close>

definition inputfs_kbd_sw_probe :: "int \<Rightarrow> int \<Rightarrow> int" where
  "inputfs_kbd_sw_probe unit flags = int ENXIO"

definition inputfs_kbd_sw_init :: "int \<Rightarrow> int \<Rightarrow> int" where
  "inputfs_kbd_sw_init unit flags = int ENXIO"

definition inputfs_kbd_sw_term :: "inputfs_kbd_softc \<Rightarrow> int" where
  "inputfs_kbd_sw_term kbd = int ENXIO"

definition inputfs_kbd_sw_intr :: "inputfs_kbd_softc \<Rightarrow> int" where
  "inputfs_kbd_sw_intr kbd = 0"

definition inputfs_kbd_sw_test_if :: "inputfs_kbd_softc \<Rightarrow> int" where
  "inputfs_kbd_sw_test_if kbd = int ENODEV"

definition inputfs_kbd_sw_lock :: "inputfs_kbd_softc \<Rightarrow> int \<Rightarrow> int" where
  "inputfs_kbd_sw_lock kbd lock = 0"

definition inputfs_kbd_sw_get_state :: "inputfs_kbd_softc \<Rightarrow> nat \<Rightarrow> int" where
  "inputfs_kbd_sw_get_state kbd len = - 1"

definition inputfs_kbd_sw_set_state :: "inputfs_kbd_softc \<Rightarrow> buf \<Rightarrow> int" where
  "inputfs_kbd_sw_set_state kbd bs = - 1"

definition inputfs_kbd_sw_poll :: "inputfs_kbd_softc \<Rightarrow> bool \<Rightarrow> int" where
  "inputfs_kbd_sw_poll kbd on = 0"

section \<open>Keyboards and the keyboard layer\<close>

text \<open>
  Keyboards are numbered as they are allocated. \<open>ks_softcs\<close> are the live ones, \<open>ks_table\<close> those the keyboard layer has in its table, \<open>ks_refused\<close>
  those whose \<^verbatim>\<open>kbd_unregister\<close> returned an error, which leaves them in the table.
\<close>

record kbd_sys =
  ks_driver_added :: bool
  ks_next :: nat
  ks_softcs :: "nat \<rightharpoonup> inputfs_kbd_softc"
  ks_table :: "nat set"
  ks_refused :: "nat set"

definition kbd_boot :: kbd_sys where
  "kbd_boot = \<lparr>ks_driver_added = False, ks_next = 0, ks_softcs = Map.empty, ks_table = {}, ks_refused = {}\<rparr>"

definition inputfs_kbd_sysinit :: "errno \<Rightarrow> kbd_sys \<Rightarrow> kbd_sys" where
  "inputfs_kbd_sysinit err s = (if err = 0 then s\<lparr>ks_driver_added := True\<rparr> else s)"

definition inputfs_kbd_sysuninit :: "kbd_sys \<Rightarrow> kbd_sys" where
  "inputfs_kbd_sysuninit s = (if ks_driver_added s then s\<lparr>ks_driver_added := False\<rparr> else s)"

definition bridge_attach_sys :: "int \<Rightarrow> kbd_sys \<Rightarrow> kbd_sys" where
  "bridge_attach_sys kbd_register s =
    (case inputfs_kbd_bridge_attach kbd_register of
       None \<Rightarrow> s
     | Some sc \<Rightarrow> s\<lparr>ks_next := Suc (ks_next s), ks_softcs := (ks_softcs s)(ks_next s \<mapsto> sc), ks_table := insert (ks_next s) (ks_table s)\<rparr>)"

text \<open>A queued task is run to its end by the drain; the result of \<^verbatim>\<open>kbd_unregister\<close> is not looked at; the memory is freed.\<close>

definition inputfs_kbd_bridge_detach ::
  "errno \<Rightarrow> (inputfs_kbd_softc \<Rightarrow> inputfs_kbd_softc) option \<Rightarrow> nat \<Rightarrow> kbd_sys \<Rightarrow> kbd_sys" where
  "inputfs_kbd_bridge_detach unregister callback k s =
    (case ks_softcs s k of
       None \<Rightarrow> s
     | Some sc \<Rightarrow>
         let sc = (if sc_task_enqueued sc then inputfs_kbd_notify_task callback sc else sc);
             s = s\<lparr>ks_softcs := (ks_softcs s)(k \<mapsto> sc)\<rparr>;
             s = (if unregister = 0 then s\<lparr>ks_table := ks_table s - {k}\<rparr> else s\<lparr>ks_refused := insert k (ks_refused s)\<rparr>)
         in s\<lparr>ks_softcs := (ks_softcs s)(k := None)\<rparr>)"

text \<open>\<^verbatim>\<open>kbd_register\<close> fails when the driver has not been added.\<close>

inductive kbd_step :: "kbd_sys \<Rightarrow> kbd_sys \<Rightarrow> bool" where
  kbd_sysinit: "kbd_step s (inputfs_kbd_sysinit err s)"
| kbd_sysuninit: "kbd_step s (inputfs_kbd_sysuninit s)"
| kbd_attach: "(\<not> ks_driver_added s \<longrightarrow> reg < 0) \<Longrightarrow> kbd_step s (bridge_attach_sys reg s)"
| kbd_detach: "kbd_step s (inputfs_kbd_bridge_detach err callback k s)"
| kbd_key: "ks_softcs s k = Some sc \<Longrightarrow> kbd_step s (s\<lparr>ks_softcs := (ks_softcs s)(k \<mapsto> inputfs_kbd_intr_cb usage down sc)\<rparr>)"
| kbd_task: "ks_softcs s k = Some sc \<Longrightarrow> sc_task_enqueued sc \<Longrightarrow>
    kbd_step s (s\<lparr>ks_softcs := (ks_softcs s)(k \<mapsto> inputfs_kbd_notify_task callback sc)\<rparr>)"

definition kbd_sys_ok :: "kbd_sys \<Rightarrow> bool" where
  "kbd_sys_ok s \<longleftrightarrow> ks_table s = dom (ks_softcs s) \<union> ks_refused s \<and> dom (ks_softcs s) \<inter> ks_refused s = {} \<and>
     (\<forall>k \<in> ks_table s. k < ks_next s)"

lemma kbd_sys_ok_step:
  assumes "kbd_step s s'" "kbd_sys_ok s"
  shows "kbd_sys_ok s'"
  using assms
proof cases
  case (kbd_attach reg)
  then show ?thesis using assms(2)
    by (auto simp: kbd_sys_ok_def bridge_attach_sys_def less_Suc_eq split: option.split)
next
  case (kbd_detach err callback k)
  then show ?thesis using assms(2)
    by (auto simp: kbd_sys_ok_def inputfs_kbd_bridge_detach_def Let_def split: option.split)
qed (auto simp: kbd_sys_ok_def inputfs_kbd_sysinit_def inputfs_kbd_sysuninit_def)

lemma kbd_sys_ok_boot: "kbd_sys_ok kbd_boot"
  by (simp add: kbd_sys_ok_def kbd_boot_def)

lemma kbd_sys_ok_steps: "kbd_step\<^sup>*\<^sup>* kbd_boot s \<Longrightarrow> kbd_sys_ok s"
  by (induction rule: rtranclp_induct) (auto intro: kbd_sys_ok_step kbd_sys_ok_boot)

end
