(* ===== verification/Inputfs_Module_Properties.thy ===== *)
theory Inputfs_Module_Properties
  imports Inputfs_Module Inputfs_Kbd_Switch
begin

text \<open>The properties of the inputfs module's load, worker and unload, and of the keyboards it registers.\<close>

text \<open>
  C22. Under every interleaving of load, worker, unload and clients, no resource is held twice and, as long as the worker lives, it finds every buffer
  and every lock allocated; an unloaded module, also one whose load failed, holds nothing and has its files closed; and from
  every point of an unload the worker gets to its exit and the unload to its end.
\<close>

theorem module_lifecycle:
  assumes "module_step\<^sup>*\<^sup>* (module_boot clock) m"
  shows "distinct (im_held m) \<and>
    (im_worker m \<noteq> WNone \<and> im_worker m \<noteq> WExited \<longrightarrow> set mod_bufs \<union> set mod_mtxs \<subseteq> set (im_held m)) \<and>
    (im_pc m = Unloaded \<longrightarrow> im_held m = [] \<and> files_closed (im_g m)) \<and>
    (kproc \<noteq> 0 \<and> im_pc m = Unloaded \<longrightarrow> fst (load_begin geom kproc m) = kproc \<and>
       im_pc (snd (load_begin geom kproc m)) = Unloaded \<and> im_held (snd (load_begin geom kproc m)) = []) \<and>
    (im_pc m = Joining \<longrightarrow> (\<exists>m'. module_step\<^sup>*\<^sup>* m m' \<and> im_pc m' = Unloaded \<and> im_held m' = []))"
proof -
  have inv: "module_inv m" using assms by (rule module_inv_steps)
  have "distinct (im_held m) \<and>
      (im_worker m \<noteq> WNone \<and> im_worker m \<noteq> WExited \<longrightarrow> set mod_bufs \<union> set mod_mtxs \<subseteq> set (im_held m)) \<and>
      (im_pc m = Unloaded \<longrightarrow> im_held m = [] \<and> files_closed (im_g m))"
    using inv by (cases "im_pc m") (auto simp: module_inv_def mod_bufs_def mod_mtxs_def)
  moreover have "fst (load_begin geom kproc m) = kproc" "im_pc (snd (load_begin geom kproc m)) = Unloaded"
      "im_held (snd (load_begin geom kproc m)) = []" if "kproc \<noteq> 0" "im_pc m = Unloaded"
  proof -
    have "module_inv (snd (load_begin geom kproc m))" by (rule module_inv_step [OF do_load [OF that(2)] inv])
    moreover show *: "im_pc (snd (load_begin geom kproc m)) = Unloaded" "fst (load_begin geom kproc m) = kproc"
      using that by (simp_all add: load_begin_def free_bufs_def release_def Let_def split_beta)
    ultimately show "im_held (snd (load_begin geom kproc m)) = []" by (auto simp: module_inv_def)
  qed
  moreover have "\<exists>m'. module_step\<^sup>*\<^sup>* m m' \<and> im_pc m' = Unloaded \<and> im_held m' = []" if j: "im_pc m = Joining"
  proof -
    obtain m' where m': "module_step\<^sup>*\<^sup>* m m'" "im_pc m' = Unloaded" using unload_finishes [OF inv j] by blast
    have "module_inv m'" using assms m'(1) by (intro module_inv_steps) (rule rtranclp_trans)
    then show ?thesis using m' by (auto simp: module_inv_def)
  qed
  ultimately show ?thesis by blast
qed

theorem module_lifecycle_witness:
  "\<exists>m'. module_step\<^sup>*\<^sup>* (unload_begin (load_end 0 (snd (load_begin (None, None, None, None) 0 (module_boot (\<lambda>_. (0, 0))))))) m' \<and>
     im_pc m' = Unloaded \<and> im_held m' = []"
proof -
  define m0 m1 m2 where "m0 = module_boot (\<lambda>_. (0, 0))" and "m1 = snd (load_begin (None, None, None, None) 0 m0)"
    and "m2 = load_end 0 m1"
  have "module_step m0 m1" unfolding m1_def by (rule do_load) (simp add: m0_def module_boot_def)
  moreover have "module_step m1 m2" unfolding m2_def by (rule do_start) (simp add: m1_def load_begin_def)
  moreover have "module_step m2 (unload_begin m2)" by (rule do_unload) (simp add: m2_def load_end_def)
  ultimately have "module_step\<^sup>*\<^sup>* m0 (unload_begin m2)" by (meson rtranclp.rtrancl_into_rtrancl rtranclp.rtrancl_refl)
  from module_lifecycle [OF this [unfolded m0_def]] show ?thesis
    by (auto simp: m0_def m1_def m2_def unload_begin_def Let_def)
qed

text \<open>
  C23. When the worker opens the events file between its own creation and the store of the valid byte, the module comes up with a ring that is valid in memory and a file
  that says it is not, and however many turns the worker makes without an event to write, the file stays so.
\<close>

theorem events_valid_lost:
  "\<exists>m f. module_step\<^sup>*\<^sup>* (module_boot clock) m \<and> im_pc m = Loaded \<and> im_worker m = WLoop \<and>
     events_buf (im_g m) ! EV_OFF_VALID = 1 \<and> f ! EV_OFF_VALID = 0 \<and>
     (\<forall>ios. events_file (fold (\<lambda>io. worker_turn io undisturbed) ios (im_g m)) = Some f)"
proof -
  obtain m f where m: "module_step\<^sup>*\<^sup>* (module_boot clock) m" "im_pc m = Loaded" "im_worker m = WLoop"
      "events_buf (im_g m) ! EV_OFF_VALID = 1" "\<not> events_dirty (im_g m)" "events_file (im_g m) = Some f" "f ! EV_OFF_VALID = 0"
    using valid_byte_lost [of clock] by blast
  have "events_file (fold (\<lambda>io. worker_turn io undisturbed) ios g) = events_file g" if "\<not> events_dirty g" for ios g
    using that by (induction ios arbitrary: g) (simp_all add: worker_turn_quiet)
  then have "\<forall>ios. events_file (fold (\<lambda>io. worker_turn io undisturbed) ios (im_g m)) = Some f" using m(5,6) by simp
  with m show ?thesis by blast
qed

text \<open>
  The keyboard layer's table holds every live keyboard of the bridge, and beyond them exactly those it refused to unregister: detach frees the
  memory of a keyboard all the same.
\<close>

theorem kbd_bridge_dangling:
  assumes "kbd_step\<^sup>*\<^sup>* kbd_boot s"
  shows "dom (ks_softcs s) \<subseteq> ks_table s \<and> ks_table s - dom (ks_softcs s) = ks_refused s \<and>
    (err \<noteq> 0 \<and> k \<in> dom (ks_softcs s) \<longrightarrow> k \<in> ks_table (inputfs_kbd_bridge_detach err cb k s) \<and>
       ks_softcs (inputfs_kbd_bridge_detach err cb k s) k = None)"
  using kbd_sys_ok_steps [OF assms] by (auto simp: kbd_sys_ok_def inputfs_kbd_bridge_detach_def Let_def)

theorem kbd_bridge_dangling_witness:
  "0 \<in> ks_table (inputfs_kbd_bridge_detach EBUSY None 0 (bridge_attach_sys 0 (inputfs_kbd_sysinit 0 kbd_boot))) \<and>
   ks_softcs (inputfs_kbd_bridge_detach EBUSY None 0 (bridge_attach_sys 0 (inputfs_kbd_sysinit 0 kbd_boot))) 0 = None"
proof -
  define s where "s = inputfs_kbd_sysinit 0 kbd_boot"
  have "kbd_step kbd_boot s" unfolding s_def by (rule kbd_sysinit)
  moreover have "kbd_step s (bridge_attach_sys 0 s)" by (rule kbd_attach) (simp add: s_def inputfs_kbd_sysinit_def)
  ultimately have "kbd_step\<^sup>*\<^sup>* kbd_boot (bridge_attach_sys 0 s)" by (meson rtranclp.rtrancl_into_rtrancl rtranclp.rtrancl_refl)
  from kbd_bridge_dangling [OF this, of EBUSY 0 None] show ?thesis
    by (simp add: s_def bridge_attach_sys_def inputfs_kbd_bridge_attach_def kbd_boot_def inputfs_kbd_sysinit_def domI)
qed

end
