(* ===== verification/Audiofs_Codec.thy ===== *)
theory Audiofs_Codec
  imports Awase_Prelude
begin

text \<open>
  The codec topology of the audiofs driver (\<^verbatim>\<open>src/audiofs/sys/dev/audiofs/audiofs.c\<close>):
  widgets and codecs as the topology walk records them, the walk from an output pin back to
  its converter, the choice of the converter the output stream uses, and the rate
  negotiation helpers. Field positions in the codec's parameter words are those of the High
  Definition Audio specification the driver's macros name.
\<close>

section \<open>Widgets and codecs\<close>

record audiofs_widget =
  w_valid :: bool
  w_nid :: u16
  w_wcap :: u32
  w_type :: u32
  w_pin_cfg :: u32
  w_pin_cap :: u32
  w_nconns :: byte
  w_conns :: "u16 list"
  w_conn_overflow :: bool

record audiofs_codec =
  c_populated :: bool
  c_pending :: int
  c_response :: u32
  c_vendor_id :: u16
  c_device_id :: u16
  c_revision_id :: byte
  c_stepping_id :: byte
  c_fg_nid :: u16
  c_fg_subsystem :: u32
  c_fg_output_amp_cap :: u32
  c_fg_supp_pcm_size_rate :: u32
  c_fg_supp_stream_formats :: u32
  c_widget_start :: u16
  c_widget_total :: u16
  c_widgets :: "audiofs_widget list"

abbreviation (input) AUDIOFS_WIDGET_MAX :: nat where "AUDIOFS_WIDGET_MAX \<equiv> 128"
abbreviation (input) AUDIOFS_CODEC_MAX :: nat where "AUDIOFS_CODEC_MAX \<equiv> 16"
abbreviation (input) AUDIOFS_PATH_MAX_DEPTH :: nat where "AUDIOFS_PATH_MAX_DEPTH \<equiv> 8"
abbreviation (input) TYPE_AUDIO_OUTPUT :: u32 where "TYPE_AUDIO_OUTPUT \<equiv> 0"
abbreviation (input) TYPE_PIN_COMPLEX :: u32 where "TYPE_PIN_COMPLEX \<equiv> 4"

definition defaultconf_device :: "u32 \<Rightarrow> u32" where
  "defaultconf_device cfg = drop_bit 20 cfg AND 0xf"

definition defaultconf_connectivity :: "u32 \<Rightarrow> u32" where
  "defaultconf_connectivity cfg = drop_bit 30 cfg AND 3"

definition no_widget :: audiofs_widget where
  "no_widget = \<lparr>w_valid = False, w_nid = 0, w_wcap = 0, w_type = 0, w_pin_cfg = 0, w_pin_cap = 0, w_nconns = 0,
     w_conns = replicate 16 0, w_conn_overflow = False\<rparr>"

definition no_codec :: audiofs_codec where
  "no_codec = \<lparr>c_populated = False, c_pending = 0, c_response = 0, c_vendor_id = 0, c_device_id = 0,
     c_revision_id = 0, c_stepping_id = 0, c_fg_nid = 0, c_fg_subsystem = 0, c_fg_output_amp_cap = 0,
     c_fg_supp_pcm_size_rate = 0, c_fg_supp_stream_formats = 0, c_widget_start = 0, c_widget_total = 0, c_widgets = replicate 128 no_widget\<rparr>"

text \<open>The storage the walk leaves: the arrays have their declared sizes and the counts fit.\<close>

definition codec_ok :: "audiofs_codec \<Rightarrow> bool" where
  "codec_ok c \<longleftrightarrow> length (c_widgets c) = AUDIOFS_WIDGET_MAX \<and>
     unat (c_widget_total c) \<le> AUDIOFS_WIDGET_MAX \<and> (\<forall>w\<in>set (c_widgets c). length (w_conns w) = 16 \<and> w_nconns w \<le> 16)"

definition widget_at :: "audiofs_codec \<Rightarrow> u16 \<Rightarrow> audiofs_widget option" where
  "widget_at c nid =
     (let idx = int (unat nid) - int (unat (c_widget_start c))
      in if idx < 0 \<or> int (unat (c_widget_total c)) \<le> idx then None
         else let w = c_widgets c ! nat idx in if w_valid w then Some w else None)"

section \<open>The path from a pin to a converter\<close>

text \<open>The result is the converter, 0 when there is none, and the nodes visited.\<close>

fun path_walk :: "audiofs_codec \<Rightarrow> nat \<Rightarrow> u16 \<Rightarrow> u16 \<times> u16 list" where
  "path_walk c 0 nid = (0, [])"
| "path_walk c (Suc d) nid =
     (case widget_at c nid of
        None \<Rightarrow> (0, [])
      | Some w \<Rightarrow>
          if w_type w = TYPE_AUDIO_OUTPUT then (nid, [nid])
          else if w_nconns w = 0 then (0, [nid])
          else let (dac, path) = path_walk c d (w_conns w ! 0) in (dac, nid # path))"

definition audiofs_path_from_pin :: "audiofs_codec \<Rightarrow> u16 \<Rightarrow> u16 \<times> u16 list" where
  "audiofs_path_from_pin c pin_nid = path_walk c AUDIOFS_PATH_MAX_DEPTH pin_nid"

text \<open>A path as the connection graph has it: each node is fed first by the next one.\<close>

fun graph_path :: "audiofs_codec \<Rightarrow> u16 list \<Rightarrow> bool" where
  "graph_path c [] = False"
| "graph_path c [n] = (case widget_at c n of None \<Rightarrow> False | Some w \<Rightarrow> w_type w = TYPE_AUDIO_OUTPUT)"
| "graph_path c (n # m # p) =
     (case widget_at c n of
        None \<Rightarrow> False
      | Some w \<Rightarrow> w_type w \<noteq> TYPE_AUDIO_OUTPUT \<and> w_nconns w \<noteq> 0 \<and> w_conns w ! 0 = m \<and>
          graph_path c (m # p))"

lemma path_walk_length: "length (snd (path_walk c d n)) \<le> d"
  by (induction c d n rule: path_walk.induct) (auto simp: Let_def split: option.splits prod.splits)

lemma path_walk_sound:
  "path_walk c d n = (dac, p) \<Longrightarrow> dac \<noteq> 0 \<Longrightarrow> graph_path c p \<and> hd p = n \<and> last p = dac"
proof (induction c d n arbitrary: dac p rule: path_walk.induct)
  case (1 c nid)
  then show ?case by simp
next
  case (2 c d nid)
  from "2.prems" obtain w where w: "widget_at c nid = Some w" by (auto split: option.splits)
  show ?case
  proof (cases "w_type w = 0 \<or> w_nconns w = 0")
    case True
    then show ?thesis using "2.prems" w by (auto split: if_splits)
  next
    case False
    obtain q where q: "path_walk c d (w_conns w ! 0) = (dac, q)" and p: "p = nid # q"
      using "2.prems" w False by (auto split: prod.splits)
    have IH: "graph_path c q \<and> hd q = w_conns w ! 0 \<and> last q = dac"
      using "2.IH" [OF w] False q "2.prems"(2) by blast
    then show ?thesis using w False p by (cases q) auto
  qed
qed

lemma path_walk_complete:
  "graph_path c p \<Longrightarrow> length p \<le> d \<Longrightarrow> path_walk c d (hd p) = (last p, p)"
proof (induction c p arbitrary: d rule: graph_path.induct)
  case (2 c n)
  then show ?case by (cases d) (auto split: option.splits)
next
  case (3 c n m p)
  then obtain d' where d: "d = Suc d'" by (cases d) auto
  obtain w where w: "widget_at c n = Some w" using 3 by (auto split: option.splits)
  then have g: "w_type w \<noteq> 0" "w_nconns w \<noteq> 0" "w_conns w ! 0 = m" "graph_path c (m # p)"
    using "3.prems"(1) by auto
  have "path_walk c d' m = (last (m # p), m # p)" using "3.IH" [OF w g(4)] "3.prems"(2) d by simp
  then show ?case using w g d by simp
qed simp

section \<open>Names and kinds of endpoints\<close>

definition audiofs_pin_device_name :: "u32 \<Rightarrow> string" where
  "audiofs_pin_device_name devkind =
     (if devkind = 0 then ''Line_Out'' else if devkind = 1 then ''Speaker''
      else if devkind = 2 then ''HP_Out'' else if devkind = 3 then ''CD''
      else if devkind = 4 then ''SPDIF_Out'' else if devkind = 5 then ''Digital_Other_Out''
      else if devkind = 6 then ''Modem_Line'' else if devkind = 7 then ''Modem_Handset''
      else if devkind = 8 then ''Line_In'' else if devkind = 9 then ''AUX''
      else if devkind = 0xa then ''Mic_In'' else if devkind = 0xb then ''Telephony''
      else if devkind = 0xc then ''SPDIF_In'' else if devkind = 0xd then ''Digital_Other_In''
      else if devkind = 0xe then ''Reserved'' else if devkind = 0xf then ''Other'' else ''?'')"

definition audiofs_state_kind_from_devkind :: "u32 \<Rightarrow> bool \<Rightarrow> byte" where
  "audiofs_state_kind_from_devkind devkind is_digital =
     (if is_digital then if devkind = 4 then 8 else 6
      else if devkind = 0 then 3 else if devkind = 1 then 1 else if devkind = 2 then 2
      else if devkind = 8 then 5 else if devkind = 0xa then 4 else 0)"

section \<open>The converter of the output stream\<close>

definition devkind_priority :: "int list" where "devkind_priority = [3, 10, 5, 0, 1, 2]"

text \<open>The pins the search considers, and the converter each leads to.\<close>

definition output_candidate :: "audiofs_codec \<Rightarrow> audiofs_widget \<Rightarrow> (int \<times> u16) option" where
  "output_candidate c w =
     (let devkind = defaultconf_device (w_pin_cfg w) in
      if \<not> w_valid w \<or> w_type w \<noteq> TYPE_PIN_COMPLEX then None
      else if defaultconf_connectivity (w_pin_cfg w) = 1 then None
      else if 5 < devkind then None
      else let dac = fst (audiofs_path_from_pin c (w_nid w))
           in if dac = 0 then None else Some (devkind_priority ! unat devkind, dac))"

text \<open>The running best: its priority, and the codec address and node chosen so far.\<close>

type_synonym dac_choice = "int \<times> (nat \<times> u16) option"

definition consider_pin :: "nat \<Rightarrow> audiofs_codec \<Rightarrow> audiofs_widget \<Rightarrow> dac_choice \<Rightarrow> dac_choice" where
  "consider_pin cad c w best =
     (case output_candidate c w of
        None \<Rightarrow> best
      | Some (priority, dac) \<Rightarrow> if fst best < priority then (priority, Some (cad, dac)) else best)"

definition consider_codec :: "nat \<times> audiofs_codec \<Rightarrow> dac_choice \<Rightarrow> dac_choice" where
  "consider_codec x best =
     (let (cad, c) = x
      in if c_populated c
         then fold (consider_pin cad c) (take (unat (c_widget_total c)) (c_widgets c)) best
         else best)"

definition select_dac :: "audiofs_codec list \<Rightarrow> (nat \<times> u16) option" where
  "select_dac codecs = snd (fold consider_codec (enumerate 0 (take AUDIOFS_CODEC_MAX codecs)) (- 1, None))"

text \<open>
  The specification of the search: the candidates of the controller in the order the loops
  visit them, and the first of the highest priority.
\<close>

definition candidates :: "audiofs_codec list \<Rightarrow> (int \<times> nat \<times> u16) list" where
  "candidates codecs =
     concat (map (\<lambda>(cad, c). if c_populated c
         then List.map_filter (\<lambda>w. map_option (\<lambda>(p, dac). (p, cad, dac)) (output_candidate c w))
                (take (unat (c_widget_total c)) (c_widgets c))
         else []) (enumerate 0 (take AUDIOFS_CODEC_MAX codecs)))"

definition better :: "int \<times> nat \<times> u16 \<Rightarrow> dac_choice \<Rightarrow> dac_choice" where
  "better x best = (if fst best < fst x then (fst x, Some (snd x)) else best)"

lemma fold_consider_pin:
  "fold (consider_pin cad c) ws best =
   fold better (List.map_filter (\<lambda>w. map_option (\<lambda>(p, dac). (p, cad, dac)) (output_candidate c w)) ws) best"
  by (induction ws arbitrary: best)
    (auto simp: List.map_filter_simps consider_pin_def better_def split: option.splits)

lemma fold_consider_codec:
  "fold consider_codec xs best =
   fold better (concat (map (\<lambda>(cad, c). if c_populated c
         then List.map_filter (\<lambda>w. map_option (\<lambda>(p, dac). (p, cad, dac)) (output_candidate c w))
                (take (unat (c_widget_total c)) (c_widgets c))
         else []) xs)) best"
  by (induction xs arbitrary: best) (auto simp: consider_codec_def fold_consider_pin)

lemma select_dac_candidates: "select_dac codecs = snd (fold better (candidates codecs) (- 1, None))"
  by (simp add: select_dac_def candidates_def fold_consider_codec)

lemma fold_better:
  assumes "fold better xs (b0, s0) = (b, s)"
  shows "(b, s) = (b0, s0) \<and> (\<forall>x\<in>set xs. fst x \<le> b0) \<or>
    (\<exists>ys y zs. xs = ys @ y # zs \<and> (b, s) = (fst y, Some (snd y)) \<and> b0 < b \<and>
       (\<forall>x\<in>set ys. fst x < b) \<and> (\<forall>x\<in>set zs. fst x \<le> b))"
  using assms
proof (induction xs arbitrary: b0 s0)
  case (Cons x xs)
  show ?case
  proof (cases "b0 < fst x")
    case True
    then have "fold better xs (fst x, Some (snd x)) = (b, s)" using Cons.prems by (simp add: better_def [of x])
    from Cons.IH [OF this] show ?thesis
    proof (elim disjE exE conjE)
      assume "(b, s) = (fst x, Some (snd x))" "\<forall>y\<in>set xs. fst y \<le> fst x"
      then show ?thesis using True by (intro disjI2 exI [of _ "[]"] exI [of _ x] exI [of _ xs]) auto
    next
      fix ys y zs
      assume "xs = ys @ y # zs" "(b, s) = (fst y, Some (snd y))" "fst x < b"
        "\<forall>x\<in>set ys. fst x < b" "\<forall>x\<in>set zs. fst x \<le> b"
      then show ?thesis using True
        by (intro disjI2 exI [of _ "x # ys"] exI [of _ y] exI [of _ zs]) auto
    qed
  next
    case False
    then have "fold better xs (b0, s0) = (b, s)" using Cons.prems by (simp add: better_def [of x])
    from Cons.IH [OF this] show ?thesis
    proof (elim disjE exE conjE)
      assume "(b, s) = (b0, s0)" "\<forall>y\<in>set xs. fst y \<le> b0"
      then show ?thesis using False by auto
    next
      fix ys y zs
      assume "xs = ys @ y # zs" "(b, s) = (fst y, Some (snd y))" "b0 < b"
        "\<forall>x\<in>set ys. fst x < b" "\<forall>x\<in>set zs. fst x \<le> b"
      then show ?thesis using False
        by (intro disjI2 exI [of _ "x # ys"] exI [of _ y] exI [of _ zs]) auto
    qed
  qed
qed simp

lemma devkind_priority_nonneg: "k \<le> 5 \<Longrightarrow> 0 \<le> devkind_priority ! k"
proof -
  assume "k \<le> 5"
  then have "k \<in> {0, 1, 2, 3, 4, 5}" by auto
  then show ?thesis by (auto simp: devkind_priority_def)
qed

lemma candidate_priority: "x \<in> set (candidates codecs) \<Longrightarrow> 0 \<le> fst x"
proof -
  assume "x \<in> set (candidates codecs)"
  then obtain c w p dac where o: "output_candidate c w = Some (p, dac)" and p: "fst x = p"
    by (auto simp: candidates_def map_filter_def split: if_splits)
  let ?k = "unat (defaultconf_device (w_pin_cfg w))"
  have "?k \<le> 5" "p = devkind_priority ! ?k"
    using o by (auto simp: output_candidate_def Let_def word_less_nat_alt not_less split: if_splits)
  then show ?thesis using devkind_priority_nonneg p by simp
qed

lemma select_dac_spec:
  "select_dac codecs =
   (case [x \<leftarrow> candidates codecs. \<forall>y\<in>set (candidates codecs). fst y \<le> fst x] of
      [] \<Rightarrow> None | x # _ \<Rightarrow> Some (snd x))"
proof -
  let ?xs = "candidates codecs"
  obtain b s where f: "fold better ?xs (- 1, None) = (b, s)" by (metis surj_pair)
  have s: "select_dac codecs = s" using f by (simp add: select_dac_candidates)
  from fold_better [OF f] show ?thesis
  proof (elim disjE exE conjE)
    assume a: "(b, s) = (- 1, None)" "\<forall>x\<in>set ?xs. fst x \<le> - 1"
    have "x \<notin> set ?xs" for x using a(2) candidate_priority [of x codecs] by force
    then have "?xs = []" by (cases ?xs) auto
    then show ?thesis using a(1) s by simp
  next
    fix ys y zs
    assume a: "?xs = ys @ y # zs" "(b, s) = (fst y, Some (snd y))" "- 1 < b"
      "\<forall>x\<in>set ys. fst x < b" "\<forall>x\<in>set zs. fst x \<le> b"
    have "[x \<leftarrow> ys. \<forall>y\<in>set ?xs. fst y \<le> fst x] = []" using a by (auto simp: filter_empty_conv)
    moreover have "\<forall>x\<in>set ?xs. fst x \<le> fst y" using a by auto
    ultimately show ?thesis using a s by (simp add: a(1))
  qed
qed

section \<open>Rates\<close>

definition audiofs_rate_to_format_word :: "u32 \<Rightarrow> u16 option" where
  "audiofs_rate_to_format_word rate_hz =
     (if rate_hz = 48000 then Some 0x0011 else if rate_hz = 44100 then Some 0x4011
      else if rate_hz = 32000 then Some 0x0A11 else None)"

definition audiofs_psr_has_rate :: "u32 \<Rightarrow> u32 \<Rightarrow> bool" where
  "audiofs_psr_has_rate psr rate_hz =
     (if rate_hz = 48000 then psr AND 0x40 \<noteq> 0 else if rate_hz = 44100 then psr AND 0x20 \<noteq> 0
      else if rate_hz = 32000 then psr AND 0x10 \<noteq> 0 else False)"

definition audiofs_psr_rate_mask :: "u32 \<Rightarrow> u32" where
  "audiofs_psr_rate_mask psr =
     (if psr AND 0x10 \<noteq> 0 then 1 else 0) OR (if psr AND 0x20 \<noteq> 0 then 2 else 0) OR
     (if psr AND 0x40 \<noteq> 0 then 4 else 0)"

lemma has_rate_format: "audiofs_psr_has_rate psr r \<Longrightarrow> audiofs_rate_to_format_word r \<noteq> None"
  by (auto simp: audiofs_psr_has_rate_def audiofs_rate_to_format_word_def split: if_splits)

end
