(* ===== verification/Audiofs_Ring.thy ===== *)
theory Audiofs_Ring
  imports Awase_Prelude
begin

text \<open>
  The user ring of an audiofs stream (\<^verbatim>\<open>audiofs_cdev_write\<close> and
  \<^verbatim>\<open>audiofs_refill_user_fragment\<close> in
  \<^verbatim>\<open>src/audiofs/sys/dev/audiofs/audiofs.c\<close>): 32 KiB of bytes between free-running head
  and tail counters of type \<^verbatim>\<open>size_t\<close>. A writer plans its copy with the ring mutex held,
  copies from user space with the mutex released and then advances the head; the refill takes
  at most one fragment. The locked sections are functions, and \<open>ring_act\<close> interleaves those of
  several writer threads, of the refill and of a format change.
\<close>

section \<open>The ring\<close>

record user_ring =
  ur_bytes :: buf
  ur_head :: u64
  ur_tail :: u64

abbreviation (input) AUDIOFS_USER_RING_BYTES :: nat where "AUDIOFS_USER_RING_BYTES \<equiv> 32768"
abbreviation (input) AUDIOFS_BUF_FRAG_BYTES :: nat where "AUDIOFS_BUF_FRAG_BYTES \<equiv> 4096"

definition ring_init :: user_ring where
  "ring_init = \<lparr>ur_bytes = replicate AUDIOFS_USER_RING_BYTES 0, ur_head = 0, ur_tail = 0\<rparr>"

definition ring_space :: "user_ring \<Rightarrow> u64" where
  "ring_space r = 32768 - (ur_head r - ur_tail r)"

definition ring_index :: "u64 \<Rightarrow> u64" where "ring_index cursor = cursor AND 32767"

text \<open>The copy out of the ring: at most one fragment, in one or two spans.\<close>

definition ring_take :: "user_ring \<Rightarrow> buf \<times> user_ring" where
  "ring_take r =
     (let available = ur_head r - ur_tail r;
          copy_bytes = (if 4096 < available then 4096 else available);
          n = unat copy_bytes;
          ring_idx = unat (ring_index (ur_tail r))
      in if copy_bytes = 0 then ([], r)
         else (if ring_idx + n \<le> AUDIOFS_USER_RING_BYTES then take n (drop ring_idx (ur_bytes r))
               else let first = AUDIOFS_USER_RING_BYTES - ring_idx
                    in take first (drop ring_idx (ur_bytes r)) @ take (n - first) (ur_bytes r),
               r\<lparr>ur_tail := ur_tail r + copy_bytes\<rparr>))"

definition ring_flush :: "user_ring \<Rightarrow> user_ring" where
  "ring_flush r = r\<lparr>ur_head := ur_tail r\<rparr>"

section \<open>The writer\<close>

text \<open>
  A user buffer with the position reached and the number of its bytes that can be read
  before an address fault; \<^verbatim>\<open>uiomove\<close> of a span.
\<close>

record uio =
  uio_data :: buf
  uio_off :: nat
  uio_readable :: nat

definition uio_resid :: "uio \<Rightarrow> nat" where "uio_resid u = length (uio_data u) - uio_off u"

definition uiomove :: "buf \<Rightarrow> nat \<Rightarrow> nat \<Rightarrow> uio \<Rightarrow> errno \<times> buf \<times> uio" where
  "uiomove dst off n u =
     (if uio_off u + n \<le> uio_readable u
      then (0, blit dst off (take n (drop (uio_off u) (uio_data u))), u\<lparr>uio_off := uio_off u + n\<rparr>)
      else (EFAULT, blit dst off (take n (drop (uio_off u) (take (uio_readable u) (uio_data u)))), u))"

datatype write_pc =
    WIdle
  | WLoop bool uio
  | WCopy bool uio nat u64 "(nat \<times> nat) list"
  | WDone errno uio

text \<open>The spans of a copy of \<open>want\<close> bytes that starts at the head: offset and length.\<close>

definition write_spans :: "u64 \<Rightarrow> u64 \<Rightarrow> (nat \<times> nat) list" where
  "write_spans head want =
     (let ring_idx = ring_index head
      in if ring_idx + want \<le> 32768 then [(unat ring_idx, unat want)]
         else let first = 32768 - ring_idx
              in [(unat ring_idx, unat first), (0, unat (want - first))])"

text \<open>
  One pass of the loop with the mutex held: the return of the call, a sleep (\<open>None\<close>), or
  the plan of a copy.
\<close>

definition write_plan :: "user_ring \<Rightarrow> bool \<Rightarrow> uio \<Rightarrow> write_pc option" where
  "write_plan r ndelay u =
     (if uio_resid u < 4 then Some (WDone 0 u)
      else let space = ring_space r
           in if space < 4 then if ndelay then Some (WDone EWOULDBLOCK u) else None
              else let want = of_nat (uio_resid u);
                       want = (if space < want then space else want);
                       want = want AND NOT 3
                   in if want = 0 then Some (WDone 0 u)
                      else Some (WCopy ndelay u (uio_off u) want (write_spans (ur_head r) want)))"

text \<open>One \<^verbatim>\<open>uiomove\<close> with the mutex released, and the advance of the head.\<close>

definition write_copy :: "user_ring \<Rightarrow> bool \<Rightarrow> uio \<Rightarrow> nat \<Rightarrow> u64 \<Rightarrow> nat \<times> nat \<Rightarrow> (nat \<times> nat) list \<Rightarrow>
    user_ring \<times> write_pc" where
  "write_copy r ndelay u base want sp spans =
     (let (error, bs, u') = uiomove (ur_bytes r) (fst sp) (snd sp) u;
          r' = r\<lparr>ur_bytes := bs\<rparr>
      in if error \<noteq> 0 then (r', WDone error u') else (r', WCopy ndelay u' base want spans))"

definition write_commit :: "user_ring \<Rightarrow> bool \<Rightarrow> uio \<Rightarrow> u64 \<Rightarrow> user_ring \<times> write_pc" where
  "write_commit r ndelay u want = (r\<lparr>ur_head := ur_head r + want\<rparr>, WLoop ndelay u)"

text \<open>
  A non-blocking write that runs alone: the loop of the whole call. The loop is given as many
  turns as a call can need: a plan, two copies and a commit for every four bytes.
\<close>

definition write_step :: "user_ring \<times> write_pc \<Rightarrow> (user_ring \<times> write_pc) option" where
  "write_step s =
     (let (r, pc) = s in
      case pc of
        WLoop nd u \<Rightarrow> map_option (\<lambda>pc'. (r, pc')) (write_plan r nd u)
      | WCopy nd u base want (sp # spans) \<Rightarrow> Some (write_copy r nd u base want sp spans)
      | WCopy nd u base want [] \<Rightarrow> Some (write_commit r nd u want)
      | _ \<Rightarrow> None)"

fun write_run :: "nat \<Rightarrow> user_ring \<times> write_pc \<Rightarrow> (user_ring \<times> write_pc) option" where
  "write_run fuel (r, WDone e u) = Some (r, WDone e u)"
| "write_run 0 s = None"
| "write_run (Suc fuel) s = Option.bind (write_step s) (write_run fuel)"

definition audiofs_cdev_write :: "user_ring \<Rightarrow> uio \<Rightarrow> (user_ring \<times> write_pc) option" where
  "audiofs_cdev_write r u = write_run (4 * length (uio_data u) + 4) (r, WLoop True u)"

section \<open>Interleavings\<close>

text \<open>
  The ring with its writer threads, and two histories: the bytes whose copy was committed, in
  commit order, and the bytes the refill took.
\<close>

record ring_sys =
  rs_ring :: user_ring
  rs_pc :: "nat \<Rightarrow> write_pc"
  rs_in :: buf
  rs_out :: buf

datatype ring_action =
    Call nat bool buf nat
  | Turn nat
  | Signal nat errno
  | Refill
  | Flush

definition put_pc :: "nat \<Rightarrow> write_pc \<Rightarrow> ring_sys \<Rightarrow> ring_sys" where
  "put_pc t pc s = s\<lparr>rs_pc := (rs_pc s)(t := pc)\<rparr>"

definition committed_bytes :: "uio \<Rightarrow> nat \<Rightarrow> u64 \<Rightarrow> buf" where
  "committed_bytes u base want = take (unat want) (drop base (uio_data u))"

fun ring_act :: "ring_action \<Rightarrow> ring_sys \<Rightarrow> ring_sys option" where
  "ring_act (Call t ndelay bs readable) s =
     (case rs_pc s t of
        WIdle \<Rightarrow> Some (put_pc t (WLoop ndelay \<lparr>uio_data = bs, uio_off = 0, uio_readable = readable\<rparr>) s)
      | WDone e u \<Rightarrow> Some (put_pc t (WLoop ndelay \<lparr>uio_data = bs, uio_off = 0, uio_readable = readable\<rparr>) s)
      | _ \<Rightarrow> None)"
| "ring_act (Turn t) s =
     map_option (\<lambda>(r, pc). (case rs_pc s t of
           WCopy nd u base want [] \<Rightarrow> put_pc t pc (s\<lparr>rs_ring := r, rs_in := rs_in s @ committed_bytes u base want\<rparr>)
         | _ \<Rightarrow> put_pc t pc (s\<lparr>rs_ring := r\<rparr>)))
       (write_step (rs_ring s, rs_pc s t))"
| "ring_act (Signal t e) s =
     (case rs_pc s t of
        WLoop False u \<Rightarrow> if write_plan (rs_ring s) False u = None \<and> e \<noteq> 0
                          then Some (put_pc t (WDone e u) s) else None
      | _ \<Rightarrow> None)"
| "ring_act Refill s =
     (let (bs, r) = ring_take (rs_ring s) in Some (s\<lparr>rs_ring := r, rs_out := rs_out s @ bs\<rparr>))"
| "ring_act Flush s = Some (s\<lparr>rs_ring := ring_flush (rs_ring s)\<rparr>)"

fun ring_acts :: "ring_action list \<Rightarrow> ring_sys \<Rightarrow> ring_sys option" where
  "ring_acts [] s = Some s"
| "ring_acts (a # as) s = Option.bind (ring_act a s) (ring_acts as)"

definition ring_sys_init :: ring_sys where
  "ring_sys_init = \<lparr>rs_ring = ring_init, rs_pc = (\<lambda>_. WIdle), rs_in = [], rs_out = []\<rparr>"

section \<open>Circular buffers\<close>

text \<open>The \<open>n\<close> bytes from cursor \<open>t\<close> on of a circular buffer.\<close>

definition circ :: "buf \<Rightarrow> nat \<Rightarrow> nat \<Rightarrow> buf" where
  "circ bs t n = map (\<lambda>i. bs ! ((t + i) mod length bs)) [0..<n]"

lemma length_circ [simp]: "length (circ bs t n) = n"
  by (simp add: circ_def)

lemma nth_circ [simp]: "i < n \<Longrightarrow> circ bs t n ! i = bs ! ((t + i) mod length bs)"
  by (simp add: circ_def)

lemma circ_0 [simp]: "circ bs t 0 = []"
  by (simp add: circ_def)

lemma circ_append: "circ bs t (m + n) = circ bs t m @ circ bs (t + m) n"
  by (rule nth_equalityI) (auto simp: nth_append add.assoc)

lemma circ_cong:
  assumes "length bs = length bs'" "t mod length bs = t' mod length bs"
    and "\<And>i. i < n \<Longrightarrow> bs ! ((t + i) mod length bs) = bs' ! ((t + i) mod length bs)"
  shows "circ bs t n = circ bs' t' n"
proof (rule nth_equalityI)
  fix i assume "i < length (circ bs t n)"
  moreover have "(t' + i) mod length bs = (t + i) mod length bs" using assms(2) by (metis mod_add_left_eq)
  ultimately show "circ bs t n ! i = circ bs' t' n ! i" using assms(1) assms(3) [of i] by simp
qed simp

lemma circ_mod: "circ bs (t mod length bs) n = circ bs t n"
  by (simp add: circ_def mod_add_left_eq)

text \<open>The two spans of a copy are one circular read.\<close>

lemma circ_spans:
  assumes "n \<le> length bs" "0 < length bs"
  shows "circ bs t n =
    (let idx = t mod length bs
     in if idx + n \<le> length bs then take n (drop idx bs)
        else take (length bs - idx) (drop idx bs) @ take (n - (length bs - idx)) bs)"
proof -
  define x where "x = t mod length bs"
  have x: "x < length bs" using assms(2) by (simp add: x_def)
  let ?r = "if x + n \<le> length bs then take n (drop x bs)
        else take (length bs - x) (drop x bs) @ take (n - (length bs - x)) bs"
  have "circ bs x n ! i = ?r ! i" if i: "i < n" for i
  proof (cases "x + i < length bs")
    case True
    moreover have "i < length bs - x" using True by linarith
    ultimately show ?thesis using i x assms(1) by (simp add: nth_append)
  next
    case False
    then have "(x + i) mod length bs = (x + i - length bs) mod length bs" by (intro le_mod_geq) simp
    also have "\<dots> = x + i - length bs" using False i x assms(1) by (intro mod_less) simp
    finally have "(x + i) mod length bs = x + i - length bs" .
    moreover have "\<not> i < length bs - x" "i - (length bs - x) = x + i - length bs" "\<not> x + n \<le> length bs"
      using False i x by auto
    ultimately show ?thesis using i x assms(1) by (auto simp: nth_append)
  qed
  moreover have "length ?r = n" using assms(1) x by auto
  ultimately have "circ bs x n = ?r" by (intro nth_equalityI) auto
  then show ?thesis by (simp add: x_def circ_mod Let_def)
qed

lemma circ_blit_inside:
  assumes "t mod length bs + length src \<le> length bs" "0 < length bs"
  shows "circ (blit bs (t mod length bs) src) t (length src) = src"
proof -
  have l: "length (blit bs (t mod length bs) src) = length bs" using assms(1) by simp
  have "circ (blit bs (t mod length bs) src) (t mod length bs) (length src) = src"
    using assms by (auto intro!: nth_equalityI simp: l blit_def nth_append)
  then show ?thesis using circ_mod [of "blit bs (t mod length bs) src" t "length src"] l by simp
qed

lemma circ_blit_outside:
  assumes "t mod length bs + length src \<le> length bs" "n + length src \<le> length bs" "u + n = t"
  shows "circ (blit bs (t mod length bs) src) u n = circ bs u n"
proof -
  let ?N = "length bs" let ?x = "t mod ?N"
  have l: "length (blit bs ?x src) = ?N" using assms(1) by simp
  have "blit bs ?x src ! ((u + i) mod ?N) = bs ! ((u + i) mod ?N)" if i: "i < n" for i
  proof -
    have N: "0 < ?N" using assms(2) i by linarith
    define k where "k = n - i"
    have k: "0 < k" "k + length src \<le> ?N" "u + i + k = t" using i assms(2,3) by (auto simp: k_def)
    have "(u + i) mod ?N < ?x \<or> ?x + length src \<le> (u + i) mod ?N"
    proof -
      have "((u + i) mod ?N + k) mod ?N = ?x" using k(3) by (metis mod_add_left_eq)
      moreover have "(u + i) mod ?N < ?N" using N by simp
      ultimately show ?thesis using k(1,2) by (auto simp: mod_if [of "(u + i) mod ?N + k"] split: if_splits)
    qed
    moreover have "(u + i) mod ?N < ?N" using N by simp
    ultimately show ?thesis using assms(1) by (auto simp: blit_def nth_append)
  qed
  then show ?thesis using l by (intro circ_cong) (auto simp: l)
qed

section \<open>What the ring holds\<close>

definition ring_used :: "user_ring \<Rightarrow> nat" where "ring_used r = unat (ur_head r - ur_tail r)"

definition queued :: "user_ring \<Rightarrow> buf" where
  "queued r = circ (ur_bytes r) (unat (ur_tail r)) (ring_used r)"

text \<open>The counters stay within one ring length of each other and on frame boundaries.\<close>

definition ring_ok :: "user_ring \<Rightarrow> bool" where
  "ring_ok r \<longleftrightarrow> length (ur_bytes r) = AUDIOFS_USER_RING_BYTES \<and> ring_used r \<le> AUDIOFS_USER_RING_BYTES \<and>
     4 dvd unat (ur_head r) \<and> 4 dvd unat (ur_tail r)"

lemma length_queued [simp]: "length (queued r) = ring_used r"
  by (simp add: queued_def)

lemma ring_index_mod: "unat (ring_index w) = unat w mod 32768"
  using unat_and_mask [of w 15] by (simp add: ring_index_def mask_eq_exp_minus_1)

lemma cursor_add_mod:
  "m dvd 2 ^ 64 \<Longrightarrow> unat (a + b :: u64) mod m = (unat a + unat b) mod m"
  by (simp add: unat_word_ariths mod_mod_cancel)

lemma cursor_add_dvd:
  assumes "m dvd 2 ^ 64" "m dvd unat (a :: u64)" "m dvd unat b"
  shows "m dvd unat (a + b)"
proof -
  have "(unat a + unat b) mod m = 0" using assms(2,3) by (simp add: dvd_eq_mod_eq_0 [symmetric])
  then show ?thesis using cursor_add_mod [OF assms(1), of a b] by (simp add: dvd_eq_mod_eq_0)
qed

lemma cursor_sub_dvd:
  assumes "m dvd 2 ^ 64" "m dvd unat (a :: u64)" "m dvd unat b"
  shows "m dvd unat (a - b)"
proof -
  have "unat (a - b + b) mod m = (unat (a - b) + unat b) mod m" by (rule cursor_add_mod [OF assms(1)])
  then have "m dvd unat (a - b) + unat b" using assms(2) by (simp add: dvd_eq_mod_eq_0)
  then show ?thesis using assms(3) by (simp add: dvd_add_left_iff)
qed

lemma ring_used_dvd: "ring_ok r \<Longrightarrow> 4 dvd ring_used r"
  unfolding ring_ok_def ring_used_def by (intro cursor_sub_dvd) auto

lemma ring_space_used: "ring_ok r \<Longrightarrow> unat (ring_space r) = AUDIOFS_USER_RING_BYTES - ring_used r"
proof -
  assume "ring_ok r"
  then have "ur_head r - ur_tail r \<le> 32768"
    by (simp add: ring_ok_def ring_used_def word_le_nat_alt)
  then show ?thesis by (simp add: ring_space_def ring_used_def unat_sub_no_wrap)
qed

lemma ring_init_ok [simp]: "ring_ok ring_init" "queued ring_init = []" "ring_used ring_init = 0"
  by (simp_all add: ring_ok_def ring_init_def ring_used_def queued_def)

lemma ring_flush_ok: "ring_ok r \<Longrightarrow> ring_ok (ring_flush r) \<and> queued (ring_flush r) = []"
  by (simp add: ring_ok_def ring_flush_def ring_used_def queued_def)

text \<open>A refill takes the oldest bytes, at most one fragment, and leaves the rest.\<close>

lemma ring_take_queued:
  assumes "ring_ok r" "ring_take r = (bs, r')"
  shows "queued r = bs @ queued r'" "length bs = min AUDIOFS_BUF_FRAG_BYTES (ring_used r)" "ring_ok r'"
    "ur_head r' = ur_head r" "ur_bytes r' = ur_bytes r"
proof -
  define c where "c = (if 4096 < ur_head r - ur_tail r then 4096 else ur_head r - ur_tail r)"
  have c: "unat c = min 4096 (ring_used r)"
    by (auto simp: c_def ring_used_def word_less_nat_alt min_def)
  have r: "length (ur_bytes r) = 32768" "ring_used r \<le> 32768" "4 dvd unat (ur_head r)"
    "4 dvd unat (ur_tail r)" using assms(1) by (auto simp: ring_ok_def)
  have bs: "bs = circ (ur_bytes r) (unat (ur_tail r)) (unat c)"
    and r': "r' = r\<lparr>ur_tail := ur_tail r + c\<rparr>"
  proof -
    have n: "unat c \<le> length (ur_bytes r)" "0 < length (ur_bytes r)" using c r by auto
    have "ring_take r = (circ (ur_bytes r) (unat (ur_tail r)) (unat c), r\<lparr>ur_tail := ur_tail r + c\<rparr>)"
      unfolding ring_take_def Let_def c_def [symmetric]
      using circ_spans [OF n, of "unat (ur_tail r)"]
      by (cases "c = 0") (simp_all add: Let_def ring_index_mod r(1))
    then show "bs = circ (ur_bytes r) (unat (ur_tail r)) (unat c)" "r' = r\<lparr>ur_tail := ur_tail r + c\<rparr>"
      using assms(2) by simp_all
  qed
  have le: "c \<le> ur_head r - ur_tail r" by (auto simp: c_def)
  have used: "ring_used r' = ring_used r - unat c"
    using unat_sub_no_wrap [OF le] by (simp add: r' ring_used_def diff_diff_eq)
  have cr: "unat c \<le> ring_used r" using c by simp
  have tail: "unat (ur_tail r + c) mod 32768 = (unat (ur_tail r) + unat c) mod 32768"
    by (rule cursor_add_mod) simp
  have "circ (ur_bytes r) (unat (ur_tail r) + unat c) (ring_used r - unat c)
      = circ (ur_bytes r) (unat (ur_tail r + c)) (ring_used r - unat c)"
    by (rule circ_cong) (simp_all add: r(1) tail)
  then show "queued r = bs @ queued r'"
    using circ_append [of "ur_bytes r" "unat (ur_tail r)" "unat c" "ring_used r - unat c"] cr
    by (simp add: queued_def used bs, simp add: r')
  show "length bs = min 4096 (ring_used r)" by (simp add: bs c)
  have "4 dvd unat c" using c ring_used_dvd [OF assms(1)] by (auto simp: min_def)
  then have "4 dvd unat (ur_tail r + c)" using r(4) by (intro cursor_add_dvd) auto
  then show "ring_ok r'" using r used by (simp add: ring_ok_def r')
  show "ur_head r' = ur_head r" "ur_bytes r' = ur_bytes r" by (simp_all add: r')
qed

section \<open>A copy in progress\<close>

text \<open>The spans of a copy of \<open>n\<close> bytes at cursor \<open>t\<close>, over the unbounded counters.\<close>

definition spans_at :: "nat \<Rightarrow> nat \<Rightarrow> (nat \<times> nat) list" where
  "spans_at t n =
     (let i = t mod 32768
      in if i + n \<le> 32768 then [(i, n)] else [(i, 32768 - i), (0, n - (32768 - i))])"

lemma write_spans_at: "unat want \<le> 32768 \<Longrightarrow> write_spans head want = spans_at (unat head) (unat want)"
proof -
  assume w: "unat want \<le> 32768"
  have i: "unat (ring_index head) = unat head mod 32768" by (rule ring_index_mod)
  then have i': "unat (ring_index head) < 32768" by simp
  have a: "unat (ring_index head + want) = unat (ring_index head) + unat want"
    using w i' by (intro unat_add_no_wrap) simp
  have le: "ring_index head \<le> 32768" using i' by (simp add: word_le_nat_alt)
  have f: "unat (32768 - ring_index head) = 32768 - unat head mod 32768"
    using unat_sub_no_wrap [OF le] i by simp
  show ?thesis
  proof (cases "unat head mod 32768 + unat want \<le> 32768")
    case True
    then show ?thesis using a i by (simp add: write_spans_def spans_at_def Let_def word_le_nat_alt)
  next
    case False
    have "32768 - ring_index head \<le> want" using False f by (simp add: word_le_nat_alt)
    from unat_sub_no_wrap [OF this] False a f i show ?thesis
      by (simp add: write_spans_def spans_at_def Let_def word_le_nat_alt)
  qed
qed

definition copying :: "user_ring \<Rightarrow> uio \<Rightarrow> nat \<Rightarrow> u64 \<Rightarrow> (nat \<times> nat) list \<Rightarrow> bool" where
  "copying r u base want spans \<longleftrightarrow>
     base \<le> uio_off u \<and> uio_off u - base \<le> unat want \<and> base + unat want \<le> length (uio_data u) \<and>
     ring_used r + unat want \<le> AUDIOFS_USER_RING_BYTES \<and> 4 dvd unat want \<and>
     spans = (if uio_off u - base = unat want then []
              else spans_at (unat (ur_head r) + (uio_off u - base)) (unat want - (uio_off u - base))) \<and>
     circ (ur_bytes r) (unat (ur_head r)) (uio_off u - base)
       = take (uio_off u - base) (drop base (uio_data u))"

lemma spans_at_inside: "n \<le> 32768 \<Longrightarrow> (i, m) \<in> set (spans_at t n) \<Longrightarrow> i + m \<le> 32768"
  by (auto simp: spans_at_def Let_def split: if_splits)

text \<open>Every span of a copy in progress lies inside the ring.\<close>

lemma copying_spans_inside:
  "copying r u base want spans \<Longrightarrow> (i, n) \<in> set spans \<Longrightarrow> i + n \<le> AUDIOFS_USER_RING_BYTES"
  by (rule spans_at_inside [of "unat want - (uio_off u - base)" i n "unat (ur_head r) + (uio_off u - base)"])
    (auto simp: copying_def split: if_splits)

lemma write_plan_copying:
  assumes "ring_ok r" "uio_off u \<le> length (uio_data u)" "length (uio_data u) < 2 ^ 63"
    and "write_plan r nd u = Some (WCopy nd' u' base want spans)"
  shows "nd' = nd" "u' = u" "base = uio_off u" "copying r u base want spans"
    "unat want = min (uio_resid u) (AUDIOFS_USER_RING_BYTES - ring_used r) div 4 * 4" "0 < unat want"
proof -
  define m where "m = (if ring_space r < of_nat (uio_resid u) then ring_space r else of_nat (uio_resid u))"
  have res: "unat (of_nat (uio_resid u) :: u64) = uio_resid u"
    using assms(3) by (intro unat_of_nat_small) (simp add: uio_resid_def)
  have m: "unat m = min (uio_resid u) (32768 - ring_used r)"
    using res ring_space_used [OF assms(1)] by (simp add: m_def word_less_nat_alt min_def)
  have p: "nd' = nd" "u' = u" "base = uio_off u" "want = m AND NOT 3" "want \<noteq> 0"
    "spans = write_spans (ur_head r) want"
    using assms(4) unfolding write_plan_def Let_def m_def [symmetric] by (auto split: if_splits)
  have "unat (m AND NOT (mask 2)) = unat m div 2 ^ 2 * 2 ^ 2" by (rule unat_and_not_mask)
  then have w: "unat want = unat m div 4 * 4" by (simp add: p(4) mask_eq_exp_minus_1)
  show "nd' = nd" "u' = u" "base = uio_off u" by (rule p)+
  show "unat want = min (uio_resid u) (32768 - ring_used r) div 4 * 4" by (simp add: w m)
  show pos: "0 < unat want" using p(5) by (simp add: unat_gt_0)
  have le: "unat want \<le> uio_resid u" "unat want \<le> 32768 - ring_used r" using w m by auto
  have "ring_used r \<le> 32768" using assms(1) by (simp add: ring_ok_def)
  then have "ring_used r + unat want \<le> 32768" using le(2) by simp
  moreover have "base + unat want \<le> length (uio_data u)" using le(1) pos p(3) by (simp add: uio_resid_def)
  moreover have "4 dvd unat want" using w by simp
  ultimately show "copying r u base want spans"
    using pos p(3,6) write_spans_at [of want "ur_head r"] by (simp add: copying_def)
qed

text \<open>The head is the tail advanced by the bytes in use, around the ring.\<close>

lemma head_mod: "unat (ur_head r) mod 32768 = (unat (ur_tail r) + ring_used r) mod 32768"
  using cursor_add_mod [of 32768 "ur_tail r" "ur_head r - ur_tail r"] by (simp add: ring_used_def)

text \<open>A store at or after the head of the ring leaves the bytes in use alone.\<close>

lemma blit_keeps_queued:
  assumes "ring_ok r" "i = (unat (ur_head r) + d) mod 32768" "i + length src \<le> AUDIOFS_USER_RING_BYTES"
    and "ring_used r + d + length src \<le> AUDIOFS_USER_RING_BYTES"
  shows "queued (r\<lparr>ur_bytes := blit (ur_bytes r) i src\<rparr>) = queued r"
    "circ (blit (ur_bytes r) i src) (unat (ur_head r)) d = circ (ur_bytes r) (unat (ur_head r)) d"
    "ring_ok (r\<lparr>ur_bytes := blit (ur_bytes r) i src\<rparr>)"
proof -
  let ?t = "unat (ur_tail r)" let ?u = "ring_used r"
  have l: "length (ur_bytes r) = 32768" using assms(1) by (simp add: ring_ok_def)
  have i: "i = (?t + ?u + d) mod 32768" using assms(2) head_mod [of r] by (metis mod_add_left_eq)
  have o: "circ (blit (ur_bytes r) ((?t + (?u + d)) mod length (ur_bytes r)) src) ?t (?u + d)
      = circ (ur_bytes r) ?t (?u + d)"
    using assms(3,4) l i by (intro circ_blit_outside) (simp_all add: add.assoc)
  then have "circ (blit (ur_bytes r) i src) ?t ?u @ circ (blit (ur_bytes r) i src) (?t + ?u) d
      = circ (ur_bytes r) ?t ?u @ circ (ur_bytes r) (?t + ?u) d"
    using i l by (simp add: circ_append add.assoc)
  then have a: "circ (blit (ur_bytes r) i src) ?t ?u = circ (ur_bytes r) ?t ?u"
    "circ (blit (ur_bytes r) i src) (?t + ?u) d = circ (ur_bytes r) (?t + ?u) d" by simp_all
  have h: "circ bs (unat (ur_head r)) d = circ bs (?t + ?u) d" if "length bs = 32768" for bs
    using head_mod [of r] that by (intro circ_cong) simp_all
  show "queued (r\<lparr>ur_bytes := blit (ur_bytes r) i src\<rparr>) = queued r"
    using a(1) by (simp add: queued_def ring_used_def)
  show "circ (blit (ur_bytes r) i src) (unat (ur_head r)) d = circ (ur_bytes r) (unat (ur_head r)) d"
    using a(2) h [of "ur_bytes r"] h [of "blit (ur_bytes r) i src"] l assms(3) by simp
  show "ring_ok (r\<lparr>ur_bytes := blit (ur_bytes r) i src\<rparr>)"
    using assms(1,3) l by (simp add: ring_ok_def ring_used_def)
qed

text \<open>One span copied: the queued bytes stay, and the copy is one span further or failed.\<close>

lemma write_copy_copying:
  assumes ok: "ring_ok r" and c: "copying r u base want (sp # spans)"
    and w: "write_copy r nd u base want sp spans = (r', pc)"
  shows "ring_ok r'" "queued r' = queued r"
    "(\<exists>u'. pc = WCopy nd u' base want spans \<and> copying r' u' base want spans \<and> uio_data u' = uio_data u \<and>
        uio_readable u' = uio_readable u) \<or>
     pc = WDone EFAULT u \<and> uio_readable u < length (uio_data u)"
proof -
  define d where "d = uio_off u - base"
  define n where "n = unat want - d"
  define i where "i = (unat (ur_head r) + d) mod 32768"
  define m where "m = (if i + n \<le> 32768 then n else 32768 - i)"
  have l: "length (ur_bytes r) = 32768" using ok by (simp add: ring_ok_def)
  have b: "base \<le> uio_off u" "d \<le> unat want" "base + unat want \<le> length (uio_data u)"
    "ring_used r + unat want \<le> 32768" "4 dvd unat want" "d \<noteq> unat want"
    "circ (ur_bytes r) (unat (ur_head r)) d = take d (drop base (uio_data u))"
    and sps: "sp # spans = spans_at (unat (ur_head r) + d) n"
    using c by (auto simp: copying_def d_def n_def split: if_splits)
  have off: "uio_off u = base + d" using b(1) by (simp add: d_def)
  have i: "i < 32768" by (simp add: i_def)
  have sp: "sp = (i, m)" and rest: "spans = (if m = n then [] else [(0, n - m)])"
    using sps i by (auto simp: spans_at_def Let_def i_def [symmetric] m_def split: if_splits)
  have m: "0 < m" "m \<le> n" "i + m \<le> 32768" using b(2,6) i by (auto simp: m_def n_def)
  have dm: "d + m \<le> unat want" using m(2) b(2) by (simp add: n_def)
  have fits: "ring_used r + d + m \<le> 32768" using dm b(4) by simp
  let ?src = "if uio_off u + m \<le> uio_readable u then take m (drop (uio_off u) (uio_data u))
    else take m (drop (uio_off u) (take (uio_readable u) (uio_data u)))"
  have len: "length ?src \<le> m" by auto
  have r': "r' = r\<lparr>ur_bytes := blit (ur_bytes r) i ?src\<rparr>"
    using w by (auto simp: write_copy_def uiomove_def sp Let_def split: if_splits)
  have keep: "queued r' = queued r" "circ (ur_bytes r') (unat (ur_head r)) d = circ (ur_bytes r) (unat (ur_head r)) d"
    "ring_ok r'"
    using blit_keeps_queued [OF ok i_def, of ?src] len m(3) fits by (simp_all add: r')
  show "queued r' = queued r" "ring_ok r'" by (rule keep)+
  show "(\<exists>u'. pc = WCopy nd u' base want spans \<and> copying r' u' base want spans \<and> uio_data u' = uio_data u \<and>
        uio_readable u' = uio_readable u) \<or>
     pc = WDone EFAULT u \<and> uio_readable u < length (uio_data u)"
  proof (cases "uio_off u + m \<le> uio_readable u")
    case False
    moreover have "uio_off u + m \<le> length (uio_data u)" using dm b(3) off by simp
    ultimately show ?thesis using w by (auto simp: write_copy_def uiomove_def sp Let_def)
  next
    case True
    let ?u = "u\<lparr>uio_off := uio_off u + m\<rparr>"
    have lsrc: "length (take m (drop (uio_off u) (uio_data u))) = m"
      using dm b(1,3) by (simp add: d_def)
    have new: "circ (ur_bytes r') (unat (ur_head r) + d) m = take m (drop (uio_off u) (uio_data u))"
      using circ_blit_inside [of "unat (ur_head r) + d" "ur_bytes r" "take m (drop (uio_off u) (uio_data u))"]
        True m(3) l lsrc by (simp add: r' i_def [symmetric])
    have "circ (ur_bytes r') (unat (ur_head r)) (d + m)
        = take d (drop base (uio_data u)) @ take m (drop (base + d) (uio_data u))"
      using keep(2) new b(7) off by (simp add: circ_append)
    then have "circ (ur_bytes r') (unat (ur_head r)) (d + m) = take (d + m) (drop base (uio_data u))"
      by (simp add: take_add add.commute)
    moreover have "spans = (if d + m = unat want then []
        else spans_at (unat (ur_head r) + (d + m)) (unat want - (d + m)))"
    proof (cases "m = n")
      case True
      then show ?thesis using rest b(2) by (simp add: n_def)
    next
      case False
      then have "m = 32768 - i" by (auto simp: m_def split: if_splits)
      then have "(i + m) mod 32768 = 0" using i by simp
      then have "(unat (ur_head r) + (d + m)) mod 32768 = 0"
        by (simp add: i_def mod_add_left_eq add.assoc)
      moreover have "d + m \<noteq> unat want" "n - m = unat want - (d + m)" "n - m \<le> 32768"
        using False m(2) b(4) by (auto simp: n_def)
      ultimately show ?thesis using rest False by (simp add: spans_at_def)
    qed
    ultimately have "copying r' ?u base want spans"
      using b dm off by (simp add: copying_def r' ring_used_def)
    then show ?thesis using w True by (auto simp: write_copy_def uiomove_def sp r' Let_def)
  qed
qed

lemma write_commit_queued:
  assumes ok: "ring_ok r" and c: "copying r u base want []" and w: "write_commit r nd u want = (r', pc)"
  shows "ring_ok r'" "queued r' = queued r @ committed_bytes u base want" "pc = WLoop nd u"
    "uio_off u = base + unat want"
proof -
  let ?d = "uio_off u - base"
  have d: "?d = unat want" using c by (simp add: copying_def spans_at_def Let_def split: if_splits)
  have b: "ring_used r + unat want \<le> 32768" "4 dvd unat want" "base \<le> uio_off u"
    "circ (ur_bytes r) (unat (ur_head r)) (unat want) = take (unat want) (drop base (uio_data u))"
    using c d by (auto simp: copying_def)
  have r': "r' = r\<lparr>ur_head := ur_head r + want\<rparr>" and pc: "pc = WLoop nd u"
    using w by (auto simp: write_commit_def)
  have "ring_used r' = unat (ur_head r + want - ur_tail r)" by (simp add: r' ring_used_def)
  also have "ur_head r + want - ur_tail r = (ur_head r - ur_tail r) + want" by simp
  also have "unat ((ur_head r - ur_tail r) + want) = ring_used r + unat want"
    unfolding ring_used_def by (rule unat_add_no_wrap) (use b(1) in \<open>simp add: ring_used_def\<close>)
  finally have used: "ring_used r' = ring_used r + unat want" .
  have l: "length (ur_bytes r) = 32768" using ok by (simp add: ring_ok_def)
  have "circ (ur_bytes r) (unat (ur_head r)) (unat want)
      = circ (ur_bytes r) (unat (ur_tail r) + ring_used r) (unat want)"
    by (rule circ_cong) (simp_all add: l head_mod)
  then show "queued r' = queued r @ committed_bytes u base want"
    using b(4) by (simp add: queued_def used circ_append committed_bytes_def) (simp add: r')
  have "4 dvd unat (ur_head r + want)" using ok b(2) by (intro cursor_add_dvd) (auto simp: ring_ok_def)
  then show "ring_ok r'" using ok used b(1) by (simp add: ring_ok_def r')
  show "pc = WLoop nd u" by (rule pc)
  show "uio_off u = base + unat want" using d b(3) by simp
qed

lemma copying_refill:
  "copying r u base want spans \<Longrightarrow> ur_head r' = ur_head r \<Longrightarrow> ur_bytes r' = ur_bytes r \<Longrightarrow>
   ring_used r' \<le> ring_used r \<Longrightarrow> copying r' u base want spans"
  by (simp add: copying_def)

section \<open>One writer\<close>

text \<open>
  The invariant while a single thread writes: what was accepted is what was taken followed by
  what is queued, and the accepted bytes of the current call end the history.
\<close>

definition ends_with :: "buf \<Rightarrow> buf \<Rightarrow> bool" where
  "ends_with h bs \<longleftrightarrow> length bs \<le> length h \<and> drop (length h - length bs) h = bs"

lemma ends_with_nil [simp]: "ends_with h []"
  by (simp add: ends_with_def)

lemma ends_with_append: "ends_with h bs \<Longrightarrow> ends_with (h @ cs) (bs @ cs)"
  by (simp add: ends_with_def)

fun pc_ok :: "user_ring \<Rightarrow> buf \<Rightarrow> write_pc \<Rightarrow> bool" where
  "pc_ok r h WIdle = True"
| "pc_ok r h (WLoop nd u) = (uio_off u \<le> length (uio_data u) \<and> length (uio_data u) < 2 ^ 63 \<and>
     ends_with h (take (uio_off u) (uio_data u)))"
| "pc_ok r h (WCopy nd u base want spans) = (length (uio_data u) < 2 ^ 63 \<and>
     copying r u base want spans \<and> ends_with h (take base (uio_data u)))"
| "pc_ok r h (WDone e u) = (e \<noteq> EFAULT \<longrightarrow> ends_with h (take (uio_off u) (uio_data u)))"

definition sys_ok :: "ring_sys \<Rightarrow> bool" where
  "sys_ok s \<longleftrightarrow> ring_ok (rs_ring s) \<and> rs_in s = rs_out s @ queued (rs_ring s) \<and>
     pc_ok (rs_ring s) (rs_in s) (rs_pc s 0)"

lemma sys_ok_init [simp]: "sys_ok ring_sys_init"
  by (simp add: sys_ok_def ring_sys_init_def)

text \<open>The actions of a system with one writer thread and no format change.\<close>

fun single :: "ring_action \<Rightarrow> bool" where
  "single (Call t nd bs readable) = (t = 0 \<and> length bs < 2 ^ 63)"
| "single (Turn t) = (t = 0)"
| "single (Signal t e) = (t = 0)"
| "single Refill = True"
| "single Flush = False"

lemma sys_ok_turn:
  assumes "sys_ok s" "ring_act (Turn 0) s = Some s'"
  shows "sys_ok s'"
proof -
  have ok: "ring_ok (rs_ring s)" and eq: "rs_in s = rs_out s @ queued (rs_ring s)"
    and pc: "pc_ok (rs_ring s) (rs_in s) (rs_pc s 0)" using assms(1) by (auto simp: sys_ok_def)
  show ?thesis
  proof (cases "rs_pc s 0")
    case (WLoop nd u)
    with pc have u: "uio_off u \<le> length (uio_data u)" "length (uio_data u) < 2 ^ 63"
      "ends_with (rs_in s) (take (uio_off u) (uio_data u))" by auto
    obtain q where q: "write_plan (rs_ring s) nd u = Some q" and s': "s' = put_pc 0 q s"
      using assms(2) WLoop by (auto simp: write_step_def split: write_pc.splits)
    have "pc_ok (rs_ring s) (rs_in s) q"
    proof (cases q)
      case (WCopy nd' u' base want spans)
      from write_plan_copying [OF ok u(1,2) q [unfolded WCopy]] u WCopy show ?thesis by simp
    qed (use q u in \<open>auto simp: write_plan_def Let_def split: if_splits\<close>)
    then show ?thesis using ok eq by (simp add: s' sys_ok_def put_pc_def)
  next
    case (WCopy nd u base want spans)
    with pc have c: "copying (rs_ring s) u base want spans" "ends_with (rs_in s) (take base (uio_data u))"
      and len: "length (uio_data u) < 2 ^ 63" by auto
    show ?thesis
    proof (cases spans)
      case Nil
      obtain r' p where p: "write_commit (rs_ring s) nd u want = (r', p)" by (metis surj_pair)
      note w = write_commit_queued [OF ok c(1) [unfolded Nil] p]
      have s': "s' = put_pc 0 p (s\<lparr>rs_ring := r', rs_in := rs_in s @ committed_bytes u base want\<rparr>)"
        using assms(2) WCopy Nil p by (simp add: write_step_def)
      have "base + unat want \<le> length (uio_data u)" using c(1) by (simp add: copying_def)
      moreover have "take (base + unat want) (uio_data u) = take base (uio_data u) @ committed_bytes u base want"
        by (simp add: committed_bytes_def take_add)
      ultimately have "pc_ok r' (rs_in s @ committed_bytes u base want) p"
        using ends_with_append [OF c(2)] len w(3,4) by simp
      then show ?thesis using w eq by (simp add: s' sys_ok_def put_pc_def)
    next
      case (Cons sp rest)
      obtain r' p where p: "write_copy (rs_ring s) nd u base want sp rest = (r', p)" by (metis surj_pair)
      note w = write_copy_copying [OF ok c(1) [unfolded Cons] p]
      have s': "s' = put_pc 0 p (s\<lparr>rs_ring := r'\<rparr>)"
        using assms(2) WCopy Cons p by (simp add: write_step_def)
      from w(3) have "pc_ok r' (rs_in s) p" using c(2) len by auto
      then show ?thesis using w(1,2) eq by (simp add: s' sys_ok_def put_pc_def)
    qed
  qed (use assms(2) in \<open>simp_all add: write_step_def\<close>)
qed

lemma sys_ok_refill: "sys_ok s \<Longrightarrow> ring_act Refill s = Some s' \<Longrightarrow> sys_ok s'"
proof -
  assume a: "sys_ok s" "ring_act Refill s = Some s'"
  obtain bs r where t: "ring_take (rs_ring s) = (bs, r)" by (metis surj_pair)
  have ok: "ring_ok (rs_ring s)" using a(1) by (simp add: sys_ok_def)
  note q = ring_take_queued [OF ok t]
  have "ring_used r \<le> ring_used (rs_ring s)"
    using q(1) length_append [of bs "queued r"] by (metis length_queued le_add2)
  then have "pc_ok r (rs_in s) (rs_pc s 0)"
    using a(1) copying_refill [OF _ q(4,5)] by (cases "rs_pc s 0") (auto simp: sys_ok_def)
  then show ?thesis using a q(1,3) by (auto simp: t sys_ok_def)
qed

lemma sys_ok_act: "sys_ok s \<Longrightarrow> single a \<Longrightarrow> ring_act a s = Some s' \<Longrightarrow> sys_ok s'"
proof (cases a)
  case (Turn t)
  assume "sys_ok s" "single a" "ring_act a s = Some s'"
  then show ?thesis using sys_ok_turn Turn by auto
next
  case Refill
  assume "sys_ok s" "single a" "ring_act a s = Some s'"
  then show ?thesis using sys_ok_refill Refill by auto
qed (auto simp: sys_ok_def put_pc_def split: write_pc.splits if_splits bool.splits)

lemma sys_ok_acts: "sys_ok s \<Longrightarrow> list_all single as \<Longrightarrow> ring_acts as s = Some s' \<Longrightarrow> sys_ok s'"
  by (induction as arbitrary: s) (auto simp: bind_eq_Some_conv intro: sys_ok_act)

text \<open>A sleeping writer can go on after one refill.\<close>

lemma refill_wakes_writer:
  assumes "sys_ok s" "rs_pc s 0 = WLoop False u" "ring_act (Turn 0) s = None" "ring_act Refill s = Some s'"
  shows "ring_act (Turn 0) s' \<noteq> None"
proof -
  have ok: "ring_ok (rs_ring s)" using assms(1) by (simp add: sys_ok_def)
  obtain bs r where t: "ring_take (rs_ring s) = (bs, r)" by (metis surj_pair)
  have s': "s' = s\<lparr>rs_ring := r, rs_out := rs_out s @ bs\<rparr>" using assms(4) t by simp
  note q = ring_take_queued [OF ok t]
  have "ring_space (rs_ring s) < 4"
    using assms(2,3) by (auto simp: write_step_def write_plan_def Let_def split: if_splits)
  then have "32768 - ring_used (rs_ring s) < 4"
    using ring_space_used [OF ok] by (simp add: word_less_nat_alt)
  moreover have "ring_used (rs_ring s) = length bs + ring_used r"
    using q(1) length_append [of bs "queued r"] by (metis length_queued)
  moreover have "length bs = min 4096 (ring_used (rs_ring s))" by (rule q(2))
  moreover have "ring_used (rs_ring s) \<le> 32768" using ok by (simp add: ring_ok_def)
  ultimately have "4 \<le> unat (ring_space r)" using ring_space_used [OF q(3)] by linarith
  then have "\<not> ring_space r < 4" by (simp add: word_less_nat_alt)
  then show ?thesis using assms(2) s' by (auto simp: write_step_def write_plan_def Let_def)
qed

section \<open>A non-blocking write alone\<close>

lemma write_run_step: "write_step s = Some s' \<Longrightarrow> write_run (Suc f) s = write_run f s'"
  by (cases s; cases "snd s") (auto simp: write_step_def)

lemma write_run_copy:
  assumes "ring_ok r" "copying r u base want spans" "length (uio_data u) \<le> uio_readable u"
  shows "\<exists>r' u'. write_run (length spans + f) (r, WCopy nd u base want spans)
      = write_run f (r', WCopy nd u' base want []) \<and> ring_ok r' \<and> queued r' = queued r \<and>
      copying r' u' base want [] \<and> uio_data u' = uio_data u"
  using assms
proof (induction spans arbitrary: r u)
  case Nil
  then show ?case by (intro exI [of _ r] exI [of _ u]) simp
next
  case (Cons sp spans)
  obtain r1 p where p: "write_copy r nd u base want sp spans = (r1, p)" by (metis surj_pair)
  note w = write_copy_copying [OF Cons.prems(1,2) p]
  obtain u1 where u1: "p = WCopy nd u1 base want spans" "copying r1 u1 base want spans"
    "uio_data u1 = uio_data u" "uio_readable u1 = uio_readable u"
    using w(3) Cons.prems(3) by auto
  have "write_run (length (sp # spans) + f) (r, WCopy nd u base want (sp # spans))
      = write_run (length spans + f) (r1, WCopy nd u1 base want spans)"
    using write_run_step [of "(r, WCopy nd u base want (sp # spans))" "(r1, p)" "length spans + f"] p u1(1)
    by (simp add: write_step_def)
  with Cons.IH [OF w(1) u1(2)] Cons.prems(3) u1(3,4) w(2) show ?case by simp
qed

lemma length_spans_at: "length (spans_at t n) \<le> 2"
  by (simp add: spans_at_def Let_def)

lemma write_plan_done:
  assumes "ring_ok r" "min (uio_resid u) (AUDIOFS_USER_RING_BYTES - ring_used r) < 4"
  shows "write_plan r True u = Some (WDone (if 4 \<le> uio_resid u then EWOULDBLOCK else 0) u)"
proof (cases "uio_resid u < 4")
  case False
  then have "ring_space r < 4" using assms ring_space_used by (simp add: word_less_nat_alt)
  then show ?thesis using False by (simp add: write_plan_def Let_def)
qed (simp add: write_plan_def)

lemma write_plan_some:
  assumes "ring_ok r" "length (uio_data u) < 2 ^ 63"
    and "4 \<le> min (uio_resid u) (AUDIOFS_USER_RING_BYTES - ring_used r)"
  shows "\<exists>want spans. write_plan r nd u = Some (WCopy nd u (uio_off u) want spans)"
proof -
  let ?m = "if ring_space r < of_nat (uio_resid u) then ring_space r else of_nat (uio_resid u) :: u64"
  have "unat (of_nat (uio_resid u) :: u64) = uio_resid u"
    using assms(2) by (intro unat_of_nat_small) (simp add: uio_resid_def)
  then have m: "unat ?m = min (uio_resid u) (32768 - ring_used r)"
    using ring_space_used [OF assms(1)] by (simp add: word_less_nat_alt min_def)
  have "unat (?m AND NOT (mask 2)) = unat ?m div 2 ^ 2 * 2 ^ 2" by (rule unat_and_not_mask)
  moreover have "4 div 4 \<le> unat ?m div 4" unfolding m by (rule div_le_mono [OF assms(3)])
  ultimately have "unat (?m AND NOT 3) \<noteq> 0" by (simp add: mask_eq_exp_minus_1)
  then have "?m AND NOT 3 \<noteq> 0" by (metis unat_0)
  moreover have "\<not> ring_space r < 4"
    using assms(3) ring_space_used [OF assms(1)] by (simp add: word_less_nat_alt)
  ultimately show ?thesis using assms(3) by (simp add: write_plan_def Let_def)
qed

lemma cdev_write_plan:
  assumes "write_plan r True u = Some pc"
  shows "audiofs_cdev_write r u = write_run (4 * length (uio_data u) + 3) (r, pc)"
proof -
  have "4 * length (uio_data u) + 4 = Suc (4 * length (uio_data u) + 3)" by simp
  moreover have "write_step (r, WLoop True u) = Some (r, pc)" using assms by (simp add: write_step_def)
  ultimately show ?thesis unfolding audiofs_cdev_write_def by (simp only: write_run_step)
qed

lemma write_alone:
  assumes ok: "ring_ok r" and u: "uio_off u = 0" "length (uio_data u) < 2 ^ 63"
      "length (uio_data u) \<le> uio_readable u"
    and n: "n = min (length (uio_data u)) (AUDIOFS_USER_RING_BYTES - ring_used r) div 4 * 4"
  shows "\<exists>r' u'. audiofs_cdev_write r u =
      Some (r', WDone (if 4 \<le> length (uio_data u) - n then EWOULDBLOCK else 0) u') \<and>
      uio_off u' = n \<and> queued r' = queued r @ take n (uio_data u) \<and> ring_ok r'"
proof (cases "min (length (uio_data u)) (AUDIOFS_USER_RING_BYTES - ring_used r) < 4")
  case True
  have "uio_resid u = length (uio_data u)" using u(1) by (simp add: uio_resid_def)
  then have "write_plan r True u = Some (WDone (if 4 \<le> length (uio_data u) then EWOULDBLOCK else 0) u)"
    using write_plan_done [OF ok, of u] True by simp
  then have "audiofs_cdev_write r u = Some (r, WDone (if 4 \<le> length (uio_data u) then EWOULDBLOCK else 0) u)"
    using cdev_write_plan by simp
  then show ?thesis using True n u(1) ok by simp
next
  case False
  let ?len = "length (uio_data u)"
  have res: "uio_resid u = ?len" and off: "uio_off u \<le> ?len" using u(1) by (simp_all add: uio_resid_def)
  obtain want spans where p: "write_plan r True u = Some (WCopy True u (uio_off u) want spans)"
    using write_plan_some [OF ok u(2)] False res by fastforce
  note c = write_plan_copying [OF ok off u(2) p]
  have want: "unat want = n" using c(5) n res by simp
  have sl: "length spans \<le> 2" using c(4) length_spans_at by (simp add: copying_def split: if_splits)
  let ?f = "4 * ?len + 3 - length spans"
  obtain r1 u1 where r1: "write_run (length spans + ?f) (r, WCopy True u (uio_off u) want spans)
      = write_run ?f (r1, WCopy True u1 (uio_off u) want [])" "ring_ok r1" "queued r1 = queued r"
      "copying r1 u1 (uio_off u) want []" "uio_data u1 = uio_data u"
    using write_run_copy [OF ok c(4) u(3)] by metis
  obtain r2 q where q: "write_commit r1 True u1 want = (r2, q)" by (metis surj_pair)
  note k = write_commit_queued [OF r1(2,4) q]
  have nle: "n \<le> ?len" using n by auto
  have q2: "queued r2 = queued r @ take n (uio_data u)"
    using k(2) r1(3,5) want u(1) by (simp add: committed_bytes_def)
  then have used2: "ring_used r2 = ring_used r + n"
    using nle length_queued [of r2] by simp
  have "32768 - ring_used r2 = 32768 - ring_used r - n" using used2 by simp
  then have "min (?len - n) (32768 - ring_used r2) = min ?len (32768 - ring_used r) - n"
    by (simp only: min_diff)
  then have "min (?len - n) (32768 - ring_used r2) < 4" using n by (simp add: minus_div_mult_eq_mod)
  then have d: "write_plan r2 True u1 = Some (WDone (if 4 \<le> ?len - n then EWOULDBLOCK else 0) u1)"
    using write_plan_done [OF k(1), of u1] k(4) want u(1) r1(5) by (simp add: uio_resid_def)
  have last: "write_run (Suc (Suc g)) (r1, WCopy True u1 (uio_off u) want [])
      = Some (r2, WDone (if 4 \<le> ?len - n then EWOULDBLOCK else 0) u1)" for g
    using write_run_step [of "(r1, WCopy True u1 (uio_off u) want [])" "(r2, q)" "Suc g"]
      write_run_step [of "(r2, WLoop True u1)" _ g] q k(3) d by (simp add: write_step_def)
  have "audiofs_cdev_write r u = write_run (length spans + ?f) (r, WCopy True u (uio_off u) want spans)"
    using cdev_write_plan [OF p] sl by simp
  also have "\<dots> = Some (r2, WDone (if 4 \<le> ?len - n then EWOULDBLOCK else 0) u1)"
  proof -
    have "?f = Suc (Suc (?f - 2))" using False sl by simp
    then show ?thesis unfolding r1(1) using last by metis
  qed
  finally show ?thesis using k(1,4) q2 want u(1) by simp
qed

end
