(* ===== verification/Audiofs_State.thy ===== *)
theory Audiofs_State
  imports Audiofs_Codec Audiofs_Ring Event_Ring
begin

text \<open>
  The state audiofs keeps and publishes: the controller's record with its output stream, the
  module globals, the state region (\<^verbatim>\<open>audiofs_state.h\<close>) built from the registered
  controllers, and the event ring (\<^verbatim>\<open>audiofs_events.h\<close>). Each publication of an event also
  rewrites the state file. Outcomes of file writes come from an oracle in the globals: the
  \<open>k\<close>-th \<^verbatim>\<open>vn_rdwr\<close> succeeds when \<open>ag_io g k\<close>, and a failed write leaves the file as it was
  (\<^verbatim>\<open>IO_UNIT\<close>).
\<close>

section \<open>The controller\<close>

datatype stream_source = SRC_SINE | SRC_USER

text \<open>
  The registers of the controller and of the converter that the stream code writes; a read
  returns the value last written.
\<close>

record hda_regs =
  hr_intctl :: u32
  hr_sdctl :: u32
  hr_cbl :: u32
  hr_lvi :: u16
  hr_fmt :: u16
  hr_bdpl :: u32
  hr_bdpu :: u32
  hr_conv_fmt :: u16
  hr_conv_stream :: u16

record audiofs_bdle =
  bd_addr :: u64
  bd_len :: u32
  bd_ioc :: u32

record audiofs_softc =
  au_num_iss :: nat
  au_num_oss :: nat
  au_num_bss :: nat
  au_support_64bit :: bool
  au_pci_vendor :: u16
  au_pci_device :: u16
  au_pci_subvendor :: u16
  au_pci_subdevice :: u16
  au_codecs :: "audiofs_codec list"
  au_regs :: hda_regs
  au_bdl_paddr :: u64
  au_buf_paddr :: u64
  au_bdl :: "audiofs_bdle list"
  au_buf :: buf
  au_configured :: bool
  au_stream_idx :: nat
  au_stream_id :: u32
  au_dac_cad :: int
  au_dac_nid :: u16
  au_format_word :: u16
  au_rate_hz :: u32
  au_active :: bool
  au_last_sdsts :: byte
  au_prev_lpib :: u32
  au_next_refill :: int
  au_frames_played :: u64
  au_clock_total :: u64
  au_endpoint_slot :: u16
  au_source :: stream_source
  au_ring :: user_ring
  au_cdev_open :: bool
  au_underflow_count :: u64
  au_refill_miss :: u64
  au_refill_multi :: u64
  au_pending_xrun :: u32
  au_xrun_gap_pos :: u64
  au_xrun_coalesced :: u32
  au_xrun_enqueued :: bool

section \<open>The state region\<close>

record state_header =
  sh_magic :: u32
  sh_version :: byte
  sh_state_valid :: byte
  sh_controller_count :: byte
  sh_endpoint_count :: byte
  sh_seqlock :: u32
  sh_inventory_seq :: u32
  sh_last_event_seq :: u64
  sh_controller_slot_count :: byte
  sh_endpoint_slot_count :: byte
  sh_controller_slot_size :: byte
  sh_endpoint_slot_size :: byte

record state_controller =
  sk_controller_id :: u32
  sk_subtype :: byte
  sk_pci_vendor :: u16
  sk_pci_device :: u16
  sk_pci_subvendor :: u16
  sk_pci_subdevice :: u16
  sk_num_iss :: byte
  sk_num_oss :: byte
  sk_num_bss :: byte
  sk_support_64bit :: byte
  sk_name :: string

record state_endpoint =
  se_endpoint_id :: u32
  se_controller_idx :: byte
  se_codec_addr :: byte
  se_kind :: byte
  se_direction :: byte
  se_pin_nid :: u16
  se_converter_nid :: u16
  se_electrically_ready :: byte
  se_runtime_active :: byte
  se_current_format :: u16
  se_rate_mask :: u32
  se_bit_depth_mask :: u32
  se_channel_mask :: byte
  se_name :: string

record state_region =
  sr_header :: state_header
  sr_controllers :: "state_controller list"
  sr_endpoints :: "state_endpoint list"

definition zero_controller :: state_controller where
  "zero_controller = \<lparr>sk_controller_id = 0, sk_subtype = 0, sk_pci_vendor = 0, sk_pci_device = 0,
     sk_pci_subvendor = 0, sk_pci_subdevice = 0, sk_num_iss = 0, sk_num_oss = 0, sk_num_bss = 0,
     sk_support_64bit = 0, sk_name = ''''\<rparr>"

definition zero_endpoint :: state_endpoint where
  "zero_endpoint = \<lparr>se_endpoint_id = 0, se_controller_idx = 0, se_codec_addr = 0, se_kind = 0,
     se_direction = 0, se_pin_nid = 0, se_converter_nid = 0, se_electrically_ready = 0,
     se_runtime_active = 0, se_current_format = 0, se_rate_mask = 0, se_bit_depth_mask = 0,
     se_channel_mask = 0, se_name = ''''\<rparr>"

section \<open>The event ring\<close>

record event_slot =
  es_seq :: u64
  es_ts_ordering :: u64
  es_ts_sync :: u64
  es_endpoint_slot :: u16
  es_source_role :: byte
  es_event_type :: byte
  es_flags :: u32
  es_payload :: buf

record events_header =
  eh_magic :: u32
  eh_version :: byte
  eh_ring_valid :: byte
  eh_event_size :: u16
  eh_slot_count :: u32
  eh_writer_seq :: u64
  eh_earliest_seq :: u64

record events_region =
  er_header :: events_header
  er_slots :: "event_slot list"

abbreviation (input) AUDIOFS_EVENTS_SLOT_COUNT :: nat where "AUDIOFS_EVENTS_SLOT_COUNT \<equiv> 256"

definition zero_slot :: event_slot where
  "zero_slot = \<lparr>es_seq = 0, es_ts_ordering = 0, es_ts_sync = 0, es_endpoint_slot = 0,
     es_source_role = 0, es_event_type = 0, es_flags = 0, es_payload = replicate 32 0\<rparr>"

section \<open>Module globals\<close>

text \<open>
  The controllers by device unit, the registry (the registered units in order, at most
  eight), the open files with their contents, the clock page, the live DMA allocations, the
  number of wakeups of the notify device and the uptime.
\<close>

record audiofs_globals =
  ag_softc :: "nat \<Rightarrow> audiofs_softc"
  ag_registry :: "nat list"
  ag_initialized :: bool
  ag_state_open :: bool
  ag_state_file :: "state_region option"
  ag_inventory_seq :: u32
  ag_next_endpoint_id :: u32
  ag_events_buf :: "events_region option"
  ag_events_open :: bool
  ag_events_file :: "events_region option"
  ag_writer_seq :: u64
  ag_earliest_seq :: u64
  ag_clock_mapped :: bool
  ag_clock :: buf
  ag_test_tone :: int
  ag_dma_live :: "u64 list"
  ag_notified :: nat
  ag_now :: u64
  ag_io :: "nat \<Rightarrow> bool"
  ag_io_count :: nat

definition vn_rdwr :: "audiofs_globals \<Rightarrow> bool \<times> audiofs_globals" where
  "vn_rdwr g = (ag_io g (ag_io_count g), g\<lparr>ag_io_count := ag_io_count g + 1\<rparr>)"

section \<open>Building the state region\<close>

definition hex_digit :: "nat \<Rightarrow> char" where
  "hex_digit d = (''0123456789abcdef'') ! d"

definition hex4 :: "u16 \<Rightarrow> string" where
  "hex4 w = map (\<lambda>k. hex_digit (unat w div 16 ^ k mod 16)) [3, 2, 1, 0]"

definition audiofs_state_fill_output_endpoint ::
    "audiofs_softc \<Rightarrow> nat \<Rightarrow> audiofs_widget \<Rightarrow> byte \<Rightarrow> u32 \<Rightarrow> state_endpoint option" where
  "audiofs_state_fill_output_endpoint sc cad pin controller_idx ep_id =
     (let codec = au_codecs sc ! cad in
      if w_type pin \<noteq> TYPE_PIN_COMPLEX then None
      else let dac = fst (audiofs_path_from_pin codec (w_nid pin)) in
        if dac = 0 then None
        else let devkind = drop_bit 20 (w_pin_cfg pin) AND 0xf;
                 is_digital = (devkind = 4 \<or> devkind = 5);
                 bound = au_configured sc \<and> au_dac_cad sc = int cad \<and> au_dac_nid sc = dac;
                 psr = c_fg_supp_pcm_size_rate codec
          in Some \<lparr>se_endpoint_id = ep_id, se_controller_idx = controller_idx, se_codec_addr = of_nat cad,
               se_kind = audiofs_state_kind_from_devkind devkind is_digital, se_direction = 1,
               se_pin_nid = w_nid pin, se_converter_nid = dac, se_electrically_ready = 1,
               se_runtime_active = (if bound then 1 else 0),
               se_current_format = (if bound then au_format_word sc else 0),
               se_rate_mask = psr AND 0xffff, se_bit_depth_mask = drop_bit 16 psr AND 0xff,
               se_channel_mask = 2, se_name = take 31 (audiofs_pin_device_name devkind)\<rparr>)"

text \<open>
  The enumeration: the endpoints found so far and the next endpoint id, which the enumeration
  draws from a module global.
\<close>

definition add_widget :: "audiofs_softc \<Rightarrow> byte \<Rightarrow> nat \<Rightarrow> audiofs_widget \<Rightarrow>
    state_endpoint list \<times> u32 \<Rightarrow> state_endpoint list \<times> u32" where
  "add_widget sc idx cad w acc =
     (let (eps, next) = acc
      in if \<not> w_valid w \<or> 32 \<le> length eps then (eps, next)
         else case audiofs_state_fill_output_endpoint sc cad w idx next of
                None \<Rightarrow> (eps, next)
              | Some ep \<Rightarrow> (eps @ [ep], next + 1))"

definition add_codec :: "audiofs_softc \<Rightarrow> byte \<Rightarrow> nat \<times> audiofs_codec \<Rightarrow>
    state_endpoint list \<times> u32 \<Rightarrow> state_endpoint list \<times> u32" where
  "add_codec sc idx x acc =
     (let (cad, codec) = x
      in if \<not> c_populated codec \<or> c_fg_nid codec = 0 then acc
         else fold (add_widget sc idx cad) (take (unat (c_widget_total codec)) (c_widgets codec)) acc)"

definition add_controller :: "nat \<times> audiofs_softc \<Rightarrow>
    state_endpoint list \<times> u32 \<Rightarrow> state_endpoint list \<times> u32" where
  "add_controller x acc =
     (let (i, sc) = x
      in fold (add_codec sc (of_nat i)) (enumerate 0 (take AUDIOFS_CODEC_MAX (au_codecs sc))) acc)"

definition fill_controller :: "nat \<Rightarrow> audiofs_softc \<Rightarrow> state_controller" where
  "fill_controller i sc = \<lparr>sk_controller_id = of_nat (i + 1), sk_subtype = 1,
     sk_pci_vendor = au_pci_vendor sc, sk_pci_device = au_pci_device sc,
     sk_pci_subvendor = au_pci_subvendor sc, sk_pci_subdevice = au_pci_subdevice sc,
     sk_num_iss = of_nat (au_num_iss sc), sk_num_oss = of_nat (au_num_oss sc),
     sk_num_bss = of_nat (au_num_bss sc), sk_support_64bit = (if au_support_64bit sc then 1 else 0),
     sk_name = ''HDA '' @ hex4 (au_pci_vendor sc) @ '':'' @ hex4 (au_pci_device sc)\<rparr>"

definition empty_header :: state_header where
  "empty_header = \<lparr>sh_magic = 0x54535541, sh_version = 1, sh_state_valid = 0, sh_controller_count = 0,
     sh_endpoint_count = 0, sh_seqlock = 0, sh_inventory_seq = 0, sh_last_event_seq = 0,
     sh_controller_slot_count = 8, sh_endpoint_slot_count = 32, sh_controller_slot_size = 64,
     sh_endpoint_slot_size = 64\<rparr>"

definition audiofs_state_build_region :: "audiofs_globals \<Rightarrow> state_region \<times> audiofs_globals" where
  "audiofs_state_build_region g =
     (let scs = map (ag_softc g) (take 8 (ag_registry g));
          (eps, next) = fold add_controller (enumerate 0 scs) ([], ag_next_endpoint_id g)
      in (\<lparr>sr_header = empty_header\<lparr>sh_inventory_seq := ag_inventory_seq g,
             sh_last_event_seq := ag_writer_seq g, sh_controller_count := of_nat (length scs),
             sh_endpoint_count := of_nat (length eps)\<rparr>,
           sr_controllers = map (\<lambda>(i, sc). fill_controller i sc) (enumerate 0 scs) @
             replicate (8 - length scs) zero_controller,
           sr_endpoints = eps @ replicate (32 - length eps) zero_endpoint\<rparr>,
          g\<lparr>ag_next_endpoint_id := next\<rparr>))"

definition audiofs_state_write_region :: "state_region \<Rightarrow> audiofs_globals \<Rightarrow> audiofs_globals" where
  "audiofs_state_write_region r g =
     (if \<not> ag_state_open g then g
      else let r = r\<lparr>sr_header := (sr_header r)\<lparr>sh_seqlock := push_bit 1 (ag_inventory_seq g) OR 1\<rparr>\<rparr>;
               (ok, g) = vn_rdwr g
           in if \<not> ok then g
              else let g = g\<lparr>ag_state_file := Some r\<rparr>;
                       r = r\<lparr>sr_header := (sr_header r)\<lparr>sh_seqlock := push_bit 1 (ag_inventory_seq g),
                             sh_state_valid := 1\<rparr>\<rparr>;
                       (ok, g) = vn_rdwr g
                   in if ok then g\<lparr>ag_state_file := Some r\<rparr> else g)"

definition audiofs_state_republish :: "audiofs_globals \<Rightarrow> audiofs_globals" where
  "audiofs_state_republish g =
     (if \<not> ag_initialized g \<or> \<not> ag_state_open g then g
      else let (r, g) = audiofs_state_build_region g in audiofs_state_write_region r g)"

section \<open>Publishing events\<close>

definition audiofs_events_sync :: "audiofs_globals \<Rightarrow> audiofs_globals" where
  "audiofs_events_sync g =
     (if \<not> ag_events_open g then g
      else case ag_events_buf g of
             None \<Rightarrow> g
           | Some b \<Rightarrow> let (ok, g) = vn_rdwr g in if ok then g\<lparr>ag_events_file := Some b\<rparr> else g)"

definition pad_payload :: "buf \<Rightarrow> buf" where
  "pad_payload payload = take 32 payload @ replicate (32 - length payload) 0"

definition audiofs_events_publish :: "byte \<Rightarrow> byte \<Rightarrow> u16 \<Rightarrow> u32 \<Rightarrow> buf \<Rightarrow> audiofs_globals \<Rightarrow> audiofs_globals" where
  "audiofs_events_publish source_role event_type endpoint_slot flags payload g =
     (case ag_events_buf g of
        None \<Rightarrow> g
      | Some b \<Rightarrow>
          let new_seq = ag_writer_seq g + 1;
              idx = unat (new_seq AND 255);
              slot = \<lparr>es_seq = new_seq, es_ts_ordering = ag_now g, es_ts_sync = 0,
                es_endpoint_slot = endpoint_slot, es_source_role = source_role,
                es_event_type = event_type, es_flags = flags, es_payload = pad_payload payload\<rparr>;
              b = b\<lparr>er_slots := (er_slots b)[idx := slot],
                   er_header := (er_header b)\<lparr>eh_writer_seq := new_seq\<rparr>\<rparr>;
              g = g\<lparr>ag_events_buf := Some b, ag_writer_seq := new_seq\<rparr>;
              g = (if 256 \<le> new_seq
                   then g\<lparr>ag_earliest_seq := new_seq - 256 + 1,
                          ag_events_buf := Some (b\<lparr>er_header := (er_header b)
                            \<lparr>eh_earliest_seq := new_seq - 256 + 1\<rparr>\<rparr>)\<rparr>
                   else g);
              g = audiofs_state_republish (audiofs_events_sync g)
          in g\<lparr>ag_notified := ag_notified g + 1\<rparr>)"

definition audiofs_events_set_valid :: "audiofs_globals \<Rightarrow> audiofs_globals" where
  "audiofs_events_set_valid g =
     (case ag_events_buf g of
        None \<Rightarrow> g
      | Some b \<Rightarrow> audiofs_events_sync
          (g\<lparr>ag_events_buf := Some (b\<lparr>er_header := (er_header b)\<lparr>eh_ring_valid := 1\<rparr>\<rparr>)\<rparr>))"

definition evp_endpoint_attach :: "state_endpoint \<Rightarrow> buf" where
  "evp_endpoint_attach ep = put32 (se_endpoint_id ep) @ [se_kind ep, se_direction ep, se_controller_idx ep]"

definition emit_attach :: "byte \<Rightarrow> nat \<times> state_endpoint \<Rightarrow> audiofs_globals \<Rightarrow> audiofs_globals" where
  "emit_attach controller_idx x g =
     (if se_controller_idx (snd x) \<noteq> controller_idx then g
      else audiofs_events_publish 2 1 (of_nat (fst x)) 0 (evp_endpoint_attach (snd x)) g)"

definition audiofs_events_emit_endpoint_attaches :: "byte \<Rightarrow> audiofs_globals \<Rightarrow> audiofs_globals" where
  "audiofs_events_emit_endpoint_attaches controller_idx g =
     (if ag_events_buf g = None then g
      else let (r, g) = audiofs_state_build_region g
           in fold (emit_attach controller_idx)
                (enumerate 0 (take (unat (sh_endpoint_count (sr_header r))) (sr_endpoints r))) g)"

section \<open>Files\<close>

text \<open>Opening takes the outcome of \<^verbatim>\<open>vn_open\<close>, which truncates the file.\<close>

definition audiofs_state_open_file :: "bool \<Rightarrow> audiofs_globals \<Rightarrow> audiofs_globals" where
  "audiofs_state_open_file ok g =
     (if ok then g\<lparr>ag_state_open := True, ag_state_file := None\<rparr> else g\<lparr>ag_state_open := False\<rparr>)"

definition audiofs_state_close_file :: "audiofs_globals \<Rightarrow> audiofs_globals" where
  "audiofs_state_close_file g = g\<lparr>ag_state_open := False\<rparr>"

definition empty_events :: events_region where
  "empty_events = \<lparr>er_header = \<lparr>eh_magic = 0x41554556, eh_version = 1, eh_ring_valid = 0, eh_event_size = 64,
       eh_slot_count = 256, eh_writer_seq = 0, eh_earliest_seq = 1\<rparr>,
     er_slots = replicate AUDIOFS_EVENTS_SLOT_COUNT zero_slot\<rparr>"

definition audiofs_events_open_file :: "bool \<Rightarrow> audiofs_globals \<Rightarrow> audiofs_globals" where
  "audiofs_events_open_file ok g =
     (if \<not> ok then g\<lparr>ag_events_open := False\<rparr>
      else audiofs_events_sync (g\<lparr>ag_events_open := True, ag_events_file := None,
             ag_events_buf := Some empty_events, ag_writer_seq := 0, ag_earliest_seq := 1\<rparr>))"

definition audiofs_events_close_file :: "audiofs_globals \<Rightarrow> audiofs_globals" where
  "audiofs_events_close_file g =
     (let g = (case ag_events_buf g of
                 None \<Rightarrow> g
               | Some b \<Rightarrow> audiofs_events_sync
                   (g\<lparr>ag_events_buf := Some (b\<lparr>er_header := (er_header b)\<lparr>eh_ring_valid := 0\<rparr>\<rparr>)\<rparr>))
      in g\<lparr>ag_events_open := False, ag_events_buf := None\<rparr>)"

section \<open>The clock page\<close>

definition clock_header :: buf where
  "clock_header = put32 0x534D434B @ [1, 0, 1, 0] @ put32 0 @ put64 0"

definition audiofs_clock_open :: "bool \<Rightarrow> audiofs_globals \<Rightarrow> audiofs_globals" where
  "audiofs_clock_open ok g =
     (if ok then g\<lparr>ag_clock_mapped := True, ag_clock := clock_header\<rparr> else g)"

definition audiofs_clock_close :: "audiofs_globals \<Rightarrow> audiofs_globals" where
  "audiofs_clock_close g = g\<lparr>ag_clock_mapped := False\<rparr>"

definition audiofs_clock_stream_begin :: "u32 \<Rightarrow> audiofs_globals \<Rightarrow> audiofs_globals" where
  "audiofs_clock_stream_begin sample_rate g =
     (if \<not> ag_clock_mapped g then g
      else let p = blit (ag_clock g) 8 (put32 sample_rate); p = p[6 := 1]; p = p[5 := 1]
           in g\<lparr>ag_clock := p\<rparr>)"

definition audiofs_clock_update :: "audiofs_softc \<Rightarrow> audiofs_globals \<Rightarrow> audiofs_globals" where
  "audiofs_clock_update sc g =
     (if \<not> ag_clock_mapped g then g else g\<lparr>ag_clock := blit (ag_clock g) 12 (put64 (au_clock_total sc))\<rparr>)"

section \<open>The registry\<close>

text \<open>Registering takes the outcomes of opening the three files, used by the first controller.\<close>

definition audiofs_state_register :: "nat \<Rightarrow> bool \<times> bool \<times> bool \<Rightarrow> audiofs_globals \<Rightarrow> audiofs_globals" where
  "audiofs_state_register u opens g =
     (let g = (if ag_initialized g then g
               else (audiofs_clock_open (snd (snd opens))
                      (audiofs_events_open_file (fst (snd opens))
                        (audiofs_state_open_file (fst opens) g)))\<lparr>ag_initialized := True\<rparr>);
          (idx, g) = (if length (ag_registry g) < 8
                      then (of_nat (length (ag_registry g)),
                            g\<lparr>ag_registry := ag_registry g @ [u], ag_inventory_seq := ag_inventory_seq g + 1\<rparr>)
                      else (0xff, g));
          g = audiofs_state_republish g;
          g = (if idx \<noteq> 0xff then audiofs_events_emit_endpoint_attaches idx g else g)
      in audiofs_events_set_valid g)"

definition audiofs_state_unregister :: "nat \<Rightarrow> audiofs_globals \<Rightarrow> audiofs_globals" where
  "audiofs_state_unregister u g =
     audiofs_state_republish
       (if u \<in> set (ag_registry g)
        then g\<lparr>ag_registry := remove1 u (ag_registry g), ag_inventory_seq := ag_inventory_seq g + 1\<rparr>
        else g)"

definition modevent_unload :: "audiofs_globals \<Rightarrow> audiofs_globals" where
  "modevent_unload g =
     (let g = (if ag_state_open g
               then let (ok, g) = vn_rdwr g;
                        g = (if ok then g\<lparr>ag_state_file := Some \<lparr>sr_header = empty_header,
                               sr_controllers = replicate 8 zero_controller,
                               sr_endpoints = replicate 32 zero_endpoint\<rparr>\<rparr> else g)
                    in audiofs_state_close_file g
               else g)
      in (audiofs_clock_close (audiofs_events_close_file g))\<lparr>ag_initialized := False\<rparr>)"

end
