(* ===== verification/Audiofs_Events.thy ===== *)
theory Audiofs_Events
  imports Audiofs_State
begin

text \<open>
  What the publications of audiofs guarantee: the event ring is a bounded window onto the log
  of the published events (an instance of \<open>event_ring\<close>, with a window of 256), and after a
  publication whose file writes succeed the state file names the last event of the events
  file.
\<close>

section \<open>What publication leaves alone\<close>

lemma write_region_simps [simp, frame_simps]:
  "ag_softc (audiofs_state_write_region r g) = ag_softc g"
  "ag_registry (audiofs_state_write_region r g) = ag_registry g"
  "ag_initialized (audiofs_state_write_region r g) = ag_initialized g"
  "ag_state_open (audiofs_state_write_region r g) = ag_state_open g"
  "ag_inventory_seq (audiofs_state_write_region r g) = ag_inventory_seq g"
  "ag_next_endpoint_id (audiofs_state_write_region r g) = ag_next_endpoint_id g"
  "ag_events_buf (audiofs_state_write_region r g) = ag_events_buf g"
  "ag_events_open (audiofs_state_write_region r g) = ag_events_open g"
  "ag_events_file (audiofs_state_write_region r g) = ag_events_file g"
  "ag_writer_seq (audiofs_state_write_region r g) = ag_writer_seq g"
  "ag_earliest_seq (audiofs_state_write_region r g) = ag_earliest_seq g"
  "ag_clock_mapped (audiofs_state_write_region r g) = ag_clock_mapped g"
  "ag_clock (audiofs_state_write_region r g) = ag_clock g"
  "ag_test_tone (audiofs_state_write_region r g) = ag_test_tone g"
  "ag_dma_live (audiofs_state_write_region r g) = ag_dma_live g"
  "ag_notified (audiofs_state_write_region r g) = ag_notified g"
  "ag_now (audiofs_state_write_region r g) = ag_now g"
  "ag_io (audiofs_state_write_region r g) = ag_io g"
  by (simp_all add: audiofs_state_write_region_def vn_rdwr_def Let_def)

lemma build_region_simps [simp, frame_simps]:
  "ag_softc (snd (audiofs_state_build_region g)) = ag_softc g"
  "ag_registry (snd (audiofs_state_build_region g)) = ag_registry g"
  "ag_initialized (snd (audiofs_state_build_region g)) = ag_initialized g"
  "ag_state_open (snd (audiofs_state_build_region g)) = ag_state_open g"
  "ag_state_file (snd (audiofs_state_build_region g)) = ag_state_file g"
  "ag_inventory_seq (snd (audiofs_state_build_region g)) = ag_inventory_seq g"
  "ag_events_buf (snd (audiofs_state_build_region g)) = ag_events_buf g"
  "ag_events_open (snd (audiofs_state_build_region g)) = ag_events_open g"
  "ag_events_file (snd (audiofs_state_build_region g)) = ag_events_file g"
  "ag_writer_seq (snd (audiofs_state_build_region g)) = ag_writer_seq g"
  "ag_earliest_seq (snd (audiofs_state_build_region g)) = ag_earliest_seq g"
  "ag_clock_mapped (snd (audiofs_state_build_region g)) = ag_clock_mapped g"
  "ag_clock (snd (audiofs_state_build_region g)) = ag_clock g"
  "ag_test_tone (snd (audiofs_state_build_region g)) = ag_test_tone g"
  "ag_dma_live (snd (audiofs_state_build_region g)) = ag_dma_live g"
  "ag_notified (snd (audiofs_state_build_region g)) = ag_notified g"
  "ag_now (snd (audiofs_state_build_region g)) = ag_now g"
  "ag_io (snd (audiofs_state_build_region g)) = ag_io g"
  "ag_io_count (snd (audiofs_state_build_region g)) = ag_io_count g"
  by (simp_all add: audiofs_state_build_region_def Let_def split_beta)

lemma republish_simps [simp, frame_simps]:
  "ag_softc (audiofs_state_republish g) = ag_softc g"
  "ag_registry (audiofs_state_republish g) = ag_registry g"
  "ag_initialized (audiofs_state_republish g) = ag_initialized g"
  "ag_state_open (audiofs_state_republish g) = ag_state_open g"
  "ag_inventory_seq (audiofs_state_republish g) = ag_inventory_seq g"
  "ag_events_buf (audiofs_state_republish g) = ag_events_buf g"
  "ag_events_open (audiofs_state_republish g) = ag_events_open g"
  "ag_events_file (audiofs_state_republish g) = ag_events_file g"
  "ag_writer_seq (audiofs_state_republish g) = ag_writer_seq g"
  "ag_earliest_seq (audiofs_state_republish g) = ag_earliest_seq g"
  "ag_clock_mapped (audiofs_state_republish g) = ag_clock_mapped g"
  "ag_clock (audiofs_state_republish g) = ag_clock g"
  "ag_test_tone (audiofs_state_republish g) = ag_test_tone g"
  "ag_dma_live (audiofs_state_republish g) = ag_dma_live g"
  "ag_notified (audiofs_state_republish g) = ag_notified g"
  "ag_now (audiofs_state_republish g) = ag_now g"
  "ag_io (audiofs_state_republish g) = ag_io g"
  by (simp_all add: audiofs_state_republish_def split_beta)

lemma sync_simps [simp, frame_simps]:
  "ag_softc (audiofs_events_sync g) = ag_softc g"
  "ag_registry (audiofs_events_sync g) = ag_registry g"
  "ag_initialized (audiofs_events_sync g) = ag_initialized g"
  "ag_state_open (audiofs_events_sync g) = ag_state_open g"
  "ag_state_file (audiofs_events_sync g) = ag_state_file g"
  "ag_inventory_seq (audiofs_events_sync g) = ag_inventory_seq g"
  "ag_next_endpoint_id (audiofs_events_sync g) = ag_next_endpoint_id g"
  "ag_events_buf (audiofs_events_sync g) = ag_events_buf g"
  "ag_events_open (audiofs_events_sync g) = ag_events_open g"
  "ag_writer_seq (audiofs_events_sync g) = ag_writer_seq g"
  "ag_earliest_seq (audiofs_events_sync g) = ag_earliest_seq g"
  "ag_clock_mapped (audiofs_events_sync g) = ag_clock_mapped g"
  "ag_clock (audiofs_events_sync g) = ag_clock g"
  "ag_test_tone (audiofs_events_sync g) = ag_test_tone g"
  "ag_dma_live (audiofs_events_sync g) = ag_dma_live g"
  "ag_notified (audiofs_events_sync g) = ag_notified g"
  "ag_now (audiofs_events_sync g) = ag_now g"
  "ag_io (audiofs_events_sync g) = ag_io g"
  by (simp_all add: audiofs_events_sync_def vn_rdwr_def split: option.split)

text \<open>A publication leaves the controllers, the registry, the clock and the mode alone.\<close>

lemma publish_simps [simp, frame_simps]:
  "ag_softc (audiofs_events_publish a b c d e g) = ag_softc g"
  "ag_registry (audiofs_events_publish a b c d e g) = ag_registry g"
  "ag_clock_mapped (audiofs_events_publish a b c d e g) = ag_clock_mapped g"
  "ag_clock (audiofs_events_publish a b c d e g) = ag_clock g"
  "ag_test_tone (audiofs_events_publish a b c d e g) = ag_test_tone g"
  "ag_dma_live (audiofs_events_publish a b c d e g) = ag_dma_live g"
  "ag_initialized (audiofs_events_publish a b c d e g) = ag_initialized g"
  "ag_state_open (audiofs_events_publish a b c d e g) = ag_state_open g"
  "ag_events_open (audiofs_events_publish a b c d e g) = ag_events_open g"
  "ag_inventory_seq (audiofs_events_publish a b c d e g) = ag_inventory_seq g"
  "ag_now (audiofs_events_publish a b c d e g) = ag_now g"
  "ag_io (audiofs_events_publish a b c d e g) = ag_io g"
  "ag_events_buf (audiofs_events_publish a b c d e g) = None \<longleftrightarrow> ag_events_buf g = None"
  by (simp_all add: audiofs_events_publish_def Let_def split: option.split)

section \<open>The ring as a log\<close>

definition audio_ring_ok :: "audiofs_globals \<Rightarrow> event_slot list \<Rightarrow> bool" where
  "audio_ring_ok g h \<longleftrightarrow> length h < 2 ^ 64 \<and> ag_writer_seq g = of_nat (length h) \<and>
     (case ag_events_buf g of
        None \<Rightarrow> False
      | Some b \<Rightarrow> length (er_slots b) = AUDIOFS_EVENTS_SLOT_COUNT \<and>
          eh_writer_seq (er_header b) = of_nat (length h) \<and>
          eh_earliest_seq (er_header b) = of_nat (max 1 (length h + 1 - AUDIOFS_EVENTS_SLOT_COUNT)) \<and>
          (\<forall>q<AUDIOFS_EVENTS_SLOT_COUNT.
             es_seq (er_slots b ! q) = of_nat (slot_owner 256 (length h) q) \<and>
             (slot_owner 256 (length h) q \<noteq> 0 \<longrightarrow> er_slots b ! q = h ! (slot_owner 256 (length h) q - 1))))"

type_synonym audio_event_args = "byte \<times> byte \<times> u16 \<times> u32 \<times> buf"

definition publish_event :: "audio_event_args \<Rightarrow> audiofs_globals \<Rightarrow> audiofs_globals" where
  "publish_event a g = (case a of (role, ty, slot, flags, payload) \<Rightarrow>
     audiofs_events_publish role ty slot flags payload g)"

definition event_of :: "audio_event_args \<Rightarrow> audiofs_globals \<Rightarrow> event_slot" where
  "event_of a g = (case a of (role, ty, slot, flags, payload) \<Rightarrow>
     \<lparr>es_seq = ag_writer_seq g + 1, es_ts_ordering = ag_now g, es_ts_sync = 0,
      es_endpoint_slot = slot, es_source_role = role, es_event_type = ty, es_flags = flags,
      es_payload = pad_payload payload\<rparr>)"

text \<open>A reader takes the slot of a sequence number when the slot carries that number.\<close>

definition read_audio_event :: "audiofs_globals \<Rightarrow> nat \<Rightarrow> event_slot option" where
  "read_audio_event g s =
     (case ag_events_buf g of
        None \<Rightarrow> None
      | Some b \<Rightarrow> let sl = er_slots b ! (s mod 256) in if unat (es_seq sl) = s then Some sl else None)"

definition ring_header :: "audiofs_globals \<Rightarrow> events_header" where
  "ring_header g = (case ag_events_buf g of None \<Rightarrow> er_header empty_events | Some b \<Rightarrow> er_header b)"

lemma audio_slot_index: "unat (w AND 255 :: u64) = unat w mod 256"
  using unat_and_mask [of w 8] by (simp add: mask_eq_exp_minus_1)

lemma publish_event_buf:
  assumes "ag_events_buf g = Some b"
  shows "ag_events_buf (publish_event a g) =
      Some (b\<lparr>er_slots := (er_slots b)[unat (ag_writer_seq g + 1) mod 256 := event_of a g],
              er_header := (er_header b)\<lparr>eh_writer_seq := ag_writer_seq g + 1,
                eh_earliest_seq := (if 256 \<le> ag_writer_seq g + 1 then ag_writer_seq g + 1 - 256 + 1
                                    else eh_earliest_seq (er_header b))\<rparr>\<rparr>)"
    "ag_writer_seq (publish_event a g) = ag_writer_seq g + 1"
  using assms
  by (simp_all add: publish_event_def event_of_def audiofs_events_publish_def audio_slot_index Let_def
      split: prod.split)

lemma audio_ring_ok_publish:
  assumes "audio_ring_ok g h" "length h + 1 < 2 ^ 64"
  shows "audio_ring_ok (publish_event a g) (h @ [event_of a g])"
proof -
  let ?n = "length h"
  obtain b where b: "ag_events_buf g = Some b" "length (er_slots b) = 256"
    "eh_earliest_seq (er_header b) = of_nat (max 1 (?n + 1 - 256))"
    "\<And>q. q < 256 \<Longrightarrow> es_seq (er_slots b ! q) = of_nat (slot_owner 256 ?n q)"
    "\<And>q. q < 256 \<Longrightarrow> slot_owner 256 ?n q \<noteq> 0 \<Longrightarrow> er_slots b ! q = h ! (slot_owner 256 ?n q - 1)"
    and w: "ag_writer_seq g = of_nat ?n"
    using assms(1) by (auto simp: audio_ring_ok_def split: option.splits)
  have new: "ag_writer_seq g + 1 = of_nat (Suc ?n)" by (simp add: w)
  have un: "unat (of_nat (Suc ?n) :: u64) = Suc ?n" by (rule unat_of_nat_small) (use assms(2) in simp)
  define slots where "slots = (er_slots b)[Suc ?n mod 256 := event_of a g]"
  have buf: "ag_events_buf (publish_event a g) = Some (b\<lparr>er_slots := slots,
      er_header := (er_header b)\<lparr>eh_writer_seq := of_nat (Suc ?n),
        eh_earliest_seq := (if 256 \<le> (of_nat (Suc ?n) :: u64) then of_nat (Suc ?n) - 256 + 1
                            else eh_earliest_seq (er_header b))\<rparr>\<rparr>)"
    unfolding publish_event_buf(1) [OF b(1)] new un slots_def ..
  have early: "(if 256 \<le> (of_nat (Suc ?n) :: u64) then of_nat (Suc ?n) - 256 + 1
      else eh_earliest_seq (er_header b)) = of_nat (max 1 (Suc ?n + 1 - 256))"
  proof (cases "256 \<le> Suc ?n")
    case True
    then have "(256 :: u64) \<le> of_nat (Suc ?n)" using un by (simp add: word_le_nat_alt del: of_nat_Suc)
    moreover have "(of_nat (Suc ?n) :: u64) - 256 + 1 = of_nat (Suc ?n - 256 + 1)"
      using True by (simp only: of_nat_add of_nat_diff of_nat_numeral of_nat_1)
    moreover have "max 1 (Suc ?n + 1 - 256) = Suc ?n - 256 + 1" using True by simp
    ultimately show ?thesis by (simp only: if_True)
  next
    case False
    then have "\<not> (256 :: u64) \<le> of_nat (Suc ?n)" using un by (simp add: word_le_nat_alt del: of_nat_Suc)
    then show ?thesis using b(3) False by simp
  qed
  have slot: "es_seq (slots ! q) = of_nat (slot_owner 256 (Suc ?n) q) \<and>
      (slot_owner 256 (Suc ?n) q \<noteq> 0 \<longrightarrow> slots ! q = (h @ [event_of a g]) ! (slot_owner 256 (Suc ?n) q - 1))"
    if q: "q < 256" for q
  proof (cases "q = Suc ?n mod 256")
    case True
    then have "slots ! q = event_of a g" using b(2) by (simp add: slots_def)
    moreover have "es_seq (event_of a g) = of_nat (Suc ?n)" by (cases a) (simp add: event_of_def w)
    ultimately show ?thesis using True by simp
  next
    case False
    then have "slots ! q = er_slots b ! q" by (simp add: slots_def)
    moreover have "slot_owner 256 (Suc ?n) q = slot_owner 256 ?n q" using False by simp
    ultimately show ?thesis using b(4,5) [OF q] slot_owner_le [of 256 ?n q] by (simp add: nth_append)
  qed
  show ?thesis
    using buf b(2) early slot assms(2) new publish_event_buf(2) [OF b(1), of a]
    unfolding audio_ring_ok_def by (simp add: slots_def del: of_nat_Suc slot_owner.simps)
qed

interpretation audio_ring: event_ring audio_ring_ok publish_event event_of read_audio_event
  "\<lambda>g. unat (eh_writer_seq (ring_header g))" "\<lambda>g. unat (eh_earliest_seq (ring_header g))" 256 "2 ^ 64"
proof
  fix g h a and s :: nat
  show "0 < (256::nat)" by simp
  show "audio_ring_ok g h \<Longrightarrow> length h + 1 < 2 ^ 64 \<Longrightarrow> audio_ring_ok (publish_event a g) (h @ [event_of a g])"
    by (rule audio_ring_ok_publish)
  assume ok: "audio_ring_ok g h"
  then obtain b where b: "ag_events_buf g = Some b" "eh_writer_seq (er_header b) = of_nat (length h)"
    "eh_earliest_seq (er_header b) = of_nat (max 1 (length h + 1 - 256))"
    "\<And>q. q < 256 \<Longrightarrow> es_seq (er_slots b ! q) = of_nat (slot_owner 256 (length h) q)"
    "\<And>q. q < 256 \<Longrightarrow> slot_owner 256 (length h) q \<noteq> 0 \<Longrightarrow>
       er_slots b ! q = h ! (slot_owner 256 (length h) q - 1)"
    and l: "length h < 2 ^ 64"
    by (auto simp: audio_ring_ok_def split: option.splits)
  show "unat (eh_writer_seq (ring_header g)) = length h"
    using b(1,2) l by (simp add: ring_header_def unat_of_nat)
  have "unat (of_nat (max 1 (length h + 1 - 256)) :: u64) = max 1 (length h + 1 - 256)"
    by (rule unat_of_nat_small) (use l in auto)
  then show "unat (eh_earliest_seq (ring_header g)) = max 1 (length h + 1 - 256)"
    using b(1,3) by (simp only: ring_header_def option.case)
  assume s: "0 < s"
  have own: "unat (es_seq (er_slots b ! (s mod 256))) = slot_owner 256 (length h) (s mod 256)"
    using b(4) [of "s mod 256"] l slot_owner_le [of 256 "length h" "s mod 256"]
    by (simp add: unat_of_nat)
  show "s \<le> length h \<Longrightarrow> length h < s + 256 \<Longrightarrow> read_audio_event g s = Some (h ! (s - 1))"
    using own b(1) b(5) [of "s mod 256"] slot_owner_recent [OF s, of "length h" 256] s
    by (simp add: read_audio_event_def)
  show "length h < s \<or> s + 256 \<le> length h \<Longrightarrow> read_audio_event g s = None"
    using own b(1) slot_owner_old [OF s, of 256 "length h"] slot_owner_le [of 256 "length h" "s mod 256"]
    by (auto simp: read_audio_event_def Let_def)
qed

end
