(* ===== verification/Audiofs_Stream.thy ===== *)
theory Audiofs_Stream
  imports Audiofs_Events
begin

text \<open>
  The output stream of audiofs: refill of the DMA fragments, the interrupt filter and thread,
  underrun reporting, the start and end of a stream, the device \<^verbatim>\<open>/dev/audiofs\<close> and the
  test tone. What the hardware answers is an argument: interrupt and stream status, the link
  position (\<^verbatim>\<open>LPIB\<close>), and the results of DMA allocations.
\<close>

abbreviation (input) AUDIOFS_BDL_ENTRIES :: nat where "AUDIOFS_BDL_ENTRIES \<equiv> 4"
abbreviation (input) AUDIOFS_BUF_BYTES :: nat where "AUDIOFS_BUF_BYTES \<equiv> 16384"
abbreviation (input) SDSTS_BCIS :: byte where "SDSTS_BCIS \<equiv> 0x04"
abbreviation (input) SDSTS_FIFOE :: byte where "SDSTS_FIFOE \<equiv> 0x08"
abbreviation (input) SDSTS_DESE :: byte where "SDSTS_DESE \<equiv> 0x10"
abbreviation (input) SDCTL_RUN_INTS :: u32 where "SDCTL_RUN_INTS \<equiv> 0x1e"
abbreviation (input) AUDIOFS_EVENTS_NO_ENDPOINT :: u16 where "AUDIOFS_EVENTS_NO_ENDPOINT \<equiv> 0xffff"

definition upd_sc :: "nat \<Rightarrow> (audiofs_softc \<Rightarrow> audiofs_softc) \<Rightarrow> audiofs_globals \<Rightarrow> audiofs_globals" where
  "upd_sc u f g = g\<lparr>ag_softc := (ag_softc g)(u := f (ag_softc g u))\<rparr>"

lemma upd_sc_simps [simp, frame_simps]:
  "ag_softc (upd_sc u f g) = (ag_softc g)(u := f (ag_softc g u))"
  "ag_registry (upd_sc u f g) = ag_registry g"
  "ag_initialized (upd_sc u f g) = ag_initialized g"
  "ag_state_open (upd_sc u f g) = ag_state_open g"
  "ag_events_buf (upd_sc u f g) = ag_events_buf g"
  "ag_events_open (upd_sc u f g) = ag_events_open g"
  "ag_writer_seq (upd_sc u f g) = ag_writer_seq g"
  "ag_clock_mapped (upd_sc u f g) = ag_clock_mapped g"
  "ag_clock (upd_sc u f g) = ag_clock g"
  "ag_test_tone (upd_sc u f g) = ag_test_tone g"
  "ag_dma_live (upd_sc u f g) = ag_dma_live g"
  "ag_inventory_seq (upd_sc u f g) = ag_inventory_seq g"
  "ag_now (upd_sc u f g) = ag_now g"
  "ag_io (upd_sc u f g) = ag_io g"
  by (simp_all add: upd_sc_def)

section \<open>Refill\<close>

definition audiofs_sine_table :: "int list" where
  "audiofs_sine_table =
    [0, 16, 32, 48, 63, 77, 91, 104, 116, 127, 136, 145, 152, 157, 161, 163,
     164, 163, 161, 157, 152, 145, 136, 127, 116, 104, 91, 77, 63, 48, 32, 16,
     0, -16, -32, -48, -63, -77, -91, -104, -116, -127, -136, -145, -152, -157, -161, -163,
     -164, -163, -161, -157, -152, -145, -136, -127, -116, -104, -91, -77, -63, -48, -32, -16]"

text \<open>The bytes of \<open>n\<close> stereo frames of the table from frame \<open>base\<close> on.\<close>

definition sine_frames :: "nat \<Rightarrow> nat \<Rightarrow> buf" where
  "sine_frames base n = concat (map (\<lambda>f. let v = put16 (of_int (audiofs_sine_table ! ((base + f) mod 64)))
                                           in v @ v) [0..<n])"

definition audiofs_refill_sine_fragment :: "int \<Rightarrow> audiofs_softc \<Rightarrow> audiofs_softc" where
  "audiofs_refill_sine_fragment fragment_idx sc =
     (if fragment_idx < 0 \<or> int AUDIOFS_BDL_ENTRIES \<le> fragment_idx then sc
      else let frame_base = nat fragment_idx * (AUDIOFS_BUF_FRAG_BYTES div 4)
           in sc\<lparr>au_buf := blit (au_buf sc) (4 * frame_base) (sine_frames frame_base 1024)\<rparr>)"

text \<open>An underrun noted for the deferred report: its frames are added to the pending ones.\<close>

definition note_xrun :: "u32 \<Rightarrow> audiofs_softc \<Rightarrow> audiofs_softc" where
  "note_xrun gap_frames sc =
     (let sc = (if au_pending_xrun sc = 0 then sc\<lparr>au_xrun_gap_pos := au_frames_played sc\<rparr> else sc)
      in sc\<lparr>au_pending_xrun := au_pending_xrun sc + gap_frames,
            au_xrun_coalesced := au_xrun_coalesced sc + 1, au_xrun_enqueued := True\<rparr>)"

definition audiofs_refill_user_fragment :: "int \<Rightarrow> audiofs_softc \<Rightarrow> audiofs_softc" where
  "audiofs_refill_user_fragment fragment_idx sc =
     (if fragment_idx < 0 \<or> int AUDIOFS_BDL_ENTRIES \<le> fragment_idx then sc
      else let dst = nat fragment_idx * AUDIOFS_BUF_FRAG_BYTES;
               (bs, ring) = ring_take (au_ring sc);
               sc = sc\<lparr>au_ring := ring, au_buf := blit (au_buf sc) dst bs\<rparr>
           in if length bs < AUDIOFS_BUF_FRAG_BYTES
              then note_xrun (of_nat ((AUDIOFS_BUF_FRAG_BYTES - length bs) div 4))
                     (sc\<lparr>au_buf := blit (au_buf sc) (dst + length bs)
                            (replicate (AUDIOFS_BUF_FRAG_BYTES - length bs) 0),
                         au_underflow_count := au_underflow_count sc + 1\<rparr>)
              else sc)"

definition audiofs_refill_fragment :: "int \<Rightarrow> audiofs_softc \<Rightarrow> audiofs_softc" where
  "audiofs_refill_fragment fragment_idx sc =
     (case au_source sc of
        SRC_USER \<Rightarrow> audiofs_refill_user_fragment fragment_idx sc
      | SRC_SINE \<Rightarrow> audiofs_refill_sine_fragment fragment_idx sc)"

section \<open>Interrupts\<close>

definition sis_mask :: "audiofs_softc \<Rightarrow> u32" where
  "sis_mask sc = push_bit (au_num_iss sc + au_stream_idx sc) 1"

text \<open>The filter: whether the thread is scheduled, and the status bits latched for it.\<close>

definition audiofs_intr_filter :: "u32 \<Rightarrow> byte \<Rightarrow> audiofs_softc \<Rightarrow> bool \<times> audiofs_softc" where
  "audiofs_intr_filter intsts sdsts sc =
     (if intsts AND sis_mask sc = 0 then (False, sc)
      else (True, sc\<lparr>au_last_sdsts := au_last_sdsts sc OR (sdsts AND (SDSTS_BCIS OR SDSTS_FIFOE OR SDSTS_DESE))\<rparr>))"

definition lpib_delta :: "u32 \<Rightarrow> u32 \<Rightarrow> u64" where
  "lpib_delta prev cur = (if prev \<le> cur then ucast (cur - prev) else ucast (16384 - prev) + ucast cur)"

definition advance_frames :: "u32 \<Rightarrow> audiofs_softc \<Rightarrow> audiofs_softc" where
  "advance_frames lpib sc =
     (let delta = lpib_delta (au_prev_lpib sc) lpib
      in sc\<lparr>au_frames_played := au_frames_played sc + delta div 4,
            au_clock_total := au_clock_total sc + delta div 4\<rparr>)"

text \<open>
  The refill loop ends when the cursor reaches the fragment being played; it would not end
  for a fragment number outside the list.
\<close>

partial_function (option) refill_loop :: "int \<Rightarrow> nat \<Rightarrow> audiofs_softc \<Rightarrow> (nat \<times> audiofs_softc) option" where
  "refill_loop curr_fragment n sc =
     (if au_next_refill sc = curr_fragment then Some (n, sc)
      else let sc = audiofs_refill_fragment (au_next_refill sc) sc
           in refill_loop curr_fragment (n + 1)
                (sc\<lparr>au_next_refill := (au_next_refill sc + 1) mod int AUDIOFS_BDL_ENTRIES\<rparr>))"

definition intr_bcis :: "u32 \<Rightarrow> audiofs_softc \<Rightarrow> audiofs_softc option" where
  "intr_bcis curr_lpib sc =
     map_option (\<lambda>(n, sc). if n = 0 then sc\<lparr>au_refill_miss := au_refill_miss sc + 1\<rparr>
                           else if 2 \<le> n then sc\<lparr>au_refill_multi := au_refill_multi sc + 1\<rparr> else sc)
       (refill_loop (int (unat curr_lpib div AUDIOFS_BUF_FRAG_BYTES)) 0 sc)"

definition intr_fifoe :: "audiofs_softc \<Rightarrow> audiofs_softc" where
  "intr_fifoe sc = note_xrun 1024 (sc\<lparr>au_underflow_count := au_underflow_count sc + 1\<rparr>)"

definition audiofs_intr_thread :: "nat \<Rightarrow> u32 \<Rightarrow> audiofs_globals \<Rightarrow> audiofs_globals option" where
  "audiofs_intr_thread u curr_lpib g =
     (let sc = ag_softc g u in
      if \<not> au_active sc then Some g
      else let sdsts = au_last_sdsts sc;
               sc = advance_frames curr_lpib (sc\<lparr>au_last_sdsts := 0\<rparr>);
               g = audiofs_clock_update sc g;
               sc = sc\<lparr>au_prev_lpib := curr_lpib\<rparr>
           in map_option (\<lambda>sc. upd_sc u (\<lambda>_. if sdsts AND SDSTS_FIFOE \<noteq> 0 then intr_fifoe sc else sc) g)
                (if sdsts AND SDSTS_BCIS \<noteq> 0 then intr_bcis curr_lpib sc else Some sc))"

section \<open>Underrun reports\<close>

definition evp_xrun :: "u32 \<Rightarrow> u64 \<Rightarrow> u32 \<Rightarrow> buf" where
  "evp_xrun stream_id gap_pos frames = put32 stream_id @ [0, 0, 0, 0] @ put64 gap_pos @ put32 frames"

definition clear_pending :: "audiofs_softc \<Rightarrow> audiofs_softc" where
  "clear_pending sc = sc\<lparr>au_pending_xrun := 0, au_xrun_coalesced := 0, au_xrun_gap_pos := 0\<rparr>"

definition publish_xrun :: "audiofs_softc \<Rightarrow> audiofs_globals \<Rightarrow> audiofs_globals" where
  "publish_xrun sc g =
     audiofs_events_publish 1 3 (au_endpoint_slot sc) (if 1 < au_xrun_coalesced sc then 2 else 0)
       (evp_xrun (au_stream_id sc) (au_xrun_gap_pos sc) (au_pending_xrun sc)) g"

definition audiofs_xrun_task :: "nat \<Rightarrow> audiofs_globals \<Rightarrow> audiofs_globals" where
  "audiofs_xrun_task u g =
     (let g = upd_sc u (\<lambda>sc. sc\<lparr>au_xrun_enqueued := False\<rparr>) g;
          sc = ag_softc g u
      in if \<not> au_active sc then g
         else let g = upd_sc u clear_pending g
              in if au_pending_xrun sc = 0 then g else publish_xrun sc g)"

section \<open>Configuring the stream\<close>

text \<open>
  DMA memory: an allocation clears the descriptor and then takes the address it is given
  (\<open>None\<close> when it fails); freeing returns the address the descriptor holds.
\<close>

definition dma_free :: "u64 \<Rightarrow> audiofs_globals \<Rightarrow> audiofs_globals" where
  "dma_free paddr g = (if paddr = 0 then g else g\<lparr>ag_dma_live := remove1 paddr (ag_dma_live g)\<rparr>)"

definition audiofs_output_stream_reset :: "audiofs_softc \<Rightarrow> audiofs_softc" where
  "audiofs_output_stream_reset sc =
     (let ctl = hr_sdctl (au_regs sc) AND NOT 2; ctl = ctl OR 1; ctl = ctl AND NOT 1
      in sc\<lparr>au_regs := (au_regs sc)\<lparr>hr_sdctl := ctl\<rparr>\<rparr>)"

definition configure_registers :: "audiofs_softc \<Rightarrow> audiofs_softc" where
  "configure_registers sc =
     (let sc = audiofs_output_stream_reset sc; r = au_regs sc;
          ctl = hr_sdctl r AND NOT 2; ctl = ctl AND NOT (push_bit 16 0xff); ctl = ctl OR push_bit 20 1
      in sc\<lparr>au_regs := r\<lparr>hr_cbl := 16384, hr_lvi := 3, hr_fmt := au_format_word sc,
            hr_bdpl := ucast (au_bdl_paddr sc AND 0xffffffff), hr_bdpu := ucast (drop_bit 32 (au_bdl_paddr sc)),
            hr_sdctl := ctl\<rparr>,
            au_configured := True, au_stream_idx := 0, au_stream_id := 1\<rparr>)"

definition audiofs_configure_output_stream :: "nat \<Rightarrow> u64 option \<times> u64 option \<Rightarrow> audiofs_globals \<Rightarrow>
    errno \<times> audiofs_globals" where
  "audiofs_configure_output_stream u allocs g =
     (let sc = ag_softc g u in
      if au_num_oss sc < 1 then (ENXIO, g)
      else case select_dac (au_codecs sc) of
        None \<Rightarrow> (ENXIO, g)
      | Some (cad, dac) \<Rightarrow>
          let g = upd_sc u (\<lambda>sc. sc\<lparr>au_dac_cad := int cad, au_dac_nid := dac\<rparr>) g in
          case fst allocs of
            None \<Rightarrow> (ENOMEM, upd_sc u (\<lambda>sc. sc\<lparr>au_bdl_paddr := 0\<rparr>) g)
          | Some bdl \<Rightarrow>
              let g = (upd_sc u (\<lambda>sc. sc\<lparr>au_bdl_paddr := bdl\<rparr>) g)\<lparr>ag_dma_live := bdl # ag_dma_live g\<rparr> in
              case snd allocs of
                None \<Rightarrow> (ENOMEM, upd_sc u (\<lambda>sc. sc\<lparr>au_bdl_paddr := 0, au_buf_paddr := 0\<rparr>) (dma_free bdl g))
              | Some bp \<Rightarrow>
                  let g = (upd_sc u (\<lambda>sc. sc\<lparr>au_buf_paddr := bp, au_buf := sine_frames 0 4096,
                            au_bdl := map (\<lambda>i. \<lparr>bd_addr = bp + of_nat i * 4096, bd_len = 4096, bd_ioc = 1\<rparr>)
                                        [0..<AUDIOFS_BDL_ENTRIES]\<rparr>) g)\<lparr>ag_dma_live := bp # ag_dma_live g\<rparr>
                  in (0, upd_sc u configure_registers g))"

section \<open>Start and end of a stream\<close>

definition audiofs_output_dac_psr :: "audiofs_softc \<Rightarrow> u32" where
  "audiofs_output_dac_psr sc =
     (if au_dac_cad sc < 0 then 0 else c_fg_supp_pcm_size_rate (au_codecs sc ! nat (au_dac_cad sc)))"

definition evp_stream_begin :: "u32 \<Rightarrow> u16 \<Rightarrow> byte \<Rightarrow> u32 \<Rightarrow> buf" where
  "evp_stream_begin stream_id format channels rate_hz =
     put32 stream_id @ put16 format @ [channels, 0] @ put32 rate_hz"

definition evp_stream_end :: "u32 \<Rightarrow> u64 \<Rightarrow> buf" where
  "evp_stream_end stream_id frames_total = put32 stream_id @ put32 0 @ put64 frames_total"

definition bind_converter :: "audiofs_softc \<Rightarrow> audiofs_softc" where
  "bind_converter sc =
     sc\<lparr>au_regs := (au_regs sc)\<lparr>hr_conv_fmt := au_format_word sc,
          hr_conv_stream := ucast (push_bit 4 (au_stream_id sc)) OR 0\<rparr>,
        au_prev_lpib := 0, au_next_refill := 0, au_frames_played := 0, au_last_sdsts := 0,
        au_endpoint_slot := AUDIOFS_EVENTS_NO_ENDPOINT\<rparr>"

definition start_dma :: "audiofs_softc \<Rightarrow> audiofs_softc" where
  "start_dma sc =
     sc\<lparr>au_active := True,
        au_regs := (au_regs sc)\<lparr>hr_intctl := hr_intctl (au_regs sc) OR push_bit 31 1 OR push_bit 30 1 OR sis_mask sc,
                                 hr_sdctl := hr_sdctl (au_regs sc) OR SDCTL_RUN_INTS\<rparr>\<rparr>"

definition audiofs_stream_begin :: "nat \<Rightarrow> u16 \<Rightarrow> byte \<Rightarrow> u32 \<Rightarrow> u64 option \<times> u64 option \<Rightarrow> audiofs_globals \<Rightarrow>
    errno \<times> audiofs_globals" where
  "audiofs_stream_begin u format channels rate_hz allocs g =
     (let sc = ag_softc g u in
      if channels \<noteq> 2 \<or> audiofs_rate_to_format_word rate_hz \<noteq> Some format \<or>
         \<not> audiofs_psr_has_rate (audiofs_output_dac_psr sc) rate_hz then (EINVAL, g)
      else if au_active sc then (EBUSY, g)
      else let g = upd_sc u (\<lambda>sc. sc\<lparr>au_format_word := format, au_rate_hz := rate_hz\<rparr>) g;
               (error, g) = audiofs_configure_output_stream u allocs g
           in if error \<noteq> 0 then (error, g)
              else let g = upd_sc u bind_converter g;
                       sc = ag_softc g u;
                       g = audiofs_events_publish 1 1 (au_endpoint_slot sc) 0
                             (evp_stream_begin (au_stream_id sc) format channels rate_hz) g;
                       g = audiofs_clock_stream_begin rate_hz g
                   in (0, upd_sc u start_dma g))"

definition stop_dma :: "audiofs_softc \<Rightarrow> audiofs_softc" where
  "stop_dma sc =
     sc\<lparr>au_regs := (au_regs sc)\<lparr>hr_intctl := hr_intctl (au_regs sc) AND NOT (sis_mask sc),
                                 hr_sdctl := hr_sdctl (au_regs sc) AND NOT SDCTL_RUN_INTS\<rparr>\<rparr>"

definition audiofs_stream_end :: "nat \<Rightarrow> u32 \<Rightarrow> u32 \<Rightarrow> audiofs_globals \<Rightarrow> errno \<times> audiofs_globals" where
  "audiofs_stream_end u stream_id final_lpib g =
     (let sc0 = ag_softc g u in
      if \<not> au_active sc0 then (ENXIO, g)
      else if stream_id \<noteq> au_stream_id sc0 then (EINVAL, g)
      else let g = upd_sc u (\<lambda>sc. (clear_pending sc)\<lparr>au_active := False\<rparr>) g;
               g = (if 0 < au_pending_xrun sc0 then publish_xrun sc0 g else g);
               g = upd_sc u (\<lambda>sc. advance_frames final_lpib (stop_dma (sc\<lparr>au_xrun_enqueued := False\<rparr>))) g;
               sc = ag_softc g u;
               g = audiofs_clock_update sc g;
               g = upd_sc u (\<lambda>sc. sc\<lparr>au_regs := (au_regs sc)\<lparr>hr_conv_stream := 0\<rparr>\<rparr>) g
           in (0, audiofs_events_publish 1 2 (au_endpoint_slot sc) 0
                    (evp_stream_end (au_stream_id sc) (au_frames_played sc)) g))"

section \<open>The device\<close>

definition audiofs_source_set :: "stream_source \<Rightarrow> audiofs_softc \<Rightarrow> audiofs_softc" where
  "audiofs_source_set new_source sc =
     (let sc = (case new_source of
            SRC_USER \<Rightarrow> sc\<lparr>au_ring := (au_ring sc)\<lparr>ur_head := 0, ur_tail := 0\<rparr>, au_underflow_count := 0,
                           au_refill_miss := 0, au_refill_multi := 0\<rparr>
          | SRC_SINE \<Rightarrow> sc)
      in sc\<lparr>au_source := new_source\<rparr>)"

definition audiofs_cdev_open :: "nat \<Rightarrow> u64 option \<times> u64 option \<Rightarrow> audiofs_globals \<Rightarrow> errno \<times> audiofs_globals" where
  "audiofs_cdev_open u allocs g =
     (let sc = ag_softc g u in
      if au_cdev_open sc then (EBUSY, g)
      else let needs_stream_begin = \<not> au_active sc;
               g = upd_sc u (\<lambda>sc. audiofs_source_set SRC_USER (sc\<lparr>au_cdev_open := True\<rparr>)) g
           in if needs_stream_begin
              then let (error, g) = audiofs_stream_begin u 0x0011 2 48000 allocs g
                   in if error \<noteq> 0
                      then (error, upd_sc u (\<lambda>sc. audiofs_source_set SRC_SINE (sc\<lparr>au_cdev_open := False\<rparr>)) g)
                      else (0, g)
              else (0, g))"

definition audiofs_cdev_close :: "nat \<Rightarrow> u32 \<Rightarrow> audiofs_globals \<Rightarrow> errno \<times> audiofs_globals" where
  "audiofs_cdev_close u final_lpib g =
     (let want_sine = (ag_test_tone g \<noteq> 0);
          g = upd_sc u (\<lambda>sc. let sc = sc\<lparr>au_cdev_open := False\<rparr>
                               in if want_sine then audiofs_source_set SRC_SINE sc else sc) g
      in (0, if want_sine then g
             else snd (audiofs_stream_end u (au_stream_id (ag_softc g u)) final_lpib g)))"

definition cdev_write :: "nat \<Rightarrow> uio \<Rightarrow> audiofs_globals \<Rightarrow> (errno \<times> uio \<times> audiofs_globals) option" where
  "cdev_write u uio g =
     (case audiofs_cdev_write (au_ring (ag_softc g u)) uio of
        Some (r, WDone e uio') \<Rightarrow> Some (e, uio', upd_sc u (\<lambda>sc. sc\<lparr>au_ring := r\<rparr>) g)
      | _ \<Rightarrow> None)"

definition audiofs_cdev_read :: errno where "audiofs_cdev_read = ENXIO"

record audiofs_format =
  af_rate_hz :: u32
  af_format_word :: u16
  af_bits :: byte
  af_channels :: byte
  af_supported_rates :: u32

datatype format_cmd = GET_FORMAT | SET_FORMAT audiofs_format | OTHER_CMD

definition evp_format_change :: "u32 \<Rightarrow> u16 \<Rightarrow> u16 \<Rightarrow> u32 \<Rightarrow> buf" where
  "evp_format_change stream_id old_format new_format new_rate_hz =
     put32 stream_id @ put16 old_format @ put16 new_format @ put32 new_rate_hz"

definition ioctl_set_format :: "nat \<Rightarrow> audiofs_format \<Rightarrow> u32 \<Rightarrow> u64 option \<times> u64 option \<Rightarrow> u64 option \<times> u64 option \<Rightarrow>
    audiofs_globals \<Rightarrow> errno \<times> audiofs_globals" where
  "ioctl_set_format u f final_lpib allocs retry_allocs g =
     (let sc = ag_softc g u in
      if af_bits f \<noteq> 16 \<or> af_channels f \<noteq> 2 then (EINVAL, g)
      else case audiofs_rate_to_format_word (af_rate_hz f) of
        None \<Rightarrow> (EINVAL, g)
      | Some new_word \<Rightarrow>
          if \<not> audiofs_psr_has_rate (audiofs_output_dac_psr sc) (af_rate_hz f) then (EINVAL, g)
          else if af_rate_hz f = au_rate_hz sc then (0, g)
          else let old_word = au_format_word sc; old_rate = au_rate_hz sc;
                   g = upd_sc u (\<lambda>sc. sc\<lparr>au_ring := ring_flush (au_ring sc)\<rparr>) g;
                   (error, g) = audiofs_stream_end u (au_stream_id sc) final_lpib g
               in if error \<noteq> 0 then (error, g)
                  else let (error, g) = audiofs_stream_begin u new_word 2 (af_rate_hz f) allocs g
                       in if error \<noteq> 0
                          then (error, snd (audiofs_stream_begin u old_word 2 old_rate retry_allocs g))
                          else (0, audiofs_state_republish
                                 (audiofs_events_publish 1 4 AUDIOFS_EVENTS_NO_ENDPOINT 0
                                    (evp_format_change (au_stream_id (ag_softc g u)) old_word new_word (af_rate_hz f)) g)))"

definition audiofs_cdev_ioctl :: "nat \<Rightarrow> format_cmd \<Rightarrow> u32 \<Rightarrow> u64 option \<times> u64 option \<Rightarrow> u64 option \<times> u64 option \<Rightarrow>
    audiofs_globals \<Rightarrow> errno \<times> audiofs_format option \<times> audiofs_globals" where
  "audiofs_cdev_ioctl u cmd final_lpib allocs retry_allocs g =
     (case cmd of
        GET_FORMAT \<Rightarrow>
          let sc = ag_softc g u
          in (0, Some \<lparr>af_rate_hz = au_rate_hz sc, af_format_word = au_format_word sc, af_bits = 16,
                 af_channels = 2, af_supported_rates = audiofs_psr_rate_mask (audiofs_output_dac_psr sc)\<rparr>, g)
      | SET_FORMAT f \<Rightarrow>
          let (error, g) = ioctl_set_format u f final_lpib allocs retry_allocs g in (error, None, g)
      | OTHER_CMD \<Rightarrow> (ENOTTY, None, g))"

text \<open>Poll events: \<^verbatim>\<open>POLLIN\<close> 1, \<^verbatim>\<open>POLLOUT\<close> and \<^verbatim>\<open>POLLWRNORM\<close> 4, \<^verbatim>\<open>POLLRDNORM\<close> 0x40.\<close>

definition audiofs_cdev_poll :: "u32 \<Rightarrow> audiofs_softc \<Rightarrow> u32" where
  "audiofs_cdev_poll events sc =
     (if events AND 4 \<noteq> 0 \<and> 4 \<le> ring_space (au_ring sc) then events AND 4 else 0) OR
     (if events AND 0x41 \<noteq> 0 then events AND 0x41 else 0)"

section \<open>The test tone\<close>

definition toggle_tone :: "int \<Rightarrow> (nat \<Rightarrow> u32) \<Rightarrow> (nat \<Rightarrow> u64 option \<times> u64 option) \<Rightarrow> nat \<Rightarrow> audiofs_globals \<Rightarrow>
    audiofs_globals" where
  "toggle_tone newval lpibs allocs u g =
     (let sc = ag_softc g u in
      if au_cdev_open sc then g
      else if newval \<noteq> 0 \<and> \<not> au_active sc then snd (audiofs_stream_begin u 0x0011 2 48000 (allocs u) g)
      else if newval = 0 \<and> au_active sc then snd (audiofs_stream_end u (au_stream_id sc) (lpibs u) g)
      else g)"

definition audiofs_sysctl_test_tone :: "int \<Rightarrow> (nat \<Rightarrow> u32) \<Rightarrow> (nat \<Rightarrow> u64 option \<times> u64 option) \<Rightarrow>
    audiofs_globals \<Rightarrow> audiofs_globals" where
  "audiofs_sysctl_test_tone newval lpibs allocs g =
     (let prev = ag_test_tone g;
          g = g\<lparr>ag_test_tone := newval\<rparr>
      in if (prev = 0) = (newval = 0) then g
         else fold (toggle_tone newval lpibs allocs) (ag_registry g) g)"

section \<open>Attach and detach\<close>

text \<open>
  The record at attach: zeroed, with the identity and the topology the walk found (an
  argument, as the walk talks to the codecs), the internal source and an empty ring.
\<close>

definition attach_softc :: "nat \<times> nat \<times> nat \<Rightarrow> bool \<Rightarrow> u16 \<times> u16 \<times> u16 \<times> u16 \<Rightarrow> audiofs_codec list \<Rightarrow> audiofs_softc" where
  "attach_softc streams ok64 pci codecs =
     \<lparr>au_num_iss = fst streams, au_num_oss = fst (snd streams), au_num_bss = snd (snd streams),
      au_support_64bit = ok64, au_pci_vendor = fst pci, au_pci_device = fst (snd pci),
      au_pci_subvendor = fst (snd (snd pci)), au_pci_subdevice = snd (snd (snd pci)),
      au_codecs = codecs,
      au_regs = \<lparr>hr_intctl = 0, hr_sdctl = 0, hr_cbl = 0, hr_lvi = 0, hr_fmt = 0, hr_bdpl = 0, hr_bdpu = 0,
                 hr_conv_fmt = 0, hr_conv_stream = 0\<rparr>,
      au_bdl_paddr = 0, au_buf_paddr = 0, au_bdl = [], au_buf = [], au_configured = False,
      au_stream_idx = 0, au_stream_id = 0, au_dac_cad = 0, au_dac_nid = 0, au_format_word = 0,
      au_rate_hz = 0, au_active = False, au_last_sdsts = 0, au_prev_lpib = 0, au_next_refill = 0,
      au_frames_played = 0, au_clock_total = 0, au_endpoint_slot = 0, au_source = SRC_SINE,
      au_ring = ring_init, au_cdev_open = False, au_underflow_count = 0, au_refill_miss = 0,
      au_refill_multi = 0, au_pending_xrun = 0, au_xrun_gap_pos = 0, au_xrun_coalesced = 0,
      au_xrun_enqueued = False\<rparr>"

text \<open>Attach from the registration on, and detach up to the release of the stream's memory.\<close>

definition attach_stream :: "nat \<Rightarrow> audiofs_softc \<Rightarrow> bool \<times> bool \<times> bool \<Rightarrow> u64 option \<times> u64 option \<Rightarrow>
    audiofs_globals \<Rightarrow> audiofs_globals" where
  "attach_stream u sc opens allocs g =
     (let g = audiofs_state_register u opens (upd_sc u (\<lambda>_. sc) g)
      in if ag_test_tone g \<noteq> 0 then snd (audiofs_stream_begin u 0x0011 2 48000 allocs g) else g)"

text \<open>Detach: the stream is ended and the controller's interrupts are turned off, the state is withdrawn, and the
  memory of the stream is freed.\<close>

definition detach_end :: "nat \<Rightarrow> u32 \<Rightarrow> audiofs_globals \<Rightarrow> audiofs_globals" where
  "detach_end u final_lpib g =
     (let sc = ag_softc g u;
          g = (if au_active sc then snd (audiofs_stream_end u (au_stream_id sc) final_lpib g) else g)
      in upd_sc u (\<lambda>sc. sc\<lparr>au_regs := (au_regs sc)\<lparr>hr_intctl := hr_intctl (au_regs sc) AND NOT (push_bit 31 1 OR push_bit 30 1)\<rparr>\<rparr>) g)"

definition detach_dma :: "nat \<Rightarrow> audiofs_globals \<Rightarrow> audiofs_globals" where
  "detach_dma u g =
     (let sc = ag_softc g u
      in if au_configured sc
         then upd_sc u (\<lambda>sc. sc\<lparr>au_buf_paddr := 0, au_bdl_paddr := 0, au_configured := False\<rparr>)
                (dma_free (au_bdl_paddr sc) (dma_free (au_buf_paddr sc) g))
         else g)"

definition detach_stream :: "nat \<Rightarrow> u32 \<Rightarrow> audiofs_globals \<Rightarrow> audiofs_globals" where
  "detach_stream u final_lpib g = detach_dma u (audiofs_state_unregister u (detach_end u final_lpib g))"

end
