(* ===== verification/Cyclic_Loop.thy ===== *)
theory Cyclic_Loop
  imports Awase_Prelude
begin

text \<open>
  Loops that move a cursor around a ring until it reaches a target: the refill loop of the
  audio interrupt thread and the drain of the codec response ring. The contract is the
  unfolding of the loop on states with a valid cursor; the lemmas say how often the body runs,
  and that the loop ends exactly for the targets inside the ring.
\<close>

locale cyclic_loop =
  fixes loop :: "nat \<Rightarrow> nat \<Rightarrow> 's \<Rightarrow> (nat \<times> 's) option"
    and cursor :: "'s \<Rightarrow> nat"
    and turn :: "'s \<Rightarrow> 's"
    and good :: "'s \<Rightarrow> bool"
    and ring_size :: nat
  assumes loop_unfold: "good s \<Longrightarrow> loop c n s = (if cursor s = c then Some (n, s) else loop c (n + 1) (turn s))"
    and good_turn: "good s \<Longrightarrow> good (turn s)"
    and cursor_less: "good s \<Longrightarrow> cursor s < ring_size"
    and cursor_turn: "good s \<Longrightarrow> cursor (turn s) = (cursor s + 1) mod ring_size"
    and loop_ends: "good s \<Longrightarrow> loop c n s = Some y \<Longrightarrow> c < ring_size"
begin

definition distance :: "nat \<Rightarrow> 's \<Rightarrow> nat" where
  "distance c s = (c + ring_size - cursor s) mod ring_size"

lemma distance_less: "good s \<Longrightarrow> distance c s < ring_size"
  using cursor_less [of s] by (simp add: distance_def)

lemma good_turns: "good s \<Longrightarrow> good ((turn ^^ k) s)"
  by (induction k) (simp_all add: good_turn)

lemma cursor_turns: "good s \<Longrightarrow> cursor ((turn ^^ k) s) = (cursor s + k) mod ring_size"
  by (induction k) (simp_all add: cursor_turn good_turns cursor_less mod_simps)

lemma distance_0_iff:
  assumes "good s" "c < ring_size"
  shows "distance c s = 0 \<longleftrightarrow> cursor s = c"
  using cursor_less [OF assms(1)] assms(2)
  by (cases "cursor s \<le> c") (auto simp: distance_def le_mod_geq)

lemma distance_turn:
  assumes "good s" "c < ring_size" "distance c s = Suc k"
  shows "distance c (turn s) = k"
proof -
  have l: "cursor s < ring_size" by (rule cursor_less [OF assms(1)])
  have k: "Suc k < ring_size" using distance_less [OF assms(1), of c] assms(3) by simp
  have ne: "cursor s \<noteq> c" using distance_0_iff [OF assms(1,2)] assms(3) by auto
  have e: "Suc k = (if cursor s \<le> c then c - cursor s else c + ring_size - cursor s)"
    using assms(2,3) l by (auto simp: distance_def le_mod_geq)
  show ?thesis
  proof (cases "cursor s + 1 < ring_size")
    case True
    then have "cursor (turn s) = cursor s + 1" using cursor_turn [OF assms(1)] by simp
    then show ?thesis using e ne k assms(2) True
      by (cases "cursor s \<le> c") (auto simp: distance_def le_mod_geq)
  next
    case False
    then have "cursor s + 1 = ring_size" using l by simp
    moreover from this have "cursor (turn s) = 0" using cursor_turn [OF assms(1)] by simp
    ultimately show ?thesis using e ne assms(2) by (auto simp: distance_def split: if_splits)
  qed
qed

lemma loop_turns:
  assumes "good s" "c < ring_size" "distance c s = k"
  shows "loop c n s = Some (n + k, (turn ^^ k) s)"
  using assms
proof (induction k arbitrary: n s)
  case 0
  then show ?case using distance_0_iff loop_unfold by simp
next
  case (Suc k)
  have "cursor s \<noteq> c" using distance_0_iff [OF Suc.prems(1,2)] Suc.prems(3) by simp
  moreover have "loop c (n + 1) (turn s) = Some (n + 1 + k, (turn ^^ k) (turn s))"
    by (rule Suc.IH [OF good_turn [OF Suc.prems(1)] Suc.prems(2) distance_turn [OF Suc.prems]])
  ultimately show ?case using loop_unfold [OF Suc.prems(1), of c n] by (simp add: funpow_swap1)
qed

lemma loop_iff:
  assumes "good s"
  shows "loop c n s = (if c < ring_size then Some (n + distance c s, (turn ^^ distance c s) s) else None)"
proof (cases "c < ring_size")
  case True
  then show ?thesis using loop_turns [OF assms True refl, of n] by simp
next
  case False
  then show ?thesis using loop_ends [OF assms, of c n] by (cases "loop c n s") auto
qed

lemma loop_reaches:
  assumes "good s" "c < ring_size"
  shows "cursor ((turn ^^ distance c s) s) = c"
proof -
  have "(cursor s + distance c s) mod ring_size = (cursor s + (c + ring_size - cursor s)) mod ring_size"
    by (simp add: distance_def mod_add_right_eq)
  also have "\<dots> = c" using cursor_less [OF assms(1)] assms(2) by simp
  finally show ?thesis using cursor_turns [OF assms(1)] by simp
qed

end

end
