(* ===== verification/Audiofs_Refill.thy ===== *)
theory Audiofs_Refill
  imports Audiofs_Stream Cyclic_Loop
begin

text \<open>
  The refill of the DMA buffer: the loop of the interrupt thread ends for every link position
  inside the buffer, refills exactly the fragments played since the last time, and each of
  them with the next bytes of the user ring followed by silence.
\<close>

section \<open>The loop\<close>

definition refill_one :: "audiofs_softc \<Rightarrow> audiofs_softc" where
  "refill_one sc =
     (let sc = audiofs_refill_fragment (au_next_refill sc) sc
      in sc\<lparr>au_next_refill := (au_next_refill sc + 1) mod 4\<rparr>)"

lemma refill_next [simp]: "au_next_refill (audiofs_refill_fragment i sc) = au_next_refill sc"
  by (simp add: audiofs_refill_fragment_def audiofs_refill_user_fragment_def
      audiofs_refill_sine_fragment_def note_xrun_def Let_def split: stream_source.split prod.split)

lemma refill_one_next [simp]: "au_next_refill (refill_one sc) = (au_next_refill sc + 1) mod 4"
  by (simp add: refill_one_def Let_def)

lemma refill_loop_unfold:
  "refill_loop c n sc = (if au_next_refill sc = c then Some (n, sc) else refill_loop c (n + 1) (refill_one sc))"
  by (subst refill_loop.simps) (simp add: refill_one_def Let_def)

text \<open>Outside the fragment list the loop never ends.\<close>

lemma refill_loop_ends:
  assumes "refill_loop c n sc = Some y"
  shows "0 \<le> au_next_refill sc \<and> au_next_refill sc < 4 \<longrightarrow> 0 \<le> c \<and> c < 4"
proof (rule refill_loop.raw_induct [OF _ assms])
  fix loop and c :: int and n sc y
  assume IH: "\<And>c n sc y. loop c n sc = Some y \<Longrightarrow>
      0 \<le> au_next_refill sc \<and> au_next_refill sc < 4 \<longrightarrow> 0 \<le> c \<and> c < 4"
    and eq: "(if au_next_refill sc = c then Some (n, sc)
        else let sc = audiofs_refill_fragment (au_next_refill sc) sc
             in loop c (n + 1) (sc\<lparr>au_next_refill := (au_next_refill sc + 1) mod int 4\<rparr>)) = Some y"
  show "0 \<le> au_next_refill sc \<and> au_next_refill sc < 4 \<longrightarrow> 0 \<le> c \<and> c < 4"
  proof (cases "au_next_refill sc = c")
    case False
    have "loop c (n + 1) (refill_one sc) = Some y" using eq False by (simp add: refill_one_def Let_def)
    from IH [OF this] show ?thesis by simp
  qed simp
qed

definition cursor_ok :: "audiofs_softc \<Rightarrow> bool" where
  "cursor_ok sc \<longleftrightarrow> 0 \<le> au_next_refill sc \<and> au_next_refill sc < int AUDIOFS_BDL_ENTRIES"

interpretation refill: cyclic_loop "\<lambda>c. refill_loop (int c)" "\<lambda>sc. nat (au_next_refill sc)" refill_one cursor_ok
  AUDIOFS_BDL_ENTRIES
proof
  fix sc c n y assume sc: "cursor_ok sc"
  then have "nat (au_next_refill sc) = c \<longleftrightarrow> au_next_refill sc = int c" by (auto simp: cursor_ok_def)
  then show "refill_loop (int c) n sc =
      (if nat (au_next_refill sc) = c then Some (n, sc) else refill_loop (int c) (n + 1) (refill_one sc))"
    by (simp only: refill_loop_unfold [of "int c" n sc])
  show "cursor_ok (refill_one sc)" by (simp add: cursor_ok_def)
  show "nat (au_next_refill sc) < 4" using sc by (simp add: cursor_ok_def nat_less_iff)
  show "nat (au_next_refill (refill_one sc)) = (nat (au_next_refill sc) + 1) mod 4"
    using sc by (simp add: cursor_ok_def nat_mod_distrib nat_add_distrib)
  show "refill_loop (int c) n sc = Some y \<Longrightarrow> c < 4"
    using refill_loop_ends [of "int c" n sc y] sc by (simp add: cursor_ok_def)
qed

section \<open>What a refill stores\<close>

lemma blit_blit_append:
  "off + length a + length b \<le> length bs \<Longrightarrow> blit (blit bs off a) (off + length a) b = blit bs off (a @ b)"
  by (simp add: blit_def ac_simps)

definition user_fragment :: "buf \<Rightarrow> buf" where
  "user_fragment q = take AUDIOFS_BUF_FRAG_BYTES q @ replicate (AUDIOFS_BUF_FRAG_BYTES - length q) 0"

lemma length_user_fragment [simp]: "length (user_fragment q) = 4096"
  by (simp add: user_fragment_def)

lemma ring_take_prefix:
  assumes "ring_ok r"
  shows "fst (ring_take r) = take 4096 (queued r)" "queued (snd (ring_take r)) = drop 4096 (queued r)"
    "ring_ok (snd (ring_take r))"
proof -
  obtain bs r' where t: "ring_take r = (bs, r')" by (metis surj_pair)
  note q = ring_take_queued [OF assms t]
  have l: "length bs = min 4096 (length (queued r))" using q(2) by simp
  have "take 4096 xs = take (min 4096 (length xs)) xs" "drop 4096 xs = drop (min 4096 (length xs)) xs"
    for xs :: buf by (simp_all add: min_def)
  then have "take 4096 (queued r) = take (length bs) (queued r)"
    "drop 4096 (queued r) = drop (length bs) (queued r)" unfolding l by blast+
  then have "take 4096 (queued r) = bs" "drop 4096 (queued r) = queued r'" using q(1) by simp_all
  then show "fst (ring_take r) = take 4096 (queued r)" "queued (snd (ring_take r)) = drop 4096 (queued r)"
    "ring_ok (snd (ring_take r))" using t q(3) by simp_all
qed

lemma refill_user:
  assumes "ring_ok (au_ring sc)" "length (au_buf sc) = 16384" "0 \<le> i" "i < 4"
  shows "au_buf (audiofs_refill_user_fragment i sc)
      = blit (au_buf sc) (nat i * 4096) (user_fragment (queued (au_ring sc)))"
    "au_ring (audiofs_refill_user_fragment i sc) = snd (ring_take (au_ring sc))"
    "au_underflow_count (audiofs_refill_user_fragment i sc)
      = au_underflow_count sc + (if ring_used (au_ring sc) < 4096 then 1 else 0)"
    "au_pending_xrun (audiofs_refill_user_fragment i sc)
      = au_pending_xrun sc + of_nat ((4096 - ring_used (au_ring sc)) div 4)"
proof -
  let ?q = "queued (au_ring sc)" let ?bs = "take 4096 ?q"
  obtain r' where t: "ring_take (au_ring sc) = (?bs, r')"
    using ring_take_prefix(1) [OF assms(1)] by (metis prod.collapse)
  have i: "nat i * 4096 + 4096 \<le> 16384" using assms(3,4) by simp
  have b: "blit (blit (au_buf sc) (nat i * 4096) ?bs) (nat i * 4096 + length ?bs) (replicate (4096 - length ?bs) 0)
      = blit (au_buf sc) (nat i * 4096) (?bs @ replicate (4096 - length ?bs) 0)"
    using i assms(2) by (intro blit_blit_append) auto
  have f: "user_fragment ?q = ?bs @ replicate (4096 - length ?bs) 0"
    by (simp add: user_fragment_def min_def)
  show "au_buf (audiofs_refill_user_fragment i sc) = blit (au_buf sc) (nat i * 4096) (user_fragment ?q)"
  proof (cases "length ?bs < 4096")
    case True
    then show ?thesis using b assms(3,4)
      by (simp only: audiofs_refill_user_fragment_def t f Let_def prod.case) (simp add: note_xrun_def)
  next
    case False
    then have "user_fragment ?q = ?bs" using f by simp
    then show ?thesis using False assms(3,4) by (simp add: audiofs_refill_user_fragment_def t)
  qed
  show "au_ring (audiofs_refill_user_fragment i sc) = snd (ring_take (au_ring sc))"
    "au_underflow_count (audiofs_refill_user_fragment i sc)
      = au_underflow_count sc + (if ring_used (au_ring sc) < 4096 then 1 else 0)"
    "au_pending_xrun (audiofs_refill_user_fragment i sc)
      = au_pending_xrun sc + of_nat ((4096 - ring_used (au_ring sc)) div 4)"
    using assms(3,4) by (auto simp: audiofs_refill_user_fragment_def t note_xrun_def Let_def)
qed

lemma refill_user_source: "au_source (audiofs_refill_user_fragment i sc) = au_source sc"
  by (simp add: audiofs_refill_user_fragment_def note_xrun_def Let_def split: prod.split)

text \<open>
  \<open>k\<close> turns of the loop on a user stream, \<open>k\<close> at most the number of fragments: the \<open>j\<close>-th
  fragment after the cursor holds the \<open>j\<close>-th 4096 bytes of the ring, padded with silence.
\<close>

lemma mod_shift_inj: "j < n \<Longrightarrow> k < n \<Longrightarrow> (i + j) mod n = (i + k) mod n \<Longrightarrow> j = (k :: nat)"
proof (induction j k rule: linorder_wlog)
  case (le j k)
  then have "n dvd (i + k) - (i + j)" using mod_eq_dvd_iff_nat [of "i + j" "i + k" n] by simp
  then show ?case using le by (auto dest: dvd_imp_le)
qed auto

lemma refill_user_steps:
  assumes "au_source sc = SRC_USER" "ring_ok (au_ring sc)" "length (au_buf sc) = 16384"
    and "au_next_refill sc = int i" "i < 4" "k \<le> 4" "sc' = (refill_one ^^ k) sc"
  shows "au_source sc' = SRC_USER \<and> ring_ok (au_ring sc') \<and> length (au_buf sc') = 16384 \<and>
    queued (au_ring sc') = drop (4096 * k) (queued (au_ring sc)) \<and>
    (\<forall>j<4. field ((i + j) mod 4 * 4096) 4096 (au_buf sc') =
       (if j < k then user_fragment (drop (4096 * j) (queued (au_ring sc)))
        else field ((i + j) mod 4 * 4096) 4096 (au_buf sc)))"
  using assms(6,7)
proof (induction k arbitrary: sc')
  case 0
  then show ?case using assms by simp
next
  case (Suc k)
  define s where "s = (refill_one ^^ k) sc"
  have IH: "au_source s = SRC_USER" "ring_ok (au_ring s)" "length (au_buf s) = 16384"
    "queued (au_ring s) = drop (4096 * k) (queued (au_ring sc))"
    "\<And>j. j < 4 \<Longrightarrow> field ((i + j) mod 4 * 4096) 4096 (au_buf s) =
       (if j < k then user_fragment (drop (4096 * j) (queued (au_ring sc)))
        else field ((i + j) mod 4 * 4096) 4096 (au_buf sc))"
    using Suc.IH [OF _ s_def] Suc.prems(1) by auto
  have ok: "cursor_ok sc" using assms(4,5) by (simp add: cursor_ok_def)
  have "nat (au_next_refill s) = (i + k) mod 4" "cursor_ok s"
    using refill.cursor_turns [OF ok, of k] refill.good_turns [OF ok, of k] assms(4) by (simp_all add: s_def)
  then have nx: "au_next_refill s = int ((i + k) mod 4)" by (auto simp: cursor_ok_def)
  let ?n = "(i + k) mod 4"
  have sc': "sc' = refill_one s" using Suc.prems(2) by (simp add: s_def)
  have r: "au_buf sc' = blit (au_buf s) (?n * 4096) (user_fragment (queued (au_ring s)))"
    "au_ring sc' = snd (ring_take (au_ring s))" "au_source sc' = SRC_USER"
    using refill_user [OF IH(2,3), of "int ?n"] IH(1) nx unfolding sc'
    by (simp_all add: refill_one_def audiofs_refill_fragment_def refill_user_source Let_def)
  have n4: "?n < 4" by simp
  then have fit: "?n * 4096 + 4096 \<le> 16384" by linarith
  have field: "field ((i + j) mod 4 * 4096) 4096 (au_buf sc') =
      (if j = k then user_fragment (queued (au_ring s)) else field ((i + j) mod 4 * 4096) 4096 (au_buf s))"
    if j: "j < 4" for j
  proof (cases "j = k")
    case True
    then show ?thesis using fit IH(3) by (simp add: r(1) field_blit_same)
  next
    case False
    have "(i + j) mod 4 \<noteq> ?n" using mod_shift_inj [OF j, of k i] Suc.prems(1) False by auto
    then have "(i + j) mod 4 * 4096 + 4096 \<le> ?n * 4096 \<or> ?n * 4096 + 4096 \<le> (i + j) mod 4 * 4096" by arith
    then show ?thesis using False fit IH(3) by (simp add: r(1) field_blit_other)
  qed
  have "queued (au_ring sc') = drop (4096 * Suc k) (queued (au_ring sc))"
    using ring_take_prefix(2) [OF IH(2)] by (simp add: r(2) IH(4) add.commute)
  moreover have "length (au_buf sc') = 16384" using fit IH(3) by (simp add: r(1))
  ultimately show ?case
    using r(2,3) ring_take_prefix(3) [OF IH(2)] field IH(4,5) by (auto simp: less_Suc_eq)
qed

end
