(* ===== verification/Audiofs_Lifecycle.thy ===== *)
theory Audiofs_Lifecycle
  imports Audiofs_Refill
begin

text \<open>
  The life of an output stream: the invariant that relates the software state of a
  controller, the registers of the hardware and the ring, and its preservation by every
  operation of the device, by the interrupt path, by the test tone, attach and detach.
\<close>

section \<open>Bits of the control registers\<close>

lemma and_clear: "(a AND NOT k) AND k = (0 :: 'a::len word)"
  by (rule bit_eqI) (auto simp: bit_simps)

lemma and_set: "(a OR k) AND k = (k :: 'a::len word)"
  by (rule bit_eqI) (auto simp: bit_simps)

lemma and_keep_clear: "a AND k = (0 :: 'a::len word) \<Longrightarrow> (a AND m) AND k = 0"
  by (metis and.assoc and.commute and_zero_eq)

lemma or_keep_clear: "a AND k = (0 :: 'a::len word) \<Longrightarrow> m AND k = 0 \<Longrightarrow> (a OR m) AND k = 0"
  by (simp add: bit.conj_disj_distrib2)

section \<open>The invariant\<close>

text \<open>
  A running stream has its buffer, its converter bound in the recorded format, and its run
  and interrupt bits set; a stopped one has them clear. A noted underrun has its report
  scheduled, and an open device plays the user ring.
\<close>

definition running_ok :: "audiofs_softc \<Rightarrow> bool" where
  "running_ok sc \<longleftrightarrow> au_configured sc \<and> length (au_buf sc) = AUDIOFS_BUF_BYTES \<and> au_stream_id sc = 1 \<and>
     unat (au_prev_lpib sc) < AUDIOFS_BUF_BYTES \<and>
     hr_sdctl (au_regs sc) AND SDCTL_RUN_INTS = SDCTL_RUN_INTS \<and>
     hr_intctl (au_regs sc) AND push_bit (au_num_iss sc) 1 \<noteq> 0 \<and>
     audiofs_rate_to_format_word (au_rate_hz sc) = Some (au_format_word sc) \<and>
     hr_fmt (au_regs sc) = au_format_word sc \<and> hr_conv_fmt (au_regs sc) = au_format_word sc \<and>
     hr_conv_stream (au_regs sc) = 0x10"

definition stopped_ok :: "audiofs_softc \<Rightarrow> bool" where
  "stopped_ok sc \<longleftrightarrow> hr_sdctl (au_regs sc) AND SDCTL_RUN_INTS = 0 \<and>
     hr_intctl (au_regs sc) AND push_bit (au_num_iss sc) 1 = 0 \<and> hr_conv_stream (au_regs sc) = 0 \<and> au_pending_xrun sc = 0"

definition stream_ok :: "audiofs_softc \<Rightarrow> bool" where
  "stream_ok sc \<longleftrightarrow> ring_ok (au_ring sc) \<and> au_num_iss sc < 16 \<and> au_stream_idx sc = 0 \<and>
     0 \<le> au_next_refill sc \<and> au_next_refill sc < 4 \<and>
     (au_cdev_open sc \<longrightarrow> au_source sc = SRC_USER) \<and>
     (au_pending_xrun sc \<noteq> 0 \<longrightarrow> au_xrun_enqueued sc) \<and>
     (if au_active sc then running_ok sc else stopped_ok sc)"

lemma sis_mask_ok: "stream_ok sc \<Longrightarrow> sis_mask sc = push_bit (au_num_iss sc) 1"
  by (simp add: stream_ok_def sis_mask_def)

text \<open>The fields the invariant does not mention.\<close>

lemma stream_ok_other [simp]:
  "stream_ok (sc\<lparr>au_refill_miss := a\<rparr>) = stream_ok sc"
  "stream_ok (sc\<lparr>au_refill_multi := b\<rparr>) = stream_ok sc"
  "stream_ok (sc\<lparr>au_underflow_count := c\<rparr>) = stream_ok sc"
  "stream_ok (sc\<lparr>au_last_sdsts := d\<rparr>) = stream_ok sc"
  "stream_ok (sc\<lparr>au_frames_played := e\<rparr>) = stream_ok sc"
  "stream_ok (sc\<lparr>au_clock_total := f\<rparr>) = stream_ok sc"
  "stream_ok (sc\<lparr>au_dac_cad := g\<rparr>) = stream_ok sc"
  "stream_ok (sc\<lparr>au_dac_nid := h\<rparr>) = stream_ok sc"
  "stream_ok (sc\<lparr>au_bdl_paddr := i\<rparr>) = stream_ok sc"
  "stream_ok (sc\<lparr>au_buf_paddr := j\<rparr>) = stream_ok sc"
  "stream_ok (sc\<lparr>au_endpoint_slot := k\<rparr>) = stream_ok sc"
  "stream_ok (sc\<lparr>au_xrun_gap_pos := l\<rparr>) = stream_ok sc"
  "stream_ok (sc\<lparr>au_xrun_coalesced := m\<rparr>) = stream_ok sc"
  by (simp_all add: stream_ok_def running_ok_def stopped_ok_def)

abbreviation all_ok :: "audiofs_globals \<Rightarrow> bool" where
  "all_ok g \<equiv> \<forall>u. stream_ok (ag_softc g u)"

lemma all_ok_upd: "all_ok g \<Longrightarrow> ag_softc g' = (ag_softc g)(u := sc) \<Longrightarrow> stream_ok sc \<Longrightarrow> all_ok g'"
  by simp

lemma clock_softc [simp, frame_simps]:
  "ag_softc (audiofs_clock_update sc g) = ag_softc g"
  "ag_softc (audiofs_clock_stream_begin r g) = ag_softc g"
  "ag_softc (audiofs_clock_open ok g) = ag_softc g"
  "ag_softc (dma_free a g) = ag_softc g"
  by (simp_all add: audiofs_clock_update_def audiofs_clock_stream_begin_def audiofs_clock_open_def
      dma_free_def Let_def)

lemma attach_softc_ok [simp]: "fst streams < 16 \<Longrightarrow> stream_ok (attach_softc streams ok64 pci codecs)"
  by (simp add: stream_ok_def stopped_ok_def attach_softc_def)

section \<open>The interrupt path\<close>

lemma stream_ok_filter: "stream_ok sc \<Longrightarrow> stream_ok (snd (audiofs_intr_filter intsts sdsts sc))"
  by (cases "au_active sc") (simp_all add: audiofs_intr_filter_def stream_ok_def running_ok_def stopped_ok_def)

text \<open>A refill changes the buffer, the ring, the cursor and the underrun counters only.\<close>

lemma refill_one_frame:
  "au_active (refill_one sc) = au_active sc" "au_regs (refill_one sc) = au_regs sc"
  "au_configured (refill_one sc) = au_configured sc" "au_stream_id (refill_one sc) = au_stream_id sc"
  "au_stream_idx (refill_one sc) = au_stream_idx sc" "au_num_iss (refill_one sc) = au_num_iss sc"
  "au_prev_lpib (refill_one sc) = au_prev_lpib sc" "au_rate_hz (refill_one sc) = au_rate_hz sc"
  "au_format_word (refill_one sc) = au_format_word sc" "au_cdev_open (refill_one sc) = au_cdev_open sc"
  "au_source (refill_one sc) = au_source sc" "au_frames_played (refill_one sc) = au_frames_played sc"
  "au_clock_total (refill_one sc) = au_clock_total sc"
  by (cases "au_source sc"; simp add: refill_one_def audiofs_refill_fragment_def audiofs_refill_user_fragment_def
      audiofs_refill_sine_fragment_def note_xrun_def Let_def split_beta)+

lemma refill_one_enqueued:
  "au_pending_xrun sc \<noteq> 0 \<longrightarrow> au_xrun_enqueued sc \<Longrightarrow>
   au_pending_xrun (refill_one sc) \<noteq> 0 \<longrightarrow> au_xrun_enqueued (refill_one sc)"
  by (simp add: refill_one_def audiofs_refill_fragment_def audiofs_refill_user_fragment_def
      audiofs_refill_sine_fragment_def note_xrun_def Let_def split: stream_source.split prod.split)

lemma length_sine_frames: "length (sine_frames base n) = 4 * n"
  by (induction n) (simp_all add: sine_frames_def Let_def)

lemma refill_one_data:
  assumes "ring_ok (au_ring sc)" "length (au_buf sc) = 16384" "0 \<le> au_next_refill sc" "au_next_refill sc < 4"
  shows "ring_ok (au_ring (refill_one sc))" "length (au_buf (refill_one sc)) = 16384"
proof -
  have fit: "nat (au_next_refill sc) * 4096 + 4096 \<le> 16384" using assms(3,4) by simp
  have "ring_ok (au_ring (refill_one sc)) \<and> length (au_buf (refill_one sc)) = 16384"
  proof (cases "au_source sc")
    case SRC_SINE
    then show ?thesis using assms fit
      by (simp add: refill_one_def audiofs_refill_fragment_def audiofs_refill_sine_fragment_def Let_def
          length_sine_frames)
  next
    case SRC_USER
    then show ?thesis
      using fit assms(2) refill_user(1,2) [OF assms] ring_take_prefix(3) [OF assms(1)]
      by (simp add: refill_one_def audiofs_refill_fragment_def Let_def)
  qed
  then show "ring_ok (au_ring (refill_one sc))" "length (au_buf (refill_one sc)) = 16384" by simp_all
qed

lemma stream_ok_refill_one: "stream_ok sc \<Longrightarrow> au_active sc \<Longrightarrow> stream_ok (refill_one sc)"
  using refill_one_data [of sc] refill_one_enqueued [of sc]
  by (simp add: stream_ok_def running_ok_def refill_one_frame)

lemma stream_ok_refill_steps:
  "stream_ok sc \<Longrightarrow> au_active sc \<Longrightarrow> stream_ok ((refill_one ^^ k) sc) \<and> au_active ((refill_one ^^ k) sc)"
  by (induction k) (auto simp: stream_ok_refill_one refill_one_frame)

lemma stream_ok_note_xrun: "stream_ok sc \<Longrightarrow> au_active sc \<Longrightarrow> stream_ok (note_xrun n sc)"
  by (simp add: stream_ok_def running_ok_def note_xrun_def Let_def)

lemma stream_ok_advance:
  "stream_ok sc \<Longrightarrow> stream_ok (advance_frames lpib sc)"
  by (cases "au_active sc") (simp_all add: stream_ok_def running_ok_def stopped_ok_def advance_frames_def Let_def)

lemma stream_ok_cursor: "stream_ok sc \<Longrightarrow> cursor_ok sc"
  by (simp add: stream_ok_def cursor_ok_def)

lemma intr_bcis_steps:
  assumes "stream_ok sc" "unat lpib < AUDIOFS_BUF_BYTES" "k = refill.distance (unat lpib div 4096) sc"
  shows "intr_bcis lpib sc = Some (let s = (refill_one ^^ k) sc
     in if k = 0 then s\<lparr>au_refill_miss := au_refill_miss s + 1\<rparr>
        else if 2 \<le> k then s\<lparr>au_refill_multi := au_refill_multi s + 1\<rparr> else s)"
proof -
  have "unat lpib div 4096 < 4" using assms(2) by (simp add: less_mult_imp_div_less)
  then show ?thesis
    unfolding intr_bcis_def assms(3) refill.loop_iff [OF stream_ok_cursor [OF assms(1)]]
    by (simp add: Let_def)
qed

lemma stream_ok_bcis:
  assumes "stream_ok sc" "au_active sc" "unat lpib < AUDIOFS_BUF_BYTES"
  shows "\<exists>sc'. intr_bcis lpib sc = Some sc' \<and> stream_ok sc' \<and> au_active sc'"
  using assms(1,2) intr_bcis_steps [OF assms(1,3) refl]
    stream_ok_refill_steps [OF assms(1,2), of "refill.distance (unat lpib div 4096) sc"]
  by (simp add: Let_def)

lemma stream_ok_fifoe: "stream_ok sc \<Longrightarrow> au_active sc \<Longrightarrow> stream_ok (intr_fifoe sc)"
  by (simp add: intr_fifoe_def stream_ok_note_xrun)

lemma all_ok_intr_thread:
  assumes "all_ok g" "unat lpib < AUDIOFS_BUF_BYTES"
  shows "\<exists>g'. audiofs_intr_thread u lpib g = Some g' \<and> all_ok g'"
proof (cases "au_active (ag_softc g u)")
  case False
  then show ?thesis using assms(1) by (simp add: audiofs_intr_thread_def)
next
  case True
  let ?sc = "ag_softc g u"
  let ?s1 = "advance_frames lpib (?sc\<lparr>au_last_sdsts := 0\<rparr>)"
  let ?s2 = "?s1\<lparr>au_prev_lpib := lpib\<rparr>"
  have "stream_ok (?sc\<lparr>au_last_sdsts := 0\<rparr>)"
    using assms(1) by simp
  then have "stream_ok ?s1" by (rule stream_ok_advance)
  then have s2: "stream_ok ?s2" "au_active ?s2" using assms(2) True
    by (simp_all add: stream_ok_def running_ok_def advance_frames_def Let_def)
  obtain s3 where s3: "(if au_last_sdsts ?sc AND 4 \<noteq> 0 then intr_bcis lpib ?s2 else Some ?s2) = Some s3"
    "stream_ok s3" "au_active s3"
    using stream_ok_bcis [OF s2 assms(2)] s2 by (cases "au_last_sdsts ?sc AND 4 \<noteq> 0") auto
  let ?s4 = "if au_last_sdsts ?sc AND 8 \<noteq> 0 then intr_fifoe s3 else s3"
  have "audiofs_intr_thread u lpib g = Some (upd_sc u (\<lambda>_. ?s4) (audiofs_clock_update ?s1 g))"
    unfolding audiofs_intr_thread_def Let_def using True s3(1) by simp
  moreover have "stream_ok ?s4" using s3 stream_ok_fifoe by simp
  ultimately show ?thesis using assms(1) by (simp split: if_splits)
qed

section \<open>Start and end\<close>

lemma stopped_configure:
  assumes "stream_ok sc" "\<not> au_active sc"
  shows "stream_ok (configure_registers sc)" "\<not> au_active (configure_registers sc)"
proof -
  have c: "hr_sdctl (au_regs sc) AND 0x1e = 0" using assms by (simp add: stream_ok_def stopped_ok_def)
  have "hr_sdctl (au_regs (configure_registers sc)) AND 0x1e = 0"
    unfolding configure_registers_def audiofs_output_stream_reset_def Let_def
    by (simp, intro or_keep_clear and_keep_clear c) simp_all
  then show "stream_ok (configure_registers sc)" "\<not> au_active (configure_registers sc)"
    using assms
    by (simp_all add: stream_ok_def stopped_ok_def configure_registers_def audiofs_output_stream_reset_def Let_def)
qed

text \<open>What the configuration leaves: a stopped stream, and on success one ready to run.\<close>

definition configured_for :: "audiofs_softc \<Rightarrow> bool" where
  "configured_for sc \<longleftrightarrow> au_configured sc \<and> length (au_buf sc) = AUDIOFS_BUF_BYTES \<and> au_stream_id sc = 1 \<and>
     hr_fmt (au_regs sc) = au_format_word sc"

definition keeps_device :: "audiofs_softc \<Rightarrow> audiofs_softc \<Rightarrow> bool" where
  "keeps_device sc sc' \<longleftrightarrow> au_cdev_open sc' = au_cdev_open sc \<and> au_source sc' = au_source sc \<and>
     au_ring sc' = au_ring sc \<and> au_clock_total sc' = au_clock_total sc \<and> au_codecs sc' = au_codecs sc"

lemma configure_softc:
  assumes "audiofs_configure_output_stream u allocs g = (e, g')"
    and "stream_ok (ag_softc g u)" "\<not> au_active (ag_softc g u)"
  shows "\<exists>sc'. ag_softc g' = (ag_softc g)(u := sc') \<and> stream_ok sc' \<and> \<not> au_active sc' \<and>
    keeps_device (ag_softc g u) sc' \<and> au_format_word sc' = au_format_word (ag_softc g u) \<and>
    au_rate_hz sc' = au_rate_hz (ag_softc g u) \<and> (e = 0 \<longrightarrow> configured_for sc')"
proof -
  let ?sc = "ag_softc g u"
  show ?thesis
  proof (cases "au_num_oss ?sc < 1 \<or> select_dac (au_codecs ?sc) = None")
    case True
    then have "e \<noteq> 0 \<and> g' = g" using assms(1)
      by (auto simp: audiofs_configure_output_stream_def Let_def split: if_splits)
    then show ?thesis using assms(2,3) by (intro exI [of _ ?sc]) (simp add: keeps_device_def)
  next
    case False
    then obtain cad dac where d: "select_dac (au_codecs ?sc) = Some (cad, dac)" "\<not> au_num_oss ?sc < 1" by auto
    let ?s1 = "?sc\<lparr>au_dac_cad := int cad, au_dac_nid := dac\<rparr>"
    show ?thesis
    proof (cases "fst allocs")
      case None
      then have "e \<noteq> 0 \<and> ag_softc g' = (ag_softc g)(u := ?s1\<lparr>au_bdl_paddr := 0\<rparr>)"
        using assms(1) d by (auto simp: audiofs_configure_output_stream_def Let_def)
      then show ?thesis using assms(2,3)
        by (intro exI [of _ "?s1\<lparr>au_bdl_paddr := 0\<rparr>"]) (simp add: keeps_device_def)
    next
      case (Some bdl)
      show ?thesis
      proof (cases "snd allocs")
        case None
        then have "e \<noteq> 0 \<and> ag_softc g' = (ag_softc g)(u := ?s1\<lparr>au_bdl_paddr := 0, au_buf_paddr := 0\<rparr>)"
          using assms(1) d Some by (auto simp: audiofs_configure_output_stream_def Let_def)
        then show ?thesis using assms(2,3)
          by (intro exI [of _ "?s1\<lparr>au_bdl_paddr := 0, au_buf_paddr := 0\<rparr>"]) (simp add: keeps_device_def)
      next
        case (Some bp)
        let ?s2 = "?s1\<lparr>au_bdl_paddr := bdl, au_buf_paddr := bp, au_buf := sine_frames 0 4096,
          au_bdl := map (\<lambda>i. \<lparr>bd_addr = bp + of_nat i * 4096, bd_len = 4096, bd_ioc = 1\<rparr>) [0..<4]\<rparr>"
        have g': "e = 0 \<and> ag_softc g' = (ag_softc g)(u := configure_registers ?s2)"
          using assms(1) d Some \<open>fst allocs = Some bdl\<close>
          by (auto simp: audiofs_configure_output_stream_def Let_def)
        have "stream_ok ?s2" "\<not> au_active ?s2"
          using assms(2,3) by (simp_all add: stream_ok_def stopped_ok_def)
        from stopped_configure [OF this] g' show ?thesis
          by (intro exI [of _ "configure_registers ?s2"])
            (simp add: keeps_device_def configured_for_def configure_registers_def
              audiofs_output_stream_reset_def Let_def length_sine_frames)
      qed
    qed
  qed
qed

lemma start_running:
  assumes "stream_ok sc" "\<not> au_active sc" "configured_for sc"
    and "audiofs_rate_to_format_word (au_rate_hz sc) = Some (au_format_word sc)"
  shows "stream_ok (start_dma (bind_converter sc))" "au_active (start_dma (bind_converter sc))"
proof -
  have n: "au_num_iss sc < 16" "au_stream_idx sc = 0" using assms(1) by (simp_all add: stream_ok_def)
  let ?m = "push_bit (au_num_iss sc) 1 :: u32"
  have "?m \<noteq> 0" using n(1) by (simp add: push_bit_eq_0_iff take_bit_eq_0_iff)
  moreover have "(hr_intctl (au_regs sc) OR push_bit 31 1 OR push_bit 30 1 OR ?m) AND ?m = ?m"
    by (rule bit_eqI) (auto simp: bit_simps)
  ultimately have "running_ok (start_dma (bind_converter sc))"
    using assms(3,4) n(2)
    by (simp add: running_ok_def configured_for_def start_dma_def bind_converter_def sis_mask_def and_set)
  then show "stream_ok (start_dma (bind_converter sc))" "au_active (start_dma (bind_converter sc))"
    using assms(1,2) by (simp_all add: stream_ok_def stopped_ok_def start_dma_def bind_converter_def)
qed

lemma stream_begin_softc:
  assumes "audiofs_stream_begin u f c r allocs g = (e, g')" "stream_ok (ag_softc g u)"
  shows "\<exists>sc'. ag_softc g' = (ag_softc g)(u := sc') \<and> stream_ok sc' \<and>
    au_active sc' = (au_active (ag_softc g u) \<or> e = 0) \<and> keeps_device (ag_softc g u) sc'"
proof -
  let ?sc = "ag_softc g u"
  show ?thesis
  proof (cases "c \<noteq> 2 \<or> audiofs_rate_to_format_word r \<noteq> Some f \<or>
      \<not> audiofs_psr_has_rate (audiofs_output_dac_psr ?sc) r \<or> au_active ?sc")
    case True
    then have "g' = g \<and> e \<noteq> 0" using assms(1)
      by (auto simp: audiofs_stream_begin_def Let_def split: if_splits)
    then show ?thesis using assms(2) by (intro exI [of _ ?sc]) (simp add: keeps_device_def)
  next
    case False
    let ?s1 = "?sc\<lparr>au_format_word := f, au_rate_hz := r\<rparr>"
    let ?g1 = "upd_sc u (\<lambda>sc. sc\<lparr>au_format_word := f, au_rate_hz := r\<rparr>) g"
    obtain e1 g2 where c: "audiofs_configure_output_stream u allocs ?g1 = (e1, g2)" by (metis surj_pair)
    have "stream_ok ?s1" "\<not> au_active ?s1" using assms(2) False by (simp_all add: stream_ok_def stopped_ok_def)
    then have "stream_ok (ag_softc ?g1 u)" "\<not> au_active (ag_softc ?g1 u)" by simp_all
    from configure_softc [OF c this] obtain s2 where s2: "ag_softc g2 = (ag_softc g)(u := s2)" "stream_ok s2"
      "\<not> au_active s2" "keeps_device ?s1 s2" "au_format_word s2 = f" "au_rate_hz s2 = r"
      "e1 = 0 \<longrightarrow> configured_for s2" by auto
    show ?thesis
    proof (cases "e1 = 0")
      case False': False
      then have "e = e1 \<and> g' = g2" using assms(1) False c by (simp add: audiofs_stream_begin_def Let_def)
      then show ?thesis using s2 False False' by (intro exI [of _ s2]) (simp add: keeps_device_def)
    next
      case True
      then have "e = 0 \<and> ag_softc g' = (ag_softc g)(u := start_dma (bind_converter s2))"
        using assms(1) False c s2(1) by (auto simp: audiofs_stream_begin_def Let_def)
      moreover have "keeps_device ?sc (start_dma (bind_converter s2))"
        using s2(4) by (simp add: keeps_device_def start_dma_def bind_converter_def)
      ultimately show ?thesis
        using start_running [OF s2(2,3)] s2 True False by (intro exI [of _ "start_dma (bind_converter s2)"]) simp
    qed
  qed
qed

lemma stopped_end:
  assumes "stream_ok sc" "au_active sc"
  shows "stream_ok ((advance_frames lpib (stop_dma ((clear_pending sc)\<lparr>au_active := False, au_xrun_enqueued := False\<rparr>)))
      \<lparr>au_regs := (au_regs (stop_dma sc))\<lparr>hr_conv_stream := 0\<rparr>\<rparr>)"
  using assms sis_mask_ok [OF assms(1)] and_clear [of "hr_sdctl (au_regs sc)" 30]
  by (simp add: stream_ok_def stopped_ok_def advance_frames_def stop_dma_def clear_pending_def sis_mask_def
      and_clear Let_def)

lemma stream_end_softc:
  assumes "audiofs_stream_end u sid lpib g = (e, g')" "stream_ok (ag_softc g u)"
  shows "\<exists>sc'. ag_softc g' = (ag_softc g)(u := sc') \<and> stream_ok sc' \<and>
    (e = 0 \<longrightarrow> \<not> au_active sc') \<and> (e \<noteq> 0 \<longrightarrow> sc' = ag_softc g u) \<and>
    au_cdev_open sc' = au_cdev_open (ag_softc g u) \<and> au_source sc' = au_source (ag_softc g u) \<and>
    au_ring sc' = au_ring (ag_softc g u)"
proof (cases "\<not> au_active (ag_softc g u) \<or> sid \<noteq> au_stream_id (ag_softc g u)")
  case True
  then have "g' = g \<and> e \<noteq> 0" using assms(1) by (auto simp: audiofs_stream_end_def Let_def split: if_splits)
  then show ?thesis using assms(2) by simp
next
  case False
  let ?sc = "ag_softc g u"
  let ?s = "(advance_frames lpib (stop_dma ((clear_pending ?sc)\<lparr>au_active := False, au_xrun_enqueued := False\<rparr>)))
      \<lparr>au_regs := (au_regs (stop_dma ?sc))\<lparr>hr_conv_stream := 0\<rparr>\<rparr>"
  have "e = 0 \<and> ag_softc g' = (ag_softc g)(u := ?s)"
    using assms(1) False
    by (auto simp: audiofs_stream_end_def publish_xrun_def advance_frames_def stop_dma_def clear_pending_def
        sis_mask_def Let_def split: if_splits)
  then show ?thesis using stopped_end [OF assms(2)] False
    by (intro exI [of _ ?s]) (simp add: advance_frames_def stop_dma_def clear_pending_def Let_def)
qed

lemma all_ok_begin: "all_ok g \<Longrightarrow> all_ok (snd (audiofs_stream_begin u f c r allocs g))"
proof -
  assume a: "all_ok g"
  obtain e g' where b: "audiofs_stream_begin u f c r allocs g = (e, g')" by (metis surj_pair)
  from stream_begin_softc [OF b spec [OF a]] obtain sc' where
    "ag_softc g' = (ag_softc g)(u := sc')" "stream_ok sc'" by blast
  then show ?thesis using all_ok_upd [OF a] by (simp add: b)
qed

lemma all_ok_end: "all_ok g \<Longrightarrow> all_ok (snd (audiofs_stream_end u sid lpib g))"
proof -
  assume a: "all_ok g"
  obtain e g' where b: "audiofs_stream_end u sid lpib g = (e, g')" by (metis surj_pair)
  from stream_end_softc [OF b spec [OF a]] obtain sc' where
    "ag_softc g' = (ag_softc g)(u := sc')" "stream_ok sc'" by blast
  then show ?thesis using all_ok_upd [OF a] by (simp add: b)
qed

section \<open>The device\<close>

lemma ring_reset_ok: "ring_ok r \<Longrightarrow> ring_ok (r\<lparr>ur_head := 0, ur_tail := 0\<rparr>)"
  by (simp add: ring_ok_def ring_used_def)

lemma stream_ok_open: "stream_ok sc \<Longrightarrow> stream_ok (audiofs_source_set SRC_USER (sc\<lparr>au_cdev_open := True\<rparr>))"
  using ring_reset_ok [of "au_ring sc"]
  by (cases "au_active sc") (simp_all add: stream_ok_def running_ok_def stopped_ok_def audiofs_source_set_def)

lemma stream_ok_close: "stream_ok sc \<Longrightarrow> stream_ok (audiofs_source_set SRC_SINE (sc\<lparr>au_cdev_open := False\<rparr>))"
  "stream_ok sc \<Longrightarrow> stream_ok (sc\<lparr>au_cdev_open := False\<rparr>)"
  by (cases "au_active sc"; simp add: stream_ok_def running_ok_def stopped_ok_def audiofs_source_set_def)+

lemma stream_ok_ring: "stream_ok sc \<Longrightarrow> ring_ok r \<Longrightarrow> stream_ok (sc\<lparr>au_ring := r\<rparr>)"
  by (cases "au_active sc") (simp_all add: stream_ok_def running_ok_def stopped_ok_def)

lemma all_ok_open: "all_ok g \<Longrightarrow> all_ok (snd (audiofs_cdev_open u allocs g))"
proof -
  assume a: "all_ok g"
  let ?g1 = "upd_sc u (\<lambda>sc. audiofs_source_set SRC_USER (sc\<lparr>au_cdev_open := True\<rparr>)) g"
  have g1: "all_ok ?g1" using a stream_ok_open by simp
  obtain e g2 where b: "audiofs_stream_begin u 0x0011 2 48000 allocs ?g1 = (e, g2)" by (metis surj_pair)
  have g2: "all_ok g2" using all_ok_begin [OF g1, of u "0x0011" 2 48000 allocs] b by simp
  have "all_ok (upd_sc u (\<lambda>sc. audiofs_source_set SRC_SINE (sc\<lparr>au_cdev_open := False\<rparr>)) g2)"
    using g2 stream_ok_close(1) by simp
  then show ?thesis using a g1 g2 b by (simp add: audiofs_cdev_open_def Let_def del: upd_sc_simps)
qed

lemma all_ok_close: "all_ok g \<Longrightarrow> all_ok (snd (audiofs_cdev_close u lpib g))"
proof -
  assume a: "all_ok g"
  let ?f = "\<lambda>sc. let sc = sc\<lparr>au_cdev_open := False\<rparr>
      in if ag_test_tone g \<noteq> 0 then audiofs_source_set SRC_SINE sc else sc"
  have g1: "all_ok (upd_sc u ?f g)" using a stream_ok_close by (simp add: Let_def)
  show ?thesis
  proof (cases "ag_test_tone g = 0")
    case True
    then show ?thesis using all_ok_end [OF g1] by (simp add: audiofs_cdev_close_def Let_def del: upd_sc_simps)
  next
    case False
    then show ?thesis using g1 by (simp add: audiofs_cdev_close_def Let_def del: upd_sc_simps)
  qed
qed

lemma all_ok_set_format: "all_ok g \<Longrightarrow> all_ok (snd (ioctl_set_format u f lpib allocs retry g))"
proof -
  assume a: "all_ok g"
  let ?g1 = "upd_sc u (\<lambda>sc. sc\<lparr>au_ring := ring_flush (au_ring sc)\<rparr>) g"
  have "ring_ok (au_ring (ag_softc g u))" using a by (simp add: stream_ok_def)
  then have g1: "all_ok ?g1" using a stream_ok_ring ring_flush_ok by simp
  obtain e g2 where e: "audiofs_stream_end u (au_stream_id (ag_softc g u)) lpib ?g1 = (e, g2)" by (metis surj_pair)
  have g2: "all_ok g2" using all_ok_end [OF g1, of u "au_stream_id (ag_softc g u)" lpib] e by simp
  have b: "all_ok (snd (audiofs_stream_begin u w 2 r al g2))" for w r al by (rule all_ok_begin [OF g2])
  have "all_ok (snd (audiofs_stream_begin u w' 2 r' al' (snd (audiofs_stream_begin u w 2 r al g2))))"
    for w r al w' r' al' by (rule all_ok_begin [OF b])
  then show ?thesis using a g2 b e
    by (simp add: ioctl_set_format_def Let_def split_beta split: option.split del: upd_sc_simps)
qed

lemma all_ok_write:
  assumes "all_ok g" "cdev_write u uio g = Some (e, uio', g')"
    and "uio_off uio = 0" "length (uio_data uio) < 2 ^ 63" "length (uio_data uio) \<le> uio_readable uio"
  shows "all_ok g'"
proof -
  have ok: "ring_ok (au_ring (ag_softc g u))" using assms(1) by (simp add: stream_ok_def)
  from write_alone [OF ok assms(3,4,5) refl] obtain r' e' u' where
    w: "audiofs_cdev_write (au_ring (ag_softc g u)) uio = Some (r', WDone e' u')" "ring_ok r'" by blast
  have "g' = upd_sc u (\<lambda>sc. sc\<lparr>au_ring := r'\<rparr>) g" using assms(2) w(1) by (simp add: cdev_write_def)
  then show ?thesis using assms(1) w(2) stream_ok_ring by simp
qed

lemma all_ok_xrun_task: "all_ok g \<Longrightarrow> all_ok (audiofs_xrun_task u g)"
proof -
  assume a: "all_ok g"
  have "stream_ok sc \<Longrightarrow> au_active sc \<Longrightarrow> stream_ok (clear_pending (sc\<lparr>au_xrun_enqueued := False\<rparr>))" for sc
    by (simp add: clear_pending_def stream_ok_def running_ok_def)
  moreover have "stream_ok sc \<Longrightarrow> \<not> au_active sc \<Longrightarrow> stream_ok (sc\<lparr>au_xrun_enqueued := False\<rparr>)" for sc
    by (simp add: stream_ok_def stopped_ok_def)
  ultimately show ?thesis using a
    by (simp add: audiofs_xrun_task_def publish_xrun_def Let_def)
qed

lemma all_ok_tone:
  assumes "all_ok g"
  shows "all_ok (audiofs_sysctl_test_tone v lpibs allocs g)"
proof -
  have "all_ok (toggle_tone v lpibs allocs u g)" if "all_ok g" for u g
    using that all_ok_begin [OF that] all_ok_end [OF that] by (simp add: toggle_tone_def Let_def)
  then have "all_ok g \<Longrightarrow> all_ok (fold (toggle_tone v lpibs allocs) us g)" for us g
    by (induction us arbitrary: g) auto
  then show ?thesis using assms by (simp add: audiofs_sysctl_test_tone_def Let_def)
qed

section \<open>Attach and detach\<close>

lemma emit_softc:
  "ag_softc (fold (emit_attach i) xs g) = ag_softc g" "ag_test_tone (fold (emit_attach i) xs g) = ag_test_tone g"
  by (induction xs arbitrary: g) (simp_all add: emit_attach_def)

lemma open_files_softc [simp]:
  "ag_softc (audiofs_events_emit_endpoint_attaches i g) = ag_softc g"
  "ag_test_tone (audiofs_events_emit_endpoint_attaches i g) = ag_test_tone g"
  "ag_softc (audiofs_events_set_valid g) = ag_softc g"
  "ag_test_tone (audiofs_events_set_valid g) = ag_test_tone g"
  "ag_softc (audiofs_events_open_file ok g) = ag_softc g"
  "ag_test_tone (audiofs_events_open_file ok g) = ag_test_tone g"
  "ag_softc (audiofs_state_open_file ok g) = ag_softc g"
  "ag_test_tone (audiofs_state_open_file ok g) = ag_test_tone g"
  "ag_test_tone (audiofs_clock_open ok g) = ag_test_tone g"
  by (simp_all add: audiofs_events_emit_endpoint_attaches_def emit_softc audiofs_events_set_valid_def
      audiofs_events_open_file_def audiofs_state_open_file_def audiofs_clock_open_def Let_def split_beta
      split: option.split)

lemma register_softc [simp]:
  "ag_softc (audiofs_state_register u opens g) = ag_softc g"
  "ag_test_tone (audiofs_state_register u opens g) = ag_test_tone g"
  by (simp_all add: audiofs_state_register_def Let_def split_beta)

lemma all_ok_attach:
  "all_ok g \<Longrightarrow> stream_ok sc \<Longrightarrow> all_ok (attach_stream u sc opens allocs g)"
proof -
  assume a: "all_ok g" "stream_ok sc"
  then have "all_ok (audiofs_state_register u opens (upd_sc u (\<lambda>_. sc) g))" by simp
  then show ?thesis using all_ok_begin by (simp add: attach_stream_def Let_def)
qed

lemma unregister_softc [simp]: "ag_softc (audiofs_state_unregister u g) = ag_softc g"
  by (simp add: audiofs_state_unregister_def)

text \<open>What detach leaves: the stream ended and the controller's interrupts off.\<close>

lemma all_ok_detach_end:
  assumes a: "all_ok g"
  shows "all_ok (detach_end u lpib g)" "\<not> au_active (ag_softc (detach_end u lpib g) u)"
proof -
  define g1 where "g1 = (if au_active (ag_softc g u)
      then snd (audiofs_stream_end u (au_stream_id (ag_softc g u)) lpib g) else g)"
  have g1: "all_ok g1" using a all_ok_end by (simp add: g1_def)
  have n: "\<not> au_active (ag_softc g1 u)"
  proof (cases "au_active (ag_softc g u)")
    case True
    obtain e g' where e: "audiofs_stream_end u (au_stream_id (ag_softc g u)) lpib g = (e, g')" by (metis surj_pair)
    have "e = 0" using e True by (auto simp: audiofs_stream_end_def Let_def)
    then show ?thesis using stream_end_softc [OF e spec [OF a]] True e by (auto simp: g1_def)
  qed (simp add: g1_def)
  let ?sc = "ag_softc g1 u"
  have "stream_ok (?sc\<lparr>au_regs := (au_regs ?sc)\<lparr>hr_intctl := hr_intctl (au_regs ?sc) AND NOT (push_bit 31 1 OR push_bit 30 1)\<rparr>\<rparr>)"
    using spec [OF g1, of u] n and_keep_clear [of "hr_intctl (au_regs ?sc)"] by (simp add: stream_ok_def stopped_ok_def)
  then show "all_ok (detach_end u lpib g)" using g1 by (simp add: detach_end_def g1_def [symmetric] Let_def)
  show "\<not> au_active (ag_softc (detach_end u lpib g) u)" using n by (simp add: detach_end_def g1_def [symmetric] Let_def)
qed

lemma all_ok_detach: "all_ok g \<Longrightarrow> all_ok (detach_stream u lpib g)"
proof -
  assume a: "all_ok g"
  let ?g = "detach_end u lpib g"
  have "stream_ok (ag_softc ?g u\<lparr>au_buf_paddr := 0, au_bdl_paddr := 0, au_configured := False\<rparr>)"
    using spec [OF all_ok_detach_end(1) [OF a, of u lpib], of u] all_ok_detach_end(2) [OF a, of u lpib]
    by (simp add: stream_ok_def stopped_ok_def)
  then show ?thesis using all_ok_detach_end(1) [OF a, of u lpib] by (simp add: detach_stream_def detach_dma_def Let_def)
qed

section \<open>The driver as a step relation\<close>

text \<open>
  Any controller may take any of these steps at any time. The hardware reports a link
  position inside the cyclic buffer it was given, as the specification of the controller says.
\<close>

inductive audiofs_step :: "audiofs_globals \<Rightarrow> audiofs_globals \<Rightarrow> bool" where
  step_open: "audiofs_step g (snd (audiofs_cdev_open u allocs g))"
| step_close: "unat lpib < AUDIOFS_BUF_BYTES \<Longrightarrow> audiofs_step g (snd (audiofs_cdev_close u lpib g))"
| step_write: "cdev_write u uio g = Some (e, uio', g') \<Longrightarrow> uio_off uio = 0 \<Longrightarrow>
    length (uio_data uio) < 2 ^ 63 \<Longrightarrow> length (uio_data uio) \<le> uio_readable uio \<Longrightarrow> audiofs_step g g'"
| step_ioctl: "unat lpib < AUDIOFS_BUF_BYTES \<Longrightarrow>
    audiofs_step g (snd (snd (audiofs_cdev_ioctl u cmd lpib allocs retry g)))"
| step_filter: "audiofs_step g (upd_sc u (\<lambda>sc. snd (audiofs_intr_filter intsts sdsts sc)) g)"
| step_thread: "unat lpib < AUDIOFS_BUF_BYTES \<Longrightarrow> audiofs_intr_thread u lpib g = Some g' \<Longrightarrow> audiofs_step g g'"
| step_task: "audiofs_step g (audiofs_xrun_task u g)"
| step_tone: "audiofs_step g (audiofs_sysctl_test_tone v lpibs allocs g)"
| step_attach: "fst streams < 16 \<Longrightarrow>
    audiofs_step g (attach_stream u (attach_softc streams ok64 pci codecs) opens allocs g)"
| step_detach: "unat lpib < AUDIOFS_BUF_BYTES \<Longrightarrow> audiofs_step g (detach_stream u lpib g)"
| step_time: "audiofs_step g (g\<lparr>ag_now := t\<rparr>)"

text \<open>The module before the first controller attaches.\<close>

definition audiofs_boot :: "(nat \<Rightarrow> bool) \<Rightarrow> audiofs_globals" where
  "audiofs_boot io = \<lparr>ag_softc = (\<lambda>_. attach_softc (0, 0, 0) False (0, 0, 0, 0) []), ag_registry = [],
     ag_initialized = False, ag_state_open = False, ag_state_file = None, ag_inventory_seq = 0,
     ag_next_endpoint_id = 1, ag_events_buf = None, ag_events_open = False, ag_events_file = None,
     ag_writer_seq = 0, ag_earliest_seq = 1, ag_clock_mapped = False, ag_clock = [], ag_test_tone = 0,
     ag_dma_live = [], ag_notified = 0, ag_now = 0, ag_io = io, ag_io_count = 0\<rparr>"

lemma all_ok_boot: "all_ok (audiofs_boot io)"
  by (simp add: audiofs_boot_def)

lemma all_ok_ioctl: "all_ok g \<Longrightarrow> all_ok (snd (snd (audiofs_cdev_ioctl u cmd lpib allocs retry g)))"
  using all_ok_set_format [of g u _ lpib allocs retry]
  by (cases cmd) (simp_all add: audiofs_cdev_ioctl_def Let_def split_beta)

lemma all_ok_step: "audiofs_step g g' \<Longrightarrow> all_ok g \<Longrightarrow> all_ok g'"
proof (induction rule: audiofs_step.induct)
  case step_open
  then show ?case by (rule all_ok_open)
next
  case step_close
  show ?case by (rule all_ok_close [OF step_close.prems])
next
  case step_write
  show ?case by (rule all_ok_write [OF step_write.prems step_write.hyps])
next
  case step_ioctl
  show ?case by (rule all_ok_ioctl [OF step_ioctl.prems])
next
  case step_filter
  then show ?case by (simp add: stream_ok_filter)
next
  case (step_thread lpib u g g')
  then show ?case using all_ok_intr_thread [OF step_thread.prems step_thread.hyps(1), of u] by force
next
  case step_task
  then show ?case by (rule all_ok_xrun_task)
next
  case step_tone
  then show ?case by (rule all_ok_tone)
next
  case step_attach
  show ?case by (rule all_ok_attach [OF step_attach.prems attach_softc_ok [OF step_attach.hyps]])
next
  case step_detach
  show ?case by (rule all_ok_detach [OF step_detach.prems])
next
  case step_time
  then show ?case by simp
qed

lemma all_ok_reachable: "audiofs_step\<^sup>*\<^sup>* g g' \<Longrightarrow> all_ok g \<Longrightarrow> all_ok g'"
proof (induction rule: rtranclp_induct)
  case (step y z)
  then show ?case using all_ok_step by blast
qed

end
