(* ===== verification/Audiofs_Interrupt.thy ===== *)
theory Audiofs_Interrupt
  imports Audiofs_Lifecycle
begin

text \<open>
  One turn of the interrupt thread of audiofs on a stream that satisfies the invariant: how
  far the position moved, which fragments it refills, and that the loop does not end for a
  position past the buffer.
\<close>

section \<open>One turn of the interrupt thread\<close>

text \<open>The distance the link position moved, through the end of the buffer if need be.\<close>

lemma lpib_delta_mod:
  assumes "unat prev < 16384" "unat cur < 16384"
  shows "unat (lpib_delta prev cur div 4) = (unat cur + 16384 - unat prev) mod 16384 div 4"
proof (cases "prev \<le> cur")
  case True
  then have le: "unat prev \<le> unat cur" by (simp add: word_le_nat_alt)
  have "unat (lpib_delta prev cur) = unat cur - unat prev"
    using True unat_sub_no_wrap [OF True] by (simp add: lpib_delta_def unat_ucast_up)
  moreover have "(unat cur + 16384 - unat prev) mod 16384 = unat cur - unat prev"
    using le assms by (simp add: le_mod_geq)
  ultimately show ?thesis by (simp add: unat_div)
next
  case False
  then have lt: "unat cur < unat prev" by (simp add: word_le_nat_alt)
  have p: "prev \<le> 16384" using assms(1) by (simp add: word_le_nat_alt)
  have a: "unat (ucast (16384 - prev) :: u64) = 16384 - unat prev" "unat (ucast cur :: u64) = unat cur"
    using unat_sub_no_wrap [OF p] by (simp_all add: unat_ucast_up)
  then have "unat (lpib_delta prev cur) = 16384 - unat prev + unat cur"
    using False assms unat_add_no_wrap [of "ucast (16384 - prev) :: u64" "ucast cur"] by (simp add: lpib_delta_def)
  moreover have "(unat cur + 16384 - unat prev) mod 16384 = 16384 - unat prev + unat cur"
    using lt assms by simp
  ultimately show ?thesis by (simp add: unat_div)
qed

text \<open>What the refills and the underrun note leave alone.\<close>

lemma intr_fifoe_frame [simp]:
  "au_buf (intr_fifoe sc) = au_buf sc" "au_ring (intr_fifoe sc) = au_ring sc"
  "au_next_refill (intr_fifoe sc) = au_next_refill sc" "au_prev_lpib (intr_fifoe sc) = au_prev_lpib sc"
  "au_frames_played (intr_fifoe sc) = au_frames_played sc" "au_clock_total (intr_fifoe sc) = au_clock_total sc"
  "au_source (intr_fifoe sc) = au_source sc"
  by (simp_all add: intr_fifoe_def note_xrun_def Let_def)

lemma refill_steps_frame:
  "au_prev_lpib ((refill_one ^^ k) sc) = au_prev_lpib sc"
  "au_frames_played ((refill_one ^^ k) sc) = au_frames_played sc"
  "au_clock_total ((refill_one ^^ k) sc) = au_clock_total sc"
  by (induction k) (simp_all add: refill_one_frame)

text \<open>The fragments played since the last refill, for a link position.\<close>

definition fragments_behind :: "nat \<Rightarrow> audiofs_softc \<Rightarrow> nat" where
  "fragments_behind lpib sc = (lpib div AUDIOFS_BUF_FRAG_BYTES + AUDIOFS_BDL_ENTRIES - nat (au_next_refill sc)) mod AUDIOFS_BDL_ENTRIES"

lemma fragments_behind: "fragments_behind lpib sc = refill.distance (lpib div 4096) sc"
  by (simp add: fragments_behind_def refill.distance_def)

text \<open>The record after the position update, which the refill starts from.\<close>

definition positioned :: "u32 \<Rightarrow> audiofs_softc \<Rightarrow> audiofs_softc" where
  "positioned lpib sc = (advance_frames lpib (sc\<lparr>au_last_sdsts := 0\<rparr>))\<lparr>au_prev_lpib := lpib\<rparr>"

lemma positioned_simps [simp]:
  "au_source (positioned lpib sc) = au_source sc" "au_ring (positioned lpib sc) = au_ring sc"
  "au_buf (positioned lpib sc) = au_buf sc" "au_next_refill (positioned lpib sc) = au_next_refill sc"
  "au_active (positioned lpib sc) = au_active sc" "au_prev_lpib (positioned lpib sc) = lpib"
  "au_frames_played (positioned lpib sc) = au_frames_played sc + lpib_delta (au_prev_lpib sc) lpib div 4"
  "au_clock_total (positioned lpib sc) = au_clock_total sc + lpib_delta (au_prev_lpib sc) lpib div 4"
  by (simp_all add: positioned_def advance_frames_def Let_def)

lemma stream_ok_positioned:
  assumes "stream_ok sc" "au_active sc" "unat lpib < AUDIOFS_BUF_BYTES"
  shows "stream_ok (positioned lpib sc)"
proof -
  have "stream_ok (advance_frames lpib (sc\<lparr>au_last_sdsts := 0\<rparr>))"
    by (rule stream_ok_advance) (use assms(1) in simp)
  then show ?thesis using assms(2,3)
    by (simp add: positioned_def stream_ok_def running_ok_def advance_frames_def Let_def)
qed

text \<open>
  A thread that finds a completed fragment: the position update, the refills, and what the
  counters of the record say besides.
\<close>

lemma intr_thread_bcis:
  assumes ok: "stream_ok (ag_softc g u)" "au_active (ag_softc g u)"
    and b: "au_last_sdsts (ag_softc g u) AND SDSTS_BCIS \<noteq> 0" and l: "unat lpib < AUDIOFS_BUF_BYTES"
    and s: "s = (refill_one ^^ fragments_behind (unat lpib) (ag_softc g u)) (positioned lpib (ag_softc g u))"
  shows "\<exists>sc'. audiofs_intr_thread u lpib g = Some (upd_sc u (\<lambda>_. sc') (audiofs_clock_update sc' g)) \<and>
    au_buf sc' = au_buf s \<and> au_ring sc' = au_ring s \<and> au_next_refill sc' = au_next_refill s \<and>
    au_prev_lpib sc' = au_prev_lpib s \<and> au_frames_played sc' = au_frames_played s \<and>
    au_clock_total sc' = au_clock_total s"
proof -
  let ?sc = "ag_softc g u" let ?k = "fragments_behind (unat lpib) ?sc"
  define s1 where "s1 = advance_frames lpib (?sc\<lparr>au_last_sdsts := 0\<rparr>)"
  define s4 where "s4 = (if ?k = 0 then s\<lparr>au_refill_miss := au_refill_miss s + 1\<rparr>
      else if 2 \<le> ?k then s\<lparr>au_refill_multi := au_refill_multi s + 1\<rparr> else s)"
  define s5 where "s5 = (if au_last_sdsts ?sc AND 8 \<noteq> 0 then intr_fifoe s4 else s4)"
  have k: "?k = refill.distance (unat lpib div 4096) (positioned lpib ?sc)"
    by (simp add: fragments_behind refill.distance_def)
  have bc: "intr_bcis lpib (positioned lpib ?sc) = Some s4"
    using intr_bcis_steps [OF stream_ok_positioned [OF ok l] l k] by (simp add: s4_def s Let_def)
  have "audiofs_intr_thread u lpib g = Some (upd_sc u (\<lambda>_. s5) (audiofs_clock_update s1 g))"
    unfolding audiofs_intr_thread_def Let_def s1_def [symmetric]
    using ok(2) b bc by (simp add: s5_def positioned_def s1_def)
  moreover have "au_clock_total s5 = au_clock_total s1"
    by (simp add: s5_def s4_def s refill_steps_frame, simp add: s1_def advance_frames_def Let_def)
  then have "audiofs_clock_update s5 g = audiofs_clock_update s1 g" by (simp add: audiofs_clock_update_def)
  ultimately show ?thesis by (intro exI [of _ s5]) (simp add: s5_def s4_def)
qed

text \<open>A position past the buffer would keep the thread in its loop.\<close>

lemma intr_thread_stuck:
  assumes "stream_ok (ag_softc g u)" "au_active (ag_softc g u)"
    and "au_last_sdsts (ag_softc g u) AND SDSTS_BCIS \<noteq> 0" "AUDIOFS_BUF_BYTES \<le> unat lpib"
  shows "audiofs_intr_thread u lpib g = None"
proof -
  let ?s = "positioned lpib (ag_softc g u)"
  have "cursor_ok ?s" using assms(1) by (simp add: stream_ok_def cursor_ok_def)
  moreover have "\<not> unat lpib div 4096 < 4" using div_le_mono [OF assms(4), of 4096] by simp
  ultimately have "intr_bcis lpib ?s = None" unfolding intr_bcis_def by (simp only: refill.loop_iff) simp
  then show ?thesis
    unfolding audiofs_intr_thread_def Let_def positioned_def using assms(2,3) by simp
qed

end
