(* ===== verification/Audiofs_Format.thy ===== *)
theory Audiofs_Format
  imports Audiofs_Lifecycle
begin

text \<open>
  The outcome of a format change on a running stream: which error is returned and in which
  format the stream is left, for every outcome of the DMA allocations.
\<close>

section \<open>What start and end fix and keep\<close>

text \<open>The identity of the stream: converter, topology and the device around it.\<close>

definition same_output :: "audiofs_softc \<Rightarrow> audiofs_softc \<Rightarrow> bool" where
  "same_output sc sc' \<longleftrightarrow> au_codecs sc' = au_codecs sc \<and> au_num_oss sc' = au_num_oss sc \<and>
     au_dac_cad sc' = au_dac_cad sc \<and> au_dac_nid sc' = au_dac_nid sc \<and> au_ring sc' = au_ring sc \<and>
     au_cdev_open sc' = au_cdev_open sc \<and> au_source sc' = au_source sc"

text \<open>The converter is the one the search selects.\<close>

definition bound_dac :: "audiofs_softc \<Rightarrow> bool" where
  "bound_dac sc \<longleftrightarrow> 1 \<le> au_num_oss sc \<and> 0 \<le> au_dac_cad sc \<and>
     select_dac (au_codecs sc) = Some (nat (au_dac_cad sc), au_dac_nid sc)"

lemma same_output_trans: "same_output a b \<Longrightarrow> same_output b c \<Longrightarrow> same_output a c"
  by (simp add: same_output_def)

lemma same_output_psr: "same_output a b \<Longrightarrow> audiofs_output_dac_psr b = audiofs_output_dac_psr a"
  by (simp add: same_output_def audiofs_output_dac_psr_def)

lemma same_output_bound: "same_output a b \<Longrightarrow> bound_dac b = bound_dac a"
  by (simp add: same_output_def bound_dac_def)

definition alloc_error :: "u64 option \<times> u64 option \<Rightarrow> errno" where
  "alloc_error allocs = (if fst allocs \<noteq> None \<and> snd allocs \<noteq> None then 0 else ENOMEM)"

lemma configure_outcome:
  assumes "bound_dac (ag_softc g u)" "\<not> au_active (ag_softc g u)"
  shows "\<exists>sc' g'. audiofs_configure_output_stream u allocs g = (alloc_error allocs, g') \<and>
    ag_softc g' = (ag_softc g)(u := sc') \<and> same_output (ag_softc g u) sc' \<and> \<not> au_active sc' \<and>
    au_format_word sc' = au_format_word (ag_softc g u) \<and> au_rate_hz sc' = au_rate_hz (ag_softc g u)"
  using assms
  by (cases "fst allocs"; cases "snd allocs")
    (auto simp: audiofs_configure_output_stream_def bound_dac_def alloc_error_def same_output_def
      configure_registers_def audiofs_output_stream_reset_def Let_def)

lemma begin_outcome:
  assumes "bound_dac (ag_softc g u)" "\<not> au_active (ag_softc g u)"
    and "audiofs_rate_to_format_word r = Some f" "audiofs_psr_has_rate (audiofs_output_dac_psr (ag_softc g u)) r"
  shows "\<exists>sc' g'. audiofs_stream_begin u f 2 r allocs g = (alloc_error allocs, g') \<and>
    ag_softc g' = (ag_softc g)(u := sc') \<and> same_output (ag_softc g u) sc' \<and>
    au_active sc' = (alloc_error allocs = 0) \<and> au_format_word sc' = f \<and> au_rate_hz sc' = r"
proof -
  let ?g1 = "upd_sc u (\<lambda>sc. sc\<lparr>au_format_word := f, au_rate_hz := r\<rparr>) g"
  have "bound_dac (ag_softc ?g1 u)" "\<not> au_active (ag_softc ?g1 u)"
    using assms(1,2) by (simp_all add: bound_dac_def)
  from configure_outcome [OF this, of allocs] obtain s2 g2 where
    c: "audiofs_configure_output_stream u allocs ?g1 = (alloc_error allocs, g2)"
    and s2: "ag_softc g2 = (ag_softc g)(u := s2)" "same_output (ag_softc g u) s2" "\<not> au_active s2"
      "au_format_word s2 = f" "au_rate_hz s2 = r" by (auto simp: same_output_def)
  show ?thesis
  proof (cases "alloc_error allocs = 0")
    case True
    then obtain g' where "audiofs_stream_begin u f 2 r allocs g = (0, g')"
        "ag_softc g' = (ag_softc g)(u := start_dma (bind_converter s2))"
      using assms c s2(1) by (simp add: audiofs_stream_begin_def Let_def)
    then show ?thesis using True s2
      by (intro exI [of _ "start_dma (bind_converter s2)"] exI [of _ g'])
        (simp add: same_output_def start_dma_def bind_converter_def)
  next
    case False
    then have "audiofs_stream_begin u f 2 r allocs g = (alloc_error allocs, g2)"
      using assms c by (simp add: audiofs_stream_begin_def Let_def)
    then show ?thesis using False s2 by auto
  qed
qed

lemma end_outcome:
  assumes "au_active (ag_softc g u)"
  shows "\<exists>sc' g'. audiofs_stream_end u (au_stream_id (ag_softc g u)) lpib g = (0, g') \<and>
    ag_softc g' = (ag_softc g)(u := sc') \<and> same_output (ag_softc g u) sc' \<and> \<not> au_active sc'"
  using assms
  by (auto simp: audiofs_stream_end_def publish_xrun_def advance_frames_def stop_dma_def clear_pending_def
      same_output_def Let_def)

section \<open>The format change\<close>

text \<open>A start on a record that still has the output of \<open>s0\<close>.\<close>

lemma begin_again:
  assumes "ag_softc g1 = (ag_softc g)(u := s)" "same_output s0 s" "\<not> au_active s" "bound_dac s0"
    and "audiofs_rate_to_format_word r = Some f" "audiofs_psr_has_rate (audiofs_output_dac_psr s0) r"
  shows "\<exists>s' g'. audiofs_stream_begin u f 2 r allocs g1 = (alloc_error allocs, g') \<and>
    ag_softc g' = (ag_softc g)(u := s') \<and> same_output s0 s' \<and>
    au_active s' = (alloc_error allocs = 0) \<and> au_format_word s' = f \<and> au_rate_hz s' = r"
proof -
  have "bound_dac (ag_softc g1 u)" "\<not> au_active (ag_softc g1 u)"
    "audiofs_psr_has_rate (audiofs_output_dac_psr (ag_softc g1 u)) r"
    using assms same_output_bound [OF assms(2)] same_output_psr [OF assms(2)] by simp_all
  from begin_outcome [OF this(1,2) assms(5) this(3), of allocs] obtain s' g' where
    "audiofs_stream_begin u f 2 r allocs g1 = (alloc_error allocs, g') \<and> ag_softc g' = (ag_softc g1)(u := s') \<and>
     same_output (ag_softc g1 u) s' \<and> au_active s' = (alloc_error allocs = 0) \<and> au_format_word s' = f \<and>
     au_rate_hz s' = r" by (elim exE)
  then show ?thesis using assms(1,2) same_output_trans [of s0 s s']
    by (intro exI [of _ s'] exI [of _ g']) simp
qed

lemma set_format_outcome:
  assumes "au_active (ag_softc g u)" "bound_dac (ag_softc g u)"
    and "af_bits f = 16" "af_channels f = 2" "af_rate_hz f \<noteq> au_rate_hz (ag_softc g u)"
    and "audiofs_psr_has_rate (audiofs_output_dac_psr (ag_softc g u)) (af_rate_hz f)"
    and "audiofs_psr_has_rate (audiofs_output_dac_psr (ag_softc g u)) (au_rate_hz (ag_softc g u))"
    and "audiofs_rate_to_format_word (au_rate_hz (ag_softc g u)) = Some (au_format_word (ag_softc g u))"
  shows "\<exists>sc' g'. ioctl_set_format u f lpib allocs retry g = (alloc_error allocs, g') \<and>
    ag_softc g' = (ag_softc g)(u := sc') \<and> au_ring sc' = ring_flush (au_ring (ag_softc g u)) \<and>
    au_cdev_open sc' = au_cdev_open (ag_softc g u) \<and> au_source sc' = au_source (ag_softc g u) \<and>
    audiofs_output_dac_psr sc' = audiofs_output_dac_psr (ag_softc g u) \<and>
    au_active sc' = (alloc_error allocs = 0 \<or> alloc_error retry = 0) \<and>
    au_rate_hz sc' = (if alloc_error allocs = 0 then af_rate_hz f else au_rate_hz (ag_softc g u)) \<and>
    audiofs_rate_to_format_word (au_rate_hz sc') = Some (au_format_word sc')"
proof -
  let ?sc = "ag_softc g u" let ?r = "af_rate_hz f"
  let ?s1 = "?sc\<lparr>au_ring := ring_flush (au_ring ?sc)\<rparr>"
  let ?g1 = "upd_sc u (\<lambda>sc. sc\<lparr>au_ring := ring_flush (au_ring sc)\<rparr>) g"
  obtain w where w: "audiofs_rate_to_format_word ?r = Some w" using has_rate_format [OF assms(6)] by auto
  have "au_active (ag_softc ?g1 u)" using assms(1) by simp
  from end_outcome [OF this, of lpib] obtain s2 g2 where
    e: "audiofs_stream_end u (au_stream_id ?sc) lpib ?g1 = (0, g2)"
    and s2: "ag_softc g2 = (ag_softc g)(u := s2)" "same_output ?s1 s2" "\<not> au_active s2" by auto
  have b1: "bound_dac ?s1" using assms(2) by (simp add: bound_dac_def)
  have p1: "audiofs_output_dac_psr ?s1 = audiofs_output_dac_psr ?sc" by (simp add: audiofs_output_dac_psr_def)
  obtain s3 g3 where n: "audiofs_stream_begin u w 2 ?r allocs g2 = (alloc_error allocs, g3)"
    and s3: "ag_softc g3 = (ag_softc g)(u := s3)" "same_output ?s1 s3" "au_active s3 = (alloc_error allocs = 0)"
      "au_format_word s3 = w" "au_rate_hz s3 = ?r"
    using begin_again [OF s2 b1 w, of allocs] p1 assms(6) by auto
  have run: "ioctl_set_format u f lpib allocs retry g =
      (if alloc_error allocs \<noteq> 0
       then (alloc_error allocs, snd (audiofs_stream_begin u (au_format_word ?sc) 2 (au_rate_hz ?sc) retry g3))
       else (0, audiofs_state_republish (audiofs_events_publish 1 4 AUDIOFS_EVENTS_NO_ENDPOINT 0
         (evp_format_change (au_stream_id (ag_softc g3 u)) (au_format_word ?sc) w ?r) g3)))"
    unfolding ioctl_set_format_def Let_def using assms(3-6) w e n by (simp del: upd_sc_simps)
  show ?thesis
  proof (cases "alloc_error allocs = 0")
    case True
    then show ?thesis using run s3 w same_output_psr [OF s3(2)] p1
      by (intro exI [of _ s3]) (simp add: same_output_def)
  next
    case False
    then have "\<not> au_active s3" using s3(3) by simp
    from begin_again [OF s3(1,2) this b1 assms(8), of retry] p1 assms(7) obtain s4 g4 where
      o: "audiofs_stream_begin u (au_format_word ?sc) 2 (au_rate_hz ?sc) retry g3 = (alloc_error retry, g4)"
      and s4: "ag_softc g4 = (ag_softc g)(u := s4)" "same_output ?s1 s4" "au_active s4 = (alloc_error retry = 0)"
        "au_format_word s4 = au_format_word ?sc" "au_rate_hz s4 = au_rate_hz ?sc" by auto
    show ?thesis using run o s4 False assms(8) same_output_psr [OF s4(2)] p1
      by (intro exI [of _ s4]) (simp add: same_output_def)
  qed
qed

end
