(* ===== verification/Audiofs_Region.thy ===== *)
theory Audiofs_Region
  imports Audiofs_Events
begin

text \<open>
  The state region audiofs builds: its shape, the numbering of its endpoints, and what a
  publication whose file writes succeed leaves in the state file.
\<close>

section \<open>The enumeration\<close>

text \<open>
  The endpoints found from id \<open>start\<close> on, on controllers numbered below \<open>n\<close>: at most 32
  outputs with consecutive ids.
\<close>

fun enumerated :: "u32 \<Rightarrow> nat \<Rightarrow> state_endpoint list \<times> u32 \<Rightarrow> bool" where
  "enumerated start n (eps, nid) \<longleftrightarrow> length eps \<le> 32 \<and> nid = start + of_nat (length eps) \<and>
     (\<forall>i<length eps. se_endpoint_id (eps ! i) = start + of_nat i) \<and>
     (\<forall>ep\<in>set eps. se_direction ep = 1 \<and> se_electrically_ready ep = 1 \<and> se_converter_nid ep \<noteq> 0 \<and>
        unat (se_controller_idx ep) < n)"

lemma enumerated_widget:
  assumes "enumerated start n acc" "unat idx < n"
  shows "enumerated start n (add_widget sc idx cad w acc)"
proof (cases acc)
  case (Pair eps nid)
  show ?thesis
  proof (cases "w_valid w \<and> length eps < 32")
    case True
    show ?thesis
    proof (cases "audiofs_state_fill_output_endpoint sc cad w idx nid")
      case None
      then show ?thesis using assms Pair by (simp add: add_widget_def)
    next
      case (Some ep)
      then have ep: "se_endpoint_id ep = nid" "se_direction ep = 1" "se_electrically_ready ep = 1"
        "se_converter_nid ep \<noteq> 0" "se_controller_idx ep = idx"
        by (auto simp: audiofs_state_fill_output_endpoint_def Let_def split: if_splits)
      from True have "add_widget sc idx cad w acc = (eps @ [ep], nid + 1)"
        using Pair Some by (simp add: add_widget_def)
      then show ?thesis using assms Pair True ep by (auto simp: nth_append less_Suc_eq)
    qed
  next
    case False
    then show ?thesis using assms Pair by (auto simp: add_widget_def)
  qed
qed

lemma enumerated_codec:
  assumes "enumerated start n acc" "unat idx < n"
  shows "enumerated start n (add_codec sc idx x acc)"
  using assms by (auto simp: add_codec_def split: prod.split intro!: fold_invariant [where Q = "\<lambda>_. True"] enumerated_widget)

lemma enumerated_controllers:
  assumes "length scs \<le> 8"
  shows "enumerated start (length scs) (fold add_controller (enumerate 0 scs) ([], start))"
proof (rule fold_invariant [where Q = "\<lambda>x. fst x < length scs"])
  fix x :: "nat \<times> audiofs_softc" and acc assume x: "fst x < length scs" and e: "enumerated start (length scs) acc"
  have "unat (of_nat (fst x) :: byte) < length scs"
    using x assms by (simp add: unat_of_nat)
  note codec = enumerated_codec [OF _ this, of start _ "snd x"]
  show "enumerated start (length scs) (add_controller x acc)"
    unfolding add_controller_def Let_def split_beta
    by (rule fold_invariant [where Q = "\<lambda>_. True" and P = "enumerated start (length scs)"])
      (use e in \<open>auto intro: codec\<close>)
qed (auto simp: in_set_enumerate_eq)

section \<open>Ids and the rest of an endpoint\<close>

definition unnumbered :: "state_endpoint \<Rightarrow> state_endpoint" where
  "unnumbered ep = ep\<lparr>se_endpoint_id := 0\<rparr>"

text \<open>Enumerations that start at different ids find the same endpoints.\<close>

fun same_endpoints :: "state_endpoint list \<times> u32 \<Rightarrow> state_endpoint list \<times> u32 \<Rightarrow> bool" where
  "same_endpoints (eps, a) (eps', b) \<longleftrightarrow> map unnumbered eps = map unnumbered eps'"

lemma fold_related:
  assumes "\<And>x a b. R a b \<Longrightarrow> R (f x a) (f x b)" "R a b"
  shows "R (fold f xs a) (fold f xs b)"
  using assms(2) by (induction xs arbitrary: a b) (auto intro: assms(1))

lemma fill_unnumbered:
  "map_option unnumbered (audiofs_state_fill_output_endpoint sc cad w idx a) =
   map_option unnumbered (audiofs_state_fill_output_endpoint sc cad w idx b)"
  by (simp add: audiofs_state_fill_output_endpoint_def unnumbered_def Let_def)

lemma same_widget: "same_endpoints x y \<Longrightarrow> same_endpoints (add_widget sc idx cad w x) (add_widget sc idx cad w y)"
proof (cases x, cases y)
  fix eps a eps' b assume "same_endpoints x y" and x: "x = (eps, a)" "y = (eps', b)"
  then have s: "map unnumbered eps = map unnumbered eps'" by simp
  then have "length eps = length eps'" by (rule map_eq_imp_length_eq)
  then show ?thesis using s x fill_unnumbered [of sc cad w idx a b]
    by (auto simp: add_widget_def split: option.split)
qed

lemma same_controllers:
  "same_endpoints (fold add_controller xs ([], a)) (fold add_controller xs ([], b))"
proof (rule fold_related)
  fix x and y z :: "state_endpoint list \<times> u32" assume s: "same_endpoints y z"
  have c: "same_endpoints (add_codec sc idx cx v) (add_codec sc idx cx w)" if "same_endpoints v w" for sc idx cx v w
    using that by (auto simp: add_codec_def split: prod.split intro!: fold_related [of same_endpoints] same_widget)
  show "same_endpoints (add_controller x y) (add_controller x z)"
    using s by (auto simp: add_controller_def split: prod.split intro!: fold_related [of same_endpoints] c)
qed simp

section \<open>The published region\<close>

definition region_ok :: "state_region \<Rightarrow> bool" where
  "region_ok r \<longleftrightarrow>
     (let h = sr_header r; nc = unat (sh_controller_count h); ne = unat (sh_endpoint_count h) in
      sh_magic h = 0x54535541 \<and> sh_version h = 1 \<and> sh_state_valid h = 1 \<and> even (unat (sh_seqlock h)) \<and>
      length (sr_controllers r) = unat (sh_controller_slot_count h) \<and> nc \<le> length (sr_controllers r) \<and>
      length (sr_endpoints r) = unat (sh_endpoint_slot_count h) \<and> ne \<le> length (sr_endpoints r) \<and>
      (\<forall>i<nc. sk_controller_id (sr_controllers r ! i) = of_nat (i + 1)) \<and>
      (\<forall>i\<in>{nc..<8}. sr_controllers r ! i = zero_controller) \<and>
      (\<forall>i<ne. se_endpoint_id (sr_endpoints r ! i) = se_endpoint_id (sr_endpoints r ! 0) + of_nat i \<and>
         se_direction (sr_endpoints r ! i) = 1 \<and> se_converter_nid (sr_endpoints r ! i) \<noteq> 0 \<and>
         unat (se_controller_idx (sr_endpoints r ! i)) < nc) \<and>
      (\<forall>i\<in>{ne..<32}. sr_endpoints r ! i = zero_endpoint))"

definition live_controllers :: "audiofs_globals \<Rightarrow> audiofs_softc list" where
  "live_controllers g = map (ag_softc g) (take 8 (ag_registry g))"

definition live_endpoints :: "audiofs_globals \<Rightarrow> state_endpoint list" where
  "live_endpoints g = fst (fold add_controller (enumerate 0 (live_controllers g)) ([], ag_next_endpoint_id g))"

definition published :: "audiofs_globals \<Rightarrow> state_region" where
  "published g = (let r = fst (audiofs_state_build_region g)
     in r\<lparr>sr_header := (sr_header r)\<lparr>sh_seqlock := push_bit 1 (ag_inventory_seq g), sh_state_valid := 1\<rparr>\<rparr>)"

lemma live_enumerated: "enumerated (ag_next_endpoint_id g) (length (live_controllers g))
    (live_endpoints g, ag_next_endpoint_id (snd (audiofs_state_build_region g)))"
  using enumerated_controllers [of "live_controllers g" "ag_next_endpoint_id g"]
  by (simp add: live_endpoints_def audiofs_state_build_region_def live_controllers_def Let_def split_beta)

lemma build_region_parts:
  "sr_header (fst (audiofs_state_build_region g)) =
     empty_header\<lparr>sh_inventory_seq := ag_inventory_seq g, sh_last_event_seq := ag_writer_seq g,
       sh_controller_count := of_nat (length (live_controllers g)),
       sh_endpoint_count := of_nat (length (live_endpoints g))\<rparr>"
  "sr_controllers (fst (audiofs_state_build_region g)) =
     map (\<lambda>(i, sc). fill_controller i sc) (enumerate 0 (live_controllers g)) @
     replicate (8 - length (live_controllers g)) zero_controller"
  "sr_endpoints (fst (audiofs_state_build_region g)) =
     live_endpoints g @ replicate (32 - length (live_endpoints g)) zero_endpoint"
  by (simp_all add: audiofs_state_build_region_def live_endpoints_def live_controllers_def Let_def split_beta)

lemma published_parts [simp]:
  "sr_endpoints (published g) = live_endpoints g @ replicate (32 - length (live_endpoints g)) zero_endpoint"
  "sh_endpoint_count (sr_header (published g)) = of_nat (length (live_endpoints g))"
  "sh_inventory_seq (sr_header (published g)) = ag_inventory_seq g"
  "sh_seqlock (sr_header (published g)) = push_bit 1 (ag_inventory_seq g)"
  "sh_last_event_seq (sr_header (published g)) = ag_writer_seq g"
  "sh_state_valid (sr_header (published g)) = 1"
  by (simp_all add: published_def build_region_parts empty_header_def Let_def)

lemma region_ok_published: "region_ok (published g)"
proof -
  have e: "length (live_endpoints g) \<le> 32"
    "\<And>i. i < length (live_endpoints g) \<Longrightarrow> se_endpoint_id (live_endpoints g ! i) = ag_next_endpoint_id g + of_nat i"
    "\<And>ep. ep \<in> set (live_endpoints g) \<Longrightarrow> se_direction ep = 1 \<and> se_converter_nid ep \<noteq> 0 \<and>
       unat (se_controller_idx ep) < length (live_controllers g)"
    using live_enumerated [of g] by auto
  have c: "length (live_controllers g) \<le> 8" by (simp add: live_controllers_def)
  have ev: "even (unat (push_bit 1 (ag_inventory_seq g)))"
    by (simp add: push_bit_eq_mult unat_word_ariths dvd_mod)
  have n: "unat (of_nat (length (live_controllers g)) :: byte) = length (live_controllers g)"
    "unat (of_nat (length (live_endpoints g)) :: byte) = length (live_endpoints g)"
    using c e(1) by (simp_all add: unat_of_nat)
  have "sk_controller_id ((map (\<lambda>(i, sc). fill_controller i sc) (enumerate 0 (live_controllers g)) @ z) ! i) = of_nat (i + 1)"
    if "i < length (live_controllers g)" for i z
    using that by (simp add: nth_append nth_enumerate_eq fill_controller_def)
  then show ?thesis
    unfolding region_ok_def published_def Let_def
    using c e(1,2) e(3) [OF nth_mem] ev
    by (simp add: build_region_parts empty_header_def n) (auto simp: nth_append)
qed

text \<open>
  A rewrite by the outcome of its two file writes: the file is left alone, or left marked
  invalid with an odd lock value, or holds the whole region.
\<close>

lemma republish_file:
  assumes "ag_initialized g" "ag_state_open g"
  shows "ag_state_file (audiofs_state_republish g) =
      (if \<not> ag_io g (ag_io_count g) then ag_state_file g
       else if ag_io g (ag_io_count g + 1) then Some (published g)
       else let r = fst (audiofs_state_build_region g)
            in Some (r\<lparr>sr_header := (sr_header r)\<lparr>sh_seqlock := push_bit 1 (ag_inventory_seq g) OR 1\<rparr>\<rparr>))"
    "ag_next_endpoint_id (audiofs_state_republish g) = ag_next_endpoint_id g + of_nat (length (live_endpoints g))"
proof -
  obtain r g' where b: "audiofs_state_build_region g = (r, g')" by (metis surj_pair)
  have g': "ag_state_open g'" "ag_io g' = ag_io g" "ag_inventory_seq g' = ag_inventory_seq g"
    "ag_state_file g' = ag_state_file g" "ag_io_count g' = ag_io_count g"
    using build_region_simps [of g] assms b by simp_all
  have "ag_state_file (audiofs_state_write_region r g') =
      (if \<not> ag_io g (ag_io_count g) then ag_state_file g
       else if ag_io g (ag_io_count g + 1) then Some (published g)
       else Some (r\<lparr>sr_header := (sr_header r)\<lparr>sh_seqlock := push_bit 1 (ag_inventory_seq g) OR 1\<rparr>\<rparr>))"
    using g' b by (simp add: audiofs_state_write_region_def vn_rdwr_def published_def Let_def)
  then show "ag_state_file (audiofs_state_republish g) =
      (if \<not> ag_io g (ag_io_count g) then ag_state_file g
       else if ag_io g (ag_io_count g + 1) then Some (published g)
       else let r = fst (audiofs_state_build_region g)
            in Some (r\<lparr>sr_header := (sr_header r)\<lparr>sh_seqlock := push_bit 1 (ag_inventory_seq g) OR 1\<rparr>\<rparr>))"
    using assms b by (simp add: audiofs_state_republish_def)
  show "ag_next_endpoint_id (audiofs_state_republish g) = ag_next_endpoint_id g + of_nat (length (live_endpoints g))"
    using live_enumerated [of g] assms b by (simp add: audiofs_state_republish_def)
qed

definition io_ok :: "audiofs_globals \<Rightarrow> bool" where
  "io_ok g \<longleftrightarrow> (\<forall>k. ag_io g k)"

lemma republish_ok:
  "ag_initialized g \<Longrightarrow> ag_state_open g \<Longrightarrow> io_ok g \<Longrightarrow> ag_state_file (audiofs_state_republish g) = Some (published g)"
  by (simp add: republish_file io_ok_def)

lemma odd_lock: "odd (unat (push_bit 1 w OR 1 :: u32))"
proof -
  have "bit (push_bit 1 w OR 1 :: u32) 0" by (simp add: bit_simps)
  then show ?thesis by (simp add: bit_unsigned_iff bit_0 [symmetric])
qed

lemma renumbered:
  assumes "ag_softc g' = ag_softc g" "ag_registry g' = ag_registry g"
  shows "map unnumbered (live_endpoints g') = map unnumbered (live_endpoints g)"
proof -
  have "live_controllers g' = live_controllers g" using assms by (simp add: live_controllers_def)
  then show ?thesis
    using same_controllers [of "enumerate 0 (live_controllers g)" "ag_next_endpoint_id g'" "ag_next_endpoint_id g"]
    by (simp add: live_endpoints_def) (metis prod.collapse same_endpoints.simps)
qed

section \<open>Files and ring\<close>

text \<open>The module is up: both files are open and their writes succeed.\<close>

definition publishing :: "audiofs_globals \<Rightarrow> bool" where
  "publishing g \<longleftrightarrow> ag_initialized g \<and> ag_state_open g \<and> ag_events_open g \<and> io_ok g"

lemma publishing_publish [simp]: "publishing (publish_event a g) = publishing g"
  by (simp add: publishing_def io_ok_def publish_event_def split: prod.split)

lemma publishing_fold [simp]: "publishing (fold publish_event as g) = publishing g"
  by (induction as arbitrary: g) simp_all

text \<open>After a publication the state file is valid and names the last event of the events file.\<close>

lemma publish_files:
  assumes "publishing g" "ag_events_buf g = Some b"
  shows "\<exists>r. ag_state_file (publish_event a g) = Some r \<and> region_ok r \<and>
      sh_last_event_seq (sr_header r) = ag_writer_seq g + 1"
    "ag_events_file (publish_event a g) = ag_events_buf (publish_event a g)"
proof -
  obtain role ty slot flags payload where a: "a = (role, ty, slot, flags, payload)" by (cases a)
  obtain g1 where p: "publish_event a g = (audiofs_state_republish (audiofs_events_sync g1))
      \<lparr>ag_notified := ag_notified g + 1\<rparr>"
    and g1: "ag_writer_seq g1 = ag_writer_seq g + 1" "ag_events_buf g1 \<noteq> None" "publishing g1"
  proof
    let ?n = "ag_writer_seq g + 1"
    let ?b = "b\<lparr>er_slots := (er_slots b)[unat (?n AND 255) := event_of a g],
        er_header := (er_header b)\<lparr>eh_writer_seq := ?n\<rparr>\<rparr>"
    let ?g = "g\<lparr>ag_events_buf := Some ?b, ag_writer_seq := ?n\<rparr>"
    let ?g1 = "if 256 \<le> ?n then ?g\<lparr>ag_earliest_seq := ?n - 256 + 1,
        ag_events_buf := Some (?b\<lparr>er_header := (er_header ?b)\<lparr>eh_earliest_seq := ?n - 256 + 1\<rparr>\<rparr>)\<rparr> else ?g"
    show "publish_event a g = (audiofs_state_republish (audiofs_events_sync ?g1))\<lparr>ag_notified := ag_notified g + 1\<rparr>"
      using assms(2) by (simp add: publish_event_def audiofs_events_publish_def event_of_def a Let_def)
    show "ag_writer_seq ?g1 = ?n" "ag_events_buf ?g1 \<noteq> None" by simp_all
    show "publishing ?g1" using assms(1) by (simp add: publishing_def io_ok_def)
  qed
  let ?g2 = "audiofs_events_sync g1"
  have g2: "ag_initialized ?g2" "ag_state_open ?g2" "io_ok ?g2"
    using g1(3) by (simp_all add: publishing_def io_ok_def)
  show "\<exists>r. ag_state_file (publish_event a g) = Some r \<and> region_ok r \<and>
      sh_last_event_seq (sr_header r) = ag_writer_seq g + 1"
    using republish_ok [OF g2] region_ok_published [of ?g2] g1(1) by (simp add: p)
  have "ag_events_file ?g2 = ag_events_buf ?g2"
    using g1(2,3) by (auto simp: audiofs_events_sync_def vn_rdwr_def publishing_def io_ok_def)
  then show "ag_events_file (publish_event a g) = ag_events_buf (publish_event a g)" by (simp add: p)
qed

end
