(* ===== verification/Audiofs_Link.thy ===== *)
theory Audiofs_Link
  imports Audiofs_Codec Cyclic_Loop
begin

text \<open>
  The command link of an audiofs controller (\<^verbatim>\<open>audiofs_pick_corb_rirb_sizes\<close> to
  \<^verbatim>\<open>audiofs_send_command\<close> in \<^verbatim>\<open>src/audiofs/sys/dev/audiofs/audiofs.c\<close>): verbs go out
  through the CORB, responses come back through the RIRB and are matched to the codec that has
  commands outstanding. The hardware is a function of the verbs written so far and of the number of the read:
  the \<open>k\<close>-th read of the response write pointer sees that pointer and the memory of the ring.
  Register bits and verb fields are those of the High Definition Audio specification.
\<close>

section \<open>State\<close>

type_synonym rirb_entry = "u32 \<times> u32"

record hda_link =
  lk_codecs :: "audiofs_codec list"
  lk_corb_size :: nat
  lk_rirb_size :: nat
  lk_corb_wp :: u16
  lk_rirb_rp :: u16
  lk_corb :: "u32 list"
  lk_sent :: "u32 list"
  lk_hw :: "u32 list \<Rightarrow> nat \<Rightarrow> u16 \<times> rirb_entry list"
  lk_reads :: nat

abbreviation (input) HDA_INVALID :: u32 where "HDA_INVALID \<equiv> 0xffffffff"
abbreviation (input) AUDIOFS_CMD_TIMEOUT :: nat where "AUDIOFS_CMD_TIMEOUT \<equiv> 10000"

text \<open>The sizes the capability bits of the two size registers allow, largest first.\<close>

definition ring_size_cap :: "byte \<Rightarrow> nat option" where
  "ring_size_cap r =
     (if r AND 0x40 = 0x40 then Some 256 else if r AND 0x20 = 0x20 then Some 16
      else if r AND 0x10 = 0x10 then Some 2 else None)"

definition audiofs_pick_corb_rirb_sizes :: "byte \<Rightarrow> byte \<Rightarrow> hda_link \<Rightarrow> errno \<times> hda_link" where
  "audiofs_pick_corb_rirb_sizes corbsize rirbsize l =
     (case ring_size_cap corbsize of
        None \<Rightarrow> (ENXIO, l)
      | Some n \<Rightarrow> let l = l\<lparr>lk_corb_size := n\<rparr>
                  in case ring_size_cap rirbsize of
                       None \<Rightarrow> (ENXIO, l)
                     | Some m \<Rightarrow> (0, l\<lparr>lk_rirb_size := m\<rparr>))"

text \<open>
  The initialisation of the rings and their start: what is written to which register, in order, and the
  driver's pointers. A size the driver did not pick leaves everything as it is.
\<close>

type_synonym reg_write = "string \<times> u32"

definition ring_size_reg :: "nat \<Rightarrow> u32 option" where
  "ring_size_reg n = (if n = 256 then Some 2 else if n = 16 then Some 1 else if n = 2 then Some 0 else None)"

definition audiofs_corb_init :: "u64 \<Rightarrow> hda_link \<Rightarrow> reg_write list \<times> hda_link" where
  "audiofs_corb_init paddr l =
     (case ring_size_reg (lk_corb_size l) of
        None \<Rightarrow> ([], l)
      | Some r \<Rightarrow> ([(''CORBSIZE'', r), (''CORBLBASE'', ucast paddr), (''CORBUBASE'', ucast (drop_bit 32 paddr)),
                    (''CORBWP'', 0), (''CORBRP'', 0x8000), (''CORBRP'', 0)], l\<lparr>lk_corb_wp := 0\<rparr>))"

definition audiofs_rirb_init :: "u64 \<Rightarrow> hda_link \<Rightarrow> reg_write list \<times> hda_link" where
  "audiofs_rirb_init paddr l =
     (case ring_size_reg (lk_rirb_size l) of
        None \<Rightarrow> ([], l)
      | Some r \<Rightarrow> ([(''RIRBSIZE'', r), (''RIRBLBASE'', ucast paddr), (''RIRBUBASE'', ucast (drop_bit 32 paddr)),
                    (''RIRBWP'', 0x8000), (''RINTCNT'', of_nat (lk_rirb_size l div 2)), (''RIRBCTL'', 0)],
                   l\<lparr>lk_rirb_rp := 0\<rparr>))"

definition audiofs_corb_start :: "byte \<Rightarrow> reg_write list" where
  "audiofs_corb_start corbctl = [(''CORBCTL'', ucast (corbctl OR 0x02))]"

definition audiofs_rirb_start :: "byte \<Rightarrow> reg_write list" where
  "audiofs_rirb_start rirbctl = [(''RIRBCTL'', ucast (rirbctl OR 0x02))]"

section \<open>DMA memory and the controller reset\<close>

text \<open>
  A DMA area: whether it has a tag and memory, its bus address and size. What the bus calls answer is the
  parameter of an allocation: the errors of the three calls and the address the load reports.
  The counters say what is held of the bus: tags, memory and loaded maps.
\<close>

record audiofs_dma =
  dma_tag :: bool
  dma_vaddr :: bool
  dma_paddr :: u64
  dma_size :: nat

record bus_answer =
  tag_error :: errno
  mem_error :: errno
  load_error :: errno
  seg_addr :: u64

type_synonym bus_held = "nat \<times> nat \<times> nat"

definition no_dma :: audiofs_dma where
  "no_dma = \<lparr>dma_tag = False, dma_vaddr = False, dma_paddr = 0, dma_size = 0\<rparr>"

definition audiofs_dma_cb :: "bus_answer \<Rightarrow> audiofs_dma \<Rightarrow> audiofs_dma" where
  "audiofs_dma_cb a dma = (if load_error a = 0 then dma\<lparr>dma_paddr := seg_addr a\<rparr> else dma)"

definition audiofs_dma_alloc :: "bus_answer \<Rightarrow> nat \<Rightarrow> bus_held \<Rightarrow> errno \<times> audiofs_dma \<times> bus_held" where
  "audiofs_dma_alloc a sz held =
     (let (tags, mems, maps) = held; roundsz = (sz + 127) div 128 * 128 in
      if tag_error a \<noteq> 0 then (tag_error a, no_dma, held)
      else if mem_error a \<noteq> 0 then (mem_error a, no_dma, held)
      else let dma = audiofs_dma_cb a (no_dma\<lparr>dma_tag := True, dma_vaddr := True, dma_size := roundsz\<rparr>);
               maps = (if load_error a = 0 then maps + 1 else maps)
           in if load_error a \<noteq> 0 \<or> dma_paddr dma = 0
              then (if load_error a = 0 then ENOMEM else load_error a,
                    dma\<lparr>dma_vaddr := False, dma_tag := False\<rparr>, (tags, mems, maps))
              else (0, dma, (tags + 1, mems + 1, maps)))"

definition audiofs_dma_free :: "audiofs_dma \<Rightarrow> bus_held \<Rightarrow> audiofs_dma \<times> bus_held" where
  "audiofs_dma_free dma held =
     (let (tags, mems, maps) = held
      in (no_dma, (if dma_tag dma then tags - 1 else tags, if dma_vaddr dma then mems - 1 else mems,
                   if dma_paddr dma \<noteq> 0 then maps - 1 else maps)))"

text \<open>
  The reset: stop every stream engine, both control engines and the position buffer, then clear and set the reset bit,
  each time waiting at most 10000 reads of the control register for it. The reads are the parameter, by their number.
\<close>

fun wait_crst :: "bool \<Rightarrow> nat \<Rightarrow> (nat \<Rightarrow> u32) \<Rightarrow> nat \<Rightarrow> bool \<times> nat" where
  "wait_crst up 0 gctl k = (False, k)"
| "wait_crst up (Suc count) gctl k = (if bit (gctl k) 0 = up then (True, k + 1) else wait_crst up count gctl (k + 1))"

definition audiofs_reset :: "nat \<Rightarrow> nat \<Rightarrow> nat \<Rightarrow> (nat \<Rightarrow> u32) \<Rightarrow> errno \<times> reg_write list" where
  "audiofs_reset num_iss num_oss num_bss gctl =
     (let stop = replicate num_iss (''ISDCTL'', 0) @ replicate num_oss (''OSDCTL'', 0) @ replicate num_bss (''BSDCTL'', 0) @
            [(''CORBCTL'', 0), (''RIRBCTL'', 0), (''DPIBLBASE'', 0), (''DPIBUBASE'', 0), (''GCTL'', gctl 0 AND NOT 1)];
          (entered, k) = wait_crst False 10000 gctl 1
      in if \<not> entered then (ENXIO, stop)
         else let writes = stop @ [(''GCTL'', gctl k OR 1)]; (left, k) = wait_crst True 10000 gctl (k + 1)
              in if \<not> left then (ENXIO, writes) else (0, writes))"

text \<open>
  The bring-up of the link in attach: sizes, the two allocations of 4 and 8 bytes per entry, initialisation,
  start and the unsolicited responses. The controls read are parameters.
\<close>

definition link_bring_up :: "byte \<Rightarrow> byte \<Rightarrow> bus_answer \<Rightarrow> bus_answer \<Rightarrow> byte \<Rightarrow> byte \<Rightarrow> u32 \<Rightarrow> hda_link \<Rightarrow>
    bus_held \<Rightarrow> errno \<times> reg_write list \<times> hda_link \<times> (audiofs_dma \<times> audiofs_dma) \<times> bus_held" where
  "link_bring_up corbsize rirbsize corb rirb corbctl rirbctl gctl l held =
     (let (e, l) = audiofs_pick_corb_rirb_sizes corbsize rirbsize l in
      if e \<noteq> 0 then (e, [], l, (no_dma, no_dma), held)
      else let (e, cdma, held) = audiofs_dma_alloc corb (lk_corb_size l * 4) held in
        if e \<noteq> 0 then (e, [], l, (cdma, no_dma), held)
        else let (e, rdma, held) = audiofs_dma_alloc rirb (lk_rirb_size l * 8) held in
          if e \<noteq> 0 then let (cdma, held) = audiofs_dma_free cdma held in (e, [], l, (cdma, rdma), held)
          else let (w1, l) = audiofs_corb_init (dma_paddr cdma) (l\<lparr>lk_corb := replicate (lk_corb_size l) 0\<rparr>);
                   (w2, l) = audiofs_rirb_init (dma_paddr rdma) l
               in (0, w1 @ w2 @ audiofs_corb_start corbctl @ audiofs_rirb_start rirbctl @ [(''GCTL'', gctl OR 0x100)],
                   l, (cdma, rdma), held))"

section \<open>Responses\<close>

definition upd_codec :: "nat \<Rightarrow> (audiofs_codec \<Rightarrow> audiofs_codec) \<Rightarrow> hda_link \<Rightarrow> hda_link" where
  "upd_codec cad f l = l\<lparr>lk_codecs := (lk_codecs l)[cad := f (lk_codecs l ! cad)]\<rparr>"

text \<open>One response: its extended word has the codec address in bits 0-3 and the unsolicited flag in bit 4.\<close>

definition take_response :: "rirb_entry \<Rightarrow> hda_link \<Rightarrow> hda_link" where
  "take_response slot l =
     (let (resp, resp_ex) = slot; cad = unat (resp_ex AND 0xf)
      in if resp_ex AND 0x10 \<noteq> 0 then l
         else if cad < AUDIOFS_CODEC_MAX \<and> 0 < c_pending (lk_codecs l ! cad)
         then upd_codec cad (\<lambda>c. c\<lparr>c_response := resp, c_pending := c_pending c - 1\<rparr>) l
         else l)"

definition drain_one :: "rirb_entry list \<Rightarrow> hda_link \<Rightarrow> hda_link" where
  "drain_one base l =
     (let rp = of_nat (unat (lk_rirb_rp l + 1) mod lk_rirb_size l)
      in take_response (base ! unat rp) (l\<lparr>lk_rirb_rp := rp\<rparr>))"

partial_function (option) drain :: "u16 \<Rightarrow> rirb_entry list \<Rightarrow> nat \<Rightarrow> hda_link \<Rightarrow> (nat \<times> hda_link) option" where
  "drain hw_wp base consumed l =
     (if lk_rirb_rp l = hw_wp then Some (consumed, l)
      else drain hw_wp base (consumed + 1) (drain_one base l))"

definition audiofs_rirb_flush :: "hda_link \<Rightarrow> (nat \<times> hda_link) option" where
  "audiofs_rirb_flush l =
     (let (wp, base) = lk_hw l (lk_sent l) (lk_reads l)
      in drain (wp AND 0xff) base 0 (l\<lparr>lk_reads := lk_reads l + 1\<rparr>))"

section \<open>Commands\<close>

text \<open>The wait: at most \<open>timeout\<close> flushes, until nothing is outstanding at the codec.\<close>

fun send_wait :: "nat \<Rightarrow> nat \<Rightarrow> hda_link \<Rightarrow> hda_link option" where
  "send_wait 0 cad l = Some l"
| "send_wait (Suc timeout) cad l =
     Option.bind (audiofs_rirb_flush l) (\<lambda>(consumed, l).
       if c_pending (lk_codecs l ! cad) \<noteq> 0 \<and> timeout \<noteq> 0 then send_wait timeout cad l else Some l)"

definition cad_verb :: "nat \<Rightarrow> u32 \<Rightarrow> u32" where
  "cad_verb cad verb = (verb AND NOT 0xf0000000) OR push_bit 28 (of_nat cad)"

definition post_verb :: "nat \<Rightarrow> u32 \<Rightarrow> hda_link \<Rightarrow> hda_link" where
  "post_verb cad verb l =
     (let l = upd_codec cad (\<lambda>c. c\<lparr>c_response := HDA_INVALID, c_pending := c_pending c + 1\<rparr>) l;
          wp = of_nat (unat (lk_corb_wp l + 1) mod lk_corb_size l)
      in l\<lparr>lk_corb_wp := wp, lk_corb := (lk_corb l)[unat wp := verb], lk_sent := lk_sent l @ [verb]\<rparr>)"

definition audiofs_send_command :: "int \<Rightarrow> u32 \<Rightarrow> hda_link \<Rightarrow> (u32 \<times> hda_link) option" where
  "audiofs_send_command cad verb l =
     (if cad < 0 \<or> int AUDIOFS_CODEC_MAX \<le> cad then Some (HDA_INVALID, l)
      else let k = nat cad
           in map_option (\<lambda>l. if c_pending (lk_codecs l ! k) \<noteq> 0
                              then (HDA_INVALID, upd_codec k (\<lambda>c. c\<lparr>c_pending := 0\<rparr>) l)
                              else (c_response (lk_codecs l ! k), l))
                (send_wait AUDIOFS_CMD_TIMEOUT k (post_verb k (cad_verb k verb) l)))"

section \<open>The drain of the response ring\<close>

definition rirb_ok :: "nat \<Rightarrow> hda_link \<Rightarrow> bool" where
  "rirb_ok n l \<longleftrightarrow> lk_rirb_size l = n \<and> n \<le> 256 \<and> unat (lk_rirb_rp l) < n"

lemma take_response_simps [simp]:
  "lk_rirb_rp (take_response x l) = lk_rirb_rp l" "lk_rirb_size (take_response x l) = lk_rirb_size l"
  "lk_corb_size (take_response x l) = lk_corb_size l" "lk_corb_wp (take_response x l) = lk_corb_wp l"
  "lk_corb (take_response x l) = lk_corb l" "lk_sent (take_response x l) = lk_sent l"
  "lk_hw (take_response x l) = lk_hw l" "lk_reads (take_response x l) = lk_reads l"
  by (simp_all add: take_response_def upd_codec_def Let_def split_beta)

lemma next_rp:
  assumes "rirb_ok n l"
  shows "unat (of_nat (unat (lk_rirb_rp l + 1) mod lk_rirb_size l) :: u16) = (unat (lk_rirb_rp l) + 1) mod n"
proof -
  have "unat (lk_rirb_rp l + 1) = unat (lk_rirb_rp l) + 1"
    using assms unat_add_no_wrap [of "lk_rirb_rp l" 1] by (simp add: rirb_ok_def)
  moreover have "(unat (lk_rirb_rp l) + 1) mod n < n" "n \<le> 256"
    using assms by (auto simp: rirb_ok_def intro!: mod_less_divisor)
  then have "(unat (lk_rirb_rp l) + 1) mod n < 2 ^ LENGTH(16)" by simp
  ultimately show ?thesis using assms unat_of_nat_small [of "(unat (lk_rirb_rp l) + 1) mod n", where ?'n = 16]
    by (simp add: rirb_ok_def)
qed

lemma drain_one_rp:
  assumes "rirb_ok n l"
  shows "unat (lk_rirb_rp (drain_one base l)) = (unat (lk_rirb_rp l) + 1) mod n" "rirb_ok n (drain_one base l)"
proof -
  show r: "unat (lk_rirb_rp (drain_one base l)) = (unat (lk_rirb_rp l) + 1) mod n"
    using next_rp [OF assms] by (simp add: drain_one_def Let_def)
  show "rirb_ok n (drain_one base l)"
    using assms r by (simp add: rirb_ok_def drain_one_def Let_def)
qed

lemma drain_ends:
  assumes "drain w base k l = Some y"
  shows "rirb_ok n l \<longrightarrow> unat w < n"
proof (rule drain.raw_induct [OF _ assms])
  fix loop :: "u16 \<Rightarrow> rirb_entry list \<Rightarrow> nat \<Rightarrow> hda_link \<Rightarrow> (nat \<times> hda_link) option" and w base k l y
  assume IH: "\<And>w base k l y. loop w base k l = Some y \<Longrightarrow> rirb_ok n l \<longrightarrow> unat w < n"
    and eq: "(if lk_rirb_rp l = w then Some (k, l) else loop w base (k + 1) (drain_one base l)) = Some y"
  show "rirb_ok n l \<longrightarrow> unat w < n"
  proof (cases "lk_rirb_rp l = w")
    case False
    then have "loop w base (k + 1) (drain_one base l) = Some y" using eq by simp
    from IH [OF this] drain_one_rp(2) show ?thesis by blast
  qed (auto simp: rirb_ok_def)
qed

text \<open>The write pointer as a number, for the contract of the loop.\<close>

definition drain_to :: "rirb_entry list \<Rightarrow> nat \<Rightarrow> nat \<Rightarrow> hda_link \<Rightarrow> (nat \<times> hda_link) option" where
  "drain_to base c k l = (if c < 2 ^ 16 then drain (of_nat c) base k l else None)"

interpretation drain: cyclic_loop "drain_to base" "\<lambda>l. unat (lk_rirb_rp l)" "drain_one base" "rirb_ok n" n
  for base n
proof
  fix l c k y assume l: "rirb_ok n l"
  show "rirb_ok n (drain_one base l)" "unat (lk_rirb_rp (drain_one base l)) = (unat (lk_rirb_rp l) + 1) mod n"
    using drain_one_rp [OF l] by simp_all
  show "unat (lk_rirb_rp l) < n" using l by (simp add: rirb_ok_def)
  have "lk_rirb_rp l = of_nat c \<longleftrightarrow> unat (lk_rirb_rp l) = c" if "c < 2 ^ 16"
    using that by (auto simp: unat_of_nat)
  then show "drain_to base c k l =
      (if unat (lk_rirb_rp l) = c then Some (k, l) else drain_to base c (k + 1) (drain_one base l))"
    using l by (auto simp: drain_to_def rirb_ok_def drain.simps [of "of_nat c" base k l])
  show "drain_to base c k l = Some y \<Longrightarrow> c < n"
    using drain_ends [of "of_nat c" base k l y n] l by (auto simp: drain_to_def unat_of_nat split: if_splits)
qed

lemma drain_iff:
  assumes "rirb_ok n l"
  shows "drain w base k l = (if unat w < n
    then Some (k + drain.distance n (unat w) l, (drain_one base ^^ drain.distance n (unat w) l) l) else None)"
proof -
  have "unat w < 2 ^ 16" using unsigned_less [of w, where ?'a = nat] by simp
  then show ?thesis using drain.loop_iff [OF assms, of base "unat w" k] by (simp add: drain_to_def)
qed

section \<open>One command\<close>

definition link_ok :: "hda_link \<Rightarrow> bool" where
  "link_ok l \<longleftrightarrow> length (lk_codecs l) = AUDIOFS_CODEC_MAX \<and> rirb_ok (lk_rirb_size l) l \<and>
     0 < lk_corb_size l \<and> lk_corb_size l \<le> 256 \<and> length (lk_corb l) = lk_corb_size l \<and>
     unat (lk_corb_wp l) < lk_corb_size l \<and> (\<forall>c\<in>set (lk_codecs l). c_pending c = 0)"

text \<open>
  The bring-up establishes the invariant, or fails with nothing held (unless a load succeeds at bus
  address 0, whose map the allocation does not unload).
\<close>

lemma pick_sizes:
  "audiofs_pick_corb_rirb_sizes a b l = (e, l') \<Longrightarrow> e = 0 \<Longrightarrow>
   lk_corb_size l' \<in> {256, 16, 2} \<and> lk_rirb_size l' \<in> {256, 16, 2} \<and>
   lk_codecs l' = lk_codecs l \<and> lk_hw l' = lk_hw l"
  by (auto simp: audiofs_pick_corb_rirb_sizes_def ring_size_cap_def Let_def split: option.splits if_splits)

definition dma_live :: "audiofs_dma \<Rightarrow> bool" where
  "dma_live d \<longleftrightarrow> dma_tag d \<and> dma_vaddr d \<and> dma_paddr d \<noteq> 0"

lemma dma_alloc_cases:
  assumes "audiofs_dma_alloc a sz (t, m, n) = (e, d, h)" "\<not> (load_error a = 0 \<and> seg_addr a = 0)"
  shows "e \<noteq> 0 \<and> h = (t, m, n) \<and> dma_tag d = False \<or>
    e = 0 \<and> h = (t + 1, m + 1, n + 1) \<and> dma_tag d \<and> dma_vaddr d \<and> dma_paddr d = seg_addr a \<and> dma_paddr d \<noteq> 0 \<and>
    sz \<le> dma_size d \<and> 128 dvd dma_size d"
proof -
  have "sz \<le> (sz + 127) div 128 * 128" using div_mult_mod_eq [of "sz + 127" 128] mod_less_divisor [of 128 "sz + 127"] by linarith
  then show ?thesis using assms
    by (cases "tag_error a = 0"; cases "mem_error a = 0"; cases "load_error a = 0")
      (auto simp: audiofs_dma_alloc_def audiofs_dma_cb_def no_dma_def Let_def)
qed

lemma bring_up_sent [simp]:
  "lk_sent (snd (audiofs_pick_corb_rirb_sizes cs rs l)) = lk_sent l"
  "lk_sent (snd (audiofs_corb_init p l)) = lk_sent l" "lk_sent (snd (audiofs_rirb_init p l)) = lk_sent l"
  by (simp_all add: audiofs_pick_corb_rirb_sizes_def audiofs_corb_init_def audiofs_rirb_init_def Let_def split: option.split)

lemma link_bring_up_sent:
  "link_bring_up cs rs ca ra cc rc g l held = (e, ws, l', d, h) \<Longrightarrow> lk_sent l' = lk_sent l"
  by (auto simp: link_bring_up_def split_beta Let_def split: if_splits)

lemma link_bring_up_ok:
  assumes "link_bring_up cs rs ca ra cc rc g l (t, m, n) = (e, ws, l', (cdma, rdma), h)"
    and "length (lk_codecs l) = 16" "\<forall>c\<in>set (lk_codecs l). c_pending c = 0"
    and "\<not> (load_error ca = 0 \<and> seg_addr ca = 0)" "\<not> (load_error ra = 0 \<and> seg_addr ra = 0)"
  shows "e = 0 \<and> link_ok l' \<and> lk_codecs l' = lk_codecs l \<and> lk_hw l' = lk_hw l \<and> lk_rirb_size l' \<in> {256, 16, 2} \<and>
      h = (t + 2, m + 2, n + 2) \<and> dma_live cdma \<and> dma_live rdma \<or>
    e \<noteq> 0 \<and> ws = [] \<and> h = (t, m, n)"
proof -
  obtain e1 l1 where p: "audiofs_pick_corb_rirb_sizes cs rs l = (e1, l1)" by (metis surj_pair)
  show ?thesis
  proof (cases "e1 = 0")
    case False
    then show ?thesis using assms(1) p by (auto simp: link_bring_up_def)
  next
    case True
    have z: "lk_corb_size l1 \<in> {256, 16, 2}" "lk_rirb_size l1 \<in> {256, 16, 2}"
      "lk_codecs l1 = lk_codecs l" "lk_hw l1 = lk_hw l"
      using pick_sizes [OF p True] by simp_all
    obtain e2 c2 h2 where c: "audiofs_dma_alloc ca (lk_corb_size l1 * 4) (t, m, n) = (e2, c2, h2)" by (metis surj_pair)
    obtain e3 r3 h3 where r: "audiofs_dma_alloc ra (lk_rirb_size l1 * 8) h2 = (e3, r3, h3)" by (metis surj_pair)
    show ?thesis
    proof (cases "e2 = 0")
      case e2: False
      then show ?thesis using assms(1) p True c dma_alloc_cases [OF c assms(4)] by (auto simp: link_bring_up_def)
    next
      case e2: True
      have h2: "h2 = (t + 1, m + 1, n + 1)" "dma_tag c2" "dma_vaddr c2" "dma_paddr c2 \<noteq> 0"
        using dma_alloc_cases [OF c assms(4)] e2 by auto
      note rc = dma_alloc_cases [OF r [unfolded h2] assms(5)]
      show ?thesis
      proof (cases "e3 = 0")
        case False
        then show ?thesis using assms(1) p True c e2 r rc h2
          by (auto simp: link_bring_up_def audiofs_dma_free_def Let_def)
      next
        case e3: True
        then have h3: "h3 = (t + 2, m + 2, n + 2)" "dma_live r3" using rc by (auto simp: dma_live_def)
        have c3: "dma_live c2" using h2 by (simp add: dma_live_def)
        obtain v w where v: "ring_size_reg (lk_corb_size l1) = Some v" "ring_size_reg (lk_rirb_size l1) = Some w"
          using z(1,2) by (auto simp: ring_size_reg_def)
        have l': "e = 0" "h = h3" "cdma = c2" "rdma = r3" "l' = l1\<lparr>lk_corb := replicate (lk_corb_size l1) 0, lk_corb_wp := 0, lk_rirb_rp := 0\<rparr>"
          using assms(1) p True c e2 r e3 v
          by (auto simp: link_bring_up_def audiofs_corb_init_def audiofs_rirb_init_def Let_def)
        have n: "0 < lk_corb_size l1" "lk_corb_size l1 \<le> 256" "0 < lk_rirb_size l1" "lk_rirb_size l1 \<le> 256"
          using z(1,2) by auto
        have "link_ok l'" unfolding l'(5) using n z(3) assms(2,3) by (simp add: link_ok_def rirb_ok_def)
        then show ?thesis using l' h3 c3 z by simp
      qed
    qed
  qed
qed

text \<open>What a read of the write pointer shows.\<close>

definition seen_wp :: "hda_link \<Rightarrow> nat \<Rightarrow> u16" where
  "seen_wp l k = fst (lk_hw l (lk_sent l) k) AND 0xff"

definition seen_slot :: "hda_link \<Rightarrow> nat \<Rightarrow> rirb_entry" where
  "seen_slot l k = snd (lk_hw l (lk_sent l) k) ! unat (seen_wp l k)"

lemma seen_frame [simp]:
  "seen_wp (l\<lparr>lk_reads := a\<rparr>) j = seen_wp l j" "seen_slot (l\<lparr>lk_reads := a\<rparr>) j = seen_slot l j"
  "seen_wp (l\<lparr>lk_rirb_rp := b\<rparr>) j = seen_wp l j" "seen_slot (l\<lparr>lk_rirb_rp := b\<rparr>) j = seen_slot l j"
  "seen_wp (upd_codec k f l) j = seen_wp l j" "seen_slot (upd_codec k f l) j = seen_slot l j"
  by (simp_all add: seen_wp_def seen_slot_def upd_codec_def)

lemma flush_quiet:
  "seen_wp l (lk_reads l) = lk_rirb_rp l \<Longrightarrow> audiofs_rirb_flush l = Some (0, l\<lparr>lk_reads := lk_reads l + 1\<rparr>)"
  by (simp add: audiofs_rirb_flush_def seen_wp_def split_beta drain.simps)

lemma flush_one:
  assumes "rirb_ok n l" "2 \<le> n" "unat (seen_wp l (lk_reads l)) = (unat (lk_rirb_rp l) + 1) mod n"
  shows "audiofs_rirb_flush l = Some (1, take_response (seen_slot l (lk_reads l))
    (l\<lparr>lk_reads := lk_reads l + 1, lk_rirb_rp := seen_wp l (lk_reads l)\<rparr>))"
proof -
  let ?l = "l\<lparr>lk_reads := lk_reads l + 1\<rparr>" let ?w = "seen_wp l (lk_reads l)"
  have ok: "rirb_ok n ?l" using assms(1) by (simp add: rirb_ok_def)
  have rp: "unat (lk_rirb_rp l) < n" using assms(1) by (simp add: rirb_ok_def)
  have "drain.distance n (unat ?w) ?l = 1"
  proof (cases "unat (lk_rirb_rp l) + 1 < n")
    case True
    then show ?thesis using assms(2,3) by (simp add: drain.distance_def mod_Suc)
  next
    case False
    then have "unat (lk_rirb_rp l) + 1 = n" using rp by simp
    then show ?thesis using assms(2,3) by (simp add: drain.distance_def)
  qed
  moreover have "unat ?w < n" using assms(2,3) by simp
  moreover have "of_nat (unat (lk_rirb_rp l + 1) mod lk_rirb_size l) = ?w"
    using next_rp [OF assms(1)] assms(3) by (metis word_unat_eq_iff)
  ultimately show ?thesis
    using drain_iff [OF ok, of ?w "snd (lk_hw l (lk_sent l) (lk_reads l))" 0]
    by (simp add: audiofs_rirb_flush_def seen_wp_def seen_slot_def split_beta drain_one_def Let_def)
qed

text \<open>
  A codec that answers after \<open>d\<close> reads of the pointer, within the timeout: nothing new before, then one
  solicited response of this codec.
\<close>

definition answers :: "nat \<Rightarrow> u32 \<Rightarrow> nat \<Rightarrow> hda_link \<Rightarrow> bool" where
  "answers k r d l \<longleftrightarrow> (\<forall>j<d. seen_wp l (lk_reads l + j) = lk_rirb_rp l) \<and>
     unat (seen_wp l (lk_reads l + d)) = (unat (lk_rirb_rp l) + 1) mod lk_rirb_size l \<and>
     (\<exists>ex. seen_slot l (lk_reads l + d) = (r, ex) \<and> ex AND 0x10 = 0 \<and> unat (ex AND 0xf) = k)"

lemma send_wait_answered:
  assumes "rirb_ok (lk_rirb_size l) l" "2 \<le> lk_rirb_size l" "k < 16" "length (lk_codecs l) = 16"
    and "c_pending (lk_codecs l ! k) = 1" "answers k r d l"
  shows "send_wait (d + Suc m) k l = Some (upd_codec k (\<lambda>c. c\<lparr>c_response := r, c_pending := 0\<rparr>)
    (l\<lparr>lk_reads := lk_reads l + d + 1, lk_rirb_rp := seen_wp l (lk_reads l + d)\<rparr>))"
  using assms
proof (induction d arbitrary: l)
  case 0
  then obtain ex where ex: "seen_slot l (lk_reads l) = (r, ex)" "ex AND 0x10 = 0" "unat (ex AND 0xf) = k"
    and w: "unat (seen_wp l (lk_reads l)) = (unat (lk_rirb_rp l) + 1) mod lk_rirb_size l"
    by (auto simp: answers_def)
  let ?l = "l\<lparr>lk_reads := lk_reads l + 1, lk_rirb_rp := seen_wp l (lk_reads l)\<rparr>"
  have "take_response (r, ex) ?l = upd_codec k (\<lambda>c. c\<lparr>c_response := r, c_pending := 0\<rparr>) ?l"
    using ex(2,3) 0 by (simp add: take_response_def upd_codec_def Let_def)
  then show ?case
    using flush_one [OF 0(1,2) w] ex(1) 0 by (simp add: upd_codec_def)
next
  case (Suc d)
  let ?l = "l\<lparr>lk_reads := lk_reads l + 1\<rparr>"
  have q: "seen_wp l (lk_reads l) = lk_rirb_rp l" using Suc.prems(6) by (simp add: answers_def All_less_Suc2)
  have "answers k r d ?l" using Suc.prems(6) by (simp add: answers_def All_less_Suc2)
  from Suc.IH [OF _ _ _ _ _ this] Suc.prems have "send_wait (d + Suc m) k ?l =
      Some (upd_codec k (\<lambda>c. c\<lparr>c_response := r, c_pending := 0\<rparr>)
        (?l\<lparr>lk_reads := lk_reads l + 1 + d + 1, lk_rirb_rp := seen_wp l (lk_reads l + 1 + d)\<rparr>))"
    by (simp add: rirb_ok_def)
  then show ?case using flush_quiet [OF q] Suc.prems(5) by simp
qed

lemma send_wait_silent:
  assumes "\<forall>j<d. seen_wp l (lk_reads l + j) = lk_rirb_rp l" "c_pending (lk_codecs l ! k) \<noteq> 0"
  shows "send_wait d k l = Some (l\<lparr>lk_reads := lk_reads l + d\<rparr>)"
  using assms
proof (induction d arbitrary: l)
  case (Suc d)
  let ?l = "l\<lparr>lk_reads := lk_reads l + 1\<rparr>"
  have q: "seen_wp l (lk_reads l) = lk_rirb_rp l" using Suc.prems(1) by (simp add: All_less_Suc2)
  have "\<forall>j<d. seen_wp ?l (lk_reads ?l + j) = lk_rirb_rp ?l"
    using Suc.prems(1) by (simp add: seen_wp_def All_less_Suc2)
  from Suc.IH [OF this] Suc.prems(2) have "send_wait d k ?l = Some (?l\<lparr>lk_reads := lk_reads l + 1 + d\<rparr>)" by simp
  then show ?case using flush_quiet [OF q] Suc.prems(2) by (cases d) simp_all
qed simp

text \<open>The link after a command was posted and after it was answered.\<close>

lemma upd_codec_simps [simp]:
  "lk_rirb_rp (upd_codec k f l) = lk_rirb_rp l" "lk_rirb_size (upd_codec k f l) = lk_rirb_size l"
  "lk_corb_size (upd_codec k f l) = lk_corb_size l" "lk_corb_wp (upd_codec k f l) = lk_corb_wp l"
  "lk_corb (upd_codec k f l) = lk_corb l" "lk_sent (upd_codec k f l) = lk_sent l"
  "lk_hw (upd_codec k f l) = lk_hw l" "lk_reads (upd_codec k f l) = lk_reads l"
  "lk_codecs (upd_codec k f l) = (lk_codecs l)[k := f (lk_codecs l ! k)]"
  by (simp_all add: upd_codec_def)

lemma post_verb_simps [simp]:
  "lk_rirb_rp (post_verb k v l) = lk_rirb_rp l" "lk_rirb_size (post_verb k v l) = lk_rirb_size l"
  "lk_corb_size (post_verb k v l) = lk_corb_size l" "lk_sent (post_verb k v l) = lk_sent l @ [v]"
  "lk_hw (post_verb k v l) = lk_hw l" "lk_reads (post_verb k v l) = lk_reads l"
  "lk_codecs (post_verb k v l) =
     (lk_codecs l)[k := (lk_codecs l ! k)\<lparr>c_response := HDA_INVALID, c_pending := c_pending (lk_codecs l ! k) + 1\<rparr>]"
  by (simp_all add: post_verb_def Let_def)

lemma corb_wp_step:
  assumes "link_ok l"
  shows "unat (lk_corb_wp (post_verb k v l)) = (unat (lk_corb_wp l) + 1) mod lk_corb_size l"
    "lk_corb (post_verb k v l) = (lk_corb l)[(unat (lk_corb_wp l) + 1) mod lk_corb_size l := v]"
proof -
  let ?n = "(unat (lk_corb_wp l) + 1) mod lk_corb_size l"
  have "unat (lk_corb_wp l + 1) = unat (lk_corb_wp l) + 1"
    using assms unat_add_no_wrap [of "lk_corb_wp l" 1] by (simp add: link_ok_def)
  moreover have "?n < lk_corb_size l" "lk_corb_size l \<le> 256" using assms by (auto simp: link_ok_def)
  then have "unat (of_nat ?n :: u16) = ?n" by (intro unat_of_nat_small) simp
  ultimately show "unat (lk_corb_wp (post_verb k v l)) = ?n" "lk_corb (post_verb k v l) = (lk_corb l)[?n := v]"
    by (simp_all add: post_verb_def Let_def)
qed

definition answered :: "nat \<Rightarrow> u32 \<Rightarrow> u32 \<Rightarrow> hda_link \<Rightarrow> hda_link \<Rightarrow> bool" where
  "answered k v r l l' \<longleftrightarrow> link_ok l' \<and> lk_sent l' = lk_sent l @ [v] \<and> lk_hw l' = lk_hw l \<and>
     lk_rirb_size l' = lk_rirb_size l \<and> lk_corb_size l' = lk_corb_size l \<and>
     lk_corb l' ! unat (lk_corb_wp l') = v \<and> unat (lk_corb_wp l') = (unat (lk_corb_wp l) + 1) mod lk_corb_size l \<and>
     unat (lk_rirb_rp l') = (unat (lk_rirb_rp l) + 1) mod lk_rirb_size l \<and>
     lk_codecs l' = (lk_codecs l)[k := (lk_codecs l ! k)\<lparr>c_response := r\<rparr>]"

lemma idle_codec: "link_ok l \<Longrightarrow> k < 16 \<Longrightarrow> c_pending (lk_codecs l ! k) = 0"
  by (auto simp: link_ok_def)

lemma rirb_ok_post: "link_ok l \<Longrightarrow> rirb_ok (lk_rirb_size l) (post_verb k v l)"
  by (simp add: link_ok_def rirb_ok_def)

lemma send_answered:
  assumes ok: "link_ok l" and n: "2 \<le> lk_rirb_size l" and k: "k < 16" and d: "d < 10000"
    and a: "answers k r d (post_verb k (cad_verb k verb) l)"
  shows "\<exists>l'. audiofs_send_command (int k) verb l = Some (r, l') \<and> lk_reads l' = lk_reads l + d + 1 \<and>
    answered k (cad_verb k verb) r l l'"
proof -
  let ?p = "post_verb k (cad_verb k verb) l"
  let ?l = "upd_codec k (\<lambda>c. c\<lparr>c_response := r, c_pending := 0\<rparr>)
    (?p\<lparr>lk_reads := lk_reads l + d + 1, lk_rirb_rp := seen_wp ?p (lk_reads l + d)\<rparr>)"
  have c: "length (lk_codecs l) = 16" "c_pending (lk_codecs l ! k) = 0" using ok idle_codec [OF ok k] by (auto simp: link_ok_def)
  have "send_wait (d + Suc (9999 - d)) k ?p = Some ?l"
    using send_wait_answered [OF _ _ k _ _ a, of "9999 - d"] rirb_ok_post [OF ok, of k "cad_verb k verb"] n c k by simp
  moreover have "d + Suc (9999 - d) = 10000" using d by simp
  ultimately have w: "send_wait 10000 k ?p = Some ?l" by simp
  have wp: "unat (seen_wp ?p (lk_reads l + d)) = (unat (lk_rirb_rp l) + 1) mod lk_rirb_size l"
    using a by (simp add: answers_def)
  have codecs: "lk_codecs ?l = (lk_codecs l)[k := (lk_codecs l ! k)\<lparr>c_response := r\<rparr>]"
  proof -
    have "x\<lparr>c_response := r, c_pending := 0\<rparr> = x\<lparr>c_response := r\<rparr>" if "c_pending x = 0" for x :: audiofs_codec
      using that by (cases x) simp
    from this [OF c(2)] show ?thesis using c(1) k by (simp only: upd_codec_simps) simp
  qed
  have corb: "length (lk_corb l) = lk_corb_size l" "0 < lk_corb_size l" using ok by (simp_all add: link_ok_def)
  have "\<forall>x\<in>set (lk_codecs ?l). c_pending x = 0"
    unfolding codecs using ok c by (auto simp: link_ok_def dest!: subsetD [OF set_update_subset_insert])
  then have "link_ok ?l"
    using ok n wp codecs corb_wp_step [OF ok, of k "cad_verb k verb"] by (simp add: link_ok_def rirb_ok_def)
  then have "answered k (cad_verb k verb) r l ?l"
    using codecs wp corb corb_wp_step [OF ok, of k "cad_verb k verb"] by (simp add: answered_def)
  then show ?thesis
    using w c k by (intro exI [of _ ?l]) (simp add: audiofs_send_command_def Let_def del: send_wait.simps)
qed

text \<open>A codec that stays silent for the whole wait: the command fails and nothing is left outstanding.\<close>

lemma send_silent:
  assumes ok: "link_ok l" and k: "k < 16"
    and q: "\<forall>j<10000. seen_wp (post_verb k (cad_verb k verb) l) (lk_reads l + j) = lk_rirb_rp l"
  shows "\<exists>l'. audiofs_send_command (int k) verb l = Some (HDA_INVALID, l') \<and> link_ok l' \<and>
    lk_reads l' = lk_reads l + 10000 \<and> lk_sent l' = lk_sent l @ [cad_verb k verb] \<and> lk_hw l' = lk_hw l \<and>
    lk_rirb_size l' = lk_rirb_size l \<and> lk_rirb_rp l' = lk_rirb_rp l \<and> length (lk_codecs l') = 16"
proof -
  let ?p = "post_verb k (cad_verb k verb) l"
  let ?l = "upd_codec k (\<lambda>c. c\<lparr>c_pending := 0\<rparr>) (?p\<lparr>lk_reads := lk_reads l + 10000\<rparr>)"
  have c: "length (lk_codecs l) = 16" "c_pending (lk_codecs l ! k) = 0" using ok idle_codec [OF ok k] by (auto simp: link_ok_def)
  have w: "send_wait 10000 k ?p = Some (?p\<lparr>lk_reads := lk_reads l + 10000\<rparr>)"
    using send_wait_silent [of 10000 ?p k] q c k by simp
  have "\<forall>x\<in>set (lk_codecs ?l). c_pending x = 0"
    using ok c k by (auto simp: link_ok_def dest!: subsetD [OF set_update_subset_insert])
  then have "link_ok ?l"
    using ok corb_wp_step [OF ok, of k "cad_verb k verb"] by (simp add: link_ok_def rirb_ok_def)
  then show ?thesis
    using w c k by (intro exI [of _ ?l]) (simp add: audiofs_send_command_def Let_def del: send_wait.simps)
qed

text \<open>
  Whatever the responses: a command returns when every write pointer the hardware shows lies
  inside the ring, and keeps the link consistent.
\<close>

definition pointers_ok :: "hda_link \<Rightarrow> bool" where
  "pointers_ok l \<longleftrightarrow> (\<forall>sent k. unat (fst (lk_hw l sent k) AND 0xff) < lk_rirb_size l)"

text \<open>What responses leave alone, and what they may do to a codec.\<close>

definition same_walk :: "audiofs_codec \<Rightarrow> audiofs_codec \<Rightarrow> bool" where
  "same_walk c c' \<longleftrightarrow> c' = c\<lparr>c_pending := c_pending c', c_response := c_response c'\<rparr>"

definition link_step :: "hda_link \<Rightarrow> hda_link \<Rightarrow> bool" where
  "link_step l l' \<longleftrightarrow> lk_hw l' = lk_hw l \<and> lk_rirb_size l' = lk_rirb_size l \<and> lk_corb_size l' = lk_corb_size l \<and>
     length (lk_corb l') = length (lk_corb l) \<and> list_all2 same_walk (lk_codecs l) (lk_codecs l')"

lemma same_walk_refl [simp]: "same_walk c c"
  by (simp add: same_walk_def)

lemma same_walk_trans: "same_walk a b \<Longrightarrow> same_walk b c \<Longrightarrow> same_walk a c"
  by (cases a; cases b; cases c) (simp add: same_walk_def)

lemma link_step_refl [simp]: "link_step l l"
  by (simp add: link_step_def list_all2_refl)

lemma link_step_trans: "link_step a b \<Longrightarrow> link_step b c \<Longrightarrow> link_step a c"
  by (auto simp: link_step_def intro: list_all2_trans [of same_walk same_walk same_walk, OF same_walk_trans])

lemma link_step_upd:
  "(\<And>c. same_walk c (f c)) \<Longrightarrow> link_step l (upd_codec k f l)"
  by (cases "k < length (lk_codecs l)") (auto simp: link_step_def list_all2_conv_all_nth nth_list_update)

lemma link_step_take: "link_step l (take_response x l)"
  by (auto simp: take_response_def Let_def split_beta intro!: link_step_upd simp: same_walk_def)

text \<open>A step of the wait sends nothing.\<close>

definition wait_step :: "hda_link \<Rightarrow> hda_link \<Rightarrow> bool" where
  "wait_step l l' \<longleftrightarrow> link_step l l' \<and> lk_sent l' = lk_sent l"

lemma wait_step_refl [simp]: "wait_step l l"
  by (simp add: wait_step_def)

lemma wait_step_trans: "wait_step a b \<Longrightarrow> wait_step b c \<Longrightarrow> wait_step a c"
  by (auto simp: wait_step_def intro: link_step_trans)

text \<open>During a command to codec \<open>k\<close> only that codec has something outstanding.\<close>

definition busy :: "nat \<Rightarrow> hda_link \<Rightarrow> bool" where
  "busy k l \<longleftrightarrow> length (lk_codecs l) = AUDIOFS_CODEC_MAX \<and> rirb_ok (lk_rirb_size l) l \<and>
     0 < lk_corb_size l \<and> lk_corb_size l \<le> 256 \<and> length (lk_corb l) = lk_corb_size l \<and>
     unat (lk_corb_wp l) < lk_corb_size l \<and> (\<forall>i<16. i \<noteq> k \<longrightarrow> c_pending (lk_codecs l ! i) = 0)"

lemma busy_take: "busy k l \<Longrightarrow> busy k (take_response x l)"
  by (auto simp: busy_def take_response_def rirb_ok_def nth_list_update Let_def split_beta)

lemma busy_drain_one:
  assumes "busy k l"
  shows "busy k (drain_one base l) \<and> wait_step l (drain_one base l)"
proof -
  have ok: "rirb_ok (lk_rirb_size l) l" using assms by (simp add: busy_def)
  let ?l = "l\<lparr>lk_rirb_rp := of_nat (unat (lk_rirb_rp l + 1) mod lk_rirb_size l)\<rparr>"
  have "unat (lk_rirb_rp ?l) = (unat (lk_rirb_rp l) + 1) mod lk_rirb_size l" using next_rp [OF ok] by simp
  then have "rirb_ok (lk_rirb_size l) ?l" using ok by (simp add: rirb_ok_def)
  then have "busy k ?l" using assms by (simp add: busy_def)
  moreover have "link_step l ?l" by (simp add: link_step_def list_all2_refl)
  ultimately show ?thesis
    using busy_take link_step_trans [OF _ link_step_take] by (simp add: drain_one_def wait_step_def Let_def)
qed

lemma busy_flush:
  assumes "busy k l" "pointers_ok l"
  shows "\<exists>n l'. audiofs_rirb_flush l = Some (n, l') \<and> busy k l' \<and> wait_step l l'"
proof -
  obtain w base where h: "lk_hw l (lk_sent l) (lk_reads l) = (w, base)" by (metis surj_pair)
  let ?l = "l\<lparr>lk_reads := lk_reads l + 1\<rparr>"
  have b: "busy k ?l" "wait_step l ?l"
    using assms(1) by (simp_all add: busy_def rirb_ok_def wait_step_def link_step_def list_all2_refl)
  have "busy k ((drain_one base ^^ m) ?l) \<and> wait_step ?l ((drain_one base ^^ m) ?l)" for m
    by (induction m) (use b busy_drain_one wait_step_trans in \<open>auto intro: wait_step_refl\<close>)
  moreover have "unat (w AND 0xff) < lk_rirb_size l" using assms(2) h unfolding pointers_ok_def by (metis fst_conv)
  moreover have "rirb_ok (lk_rirb_size l) ?l" using b(1) by (simp add: busy_def)
  ultimately show ?thesis
    using drain_iff [of "lk_rirb_size l" ?l "w AND 0xff" base 0] b(2) wait_step_trans
    by (auto simp: audiofs_rirb_flush_def h)
qed

lemma pointers_step: "pointers_ok l \<Longrightarrow> link_step l l' \<Longrightarrow> pointers_ok l'"
  by (simp add: pointers_ok_def link_step_def)

lemma busy_wait:
  "busy k l \<Longrightarrow> pointers_ok l \<Longrightarrow> \<exists>l'. send_wait t k l = Some l' \<and> busy k l' \<and> wait_step l l'"
proof (induction t arbitrary: l)
  case (Suc t)
  obtain n l1 where f: "audiofs_rirb_flush l = Some (n, l1)" "busy k l1" "wait_step l l1"
    using busy_flush [OF Suc.prems] by blast
  from f(3) have "link_step l l1" by (simp add: wait_step_def)
  from Suc.IH [OF f(2) pointers_step [OF Suc.prems(2) this]] f wait_step_trans [OF f(3)] show ?case by auto
qed simp

lemma send_total:
  assumes "link_ok l" "pointers_ok l" "k < 16"
  shows "\<exists>r l'. audiofs_send_command (int k) verb l = Some (r, l') \<and> link_ok l' \<and> link_step l l' \<and>
    lk_sent l' = lk_sent l @ [cad_verb k verb]"
proof -
  let ?p = "post_verb k (cad_verb k verb) l"
  have "busy k ?p"
    using assms(1,3) corb_wp_step [OF assms(1), of k "cad_verb k verb"]
    by (auto simp: busy_def link_ok_def rirb_ok_def nth_list_update)
  moreover have s: "link_step l ?p"
  proof -
    have "link_step l (upd_codec k (\<lambda>c. c\<lparr>c_response := HDA_INVALID, c_pending := c_pending c + 1\<rparr>) l)"
      by (rule link_step_upd) (simp add: same_walk_def)
    then show ?thesis by (simp add: link_step_def post_verb_def Let_def)
  qed
  ultimately obtain l1 where w: "send_wait 10000 k ?p = Some l1" "busy k l1" "wait_step ?p l1"
    using busy_wait [OF _ pointers_step [OF assms(2)]] by blast
  have sent: "lk_sent l1 = lk_sent l @ [cad_verb k verb]" using w(3) by (simp add: wait_step_def)
  have st: "link_step ?p l1" using w(3) by (simp add: wait_step_def)
  let ?l = "if c_pending (lk_codecs l1 ! k) \<noteq> 0 then upd_codec k (\<lambda>c. c\<lparr>c_pending := 0\<rparr>) l1 else l1"
  have "link_step l1 ?l" by (auto intro!: link_step_upd simp: same_walk_def)
  then have "link_step l ?l" using link_step_trans [OF s link_step_trans [OF st]] by blast
  moreover have "link_ok ?l"
    using w(2) assms(3) by (auto simp: busy_def link_ok_def rirb_ok_def in_set_conv_nth nth_list_update)
  ultimately show ?thesis using w(1) assms(3) sent
    by (auto simp: audiofs_send_command_def Let_def simp del: send_wait.simps)
qed

end
