(* ===== verification/Audiofs_Topology.thy ===== *)
theory Audiofs_Topology
  imports Audiofs_Link
begin

text \<open>
  The topology walk of audiofs (\<^verbatim>\<open>audiofs_enumerate_codecs\<close>,
  \<^verbatim>\<open>audiofs_widget_read_conns\<close>, \<^verbatim>\<open>audiofs_walk_widget\<close>,
  \<^verbatim>\<open>audiofs_walk_function_group\<close>, \<^verbatim>\<open>audiofs_walk_codec\<close>): every step is a command
  on the link, so an operation is a function of the link that may not return. The codec arrays the walk fills are
  those of the link record.
\<close>

section \<open>Verbs\<close>

definition get_parameter :: "u16 \<Rightarrow> u32 \<Rightarrow> u32" where
  "get_parameter nid param = push_bit 20 (ucast nid) OR 0xf0000 OR param"

definition get_conn_list_entry :: "u16 \<Rightarrow> nat \<Rightarrow> u32" where
  "get_conn_list_entry nid i = push_bit 20 (ucast nid) OR 0xf0200 OR of_nat i"

definition get_configuration_default :: "u16 \<Rightarrow> u32" where
  "get_configuration_default nid = push_bit 20 (ucast nid) OR 0xf1c00"

definition get_subsystem_id :: "u16 \<Rightarrow> u32" where
  "get_subsystem_id nid = push_bit 20 (ucast nid) OR 0xf2000"

abbreviation (input) PARAM_VENDOR_ID :: u32 where "PARAM_VENDOR_ID \<equiv> 0x00"
abbreviation (input) PARAM_REVISION_ID :: u32 where "PARAM_REVISION_ID \<equiv> 0x02"
abbreviation (input) PARAM_SUB_NODE_COUNT :: u32 where "PARAM_SUB_NODE_COUNT \<equiv> 0x04"
abbreviation (input) PARAM_FCT_GRP_TYPE :: u32 where "PARAM_FCT_GRP_TYPE \<equiv> 0x05"
abbreviation (input) PARAM_AUDIO_WIDGET_CAP :: u32 where "PARAM_AUDIO_WIDGET_CAP \<equiv> 0x09"
abbreviation (input) PARAM_SUPP_PCM_SIZE_RATE :: u32 where "PARAM_SUPP_PCM_SIZE_RATE \<equiv> 0x0a"
abbreviation (input) PARAM_SUPP_STREAM_FORMATS :: u32 where "PARAM_SUPP_STREAM_FORMATS \<equiv> 0x0b"
abbreviation (input) PARAM_PIN_CAP :: u32 where "PARAM_PIN_CAP \<equiv> 0x0c"
abbreviation (input) PARAM_CONN_LIST_LENGTH :: u32 where "PARAM_CONN_LIST_LENGTH \<equiv> 0x0e"
abbreviation (input) PARAM_OUTPUT_AMP_CAP :: u32 where "PARAM_OUTPUT_AMP_CAP \<equiv> 0x12"

abbreviation (input) AUDIOFS_CONN_MAX :: byte where "AUDIOFS_CONN_MAX \<equiv> 16"

section \<open>Connection lists\<close>

text \<open>The entries of one response: node number and range bit, two or four per response.\<close>

definition conn_entries :: "nat \<Rightarrow> u32 \<Rightarrow> (u16 \<times> bool) list" where
  "conn_entries entnum res =
     map (\<lambda>j. let width = 32 div entnum; shift = width * j; mask = push_bit (width - 1) 1 - 1
              in (ucast (drop_bit shift res AND mask), drop_bit (shift + width - 1) res AND 1 \<noteq> 0)) [0..<entnum]"

text \<open>The loop that appends \<open>addcnid\<close> to \<open>cnid\<close>; the result says whether the list is full.\<close>

function add_conns :: "u16 \<Rightarrow> u16 \<Rightarrow> audiofs_widget \<Rightarrow> bool \<times> audiofs_widget" where
  "add_conns addcnid cnid w =
     (if \<not> addcnid \<le> cnid then (False, w)
      else if AUDIOFS_CONN_MAX \<le> w_nconns w then (True, w\<lparr>w_conn_overflow := True\<rparr>)
      else add_conns (addcnid + 1) cnid
             (w\<lparr>w_conns := (w_conns w)[unat (w_nconns w) := addcnid], w_nconns := w_nconns w + 1\<rparr>))"
  by pat_completeness auto
termination
proof (relation "measure (\<lambda>(a, c, w). 16 - unat (w_nconns w))")
  fix a c :: u16 and w :: audiofs_widget
  assume "\<not> AUDIOFS_CONN_MAX \<le> w_nconns w"
  then have "unat (w_nconns w) < 16" by (simp add: word_le_nat_alt)
  moreover from this have "unat (w_nconns w + 1) = unat (w_nconns w) + 1"
    using unat_add_no_wrap [of "w_nconns w" 1] by simp
  ultimately show "((a + 1, c, w\<lparr>w_conns := (w_conns w)[unat (w_nconns w) := a], w_nconns := w_nconns w + 1\<rparr>), a, c, w)
      \<in> measure (\<lambda>(a, c, w). 16 - unat (w_nconns w))" by simp
qed simp

declare add_conns.simps [simp del]

text \<open>The entries of a response in order: whether the walk stops, the previous node, the widget.\<close>

fun take_entries :: "(u16 \<times> bool) list \<Rightarrow> u16 \<Rightarrow> audiofs_widget \<Rightarrow> bool \<times> u16 \<times> audiofs_widget" where
  "take_entries [] prevcnid w = (False, prevcnid, w)"
| "take_entries ((cnid, range_bit) # es) prevcnid w =
     (if cnid = 0 then (True, prevcnid, w)
      else let addcnid = (if \<not> range_bit then cnid else if prevcnid = 0 \<or> cnid \<le> prevcnid then cnid else prevcnid + 1);
               (full, w) = add_conns addcnid cnid w
           in if full then (True, prevcnid, w) else take_entries es cnid w)"

fun read_entries :: "nat \<Rightarrow> nat \<Rightarrow> nat list \<Rightarrow> u16 \<Rightarrow> audiofs_widget \<Rightarrow> hda_link \<Rightarrow> (audiofs_widget \<times> hda_link) option" where
  "read_entries cad entnum [] prevcnid w l = Some (w, l)"
| "read_entries cad entnum (i # is) prevcnid w l =
     Option.bind (audiofs_send_command (int cad) (get_conn_list_entry (w_nid w) i) l) (\<lambda>(res, l).
       if res = HDA_INVALID then Some (w, l)
       else let (stop, prevcnid, w) = take_entries (conn_entries entnum res) prevcnid w
            in if stop then Some (w, l) else read_entries cad entnum is prevcnid w l)"

definition audiofs_widget_read_conns :: "nat \<Rightarrow> audiofs_widget \<Rightarrow> hda_link \<Rightarrow> (audiofs_widget \<times> hda_link) option" where
  "audiofs_widget_read_conns cad w l =
     (let w = w\<lparr>w_nconns := 0, w_conn_overflow := False\<rparr> in
      if w_wcap w AND 0x100 = 0 then Some (w, l)
      else Option.bind (audiofs_send_command (int cad) (get_parameter (w_nid w) PARAM_CONN_LIST_LENGTH) l) (\<lambda>(res, l).
        if res = HDA_INVALID then Some (w, l)
        else let ents = unat (res AND 0x7f); entnum = (if res AND 0x80 \<noteq> 0 then 2 else 4)
             in if ents < 1 then Some (w, l)
                else read_entries cad entnum (filter (\<lambda>i. entnum dvd i) [0..<ents]) 0 w l))"

section \<open>Widgets, function groups and codecs\<close>

definition valid_or :: "u32 \<Rightarrow> u32 \<Rightarrow> u32" where
  "valid_or res d = (if res = HDA_INVALID then d else res)"

definition walk_pin :: "nat \<Rightarrow> audiofs_widget \<Rightarrow> hda_link \<Rightarrow> (audiofs_widget \<times> hda_link) option" where
  "walk_pin cad w l =
     Option.bind (audiofs_send_command (int cad) (get_configuration_default (w_nid w)) l) (\<lambda>(pincfg, l).
       let w = (if pincfg = HDA_INVALID then w else w\<lparr>w_pin_cfg := pincfg\<rparr>)
       in Option.bind (audiofs_send_command (int cad) (get_parameter (w_nid w) PARAM_PIN_CAP) l) (\<lambda>(pincap, l).
            Some (if pincap = HDA_INVALID then w else w\<lparr>w_pin_cap := pincap\<rparr>, l)))"

definition put_widget :: "nat \<Rightarrow> nat \<Rightarrow> audiofs_widget \<Rightarrow> hda_link \<Rightarrow> hda_link" where
  "put_widget cad idx w l = upd_codec cad (\<lambda>c. c\<lparr>c_widgets := (c_widgets c)[idx := w]\<rparr>) l"

definition audiofs_walk_widget :: "nat \<Rightarrow> u16 \<Rightarrow> hda_link \<Rightarrow> hda_link option" where
  "audiofs_walk_widget cad nid l =
     (let c = lk_codecs l ! cad; idx = int (unat nid) - int (unat (c_widget_start c)) in
      if idx < 0 \<or> int AUDIOFS_WIDGET_MAX \<le> idx then Some l
      else Option.bind (audiofs_send_command (int cad) (get_parameter nid PARAM_AUDIO_WIDGET_CAP) l) (\<lambda>(wcap, l).
        if wcap = HDA_INVALID then Some l
        else let type = drop_bit 20 wcap AND 0xf;
                 w = (c_widgets c ! nat idx)\<lparr>w_valid := True, w_nid := nid, w_wcap := wcap, w_type := type, w_pin_cfg := 0,
                       w_pin_cap := 0, w_nconns := 0, w_conn_overflow := False\<rparr>
             in Option.bind (if type = TYPE_PIN_COMPLEX then walk_pin cad w l else Some (w, l)) (\<lambda>(w, l).
                  map_option (\<lambda>(w, l). put_widget cad (nat idx) w l) (audiofs_widget_read_conns cad w l))))"

fun walk_widgets :: "nat \<Rightarrow> u16 list \<Rightarrow> hda_link \<Rightarrow> hda_link option" where
  "walk_widgets cad [] l = Some l"
| "walk_widgets cad (nid # nids) l = Option.bind (audiofs_walk_widget cad nid l) (walk_widgets cad nids)"

definition record_group :: "nat \<Rightarrow> u16 \<Rightarrow> u32 \<Rightarrow> u16 \<Rightarrow> u16 \<Rightarrow> hda_link \<Rightarrow> hda_link option" where
  "record_group cad fg_nid subid start_nid count l =
     Option.bind (audiofs_send_command (int cad) (get_parameter fg_nid PARAM_OUTPUT_AMP_CAP)
         (upd_codec cad (\<lambda>c. c\<lparr>c_fg_nid := fg_nid, c_fg_subsystem := subid, c_widget_start := start_nid,
            c_widget_total := count\<rparr>) l)) (\<lambda>(amp, l).
       Option.bind (audiofs_send_command (int cad) (get_parameter fg_nid PARAM_SUPP_PCM_SIZE_RATE)
           (upd_codec cad (\<lambda>c. c\<lparr>c_fg_output_amp_cap := valid_or amp 0\<rparr>) l)) (\<lambda>(psr, l).
         Option.bind (audiofs_send_command (int cad) (get_parameter fg_nid PARAM_SUPP_STREAM_FORMATS)
             (upd_codec cad (\<lambda>c. c\<lparr>c_fg_supp_pcm_size_rate := valid_or psr 0\<rparr>) l)) (\<lambda>(sfm, l).
           Some (upd_codec cad (\<lambda>c. c\<lparr>c_fg_supp_stream_formats := valid_or sfm 0\<rparr>) l))))"

definition sub_nodes :: "u32 \<Rightarrow> u16 \<times> u16" where
  "sub_nodes snc = (ucast (drop_bit 16 snc AND 0xff), ucast (snc AND 0xff))"

definition node_range :: "u16 \<Rightarrow> u16 \<Rightarrow> u16 list" where
  "node_range start_nid count = map (\<lambda>w. start_nid + of_nat w) [0..<unat count]"

definition audiofs_walk_function_group :: "nat \<Rightarrow> u16 \<Rightarrow> hda_link \<Rightarrow> hda_link option" where
  "audiofs_walk_function_group cad fg_nid l =
     Option.bind (audiofs_send_command (int cad) (get_parameter fg_nid PARAM_FCT_GRP_TYPE) l) (\<lambda>(fgtype, l).
       if fgtype = HDA_INVALID then Some l
       else Option.bind (audiofs_send_command (int cad) (get_subsystem_id fg_nid) l) (\<lambda>(subid, l).
         if fgtype AND 0xff \<noteq> 1 then Some l
         else Option.bind (audiofs_send_command (int cad) (get_parameter fg_nid PARAM_SUB_NODE_COUNT) l) (\<lambda>(snc, l).
           if snc = HDA_INVALID then Some l
           else let (start_nid, count) = sub_nodes snc; count = (if 128 < count then 128 else count)
                in Option.bind (if c_fg_nid (lk_codecs l ! cad) = 0
                                then record_group cad fg_nid (valid_or subid 0) start_nid count l else Some l)
                     (walk_widgets cad (node_range start_nid count)))))"

fun walk_groups :: "nat \<Rightarrow> u16 list \<Rightarrow> hda_link \<Rightarrow> hda_link option" where
  "walk_groups cad [] l = Some l"
| "walk_groups cad (fg # fgs) l = Option.bind (audiofs_walk_function_group cad fg l) (walk_groups cad fgs)"

definition audiofs_walk_codec :: "nat \<Rightarrow> hda_link \<Rightarrow> hda_link option" where
  "audiofs_walk_codec cad l =
     Option.bind (audiofs_send_command (int cad) (get_parameter 0 PARAM_SUB_NODE_COUNT) l) (\<lambda>(snc, l).
       if snc = HDA_INVALID then Some l
       else let (start_nid, count) = sub_nodes snc in walk_groups cad (node_range start_nid count) l)"

definition enumerate_codec :: "u16 \<Rightarrow> nat \<Rightarrow> hda_link \<Rightarrow> hda_link option" where
  "enumerate_codec statests cad l =
     (if \<not> bit (statests AND 0x7fff) cad then Some l
      else Option.bind (audiofs_send_command (int cad) (get_parameter 0 PARAM_VENDOR_ID)
          (upd_codec cad (\<lambda>c. c\<lparr>c_populated := True\<rparr>) l)) (\<lambda>(vendorid, l).
        Option.bind (audiofs_send_command (int cad) (get_parameter 0 PARAM_REVISION_ID) l) (\<lambda>(revisionid, l).
          Some (if vendorid = HDA_INVALID \<and> revisionid = HDA_INVALID
                then upd_codec cad (\<lambda>c. c\<lparr>c_populated := False\<rparr>) l
                else upd_codec cad (\<lambda>c. c\<lparr>c_vendor_id := ucast (drop_bit 16 vendorid), c_device_id := ucast vendorid,
                       c_revision_id := ucast (drop_bit 8 revisionid), c_stepping_id := ucast revisionid\<rparr>) l))))"

fun each_codec :: "(nat \<Rightarrow> hda_link \<Rightarrow> hda_link option) \<Rightarrow> nat list \<Rightarrow> hda_link \<Rightarrow> hda_link option" where
  "each_codec f [] l = Some l"
| "each_codec f (cad # cads) l = Option.bind (f cad l) (each_codec f cads)"

definition audiofs_enumerate_codecs :: "u16 \<Rightarrow> hda_link \<Rightarrow> hda_link option" where
  "audiofs_enumerate_codecs statests = each_codec (enumerate_codec statests) [0..<AUDIOFS_CODEC_MAX]"

text \<open>The enumeration pass of \<^verbatim>\<open>audiofs_walk_topology\<close>.\<close>

definition walk_topology :: "hda_link \<Rightarrow> hda_link option" where
  "walk_topology = each_codec (\<lambda>cad l. if c_populated (lk_codecs l ! cad) then audiofs_walk_codec cad l else Some l)
     [0..<AUDIOFS_CODEC_MAX]"

section \<open>What a connection list means\<close>

text \<open>
  The nodes a list of entries stands for: a range entry adds the nodes after the previous
  entry up to its own, any other entry adds its node, and a zero ends the list.
\<close>

fun expand :: "nat \<Rightarrow> (nat \<times> bool) list \<Rightarrow> nat list" where
  "expand prev [] = []"
| "expand prev ((c, rb) # es) =
     (if c = 0 then []
      else (if rb \<and> prev \<noteq> 0 \<and> prev < c then [prev + 1..<c + 1] else [c]) @ expand c es)"

definition listed :: "audiofs_widget \<Rightarrow> u16 list" where
  "listed w = take (unat (w_nconns w)) (w_conns w)"

definition conns_ok :: "audiofs_widget \<Rightarrow> bool" where
  "conns_ok w \<longleftrightarrow> length (w_conns w) = 16 \<and> w_nconns w \<le> 16"

lemma conns_ok_nat: "conns_ok w \<longleftrightarrow> length (w_conns w) = 16 \<and> unat (w_nconns w) \<le> 16"
  by (simp add: conns_ok_def word_le_nat_alt)

definition same_node :: "audiofs_widget \<Rightarrow> audiofs_widget \<Rightarrow> bool" where
  "same_node w w' \<longleftrightarrow> w' = w\<lparr>w_nconns := w_nconns w', w_conns := w_conns w', w_conn_overflow := w_conn_overflow w'\<rparr>"

lemma same_node_refl [simp]: "same_node w w"
  by (simp add: same_node_def)

lemma same_node_trans: "same_node a b \<Longrightarrow> same_node b c \<Longrightarrow> same_node a c"
  by (cases a; cases b; cases c) (simp add: same_node_def)

lemma listed_add:
  assumes "conns_ok w" "unat (w_nconns w) < 16"
    and "w' = w\<lparr>w_conns := (w_conns w)[unat (w_nconns w) := x], w_nconns := w_nconns w + 1\<rparr>"
  shows "listed w' = listed w @ [x]" "conns_ok w'" "same_node w w'" "unat (w_nconns w') = unat (w_nconns w) + 1"
    "w_conn_overflow w' = w_conn_overflow w"
proof -
  have n: "unat (w_nconns w + 1) = unat (w_nconns w) + 1"
    using assms(2) unat_add_no_wrap [of "w_nconns w" 1] by simp
  show "listed w' = listed w @ [x]"
    using assms(1,2) n by (simp add: assms(3) listed_def conns_ok_nat take_Suc_conv_app_nth)
  show "conns_ok w'" using assms(1,2) n by (simp add: assms(3) conns_ok_nat)
  show "same_node w w'" by (simp add: assms(3) same_node_def)
  show "unat (w_nconns w') = unat (w_nconns w) + 1" using n by (simp add: assms(3))
  show "w_conn_overflow w' = w_conn_overflow w" by (simp add: assms(3))
qed

definition added :: "nat list \<Rightarrow> audiofs_widget \<Rightarrow> bool \<Rightarrow> audiofs_widget \<Rightarrow> bool" where
  "added xs w full w' \<longleftrightarrow> conns_ok w' \<and> same_node w w' \<and> listed w' = take 16 (listed w @ map of_nat xs) \<and>
     (full \<longleftrightarrow> 16 < unat (w_nconns w) + length xs) \<and> (w_conn_overflow w' \<longleftrightarrow> w_conn_overflow w \<or> full)"

lemma length_listed: "conns_ok w \<Longrightarrow> length (listed w) = unat (w_nconns w)"
  by (simp add: listed_def conns_ok_nat)

lemma add_conns_added:
  "conns_ok w \<Longrightarrow> unat c < 2 ^ 15 \<Longrightarrow> add_conns a c w = (full, w') \<Longrightarrow> added [unat a..<unat c + 1] w full w'"
proof (induction a c w arbitrary: full w' rule: add_conns.induct)
  case (1 a c w)
  have l: "length (listed w) = unat (w_nconns w)" by (rule length_listed [OF "1.prems"(1)])
  have n16: "unat (w_nconns w) \<le> 16" using "1.prems"(1) by (simp add: conns_ok_nat)
  consider (over) "c < a" | (full) "a \<le> c" "16 \<le> w_nconns w" | (more) "a \<le> c" "\<not> 16 \<le> w_nconns w" by force
  then show ?case
  proof cases
    case over
    then have "\<not> a \<le> c" "[unat a..<unat c + 1] = []" by (simp_all add: word_le_nat_alt word_less_nat_alt)
    then show ?thesis using "1.prems" l n16 by (subst (asm) add_conns.simps) (simp add: added_def)
  next
    case full
    have "unat (w_nconns w) = 16" using full(2) n16 by (simp add: word_le_nat_alt)
    moreover have "unat a \<le> unat c" using full(1) by (simp add: word_le_nat_alt)
    ultimately show ?thesis using "1.prems" full l
      by (subst (asm) add_conns.simps) (auto simp: added_def conns_ok_def same_node_def listed_def)
  next
    case more
    let ?w = "w\<lparr>w_conns := (w_conns w)[unat (w_nconns w) := a], w_nconns := w_nconns w + 1\<rparr>"
    have lt: "unat (w_nconns w) < 16" using more(2) by (simp add: word_le_nat_alt)
    note s = listed_add [OF "1.prems"(1) lt refl, of a]
    have ac: "unat a \<le> unat c" using more(1) by (simp add: word_le_nat_alt)
    have a1: "unat (a + 1) = unat a + 1" using ac "1.prems"(2) unat_add_no_wrap [of a 1] by simp
    have "add_conns (a + 1) c ?w = (full, w')" using "1.prems"(3) more by (subst (asm) add_conns.simps) simp
    from "1.IH" [OF _ more(2) s(2) "1.prems"(2) this] more(1)
    have "added [unat a + 1..<unat c + 1] ?w full w'" by (simp add: a1)
    moreover have "[unat a..<unat c + 1] = unat a # [unat a + 1..<unat c + 1]" using ac by (simp add: upt_rec)
    ultimately show ?thesis using s same_node_trans [OF s(3)]
      by (auto simp: added_def)
  qed
qed

definition nat_entries :: "(u16 \<times> bool) list \<Rightarrow> (nat \<times> bool) list" where
  "nat_entries es = map (\<lambda>(c, rb). (unat c, rb)) es"

lemma added_trans:
  assumes "added xs w False v" "added ys v full w'" "conns_ok w"
  shows "added (xs @ ys) w full w'"
proof -
  have v: "conns_ok v" "listed v = take 16 (listed w @ map of_nat xs)" "\<not> 16 < unat (w_nconns w) + length xs"
    using assms(1) by (auto simp: added_def)
  have l: "length (listed w) = unat (w_nconns w)" "length (listed v) = unat (w_nconns v)"
    using assms(3) v(1) length_listed by simp_all
  have e: "listed v = listed w @ map of_nat xs" using v(2,3) l(1) by simp
  then have n: "unat (w_nconns v) = unat (w_nconns w) + length xs" using l by simp
  have "same_node w w'" using assms(1,2) same_node_trans [of w v w'] by (simp add: added_def)
  moreover have "listed w' = take 16 (listed w @ map of_nat (xs @ ys))"
    using assms(2) unfolding added_def e by (simp del: take_append)
  ultimately show ?thesis using assms(1,2) unfolding added_def n by (simp add: add.assoc del: take_append)
qed

text \<open>What is appended when the list fills up does not depend on what would follow.\<close>

lemma added_full: "conns_ok w \<Longrightarrow> added xs w True w' \<Longrightarrow> added (xs @ ys) w True w'"
  by (auto simp: added_def length_listed)

lemma take_entries_added:
  assumes "conns_ok w" "\<forall>e\<in>set es. unat (fst e) < 2 ^ 15" "take_entries es prev w = (stop, prev', w')"
  shows "\<exists>full. added (expand (unat prev) (nat_entries es)) w full w' \<and>
    (stop \<longleftrightarrow> full \<or> 0 \<in> fst ` set (nat_entries es))"
  using assms
proof (induction es arbitrary: prev w)
  case Nil
  then show ?case by (auto simp: added_def nat_entries_def length_listed conns_ok_nat)
next
  case (Cons e es)
  obtain c rb where e: "e = (c, rb)" by (cases e)
  show ?case
  proof (cases "c = 0")
    case True
    then show ?thesis using Cons.prems e by (auto simp: added_def nat_entries_def length_listed conns_ok_nat)
  next
    case False
    let ?a = "if \<not> rb then c else if prev = 0 \<or> c \<le> prev then c else prev + 1"
    let ?xs = "if rb \<and> unat prev \<noteq> 0 \<and> unat prev < unat c then [unat prev + 1..<unat c + 1] else [unat c]"
    obtain full v where ac: "add_conns ?a c w = (full, v)" by (metis surj_pair)
    have c15: "unat c < 2 ^ 15" using Cons.prems(2) e by simp
    have "[unat ?a..<unat c + 1] = ?xs"
      using c15 unat_add_no_wrap [of prev 1]
      by (auto simp: word_le_nat_alt unat_eq_zero not_le upt_rec [of "unat c"])
    then have ad: "added ?xs w full v" using add_conns_added [OF Cons.prems(1) c15 ac] by simp
    have ex: "expand (unat prev) (nat_entries (e # es)) = ?xs @ expand (unat c) (nat_entries es)"
      using False e by (simp add: nat_entries_def unat_eq_zero)
    have z: "0 \<in> fst ` set (nat_entries (e # es)) \<longleftrightarrow> 0 \<in> fst ` set (nat_entries es)"
      using False e by (auto simp: nat_entries_def unat_eq_zero)
    show ?thesis
    proof (cases full)
      case True
      then have "stop" "w' = v" using Cons.prems(3) False e ac by (auto simp: Let_def)
      moreover have "added (?xs @ expand (unat c) (nat_entries es)) w True v"
        by (rule added_full [OF Cons.prems(1)]) (use ad True in simp)
      ultimately show ?thesis unfolding ex by (intro exI [of _ True]) simp
    next
      case False': False
      then have t: "take_entries es c v = (stop, prev', w')" using Cons.prems(3) False e ac by (auto simp: Let_def)
      have v: "conns_ok v" using ad by (simp add: added_def)
      obtain f where f: "added (expand (unat c) (nat_entries es)) v f w'"
          "stop \<longleftrightarrow> f \<or> 0 \<in> fst ` set (nat_entries es)"
        using Cons.IH [OF v _ t] Cons.prems(2) by auto
      have "added (?xs @ expand (unat c) (nat_entries es)) w f w'"
        by (rule added_trans [OF _ f(1) Cons.prems(1)]) (use ad False' in simp)
      then show ?thesis unfolding ex z using f(2) by (intro exI [of _ f]) simp
    qed
  qed
qed

lemma take_entries_append:
  "take_entries (es @ fs) prev w = (let (stop, prev', w') = take_entries es prev w
     in if stop then (stop, prev', w') else take_entries fs prev' w')"
  by (induction es prev w rule: take_entries.induct) (auto simp: Let_def split: prod.splits)

lemma conn_entries_small:
  assumes "entnum = 2 \<or> entnum = 4" "e \<in> set (conn_entries entnum res)"
  shows "unat (fst e) < 2 ^ 15"
proof -
  have "unat (ucast (x AND 0x7fff :: u32) :: u16) < 2 ^ 15" "unat (ucast (x AND 0x7f :: u32) :: u16) < 2 ^ 15" for x
    using unat_and_mask [of x 15] unat_and_mask [of x 7] by (simp_all add: unat_ucast_mod mask_eq_exp_minus_1)
  then show ?thesis using assms by (auto simp: conn_entries_def Let_def)
qed

text \<open>The fields of a response as numbers: two of 16 bits or four of 8 bits, the top bit of each marking a range.\<close>

definition entry_fields :: "nat \<Rightarrow> u32 \<Rightarrow> (nat \<times> bool) list" where
  "entry_fields entnum res =
     (let width = 32 div entnum
      in map (\<lambda>j. (unat res div 2 ^ (width * j) mod 2 ^ (width - 1), odd (unat res div 2 ^ (width * j + (width - 1))))) [0..<entnum])"

lemma and_mask_field:
  assumes "m \<le> 15"
  shows "unat (ucast (drop_bit s (res :: u32) AND (push_bit m 1 - 1)) :: u16) = unat res div 2 ^ s mod 2 ^ m"
proof -
  have e: "drop_bit s res AND (push_bit m 1 - 1) = take_bit m (drop_bit s res)"
    by (simp add: take_bit_eq_mask mask_eq_exp_minus_1 push_bit_eq_mult)
  have "unat res div 2 ^ s mod 2 ^ m < 2 ^ m" by simp
  also have "(2 :: nat) ^ m \<le> 2 ^ 15" using assms by (rule power_increasing) simp
  finally have "unat res div 2 ^ s mod 2 ^ m < 2 ^ 16" by simp
  moreover have "unat (take_bit m (drop_bit s res)) = unat res div 2 ^ s mod 2 ^ m"
    unfolding unsigned_take_bit_eq unsigned_drop_bit_eq take_bit_nat_eq_self [OF unsigned_less [of res]]
    by (simp add: take_bit_eq_mod drop_bit_eq_div)
  ultimately show ?thesis unfolding e unat_ucast_mod by simp
qed

lemma bit_field: "drop_bit s (res :: u32) AND 1 \<noteq> 0 \<longleftrightarrow> odd (unat res div 2 ^ s)"
proof -
  have "drop_bit s res AND 1 \<noteq> 0 \<longleftrightarrow> odd (drop_bit s res)" by (auto simp: and_one_eq odd_iff_mod_2_eq_one)
  also have "\<dots> \<longleftrightarrow> bit (unat res) s" by (auto simp: even_drop_bit_iff_not_bit bit_unsigned_iff dest: bit_imp_le_length)
  finally show ?thesis by (simp add: bit_iff_odd)
qed

lemma nat_conn_entries:
  assumes "entnum = 2 \<or> entnum = 4"
  shows "nat_entries (conn_entries entnum res) = entry_fields entnum res"
  using assms and_mask_field [of 15 _ res] and_mask_field [of 7 _ res]
  by (auto simp: nat_entries_def conn_entries_def entry_fields_def Let_def bit_field add.commute)

lemma nat_entries_concat:
  "entnum = 2 \<or> entnum = 4 \<Longrightarrow>
   nat_entries (concat (map (conn_entries entnum) rs)) = concat (map (entry_fields entnum) rs)"
  by (induction rs) (auto simp: nat_entries_def simp flip: nat_conn_entries)

section \<open>The walk returns and fills the arrays within bounds\<close>

text \<open>A consistent link, hardware whose pointers stay in the ring, and arrays of the declared sizes.\<close>

definition ready :: "hda_link \<Rightarrow> bool" where
  "ready l \<longleftrightarrow> link_ok l \<and> pointers_ok l \<and> list_all codec_ok (lk_codecs l)"

text \<open>The verbs that only read have bit 19 set. During the walk every verb sent so far is such a verb.\<close>

definition is_get :: "u32 \<Rightarrow> bool" where
  "is_get verb = bit verb 19"

definition walk_ok :: "hda_link \<Rightarrow> bool" where
  "walk_ok l \<longleftrightarrow> ready l \<and> list_all is_get (lk_sent l)"

lemma bit_cad_verb: "n < 20 \<Longrightarrow> bit (cad_verb cad verb) n = bit verb n"
proof -
  assume n: "n < 20"
  have "(0xf0000000 :: u32) = push_bit 28 0xf" by simp
  then have "\<not> bit (0xf0000000 :: u32) n" using n by (simp only: bit_push_bit_iff) simp
  then show ?thesis using n by (auto simp: cad_verb_def bit_simps)
qed

lemma is_get_verbs [simp]:
  "is_get (cad_verb cad (get_parameter nid p))" "is_get (cad_verb cad (get_conn_list_entry nid i))"
  "is_get (cad_verb cad (get_configuration_default nid))" "is_get (cad_verb cad (get_subsystem_id nid))"
  by (simp_all add: is_get_def bit_cad_verb get_parameter_def get_conn_list_entry_def get_configuration_default_def
      get_subsystem_id_def bit_or_iff bit_numeral_rec)

lemma same_walk_codec_ok: "same_walk c c' \<Longrightarrow> codec_ok c' = codec_ok c"
  by (cases c; cases c') (simp add: same_walk_def codec_ok_def)

lemma ready_send:
  assumes "ready l" "k < 16"
  shows "\<exists>r l'. audiofs_send_command (int k) verb l = Some (r, l') \<and> ready l' \<and>
    list_all2 same_walk (lk_codecs l) (lk_codecs l') \<and> lk_sent l' = lk_sent l @ [cad_verb k verb]"
proof -
  from send_total [OF _ _ assms(2), of l verb] assms(1) obtain r l' where
    s: "audiofs_send_command (int k) verb l = Some (r, l')" "link_ok l'" "link_step l l'"
      "lk_sent l' = lk_sent l @ [cad_verb k verb]" by (auto simp: ready_def)
  have "list_all codec_ok (lk_codecs l')"
    using s(3) assms(1) same_walk_codec_ok
    by (auto simp: link_step_def ready_def list_all_length list_all2_conv_all_nth)
  then show ?thesis using s pointers_step [OF _ s(3)] assms(1) by (auto simp: ready_def link_step_def)
qed

lemma walk_ok_send:
  assumes "walk_ok l" "k < 16" "is_get (cad_verb k verb)"
  shows "\<exists>r l'. audiofs_send_command (int k) verb l = Some (r, l') \<and> walk_ok l'"
  using ready_send [OF _ assms(2), of l verb] assms by (auto simp: walk_ok_def)

lemma walk_ok_upd:
  assumes "walk_ok l" "\<And>c. codec_ok c \<Longrightarrow> codec_ok (f c)" "\<And>c. c_pending (f c) = c_pending c" "k < 16"
  shows "walk_ok (upd_codec k f l)"
proof -
  have l: "length (lk_codecs l) = 16" "\<forall>c\<in>set (lk_codecs l). codec_ok c \<and> c_pending c = 0"
    using assms(1) by (auto simp: walk_ok_def ready_def link_ok_def list_all_iff)
  then have "\<forall>c\<in>set ((lk_codecs l)[k := f (lk_codecs l ! k)]). codec_ok c \<and> c_pending c = 0"
    using assms(2-4) by (auto dest!: subsetD [OF set_update_subset_insert])
  then show ?thesis using assms(1)
    by (simp add: walk_ok_def ready_def link_ok_def rirb_ok_def pointers_ok_def list_all_iff)
qed

lemma walk_ok_read_entries:
  "walk_ok l \<Longrightarrow> k < 16 \<Longrightarrow> conns_ok w \<Longrightarrow> entnum = 2 \<or> entnum = 4 \<Longrightarrow>
   \<exists>w' l'. read_entries k entnum is prev w l = Some (w', l') \<and> walk_ok l' \<and> conns_ok w'"
proof (induction "is" arbitrary: prev w l)
  case (Cons i "is")
  obtain r l1 where s: "audiofs_send_command (int k) (get_conn_list_entry (w_nid w) i) l = Some (r, l1)" "walk_ok l1"
    using walk_ok_send [OF Cons.prems(1,2) is_get_verbs(2)] by blast
  obtain stop p v where t: "take_entries (conn_entries entnum r) prev w = (stop, p, v)" by (metis surj_pair)
  have small: "\<forall>e\<in>set (conn_entries entnum r). unat (fst e) < 2 ^ 15"
    using conn_entries_small [OF Cons.prems(4)] by blast
  have "conns_ok v" using take_entries_added [OF Cons.prems(3) small t] by (auto simp: added_def)
  from Cons.IH [OF s(2) Cons.prems(2) this Cons.prems(4), of p] s t this Cons.prems(3) show ?case by auto
qed simp

lemma walk_ok_read_conns:
  assumes "walk_ok l" "k < 16" "length (w_conns w) = 16"
  shows "\<exists>w' l'. audiofs_widget_read_conns k w l = Some (w', l') \<and> walk_ok l' \<and> conns_ok w'"
proof -
  let ?w = "w\<lparr>w_nconns := 0, w_conn_overflow := False\<rparr>"
  have c: "conns_ok ?w" using assms(3) by (simp add: conns_ok_def)
  obtain r l1 where "audiofs_send_command (int k) (get_parameter (w_nid w) 0x0e) l = Some (r, l1)" "walk_ok l1"
    using walk_ok_send [OF assms(1,2) is_get_verbs(1)] by blast
  then show ?thesis
    using walk_ok_read_entries [OF _ assms(2) c] assms(1) c
    by (cases "w_wcap w AND 0x100 = 0") (auto simp: audiofs_widget_read_conns_def Let_def)
qed

lemma walk_ok_pin:
  assumes "walk_ok l" "k < 16"
  shows "\<exists>w' l'. walk_pin k w l = Some (w', l') \<and> walk_ok l' \<and> w_conns w' = w_conns w"
proof -
  obtain r l1 where s: "audiofs_send_command (int k) (get_configuration_default (w_nid w)) l = Some (r, l1)" "walk_ok l1"
    using walk_ok_send [OF assms is_get_verbs(3)] by blast
  obtain r' l2 where "audiofs_send_command (int k) (get_parameter (w_nid w) 0x0c) l1 = Some (r', l2)" "walk_ok l2"
    using walk_ok_send [OF s(2) assms(2) is_get_verbs(1)] by blast
  with s show ?thesis by (auto simp: walk_pin_def Let_def)
qed

lemma walk_ok_widget:
  assumes "walk_ok l" "k < 16"
  shows "\<exists>l'. audiofs_walk_widget k nid l = Some l' \<and> walk_ok l'"
proof -
  let ?c = "lk_codecs l ! k"
  define idx where "idx = int (unat nid) - int (unat (c_widget_start ?c))"
  have int_128: "int 128 = 128" by simp
  show ?thesis
  proof (cases "idx < 0 \<or> 128 \<le> idx")
    case True
    then show ?thesis using assms(1) by (simp add: audiofs_walk_widget_def idx_def)
  next
    case False
    have ck: "codec_ok ?c" using assms by (simp add: walk_ok_def ready_def link_ok_def list_all_iff)
    have "nat idx < 128" using False by linarith
    then have "c_widgets ?c ! nat idx \<in> set (c_widgets ?c)" using ck unfolding codec_ok_def by (intro nth_mem) linarith
    then have w0: "length (w_conns (c_widgets ?c ! nat idx)) = 16" using ck unfolding codec_ok_def by blast
    obtain r l1 where s: "audiofs_send_command (int k) (get_parameter nid 0x09) l = Some (r, l1)" "walk_ok l1"
      using walk_ok_send [OF assms is_get_verbs(1)] by blast
    define w where "w = (c_widgets ?c ! nat idx)\<lparr>w_valid := True, w_nid := nid, w_wcap := r,
      w_type := drop_bit 20 r AND 0xf, w_pin_cfg := 0, w_pin_cap := 0, w_nconns := 0, w_conn_overflow := False\<rparr>"
    have w16: "length (w_conns w) = 16" using w0 by (simp add: w_def)
    obtain w1 l2 where p: "(if drop_bit 20 r AND 0xf = 4 then walk_pin k w l1 else Some (w, l1)) = Some (w1, l2)"
        "walk_ok l2" "length (w_conns w1) = 16"
      using walk_ok_pin [OF s(2) assms(2), of w] s(2) w16 by (cases "drop_bit 20 r AND 0xf = 4") auto
    obtain w2 l3 where c: "audiofs_widget_read_conns k w1 l2 = Some (w2, l3)" "walk_ok l3" "conns_ok w2"
      using walk_ok_read_conns [OF p(2) assms(2) p(3)] by blast
    have "walk_ok (put_widget k (nat idx) w2 l3)"
      unfolding put_widget_def
      by (rule walk_ok_upd [OF c(2) _ _ assms(2)])
        (use c(3) in \<open>auto simp: codec_ok_def conns_ok_def dest!: subsetD [OF set_update_subset_insert]\<close>)
    then show ?thesis
      using False s(1,2) p(1) c(1)
      by (cases "r = HDA_INVALID")
        (simp_all only: audiofs_walk_widget_def Let_def idx_def [symmetric] w_def [symmetric] int_128 if_False if_True
          bind.simps prod.case option.map option.inject ex_simps simp_thms)
  qed
qed

lemma walk_ok_widgets: "walk_ok l \<Longrightarrow> k < 16 \<Longrightarrow> \<exists>l'. walk_widgets k nids l = Some l' \<and> walk_ok l'"
proof (induction nids arbitrary: l)
  case (Cons nid nids)
  obtain l1 where "audiofs_walk_widget k nid l = Some l1" "walk_ok l1"
    using walk_ok_widget [OF Cons.prems] by blast
  with Cons.IH [OF _ Cons.prems(2)] show ?case by auto
qed simp

lemma walk_ok_record_group:
  assumes "walk_ok l" "k < 16" "count \<le> 128"
  shows "\<exists>l'. record_group k fg subid start count l = Some l' \<and> walk_ok l'"
proof -
  let ?f = "\<lambda>c. c\<lparr>c_fg_nid := fg, c_fg_subsystem := subid, c_widget_start := start, c_widget_total := count\<rparr>"
  have "walk_ok (upd_codec k ?f l)"
    by (rule walk_ok_upd [OF assms(1) _ _ assms(2)]) (use assms(3) in \<open>auto simp: codec_ok_def word_le_nat_alt\<close>)
  from walk_ok_send [OF this assms(2) is_get_verbs(1)] obtain r1 l1 where
    1: "audiofs_send_command (int k) (get_parameter fg 0x12) (upd_codec k ?f l) = Some (r1, l1)" "walk_ok l1" by blast
  have g: "walk_ok (upd_codec k (\<lambda>c. c\<lparr>c_fg_output_amp_cap := a\<rparr>) l')"
    "walk_ok (upd_codec k (\<lambda>c. c\<lparr>c_fg_supp_pcm_size_rate := a\<rparr>) l')"
    "walk_ok (upd_codec k (\<lambda>c. c\<lparr>c_fg_supp_stream_formats := a\<rparr>) l')" if "walk_ok l'" for a l'
    by (rule walk_ok_upd [OF that _ _ assms(2)]; simp add: codec_ok_def)+
  from walk_ok_send [OF g(1) [OF 1(2)] assms(2) is_get_verbs(1)] obtain r2 l2 where
    2: "audiofs_send_command (int k) (get_parameter fg 0x0a)
      (upd_codec k (\<lambda>c. c\<lparr>c_fg_output_amp_cap := valid_or r1 0\<rparr>) l1) = Some (r2, l2)" "walk_ok l2" by blast
  from walk_ok_send [OF g(2) [OF 2(2)] assms(2) is_get_verbs(1)] obtain r3 l3 where
    3: "audiofs_send_command (int k) (get_parameter fg 0x0b)
      (upd_codec k (\<lambda>c. c\<lparr>c_fg_supp_pcm_size_rate := valid_or r2 0\<rparr>) l2) = Some (r3, l3)" "walk_ok l3" by blast
  show ?thesis using 1(1) 2(1) 3 g(3) by (simp add: record_group_def)
qed

lemma walk_ok_group:
  assumes "walk_ok l" "k < 16"
  shows "\<exists>l'. audiofs_walk_function_group k fg l = Some l' \<and> walk_ok l'"
proof -
  obtain r1 l1 where 1: "audiofs_send_command (int k) (get_parameter fg 0x05) l = Some (r1, l1)" "walk_ok l1"
    using walk_ok_send [OF assms is_get_verbs(1)] by blast
  obtain r2 l2 where 2: "audiofs_send_command (int k) (get_subsystem_id fg) l1 = Some (r2, l2)" "walk_ok l2"
    using walk_ok_send [OF 1(2) assms(2) is_get_verbs(4)] by blast
  obtain r3 l3 where 3: "audiofs_send_command (int k) (get_parameter fg 0x04) l2 = Some (r3, l3)" "walk_ok l3"
    using walk_ok_send [OF 2(2) assms(2) is_get_verbs(1)] by blast
  obtain start count where n: "sub_nodes r3 = (start, count)" by (metis surj_pair)
  let ?n = "if 128 < count then 128 else count"
  have n128: "?n \<le> 128" by (auto simp: not_less)
  obtain l4 where 4: "(if c_fg_nid (lk_codecs l3 ! k) = 0 then record_group k fg (valid_or r2 0) start ?n l3
      else Some l3) = Some l4" "walk_ok l4"
    using walk_ok_record_group [OF 3(2) assms(2) n128, of fg "valid_or r2 0" start] 3(2)
    by (cases "c_fg_nid (lk_codecs l3 ! k) = 0") auto
  obtain l5 where "walk_widgets k (node_range start ?n) l4 = Some l5" "walk_ok l5"
    using walk_ok_widgets [OF 4(2) assms(2)] by blast
  then show ?thesis using 1 2 3 4(1) n by (simp add: audiofs_walk_function_group_def Let_def)
qed

lemma walk_ok_groups: "walk_ok l \<Longrightarrow> k < 16 \<Longrightarrow> \<exists>l'. walk_groups k fgs l = Some l' \<and> walk_ok l'"
proof (induction fgs arbitrary: l)
  case (Cons fg fgs)
  obtain l1 where "audiofs_walk_function_group k fg l = Some l1" "walk_ok l1"
    using walk_ok_group [OF Cons.prems] by blast
  with Cons.IH [OF _ Cons.prems(2)] show ?case by auto
qed simp

lemma walk_ok_codec:
  assumes "walk_ok l" "k < 16"
  shows "\<exists>l'. audiofs_walk_codec k l = Some l' \<and> walk_ok l'"
proof -
  obtain r l1 where s: "audiofs_send_command (int k) (get_parameter 0 0x04) l = Some (r, l1)" "walk_ok l1"
    using walk_ok_send [OF assms is_get_verbs(1)] by blast
  then show ?thesis using walk_ok_groups [OF s(2) assms(2)]
    by (cases "sub_nodes r") (simp add: audiofs_walk_codec_def)
qed

lemma walk_ok_enumerate:
  assumes "walk_ok l" "k < 16"
  shows "\<exists>l'. enumerate_codec st k l = Some l' \<and> walk_ok l'"
proof -
  have g: "walk_ok (upd_codec k (\<lambda>c. c\<lparr>c_populated := p\<rparr>) l')"
    "walk_ok (upd_codec k (\<lambda>c. c\<lparr>c_vendor_id := a, c_device_id := b, c_revision_id := d, c_stepping_id := e\<rparr>) l')"
    if "walk_ok l'" for p a b d e l'
    by (rule walk_ok_upd [OF that _ _ assms(2)]; simp add: codec_ok_def)+
  obtain r1 l1 where 1: "audiofs_send_command (int k) (get_parameter 0 0x00) (upd_codec k (\<lambda>c. c\<lparr>c_populated := True\<rparr>) l)
      = Some (r1, l1)" "walk_ok l1"
    using walk_ok_send [OF g(1) [OF assms(1)] assms(2) is_get_verbs(1)] by blast
  obtain r2 l2 where "audiofs_send_command (int k) (get_parameter 0 0x02) l1 = Some (r2, l2)" "walk_ok l2"
    using walk_ok_send [OF 1(2) assms(2) is_get_verbs(1)] by blast
  then show ?thesis using 1(1) g assms(1) by (simp add: enumerate_codec_def)
qed

lemma walk_ok_each:
  assumes "\<And>k l. walk_ok l \<Longrightarrow> k < 16 \<Longrightarrow> \<exists>l'. f k l = Some l' \<and> walk_ok l'"
  shows "walk_ok l \<Longrightarrow> \<forall>k\<in>set ks. k < 16 \<Longrightarrow> \<exists>l'. each_codec f ks l = Some l' \<and> walk_ok l'"
proof (induction ks arbitrary: l)
  case (Cons k ks)
  obtain l1 where "f k l = Some l1" "walk_ok l1" using assms [of l k] Cons.prems by auto
  with Cons.IH Cons.prems(2) show ?case by auto
qed simp

lemma walk_ok_topology:
  assumes "walk_ok l"
  shows "\<exists>l1 l2. audiofs_enumerate_codecs st l = Some l1 \<and> walk_topology l1 = Some l2 \<and> walk_ok l2"
proof -
  obtain l1 where 1: "audiofs_enumerate_codecs st l = Some l1" "walk_ok l1"
    using walk_ok_each [of "enumerate_codec st", OF walk_ok_enumerate assms, of "[0..<16]"]
    by (auto simp: audiofs_enumerate_codecs_def)
  let ?f = "\<lambda>k l. if c_populated (lk_codecs l ! k) then audiofs_walk_codec k l else Some l"
  have "\<exists>l'. ?f k l = Some l' \<and> walk_ok l'" if "walk_ok l" "k < 16" for k l
    using walk_ok_codec [OF that] that(1) by simp
  from walk_ok_each [of ?f, OF this 1(2), of "[0..<16]"] 1 show ?thesis by (auto simp: walk_topology_def)
qed

end
