(* ===== verification/Audiofs_Prepare.thy ===== *)
theory Audiofs_Prepare
  imports Audiofs_Topology
begin

text \<open>
  The preparation of the codecs after their walk (\<^verbatim>\<open>audiofs_walk_topology\<close> and the passes it
  runs, in \<^verbatim>\<open>src/audiofs/sys/dev/audiofs/audiofs.c\<close>): GPIO inspection, power-up, GPIO policy, pin
  enable, amplifier unmute and converter format. Each pass sends verbs on the link and reads some of
  them back; what it only writes to the diagnostic log is left out.
  No pass changes the widget arrays, so the nodes a pass visits are taken from the arrays at its start.
\<close>

section \<open>Verbs and capability bits\<close>

definition verb12 :: "u16 \<Rightarrow> u32 \<Rightarrow> u32 \<Rightarrow> u32" where
  "verb12 nid verb payload = push_bit 20 (ucast nid) OR push_bit 8 verb OR payload"

definition verb4 :: "u16 \<Rightarrow> u32 \<Rightarrow> u16 \<Rightarrow> u32" where
  "verb4 nid verb payload = push_bit 20 (ucast nid) OR push_bit 16 verb OR ucast payload"

abbreviation (input) SET_POWER_STATE :: u32 where "SET_POWER_STATE \<equiv> 0x705"
abbreviation (input) GET_POWER_STATE :: u32 where "GET_POWER_STATE \<equiv> 0xf05"
abbreviation (input) SET_PIN_WIDGET_CTRL :: u32 where "SET_PIN_WIDGET_CTRL \<equiv> 0x707"
abbreviation (input) GET_PIN_WIDGET_CTRL :: u32 where "GET_PIN_WIDGET_CTRL \<equiv> 0xf07"
abbreviation (input) SET_GPIO_DATA :: u32 where "SET_GPIO_DATA \<equiv> 0x715"
abbreviation (input) GET_GPIO_DATA :: u32 where "GET_GPIO_DATA \<equiv> 0xf15"
abbreviation (input) SET_GPIO_ENABLE_MASK :: u32 where "SET_GPIO_ENABLE_MASK \<equiv> 0x716"
abbreviation (input) SET_GPIO_DIRECTION :: u32 where "SET_GPIO_DIRECTION \<equiv> 0x717"
abbreviation (input) SET_AMP_GAIN_MUTE :: u32 where "SET_AMP_GAIN_MUTE \<equiv> 0x3"
abbreviation (input) GET_AMP_GAIN_MUTE :: u32 where "GET_AMP_GAIN_MUTE \<equiv> 0xb"
abbreviation (input) SET_CONV_FMT :: u32 where "SET_CONV_FMT \<equiv> 0x2"
abbreviation (input) GET_CONV_FMT :: u32 where "GET_CONV_FMT \<equiv> 0xa"
abbreviation (input) PARAM_GPIO_COUNT :: u32 where "PARAM_GPIO_COUNT \<equiv> 0x11"
abbreviation (input) CAP_POWER_CTRL :: u32 where "CAP_POWER_CTRL \<equiv> 0x400"
abbreviation (input) CAP_FORMAT_OVR :: u32 where "CAP_FORMAT_OVR \<equiv> 0x10"
abbreviation (input) CAP_AMP_OVR :: u32 where "CAP_AMP_OVR \<equiv> 0x8"
abbreviation (input) CAP_OUT_AMP :: u32 where "CAP_OUT_AMP \<equiv> 0x4"

definition tell :: "nat \<Rightarrow> u32 \<Rightarrow> hda_link \<Rightarrow> hda_link option" where
  "tell cad verb l = map_option snd (audiofs_send_command (int cad) verb l)"

section \<open>Output pins and their paths\<close>

definition output_pins :: "audiofs_codec \<Rightarrow> audiofs_widget list" where
  "output_pins c =
     filter (\<lambda>w. w_valid w \<and> w_type w = TYPE_PIN_COMPLEX \<and> defaultconf_connectivity (w_pin_cfg w) \<noteq> 1 \<and>
               \<not> 5 < defaultconf_device (w_pin_cfg w))
       (take (unat (c_widget_total c)) (c_widgets c))"

definition node_widget :: "audiofs_codec \<Rightarrow> u16 \<Rightarrow> audiofs_widget option" where
  "node_widget c nid =
     (let wi = int (unat nid) - int (unat (c_widget_start c))
      in if wi < 0 \<or> int (unat (c_widget_total c)) \<le> wi then None else Some (c_widgets c ! nat wi))"

definition path_widgets :: "audiofs_codec \<Rightarrow> audiofs_widget \<Rightarrow> audiofs_widget list" where
  "path_widgets c w =
     (let (dac, path) = audiofs_path_from_pin c (w_nid w)
      in if dac = 0 then [] else List.map_filter (node_widget c) path)"

definition dac_widgets :: "audiofs_codec \<Rightarrow> audiofs_widget \<Rightarrow> audiofs_widget list" where
  "dac_widgets c w =
     (let (dac, path) = audiofs_path_from_pin c (w_nid w)
      in if dac = 0 then [] else List.map_filter (node_widget c) [dac])"

fun each_widget :: "(audiofs_widget \<Rightarrow> hda_link \<Rightarrow> hda_link option) \<Rightarrow> audiofs_widget list \<Rightarrow> hda_link \<Rightarrow> hda_link option" where
  "each_widget f [] l = Some l"
| "each_widget f (w # ws) l = Option.bind (f w l) (each_widget f ws)"

section \<open>Power\<close>

fun power_poll :: "nat \<Rightarrow> nat \<Rightarrow> u16 \<Rightarrow> hda_link \<Rightarrow> hda_link option" where
  "power_poll 0 cad nid l = Some l"
| "power_poll (Suc count) cad nid l =
     Option.bind (audiofs_send_command (int cad) (verb12 nid GET_POWER_STATE 0) l) (\<lambda>(got, l).
       if got = HDA_INVALID then Some l
       else if drop_bit 4 got AND 0xf = 0 \<and> got AND 0xf = 0 then Some l
       else power_poll count cad nid l)"

definition audiofs_power_up_widget :: "nat \<Rightarrow> u16 \<Rightarrow> u32 \<Rightarrow> hda_link \<Rightarrow> hda_link option" where
  "audiofs_power_up_widget cad nid wcap l =
     (if wcap AND CAP_POWER_CTRL = 0 then Some l
      else Option.bind (tell cad (verb12 nid SET_POWER_STATE 0) l) (power_poll 1000 cad nid))"

definition audiofs_power_up_codec_paths :: "nat \<Rightarrow> hda_link \<Rightarrow> hda_link option" where
  "audiofs_power_up_codec_paths cad l =
     (let c = lk_codecs l ! cad in
      if c_fg_nid c = 0 then Some l
      else Option.bind (audiofs_power_up_widget cad (c_fg_nid c) CAP_POWER_CTRL l)
             (each_widget (\<lambda>w. audiofs_power_up_widget cad (w_nid w) (w_wcap w))
               (concat (map (path_widgets c) (output_pins c)))))"

section \<open>GPIO\<close>

record hda_gpio =
  gpio_cad :: int
  gpio_fg_nid :: u16
  gpio_num_lines :: nat
  gpio_data :: byte

definition no_gpio :: hda_gpio where
  "no_gpio = \<lparr>gpio_cad = - 1, gpio_fg_nid = 0, gpio_num_lines = 0, gpio_data = 0\<rparr>"

definition audiofs_platform_policies :: "(u16 \<times> u16 \<times> byte) list" where
  "audiofs_platform_policies = [(0x106b, 0x8200, 0x08)]"

definition audiofs_platform_policy_lookup :: "u16 \<Rightarrow> u16 \<Rightarrow> byte option" where
  "audiofs_platform_policy_lookup subvendor subdevice =
     map_option (\<lambda>(v, d, x). x) (find (\<lambda>(v, d, x). v = subvendor \<and> d = subdevice) audiofs_platform_policies)"

definition audiofs_inspect_platform_caps :: "nat \<Rightarrow> hda_gpio \<times> hda_link \<Rightarrow> (hda_gpio \<times> hda_link) option" where
  "audiofs_inspect_platform_caps cad s =
     (let (gp, l) = s; c = lk_codecs l ! cad in
      if c_fg_nid c = 0 then Some (gp, l)
      else map_option (\<lambda>(gpio_cap, l).
             if gpio_cap = HDA_INVALID then (gp, l)
             else let num_gpio = unat (gpio_cap AND 0xff)
                  in if 0 < num_gpio \<and> gpio_cad gp < 0
                     then (\<lparr>gpio_cad = int cad, gpio_fg_nid = c_fg_nid c, gpio_num_lines = num_gpio, gpio_data = 0\<rparr>, l)
                     else (gp, l))
             (audiofs_send_command (int cad) (get_parameter (c_fg_nid c) PARAM_GPIO_COUNT) l))"

fun inspect_codecs :: "nat list \<Rightarrow> hda_gpio \<times> hda_link \<Rightarrow> (hda_gpio \<times> hda_link) option" where
  "inspect_codecs [] s = Some s"
| "inspect_codecs (cad # cads) s =
     Option.bind (if c_populated (lk_codecs (snd s) ! cad) then audiofs_inspect_platform_caps cad s else Some s)
       (inspect_codecs cads)"

definition gpio_mask :: "nat \<Rightarrow> byte" where
  "gpio_mask lines = (if 8 \<le> lines then 0xff else push_bit lines 1 - 1)"

definition policy_data :: "audiofs_codec \<Rightarrow> byte" where
  "policy_data c =
     (case audiofs_platform_policy_lookup (ucast (drop_bit 16 (c_fg_subsystem c))) (ucast (c_fg_subsystem c)) of
        None \<Rightarrow> 0 | Some x \<Rightarrow> x)"

definition audiofs_apply_gpio_policy :: "hda_gpio \<times> hda_link \<Rightarrow> (hda_gpio \<times> hda_link) option" where
  "audiofs_apply_gpio_policy s =
     (let (gp, l) = s in
      if gpio_cad gp < 0 then Some (gp, l)
      else let cad = nat (gpio_cad gp); nid = gpio_fg_nid gp; mask = ucast (gpio_mask (gpio_num_lines gp));
               p = policy_data (lk_codecs l ! cad)
           in Option.bind (tell cad (verb12 nid SET_GPIO_ENABLE_MASK mask) l) (\<lambda>l.
              Option.bind (tell cad (verb12 nid SET_GPIO_DIRECTION mask) l) (\<lambda>l.
              Option.bind (tell cad (verb12 nid SET_GPIO_DATA 0) l) (\<lambda>l.
              Option.bind (if p \<noteq> 0 then tell cad (verb12 nid SET_GPIO_DATA (ucast p)) l else Some l) (\<lambda>l.
              map_option (\<lambda>l. (gp\<lparr>gpio_data := p\<rparr>, l)) (tell cad (verb12 nid GET_GPIO_DATA 0) l))))))"

text \<open>The control knob: the new value, or None for a read; the result is the error and the value read.\<close>

definition audiofs_sysctl_gpio_data :: "int option \<Rightarrow> hda_gpio \<times> hda_link \<Rightarrow> ((errno \<times> int) \<times> hda_gpio \<times> hda_link) option" where
  "audiofs_sysctl_gpio_data newval s =
     (let (gp, l) = s; value = int (unat (gpio_data gp)) in
      case newval of
        None \<Rightarrow> Some ((0, value), s)
      | Some v \<Rightarrow>
          if gpio_cad gp < 0 then Some ((ENXIO, value), s)
          else let d = word_of_int v; cad = nat (gpio_cad gp); nid = gpio_fg_nid gp
               in Option.bind (tell cad (verb12 nid SET_GPIO_DATA (ucast d)) l) (\<lambda>l.
                  map_option (\<lambda>l. ((0, value), gp\<lparr>gpio_data := d\<rparr>, l)) (tell cad (verb12 nid GET_GPIO_DATA 0) l)))"

section \<open>Pins\<close>

definition pin_ctrl :: "u32 \<Rightarrow> u32 \<Rightarrow> u32" where
  "pin_ctrl pin_cap devkind =
     (if pin_cap AND 0x10 \<noteq> 0 then 0x40 else 0) OR (if devkind = 2 \<and> pin_cap AND 0x8 \<noteq> 0 then 0x80 else 0)"

definition audiofs_enable_pin_output :: "nat \<Rightarrow> u16 \<Rightarrow> u32 \<Rightarrow> hda_link \<Rightarrow> hda_link option" where
  "audiofs_enable_pin_output cad nid devkind l =
     (case widget_at (lk_codecs l ! cad) nid of
        None \<Rightarrow> Some l
      | Some w \<Rightarrow>
          let want = pin_ctrl (w_pin_cap w) devkind
          in if want = 0 then Some l
             else Option.bind (tell cad (verb12 nid SET_PIN_WIDGET_CTRL want) l)
                    (tell cad (verb12 nid GET_PIN_WIDGET_CTRL 0)))"

definition audiofs_enable_outputs_for_codec :: "nat \<Rightarrow> hda_link \<Rightarrow> hda_link option" where
  "audiofs_enable_outputs_for_codec cad l =
     each_widget (\<lambda>w. audiofs_enable_pin_output cad (w_nid w) (defaultconf_device (w_pin_cfg w)))
       (output_pins (lk_codecs l ! cad)) l"

section \<open>Amplifiers\<close>

text \<open>A capability of a widget: its own when the override bit says so, else that of the function group.\<close>

definition override_cap :: "u32 \<Rightarrow> u32 \<Rightarrow> (audiofs_codec \<Rightarrow> u32) \<Rightarrow> nat \<Rightarrow> audiofs_widget \<Rightarrow> hda_link \<Rightarrow> (u32 \<times> hda_link) option" where
  "override_cap ovr param fg_default cad w l =
     (if w_wcap w AND ovr \<noteq> 0
      then map_option (\<lambda>(cap, l). (valid_or cap 0, l)) (audiofs_send_command (int cad) (get_parameter (w_nid w) param) l)
      else Some (fg_default (lk_codecs l ! cad), l))"

definition audiofs_widget_output_amp_cap :: "nat \<Rightarrow> audiofs_widget \<Rightarrow> hda_link \<Rightarrow> (u32 \<times> hda_link) option" where
  "audiofs_widget_output_amp_cap = override_cap CAP_AMP_OVR PARAM_OUTPUT_AMP_CAP c_fg_output_amp_cap"

definition amp_payload :: "u32 \<Rightarrow> u16" where
  "amp_payload amp_cap = 0x8000 OR 0x2000 OR 0x1000 OR ucast (amp_cap AND 0x7f)"

definition audiofs_unmute_output_amp :: "nat \<Rightarrow> audiofs_widget \<Rightarrow> hda_link \<Rightarrow> hda_link option" where
  "audiofs_unmute_output_amp cad w l =
     (if w_wcap w AND CAP_OUT_AMP = 0 then Some l
      else Option.bind (audiofs_widget_output_amp_cap cad w l) (\<lambda>(amp_cap, l).
        if amp_cap = 0 then Some l
        else Option.bind (tell cad (verb4 (w_nid w) SET_AMP_GAIN_MUTE (amp_payload amp_cap)) l) (\<lambda>l.
             Option.bind (tell cad (verb4 (w_nid w) GET_AMP_GAIN_MUTE (0x8000 OR 0x2000)) l)
               (tell cad (verb4 (w_nid w) GET_AMP_GAIN_MUTE 0x8000)))))"

definition audiofs_unmute_output_paths_for_codec :: "nat \<Rightarrow> hda_link \<Rightarrow> hda_link option" where
  "audiofs_unmute_output_paths_for_codec cad l =
     (let c = lk_codecs l ! cad
      in each_widget (audiofs_unmute_output_amp cad) (concat (map (path_widgets c) (output_pins c))) l)"

section \<open>Converter formats\<close>

definition audiofs_widget_supp_pcm_size_rate :: "nat \<Rightarrow> audiofs_widget \<Rightarrow> hda_link \<Rightarrow> (u32 \<times> hda_link) option" where
  "audiofs_widget_supp_pcm_size_rate = override_cap CAP_FORMAT_OVR PARAM_SUPP_PCM_SIZE_RATE c_fg_supp_pcm_size_rate"

definition audiofs_widget_supp_stream_formats :: "nat \<Rightarrow> audiofs_widget \<Rightarrow> hda_link \<Rightarrow> (u32 \<times> hda_link) option" where
  "audiofs_widget_supp_stream_formats = override_cap CAP_FORMAT_OVR PARAM_SUPP_STREAM_FORMATS c_fg_supp_stream_formats"

definition audiofs_set_dac_format :: "nat \<Rightarrow> audiofs_widget \<Rightarrow> hda_link \<Rightarrow> hda_link option" where
  "audiofs_set_dac_format cad w l =
     Option.bind (audiofs_widget_supp_pcm_size_rate cad w l) (\<lambda>(psr, l).
     Option.bind (audiofs_widget_supp_stream_formats cad w l) (\<lambda>(sfm, l).
       if sfm AND 1 = 0 \<or> psr AND 0x20000 = 0 \<or> psr AND 0x40 = 0 then Some l
       else Option.bind (tell cad (verb4 (w_nid w) SET_CONV_FMT 0x0011) l)
              (tell cad (verb4 (w_nid w) GET_CONV_FMT 0))))"

definition audiofs_set_dac_formats_for_codec :: "nat \<Rightarrow> hda_link \<Rightarrow> hda_link option" where
  "audiofs_set_dac_formats_for_codec cad l =
     (let c = lk_codecs l ! cad
      in each_widget (audiofs_set_dac_format cad) (concat (map (dac_widgets c) (output_pins c))) l)"

section \<open>All passes\<close>

definition on_populated :: "(nat \<Rightarrow> hda_link \<Rightarrow> hda_link option) \<Rightarrow> hda_link \<Rightarrow> hda_link option" where
  "on_populated run = each_codec (\<lambda>cad l. if c_populated (lk_codecs l ! cad) then run cad l else Some l) [0..<AUDIOFS_CODEC_MAX]"

definition prepare_codecs :: "hda_gpio \<times> hda_link \<Rightarrow> (hda_gpio \<times> hda_link) option" where
  "prepare_codecs s =
     Option.bind (inspect_codecs [0..<AUDIOFS_CODEC_MAX] s) (\<lambda>(gp, l).
     Option.bind (on_populated audiofs_power_up_codec_paths l) (\<lambda>l.
     Option.bind (audiofs_apply_gpio_policy (gp, l)) (\<lambda>(gp, l).
     Option.bind (on_populated audiofs_enable_outputs_for_codec l) (\<lambda>l.
     Option.bind (on_populated audiofs_unmute_output_paths_for_codec l) (\<lambda>l.
     map_option (Pair gp) (on_populated audiofs_set_dac_formats_for_codec l))))))"

definition audiofs_walk_topology :: "hda_gpio \<times> hda_link \<Rightarrow> (hda_gpio \<times> hda_link) option" where
  "audiofs_walk_topology s =
     (let (gp, l) = s in Option.bind (walk_topology l) (\<lambda>l. prepare_codecs (gp, l)))"

section \<open>What a step sends\<close>

text \<open>
  A step from \<open>l\<close> returns, keeps the link ready and the arrays as they are, sends only verbs that
  satisfy \<open>P\<close>, and sends at least those of \<open>Q\<close>.
\<close>

abbreviation same_arrays :: "hda_link \<Rightarrow> hda_link \<Rightarrow> bool" where
  "same_arrays l l' \<equiv> list_all2 same_walk (lk_codecs l) (lk_codecs l')"

definition sent :: "(u32 \<Rightarrow> bool) \<Rightarrow> u32 set \<Rightarrow> hda_link \<Rightarrow> hda_link option \<Rightarrow> bool" where
  "sent P Q l r \<longleftrightarrow> (\<exists>l' vs. r = Some l' \<and> ready l' \<and> same_arrays l l' \<and> lk_sent l' = lk_sent l @ vs \<and>
     list_all P vs \<and> Q \<subseteq> set vs)"

lemma same_arrays_refl [simp]: "same_arrays l l"
  by (simp add: list_all2_refl)

lemma same_arrays_trans: "same_arrays a b \<Longrightarrow> same_arrays b c \<Longrightarrow> same_arrays a c"
  by (rule list_all2_trans [of same_walk same_walk same_walk, OF same_walk_trans])

lemma same_arrays_nth: "same_arrays l l' \<Longrightarrow> ready l \<Longrightarrow> k < 16 \<Longrightarrow> same_walk (lk_codecs l ! k) (lk_codecs l' ! k)"
  by (simp add: list_all2_conv_all_nth ready_def link_ok_def)

lemma sent_return: "ready l \<Longrightarrow> sent P {} l (Some l)"
  by (simp add: sent_def)

lemma sent_mono: "sent P Q l r \<Longrightarrow> Q' \<subseteq> Q \<Longrightarrow> sent P Q' l r"
  unfolding sent_def by blast

lemma sent_bind:
  assumes "sent P Q l r" "\<And>l'. ready l' \<Longrightarrow> same_arrays l l' \<Longrightarrow> sent P Q' l' (f l')"
  shows "sent P (Q \<union> Q') l (Option.bind r f)"
proof -
  from assms(1) obtain l1 vs where 1: "r = Some l1" "ready l1" "same_arrays l l1" "lk_sent l1 = lk_sent l @ vs"
    "list_all P vs" "Q \<subseteq> set vs" unfolding sent_def by blast
  from assms(2) [OF 1(2,3)] obtain l2 us where "f l1 = Some l2" "ready l2" "same_arrays l1 l2"
    "lk_sent l2 = lk_sent l1 @ us" "list_all P us" "Q' \<subseteq> set us" unfolding sent_def by blast
  then show ?thesis unfolding sent_def using 1 same_arrays_trans [OF 1(3)]
    by (intro exI [of _ l2] exI [of _ "vs @ us"]) auto
qed

lemma sent_ask:
  assumes "ready l" "k < 16" "P (cad_verb k v)"
    and "\<And>r l'. ready l' \<Longrightarrow> same_arrays l l' \<Longrightarrow> sent P Q l' (f (r, l'))"
  shows "sent P (insert (cad_verb k v) Q) l (Option.bind (audiofs_send_command (int k) v l) f)"
proof -
  obtain r l1 where 1: "audiofs_send_command (int k) v l = Some (r, l1)" "ready l1" "same_arrays l l1"
    "lk_sent l1 = lk_sent l @ [cad_verb k v]" using ready_send [OF assms(1,2)] by blast
  from assms(4) [OF 1(2,3)] obtain l2 us where "f (r, l1) = Some l2" "ready l2" "same_arrays l1 l2"
    "lk_sent l2 = lk_sent l1 @ us" "list_all P us" "Q \<subseteq> set us" unfolding sent_def by blast
  then show ?thesis unfolding sent_def using 1 same_arrays_trans [OF 1(3)] assms(3)
    by (intro exI [of _ l2] exI [of _ "cad_verb k v # us"]) auto
qed

lemma sent_tell:
  assumes "ready l" "k < 16" "P (cad_verb k v)"
  shows "sent P {cad_verb k v} l (tell k v l)"
  using ready_send [OF assms(1,2), of v] assms(3) unfolding sent_def tell_def by fastforce

lemma sent_each_widget:
  assumes "\<And>w l. w \<in> set ws \<Longrightarrow> ready l \<Longrightarrow> same_arrays l0 l \<Longrightarrow> sent P (Q w) l (f w l)" "ready l" "same_arrays l0 l"
  shows "sent P (\<Union>w\<in>set ws. Q w) l (each_widget f ws l)"
  using assms
proof (induction ws arbitrary: l)
  case Nil
  then show ?case by (simp add: sent_return)
next
  case (Cons w ws)
  have "sent P (Q w \<union> (\<Union>w\<in>set ws. Q w)) l (Option.bind (f w l) (each_widget f ws))"
    by (rule sent_bind) (use Cons same_arrays_trans [OF Cons.prems(3)] in auto)
  then show ?case by simp
qed

text \<open>What responses leave alone, field by field.\<close>

lemma same_walk_fields:
  assumes "same_walk c c'"
  shows "c_populated c' = c_populated c" "c_fg_nid c' = c_fg_nid c" "c_fg_subsystem c' = c_fg_subsystem c"
    "c_fg_output_amp_cap c' = c_fg_output_amp_cap c" "c_fg_supp_pcm_size_rate c' = c_fg_supp_pcm_size_rate c"
    "c_fg_supp_stream_formats c' = c_fg_supp_stream_formats c" "c_widget_start c' = c_widget_start c"
    "c_widget_total c' = c_widget_total c" "c_widgets c' = c_widgets c"
  using assms by (cases c; cases c'; simp add: same_walk_def)+

lemma same_walk_nodes:
  assumes "same_walk c c'"
  shows "widget_at c' = widget_at c" "node_widget c' = node_widget c" "output_pins c' = output_pins c"
    "path_widgets c' = path_widgets c" "dac_widgets c' = dac_widgets c"
proof -
  note f = same_walk_fields [OF assms]
  show a: "widget_at c' = widget_at c" and n: "node_widget c' = node_widget c" and "output_pins c' = output_pins c"
    by (auto simp: fun_eq_iff widget_at_def node_widget_def output_pins_def f Let_def)
  have "path_walk c' d nid = path_walk c d nid" for d nid
    by (induction d arbitrary: nid) (simp_all add: a split: option.split)
  then show "path_widgets c' = path_widgets c" "dac_widgets c' = dac_widgets c"
    by (intro ext, simp add: path_widgets_def dac_widgets_def audiofs_path_from_pin_def n split_beta)+
qed

text \<open>The contract of a pass over the codecs: the verbs it may send and the verbs due for a codec.\<close>

locale link_pass =
  fixes run :: "nat \<Rightarrow> hda_link \<Rightarrow> hda_link option"
    and allowed :: "u32 \<Rightarrow> bool"
    and due :: "nat \<Rightarrow> audiofs_codec \<Rightarrow> u32 list"
  assumes run_sends: "ready l \<Longrightarrow> k < 16 \<Longrightarrow> sent allowed (set (due k (lk_codecs l ! k))) l (run k l)"
    and due_frame: "same_walk c c' \<Longrightarrow> due k c' = due k c"
begin

definition due_all :: "hda_link \<Rightarrow> u32 set" where
  "due_all l = (\<Union>k\<in>{k. k < 16 \<and> c_populated (lk_codecs l ! k)}. set (due k (lk_codecs l ! k)))"

lemma codecs_send:
  assumes "ready l" "same_arrays l0 l" "ready l0" "\<forall>k\<in>set ks. k < 16"
  shows "sent allowed (\<Union>k\<in>{k \<in> set ks. c_populated (lk_codecs l0 ! k)}. set (due k (lk_codecs l0 ! k))) l
    (each_codec (\<lambda>k l. if c_populated (lk_codecs l ! k) then run k l else Some l) ks l)"
  using assms
proof (induction ks arbitrary: l)
  case Nil
  then show ?case by (simp add: sent_return)
next
  case (Cons k ks)
  let ?q = "if c_populated (lk_codecs l0 ! k) then set (due k (lk_codecs l0 ! k)) else {}"
  have k: "k < 16" and s: "same_walk (lk_codecs l0 ! k) (lk_codecs l ! k)"
    using Cons.prems same_arrays_nth [of l0 l k] by auto
  have p: "c_populated (lk_codecs l ! k) = c_populated (lk_codecs l0 ! k)"
    by (rule same_walk_fields(1) [OF s])
  have "sent allowed ?q l (if c_populated (lk_codecs l ! k) then run k l else Some l)"
    using run_sends [OF Cons.prems(1) k] due_frame [OF s, of k] p sent_return [OF Cons.prems(1)] by simp
  from sent_bind [OF this Cons.IH] Cons.prems same_arrays_trans [OF Cons.prems(2)]
  have "sent allowed (?q \<union> (\<Union>k\<in>{k \<in> set ks. c_populated (lk_codecs l0 ! k)}. set (due k (lk_codecs l0 ! k)))) l
      (each_codec (\<lambda>k l. if c_populated (lk_codecs l ! k) then run k l else Some l) (k # ks) l)" by simp
  then show ?case by (rule sent_mono) auto
qed

lemma pass_sends: "ready l \<Longrightarrow> sent allowed (due_all l) l (on_populated run l)"
  using codecs_send [of l l "[0..<16]"] by (simp add: on_populated_def due_all_def)

lemma pass_from:
  assumes "ready l0" "same_arrays l0 l" "ready l"
  shows "\<exists>l' vs. on_populated run l = Some l' \<and> ready l' \<and> same_arrays l0 l' \<and> lk_sent l' = lk_sent l @ vs \<and>
    list_all allowed vs \<and> (\<forall>k<16. c_populated (lk_codecs l0 ! k) \<longrightarrow> set (due k (lk_codecs l0 ! k)) \<subseteq> set vs)"
proof -
  from pass_sends [OF assms(3)] obtain l' vs where 1: "on_populated run l = Some l'" "ready l'" "same_arrays l l'"
    "lk_sent l' = lk_sent l @ vs" "list_all allowed vs" "due_all l \<subseteq> set vs" unfolding sent_def by blast
  have "set (due k (lk_codecs l0 ! k)) \<subseteq> set vs" if "k < 16" "c_populated (lk_codecs l0 ! k)" for k
  proof -
    have s: "same_walk (lk_codecs l0 ! k) (lk_codecs l ! k)" by (rule same_arrays_nth [OF assms(2,1) that(1)])
    then have "set (due k (lk_codecs l0 ! k)) \<subseteq> due_all l"
      using that same_walk_fields(1) [OF s] due_frame [OF s, of k] by (auto simp: due_all_def)
    then show ?thesis using 1(6) by blast
  qed
  then show ?thesis using 1 same_arrays_trans [OF assms(2) 1(3)] by blast
qed

end

section \<open>Verb numbers\<close>

text \<open>A verb has a number of 12 bits when its top four bits are 7 or 15, and one of four bits otherwise.\<close>

definition verb_id :: "u32 \<Rightarrow> u32" where
  "verb_id v = (let k = take_bit 4 (drop_bit 16 v) in if k = 7 \<or> k = 15 then take_bit 12 (drop_bit 8 v) else k)"

lemma bits_below_node:
  assumes "n < 20"
  shows "bit (cad_verb cad (push_bit 20 (ucast (nid :: u16)) OR v)) n = bit v n"
  using assms by (simp add: bit_cad_verb bit_simps)

lemma take_drop_below:
  assumes "m + n \<le> 20"
  shows "take_bit m (drop_bit n (cad_verb cad (push_bit 20 (ucast (nid :: u16)) OR v))) = take_bit m (drop_bit n v)"
  by (rule bit_word_eqI) (use assms in \<open>auto simp: bit_take_bit_iff bit_drop_bit_eq bits_below_node\<close>)

lemma verb_id_node: "verb_id (cad_verb cad (push_bit 20 (ucast (nid :: u16)) OR v)) = verb_id v"
  unfolding verb_id_def by (subst take_drop_below, simp)+ (rule refl)

lemma verb_id_payload8: "drop_bit 8 payload = 0 \<Longrightarrow> verb_id (x OR payload) = verb_id x"
proof -
  assume p: "drop_bit 8 payload = 0"
  have "drop_bit 16 payload = drop_bit 8 (drop_bit 8 payload)" by (simp add: drop_bit_drop_bit)
  then show ?thesis using p by (simp add: verb_id_def drop_bit_or Let_def)
qed

lemma verb_id_payload16:
  "drop_bit 16 payload = 0 \<Longrightarrow> take_bit 4 (drop_bit 16 x) \<notin> {7, 15} \<Longrightarrow> verb_id (x OR payload) = verb_id x"
  by (simp add: verb_id_def drop_bit_or Let_def)

lemma drop_bit_ucast [simp]: "drop_bit 8 (ucast (b :: byte) :: u32) = 0" "drop_bit 16 (ucast (h :: u16) :: u32) = 0"
  by (rule bit_word_eqI; auto simp: bit_simps dest: bit_imp_le_length)+

lemma drop_bit_pin_ctrl [simp]: "drop_bit 8 (pin_ctrl cap kind) = 0"
  by (simp add: pin_ctrl_def)

lemma verb_id_verb12:
  "drop_bit 8 payload = 0 \<Longrightarrow> verb_id (cad_verb cad (verb12 nid verb payload)) = verb_id (push_bit 8 verb)"
  by (simp add: verb12_def verb_id_node verb_id_payload8 or.assoc)

lemma verb_id_verb4:
  "take_bit 4 (drop_bit 16 (push_bit 16 verb)) \<notin> {7, 15} \<Longrightarrow>
   verb_id (cad_verb cad (verb4 nid verb payload)) = verb_id (push_bit 16 verb)"
  by (simp add: verb4_def verb_id_node or.assoc verb_id_payload16)

lemma verb_id_get_parameter:
  "drop_bit 8 p = 0 \<Longrightarrow> verb_id (cad_verb cad (get_parameter nid p)) = 0xf00"
  by (simp add: get_parameter_def verb_id_node or.assoc verb_id_payload8) (simp add: verb_id_def)

lemma verb_ids [simp]:
  "drop_bit 8 p = 0 \<Longrightarrow> verb_id (cad_verb k (verb12 n 0x705 p)) = 0x705"
  "drop_bit 8 p = 0 \<Longrightarrow> verb_id (cad_verb k (verb12 n 0xf05 p)) = 0xf05"
  "drop_bit 8 p = 0 \<Longrightarrow> verb_id (cad_verb k (verb12 n 0x707 p)) = 0x707"
  "drop_bit 8 p = 0 \<Longrightarrow> verb_id (cad_verb k (verb12 n 0xf07 p)) = 0xf07"
  "verb_id (cad_verb k (verb4 n 3 h)) = 3" "verb_id (cad_verb k (verb4 n 0xb h)) = 0xb"
  "verb_id (cad_verb k (verb4 n 2 h)) = 2" "verb_id (cad_verb k (verb4 n 0xa h)) = 0xa"
  by (simp_all add: verb_id_verb12 verb_id_verb4) (simp_all add: verb_id_def)

section \<open>The passes\<close>

text \<open>The verbs due for a codec in each pass, and the verbs the pass may send.\<close>

definition power_due :: "nat \<Rightarrow> audiofs_codec \<Rightarrow> u32 list" where
  "power_due k c =
     (if c_fg_nid c = 0 then []
      else map (\<lambda>nid. cad_verb k (verb12 nid SET_POWER_STATE 0))
             (c_fg_nid c # map w_nid (filter (\<lambda>w. w_wcap w AND CAP_POWER_CTRL \<noteq> 0) (concat (map (path_widgets c) (output_pins c))))))"

definition pin_due :: "nat \<Rightarrow> audiofs_codec \<Rightarrow> u32 list" where
  "pin_due k c =
     concat (map (\<lambda>p. case widget_at c (w_nid p) of
                       None \<Rightarrow> []
                     | Some w \<Rightarrow> let want = pin_ctrl (w_pin_cap w) (defaultconf_device (w_pin_cfg p))
                                 in if want = 0 then [] else [cad_verb k (verb12 (w_nid p) SET_PIN_WIDGET_CTRL want)])
               (output_pins c))"

definition amp_due :: "nat \<Rightarrow> audiofs_codec \<Rightarrow> u32 list" where
  "amp_due k c =
     (if c_fg_output_amp_cap c = 0 then []
      else map (\<lambda>w. cad_verb k (verb4 (w_nid w) SET_AMP_GAIN_MUTE (amp_payload (c_fg_output_amp_cap c))))
             (filter (\<lambda>w. w_wcap w AND CAP_OUT_AMP \<noteq> 0 \<and> w_wcap w AND CAP_AMP_OVR = 0)
               (concat (map (path_widgets c) (output_pins c)))))"

definition format_due :: "nat \<Rightarrow> audiofs_codec \<Rightarrow> u32 list" where
  "format_due k c =
     (if c_fg_supp_stream_formats c AND 1 = 0 \<or> c_fg_supp_pcm_size_rate c AND 0x20000 = 0 \<or>
         c_fg_supp_pcm_size_rate c AND 0x40 = 0 then []
      else map (\<lambda>w. cad_verb k (verb4 (w_nid w) SET_CONV_FMT 0x0011))
             (filter (\<lambda>w. w_wcap w AND CAP_FORMAT_OVR = 0) (concat (map (dac_widgets c) (output_pins c)))))"

abbreviation power_verb :: "u32 \<Rightarrow> bool" where "power_verb v \<equiv> verb_id v \<in> {SET_POWER_STATE, GET_POWER_STATE}"
abbreviation pin_verb :: "u32 \<Rightarrow> bool" where "pin_verb v \<equiv> verb_id v \<in> {SET_PIN_WIDGET_CTRL, GET_PIN_WIDGET_CTRL}"
abbreviation amp_verb :: "u32 \<Rightarrow> bool" where "amp_verb v \<equiv> verb_id v \<in> {SET_AMP_GAIN_MUTE, GET_AMP_GAIN_MUTE, 0xf00}"
abbreviation format_verb :: "u32 \<Rightarrow> bool" where "format_verb v \<equiv> verb_id v \<in> {SET_CONV_FMT, GET_CONV_FMT, 0xf00}"

lemma power_poll_sends: "ready l \<Longrightarrow> k < 16 \<Longrightarrow> sent power_verb {} l (power_poll n k nid l)"
proof (induction n arbitrary: l)
  case (Suc n)
  have "sent power_verb (insert (cad_verb k (verb12 nid 0xf05 0)) {}) l (power_poll (Suc n) k nid l)"
    unfolding power_poll.simps
    by (rule sent_ask) (use Suc in \<open>auto intro: sent_return\<close>)
  then show ?case by (rule sent_mono) simp
qed (simp add: sent_return)

lemma power_up_widget_sends:
  assumes "ready l" "k < 16"
  shows "sent power_verb (if wcap AND CAP_POWER_CTRL \<noteq> 0 then {cad_verb k (verb12 nid SET_POWER_STATE 0)} else {}) l
    (audiofs_power_up_widget k nid wcap l)"
proof (cases "wcap AND CAP_POWER_CTRL = 0")
  case False
  have "sent power_verb ({cad_verb k (verb12 nid 0x705 0)} \<union> {}) l
      (Option.bind (tell k (verb12 nid 0x705 0) l) (power_poll 1000 k nid))"
    by (rule sent_bind [OF sent_tell]) (use assms power_poll_sends in auto)
  then show ?thesis using False by (simp add: audiofs_power_up_widget_def)
qed (use assms in \<open>simp add: audiofs_power_up_widget_def sent_return\<close>)

interpretation power: link_pass audiofs_power_up_codec_paths power_verb power_due
proof
  fix l and k :: nat assume a: "ready l" "k < 16"
  let ?c = "lk_codecs l ! k"
  let ?ws = "concat (map (path_widgets ?c) (output_pins ?c))"
  let ?q = "\<lambda>w. if w_wcap w AND CAP_POWER_CTRL \<noteq> 0 then {cad_verb k (verb12 (w_nid w) SET_POWER_STATE 0)} else {}"
  show "sent power_verb (set (power_due k ?c)) l (audiofs_power_up_codec_paths k l)"
  proof (cases "c_fg_nid ?c = 0")
    case False
    have f: "sent power_verb {cad_verb k (verb12 (c_fg_nid ?c) 0x705 0)} l (audiofs_power_up_widget k (c_fg_nid ?c) 0x400 l)"
      using power_up_widget_sends [OF a, where wcap = 1024 and nid = "c_fg_nid ?c"] by simp
    have "sent power_verb (\<Union>w\<in>set ?ws. ?q w) l'
        (each_widget (\<lambda>w. audiofs_power_up_widget k (w_nid w) (w_wcap w)) ?ws l')" if "ready l'" for l'
      by (rule sent_each_widget [where ?l0.0 = l', OF power_up_widget_sends]) (use a(2) that in auto)
    from sent_bind [OF f this] have "sent power_verb ({cad_verb k (verb12 (c_fg_nid ?c) 0x705 0)} \<union> (\<Union>w\<in>set ?ws. ?q w)) l
        (audiofs_power_up_codec_paths k l)"
      unfolding audiofs_power_up_codec_paths_def Let_def by (simp only: False if_False)
    then show ?thesis by (rule sent_mono) (auto simp: power_due_def)
  qed (use a in \<open>simp add: audiofs_power_up_codec_paths_def power_due_def sent_return\<close>)
next
  fix c c' and k :: nat assume "same_walk c c'"
  then show "power_due k c' = power_due k c" by (simp add: power_due_def same_walk_fields same_walk_nodes)
qed

lemma get_parameter_ids [simp]:
  "verb_id (cad_verb k (get_parameter n 0x0a)) = 0xf00" "verb_id (cad_verb k (get_parameter n 0x0b)) = 0xf00"
  "verb_id (cad_verb k (get_parameter n 0x12)) = 0xf00"
  by (simp_all add: verb_id_get_parameter)

definition pin_due_of :: "nat \<Rightarrow> audiofs_codec \<Rightarrow> u16 \<Rightarrow> u32 \<Rightarrow> u32 list" where
  "pin_due_of k c nid kind =
     (case widget_at c nid of
        None \<Rightarrow> []
      | Some w \<Rightarrow> let want = pin_ctrl (w_pin_cap w) kind
                  in if want = 0 then [] else [cad_verb k (verb12 nid SET_PIN_WIDGET_CTRL want)])"

lemma enable_pin_sends:
  assumes "ready l" "k < 16"
  shows "sent pin_verb (set (pin_due_of k (lk_codecs l ! k) nid kind)) l (audiofs_enable_pin_output k nid kind l)"
proof (cases "widget_at (lk_codecs l ! k) nid")
  case (Some w)
  let ?v = "verb12 nid 0x707 (pin_ctrl (w_pin_cap w) kind)"
  have "sent pin_verb ({cad_verb k ?v} \<union> {cad_verb k (verb12 nid 0xf07 0)}) l
      (Option.bind (tell k ?v l) (tell k (verb12 nid 0xf07 0)))"
    by (rule sent_bind [OF sent_tell sent_tell]) (use assms in auto)
  then have "sent pin_verb {cad_verb k ?v} l (Option.bind (tell k ?v l) (tell k (verb12 nid 0xf07 0)))"
    by (rule sent_mono) simp
  then show ?thesis using Some sent_return [OF assms(1), of pin_verb]
    by (simp add: audiofs_enable_pin_output_def pin_due_of_def Let_def)
qed (use sent_return [OF assms(1)] in \<open>simp add: audiofs_enable_pin_output_def pin_due_of_def\<close>)

lemma pin_due_set:
  "set (pin_due k c) = (\<Union>p\<in>set (output_pins c). set (pin_due_of k c (w_nid p) (defaultconf_device (w_pin_cfg p))))"
  by (simp add: pin_due_def pin_due_of_def)

interpretation enable: link_pass audiofs_enable_outputs_for_codec pin_verb pin_due
proof
  fix l and k :: nat assume a: "ready l" "k < 16"
  let ?c = "lk_codecs l ! k"
  have "sent pin_verb (set (pin_due_of k ?c (w_nid w) (defaultconf_device (w_pin_cfg w)))) l'
      (audiofs_enable_pin_output k (w_nid w) (defaultconf_device (w_pin_cfg w)) l')"
    if "ready l'" "same_arrays l l'" for w l'
    using enable_pin_sends [OF that(1) a(2)] same_walk_nodes(1) [OF same_arrays_nth [OF that(2) a]]
    by (simp add: pin_due_of_def)
  from sent_each_widget [where ?l0.0 = l, OF this a(1)]
  show "sent pin_verb (set (pin_due k ?c)) l (audiofs_enable_outputs_for_codec k l)"
    by (simp add: audiofs_enable_outputs_for_codec_def pin_due_set)
next
  fix c c' and k :: nat assume "same_walk c c'"
  then show "pin_due k c' = pin_due k c" by (simp add: pin_due_def same_walk_nodes)
qed

text \<open>What follows the reading of a capability.\<close>

lemma sent_override:
  assumes "ready l" "k < 16" "P (cad_verb k (get_parameter (w_nid w) param))"
    and "\<And>cap l'. ready l' \<Longrightarrow> same_arrays l l' \<Longrightarrow> (w_wcap w AND ovr = 0 \<longrightarrow> cap = d (lk_codecs l ! k)) \<Longrightarrow> sent P Q l' (f (cap, l'))"
  shows "sent P Q l (Option.bind (override_cap ovr param d k w l) f)"
proof (cases "w_wcap w AND ovr = 0")
  case True
  then show ?thesis using assms(4) [OF assms(1)] by (simp add: override_cap_def)
next
  case False
  have "sent P (insert (cad_verb k (get_parameter (w_nid w) param)) Q) l
      (Option.bind (audiofs_send_command (int k) (get_parameter (w_nid w) param) l) (\<lambda>(cap, l). f (valid_or cap 0, l)))"
    by (rule sent_ask [where P = P and v = "get_parameter (w_nid w) param", OF assms(1-3)]) (use assms(4) False in auto)
  then have "sent P Q l
      (Option.bind (audiofs_send_command (int k) (get_parameter (w_nid w) param) l) (\<lambda>(cap, l). f (valid_or cap 0, l)))"
    by (rule sent_mono) auto
  then show ?thesis using False
    by (cases "audiofs_send_command (int k) (get_parameter (w_nid w) param) l") (auto simp: override_cap_def)
qed

definition amp_due_of :: "nat \<Rightarrow> u32 \<Rightarrow> audiofs_widget \<Rightarrow> u32 list" where
  "amp_due_of k cap w =
     (if w_wcap w AND CAP_OUT_AMP \<noteq> 0 \<and> w_wcap w AND CAP_AMP_OVR = 0 \<and> cap \<noteq> 0
      then [cad_verb k (verb4 (w_nid w) SET_AMP_GAIN_MUTE (amp_payload cap))] else [])"

lemma unmute_sends:
  assumes "ready l" "k < 16"
  shows "sent amp_verb (set (amp_due_of k (c_fg_output_amp_cap (lk_codecs l ! k)) w)) l (audiofs_unmute_output_amp k w l)"
proof (cases "w_wcap w AND CAP_OUT_AMP = 0")
  case True
  then show ?thesis using sent_return [OF assms(1)] by (simp add: audiofs_unmute_output_amp_def amp_due_of_def)
next
  case False
  let ?set = "\<lambda>cap. verb4 (w_nid w) 3 (amp_payload cap)"
  let ?left = "verb4 (w_nid w) 0xb (0x8000 OR 0x2000)" let ?right = "verb4 (w_nid w) 0xb 0x8000"
  have step: "sent amp_verb {cad_verb k (?set cap)} l'
      (Option.bind (tell k (?set cap) l') (\<lambda>l. Option.bind (tell k ?left l) (tell k ?right)))" if "ready l'" for cap l'
  proof -
    have "sent amp_verb ({cad_verb k (?set cap)} \<union> ({cad_verb k ?left} \<union> {cad_verb k ?right})) l'
        (Option.bind (tell k (?set cap) l') (\<lambda>l. Option.bind (tell k ?left l) (tell k ?right)))"
      by (rule sent_bind [OF sent_tell sent_bind [OF sent_tell sent_tell]]) (use that assms(2) in auto)
    then show ?thesis by (rule sent_mono) simp
  qed
  show ?thesis
    unfolding audiofs_unmute_output_amp_def audiofs_widget_output_amp_cap_def if_not_P [OF False]
  proof (rule sent_override [OF assms], simp)
    fix cap l'
    assume l': "ready l'" and cap: "w_wcap w AND CAP_AMP_OVR = 0 \<longrightarrow> cap = c_fg_output_amp_cap (lk_codecs l ! k)"
    show "sent amp_verb (set (amp_due_of k (c_fg_output_amp_cap (lk_codecs l ! k)) w)) l' (case (cap, l') of (amp_cap, l) \<Rightarrow>
      if amp_cap = 0 then Some l
      else Option.bind (tell k (?set amp_cap) l) (\<lambda>l. Option.bind (tell k ?left l) (tell k ?right)))"
    proof (cases "cap = 0")
      case True
      then have "amp_due_of k (c_fg_output_amp_cap (lk_codecs l ! k)) w = []" using cap by (auto simp: amp_due_of_def)
      then show ?thesis using True sent_return [OF l', of amp_verb] by simp
    next
      case False
      have "set (amp_due_of k (c_fg_output_amp_cap (lk_codecs l ! k)) w) \<subseteq> {cad_verb k (?set cap)}"
        using cap by (auto simp: amp_due_of_def split: if_splits)
      from sent_mono [OF step [OF l'] this] False show ?thesis by simp
    qed
  qed
qed

lemma amp_due_set:
  "set (amp_due k c) = (\<Union>w\<in>set (concat (map (path_widgets c) (output_pins c))). set (amp_due_of k (c_fg_output_amp_cap c) w))"
  by (auto simp: amp_due_def amp_due_of_def split: if_splits)

interpretation unmute: link_pass audiofs_unmute_output_paths_for_codec amp_verb amp_due
proof
  fix l and k :: nat assume a: "ready l" "k < 16"
  let ?c = "lk_codecs l ! k"
  have "sent amp_verb (set (amp_due_of k (c_fg_output_amp_cap ?c) w)) l' (audiofs_unmute_output_amp k w l')"
    if "ready l'" "same_arrays l l'" for w l'
    using unmute_sends [OF that(1) a(2), of w] unfolding same_walk_fields(4) [OF same_arrays_nth [OF that(2) a]] .
  from sent_each_widget [where ws = "concat (map (path_widgets ?c) (output_pins ?c))" and ?l0.0 = l
      and Q = "\<lambda>w. set (amp_due_of k (c_fg_output_amp_cap ?c) w)", OF this a(1) same_arrays_refl]
  show "sent amp_verb (set (amp_due k ?c)) l (audiofs_unmute_output_paths_for_codec k l)"
    unfolding audiofs_unmute_output_paths_for_codec_def amp_due_set Let_def .
next
  fix c c' and k :: nat assume "same_walk c c'"
  then show "amp_due k c' = amp_due k c" by (simp add: amp_due_def same_walk_fields same_walk_nodes)
qed

definition format_ok :: "audiofs_codec \<Rightarrow> bool" where
  "format_ok c \<longleftrightarrow> c_fg_supp_stream_formats c AND 1 \<noteq> 0 \<and> c_fg_supp_pcm_size_rate c AND 0x20000 \<noteq> 0 \<and>
     c_fg_supp_pcm_size_rate c AND 0x40 \<noteq> 0"

definition format_due_of :: "nat \<Rightarrow> audiofs_codec \<Rightarrow> audiofs_widget \<Rightarrow> u32 list" where
  "format_due_of k c w =
     (if format_ok c \<and> w_wcap w AND CAP_FORMAT_OVR = 0 then [cad_verb k (verb4 (w_nid w) SET_CONV_FMT 0x0011)] else [])"

lemma format_sends:
  assumes "ready l" "k < 16"
  shows "sent format_verb (set (format_due_of k (lk_codecs l ! k) w)) l (audiofs_set_dac_format k w l)"
proof -
  let ?set = "verb4 (w_nid w) 2 0x0011" let ?get = "verb4 (w_nid w) 0xa 0"
  have step: "sent format_verb {cad_verb k ?set} l' (Option.bind (tell k ?set l') (tell k ?get))" if "ready l'" for l'
  proof -
    have "sent format_verb ({cad_verb k ?set} \<union> {cad_verb k ?get}) l' (Option.bind (tell k ?set l') (tell k ?get))"
      by (rule sent_bind [OF sent_tell sent_tell]) (use that assms(2) in auto)
    then show ?thesis by (rule sent_mono) simp
  qed
  show ?thesis
    unfolding audiofs_set_dac_format_def audiofs_widget_supp_pcm_size_rate_def audiofs_widget_supp_stream_formats_def
  proof (rule sent_override [OF assms], simp, unfold prod.case, rule sent_override)
    fix psr sfm l1 l2
    assume 1: "ready l1" "same_arrays l l1" "w_wcap w AND CAP_FORMAT_OVR = 0 \<longrightarrow> psr = c_fg_supp_pcm_size_rate (lk_codecs l ! k)"
      and 2: "ready l2" "same_arrays l1 l2" "w_wcap w AND CAP_FORMAT_OVR = 0 \<longrightarrow> sfm = c_fg_supp_stream_formats (lk_codecs l1 ! k)"
    have "c_fg_supp_stream_formats (lk_codecs l1 ! k) = c_fg_supp_stream_formats (lk_codecs l ! k)"
      by (rule same_walk_fields(6) [OF same_arrays_nth [OF 1(2) assms]])
    then have c: "w_wcap w AND CAP_FORMAT_OVR = 0 \<longrightarrow> format_ok (lk_codecs l ! k) =
        (\<not> (sfm AND 1 = 0 \<or> psr AND 0x20000 = 0 \<or> psr AND 0x40 = 0))" using 1(3) 2(3) by (auto simp: format_ok_def)
    show "sent format_verb (set (format_due_of k (lk_codecs l ! k) w)) l2
      (case (sfm, l2) of (sfm, l) \<Rightarrow> if sfm AND 1 = 0 \<or> psr AND 0x20000 = 0 \<or> psr AND 0x40 = 0 then Some l
        else Option.bind (tell k ?set l) (tell k ?get))"
    proof (cases "sfm AND 1 = 0 \<or> psr AND 0x20000 = 0 \<or> psr AND 0x40 = 0")
      case True
      then have "format_due_of k (lk_codecs l ! k) w = []" using c by (auto simp: format_due_of_def)
      then show ?thesis using True sent_return [OF 2(1), of format_verb] by simp
    next
      case False
      have "set (format_due_of k (lk_codecs l ! k) w) \<subseteq> {cad_verb k ?set}" by (auto simp: format_due_of_def)
      from sent_mono [OF step [OF 2(1)] this] False show ?thesis by simp
    qed
  qed (use assms(2) in simp_all)
qed

lemma format_due_set:
  "set (format_due k c) = (\<Union>w\<in>set (concat (map (dac_widgets c) (output_pins c))). set (format_due_of k c w))"
  by (auto simp: format_due_def format_due_of_def format_ok_def split: if_splits)

interpretation converters: link_pass audiofs_set_dac_formats_for_codec format_verb format_due
proof
  fix l and k :: nat assume a: "ready l" "k < 16"
  let ?c = "lk_codecs l ! k"
  have "sent format_verb (set (format_due_of k ?c w)) l' (audiofs_set_dac_format k w l')"
    if "ready l'" "same_arrays l l'" for w l'
    using format_sends [OF that(1) a(2), of w]
    unfolding format_due_of_def format_ok_def same_walk_fields(5,6) [OF same_arrays_nth [OF that(2) a]] .
  from sent_each_widget [where ws = "concat (map (dac_widgets ?c) (output_pins ?c))" and ?l0.0 = l
      and Q = "\<lambda>w. set (format_due_of k ?c w)", OF this a(1) same_arrays_refl]
  show "sent format_verb (set (format_due k ?c)) l (audiofs_set_dac_formats_for_codec k l)"
    unfolding audiofs_set_dac_formats_for_codec_def format_due_set Let_def .
next
  fix c c' and k :: nat assume "same_walk c c'"
  then show "format_due k c' = format_due k c" by (simp add: format_due_def same_walk_fields same_walk_nodes)
qed

section \<open>GPIO inspection and policy\<close>

text \<open>The GPIO state after the inspection: no codec, or a populated one with the node of its function group.\<close>

definition gpio_ok :: "hda_gpio \<Rightarrow> hda_link \<Rightarrow> bool" where
  "gpio_ok gp l \<longleftrightarrow> gpio_cad gp < 0 \<or>
     gpio_cad gp < 16 \<and> c_populated (lk_codecs l ! nat (gpio_cad gp)) \<and>
     gpio_fg_nid gp = c_fg_nid (lk_codecs l ! nat (gpio_cad gp)) \<and> gpio_fg_nid gp \<noteq> 0 \<and> 0 < gpio_num_lines gp"

lemma gpio_ok_iff: "ready l \<Longrightarrow> same_arrays l l' \<Longrightarrow> gpio_ok gp l' = gpio_ok gp l"
  using same_arrays_nth [of l l' "nat (gpio_cad gp)"] same_walk_fields(1,2)
  by (cases "gpio_cad gp < 16") (auto simp: gpio_ok_def nat_less_iff)

lemma inspect_one:
  assumes "ready l" "k < 16" "c_populated (lk_codecs l ! k)" "gpio_ok gp l"
  shows "\<exists>gp' l' vs. audiofs_inspect_platform_caps k (gp, l) = Some (gp', l') \<and> ready l' \<and> same_arrays l l' \<and>
    lk_sent l' = lk_sent l @ vs \<and> list_all is_get vs \<and> gpio_ok gp' l'"
proof (cases "c_fg_nid (lk_codecs l ! k) = 0")
  case True
  then show ?thesis using assms by (auto simp: audiofs_inspect_platform_caps_def)
next
  case False
  let ?v = "get_parameter (c_fg_nid (lk_codecs l ! k)) 0x11"
  obtain r l' where s: "audiofs_send_command (int k) ?v l = Some (r, l')" "ready l'" "same_arrays l l'"
    "lk_sent l' = lk_sent l @ [cad_verb k ?v]" using ready_send [OF assms(1,2)] by blast
  let ?gp = "if r \<noteq> HDA_INVALID \<and> 0 < unat (r AND 0xff) \<and> gpio_cad gp < 0
    then \<lparr>gpio_cad = int k, gpio_fg_nid = c_fg_nid (lk_codecs l ! k), gpio_num_lines = unat (r AND 0xff), gpio_data = 0\<rparr> else gp"
  have "audiofs_inspect_platform_caps k (gp, l) = Some (?gp, l')"
    using s(1) False by (simp add: audiofs_inspect_platform_caps_def Let_def)
  moreover have "gpio_ok ?gp l'"
    using gpio_ok_iff [OF assms(1) s(3), of gp] assms(4) same_walk_fields(1,2) [OF same_arrays_nth [OF s(3) assms(1,2)]] False assms(2,3)
    by (simp add: gpio_ok_def)
  ultimately show ?thesis using s by auto
qed

lemma inspect_all:
  "ready l \<Longrightarrow> \<forall>k\<in>set ks. k < 16 \<Longrightarrow> gpio_ok gp l \<Longrightarrow>
   \<exists>gp' l' vs. inspect_codecs ks (gp, l) = Some (gp', l') \<and> ready l' \<and> same_arrays l l' \<and>
     lk_sent l' = lk_sent l @ vs \<and> list_all is_get vs \<and> gpio_ok gp' l'"
proof (induction ks arbitrary: gp l)
  case (Cons k ks)
  obtain gp1 l1 vs where 1: "(if c_populated (lk_codecs l ! k) then audiofs_inspect_platform_caps k (gp, l) else Some (gp, l)) = Some (gp1, l1)"
      "ready l1" "same_arrays l l1" "lk_sent l1 = lk_sent l @ vs" "list_all is_get vs" "gpio_ok gp1 l1"
    using inspect_one [OF Cons.prems(1), of k gp] Cons.prems by (cases "c_populated (lk_codecs l ! k)") auto
  obtain gp2 l2 us where 2: "inspect_codecs ks (gp1, l1) = Some (gp2, l2)" "ready l2" "same_arrays l1 l2"
      "lk_sent l2 = lk_sent l1 @ us" "list_all is_get us" "gpio_ok gp2 l2"
    using Cons.IH [OF 1(2) _ 1(6)] Cons.prems(2) by auto
  show ?case using 1 2 same_arrays_trans [OF 1(3) 2(3)]
    by (intro exI [of _ gp2] exI [of _ l2] exI [of _ "vs @ us"]) simp
qed auto

definition gpio_verbs :: "hda_gpio \<Rightarrow> audiofs_codec \<Rightarrow> u32 list" where
  "gpio_verbs gp c =
     (if gpio_cad gp < 0 then []
      else let nid = gpio_fg_nid gp; mask = ucast (gpio_mask (gpio_num_lines gp)); p = policy_data c
           in map (cad_verb (nat (gpio_cad gp)))
                ([verb12 nid SET_GPIO_ENABLE_MASK mask, verb12 nid SET_GPIO_DIRECTION mask, verb12 nid SET_GPIO_DATA 0] @
                 (if p \<noteq> 0 then [verb12 nid SET_GPIO_DATA (ucast p)] else []) @ [verb12 nid GET_GPIO_DATA 0]))"

lemma ready_tell:
  assumes "ready l" "k < 16"
  shows "\<exists>l'. tell k v l = Some l' \<and> ready l' \<and> same_arrays l l' \<and> lk_sent l' = lk_sent l @ [cad_verb k v]"
  using ready_send [OF assms, of v] by (auto simp: tell_def)

lemma gpio_policy:
  assumes "ready l" "gpio_ok gp l"
  shows "\<exists>l'. audiofs_apply_gpio_policy (gp, l) =
      Some (if gpio_cad gp < 0 then gp else gp\<lparr>gpio_data := policy_data (lk_codecs l ! nat (gpio_cad gp))\<rparr>, l') \<and>
    ready l' \<and> same_arrays l l' \<and> lk_sent l' = lk_sent l @ gpio_verbs gp (lk_codecs l ! nat (gpio_cad gp))"
proof (cases "gpio_cad gp < 0")
  case True
  then show ?thesis using assms(1) by (simp add: audiofs_apply_gpio_policy_def gpio_verbs_def)
next
  case False
  let ?k = "nat (gpio_cad gp)" let ?n = "gpio_fg_nid gp" let ?m = "ucast (gpio_mask (gpio_num_lines gp))"
  let ?p = "policy_data (lk_codecs l ! ?k)"
  have k: "?k < 16" using False assms(2) by (auto simp: gpio_ok_def nat_less_iff)
  obtain l1 where 1: "tell ?k (verb12 ?n 0x716 ?m) l = Some l1" "ready l1" "same_arrays l l1"
    "lk_sent l1 = lk_sent l @ [cad_verb ?k (verb12 ?n 0x716 ?m)]" using ready_tell [OF assms(1) k] by blast
  obtain l2 where 2: "tell ?k (verb12 ?n 0x717 ?m) l1 = Some l2" "ready l2" "same_arrays l1 l2"
    "lk_sent l2 = lk_sent l1 @ [cad_verb ?k (verb12 ?n 0x717 ?m)]" using ready_tell [OF 1(2) k] by blast
  obtain l3 where 3: "tell ?k (verb12 ?n 0x715 0) l2 = Some l3" "ready l3" "same_arrays l2 l3"
    "lk_sent l3 = lk_sent l2 @ [cad_verb ?k (verb12 ?n 0x715 0)]" using ready_tell [OF 2(2) k] by blast
  obtain l4 where 4: "(if ?p \<noteq> 0 then tell ?k (verb12 ?n 0x715 (ucast ?p)) l3 else Some l3) = Some l4" "ready l4" "same_arrays l3 l4"
    "lk_sent l4 = lk_sent l3 @ (if ?p \<noteq> 0 then [cad_verb ?k (verb12 ?n 0x715 (ucast ?p))] else [])"
    using ready_tell [OF 3(2) k, of "verb12 ?n 0x715 (ucast ?p)"] 3(2) by (cases "?p = 0") auto
  obtain l5 where 5: "tell ?k (verb12 ?n 0xf15 0) l4 = Some l5" "ready l5" "same_arrays l4 l5"
    "lk_sent l5 = lk_sent l4 @ [cad_verb ?k (verb12 ?n 0xf15 0)]" using ready_tell [OF 4(2) k] by blast
  have "same_arrays l l5"
    using 1(3) 2(3) 3(3) 4(3) 5(3) same_arrays_trans by metis
  then show ?thesis using False 1(1,4) 2(1,4) 3(1,4) 4(1,4) 5(1,2,4)
    by (intro exI [of _ l5]) (simp add: audiofs_apply_gpio_policy_def gpio_verbs_def Let_def)
qed

section \<open>The whole preparation\<close>

definition is_due :: "(nat \<Rightarrow> audiofs_codec \<Rightarrow> u32 list) \<Rightarrow> hda_link \<Rightarrow> u32 list \<Rightarrow> bool" where
  "is_due due l vs \<longleftrightarrow> (\<forall>k<16. c_populated (lk_codecs l ! k) \<longrightarrow> set (due k (lk_codecs l ! k)) \<subseteq> set vs)"

lemma prepare_sends:
  assumes "ready l" "gpio_ok gp l"
  shows "\<exists>gp' l' inspect power pins amps formats. prepare_codecs (gp, l) = Some (gp', l') \<and> ready l' \<and> same_arrays l l' \<and>
    gpio_ok gp' l' \<and> lk_sent l' = lk_sent l @ inspect @ power @ gpio_verbs gp' (lk_codecs l ! nat (gpio_cad gp')) @ pins @ amps @ formats \<and>
    list_all is_get inspect \<and> list_all power_verb power \<and> is_due power_due l power \<and>
    list_all pin_verb pins \<and> is_due pin_due l pins \<and> list_all amp_verb amps \<and> is_due amp_due l amps \<and>
    list_all format_verb formats \<and> is_due format_due l formats"
proof -
  obtain gp1 l1 i where 1: "inspect_codecs [0..<16] (gp, l) = Some (gp1, l1)" "ready l1" "same_arrays l l1"
      "lk_sent l1 = lk_sent l @ i" "list_all is_get i" "gpio_ok gp1 l1"
    using inspect_all [OF assms(1) _ assms(2), of "[0..<16]"] by auto
  obtain l2 p where 2: "on_populated audiofs_power_up_codec_paths l1 = Some l2" "ready l2" "same_arrays l l2"
      "lk_sent l2 = lk_sent l1 @ p" "list_all power_verb p" "is_due power_due l p"
    using power.pass_from [OF assms(1) 1(3,2)] unfolding is_due_def by blast
  let ?c = "lk_codecs l2 ! nat (gpio_cad gp1)"
  let ?gp = "if gpio_cad gp1 < 0 then gp1 else gp1\<lparr>gpio_data := policy_data ?c\<rparr>"
  have g: "gpio_ok gp1 l" using 1(6) gpio_ok_iff [OF assms(1) 1(3)] by blast
  then have g2: "gpio_ok gp1 l2" using gpio_ok_iff [OF assms(1) 2(3)] by blast
  obtain l3 where 3: "audiofs_apply_gpio_policy (gp1, l2) = Some (?gp, l3)" "ready l3" "same_arrays l2 l3"
      "lk_sent l3 = lk_sent l2 @ gpio_verbs gp1 ?c"
    using gpio_policy [OF 2(2) g2] by blast
  have 33: "same_arrays l l3" by (rule same_arrays_trans [OF 2(3) 3(3)])
  obtain l4 e where 4: "on_populated audiofs_enable_outputs_for_codec l3 = Some l4" "ready l4" "same_arrays l l4"
      "lk_sent l4 = lk_sent l3 @ e" "list_all pin_verb e" "is_due pin_due l e"
    using enable.pass_from [OF assms(1) 33 3(2)] unfolding is_due_def by blast
  obtain l5 u where 5: "on_populated audiofs_unmute_output_paths_for_codec l4 = Some l5" "ready l5" "same_arrays l l5"
      "lk_sent l5 = lk_sent l4 @ u" "list_all amp_verb u" "is_due amp_due l u"
    using unmute.pass_from [OF assms(1) 4(3,2)] unfolding is_due_def by blast
  obtain l6 f where 6: "on_populated audiofs_set_dac_formats_for_codec l5 = Some l6" "ready l6" "same_arrays l l6"
      "lk_sent l6 = lk_sent l5 @ f" "list_all format_verb f" "is_due format_due l f"
    using converters.pass_from [OF assms(1) 5(3,2)] unfolding is_due_def by blast
  have c: "gpio_verbs gp1 ?c = gpio_verbs ?gp (lk_codecs l ! nat (gpio_cad ?gp))"
  proof (cases "gpio_cad gp1 < 0")
    case False
    then have "nat (gpio_cad gp1) < 16" using g2 by (auto simp: gpio_ok_def nat_less_iff)
    from same_walk_fields(3) [OF same_arrays_nth [OF 2(3) assms(1) this]] show ?thesis
      using False by (simp add: gpio_verbs_def policy_data_def)
  qed (simp add: gpio_verbs_def)
  have g6: "gpio_ok ?gp l6"
    using gpio_ok_iff [OF assms(1) 6(3), of gp1] g by (auto simp: gpio_ok_def)
  have "prepare_codecs (gp, l) = Some (?gp, l6)"
    unfolding prepare_codecs_def using 1(1) 2(1) 3(1) 4(1) 5(1) 6(1) by simp
  moreover have "lk_sent l6 = lk_sent l @ i @ p @ gpio_verbs ?gp (lk_codecs l ! nat (gpio_cad ?gp)) @ e @ u @ f"
    unfolding 6(4) 5(4) 4(4) 3(4) 2(4) 1(4) c by (simp only: append_assoc)
  ultimately show ?thesis
    by (intro exI [of _ ?gp] exI [of _ l6] exI [of _ i] exI [of _ p] exI [of _ e] exI [of _ u] exI [of _ f] conjI
        6(2,3) g6 1(5) 2(5,6) 4(5,6) 5(5,6) 6(5,6))
qed

end
