(* ===== verification/Audiofs_Attach.thy ===== *)
theory Audiofs_Attach
  imports Audiofs_Lifecycle Audiofs_Prepare
begin

text \<open>
  The whole of \<^verbatim>\<open>audiofs_attach\<close> and \<^verbatim>\<open>audiofs_detach\<close>: bus resources with their error
  paths, controller reset, interrupt setup, the bring-up, enumeration and preparation of the codecs, and the
  registration of the controller with the walked codecs. What the kernel and the hardware answer is the
  environment; what the controller holds of the kernel is a ledger.
\<close>

record controller_env =
  ae_bar :: bool
  ae_gcap :: u16
  ae_reset :: "nat \<Rightarrow> u32"
  ae_msi :: "errno \<times> nat"
  ae_irq :: bool
  ae_intr :: errno
  ae_corbsize :: byte
  ae_rirbsize :: byte
  ae_corb :: bus_answer
  ae_rirb :: bus_answer
  ae_corbctl :: byte
  ae_rirbctl :: byte
  ae_gctl :: u32
  ae_statests :: u16
  ae_hw :: "u32 list \<Rightarrow> nat \<Rightarrow> u16 \<times> rirb_entry list"
  ae_pci :: "u16 \<times> u16 \<times> u16 \<times> u16"
  ae_opens :: "bool \<times> bool \<times> bool"
  ae_cdev :: errno
  ae_allocs :: "u64 option \<times> u64 option"

record ledger =
  h_ring :: bool
  h_busmaster :: bool
  h_mem :: bool
  h_msi :: bool
  h_irq :: bool
  h_intr :: bool
  h_cdev :: bool
  h_corb :: audiofs_dma
  h_rirb :: audiofs_dma
  h_bus :: bus_held

definition nothing_held :: "bus_held \<Rightarrow> ledger" where
  "nothing_held bus = \<lparr>h_ring = False, h_busmaster = False, h_mem = False, h_msi = False, h_irq = False, h_intr = False,
     h_cdev = False, h_corb = no_dma, h_rirb = no_dma, h_bus = bus\<rparr>"

section \<open>Attach\<close>

text \<open>The error labels: each releases what is held from its point back.\<close>

definition fail_early :: "ledger \<Rightarrow> ledger" where
  "fail_early h = (if h_ring h then h\<lparr>h_ring := False\<rparr> else h)"

definition fail_mapped :: "ledger \<Rightarrow> ledger" where
  "fail_mapped h =
     (let h = (if h_intr h then h\<lparr>h_intr := False\<rparr> else h);
          h = (if h_irq h then h\<lparr>h_irq := False\<rparr> else h);
          h = (if h_msi h then h\<lparr>h_msi := False\<rparr> else h)
      in fail_early (h\<lparr>h_mem := False\<rparr>))"

text \<open>The stream counts and the 64-bit flag of the capability register.\<close>

definition gcap_streams :: "u16 \<Rightarrow> nat \<times> nat \<times> nat" where
  "gcap_streams gcap = (unat (drop_bit 8 gcap AND 0xf), unat (drop_bit 12 gcap AND 0xf), unat (drop_bit 3 gcap AND 0x1f))"

definition attach_link :: "controller_env \<Rightarrow> hda_link" where
  "attach_link env = \<lparr>lk_codecs = replicate 16 no_codec, lk_corb_size = 0, lk_rirb_size = 0, lk_corb_wp = 0, lk_rirb_rp = 0,
     lk_corb = [], lk_sent = [], lk_hw = ae_hw env, lk_reads = 0\<rparr>"

definition attach_codecs :: "controller_env \<Rightarrow> nat \<Rightarrow> ledger \<Rightarrow> audiofs_globals \<Rightarrow> (errno \<times> ledger \<times> audiofs_globals) option" where
  "attach_codecs env u h g =
     (let (e, ws, l, (cdma, rdma), bus) = link_bring_up (ae_corbsize env) (ae_rirbsize env) (ae_corb env) (ae_rirb env)
            (ae_corbctl env) (ae_rirbctl env) (ae_gctl env) (attach_link env) (h_bus h);
          h = h\<lparr>h_bus := bus\<rparr>
      in if e \<noteq> 0 then Some (e, fail_mapped h, g)
         else Option.bind (audiofs_enumerate_codecs (ae_statests env) l) (\<lambda>l.
              Option.bind (audiofs_walk_topology (no_gpio, l)) (\<lambda>(gp, l).
                Some (0, h\<lparr>h_corb := cdma, h_rirb := rdma, h_cdev := (ae_cdev env = 0)\<rparr>,
                      attach_stream u (attach_softc (gcap_streams (ae_gcap env)) (bit (ae_gcap env) 0) (ae_pci env) (lk_codecs l))
                        (ae_opens env) (ae_allocs env) g))))"

definition audiofs_attach :: "controller_env \<Rightarrow> nat \<Rightarrow> ledger \<Rightarrow> audiofs_globals \<Rightarrow> (errno \<times> ledger \<times> audiofs_globals) option" where
  "audiofs_attach env u h g =
     (let h = h\<lparr>h_ring := True, h_busmaster := True\<rparr> in
      if \<not> ae_bar env then Some (ENOMEM, fail_early h, g)
      else let h = h\<lparr>h_mem := True\<rparr>; (iss, oss, bss) = gcap_streams (ae_gcap env);
               e = fst (audiofs_reset iss oss bss (ae_reset env))
           in if e \<noteq> 0 then Some (e, fail_mapped h, g)
              else let h = h\<lparr>h_msi := (ae_msi env = (0, 1))\<rparr>
                   in if \<not> ae_irq env then Some (ENOMEM, fail_mapped (h\<lparr>h_msi := False\<rparr>), g)
                      else if ae_intr env \<noteq> 0 then Some (ae_intr env, fail_mapped (h\<lparr>h_irq := False, h_msi := False\<rparr>), g)
                      else attach_codecs env u (h\<lparr>h_irq := True, h_intr := True\<rparr>) g)"

section \<open>Detach\<close>

definition audiofs_detach :: "nat \<Rightarrow> u32 \<Rightarrow> ledger \<Rightarrow> audiofs_globals \<Rightarrow> ledger \<times> audiofs_globals" where
  "audiofs_detach u final_lpib h g =
     (let h = (if h_cdev h then h\<lparr>h_cdev := False\<rparr> else h);
          g = detach_end u final_lpib g;
          h = (if h_intr h then h\<lparr>h_intr := False\<rparr> else h);
          h = (if h_irq h then h\<lparr>h_irq := False\<rparr> else h);
          h = (if h_msi h then h\<lparr>h_msi := False\<rparr> else h);
          g = audiofs_state_unregister u g;
          (h, g) = (if h_mem h
             then let (rdma, bus) = audiofs_dma_free (h_rirb h) (h_bus h); (cdma, bus) = audiofs_dma_free (h_corb h) bus
                  in (h\<lparr>h_rirb := rdma, h_corb := cdma, h_bus := bus, h_mem := False\<rparr>, detach_dma u g)
             else (h, g));
          h = h\<lparr>h_busmaster := False\<rparr>
      in (if h_ring h then h\<lparr>h_ring := False\<rparr> else h, g))"

section \<open>All or nothing\<close>

lemma stream_begin_codecs:
  assumes "stream_ok (ag_softc g u)"
  shows "au_codecs (ag_softc (snd (audiofs_stream_begin u f c r allocs g)) u) = au_codecs (ag_softc g u)"
proof -
  obtain e g' where b: "audiofs_stream_begin u f c r allocs g = (e, g')" by (metis surj_pair)
  from stream_begin_softc [OF b assms] show ?thesis by (auto simp: b keeps_device_def)
qed

lemma attach_stream_codecs:
  assumes "stream_ok sc"
  shows "au_codecs (ag_softc (attach_stream u sc opens allocs g) u) = au_codecs sc"
  using assms stream_begin_codecs [of "audiofs_state_register u opens (upd_sc u (\<lambda>_. sc) g)" u]
  by (simp add: attach_stream_def Let_def)

lemma gcap_streams_bound: "fst (gcap_streams gcap) < 16"
  using unat_and_mask [of "drop_bit 8 gcap" 4] by (simp add: gcap_streams_def mask_eq_exp_minus_1)

text \<open>The environment of a working controller: the write pointer stays in the ring and no area is loaded at address 0.\<close>

definition env_ok :: "controller_env \<Rightarrow> bool" where
  "env_ok env \<longleftrightarrow> \<not> (load_error (ae_corb env) = 0 \<and> seg_addr (ae_corb env) = 0) \<and>
     \<not> (load_error (ae_rirb env) = 0 \<and> seg_addr (ae_rirb env) = 0) \<and>
     (\<forall>n vs k. ring_size_cap (ae_rirbsize env) = Some n \<longrightarrow> unat (fst (ae_hw env vs k) AND 0xff) < n)"

lemma bring_up_size:
  "link_bring_up cs rs ca ra cc rc g l held = (0, ws, l', d, h) \<Longrightarrow> ring_size_cap rs = Some (lk_rirb_size l')"
  by (auto simp: link_bring_up_def audiofs_pick_corb_rirb_sizes_def audiofs_corb_init_def audiofs_rirb_init_def
      Let_def split_beta split: if_splits option.splits)

lemma walk_topology_prepared:
  assumes "walk_ok l"
  shows "\<exists>l2 gp l3. audiofs_enumerate_codecs st l = Some l2 \<and> audiofs_walk_topology (no_gpio, l2) = Some (gp, l3) \<and>
    list_all codec_ok (lk_codecs l3)"
proof -
  obtain l2 l3 where 1: "audiofs_enumerate_codecs st l = Some l2" "walk_topology l2 = Some l3" "walk_ok l3"
    using walk_ok_topology [OF assms] by blast
  have "ready l3" "gpio_ok no_gpio l3" using 1(3) by (simp_all add: walk_ok_def gpio_ok_def no_gpio_def)
  from prepare_sends [OF this] obtain gp l4 where "prepare_codecs (no_gpio, l3) = Some (gp, l4)" "ready l4"
    by (elim exE conjE)
  then show ?thesis using 1 by (auto simp: audiofs_walk_topology_def ready_def)
qed

lemma attach_codecs_cases:
  assumes "env_ok env" "h_bus h = (t, m, n)"
  shows "(\<exists>e. e \<noteq> 0 \<and> attach_codecs env u h g = Some (e, fail_mapped h, g)) \<or>
    (\<exists>cdma rdma codecs. dma_live cdma \<and> dma_live rdma \<and> list_all codec_ok codecs \<and>
       attach_codecs env u h g = Some (0, h\<lparr>h_bus := (t + 2, m + 2, n + 2), h_corb := cdma, h_rirb := rdma, h_cdev := (ae_cdev env = 0)\<rparr>,
         attach_stream u (attach_softc (gcap_streams (ae_gcap env)) (bit (ae_gcap env) 0) (ae_pci env) codecs)
           (ae_opens env) (ae_allocs env) g))"
proof -
  obtain e ws l cdma rdma bus where b: "link_bring_up (ae_corbsize env) (ae_rirbsize env) (ae_corb env) (ae_rirb env)
      (ae_corbctl env) (ae_rirbctl env) (ae_gctl env) (attach_link env) (t, m, n) = (e, ws, l, (cdma, rdma), bus)"
    by (metis surj_pair)
  have c: "length (lk_codecs (attach_link env)) = 16" "\<forall>c\<in>set (lk_codecs (attach_link env)). c_pending c = 0"
    by (simp_all add: attach_link_def no_codec_def)
  note ok = link_bring_up_ok [OF b c]
  show ?thesis
  proof (cases "e = 0")
    case False
    then have "bus = h_bus h" using ok assms by (auto simp: env_ok_def)
    then have "h\<lparr>h_bus := bus\<rparr> = h" by simp
    then show ?thesis using False b assms(2) by (simp add: attach_codecs_def)
  next
    case True
    have l: "link_ok l" "lk_codecs l = lk_codecs (attach_link env)" "lk_hw l = ae_hw env" "bus = (t + 2, m + 2, n + 2)"
        "dma_live cdma" "dma_live rdma"
      using ok assms(1) True by (auto simp: env_ok_def attach_link_def)
    have "\<forall>vs k. unat (fst (lk_hw l vs k) AND 0xff) < lk_rirb_size l"
      using assms(1) bring_up_size [OF b [unfolded True]] l(3) by (simp add: env_ok_def)
    moreover have "list_all codec_ok (lk_codecs l)" "lk_sent l = []"
      using l(2) link_bring_up_sent [OF b] by (simp_all add: attach_link_def no_codec_def no_widget_def codec_ok_def list_all_iff)
    ultimately have "walk_ok l" using l(1) by (simp add: walk_ok_def ready_def pointers_ok_def)
    from walk_topology_prepared [OF this, of "ae_statests env"] obtain l2 gp l3 where
      "audiofs_enumerate_codecs (ae_statests env) l = Some l2" "audiofs_walk_topology (no_gpio, l2) = Some (gp, l3)"
      "list_all codec_ok (lk_codecs l3)" by blast
    then show ?thesis using True b assms(2) l(4-6)
      by (intro disjI2 exI [of _ cdma] exI [of _ rdma] exI [of _ "lk_codecs l3"]) (simp add: attach_codecs_def)
  qed
qed

lemma detach_releases:
  assumes "dma_live (h_corb h)" "dma_live (h_rirb h)" "h_bus h = (t + 2, m + 2, n + 2)" "h_mem h" "h_ring h"
  shows "fst (audiofs_detach u lpib h g) = nothing_held (t, m, n)"
    "snd (audiofs_detach u lpib h g) = detach_stream u lpib g"
  using assms
  by (cases h; simp add: audiofs_detach_def audiofs_dma_free_def dma_live_def nothing_held_def detach_stream_def Let_def)+

text \<open>A failed attach gives back everything but bus mastering; a successful one holds it all.\<close>

lemma attach_cases:
  assumes "env_ok env"
  shows "(\<exists>e. e \<noteq> 0 \<and> audiofs_attach env u (nothing_held (t, m, n)) g = Some (e, (nothing_held (t, m, n))\<lparr>h_busmaster := True\<rparr>, g)) \<or>
    (\<exists>h codecs. h_mem h \<and> h_ring h \<and> h_irq h \<and> h_intr h \<and> dma_live (h_corb h) \<and> dma_live (h_rirb h) \<and>
       h_bus h = (t + 2, m + 2, n + 2) \<and> list_all codec_ok codecs \<and>
       audiofs_attach env u (nothing_held (t, m, n)) g = Some (0, h,
         attach_stream u (attach_softc (gcap_streams (ae_gcap env)) (bit (ae_gcap env) 0) (ae_pci env) codecs)
           (ae_opens env) (ae_allocs env) g))"
proof -
  obtain iss oss bss where s: "gcap_streams (ae_gcap env) = (iss, oss, bss)" by (metis surj_pair)
  let ?h = "(nothing_held (t, m, n))\<lparr>h_ring := True, h_busmaster := True, h_mem := True, h_msi := (ae_msi env = (0, 1)),
    h_irq := True, h_intr := True\<rparr>"
  show ?thesis
  proof (cases "ae_bar env \<and> fst (audiofs_reset iss oss bss (ae_reset env)) = 0 \<and> ae_irq env \<and> ae_intr env = 0")
    case False
    then show ?thesis using s
      by (intro disjI1) (auto simp: audiofs_attach_def nothing_held_def fail_mapped_def fail_early_def Let_def)
  next
    case True
    then have a: "audiofs_attach env u (nothing_held (t, m, n)) g = attach_codecs env u ?h g"
      using s by (simp add: audiofs_attach_def Let_def)
    have b: "h_bus ?h = (t, m, n)" by (simp add: nothing_held_def)
    from attach_codecs_cases [OF assms b, of u g] show ?thesis
    proof (elim disjE exE conjE)
      fix e assume e: "e \<noteq> 0" "attach_codecs env u ?h g = Some (e, fail_mapped ?h, g)"
      have "fail_mapped ?h = (nothing_held (t, m, n))\<lparr>h_busmaster := True\<rparr>"
        by (simp add: fail_mapped_def fail_early_def nothing_held_def Let_def)
      then show ?thesis using e a by (intro disjI1 exI [of _ e]) simp
    next
      fix cdma rdma codecs
      assume c: "dma_live cdma" "dma_live rdma" "list_all codec_ok codecs"
        and e: "attach_codecs env u ?h g = Some (0, ?h\<lparr>h_bus := (t + 2, m + 2, n + 2), h_corb := cdma, h_rirb := rdma,
            h_cdev := (ae_cdev env = 0)\<rparr>,
          attach_stream u (attach_softc (gcap_streams (ae_gcap env)) (bit (ae_gcap env) 0) (ae_pci env) codecs)
            (ae_opens env) (ae_allocs env) g)"
      show ?thesis
        by (intro disjI2 exI [of _ codecs] exI [of _ "?h\<lparr>h_bus := (t + 2, m + 2, n + 2), h_corb := cdma, h_rirb := rdma,
            h_cdev := (ae_cdev env = 0)\<rparr>"] conjI c(3) trans [OF a e]) (use c in simp_all)
    qed
  qed
qed

end
