(* ===== verification/Audiofs_Properties.thy ===== *)
theory Audiofs_Properties
  imports Audiofs_Interrupt Audiofs_Format Audiofs_Region Audiofs_Attach
begin

text \<open>
  The properties of audiofs, each with a concrete instance where it has hypotheses. The
  proofs are in the component theories; here they are put together.
\<close>

section \<open>The user ring\<close>

text \<open>
  C24. One writer thread, in any interleaving of the passes of its calls with refills and
  signals: the bytes accepted are the bytes played followed by the bytes queued, the ring
  never holds more than its size nor part of a frame, every span of a copy under way lies inside
  the ring, a call that returns without a fault has put exactly the bytes it reports at the
  end of the accepted ones, and a writer asleep for space can go on after one refill.
\<close>

theorem user_ring_fifo:
  assumes "list_all single acts" "ring_acts acts ring_sys_init = Some s"
  shows "rs_in s = rs_out s @ queued (rs_ring s) \<and>
    ring_used (rs_ring s) \<le> AUDIOFS_USER_RING_BYTES \<and> 4 dvd ring_used (rs_ring s) \<and>
    (\<forall>nd u base want spans i n. rs_pc s 0 = WCopy nd u base want spans \<and> (i, n) \<in> set spans \<longrightarrow>
       i + n \<le> AUDIOFS_USER_RING_BYTES) \<and>
    (\<forall>e u. rs_pc s 0 = WDone e u \<and> e \<noteq> EFAULT \<longrightarrow> ends_with (rs_in s) (take (uio_off u) (uio_data u))) \<and>
    (\<forall>u s'. rs_pc s 0 = WLoop False u \<and> ring_act (Turn 0) s = None \<and> ring_act Refill s = Some s' \<longrightarrow>
       ring_act (Turn 0) s' \<noteq> None)"
proof -
  have ok: "sys_ok s" by (rule sys_ok_acts [OF sys_ok_init assms])
  then have r: "ring_ok (rs_ring s)" "rs_in s = rs_out s @ queued (rs_ring s)"
    and pc: "pc_ok (rs_ring s) (rs_in s) (rs_pc s 0)" by (auto simp: sys_ok_def)
  have "i + n \<le> 32768" if "rs_pc s 0 = WCopy nd u base want spans" "(i, n) \<in> set spans"
    for nd u base want spans i n
    using pc that copying_spans_inside [of "rs_ring s" u base want spans i n] by simp
  moreover have "ends_with (rs_in s) (take (uio_off u) (uio_data u))"
    if "rs_pc s 0 = WDone e u" "e \<noteq> EFAULT" for e u using pc that by simp
  ultimately show ?thesis
    using r ring_used_dvd [OF r(1)] refill_wakes_writer [OF ok] by (auto simp: ring_ok_def)
qed

lemmas ring_run_simps = ring_sys_init_def ring_init_def put_pc_def write_step_def write_plan_def
  uio_resid_def ring_space_def write_spans_def ring_index_def write_copy_def uiomove_def
  write_commit_def ring_used_def committed_bytes_def Let_def

theorem user_ring_fifo_witness:
  "\<exists>s. ring_acts [Call 0 True [9, 9, 9, 9, 7] 5, Turn 0, Turn 0, Turn 0, Turn 0, Refill] ring_sys_init = Some s \<and>
     rs_out s = [9, 9, 9, 9] \<and> rs_in s = rs_out s @ queued (rs_ring s) \<and>
     (\<exists>u. rs_pc s 0 = WDone 0 u \<and> ends_with (rs_in s) (take (uio_off u) (uio_data u)))"
proof -
  let ?as = "[Call 0 True [9, 9, 9, 9, 7] 5, Turn 0, Turn 0, Turn 0, Turn 0, Refill]"
  obtain s u where s: "ring_acts ?as ring_sys_init = Some s" "rs_out s = [9, 9, 9, 9]" "rs_pc s 0 = WDone 0 u"
    by (simp add: ring_run_simps ring_take_def blit_def)
  have "list_all single ?as" by simp
  from user_ring_fifo [OF this s(1)] s show ?thesis by (intro exI [of _ s]) auto
qed


text \<open>A format change between the plan and the commit of a copy makes flushed bytes play again.\<close>

lemma flush_during_copy:
  "\<exists>s. ring_acts [Call 0 True [9, 9, 9, 9] 4, Turn 0, Turn 0, Turn 0, Turn 0,
      Call 0 True [1, 1, 1, 1] 4, Turn 0, Flush, Turn 0, Turn 0, Refill] ring_sys_init = Some s \<and>
    rs_out s = [9, 9, 9, 9]"
  by (simp add: ring_run_simps ring_take_def ring_flush_def blit_def)

text \<open>
  A non-blocking write that runs alone takes as many whole frames as the ring has room
  for and the caller has bytes, appends exactly them to the queue, and answers
  \<^verbatim>\<open>EWOULDBLOCK\<close> exactly when a whole frame is left over; poll announces the device writable
  exactly when a write of a frame or more would take some.
\<close>

theorem nonblocking_write:
  assumes "ring_ok (au_ring (ag_softc g u))" "uio_off io = 0" "length (uio_data io) < 2 ^ 63"
    and "length (uio_data io) \<le> uio_readable io"
    and "n = min (length (uio_data io)) (AUDIOFS_USER_RING_BYTES - ring_used (au_ring (ag_softc g u))) div 4 * 4"
  shows "\<exists>io' g'. cdev_write u io g =
      Some (if 4 \<le> length (uio_data io) - n then EWOULDBLOCK else 0, io', g') \<and> uio_off io' = n \<and>
      queued (au_ring (ag_softc g' u)) = queued (au_ring (ag_softc g u)) @ take n (uio_data io) \<and>
      ring_ok (au_ring (ag_softc g' u)) \<and>
      (4 \<le> length (uio_data io) \<longrightarrow> (audiofs_cdev_poll 4 (ag_softc g u) \<noteq> 0 \<longleftrightarrow> 0 < n))"
proof -
  obtain r' io' where w: "audiofs_cdev_write (au_ring (ag_softc g u)) io =
      Some (r', WDone (if 4 \<le> length (uio_data io) - n then EWOULDBLOCK else 0) io')" "uio_off io' = n"
    "queued r' = queued (au_ring (ag_softc g u)) @ take n (uio_data io)" "ring_ok r'"
    using write_alone [OF assms] by blast
  have "audiofs_cdev_poll 4 (ag_softc g u) \<noteq> 0 \<longleftrightarrow> 4 \<le> 32768 - ring_used (au_ring (ag_softc g u))"
    using ring_space_used [OF assms(1)] by (simp add: audiofs_cdev_poll_def word_le_nat_alt)
  moreover have "0 < min a b div 4 * 4 \<longleftrightarrow> 4 \<le> b" if "4 \<le> a" for a b :: nat
    using that by (auto simp: min_def)
  ultimately show ?thesis using w assms(5) by (auto simp: cdev_write_def)
qed

theorem nonblocking_write_witness:
  "\<exists>io' g'. cdev_write 0 \<lparr>uio_data = [1, 2, 3, 4, 5], uio_off = 0, uio_readable = 5\<rparr> (audiofs_boot (\<lambda>_. True)) =
     Some (0, io', g') \<and> uio_off io' = 4 \<and> queued (au_ring (ag_softc g' 0)) = [1, 2, 3, 4]"
proof -
  let ?io = "\<lparr>uio_data = [1, 2, 3, 4, 5], uio_off = 0, uio_readable = 5\<rparr> :: uio"
  have b: "au_ring (ag_softc (audiofs_boot (\<lambda>_. True)) 0) = ring_init"
    by (simp add: audiofs_boot_def attach_softc_def)
  have "4 = min (length (uio_data ?io)) (32768 - ring_used (au_ring (ag_softc (audiofs_boot (\<lambda>_. True)) 0))) div 4 * 4"
    by (simp add: b)
  from nonblocking_write [OF _ _ _ _ this] show ?thesis by (simp add: b) blast
qed

section \<open>The interrupt path\<close>

text \<open>
  C26. A turn of the interrupt thread on a running user stream that finds a completed
  fragment returns exactly for the link positions inside the buffer. It then refills the
  fragments played since the last refill and no other, the \<open>j\<close>-th of them with the \<open>j\<close>-th 4096 bytes of the
  user ring padded with silence, takes exactly those bytes from the ring, and advances the
  frame count, the clock and its published copy by the distance the link position moved
  around the buffer.
\<close>

theorem intr_thread_refills:
  assumes "stream_ok (ag_softc g u)" "au_active (ag_softc g u)" "au_source (ag_softc g u) = SRC_USER"
    and "au_last_sdsts (ag_softc g u) AND SDSTS_BCIS \<noteq> 0"
    and "sc = ag_softc g u" "k = fragments_behind (unat lpib) sc"
    and "frames = (unat lpib + AUDIOFS_BUF_BYTES - unat (au_prev_lpib sc)) mod AUDIOFS_BUF_BYTES div 4"
  shows "if unat lpib < AUDIOFS_BUF_BYTES then (\<exists>sc' g'. audiofs_intr_thread u lpib g = Some g' \<and>
      ag_softc g' = (ag_softc g)(u := sc') \<and> au_next_refill sc' = int (unat lpib div AUDIOFS_BUF_FRAG_BYTES) \<and>
      queued (au_ring sc') = drop (AUDIOFS_BUF_FRAG_BYTES * k) (queued (au_ring sc)) \<and>
      (\<forall>j<AUDIOFS_BDL_ENTRIES. let off = (nat (au_next_refill sc) + j) mod AUDIOFS_BDL_ENTRIES * AUDIOFS_BUF_FRAG_BYTES
         in field off AUDIOFS_BUF_FRAG_BYTES (au_buf sc') =
              (if j < k then user_fragment (drop (AUDIOFS_BUF_FRAG_BYTES * j) (queued (au_ring sc)))
               else field off AUDIOFS_BUF_FRAG_BYTES (au_buf sc))) \<and>
      au_frames_played sc' = au_frames_played sc + of_nat frames \<and>
      au_clock_total sc' = au_clock_total sc + of_nat frames \<and> au_prev_lpib sc' = lpib \<and>
      (ag_clock_mapped g \<and> length (ag_clock g) = 20 \<longrightarrow> field 12 8 (ag_clock g') = put64 (au_clock_total sc')))
    else audiofs_intr_thread u lpib g = None"
proof (cases "unat lpib < 16384")
  case False
  then show ?thesis using intr_thread_stuck [OF assms(1,2,4)] by simp
next
  case True
  let ?p = "positioned lpib sc"
  define s where "s = (refill_one ^^ k) ?p"
  obtain sc' where t: "audiofs_intr_thread u lpib g = Some (upd_sc u (\<lambda>_. sc') (audiofs_clock_update sc' g))"
    and e: "au_buf sc' = au_buf s" "au_ring sc' = au_ring s" "au_next_refill sc' = au_next_refill s"
      "au_prev_lpib sc' = au_prev_lpib s" "au_frames_played sc' = au_frames_played s"
      "au_clock_total sc' = au_clock_total s"
    using intr_thread_bcis [OF assms(1,2,4) True] assms(5,6) s_def by blast
  have n: "0 \<le> au_next_refill sc" "au_next_refill sc < 4" "ring_ok (au_ring sc)" "length (au_buf sc) = 16384"
    "unat (au_prev_lpib sc) < 16384" using assms(1,2,5) by (auto simp: stream_ok_def running_ok_def)
  have ok: "cursor_ok ?p" using n(1,2) by (simp add: cursor_ok_def)
  have kb: "k = refill.distance (unat lpib div 4096) ?p"
    using assms(5,6) by (simp add: fragments_behind refill.distance_def)
  have c4: "unat lpib div 4096 < 4" using True by (simp add: less_mult_imp_div_less)
  have nx: "au_next_refill s = int (unat lpib div 4096)"
    using refill.loop_reaches [OF ok c4] refill.good_turns [OF ok, of k] unfolding s_def kb
    by (auto simp: cursor_ok_def)
  have k4: "k \<le> 4" using refill.distance_less [OF ok, of "unat lpib div 4096"] kb by simp
  note r = refill_user_steps [OF _ _ _ _ _ k4 s_def, of "nat (au_next_refill sc)", simplified, OF assms(3) [folded assms(5)]]
  have d: "lpib_delta (au_prev_lpib sc) lpib div 4 = of_nat frames"
    unfolding assms(7) lpib_delta_mod [OF n(5) True, symmetric] by simp
  have clk: "ag_clock_mapped g \<and> length (ag_clock g) = 20 \<longrightarrow>
      field 12 8 (ag_clock (audiofs_clock_update sc' g)) = put64 (au_clock_total sc')"
    by (simp add: audiofs_clock_update_def field_blit_same)
  show ?thesis
    using t nx r n d clk e unfolding if_P [OF True]
    by (intro exI [of _ sc'] exI [of _ "upd_sc u (\<lambda>_. sc') (audiofs_clock_update sc' g)"])
      (simp add: s_def refill_steps_frame Let_def)
qed

text \<open>A controller that plays the eight bytes of its ring.\<close>

definition playing_softc :: audiofs_softc where
  "playing_softc = (attach_softc (2, 1, 0) True (0, 0, 0, 0) [])
     \<lparr>au_regs := \<lparr>hr_intctl = 4, hr_sdctl = 0x1e, hr_cbl = 16384, hr_lvi = 3, hr_fmt = 0x0011, hr_bdpl = 0,
        hr_bdpu = 0, hr_conv_fmt = 0x0011, hr_conv_stream = 0x10\<rparr>,
      au_buf := replicate 16384 0, au_configured := True, au_stream_id := 1, au_format_word := 0x0011,
      au_rate_hz := 48000, au_active := True, au_last_sdsts := SDSTS_BCIS, au_source := SRC_USER,
      au_ring := \<lparr>ur_bytes = [1, 2, 3, 4, 5, 6, 7, 8] @ replicate 32760 0, ur_head = 8, ur_tail = 0\<rparr>\<rparr>"

definition playing :: audiofs_globals where
  "playing = (audiofs_boot (\<lambda>_. True))\<lparr>ag_softc := (\<lambda>_. playing_softc)\<rparr>"

lemma playing_ok: "stream_ok playing_softc" "queued (au_ring playing_softc) = [1, 2, 3, 4, 5, 6, 7, 8]"
  by (simp_all add: playing_softc_def attach_softc_def stream_ok_def running_ok_def ring_ok_def ring_used_def
      queued_def circ_def upt_rec audiofs_rate_to_format_word_def)

theorem intr_thread_refills_witness:
  "\<exists>g'. audiofs_intr_thread 0 4100 playing = Some g' \<and> au_next_refill (ag_softc g' 0) = 1 \<and>
     field 0 4096 (au_buf (ag_softc g' 0)) = [1, 2, 3, 4, 5, 6, 7, 8] @ replicate 4088 0 \<and>
     queued (au_ring (ag_softc g' 0)) = [] \<and> au_frames_played (ag_softc g' 0) = 1025 \<and>
     audiofs_intr_thread 0 16384 playing = None"
proof -
  have p: "ag_softc playing 0 = playing_softc" by (simp add: playing_def)
  have a: "au_active playing_softc" "au_source playing_softc = SRC_USER" "au_last_sdsts playing_softc AND 4 \<noteq> 0"
    "au_next_refill playing_softc = 0" "au_prev_lpib playing_softc = 0" "au_frames_played playing_softc = 0"
    by (simp_all add: playing_softc_def attach_softc_def)
  note t = intr_thread_refills [of playing 0, unfolded p, OF playing_ok(1) a(1,2,3) refl refl refl]
  have k: "fragments_behind 4100 playing_softc = 1" by (simp add: fragments_behind_def a)
  from t [of 4100] obtain sc' g' where g': "audiofs_intr_thread 0 4100 playing = Some g'"
      "ag_softc g' = (ag_softc playing)(0 := sc')" "au_next_refill sc' = 1" "queued (au_ring sc') = []"
      "au_frames_played sc' = 1025"
    and f: "\<forall>j<4. field (j * 4096) 4096 (au_buf sc') = (if j = 0
        then user_fragment (drop (4096 * j) (queued (au_ring playing_softc)))
        else field (j * 4096) 4096 (au_buf playing_softc))"
    by (auto simp: k a playing_ok(2) Let_def)
  have "field 0 4096 (au_buf sc') = [1, 2, 3, 4, 5, 6, 7, 8] @ replicate 4088 0"
    using spec [OF f, of 0] by (simp add: playing_ok(2) user_fragment_def)
  then show ?thesis using g' t [of 16384] by simp
qed

section \<open>The life of a stream\<close>


text \<open>A codec with one converter (node 2) and one speaker pin (node 3).\<close>

definition speaker_out :: audiofs_widget where
  "speaker_out = no_widget\<lparr>w_nid := 2, w_valid := True, w_type := TYPE_AUDIO_OUTPUT\<rparr>"

definition speaker_pin :: audiofs_widget where
  "speaker_pin = no_widget\<lparr>w_nid := 3, w_valid := True, w_type := TYPE_PIN_COMPLEX, w_pin_cfg := 0x90100110,
     w_nconns := 1, w_conns := [2]\<rparr>"

definition speaker_codec :: audiofs_codec where
  "speaker_codec = no_codec\<lparr>c_populated := True, c_fg_nid := 1, c_fg_supp_pcm_size_rate := 0x20070,
     c_widget_start := 2, c_widget_total := 2, c_widgets := [speaker_out, speaker_pin]\<rparr>"

lemma speaker_simps [simp]:
  "c_populated speaker_codec" "c_fg_nid speaker_codec = 1" "c_fg_supp_pcm_size_rate speaker_codec = 0x20070"
  "c_widget_start speaker_codec = 2" "c_widget_total speaker_codec = 2"
  "c_widgets speaker_codec = [speaker_out, speaker_pin]"
  "w_valid speaker_out" "w_nid speaker_out = 2" "w_type speaker_out = 0"
  "w_valid speaker_pin" "w_nid speaker_pin = 3" "w_type speaker_pin = 4" "w_pin_cfg speaker_pin = 0x90100110"
  "w_nconns speaker_pin = 1" "w_conns speaker_pin = [2]"
  by (simp_all add: speaker_codec_def speaker_out_def speaker_pin_def no_widget_def)

lemma speaker_path [simp]: "audiofs_path_from_pin speaker_codec 3 = (2, [3, 2])"
proof -
  have "graph_path speaker_codec [3, 2]" by (simp add: widget_at_def)
  from path_walk_complete [OF this, of 8] show ?thesis by (simp add: audiofs_path_from_pin_def)
qed

lemma speaker_dac [simp]: "select_dac [speaker_codec] = Some (0, 2)"
  by (simp add: select_dac_def consider_codec_def consider_pin_def output_candidate_def defaultconf_device_def
      defaultconf_connectivity_def devkind_priority_def)




text \<open>
  C29. A valid change of rate on a running stream empties the ring and leaves the stream in one of three
  ways. When the DMA memory for the new format is there, it runs in the new format and the call
  returns 0. When it is not but that of the second attempt is, it runs in the old format and the call
  returns the error. When neither is, no stream runs while the device stays open and the
  old format is reported; asking for that format again then returns 0 without starting a stream.
\<close>

theorem set_format_outcomes:
  assumes "au_active (ag_softc g u)" "bound_dac (ag_softc g u)"
    and "af_bits f = 16" "af_channels f = 2" "af_rate_hz f \<noteq> au_rate_hz (ag_softc g u)"
    and "audiofs_psr_has_rate (audiofs_output_dac_psr (ag_softc g u)) (af_rate_hz f)"
    and "audiofs_psr_has_rate (audiofs_output_dac_psr (ag_softc g u)) (au_rate_hz (ag_softc g u))"
    and "audiofs_rate_to_format_word (au_rate_hz (ag_softc g u)) = Some (au_format_word (ag_softc g u))"
  shows "\<exists>sc' g'. ioctl_set_format u f lpib allocs retry g = (alloc_error allocs, g') \<and>
    ag_softc g' = (ag_softc g)(u := sc') \<and> ring_used (au_ring sc') = 0 \<and>
    au_cdev_open sc' = au_cdev_open (ag_softc g u) \<and>
    au_active sc' = (alloc_error allocs = 0 \<or> alloc_error retry = 0) \<and>
    au_rate_hz sc' = (if alloc_error allocs = 0 then af_rate_hz f else au_rate_hz (ag_softc g u)) \<and>
    audiofs_rate_to_format_word (au_rate_hz sc') = Some (au_format_word sc') \<and>
    (\<not> au_active sc' \<longrightarrow>
       ioctl_set_format u (f\<lparr>af_rate_hz := au_rate_hz sc'\<rparr>) lpib' allocs' retry' g' = (0, g'))"
proof -
  from set_format_outcome [OF assms, of lpib allocs retry] obtain sc' g' where
    s: "ioctl_set_format u f lpib allocs retry g = (alloc_error allocs, g')" "ag_softc g' = (ag_softc g)(u := sc')"
      "au_ring sc' = ring_flush (au_ring (ag_softc g u))" "au_cdev_open sc' = au_cdev_open (ag_softc g u)"
      "audiofs_output_dac_psr sc' = audiofs_output_dac_psr (ag_softc g u)"
      "au_active sc' = (alloc_error allocs = 0 \<or> alloc_error retry = 0)"
      "au_rate_hz sc' = (if alloc_error allocs = 0 then af_rate_hz f else au_rate_hz (ag_softc g u))"
      "audiofs_rate_to_format_word (au_rate_hz sc') = Some (au_format_word sc')" by (elim exE conjE)
  have "ioctl_set_format u (f\<lparr>af_rate_hz := au_rate_hz sc'\<rparr>) lpib' allocs' retry' g' = (0, g')" if "\<not> au_active sc'"
    using that s assms(3,4,7,8) by (simp add: ioctl_set_format_def Let_def)
  moreover have "ring_used (ring_flush r) = 0" for r by (simp add: ring_used_def ring_flush_def)
  ultimately show ?thesis using s by (intro exI [of _ sc'] exI [of _ g']) simp
qed

text \<open>A controller that plays at 48 kHz through the speaker.\<close>

definition speaking :: audiofs_globals where
  "speaking = (audiofs_boot (\<lambda>_. True))\<lparr>ag_softc := (\<lambda>_. playing_softc
     \<lparr>au_codecs := [speaker_codec], au_dac_nid := 2, au_cdev_open := True\<rparr>)\<rparr>"

theorem set_format_outcomes_witness:
  "\<exists>g'. ioctl_set_format 0 \<lparr>af_rate_hz = 44100, af_format_word = 0, af_bits = 16, af_channels = 2,
       af_supported_rates = 0\<rparr> 0 (None, None) (Some 3, None) speaking = (ENOMEM, g') \<and>
     \<not> au_active (ag_softc g' 0) \<and> au_cdev_open (ag_softc g' 0) \<and> au_rate_hz (ag_softc g' 0) = 48000 \<and>
     ioctl_set_format 0 \<lparr>af_rate_hz = 48000, af_format_word = 0, af_bits = 16, af_channels = 2,
       af_supported_rates = 0\<rparr> 0 (Some 5, Some 6) (Some 7, Some 8) g' = (0, g')"
proof -
  let ?f = "\<lparr>af_rate_hz = 44100, af_format_word = 0, af_bits = 16, af_channels = 2, af_supported_rates = 0\<rparr>"
  have "au_active (ag_softc speaking 0)" "bound_dac (ag_softc speaking 0)" "au_cdev_open (ag_softc speaking 0)"
    "au_rate_hz (ag_softc speaking 0) = 48000" "au_format_word (ag_softc speaking 0) = 0x0011"
    "audiofs_output_dac_psr (ag_softc speaking 0) = 0x20070"
    by (simp_all add: speaking_def playing_softc_def attach_softc_def bound_dac_def audiofs_output_dac_psr_def)
  then show ?thesis
    using set_format_outcomes [of speaking 0 ?f 0 "(None, None)" "(Some 3, None)" 0 "(Some 5, Some 6)" "(Some 7, Some 8)"]
    by (auto simp: audiofs_psr_has_rate_def audiofs_rate_to_format_word_def alloc_error_def)
qed

section \<open>The converter\<close>

text \<open>
  C30. The nested search for the output converter selects the first candidate pin of the
  highest priority, in codec and node order; the walk from a pin finds a converter exactly when
  following the first connection of each node leads to one within eight nodes, and then reports that path.
\<close>

theorem output_dac_first_best:
  "select_dac codecs =
     (case [x \<leftarrow> candidates codecs. \<forall>y\<in>set (candidates codecs). fst y \<le> fst x] of
        [] \<Rightarrow> None | x # _ \<Rightarrow> Some (snd x)) \<and>
   (dac \<noteq> 0 \<longrightarrow> (audiofs_path_from_pin c pin = (dac, p) \<longleftrightarrow>
      graph_path c p \<and> hd p = pin \<and> last p = dac \<and> length p \<le> AUDIOFS_PATH_MAX_DEPTH))"
proof -
  have "graph_path c p \<and> hd p = pin \<and> last p = dac \<and> length p \<le> 8"
    if "audiofs_path_from_pin c pin = (dac, p)" "dac \<noteq> 0"
    using path_walk_sound [of c 8 pin dac p] path_walk_length [of c 8 pin] that
    by (simp add: audiofs_path_from_pin_def)
  moreover have "audiofs_path_from_pin c pin = (dac, p)"
    if "graph_path c p" "hd p = pin" "last p = dac" "length p \<le> 8"
    using path_walk_complete [OF that(1,4)] that by (simp add: audiofs_path_from_pin_def)
  ultimately show ?thesis using select_dac_spec by blast
qed

theorem output_dac_first_best_witness:
  "select_dac [speaker_codec] = Some (snd (hd (candidates [speaker_codec]))) \<and>
   graph_path speaker_codec [3, 2] \<and> select_dac [speaker_codec] = Some (0, 2)"
proof -
  have c: "candidates [speaker_codec] = [(10, 0, 2)]"
    by (simp add: candidates_def List.map_filter_simps output_candidate_def defaultconf_device_def
        defaultconf_connectivity_def devkind_priority_def)
  show ?thesis
    using output_dac_first_best [of "[speaker_codec]" 2 speaker_codec 3 "[3, 2]"] by (simp add: c)
qed

section \<open>Published files\<close>

text \<open>
  C31. A consumer of the audiofs ring that has read every event and polls again before more than 256
  others are published receives exactly those others, in order; numbers outside the window
  read as absent. When the files are open and their writes succeed, the events file then equals the ring and the
  state file is valid and names its last event.
\<close>

theorem audio_events_catch_up:
  assumes "audio_ring_ok g h" "length h + length as < 2 ^ 64" "length as \<le> AUDIOFS_EVENTS_SLOT_COUNT"
    and "publishing g" "as \<noteq> []" "g' = fold publish_event as g"
  shows "audio_ring.catch_up g' (length h) = audio_ring.recorded_all as g \<and>
    (\<forall>s>0. read_audio_event g' s \<noteq> None \<longleftrightarrow>
       unat (eh_earliest_seq (ring_header g')) \<le> s \<and> s \<le> length h + length as) \<and>
    (\<exists>b r. ag_events_buf g' = Some b \<and> ag_events_file g' = Some b \<and> ag_state_file g' = Some r \<and>
       region_ok r \<and> sh_last_event_seq (sr_header r) = eh_writer_seq (er_header b) \<and>
       unat (eh_writer_seq (er_header b)) = length h + length as)"
proof -
  have ok: "audio_ring_ok g' (h @ audio_ring.recorded_all as g)"
    using audio_ring.ok_publish_all [OF assms(1,2)] assms(6) by simp
  have w: "unat (eh_writer_seq (ring_header g')) = length h + length as"
    using audio_ring.ok_wseq [OF ok] by simp
  obtain bs a where as: "as = bs @ [a]" using assms(5) by (cases as rule: rev_cases) auto
  let ?g = "fold publish_event bs g"
  have "audio_ring_ok ?g (h @ audio_ring.recorded_all bs g)"
    using audio_ring.ok_publish_all [OF assms(1), of bs] assms(2) as by simp
  then obtain b0 where b0: "ag_events_buf ?g = Some b0" by (auto simp: audio_ring_ok_def split: option.splits)
  have g': "g' = publish_event a ?g" using assms(6) as by simp
  have p: "publishing ?g" using assms(4) by simp
  obtain r where r: "ag_state_file g' = Some r" "region_ok r" "sh_last_event_seq (sr_header r) = ag_writer_seq ?g + 1"
    using publish_files(1) [OF p b0] unfolding g' by blast
  obtain b where b: "ag_events_buf g' = Some b" "eh_writer_seq (er_header b) = ag_writer_seq ?g + 1"
    using publish_event_buf(1) [OF b0, of a] unfolding g' by simp
  have "ag_events_file g' = Some b" using publish_files(2) [OF p b0, of a] b(1) g' by simp
  moreover have "unat (eh_writer_seq (er_header b)) = length h + length as"
    using w b(1) by (simp add: ring_header_def)
  ultimately show ?thesis
    using audio_ring.catch_up_complete [OF assms(1-3)] audio_ring.read_iff [OF ok] w r b assms(6) by auto
qed

text \<open>The module with one controller and both files open.\<close>

definition module_up :: audiofs_globals where
  "module_up = (audiofs_boot (\<lambda>_. True))
     \<lparr>ag_softc := (\<lambda>_. attach_softc (2, 1, 0) True (0x8086, 0x1234, 0, 0) [speaker_codec]), ag_registry := [0],
      ag_initialized := True, ag_state_open := True, ag_inventory_seq := 1,
      ag_events_buf := Some empty_events, ag_events_open := True\<rparr>"

lemma module_up: "publishing module_up" "audio_ring_ok module_up []" "ag_initialized module_up"
    "ag_state_open module_up" "io_ok module_up"
  by (simp_all add: module_up_def publishing_def io_ok_def audiofs_boot_def audio_ring_ok_def empty_events_def
      zero_slot_def)

theorem audio_events_catch_up_witness:
  "audio_ring.catch_up (publish_event (1, 1, 0, 0, []) module_up) 0 = [event_of (1, 1, 0, 0, []) module_up] \<and>
   (\<exists>r. ag_state_file (publish_event (1, 1, 0, 0, []) module_up) = Some r \<and> region_ok r \<and>
      unat (sh_last_event_seq (sr_header r)) = 1)"
  using audio_events_catch_up [OF module_up(2) _ _ module_up(1), of "[(1, 1, 0, 0, [])]"]
  by (auto simp: audio_ring.recorded_all.simps)

text \<open>
  C32. A rewrite of the state file whose first write fails leaves the file alone; one whose second
  write fails leaves an odd lock value and a region marked invalid; otherwise the file holds a
  well-formed region: eight controller and 32 endpoint slots, counts within them, controllers
  numbered from one in registration order, endpoints that are outputs of a listed controller with a converter and
  consecutive ids, zeroes in the unused slots, an even lock value and the number of the last event.
\<close>

theorem state_region_wellformed:
  assumes "ag_initialized g" "ag_state_open g" "k = ag_io_count g" "g' = audiofs_state_republish g"
  shows "(\<not> ag_io g k \<longrightarrow> ag_state_file g' = ag_state_file g) \<and>
    (ag_io g k \<and> \<not> ag_io g (k + 1) \<longrightarrow> (\<exists>r. ag_state_file g' = Some r \<and>
       odd (unat (sh_seqlock (sr_header r))) \<and> sh_state_valid (sr_header r) = 0)) \<and>
    (ag_io g k \<and> ag_io g (k + 1) \<longrightarrow> (\<exists>r. ag_state_file g' = Some r \<and> region_ok r \<and>
       unat (sh_controller_count (sr_header r)) = min 8 (length (ag_registry g)) \<and>
       sh_last_event_seq (sr_header r) = ag_writer_seq g))"
proof -
  have "unat (sh_controller_count (sr_header (published g))) = min 8 (length (ag_registry g))"
    by (simp add: published_def build_region_parts live_controllers_def unat_of_nat Let_def min_def)
  then show ?thesis
    using republish_file(1) [OF assms(1,2)] region_ok_published [of g] odd_lock [of "ag_inventory_seq g"] assms(3,4)
    by (simp add: build_region_parts empty_header_def Let_def)
qed

theorem state_region_wellformed_witness:
  "\<exists>r. ag_state_file (audiofs_state_republish module_up) = Some r \<and> region_ok r \<and>
     unat (sh_controller_count (sr_header r)) = 1"
  using state_region_wellformed [OF module_up(3,4) refl refl] module_up(5)
  by (auto simp: io_ok_def module_up_def)

text \<open>
  C33. Two successive rewrites of the state file, with nothing changed in between, publish the same
  endpoints under different ids: every id grows by the number of endpoints, while the lock value and the inventory
  number stay as they were.
\<close>

theorem endpoint_ids_change:
  assumes "ag_initialized g" "ag_state_open g" "io_ok g"
    and "g1 = audiofs_state_republish g" "g2 = audiofs_state_republish g1"
  shows "\<exists>r1 r2. ag_state_file g1 = Some r1 \<and> ag_state_file g2 = Some r2 \<and>
    sh_seqlock (sr_header r2) = sh_seqlock (sr_header r1) \<and>
    sh_inventory_seq (sr_header r2) = sh_inventory_seq (sr_header r1) \<and>
    sh_endpoint_count (sr_header r2) = sh_endpoint_count (sr_header r1) \<and>
    (\<forall>i<unat (sh_endpoint_count (sr_header r1)).
       unnumbered (sr_endpoints r2 ! i) = unnumbered (sr_endpoints r1 ! i) \<and>
       se_endpoint_id (sr_endpoints r2 ! i) =
         se_endpoint_id (sr_endpoints r1 ! i) + ucast (sh_endpoint_count (sr_header r1)))"
proof -
  have g1: "ag_initialized g1" "ag_state_open g1" "io_ok g1" using assms by (simp_all add: io_ok_def)
  have m: "map unnumbered (live_endpoints g1) = map unnumbered (live_endpoints g)"
    by (rule renumbered) (simp_all add: assms(4))
  then have l: "length (live_endpoints g1) = length (live_endpoints g)" by (rule map_eq_imp_length_eq)
  have e: "length (live_endpoints g) \<le> 32" using live_enumerated [of g] by simp
  then have n: "unat (of_nat (length (live_endpoints g)) :: byte) = length (live_endpoints g)"
    by (simp add: unat_of_nat)
  have u: "ucast (of_nat (length (live_endpoints g)) :: byte) = (of_nat (length (live_endpoints g)) :: u32)"
    by (metis n of_nat_unat)
  have id1: "se_endpoint_id (live_endpoints g ! i) = ag_next_endpoint_id g + of_nat i"
    "se_endpoint_id (live_endpoints g1 ! i) = ag_next_endpoint_id g1 + of_nat i"
    if "i < length (live_endpoints g)" for i
    using that live_enumerated [of g] live_enumerated [of g1] l by simp_all
  have nx: "ag_next_endpoint_id g1 = ag_next_endpoint_id g + of_nat (length (live_endpoints g))"
    using republish_file(2) [OF assms(1,2)] by (simp add: assms(4))
  have un: "unnumbered (live_endpoints g1 ! i) = unnumbered (live_endpoints g ! i)"
    if "i < length (live_endpoints g)" for i using m l that by (metis nth_map)
  have "ag_inventory_seq g1 = ag_inventory_seq g" by (simp add: assms(4))
  moreover have "ag_state_file g1 = Some (published g)" "ag_state_file g2 = Some (published g1)"
    unfolding assms(4) assms(5) by (rule republish_ok [OF assms(1-3)], rule republish_ok [OF g1, unfolded assms(4)])
  ultimately show ?thesis using id1 un by (simp add: l n u nx nth_append)
qed

theorem endpoint_ids_change_witness:
  "\<exists>r1 r2. ag_state_file (audiofs_state_republish module_up) = Some r1 \<and>
     ag_state_file (audiofs_state_republish (audiofs_state_republish module_up)) = Some r2 \<and>
     sh_seqlock (sr_header r2) = sh_seqlock (sr_header r1) \<and>
     se_endpoint_id (sr_endpoints r2 ! 0) = se_endpoint_id (sr_endpoints r1 ! 0) + 1"
proof -
  have l: "length (live_endpoints module_up) = 1"
    by (simp add: live_endpoints_def live_controllers_def module_up_def attach_softc_def add_controller_def
        add_codec_def add_widget_def audiofs_state_fill_output_endpoint_def)
  show ?thesis
    using endpoint_ids_change [OF module_up(3-5) refl refl] republish_ok [OF module_up(3-5)] by (auto simp: l)
qed

section \<open>Attach and detach\<close>






end
