(* ===== verification/Audiofs_Log.thy ===== *)
theory Audiofs_Log
  imports Awase_Prelude
begin

text \<open>
  The diagnostic event log of audiofs (\<^verbatim>\<open>audiofs_log\<close> and \<^verbatim>\<open>audiofs_sysctl_eventlog\<close> in
  \<^verbatim>\<open>src/audiofs/sys/dev/audiofs/audiofs.c\<close>): a ring of 256 entries with a 64-bit sequence
  number, printed by a loop whose counter is a C int. An access outside the ring and an overflow of
  the counter are \<open>None\<close>.
\<close>

record audiofs_event =
  le_seq :: u64
  le_ts_ns :: u64
  le_kind :: string
  le_arg :: u64

record event_log =
  evlog :: "audiofs_event list"
  evseq :: u64

abbreviation (input) AUDIOFS_EVENTLOG_SLOTS :: u64 where "AUDIOFS_EVENTLOG_SLOTS \<equiv> 256"

definition empty_log :: event_log where
  "empty_log = \<lparr>evlog = replicate 256 \<lparr>le_seq = 0, le_ts_ns = 0, le_kind = [], le_arg = 0\<rparr>, evseq = 0\<rparr>"

definition audiofs_log :: "u64 \<Rightarrow> string \<Rightarrow> u64 \<Rightarrow> event_log \<Rightarrow> event_log" where
  "audiofs_log ts kind arg e =
     e\<lparr>evlog := (evlog e)[unat (evseq e mod AUDIOFS_EVENTLOG_SLOTS) :=
          \<lparr>le_seq = evseq e, le_ts_ns = ts, le_kind = kind, le_arg = arg\<rparr>],
       evseq := evseq e + 1\<rparr>"

text \<open>The printing loop from \<open>i\<close> on; the comparison converts \<open>i\<close> to 64 bits.\<close>

function print_from :: "event_log \<Rightarrow> int \<Rightarrow> audiofs_event list option" where
  "print_from e i =
     (if \<not> word_of_int i < evseq e then Some []
      else if i < 0 \<or> 2 ^ 31 - 1 \<le> i then None
      else map_option (Cons (evlog e ! nat (i mod 256))) (print_from e (i + 1)))"
  by pat_completeness auto
termination by (relation "measure (\<lambda>(e, i). nat (2 ^ 31 - i))") auto

declare print_from.simps [simp del]

definition audiofs_sysctl_eventlog :: "event_log \<Rightarrow> audiofs_event list option" where
  "audiofs_sysctl_eventlog e =
     (let start = (if AUDIOFS_EVENTLOG_SLOTS < evseq e then evseq e - AUDIOFS_EVENTLOG_SLOTS else 0)
      in print_from e (sint (ucast start :: u32)))"

section \<open>The ring holds the last 256 entries\<close>

type_synonym log_call = "u64 \<times> string \<times> u64"

definition logged :: "log_call list \<Rightarrow> event_log" where
  "logged cs = fold (\<lambda>(ts, kind, arg). audiofs_log ts kind arg) cs empty_log"

definition entry :: "log_call list \<Rightarrow> nat \<Rightarrow> audiofs_event" where
  "entry cs i = (let (ts, kind, arg) = cs ! i in \<lparr>le_seq = of_nat i, le_ts_ns = ts, le_kind = kind, le_arg = arg\<rparr>)"

lemma logged_snoc: "logged (cs @ [(ts, kind, arg)]) = audiofs_log ts kind arg (logged cs)"
  by (simp add: logged_def)

lemma logged_holds:
  "length cs < 2 ^ 64 \<Longrightarrow> unat (evseq (logged cs)) = length cs \<and> length (evlog (logged cs)) = 256 \<and>
     (\<forall>i<length cs. length cs \<le> i + 256 \<longrightarrow> evlog (logged cs) ! (i mod 256) = entry cs i)"
proof (induction cs rule: rev_induct)
  case Nil
  then show ?case by (simp add: logged_def empty_log_def)
next
  case (snoc c cs)
  obtain ts kind arg where c: "c = (ts, kind, arg)" by (cases c)
  let ?e = "logged cs" let ?n = "length cs"
  have IH: "unat (evseq ?e) = ?n" "length (evlog ?e) = 256"
    "\<And>i. i < ?n \<Longrightarrow> ?n \<le> i + 256 \<Longrightarrow> evlog ?e ! (i mod 256) = entry cs i"
    using snoc by auto
  have n: "unat (evseq ?e + 1) = ?n + 1"
    using snoc.prems IH(1) unat_add_no_wrap [of "evseq ?e" 1] by simp
  have q: "evseq ?e = of_nat ?n" by (simp flip: IH(1))
  have m: "unat (evseq ?e mod 256) = ?n mod 256" using IH(1) by (simp add: unat_mod)
  have l: "evlog (logged (cs @ [c])) = (evlog ?e)[?n mod 256 := entry (cs @ [c]) ?n]"
    using c m by (simp add: logged_snoc audiofs_log_def entry_def q)
  have "evlog (logged (cs @ [c])) ! (i mod 256) = entry (cs @ [c]) i" if i: "i < ?n + 1" "?n + 1 \<le> i + 256" for i
  proof (cases "i = ?n")
    case True
    then show ?thesis using l IH(2) by simp
  next
    case False
    have "?n mod 256 \<noteq> i mod 256"
    proof
      assume "?n mod 256 = i mod 256"
      then have "256 dvd ?n - i" using mod_eq_dvd_iff_nat [of i ?n 256] i by simp
      then show False using i False by (auto dest!: dvd_imp_le)
    qed
    moreover have "entry (cs @ [c]) i = entry cs i" using i False by (simp add: entry_def nth_append)
    ultimately show ?thesis using l IH(3) [of i] i False by simp
  qed
  then show ?case using n IH(2) l c by (simp add: logged_snoc audiofs_log_def)
qed

lemma print_from_entries:
  assumes "length cs < 2 ^ 31" "i \<le> length cs" "length cs \<le> i + 256"
  shows "print_from (logged cs) (int i) = Some (map (entry cs) [i..<length cs])"
  using assms(2,3)
proof (induction "length cs - i" arbitrary: i)
  case 0
  have e: "unat (evseq (logged cs)) = length cs" using logged_holds [of cs] assms(1) by simp
  have "unat (of_nat i :: u64) = i" using 0 assms(1) by (intro unat_of_nat_small) simp
  then have "\<not> (word_of_int (int i) :: u64) < evseq (logged cs)" using 0 e by (simp add: word_less_nat_alt)
  then show ?case using 0 by (subst print_from.simps) simp
next
  case (Suc d)
  have e: "unat (evseq (logged cs)) = length cs" using logged_holds [of cs] assms(1) by simp
  have "unat (of_nat i :: u64) = i" using Suc assms(1) by (intro unat_of_nat_small) simp
  then have lt: "(word_of_int (int i) :: u64) < evseq (logged cs)" using Suc.hyps(2) e by (simp add: word_less_nat_alt)
  have ev: "evlog (logged cs) ! nat (int i mod 256) = entry cs i"
    using logged_holds [of cs] assms(1) Suc.hyps(2) Suc.prems by (simp add: nat_mod_distrib)
  have "print_from (logged cs) (int (i + 1)) = Some (map (entry cs) [i + 1..<length cs])"
    using Suc.hyps(1) [of "i + 1"] Suc.hyps(2) Suc.prems by simp
  moreover have "\<not> (int i < 0 \<or> 2 ^ 31 - 1 \<le> int i)" using Suc.hyps(2) assms(1) by simp
  moreover have "[i..<length cs] = i # [i + 1..<length cs]" using Suc.hyps(2) by (simp add: upt_rec)
  ultimately show ?case using lt ev by (subst print_from.simps) (simp add: algebra_simps)
qed

text \<open>The start of the loop as the C code computes it.\<close>

lemma eventlog_start:
  assumes "unat (evseq e) = n"
  shows "audiofs_sysctl_eventlog e = print_from e (sint (of_nat (n - 256) :: u32))"
proof -
  have "(if 256 < evseq e then evseq e - 256 else 0) = of_nat (n - 256)"
  proof (cases "256 < evseq e")
    case True
    then have "unat (evseq e - 256) = n - 256" using assms unat_sub [of 256 "evseq e"] by simp
    then have "evseq e - 256 = of_nat (n - 256)" by (simp flip: \<open>unat (evseq e - 256) = n - 256\<close>)
    then show ?thesis using True by simp
  next
    case False
    then show ?thesis using assms by (simp add: word_less_nat_alt)
  qed
  moreover have "n < 2 ^ 64" using assms unsigned_less [of "evseq e", where ?'a = nat] by simp
  then have "(ucast (of_nat (n - 256) :: u64) :: u32) = of_nat (n - 256)"
    by (simp add: unsigned_of_nat take_bit_nat_eq_self)
  ultimately show ?thesis by (simp add: audiofs_sysctl_eventlog_def Let_def)
qed

lemma sint_small: "m < 2 ^ 31 \<Longrightarrow> sint (of_nat m :: u32) = int m"
  by (simp add: sint_uint unsigned_of_nat take_bit_nat_eq_self signed_take_bit_int_eq_self)

lemma sint_large:
  assumes "2 ^ 31 \<le> m" "m < 2 ^ 32"
  shows "sint (of_nat m :: u32) = int m - 2 ^ 32"
proof -
  have "(int m + 2 ^ 31 - 2 ^ 32) mod 2 ^ 32 = int m + 2 ^ 31 - 2 ^ 32"
    using assms by (intro mod_pos_pos_trivial) simp_all
  then have "(int m + 2 ^ 31) mod 2 ^ 32 = int m + 2 ^ 31 - 2 ^ 32" by (metis minus_mod_self2)
  then have "take_bit (Suc 31) (int m + 2 ^ 31) = int m + 2 ^ 31 - 2 ^ 32" by (simp add: take_bit_eq_mod)
  then have "signed_take_bit 31 (int m) = int m - 2 ^ 32"
    using signed_take_bit_eq_take_bit_shift [of 31 "int m"] by simp
  then show ?thesis using assms(2) by (simp add: sint_uint unsigned_of_nat take_bit_nat_eq_self)
qed

lemma eventlog_last:
  assumes "length cs < 2 ^ 31"
  shows "audiofs_sysctl_eventlog (logged cs) = Some (map (entry cs) [length cs - 256..<length cs])"
proof -
  have "audiofs_sysctl_eventlog (logged cs) = print_from (logged cs) (int (length cs - 256))"
    using eventlog_start [of "logged cs" "length cs"] logged_holds [of cs] assms sint_small [of "length cs - 256"] by simp
  then show ?thesis using print_from_entries [OF assms, of "length cs - 256"] by simp
qed

lemma eventlog_lost:
  assumes n: "unat (evseq e) = n" "2 ^ 31 + 256 \<le> n" "n < 2 ^ 32"
  shows "audiofs_sysctl_eventlog e = Some []"
proof -
  define i where "i = int (n - 256) - 2 ^ 32"
  have s: "audiofs_sysctl_eventlog e = print_from e i"
    using eventlog_start [OF n(1)] sint_large [of "n - 256"] n(2,3) by (simp add: i_def)
  have i: "- (2 ^ 31) \<le> i" "i < 0" using n(2,3) by (simp_all add: i_def)
  have "(i + 2 ^ 64) mod 2 ^ 64 = i + 2 ^ 64" using i by (intro mod_pos_pos_trivial) simp_all
  then have "uint (word_of_int i :: u64) = i + 2 ^ 64" by (simp add: uint_word_of_int)
  moreover have "uint (evseq e) = int n" unfolding n(1) [symmetric] by simp
  then have "uint (evseq e) < 2 ^ 32" using n(3) by simp
  ultimately have "\<not> (word_of_int i :: u64) < evseq e" using i by (simp add: word_less_def)
  then show ?thesis unfolding s by (subst print_from.simps) simp
qed

end
