(* ===== verification/Audiofs_Codec_Properties.thy ===== *)
theory Audiofs_Codec_Properties
  imports Audiofs_Prepare Audiofs_Log
begin

text \<open>
  The properties of the audiofs codec link, the topology walk, the preparation of the codecs and
  the diagnostic log, each with a concrete instance where it has hypotheses.
\<close>

section \<open>Commands\<close>

text \<open>
  C36. A codec that answers within the wait (after \<open>d\<close> quiet reads of the write
  pointer, \<open>d < 10000\<close>): the command returns its answer, the verb went out with the codec address in the next
  CORB entry, one response was consumed, nothing but the response of this codec changed,
  and nothing is outstanding.
\<close>

theorem command_answered:
  assumes "link_ok l" "2 \<le> lk_rirb_size l" "k < 16" "d < 10000"
    and "answers k r d (post_verb k (cad_verb k verb) l)"
  shows "\<exists>l'. audiofs_send_command (int k) verb l = Some (r, l') \<and> lk_reads l' = lk_reads l + d + 1 \<and>
    answered k (cad_verb k verb) r l l'"
  by (rule send_answered [OF assms])

text \<open>A codec that answers verbs in order, and shows the first answer only from the 10000-th read on.\<close>

definition late_hw :: "(u32 \<Rightarrow> u32) \<Rightarrow> u32 list \<Rightarrow> nat \<Rightarrow> u16 \<times> rirb_entry list" where
  "late_hw f vs k = (if k < 10000 then 0 else 1, (0, 0) # map (\<lambda>v. (f v, 0)) vs)"

definition prompt_hw :: "(u32 \<Rightarrow> u32) \<Rightarrow> u32 list \<Rightarrow> nat \<Rightarrow> u16 \<times> rirb_entry list" where
  "prompt_hw f vs k = (of_nat (length vs), (0, 0) # map (\<lambda>v. (f v, 0)) vs)"

definition fresh_link :: "(u32 list \<Rightarrow> nat \<Rightarrow> u16 \<times> rirb_entry list) \<Rightarrow> hda_link" where
  "fresh_link hw = \<lparr>lk_codecs = replicate 16 no_codec, lk_corb_size = 256, lk_rirb_size = 256, lk_corb_wp = 0,
     lk_rirb_rp = 0, lk_corb = replicate 256 0, lk_sent = [], lk_hw = hw, lk_reads = 0\<rparr>"

lemma link_ok_fresh: "link_ok (fresh_link hw)"
  by (simp add: link_ok_def fresh_link_def rirb_ok_def no_codec_def)

theorem command_answered_witness:
  "\<exists>l'. audiofs_send_command (int 0) 0xf0000 (fresh_link (prompt_hw (\<lambda>v. 0x10134206))) = Some (0x10134206, l') \<and>
     lk_reads l' = 1"
proof -
  let ?l = "fresh_link (prompt_hw (\<lambda>v. 0x10134206))"
  have "answers 0 0x10134206 0 (post_verb 0 (cad_verb 0 0xf0000) ?l)"
    by (simp add: answers_def seen_wp_def seen_slot_def fresh_link_def prompt_hw_def post_verb_def upd_codec_def
        no_codec_def Let_def)
  from command_answered [OF link_ok_fresh _ _ _ this] show ?thesis by (auto simp: fresh_link_def)
qed

text \<open>
  Responses carry no tag: when a codec is too slow for its first verb, that command
  fails, and its late answer is returned as the answer of the second verb.
\<close>

theorem late_response_misattributed:
  "\<exists>l1 l2. audiofs_send_command 0 v1 (fresh_link (late_hw f)) = Some (HDA_INVALID, l1) \<and>
     audiofs_send_command 0 v2 l1 = Some (f (cad_verb 0 v1), l2)"
proof -
  let ?l = "fresh_link (late_hw f)"
  have "\<forall>j<10000. seen_wp (post_verb 0 (cad_verb 0 v1) ?l) (lk_reads ?l + j) = lk_rirb_rp ?l"
    by (simp add: seen_wp_def late_hw_def fresh_link_def post_verb_def upd_codec_def Let_def)
  from send_silent [OF link_ok_fresh _ this] obtain l1 where
    1: "audiofs_send_command (int 0) v1 ?l = Some (HDA_INVALID, l1)" "link_ok l1" "lk_reads l1 = 10000"
      "lk_sent l1 = [cad_verb 0 v1]" "lk_hw l1 = late_hw f" "lk_rirb_size l1 = 256" "lk_rirb_rp l1 = 0"
    by (auto simp: fresh_link_def)
  have "answers 0 (f (cad_verb 0 v1)) 0 (post_verb 0 (cad_verb 0 v2) l1)"
    by (simp add: answers_def seen_wp_def seen_slot_def 1 late_hw_def)
  from send_answered [OF 1(2) _ _ _ this] 1(1,6) show ?thesis by fastforce
qed

section \<open>Connection lists\<close>

text \<open>
  The connection list a widget is given from the responses \<open>rs\<close> of its codec is the
  expansion of the fields of those responses (single nodes and ranges, up to the first zero), cut at
  sixteen entries, with the overflow flag exactly when something was cut; every other field of the
  widget is kept.
\<close>

theorem conn_list_decoded:
  assumes "conns_ok w" "w_nconns w = 0" "\<not> w_conn_overflow w" "entnum = 2 \<or> entnum = 4"
    and "take_entries (concat (map (conn_entries entnum) rs)) 0 w = (stop, prev, w')"
  shows "let xs = expand 0 (concat (map (entry_fields entnum) rs))
    in take (unat (w_nconns w')) (w_conns w') = map of_nat (take 16 xs) \<and> unat (w_nconns w') = min 16 (length xs) \<and>
       (w_conn_overflow w' \<longleftrightarrow> 16 < length xs) \<and> length (w_conns w') = 16 \<and>
       w' = w\<lparr>w_nconns := w_nconns w', w_conns := w_conns w', w_conn_overflow := w_conn_overflow w'\<rparr>"
proof -
  let ?xs = "expand 0 (concat (map (entry_fields entnum) rs))"
  have "\<forall>e\<in>set (concat (map (conn_entries entnum) rs)). unat (fst e) < 2 ^ 15"
    using conn_entries_small [OF assms(4)] by auto
  from take_entries_added [OF assms(1) this assms(5)] obtain full where "added ?xs w full w'"
    using nat_entries_concat [OF assms(4)] by auto
  moreover have "listed w = []" using assms(2) by (simp add: listed_def)
  ultimately have a: "conns_ok w'" "same_node w w'" "listed w' = take 16 (map of_nat ?xs)" "w_conn_overflow w' = (16 < length ?xs)"
    using assms(2,3) by (auto simp: added_def)
  then have "unat (w_nconns w') = min 16 (length ?xs)" using length_listed [OF a(1)] by simp
  then show ?thesis using a unfolding listed_def same_node_def conns_ok_def Let_def by (simp add: take_map)
qed

text \<open>Node 2, nodes 4 to 6 as a range after 4, then the end of the list.\<close>

theorem conn_list_decoded_witness:
  "let w' = snd (snd (take_entries (concat (map (conn_entries 4) [0x00860402])) 0 no_widget))
   in take (unat (w_nconns w')) (w_conns w') = [2, 4, 5, 6]"
proof -
  let ?w = "snd (snd (take_entries (concat (map (conn_entries 4) [0x00860402])) 0 no_widget))"
  obtain s p where "take_entries (concat (map (conn_entries 4) [0x00860402])) 0 no_widget = (s, p, ?w)"
    by (metis prod.collapse)
  moreover have "conns_ok no_widget" "w_nconns no_widget = 0" "\<not> w_conn_overflow no_widget"
    by (simp_all add: no_widget_def conns_ok_def)
  ultimately have "take (unat (w_nconns ?w)) (w_conns ?w) = map of_nat (take 16 (expand 0 (concat (map (entry_fields 4) [0x00860402]))))"
    using conn_list_decoded [of no_widget 4 "[0x00860402]"] unfolding Let_def by blast
  moreover have "expand 0 (concat (map (entry_fields 4) [0x00860402])) = [2, 4, 5, 6]"
    by (simp add: entry_fields_def upt_rec)
  ultimately show ?thesis by (simp only: Let_def) simp
qed

section \<open>Enumeration and walk\<close>

text \<open>
  C35. The bring-up of the codecs in attach, from the capability registers on: with hardware whose write pointer stays
  in the ring the bring-up either fails with nothing held of the bus, or leaves a consistent link; then the
  enumeration of the codecs and their walk return, only read, and fill the codec and widget arrays within their bounds.
\<close>

theorem codec_bring_up:
  assumes "link_bring_up cs rs ca ra cc rc g l (t, m, n) = (e, ws, l1, (cdma, rdma), held)"
    and "lk_codecs l = replicate 16 no_codec" "lk_sent l = []"
    and "\<not> (load_error ca = 0 \<and> seg_addr ca = 0)" "\<not> (load_error ra = 0 \<and> seg_addr ra = 0)"
    and "\<forall>vs k. unat (fst (lk_hw l vs k) AND 0xff) < lk_rirb_size l1"
  shows "e \<noteq> 0 \<and> ws = [] \<and> held = (t, m, n) \<or>
    e = 0 \<and> held = (t + 2, m + 2, n + 2) \<and>
    (\<exists>l2 l3. audiofs_enumerate_codecs st l1 = Some l2 \<and> walk_topology l2 = Some l3 \<and> link_ok l3 \<and>
       list_all codec_ok (lk_codecs l3) \<and> list_all is_get (lk_sent l3))"
proof (cases "e = 0")
  case True
  have c: "length (lk_codecs l) = 16" "\<forall>c\<in>set (lk_codecs l). c_pending c = 0" "list_all codec_ok (lk_codecs l)"
    using assms(2) by (auto simp: no_codec_def no_widget_def codec_ok_def list_all_iff)
  have b: "link_ok l1" "lk_codecs l1 = lk_codecs l" "lk_hw l1 = lk_hw l" "held = (t + 2, m + 2, n + 2)"
    using link_bring_up_ok [OF assms(1) c(1,2) assms(4,5)] True by auto
  have "lk_sent l1 = lk_sent l" by (rule link_bring_up_sent [OF assms(1)])
  then have "walk_ok l1" using b c(3) assms(3,6) by (simp add: walk_ok_def ready_def pointers_ok_def)
  from walk_ok_topology [OF this, of st] show ?thesis using True b(4) by (auto simp: walk_ok_def ready_def)
next
  case False
  have "length (lk_codecs l) = 16" "\<forall>c\<in>set (lk_codecs l). c_pending c = 0" using assms(2) by (auto simp: no_codec_def)
  from link_bring_up_ok [OF assms(1) this assms(4,5)] False show ?thesis by auto
qed

theorem codec_bring_up_witness:
  "\<exists>l1 l2 l3. fst (snd (snd (link_bring_up 0x40 0x40 (bus_answer.make 0 0 0 0x1000) (bus_answer.make 0 0 0 0x2000) 0 0 0
       (fresh_link (prompt_hw (\<lambda>v. 0))\<lparr>lk_hw := \<lambda>vs k. (0, [])\<rparr>) (0, 0, 0)))) = l1 \<and>
     audiofs_enumerate_codecs 1 l1 = Some l2 \<and> walk_topology l2 = Some l3 \<and> list_all codec_ok (lk_codecs l3)"
proof -
  let ?l = "fresh_link (prompt_hw (\<lambda>v. 0))\<lparr>lk_hw := \<lambda>vs k. (0, [])\<rparr>"
  let ?a = "bus_answer.make 0 0 0 0x1000" let ?b = "bus_answer.make 0 0 0 0x2000"
  obtain e ws l1 cdma rdma held where b: "link_bring_up 0x40 0x40 ?a ?b 0 0 0 ?l (0, 0, 0) = (e, ws, l1, (cdma, rdma), held)"
    by (metis surj_pair)
  then have "e = 0" "lk_rirb_size l1 = 256"
    by (auto simp: link_bring_up_def audiofs_pick_corb_rirb_sizes_def ring_size_cap_def audiofs_dma_alloc_def
        audiofs_dma_cb_def bus_answer.make_def no_dma_def audiofs_corb_init_def audiofs_rirb_init_def ring_size_reg_def Let_def)
  with codec_bring_up [OF b, of 1] b show ?thesis by (auto simp: fresh_link_def bus_answer.make_def)
qed

section \<open>Preparation\<close>

text \<open>
  C34. The preparation of the walked codecs returns on every hardware whose pointer stays in the ring,
  and leaves the codec and widget arrays as they are. It sends, in this order: only reading verbs (inspection),
  only power verbs, the GPIO verbs of the adopted codec, only pin verbs, only amplifier verbs and only
  converter format verbs. Among them are, for every populated codec, the power-up of its function group and of every widget with power control
  on every output path, the enable bits every output pin supports, the 0 dB gain of every amplifier on
  an output path that uses the default capability of its group, and the 48 kHz format of every
  converter that shares the capabilities of its group.
\<close>

theorem codecs_prepared:
  assumes "link_ok l" "list_all codec_ok (lk_codecs l)" "\<forall>vs k. unat (fst (lk_hw l vs k) AND 0xff) < lk_rirb_size l"
  shows "\<exists>gp l' inspect power pins amps formats. prepare_codecs (no_gpio, l) = Some (gp, l') \<and>
    link_ok l' \<and> list_all2 same_walk (lk_codecs l) (lk_codecs l') \<and>
    (0 \<le> gpio_cad gp \<longrightarrow> gpio_cad gp < 16 \<and> c_populated (lk_codecs l ! nat (gpio_cad gp)) \<and>
       gpio_fg_nid gp = c_fg_nid (lk_codecs l ! nat (gpio_cad gp))) \<and>
    lk_sent l' = lk_sent l @ inspect @ power @ gpio_verbs gp (lk_codecs l ! nat (gpio_cad gp)) @ pins @ amps @ formats \<and>
    list_all is_get inspect \<and> list_all power_verb power \<and> list_all pin_verb pins \<and>
    list_all amp_verb amps \<and> list_all format_verb formats \<and>
    (\<forall>k<16. c_populated (lk_codecs l ! k) \<longrightarrow>
       set (power_due k (lk_codecs l ! k)) \<subseteq> set power \<and> set (pin_due k (lk_codecs l ! k)) \<subseteq> set pins \<and>
       set (amp_due k (lk_codecs l ! k)) \<subseteq> set amps \<and> set (format_due k (lk_codecs l ! k)) \<subseteq> set formats)"
proof -
  have r: "ready l" using assms by (simp add: ready_def pointers_ok_def)
  have "gpio_ok no_gpio l" by (simp add: gpio_ok_def no_gpio_def)
  from prepare_sends [OF r this] obtain gp l' inspect power pins amps formats where
    p: "prepare_codecs (no_gpio, l) = Some (gp, l')" "ready l'" "list_all2 same_walk (lk_codecs l) (lk_codecs l')" "gpio_ok gp l'"
      "lk_sent l' = lk_sent l @ inspect @ power @ gpio_verbs gp (lk_codecs l ! nat (gpio_cad gp)) @ pins @ amps @ formats"
      "list_all is_get inspect" "list_all power_verb power" "list_all pin_verb pins" "list_all amp_verb amps"
      "list_all format_verb formats" "is_due power_due l power" "is_due pin_due l pins" "is_due amp_due l amps"
      "is_due format_due l formats"
    by (elim exE conjE)
  have g: "gpio_ok gp l" using p(4) gpio_ok_iff [OF r p(3)] by blast
  then have g': "0 \<le> gpio_cad gp \<longrightarrow> gpio_cad gp < 16 \<and> c_populated (lk_codecs l ! nat (gpio_cad gp)) \<and>
      gpio_fg_nid gp = c_fg_nid (lk_codecs l ! nat (gpio_cad gp))" by (auto simp: gpio_ok_def)
  have ok: "link_ok l'" using p(2) by (simp add: ready_def)
  have d: "\<forall>k<16. c_populated (lk_codecs l ! k) \<longrightarrow>
      set (power_due k (lk_codecs l ! k)) \<subseteq> set power \<and> set (pin_due k (lk_codecs l ! k)) \<subseteq> set pins \<and>
      set (amp_due k (lk_codecs l ! k)) \<subseteq> set amps \<and> set (format_due k (lk_codecs l ! k)) \<subseteq> set formats"
    using p(11-14) unfolding is_due_def by simp
  show ?thesis
    by (intro exI [of _ gp] exI [of _ l'] exI [of _ inspect] exI [of _ power] exI [of _ pins] exI [of _ amps] exI [of _ formats]
        conjI p(1) ok p(3) g' p(5-10) d)
qed

text \<open>A codec with a converter (node 2) and a speaker pin (node 3) fed by it.\<close>

definition demo_codec :: audiofs_codec where
  "demo_codec = no_codec\<lparr>c_populated := True, c_fg_nid := 1, c_fg_output_amp_cap := 0x80051f1f,
     c_fg_supp_pcm_size_rate := 0x20040, c_fg_supp_stream_formats := 1, c_widget_start := 2, c_widget_total := 2,
     c_widgets := [no_widget\<lparr>w_valid := True, w_nid := 2, w_wcap := 0x404\<rparr>,
       no_widget\<lparr>w_valid := True, w_nid := 3, w_wcap := 0x400500, w_type := TYPE_PIN_COMPLEX, w_pin_cfg := 0x90100110,
         w_pin_cap := 0x10, w_nconns := 1, w_conns := 2 # replicate 15 0\<rparr>] @ replicate 126 no_widget\<rparr>"

lemma demo_codec_due:
  "power_due 0 demo_codec = [0x170500, 0x370500, 0x270500]" "pin_due 0 demo_codec = [0x370740]"
  "amp_due 0 demo_codec = [0x23b01f]" "format_due 0 demo_codec = [0x220011]"
  by code_simp+

theorem codecs_prepared_witness:
  "\<exists>gp l'. prepare_codecs (no_gpio, fresh_link (\<lambda>vs k. (0, []))\<lparr>lk_codecs := demo_codec # replicate 15 no_codec\<rparr>) = Some (gp, l') \<and>
     {0x170500, 0x370500, 0x270500, 0x370740, 0x23b01f, 0x220011} \<subseteq> set (lk_sent l')"
proof -
  let ?l = "fresh_link (\<lambda>vs k. (0, []))\<lparr>lk_codecs := demo_codec # replicate 15 no_codec\<rparr>"
  have "link_ok ?l" "list_all codec_ok (lk_codecs ?l)"
    by (simp_all add: link_ok_def rirb_ok_def fresh_link_def demo_codec_def no_codec_def no_widget_def codec_ok_def list_all_iff)
  moreover have "\<forall>vs k. unat (fst (lk_hw ?l vs k) AND 0xff) < lk_rirb_size ?l" by (simp add: fresh_link_def)
  moreover have "c_populated (lk_codecs ?l ! 0)" "lk_codecs ?l ! 0 = demo_codec" by (simp_all add: demo_codec_def)
  ultimately obtain gp l' inspect power gpio pins amps formats where
    "prepare_codecs (no_gpio, ?l) = Some (gp, l')" "lk_sent l' = lk_sent ?l @ inspect @ power @ gpio @ pins @ amps @ formats"
    "set (power_due 0 demo_codec) \<subseteq> set power" "set (pin_due 0 demo_codec) \<subseteq> set pins"
    "set (amp_due 0 demo_codec) \<subseteq> set amps" "set (format_due 0 demo_codec) \<subseteq> set formats"
    using codecs_prepared [of ?l] by (metis zero_less_numeral)
  then show ?thesis unfolding demo_codec_due by (intro exI [of _ gp] exI [of _ l']) auto
qed

section \<open>The diagnostic log\<close>

text \<open>
  The log read through the control knob is the last 256 entries (all of them when there are fewer), in order and
  numbered from the start, as long as fewer than \<open>2 ^ 31\<close> entries have been made; from \<open>2 ^ 31 + 256\<close> to
  \<open>2 ^ 32\<close> entries the loop counter is negative and the log reads as empty.
\<close>

theorem eventlog_window:
  "(length cs < 2 ^ 31 \<longrightarrow>
      audiofs_sysctl_eventlog (logged cs) = Some (map (entry cs) [length cs - 256..<length cs])) \<and>
   (2 ^ 31 + 256 \<le> length cs \<and> length cs < 2 ^ 32 \<longrightarrow> audiofs_sysctl_eventlog (logged cs) = Some [])"
  using eventlog_last [of cs] eventlog_lost [of "logged cs" "length cs"] logged_holds [of cs] by simp

theorem eventlog_window_witness:
  "audiofs_sysctl_eventlog (logged [(5, ''attach'', 0), (7, ''resume'', 1)]) =
     Some [\<lparr>le_seq = 0, le_ts_ns = 5, le_kind = ''attach'', le_arg = 0\<rparr>, \<lparr>le_seq = 1, le_ts_ns = 7, le_kind = ''resume'', le_arg = 1\<rparr>] \<and>
   audiofs_sysctl_eventlog (logged (replicate 3000000000 (0, [], 0))) = Some []"
  using eventlog_window [of "[(5, ''attach'', 0), (7, ''resume'', 1)]"] eventlog_window [of "replicate 3000000000 (0, [], 0)"]
  by (simp add: entry_def upt_rec)

end
