(* ===== verification/Audiofs_Tools.thy ===== *)
theory Audiofs_Tools
  imports Audiofs_Stream Audiofs_Events
begin

text \<open>
  The readers of the files audiofs publishes: \<^verbatim>\<open>audiofs_events_dump.c\<close>, which lists the events of the ring, and the sample of
  \<^verbatim>\<open>clock_dump.c\<close>. What a reader prints is a value: the fields in the order of the format string.
\<close>

section \<open>Names\<close>

definition role_name :: "byte \<Rightarrow> string" where
  "role_name role = (if role = 1 then ''stream'' else if role = 2 then ''endpoint'' else ''?'')"

definition type_name :: "byte \<Rightarrow> byte \<Rightarrow> string" where
  "type_name role ty =
     (if role = 1 then
        (if ty = 1 then ''begin'' else if ty = 2 then ''end'' else if ty = 3 then ''xrun'' else if ty = 4 then ''format_change'' else ''?'')
      else if role = 2 then
        (if ty = 1 then ''attach'' else if ty = 2 then ''detach'' else if ty = 3 then ''inventory_full'' else ''?'')
      else ''?'')"

definition fmt_flags :: "u32 \<Rightarrow> string" where
  "fmt_flags f =
     (let buf = (if f AND 1 \<noteq> 0 then ''synthesised'' else []);
          buf = (if f AND 2 \<noteq> 0 then buf @ (if buf = [] then [] else '','') @ ''coalesced'' else buf)
      in if buf = [] then ''-'' else buf)"

definition match_type :: "string option \<Rightarrow> byte \<Rightarrow> byte \<Rightarrow> bool" where
  "match_type want role ty = (case want of None \<Rightarrow> True | Some w \<Rightarrow> w = type_name role ty)"

section \<open>Payloads\<close>

datatype payload_line =
    XrunLine u32 string u64 u32
  | BeginLine u32 u16 byte u32
  | EndLine u32 u64
  | FormatLine u32 u16 u16 u32

definition print_payload :: "event_slot \<Rightarrow> bool \<Rightarrow> payload_line option \<times> buf option" where
  "print_payload s raw =
     (let p = es_payload s in
      (if es_source_role s = 1 then
         (if es_event_type s = 3 then Some (XrunLine (get32 p 0) (if p ! 4 = 0 then ''underrun'' else ''overrun'') (get64 p 8) (get32 p 16))
          else if es_event_type s = 1 then Some (BeginLine (get32 p 0) (get16 p 4) (p ! 6) (get32 p 8))
          else if es_event_type s = 2 then Some (EndLine (get32 p 0) (get64 p 8))
          else if es_event_type s = 4 then Some (FormatLine (get32 p 0) (get16 p 4) (get16 p 6) (get32 p 8))
          else None)
       else None,
       if raw then Some p else None))"

section \<open>Arguments\<close>

text \<open>\<^verbatim>\<open>strtoull\<close> in base ten: leading white space, a sign, digits; the largest value on overflow.\<close>

fun digits_value :: "nat \<Rightarrow> string \<Rightarrow> nat" where
  "digits_value n [] = n"
| "digits_value n (c # cs) = (if 48 \<le> (of_char c :: nat) \<and> (of_char c :: nat) \<le> 57 then digits_value (10 * n + (of_char c - 48)) cs else n)"

definition strtoull :: "string \<Rightarrow> u64" where
  "strtoull s =
     (let s = dropWhile (\<lambda>c. (of_char c :: nat) \<in> {9, 10, 11, 12, 13, 32}) s;
          neg = (s \<noteq> [] \<and> hd s = CHR ''-'');
          s = (if s \<noteq> [] \<and> (hd s = CHR ''-'' \<or> hd s = CHR ''+'') then tl s else s);
          n = digits_value 0 s
      in if 2 ^ 64 \<le> n then 2 ^ 64 - 1 else if neg then - of_nat n else of_nat n)"

record dump_opts =
  do_type :: "string option"
  do_since :: u64
  do_raw :: bool
  do_header_only :: bool

definition default_opts :: dump_opts where
  "default_opts = \<lparr>do_type = None, do_since = 0, do_raw = False, do_header_only = False\<rparr>"

text \<open>The options, or the exit status of an early return.\<close>

fun dump_args :: "string list \<Rightarrow> dump_opts \<Rightarrow> nat + dump_opts" where
  "dump_args [] opts = Inr opts"
| "dump_args (a # rest) opts =
     (if a = ''--type'' \<and> rest \<noteq> [] then dump_args (tl rest) (opts\<lparr>do_type := Some (hd rest)\<rparr>)
      else if a = ''--since'' \<and> rest \<noteq> [] then dump_args (tl rest) (opts\<lparr>do_since := strtoull (hd rest)\<rparr>)
      else if a = ''--raw'' then dump_args rest (opts\<lparr>do_raw := True\<rparr>)
      else if a = ''--header-only'' then dump_args rest (opts\<lparr>do_header_only := True\<rparr>)
      else if a = ''--help'' \<or> a = ''-h'' then Inl 0
      else Inl 2)"

section \<open>The dump\<close>

datatype file_read = OpenFailed | ReadFailed | ShortRead | FileRead events_region

datatype dump_line = Shown event_slot string "payload_line option \<times> buf option" | Warned u64 u64 | Skipped

definition dump_slot :: "dump_opts \<Rightarrow> event_slot list \<Rightarrow> u64 \<Rightarrow> dump_line" where
  "dump_slot opts slots seq =
     (let s = slots ! unat (seq AND 255)
      in if es_seq s \<noteq> seq then Warned seq (es_seq s)
         else if \<not> match_type (do_type opts) (es_source_role s) (es_event_type s) then Skipped
         else Shown s (fmt_flags (es_flags s)) (print_payload s (do_raw opts)))"

definition dump_start :: "dump_opts \<Rightarrow> events_header \<Rightarrow> u64" where
  "dump_start opts hdr = (if do_since opts + 1 > eh_earliest_seq hdr then do_since opts + 1 else eh_earliest_seq hdr)"

text \<open>The loop over the sequence numbers from the start up to, and not including, \<^verbatim>\<open>writer_seq\<close>.\<close>

definition dump_events :: "dump_opts \<Rightarrow> events_region \<Rightarrow> dump_line list" where
  "dump_events opts r =
     map (dump_slot opts (er_slots r) \<circ> of_nat) [unat (dump_start opts (er_header r))..<unat (eh_writer_seq (er_header r))]"

text \<open>Exit status, whether the header was printed, and the lines.\<close>

definition events_dump_main :: "string list \<Rightarrow> file_read \<Rightarrow> nat \<times> bool \<times> dump_line list" where
  "events_dump_main args file =
     (case dump_args args default_opts of
        Inl status \<Rightarrow> (status, False, [])
      | Inr opts \<Rightarrow>
          case file of
            FileRead r \<Rightarrow>
              if eh_magic (er_header r) \<noteq> 0x41554556 then (1, False, [])
              else if do_header_only opts then (0, True, [])
              else if eh_ring_valid (er_header r) = 0 then (1, True, [])
              else (0, True, dump_events opts r)
          | _ \<Rightarrow> (1, False, []))"

section \<open>The clock sample\<close>

definition source_name :: "byte \<Rightarrow> string" where
  "source_name s = (if s = 0 then ''invalid'' else if s = 1 then ''audio'' else if s = 2 then ''wall(reserved)''
     else if s = 3 then ''tsc(reserved)'' else ''unknown'')"

text \<open>The last field says whether a time is printed.\<close>

datatype clock_line = BadMagic u32 | ClockLine byte byte byte string u32 u64 bool

definition dump_once :: "buf \<Rightarrow> clock_line" where
  "dump_once m =
     (let magic = get32 m 0; rate = get32 m 8; samples = get64 m 12
      in if magic \<noteq> 0x534D434B then BadMagic magic
         else ClockLine (m ! 4) (m ! 5) (m ! 6) (source_name (m ! 6)) rate samples (m ! 5 \<noteq> 0 \<and> rate \<noteq> 0))"

section \<open>The readers agree with the writers\<close>

text \<open>The payloads the driver writes are printed with their fields.\<close>

lemma get_Cons:
  "0 < off \<Longrightarrow> get16 (x # bs) off = get16 bs (off - 1)" "0 < off \<Longrightarrow> get32 (x # bs) off = get32 bs (off - 1)"
  "0 < off \<Longrightarrow> get64 (x # bs) off = get64 bs (off - 1)"
  using get_skip [of "[x]" off bs] by simp_all

lemma payload_lines:
  "fst (print_payload (s\<lparr>es_source_role := 1, es_event_type := 3, es_payload := pad_payload (evp_xrun sid pos frames)\<rparr>) raw) =
     Some (XrunLine sid ''underrun'' pos frames)"
  "fst (print_payload (s\<lparr>es_source_role := 1, es_event_type := 1, es_payload := pad_payload (evp_stream_begin sid fmt ch rate)\<rparr>) raw) =
     Some (BeginLine sid fmt ch rate)"
  "fst (print_payload (s\<lparr>es_source_role := 1, es_event_type := 2, es_payload := pad_payload (evp_stream_end sid frames_total)\<rparr>) raw) =
     Some (EndLine sid frames_total)"
  "fst (print_payload (s\<lparr>es_source_role := 1, es_event_type := 4, es_payload := pad_payload (evp_format_change sid old new rate)\<rparr>) raw) =
     Some (FormatLine sid old new rate)"
  by (simp_all add: print_payload_def pad_payload_def evp_xrun_def evp_stream_begin_def evp_stream_end_def evp_format_change_def get_put_front get_put_only get_skip get_Cons nth_append Let_def)

lemma dump_slot_read:
  assumes "audio_ring_ok g h" "ag_events_buf g = Some b" "0 < s" "s \<le> length h" "length h < s + 256"
  shows "er_slots b ! unat ((of_nat s :: u64) AND 255) = h ! (s - 1) \<and> es_seq (h ! (s - 1)) = of_nat s"
proof -
  have "length h < 2 ^ 64" using assms(1) by (simp add: audio_ring_ok_def)
  then have u: "unat (of_nat s :: u64) = s" using assms(4) by (intro unat_of_nat_small) simp
  have "read_audio_event g s = Some (h ! (s - 1))" using audio_ring.ok_read [OF assms(1,3-5)] .
  then have "er_slots b ! (s mod 256) = h ! (s - 1)" "unat (es_seq (h ! (s - 1))) = s"
    using assms(2) by (auto simp: read_audio_event_def Let_def split: if_splits)
  then show ?thesis using u by (auto simp: audio_slot_index intro: of_nat_unat_eq)
qed

text \<open>What the dump shows of an event that passes the filter.\<close>

definition shown :: "dump_opts \<Rightarrow> event_slot \<Rightarrow> dump_line" where
  "shown opts s = (if match_type (do_type opts) (es_source_role s) (es_event_type s)
     then Shown s (fmt_flags (es_flags s)) (print_payload s (do_raw opts)) else Skipped)"

lemma map_butlast_drop: "map (\<lambda>s. f (h ! (s - 1))) [d + 1..<length h] = map f (butlast (drop d h))"
  by (rule nth_equalityI) (auto simp: nth_butlast)

lemma dump_events_log:
  assumes "audio_ring_ok g h" "ag_events_buf g = Some b" "unat (do_since opts) \<le> length h" "length h + 1 < 2 ^ 64"
  shows "dump_events opts b = map (shown opts) (butlast (audio_ring.catch_up g (unat (do_since opts))))"
proof -
  let ?k = "unat (do_since opts)" and ?n = "length h"
  have hdr: "ring_header g = er_header b" using assms(2) by (simp add: ring_header_def)
  note w = audio_ring.ok_wseq [OF assms(1), unfolded hdr] and e = audio_ring.ok_eseq [OF assms(1), unfolded hdr]
  have start: "dump_events opts b = map (dump_slot opts (er_slots b) \<circ> of_nat) [max (?k + 1) (max 1 (?n + 1 - 256))..<?n]"
  proof -
    have "unat (do_since opts + 1) = ?k + 1" using assms(3,4) by (simp add: unat_word_ariths)
    then have "unat (dump_start opts (er_header b)) = max (?k + 1) (max 1 (?n + 1 - 256))"
      using e by (auto simp: dump_start_def word_less_nat_alt max_def)
    then show ?thesis using w by (simp add: dump_events_def)
  qed
  have "dump_slot opts (er_slots b) (of_nat s) = shown opts (h ! (s - 1))" if "s \<in> set [max (?k + 1) (max 1 (?n + 1 - 256))..<?n]" for s
    using dump_slot_read [OF assms(1,2), of s] that by (auto simp: dump_slot_def shown_def Let_def)
  then have "dump_events opts b = map (\<lambda>s. shown opts (h ! (s - 1))) [max (?k + 1) (max 1 (?n + 1 - 256))..<?n]"
    unfolding start by (intro map_cong refl) simp
  also have "max (?k + 1) (max 1 (?n + 1 - 256)) = max ?k (?n - 256) + 1" by auto
  also have "map (\<lambda>s. shown opts (h ! (s - 1))) [max ?k (?n - 256) + 1..<?n] = map (shown opts) (butlast (drop (max ?k (?n - 256)) h))"
    by (rule map_butlast_drop)
  finally show ?thesis using audio_ring.catch_up_eq [OF assms(1,3)] by simp
qed

lemma clock_dump_page:
  assumes "ag_clock_mapped g" "length (ag_clock g) = 20" "get32 (ag_clock g) 0 = 0x534D434B" "ag_clock g ! 4 = 1"
    and "g' = audiofs_clock_update sc (audiofs_clock_stream_begin rate g)"
  shows "dump_once (ag_clock g') = ClockLine 1 1 1 ''audio'' rate (au_clock_total sc) (rate \<noteq> 0)"
proof -
  let ?p = "blit (ag_clock g) 8 (put32 rate)"
  have l: "length ?p = 20" using assms(2) by simp
  have g': "ag_clock g' = blit (blit (blit ?p 6 [1]) 5 [1]) 12 (put64 (au_clock_total sc))"
    using assms(1,2,5) by (simp add: audiofs_clock_update_def audiofs_clock_stream_begin_def Let_def blit_def list_update_append upd_conv_take_nth_drop)
  show ?thesis unfolding dump_once_def g' using assms(2-4) l by (simp add: get_blit_same get_blit_other nth_blit Let_def source_name_def)
qed

end
