(* ===== verification/Audiofs_Tools_Properties.thy ===== *)
theory Audiofs_Tools_Properties
  imports Audiofs_Tools Audiofs_Properties
begin

text \<open>What the event dump shows of a ring, with a concrete instance.\<close>

text \<open>
  C37. On a valid ring the dump exits with status 0 and no warning, and shows in order, by its filter, the events that the documented reader would
  receive after the given number, except the newest one, which it never shows: directly after one event it shows none.
\<close>

theorem dump_omits_last:
  assumes "audio_ring_ok g h" "length h + 1 < 2 ^ 64" "ag_events_buf g = Some b" "eh_magic (er_header b) = 0x41554556"
    and "eh_ring_valid (er_header b) \<noteq> 0" "dump_args args default_opts = Inr opts" "\<not> do_header_only opts"
    and "unat (do_since opts) \<le> length h"
  shows "events_dump_main args (FileRead b) =
      (0, True, map (shown opts) (butlast (audio_ring.catch_up g (unat (do_since opts))))) \<and>
    (\<forall>q r. Warned q r \<notin> set (snd (snd (events_dump_main args (FileRead b))))) \<and>
    (length h = unat (do_since opts) + 1 \<longrightarrow> snd (snd (events_dump_main args (FileRead b))) = [])"
proof -
  have m: "events_dump_main args (FileRead b) = (0, True, map (shown opts) (butlast (audio_ring.catch_up g (unat (do_since opts)))))"
    using dump_events_log [OF assms(1,3,8,2)] assms(4-7) by (simp add: events_dump_main_def)
  moreover have "Warned q r \<notin> set (map (shown opts) es)" for q r es by (auto simp: shown_def)
  moreover have "butlast (audio_ring.catch_up g (unat (do_since opts))) = []" if "length h = unat (do_since opts) + 1"
  proof -
    have "length (butlast (audio_ring.catch_up g (unat (do_since opts)))) = 0"
      unfolding audio_ring.catch_up_eq [OF assms(1,8)] using that by simp
    then show ?thesis by (simp only: length_0_conv)
  qed
  ultimately show ?thesis by simp
qed

text \<open>A valid ring, and the same ring after one underrun.\<close>

definition valid_up :: audiofs_globals where
  "valid_up = module_up\<lparr>ag_events_buf := Some (empty_events\<lparr>er_header := (er_header empty_events)\<lparr>eh_ring_valid := 1\<rparr>\<rparr>)\<rparr>"

lemma valid_up: "audio_ring_ok valid_up []"
  using module_up(2) by (simp add: valid_up_def audio_ring_ok_def module_up_def)

theorem dump_omits_last_witness:
  "\<exists>b. ag_events_buf (publish_event (1, 3, 0, 0, []) valid_up) = Some b \<and>
     length (audio_ring.catch_up (publish_event (1, 3, 0, 0, []) valid_up) 0) = 1 \<and>
     events_dump_main [''--type'', ''xrun''] (FileRead b) = (0, True, [])"
proof -
  let ?g = "publish_event (1, 3, 0, 0, []) valid_up" and ?opts = "default_opts\<lparr>do_type := Some ''xrun''\<rparr>"
  have ok: "audio_ring_ok ?g [event_of (1, 3, 0, 0, []) valid_up]" using audio_ring.ok_publish [OF valid_up] by simp
  obtain b where b: "ag_events_buf ?g = Some b" "eh_magic (er_header b) = 0x41554556" "eh_ring_valid (er_header b) \<noteq> 0"
    using publish_event_buf(1) [of valid_up "empty_events\<lparr>er_header := (er_header empty_events)\<lparr>eh_ring_valid := 1\<rparr>\<rparr>"]
    by (simp add: valid_up_def empty_events_def)
  have o: "dump_args [''--type'', ''xrun''] default_opts = Inr ?opts" "\<not> do_header_only ?opts" "do_since ?opts = 0"
    by (simp_all add: default_opts_def)
  note d = dump_omits_last [OF ok _ b o(1,2)]
  have "unat (do_since ?opts) = 0" using o(3) by simp
  then have "snd (snd (events_dump_main [''--type'', ''xrun''] (FileRead b))) = []"
      "fst (events_dump_main [''--type'', ''xrun''] (FileRead b)) = 0" "fst (snd (events_dump_main [''--type'', ''xrun''] (FileRead b)))"
    using d by (auto simp del: butlast.simps)
  moreover have "length (audio_ring.catch_up ?g 0) = 1" using audio_ring.catch_up_eq [OF ok, of 0] by simp
  ultimately show ?thesis using b(1) by (intro exI [of _ b]) (simp add: prod_eq_iff)
qed

end
