(* ===== verification/Audiofs_Module.thy ===== *)
theory Audiofs_Module
  imports Audiofs_Events Audiofs_Log Event_Notify
begin

text \<open>
  The parts of \<^verbatim>\<open>audiofs.c\<close> around the controllers: the notification device, the probe, the power methods, and the module
  event handler with what it creates and tears down.
\<close>

section \<open>The notification device\<close>

definition audiofs_notify_open :: "notify_dev \<Rightarrow> errno \<times> notify_dev" where
  "audiofs_notify_open nt = (0, nt\<lparr>nt_open_count := nt_open_count nt + 1\<rparr>)"

definition audiofs_notify_close :: "notify_dev \<Rightarrow> errno \<times> notify_dev" where
  "audiofs_notify_close nt = (0, nt\<lparr>nt_open_count := nt_open_count nt - 1\<rparr>)"

text \<open>As for inputfs, the returned set of ready events is always empty.\<close>

definition audiofs_notify_poll :: "u32 \<Rightarrow> notify_dev \<Rightarrow> u32 \<times> notify_dev" where
  "audiofs_notify_poll events nt =
    (if events AND (POLLIN OR POLLRDNORM) = 0 then (0, nt) else (0, nt\<lparr>nt_selrecords := nt_selrecords nt + 1\<rparr>))"

text \<open>The mark is the writer's counter itself, not the copy in the header of the ring.\<close>

definition audiofs_notify_kqfilter :: "audiofs_globals \<Rightarrow> knote \<Rightarrow> notify_dev \<Rightarrow> errno \<times> knote \<times> notify_dev" where
  "audiofs_notify_kqfilter g kn nt =
    (if kn_filter kn \<noteq> EVFILT_READ then (EOPNOTSUPP, kn, nt)
     else let kn = kn\<lparr>kn_attached := True, kn_data := ag_writer_seq g\<rparr>
          in (0, kn, nt\<lparr>nt_notes := nt_notes nt @ [kn]\<rparr>))"

definition audiofs_notify_filt_detach :: "knote \<Rightarrow> notify_dev \<Rightarrow> notify_dev" where
  "audiofs_notify_filt_detach kn nt = nt\<lparr>nt_notes := remove1 kn (nt_notes nt)\<rparr>"

definition audiofs_notify_filt_event :: "knote \<Rightarrow> audiofs_globals \<Rightarrow> bool" where
  "audiofs_notify_filt_event kn g \<longleftrightarrow> kn_data kn < ag_writer_seq g"

lemma ring_ok_writer_seq: "audio_ring_ok g h \<Longrightarrow> unat (ag_writer_seq g) = length h"
  by (simp add: audio_ring_ok_def unat_of_nat take_bit_nat_eq_self)

interpretation audio_wake: wake_source audio_ring_ok publish_event event_of read_audio_event
  "\<lambda>g. unat (eh_writer_seq (ring_header g))" "\<lambda>g. unat (eh_earliest_seq (ring_header g))" 256 "2 ^ 64"
  audiofs_notify_kqfilter audiofs_notify_filt_event
proof
  fix g :: audiofs_globals and h and kn kn' :: knote and nt nt' :: notify_dev
  assume ok: "audio_ring_ok g h"
  show "audiofs_notify_filt_event kn g \<longleftrightarrow> unat (kn_data kn) < length h"
    unfolding audiofs_notify_filt_event_def word_less_nat_alt ring_ok_writer_seq [OF ok] ..
  show "audiofs_notify_kqfilter g kn nt = (0, kn', nt') \<Longrightarrow> unat (kn_data kn') = length h \<and> kn' \<in> set (nt_notes nt')"
    using ring_ok_writer_seq [OF ok] by (auto simp: audiofs_notify_kqfilter_def Let_def split: if_splits)
qed

section \<open>Device methods\<close>

abbreviation (input) PCIC_MULTIMEDIA :: u16 where "PCIC_MULTIMEDIA \<equiv> 0x04"
abbreviation (input) PCIS_MULTIMEDIA_HDA :: u16 where "PCIS_MULTIMEDIA_HDA \<equiv> 0x03"

definition audiofs_probe :: "u16 \<Rightarrow> u16 \<Rightarrow> int" where
  "audiofs_probe cls subcls =
    (if cls \<noteq> PCIC_MULTIMEDIA \<or> subcls \<noteq> PCIS_MULTIMEDIA_HDA then int ENXIO else BUS_PROBE_DEFAULT)"

definition audiofs_suspend :: "u64 \<Rightarrow> event_log \<Rightarrow> errno \<times> event_log" where
  "audiofs_suspend now e = (0, audiofs_log now ''suspend'' 0 e)"

definition audiofs_resume :: "u64 \<Rightarrow> event_log \<Rightarrow> errno \<times> event_log" where
  "audiofs_resume now e = (0, audiofs_log now ''resume'' 0 e)"

section \<open>Module events\<close>

record audiofs_module =
  am_g :: audiofs_globals
  am_sx :: bool
  am_notes :: bool
  am_notify_dev :: bool
  am_notify :: notify_dev

text \<open>Unload destroys the device before the waiting pollers and the notes, and the lock last; the open count is a static that keeps its value.\<close>

definition audiofs_modevent :: "errno \<Rightarrow> modevent \<Rightarrow> audiofs_module \<Rightarrow> errno \<times> audiofs_module" where
  "audiofs_modevent mkdev what m =
    (case what of
       MOD_LOAD \<Rightarrow> (0, m\<lparr>am_sx := True, am_notes := True, am_notify_dev := (mkdev = 0)\<rparr>)
     | MOD_UNLOAD \<Rightarrow>
         let m = m\<lparr>am_g := modevent_unload (am_g m)\<rparr>;
             m = (if am_notify_dev m then m\<lparr>am_notify_dev := False\<rparr> else m);
             m = m\<lparr>am_notify := (am_notify m)\<lparr>nt_selrecords := 0\<rparr>\<rparr>;
             m = m\<lparr>am_notes := False, am_notify := (am_notify m)\<lparr>nt_notes := []\<rparr>\<rparr>
         in (0, m\<lparr>am_sx := False\<rparr>)
     | MOD_OTHER \<Rightarrow> (EOPNOTSUPP, m))"

lemma events_close_state [simp]: "ag_state_open (audiofs_events_close_file g) = ag_state_open g"
  by (simp add: audiofs_events_close_file_def Let_def split: option.split)

lemma modevent_unload_closes:
  "\<not> ag_state_open (modevent_unload g)" "\<not> ag_events_open (modevent_unload g)" "\<not> ag_clock_mapped (modevent_unload g)"
  "\<not> ag_initialized (modevent_unload g)"
  by (simp_all add: modevent_unload_def audiofs_state_close_file_def audiofs_clock_close_def split_beta Let_def)
    (simp_all add: audiofs_events_close_file_def Let_def)

lemma module_unload_releases:
  "audiofs_modevent mkdev MOD_UNLOAD m = (0, m') \<Longrightarrow>
     \<not> am_sx m' \<and> \<not> am_notes m' \<and> \<not> am_notify_dev m' \<and> nt_notes (am_notify m') = [] \<and> nt_selrecords (am_notify m') = 0 \<and>
     \<not> ag_state_open (am_g m') \<and> \<not> ag_events_open (am_g m') \<and> \<not> ag_clock_mapped (am_g m')"
  by (cases "am_notify_dev m") (auto simp: audiofs_modevent_def modevent_unload_closes Let_def)

end
