(* ===== verification/Audiofs_Paths.thy ===== *)
theory Audiofs_Paths
  imports Audiofs_Attach
begin

text \<open>
  What audiofs reports of a controller: the path of every connected output pin, as a text for the console and as an entry of the
  diagnostic log (\<^verbatim>\<open>audiofs_find_paths_for_codec\<close>), the names of widget types, and the kind of interrupt in use.
\<close>

definition audiofs_widget_type_name :: "u32 \<Rightarrow> string" where
  "audiofs_widget_type_name t =
     (if t = 0 then ''audio_out'' else if t = 1 then ''audio_in'' else if t = 2 then ''mixer'' else if t = 3 then ''selector''
      else if t = 4 then ''pin'' else if t = 5 then ''power'' else if t = 6 then ''volume_knob'' else if t = 7 then ''beep''
      else if t = 0xf then ''vendor'' else ''?'')"

definition audiofs_sysctl_interrupts_setup :: "ledger \<Rightarrow> string" where
  "audiofs_sysctl_interrupts_setup h = (if \<not> h_intr h then ''none'' else if h_msi h then ''msi'' else ''intx'')"

section \<open>The text of a path\<close>

text \<open>
  The loop of \<^verbatim>\<open>snprintf\<close> calls into a buffer of \<open>cap\<close> bytes: \<open>n\<close> adds up the lengths the calls would have needed, each writes at most what is
  left before the terminator.
\<close>

fun path_text :: "nat \<Rightarrow> u16 list \<Rightarrow> bool \<Rightarrow> nat \<Rightarrow> string \<Rightarrow> string" where
  "path_text cap [] first n buf = buf"
| "path_text cap (nid # nids) first n buf =
     (if int cap - int n \<le> 1 then buf
      else let s = (if first then [] else '' -> '') @ dec_text (unat nid)
           in path_text cap nids False (n + length s) (buf @ take (cap - n - 1) s))"

text \<open>For every pin: kind and argument of its log entry, and the text printed; the entries the walk itself logs are not part of the model.\<close>

definition path_arg :: "u16 \<Rightarrow> u32 \<Rightarrow> u16 \<Rightarrow> nat \<Rightarrow> u64" where
  "path_arg nid devkind dac depth =
     push_bit 48 (ucast nid) OR push_bit 40 (ucast devkind) OR push_bit 24 (ucast dac) OR push_bit 16 (of_nat depth)"

definition report_path :: "audiofs_codec \<Rightarrow> audiofs_widget \<Rightarrow> string \<times> u64 \<times> string" where
  "report_path c w =
     (let devkind = defaultconf_device (w_pin_cfg w); (dac, path) = audiofs_path_from_pin c (w_nid w)
      in if dac = 0 then (''path_failed'', ucast (w_nid w), audiofs_pin_device_name devkind)
         else (''path_found'', path_arg (w_nid w) devkind dac (length path), path_text 160 (rev path) True 0 []))"

definition audiofs_find_paths_for_codec :: "audiofs_codec \<Rightarrow> (string \<times> u64 \<times> string) list" where
  "audiofs_find_paths_for_codec c = map (report_path c) (output_pins c)"

section \<open>No path is cut\<close>

lemma length_dec_u16: "length (dec_text (unat (nid :: u16))) \<le> 5"
  using length_dec_text [of "unat nid" 4] unat_lt_size [of nid] by simp

definition joined :: "u16 list \<Rightarrow> bool \<Rightarrow> string" where
  "joined nids first = concat (map (\<lambda>i. (if first \<and> i = 0 then [] else '' -> '') @ dec_text (unat (nids ! i))) [0..<length nids])"

lemma joined_Cons: "joined (x # xs) first = (if first then [] else '' -> '') @ dec_text (unat x) @ joined xs False"
  by (simp add: joined_def upt_conv_Cons map_Suc_upt [symmetric] comp_def del: upt_Suc)

lemma path_text_joined:
  "n + 9 * length nids < cap \<Longrightarrow> path_text cap nids first n buf = buf @ joined nids first"
proof (induction nids arbitrary: first n buf)
  case Nil
  then show ?case by (simp add: joined_def)
next
  case (Cons x xs)
  let ?s = "(if first then [] else '' -> '') @ dec_text (unat x)"
  have l: "length ?s \<le> 9" using length_dec_u16 [of x] by simp
  then have "path_text cap xs False (n + length ?s) (buf @ ?s) = (buf @ ?s) @ joined xs False"
    using Cons.prems by (intro Cons.IH) simp
  moreover have "take (cap - n - 1) ?s = ?s" using l Cons.prems by simp
  ultimately show ?case using Cons.prems by (simp add: joined_Cons Let_def)
qed

lemma path_text_whole:
  "audiofs_path_from_pin c pin = (dac, path) \<Longrightarrow> path_text 160 (rev path) True 0 [] = joined (rev path) True"
  using path_walk_length [of c AUDIOFS_PATH_MAX_DEPTH pin] by (simp add: path_text_joined audiofs_path_from_pin_def)

text \<open>The log argument holds the pin, the converter and the length in separate fields.\<close>

lemma path_arg_fields:
  assumes "devkind \<le> 5" "depth \<le> 8"
  shows "ucast (drop_bit 48 (path_arg nid devkind dac depth)) = nid" "ucast (drop_bit 24 (path_arg nid devkind dac depth)) = dac"
    "unat (take_bit 8 (drop_bit 16 (path_arg nid devkind dac depth))) = depth"
proof -
  have k: "k < 8" if "bit devkind k" for k
  proof -
    have "take_bit 8 (unat devkind) = unat devkind" using assms(1) by (simp add: take_bit_eq_mod word_le_nat_alt)
    moreover have "bit (unat devkind) k" using that bit_imp_le_length [OF that] by (simp add: bit_unsigned_iff)
    ultimately have "bit (take_bit 8 (unat devkind)) k" by simp
    then show ?thesis by (simp add: bit_take_bit_iff)
  qed
  have d: "k < 8" if "bit depth k" for k
  proof -
    have "take_bit 8 depth = depth" using assms(2) by (simp add: take_bit_eq_mod)
    then show ?thesis using that by (metis bit_take_bit_iff)
  qed
  have bits: "bit (path_arg nid devkind dac depth) i \<longleftrightarrow> i < 64 \<and> (48 \<le> i \<and> bit nid (i - 48) \<or> 40 \<le> i \<and> bit devkind (i - 40) \<or>
      24 \<le> i \<and> bit dac (i - 24) \<or> 16 \<le> i \<and> bit depth (i - 16))" for i
    by (auto simp: path_arg_def bit_or_iff bit_push_bit_iff bit_ucast_iff bit_of_nat_iff)
  show "ucast (drop_bit 48 (path_arg nid devkind dac depth)) = nid" 
    by (rule bit_word_eqI) (auto simp: bits bit_ucast_iff bit_drop_bit_eq dest: k d bit_imp_le_length)
  show "ucast (drop_bit 24 (path_arg nid devkind dac depth)) = dac" 
    by (rule bit_word_eqI) (auto simp: bits bit_ucast_iff bit_drop_bit_eq dest: k d)
  show "unat (take_bit 8 (drop_bit 16 (path_arg nid devkind dac depth))) = depth"
    by (rule bit_eqI) (auto simp: bits bit_unsigned_iff bit_take_bit_iff bit_drop_bit_eq dest: k d)
qed

end
