(* ===== verification/Bootcrumb.thy ===== *)
theory Bootcrumb
  imports Awase_Prelude
begin

text \<open>
  \<^verbatim>\<open>bootcrumb.c\<close> of the pgsd kernel: markers of boot progress in EFI variables. The kernel part writes the first two markers and deletes those of the
  previous boot; the third is written from user space, which is a step of the machine here. The firmware's answer to a request is a parameter.
\<close>

section \<open>Variables\<close>

type_synonym efi_vars = "u16 list \<rightharpoonup> byte list"

text \<open>The state of the driver, the variables of its namespace, whether the runtime services are up, and which requests the firmware accepts.\<close>

record bootcrumb =
  bc_bootid :: u64
  bc_enabled :: bool
  bc_rt_ok :: bool
  bc_accepts :: "u16 list \<Rightarrow> byte list \<Rightarrow> bool"
  bc_vars :: efi_vars

text \<open>An accepted request of no bytes deletes the variable.\<close>

definition efi_var_set :: "u16 list \<Rightarrow> byte list \<Rightarrow> bootcrumb \<Rightarrow> bootcrumb" where
  "efi_var_set name data b =
     (if \<not> bc_accepts b name data then b
      else b\<lparr>bc_vars := (bc_vars b)(name := (if data = [] then None else Some data))\<rparr>)"

definition bytes :: "string \<Rightarrow> byte list" where
  "bytes s = map of_char s"

section \<open>The driver\<close>

text \<open>The string written to \<open>dst\<close>, which always ends in a zero.\<close>

definition bootcrumb_widen :: "string \<Rightarrow> nat \<Rightarrow> u16 list" where
  "bootcrumb_widen src dstlen = map of_char (take (dstlen - 1) src) @ [0]"

definition crumb_name :: "string \<Rightarrow> u16 list" where
  "crumb_name stage = bootcrumb_widen (take 31 (''PgsdKernel'' @ stage)) 32"

definition crumb_text :: "u64 \<Rightarrow> string option \<Rightarrow> string" where
  "crumb_text bootid detail = ''boot='' @ dec_text (unat bootid) @ (case detail of None \<Rightarrow> [] | Some d \<Rightarrow> '' '' @ d)"

text \<open>
  The payload is passed with the length \<^verbatim>\<open>snprintf\<close> returns, which is that of the whole text: a text that does not fit in the 128 bytes is read beyond
  them, which has no result.
\<close>

definition bootcrumb_mark :: "string \<Rightarrow> string option \<Rightarrow> bootcrumb \<Rightarrow> bootcrumb option" where
  "bootcrumb_mark stage detail b =
     (if \<not> bc_enabled b then Some b
      else if \<not> bc_rt_ok b then Some b
      else let payload = crumb_text (bc_bootid b) detail
           in if 128 < length payload + 1 then None
              else Some (efi_var_set (crumb_name stage) (bytes payload @ [0]) b))"

definition bootcrumb_clear :: "string \<Rightarrow> bootcrumb \<Rightarrow> bootcrumb" where
  "bootcrumb_clear stage b =
     (if \<not> bc_enabled b then b else if \<not> bc_rt_ok b then b else efi_var_set (crumb_name stage) [] b)"

definition bootcrumb_early :: "u64 \<Rightarrow> bootcrumb \<Rightarrow> bootcrumb option" where
  "bootcrumb_early cyclecount b =
     bootcrumb_mark ''EarlyInit'' None
       (bootcrumb_clear ''RootMounted'' (bootcrumb_clear ''PreMountRoot'' (b\<lparr>bc_bootid := cyclecount\<rparr>)))"

definition bootcrumb_premount :: "bootcrumb \<Rightarrow> bootcrumb option" where
  "bootcrumb_premount b = bootcrumb_mark ''PreMountRoot'' None b"

section \<open>Boots\<close>

text \<open>
  A machine that boots again and again, each time with its own firmware, services and tunable. A boot may end at any point; only the
  variables survive it. The last step is the script on the mounted root, which may or may not manage to write its marker.
\<close>

datatype boot_pc = PowerOn | Drivers | PreMount | RootUp

record machine =
  mc_crumb :: bootcrumb
  mc_pc :: boot_pc

inductive boot_step :: "machine \<Rightarrow> machine \<Rightarrow> bool" where
  boot_early: "mc_pc m = PowerOn \<Longrightarrow> bootcrumb_early cyc (mc_crumb m) = Some b \<Longrightarrow>
    boot_step m (m\<lparr>mc_crumb := b, mc_pc := Drivers\<rparr>)"
| boot_premount: "mc_pc m = Drivers \<Longrightarrow> bootcrumb_premount (mc_crumb m) = Some b \<Longrightarrow>
    boot_step m (m\<lparr>mc_crumb := b, mc_pc := PreMount\<rparr>)"
| boot_root: "mc_pc m = PreMount \<Longrightarrow> data \<noteq> [] \<Longrightarrow>
    b \<in> {mc_crumb m, efi_var_set (crumb_name ''RootMounted'') data (mc_crumb m)} \<Longrightarrow>
    boot_step m (m\<lparr>mc_crumb := b, mc_pc := RootUp\<rparr>)"
| boot_again: "boot_step m \<lparr>mc_crumb = \<lparr>bc_bootid = 0, bc_enabled = en, bc_rt_ok = rt, bc_accepts = fw, bc_vars = bc_vars (mc_crumb m)\<rparr>, mc_pc = PowerOn\<rparr>"

definition machine_new :: machine where
  "machine_new = \<lparr>mc_crumb = \<lparr>bc_bootid = 0, bc_enabled = True, bc_rt_ok = True, bc_accepts = \<lambda>_ _. True, bc_vars = Map.empty\<rparr>, mc_pc = PowerOn\<rparr>"

definition working :: "bootcrumb \<Rightarrow> bool" where
  "working b \<longleftrightarrow> bc_enabled b \<and> bc_rt_ok b \<and> (\<forall>name data. bc_accepts b name data)"

definition this_boot :: "bootcrumb \<Rightarrow> byte list" where
  "this_boot b = bytes (crumb_text (bc_bootid b) None) @ [0]"

text \<open>Once the first marker of a boot with working services is written, the markers say how far this boot has come.\<close>

definition crumbs_ok :: "machine \<Rightarrow> bool" where
  "crumbs_ok m \<longleftrightarrow> (let b = mc_crumb m; var = (\<lambda>s. bc_vars b (crumb_name s)) in
     working b \<and> mc_pc m \<noteq> PowerOn \<longrightarrow>
       var ''EarlyInit'' = Some (this_boot b) \<and>
       var ''PreMountRoot'' = (if mc_pc m = Drivers then None else Some (this_boot b)) \<and>
       (mc_pc m \<noteq> RootUp \<longrightarrow> var ''RootMounted'' = None))"

lemma names_distinct [simp]:
  "crumb_name ''EarlyInit'' \<noteq> crumb_name ''PreMountRoot''" "crumb_name ''EarlyInit'' \<noteq> crumb_name ''RootMounted''"
  "crumb_name ''PreMountRoot'' \<noteq> crumb_name ''RootMounted''" "crumb_name ''PreMountRoot'' \<noteq> crumb_name ''EarlyInit''"
  "crumb_name ''RootMounted'' \<noteq> crumb_name ''EarlyInit''" "crumb_name ''RootMounted'' \<noteq> crumb_name ''PreMountRoot''"
  by (simp_all add: crumb_name_def bootcrumb_widen_def)

text \<open>The payload of a marker without detail fits, and the name of the longest stage is not cut.\<close>

lemma crumb_text_fits: "length (crumb_text bootid None) \<le> 25"
  using length_dec_text [of "unat bootid" 19] unat_lt_size [of bootid] by (simp add: crumb_text_def)

lemma mark_works:
  "working b \<Longrightarrow> bootcrumb_mark stage None b = Some (b\<lparr>bc_vars := (bc_vars b)(crumb_name stage \<mapsto> this_boot b)\<rparr>)"
  using crumb_text_fits [of "bc_bootid b"] by (simp add: bootcrumb_mark_def working_def efi_var_set_def this_boot_def Let_def)

lemma clear_works: "working b \<Longrightarrow> bootcrumb_clear stage b = b\<lparr>bc_vars := (bc_vars b)(crumb_name stage := None)\<rparr>"
  by (simp add: bootcrumb_clear_def working_def efi_var_set_def)

lemma mark_returns: "\<exists>b'. bootcrumb_mark stage None b = Some b' \<and> bc_enabled b' = bc_enabled b \<and> bc_rt_ok b' = bc_rt_ok b \<and> bc_accepts b' = bc_accepts b"
  using crumb_text_fits [of "bc_bootid b"] by (simp add: bootcrumb_mark_def efi_var_set_def Let_def)

lemma clear_keeps [simp]:
  "bc_enabled (bootcrumb_clear stage b) = bc_enabled b" "bc_rt_ok (bootcrumb_clear stage b) = bc_rt_ok b"
  "bc_accepts (bootcrumb_clear stage b) = bc_accepts b" "bc_bootid (bootcrumb_clear stage b) = bc_bootid b"
  by (simp_all add: bootcrumb_clear_def efi_var_set_def)

lemma working_upd [simp]: "working (b\<lparr>bc_vars := v\<rparr>) = working b" "working (b\<lparr>bc_bootid := i\<rparr>) = working b"
  "this_boot (b\<lparr>bc_vars := v\<rparr>) = this_boot b"
  by (simp_all add: working_def this_boot_def)

lemma early_works:
  assumes "bootcrumb_early cyc b = Some b'" "working b'"
  shows "bc_bootid b' = cyc \<and> bc_vars b' = (bc_vars b)(crumb_name ''PreMountRoot'' := None, crumb_name ''RootMounted'' := None,
    crumb_name ''EarlyInit'' \<mapsto> this_boot b')"
proof -
  let ?b = "bootcrumb_clear ''RootMounted'' (bootcrumb_clear ''PreMountRoot'' (b\<lparr>bc_bootid := cyc\<rparr>))"
  have "working b" using mark_returns [of "''EarlyInit''" ?b] assms by (auto simp: bootcrumb_early_def working_def)
  then have "?b = b\<lparr>bc_bootid := cyc, bc_vars := (bc_vars b)(crumb_name ''PreMountRoot'' := None, crumb_name ''RootMounted'' := None)\<rparr>"
    by (simp add: clear_works)
  then show ?thesis using assms(1) \<open>working b\<close> by (auto simp: bootcrumb_early_def mark_works)
qed

lemma var_set_only:
  "\<exists>v. efi_var_set name data b = b\<lparr>bc_vars := v\<rparr> \<and> (\<forall>n. n \<noteq> name \<longrightarrow> v n = bc_vars b n)"
  by (cases "bc_accepts b name data") (auto simp: efi_var_set_def intro: exI [of _ "bc_vars b"])

lemma crumbs_ok_step:
  assumes "boot_step m m'" "crumbs_ok m"
  shows "crumbs_ok m'"
  using assms
proof cases
  case (boot_early cyc b)
  then show ?thesis using early_works [OF boot_early(3)] by (simp add: crumbs_ok_def Let_def)
next
  case (boot_premount b)
  have "working (mc_crumb m)" if "working b"
    using boot_premount(3) mark_returns [of "''PreMountRoot''" "mc_crumb m"] that by (auto simp: bootcrumb_premount_def working_def)
  then show ?thesis using boot_premount assms(2) by (auto simp: crumbs_ok_def Let_def bootcrumb_premount_def mark_works)
next
  case (boot_root data b)
  have "\<exists>v. b = (mc_crumb m)\<lparr>bc_vars := v\<rparr> \<and> (\<forall>n. n \<noteq> crumb_name ''RootMounted'' \<longrightarrow> v n = bc_vars (mc_crumb m) n)"
  proof (cases "b = mc_crumb m")
    case True
    then show ?thesis by (intro exI [of _ "bc_vars b"]) simp
  next
    case False
    then show ?thesis using boot_root(4) var_set_only [of "crumb_name ''RootMounted''" data "mc_crumb m"] by simp
  qed
  then show ?thesis using boot_root(1,2) assms(2) by (auto simp: crumbs_ok_def Let_def)
next
  case (boot_again en rt fw)
  then show ?thesis by (simp add: crumbs_ok_def)
qed

lemma crumbs_ok_steps: "boot_step\<^sup>*\<^sup>* machine_new m \<Longrightarrow> crumbs_ok m"
proof (induction rule: rtranclp_induct)
  case base
  show ?case by (simp add: crumbs_ok_def machine_new_def)
qed (rule crumbs_ok_step)

section \<open>How far a boot came\<close>

text \<open>A boot that comes up completely, and the next one.\<close>

lemma early_returns: "\<exists>b'. bootcrumb_early cyc b = Some b'"
  using mark_returns by (auto simp: bootcrumb_early_def)

lemma full_boot:
  "\<exists>m. boot_step\<^sup>*\<^sup>* machine_new m \<and> mc_pc m = RootUp \<and> working (mc_crumb m) \<and> bc_vars (mc_crumb m) (crumb_name ''RootMounted'') \<noteq> None"
proof -
  obtain b1 where b1: "bootcrumb_early 7 (mc_crumb machine_new) = Some b1" using early_returns by blast
  obtain b2 where b2: "bootcrumb_premount b1 = Some b2" using mark_returns by (auto simp: bootcrumb_premount_def)
  have w: "working b2" using b1 b2 mark_returns [of "''EarlyInit''"] mark_returns [of "''PreMountRoot''" b1]
    by (auto simp: bootcrumb_early_def bootcrumb_premount_def working_def machine_new_def bootcrumb_mark_def bootcrumb_clear_def efi_var_set_def Let_def split: if_splits)
  define b3 where "b3 = efi_var_set (crumb_name ''RootMounted'') [1] b2"
  define m1 m2 m3 where "m1 = machine_new\<lparr>mc_crumb := b1, mc_pc := Drivers\<rparr>" and "m2 = m1\<lparr>mc_crumb := b2, mc_pc := PreMount\<rparr>"
    and "m3 = m2\<lparr>mc_crumb := b3, mc_pc := RootUp\<rparr>"
  have "boot_step machine_new m1" unfolding m1_def by (rule boot_early [OF _ b1]) (simp add: machine_new_def)
  moreover have "boot_step m1 m2" unfolding m2_def by (rule boot_premount) (use b2 in \<open>simp_all add: m1_def\<close>)
  moreover have "boot_step m2 m3" unfolding m3_def by (rule boot_root [where data = "[1]"]) (simp_all add: m2_def b3_def)
  ultimately have "boot_step\<^sup>*\<^sup>* machine_new m3" by (meson rtranclp.rtrancl_into_rtrancl rtranclp.rtrancl_refl)
  moreover have "working b3" "bc_vars b3 (crumb_name ''RootMounted'') \<noteq> None" using w by (simp_all add: b3_def efi_var_set_def working_def)
  ultimately show ?thesis by (intro exI [of _ m3]) (simp add: m3_def)
qed

lemma left_over:
  "\<exists>s. boot_step\<^sup>*\<^sup>* machine_new s \<and> mc_pc s = PowerOn \<and> bc_enabled (mc_crumb s) = en \<and> bc_vars (mc_crumb s) (crumb_name ''RootMounted'') \<noteq> None"
proof -
  obtain f where f: "boot_step\<^sup>*\<^sup>* machine_new f" "bc_vars (mc_crumb f) (crumb_name ''RootMounted'') \<noteq> None" using full_boot by blast
  let ?s = "\<lparr>mc_crumb = \<lparr>bc_bootid = 0, bc_enabled = en, bc_rt_ok = True, bc_accepts = \<lambda>_ _. True, bc_vars = bc_vars (mc_crumb f)\<rparr>, mc_pc = PowerOn\<rparr>"
  have "boot_step\<^sup>*\<^sup>* machine_new ?s" using f(1) boot_again by (rule rtranclp.rtrancl_into_rtrancl)
  then show ?thesis using f(2) by (intro exI [of _ ?s]) simp
qed

lemma left_over_disabled:
  "\<exists>s. boot_step\<^sup>*\<^sup>* machine_new s \<and> mc_pc s = Drivers \<and> \<not> bc_enabled (mc_crumb s) \<and> bc_vars (mc_crumb s) (crumb_name ''RootMounted'') \<noteq> None"
proof -
  obtain s where s: "boot_step\<^sup>*\<^sup>* machine_new s" "mc_pc s = PowerOn" "\<not> bc_enabled (mc_crumb s)" "bc_vars (mc_crumb s) (crumb_name ''RootMounted'') \<noteq> None"
    using left_over [of False] by auto
  let ?s = "s\<lparr>mc_crumb := (mc_crumb s)\<lparr>bc_bootid := 0\<rparr>, mc_pc := Drivers\<rparr>"
  have "boot_step s ?s" by (rule boot_early [where cyc = 0]) (use s in \<open>simp_all add: bootcrumb_early_def bootcrumb_mark_def bootcrumb_clear_def\<close>)
  with s(1) have "boot_step\<^sup>*\<^sup>* machine_new ?s" by (rule rtranclp.rtrancl_into_rtrancl)
  then show ?thesis using s(3,4) by (intro exI [of _ ?s]) simp
qed

text \<open>
  C38. In a boot in which the facility is enabled, the runtime services are up and the firmware accepts the requests, every call returns and from the
  first marker on the markers show how far this boot has come: the first two carry its boot id, and the one of a stage not yet reached is
  absent, whatever earlier boots left. Before that point, and in a boot with the facility disabled, the markers of an earlier boot are still there.
\<close>

theorem bootcrumb_fresh:
  assumes "boot_step\<^sup>*\<^sup>* machine_new m" "working (mc_crumb m)" "mc_pc m \<noteq> PowerOn"
  shows "bc_vars (mc_crumb m) (crumb_name ''EarlyInit'') = Some (bytes (''boot='' @ dec_text (unat (bc_bootid (mc_crumb m)))) @ [0]) \<and>
    bc_vars (mc_crumb m) (crumb_name ''PreMountRoot'') =
      (if mc_pc m = Drivers then None else Some (bytes (''boot='' @ dec_text (unat (bc_bootid (mc_crumb m)))) @ [0])) \<and>
    (bc_vars (mc_crumb m) (crumb_name ''RootMounted'') \<noteq> None \<longrightarrow> mc_pc m = RootUp) \<and>
    (\<forall>cyc b. bootcrumb_early cyc b \<noteq> None \<and> bootcrumb_premount b \<noteq> None) \<and>
    (\<exists>s. boot_step\<^sup>*\<^sup>* machine_new s \<and> mc_pc s = PowerOn \<and> bc_enabled (mc_crumb s) \<and> bc_vars (mc_crumb s) (crumb_name ''RootMounted'') \<noteq> None) \<and>
    (\<exists>s. boot_step\<^sup>*\<^sup>* machine_new s \<and> mc_pc s = Drivers \<and> \<not> bc_enabled (mc_crumb s) \<and> bc_vars (mc_crumb s) (crumb_name ''RootMounted'') \<noteq> None)"
proof -
  have "crumbs_ok m" using assms(1) by (rule crumbs_ok_steps)
  moreover have "bootcrumb_early cyc b \<noteq> None" "bootcrumb_premount b \<noteq> None" for cyc b
    using early_returns [of cyc b] mark_returns [of "''PreMountRoot''" b] by (auto simp: bootcrumb_premount_def)
  ultimately show ?thesis using assms(2,3) left_over [of True] left_over_disabled
    by (auto simp: crumbs_ok_def this_boot_def crumb_text_def Let_def)
qed

theorem bootcrumb_fresh_witness:
  "\<exists>m. boot_step\<^sup>*\<^sup>* machine_new m \<and> mc_pc m = RootUp \<and> bc_vars (mc_crumb m) (crumb_name ''PreMountRoot'') \<noteq> None"
proof -
  obtain m where m: "boot_step\<^sup>*\<^sup>* machine_new m" "mc_pc m = RootUp" "working (mc_crumb m)" using full_boot by blast
  then show ?thesis using bootcrumb_fresh [OF m(1,3)] by (intro exI [of _ m]) simp
qed

end
