(* ===== verification/Spec2Isabelle.thy ===== *)
theory Spec2Isabelle
  imports Drawfs_Properties Drawfs_Drm_Properties Inputfs_Properties Inputfs_Module_Properties Audiofs_Properties
    Audiofs_Codec_Properties Audiofs_Tools_Properties Audiofs_Module Audiofs_Paths Bootcrumb
begin

text \<open>
  \<^bold>\<open>Awase kernel modules: verification development.\<close>

  Awase is a graphics, input and audio stack. Its kernel side is three FreeBSD kernel modules in C:
  drawfs (drawing surfaces), inputfs (input devices) and audiofs (HD Audio output). The modules do not call one another: inputfs reads the display size
  from the control knobs of drawfs, and otherwise they meet in user space, through devices and through files that one side publishes and the other reads (state regions and event rings with sequence numbers).
  This development models the modules as functions and step relations on explicit
  states, translated from the C functions under the names the source gives them, and proves the properties that make them correct.
  What a function gets from the kernel it runs in (results of allocations, file and bus calls, register reads, the
  loader metadata, the HID descriptor parser, the DRM driver, the keyboard layer) is a parameter. Beside the modules it covers the boot markers of the kernel and the readers among the audiofs tools.
\<close>

text \<open>
  \<^bold>\<open>Shared theories.\<close> Locales state what several components share; each is interpreted on the models that provide it.
  \<^item> \<open>Awase_Prelude\<close>: words, byte lists and their access lemmas, the contract of an encoded structure, error numbers, module events, decimal text.
  \<^item> \<open>Bounded_Fifo\<close>: bounded queues (the drawfs event queue, the scancode ring of the keyboard bridge).
  \<^item> \<open>Event_Ring\<close>: a window of fixed size onto an append-only log (1024 events in inputfs, 256 in audiofs), with the
    reader that catches up.
  \<^item> \<open>Event_Notify\<close>: such a ring with a notification device, whose notes become ready with the first event after their registration (inputfs and audiofs).
  \<^item> \<open>Cyclic_Loop\<close>: loops that move a cursor around a ring up to a target (the refill loop of the audio interrupt thread, the
    drain of the codec response ring).
  \<^item> \<open>link_pass\<close> in \<open>Audiofs_Prepare\<close>: a pass of commands over the codecs, with the verbs it may send and those it owes
    (five passes).
\<close>

text \<open>
  \<^bold>\<open>The drawfs module\<close> (\<^verbatim>\<open>src/drawfs/sys/dev/drawfs\<close>).
  A client opens \<^verbatim>\<open>/dev/draw\<close>, writes frames of requests and reads frames of replies and events. A
  session accumulates written bytes, extracts frames, handles the messages of each frame and
  queues replies; surfaces are created under limits and mapped through VM objects.

  \<^item> \<open>Drawfs_Proto\<close>: \<^verbatim>\<open>drawfs_proto.h\<close>, the packed structures with encoders and decoders.
  \<^item> \<open>Drawfs_Frame\<close>: \<^verbatim>\<open>drawfs_frame.c\<close>, frame validation and building.
  \<^item> \<open>Drawfs_Surface\<close>: \<^verbatim>\<open>drawfs_surface.c\<close> and the session record of \<^verbatim>\<open>drawfs_internal.h\<close>.
  \<^item> \<open>Drawfs_Vmobj\<close>: the interleavings of the locked sections of \<^verbatim>\<open>drawfs_surface_get_vmobj\<close> as a step relation.
  \<^item> \<open>Drawfs_Efifb\<close>: \<^verbatim>\<open>drawfs_efifb.c\<close> and the framebuffer ioctls.
  \<^item> \<open>Drawfs_Session\<close>, \<open>Drawfs_Device\<close>: \<^verbatim>\<open>drawfs.c\<close>, the message handlers, the extraction loop and the device entry points.
  \<^item> \<open>Drawfs_Spec\<close>: the abstract reading of a frame as a list of messages.
  \<^item> \<open>Drawfs_Drm\<close>: \<^verbatim>\<open>drawfs_drm.c\<close> and the hooks of the optional DRM build in \<^verbatim>\<open>drawfs.c\<close>. The driver is a function of what it was asked
    before, and a trace records requests, mappings and memory blocks; the presents of several threads, and the closing thread with the completion thread, are step relations.
  \<^item> \<open>Drawfs_Properties\<close>: C1 to C11. A write returns and keeps the session invariant (C1) and refines the abstract reading of the frame (C2); the event queue is
    a bounded queue (C3) read one frame at a time (C4); surfaces are created exactly within the limits (C5); VM references equal holders under every interleaving (C6) and a
    closed session releases them (C7); built frames read back (C8); the clipped framebuffer copy stays inside (C9) and the ioctl does not (C10); injected input reaches the first
    owner of the surface (C11).
  \<^item> \<open>Drawfs_Drm_Properties\<close>: C12 to C14. A display gives back all it took, at whatever step its opening fails and after any presents (C12); a present copies the surface, but for rows of
    three pages (C13); one present is in flight at a time and only the first flip succeeds (C14). Further theorems: closing joins the completion thread, and the backend is never reached.
\<close>

text \<open>
  \<^bold>\<open>The inputfs module\<close> (\<^verbatim>\<open>src/inputfs/sys/dev/inputfs\<close>).
  HID reports arrive in the interrupt handler, which locates and extracts their fields, updates the pointer, the keys or the
  touch contacts, publishes events in a ring that readers map, and feeds a keyboard bridge; a worker thread writes the
  regions to their files.

  \<^item> \<open>Inputfs_State\<close>, \<open>Inputfs_Events\<close>, \<open>Inputfs_Focus\<close>, \<open>Inputfs_Sync\<close>: the published state region with its lock counter and inventory, the event ring (whole
    publications, and the single stores of the writer as a step relation), the regions read from the compositor, and the worker.
  \<^item> \<open>Inputfs_Parser\<close>, \<open>Inputfs_Smooth\<close>, \<open>Inputfs_Kbdmux\<close>: \<^verbatim>\<open>inputfs_parser.c\<close>, \<^verbatim>\<open>inputfs_smooth.c\<close>, \<^verbatim>\<open>inputfs_kbdmux.c\<close>.
  \<^item> \<open>Inputfs_Softc\<close>, \<open>Inputfs_Keyboard\<close>, \<open>Inputfs_Pointer\<close>, \<open>Inputfs_Touch\<close>, \<open>Inputfs_Inventory\<close>, \<open>Inputfs_Driver\<close>: \<^verbatim>\<open>inputfs.c\<close>, the per-device state, the handlers
    of each kind of report, attach and detach, and the whole driver as a step relation.
  \<^item> \<open>Inputfs_Module\<close>, \<open>Inputfs_Kbd_Switch\<close>: the notification device, the life of the worker, load and unload with what they allocate, interleaved; the registration and the detach of
    the bridge's keyboards, and the callbacks of its switch that do nothing.
  \<^item> \<open>Inputfs_Properties\<close>: C15 to C21. Every reachable state is consistent (C15); a reader of the mapped ring never takes a torn event (C16); keyboard, pointer and touch reports have
    their abstract effect (C17, C18, C20), focus is the topmost surface (C19); the scancodes decode to the key transitions (C21). Further theorems: the scancode ring is a queue, consumers miss no event,
    the filters settle and do not overshoot, touch coordinates land on the display.
  \<^item> \<open>Inputfs_Module_Properties\<close>: C22 and C23. Nothing is used after it is freed or kept after unload, and an unload can be finished (C22); the events file can stay marked
    invalid after load (C23). A further theorem: keyboards the keyboard layer refuses to release dangle.
\<close>

text \<open>
  \<^bold>\<open>The audiofs module\<close> (\<^verbatim>\<open>src/audiofs/sys/dev/audiofs\<close>).
  At attach the driver resets the controller, brings up the command rings, walks and prepares the codecs and publishes the
  endpoints it found. A client opens the device, sets a format and writes samples into a ring; an interrupt thread refills the
  DMA buffer fragment by fragment, counts underruns and advances a clock; events and the state region are published in files.

  \<^item> \<open>Audiofs_Codec\<close>: widgets and codecs, the path from a pin to its converter, the choice of the output converter.
  \<^item> \<open>Audiofs_Link\<close>, \<open>Audiofs_Topology\<close>, \<open>Audiofs_Prepare\<close>: reset, DMA memory, command and response rings, commands; enumeration and walk of the
    codecs; power, GPIO, pins, amplifiers and converter formats. The hardware is a function of the verbs sent and of the number of
    the read.
  \<^item> \<open>Audiofs_Ring\<close>: the ring of user samples, with the passes of \<^verbatim>\<open>audiofs_cdev_write\<close> interleaved over any number of threads.
  \<^item> \<open>Audiofs_State\<close>, \<open>Audiofs_Events\<close>, \<open>Audiofs_Region\<close>: the controller record, the state region and its rewrites, the event ring.
  \<^item> \<open>Audiofs_Stream\<close>, \<open>Audiofs_Refill\<close>, \<open>Audiofs_Interrupt\<close>, \<open>Audiofs_Lifecycle\<close>, \<open>Audiofs_Format\<close>: stream start and end, the device entry points, the refill
    loop, the interrupt thread, the step relation over any number of controllers, and format changes.
  \<^item> \<open>Audiofs_Attach\<close>: attach with its error labels and detach, as a ledger of what the controller holds of the kernel.
  \<^item> \<open>Audiofs_Module\<close>: the notification device, probe, power methods and module events. \<open>Audiofs_Log\<close>, \<open>Audiofs_Paths\<close>: the diagnostic log and the report of the paths found.
  \<^item> \<open>Audiofs_Tools\<close>: the event dump and the clock sample of \<^verbatim>\<open>src/audiofs/tools\<close>.
  \<^item> \<open>Audiofs_Properties\<close>: C24 to C33. The sample ring with one writer is a queue (C24), with two it overruns (C25); the interrupt thread refills exactly what
    was played (C26); every reachable state is consistent (C27); attach is all or nothing, but for bus mastering (C28); a format change has three outcomes (C29); the converter is the first best
    one (C30); event consumers that poll in time miss none (C31); the state file is well formed (C32) but renumbers its endpoints (C33).
  \<^item> \<open>Audiofs_Codec_Properties\<close>: C34 to C36. The preparation sends what the topology calls for, in order (C34); bring-up, enumeration and walk return and
    stay in bounds (C35); commands return their answer (C36). Further theorems: a late answer is taken for another command's, connection lists are decoded, the log shows its last 256 entries.
  \<^item> \<open>Audiofs_Tools_Properties\<close>: C37. The event dump shows what a reader receives except the newest event.
\<close>

text \<open>
  \<^bold>\<open>Boot markers\<close> (\<^verbatim>\<open>src/pgsd-kernel/sys/dev/bootcrumb/bootcrumb.c\<close>): \<open>Bootcrumb\<close>, any sequence of boots of a machine whose EFI variables survive. The markers
  of a boot with working services say how far it has come (C38).

  \<^bold>\<open>Across the modules\<close>, in this theory: inputfs takes its display from drawfs (C39), and both notification devices wake exactly the consumers that have something to read (C40).
\<close>

text \<open>
  \<^bold>\<open>Bounds and loops.\<close> Machine integers keep their width; where a model uses numbers the invariant bounds them. Loops of the source that need not end
  are \<^verbatim>\<open>partial_function (option)\<close>, with theorems that say when they return: the message loop and the extraction loop of drawfs always, the refill loop for
  positions inside the buffer, the drain of the response ring for pointers inside the ring. The waits of the source count down, as in the
  source (10000 reads per command and per reset phase, 1000 power polls). The loop of a sample write takes at most four steps per byte and four more, which is the fuel of
  its sequential form. Sequence numbers are 64-bit and the theorems about them assume fewer than \<open>2 ^ 64\<close> events (at most 69 per report).

  \<^bold>\<open>Concurrency.\<close> A section under one lock is one step. Interleavings are modelled where the code leaves the lock: the VM object acquisition of drawfs, the byte stores of
  the inputfs ring and the worker's file writes, the inputfs worker against load and unload, the DRM presents and the join of their completion thread, and the passes of audiofs writers. Concurrent writers of one drawfs session, and interrupts between the register accesses
  of one audiofs section, are not.

  \<^bold>\<open>Not modelled.\<close> The sysctl trees, which only name variables; diagnostic printing and the calls that only write to the diagnostic log; the argument loops of the tools that pass one request on and
  the tone generator, which computes in floating point; the fuzz harness, interface files the kernel build generates, and the user-space programs, which are not in C.
\<close>

section \<open>The display drawfs reports and inputfs uses\<close>

text \<open>
  C39. When the loader describes a framebuffer of positive sizes below \<open>2 ^ 31\<close>, an inputfs module loaded after drawfs takes exactly that size for the display and starts with
  the pointer at its centre, inside it; this also holds when mapping the framebuffer failed. Without a description it falls back to
  1024 by 768 and marks the geometry as unknown.
\<close>

theorem geometry_shared:
  assumes "drawfs_efifb_init kmdp meta vaddr = (err, st)" "efifb_sysctls st = (w, h, s, b)"
    and "mod_load (Some w) (Some h) (Some s) (Some b) 0 g = Inr g'"
  shows "(\<forall>ef. kmdp \<and> meta = Some ef \<and> 0 < uint (ef_width ef) \<and> uint (ef_width ef) < 2 ^ 31 \<and> 0 < uint (ef_height ef) \<and>
        uint (ef_height ef) < 2 ^ 31 \<longrightarrow>
      err = (if vaddr = 0 then ENOMEM else 0) \<and> screen_ok g' \<and> geom_width g' = ef_width ef \<and> geom_height g' = ef_height ef \<and> on_screen g' \<and>
      ptr_x g' = uint (ef_width ef) div 2 \<and> ptr_y g' = uint (ef_height ef) div 2) \<and>
    (\<not> kmdp \<or> meta = None \<longrightarrow> err = ENODEV \<and> \<not> geom_known g' \<and> geom_width g' = 1024 \<and> geom_height g' = 768)"
proof -
  have z: "length (inputfs_state_init_buf (replicate INPUTFS_STATE_SIZE 0)) = INPUTFS_STATE_SIZE"
    by (simp add: inputfs_state_init_buf_def Let_def header_access)
  have c1: "err = (if vaddr = 0 then ENOMEM else 0) \<and> screen_ok g' \<and> geom_width g' = ef_width ef \<and> geom_height g' = ef_height ef \<and> on_screen g' \<and>
      ptr_x g' = uint (ef_width ef) div 2 \<and> ptr_y g' = uint (ef_height ef) div 2"
    if ef: "kmdp" "meta = Some ef" "0 < uint (ef_width ef)" "uint (ef_width ef) < 2 ^ 31" "0 < uint (ef_height ef)"
      "uint (ef_height ef) < 2 ^ 31" for ef
  proof -
    have st: "fb_width st = ef_width ef" "fb_height st = ef_height ef" "err = (if vaddr = 0 then ENOMEM else 0)"
      using assms(1) ef(1,2) by (auto simp: drawfs_efifb_init_def Let_def split: if_splits)
    have wh: "w = ef_width ef" "h = ef_height ef"
      using assms(2) st(1,2) by (auto simp: efifb_sysctls_def drawfs_efifb_width_def drawfs_efifb_height_def)
    have pos: "0 < ef_width ef" "0 < ef_height ef" using ef(3,5) by (auto simp: word_less_def)
    have g: "geom_known g'" "geom_width g' = ef_width ef" "geom_height g' = ef_height ef"
      using assms(3) pos by (auto simp: wh mod_load_def mod_init_def mod_valid_def inputfs_geom_read_def inputfs_state_apply_geom_def Let_def)
    have b: "state_buf g' = blit (blit (blit (inputfs_state_init_buf (replicate INPUTFS_STATE_SIZE 0)) 48 [1])
        32 (put32 (ef_width ef div 2))) 36 (put32 (ef_height ef div 2))"
      using z assms(3) pos by (auto simp: wh mod_load_def mod_init_def mod_valid_def inputfs_geom_read_def inputfs_state_apply_geom_def Let_def
          header_access put_i32_blit)
    have p: "ptr_x g' = uint (ef_width ef) div 2" "ptr_y g' = uint (ef_height ef) div 2"
      unfolding ptr_x_def ptr_y_def b using z by (simp_all add: get_blit_same get_blit_other sint_half)
    have "k div 2 < k" if "0 < k" for k :: int using that by simp
    then show ?thesis using p g st(3) ef(3-6) by (simp add: screen_ok_def on_screen_def)
  qed
  have c2: "err = ENODEV \<and> \<not> geom_known g' \<and> geom_width g' = 1024 \<and> geom_height g' = 768" if "\<not> kmdp \<or> meta = None"
  proof -
    have st: "err = ENODEV" "st = efifb_zero" using assms(1) that by (auto simp: drawfs_efifb_init_def split: if_splits)
    have "w = 0" using assms(2) by (simp add: st(2) efifb_sysctls_def drawfs_efifb_width_def efifb_zero_def)
    then have "\<not> geom_known g' \<and> geom_width g' = 1024 \<and> geom_height g' = 768" using assms(3)
      by (auto simp: mod_load_def mod_init_def mod_valid_def inputfs_geom_read_def inputfs_state_apply_geom_def Let_def)
    then show ?thesis using st(1) by simp
  qed
  show ?thesis using c1 c2 by blast
qed

theorem geometry_shared_witness:
  "\<exists>st g'. drawfs_efifb_init True (Some \<lparr>ef_addr = 2147483648, ef_width = 1920, ef_height = 1080, ef_stride = 1920, ef_mask_red = 16711680,
       ef_mask_green = 65280, ef_mask_blue = 255, ef_mask_reserved = 4278190080\<rparr>) 0 = (ENOMEM, st) \<and>
     mod_load (Some (drawfs_efifb_width st)) (Some (drawfs_efifb_height st)) (Some (drawfs_efifb_stride st)) (Some (drawfs_efifb_bpp st)) 0
       (bss_globals (\<lambda>k. (of_nat k, 0))) = Inr g' \<and> on_screen g' \<and> ptr_x g' = 960"
proof -
  let ?ef = "\<lparr>ef_addr = 2147483648, ef_width = 1920, ef_height = 1080, ef_stride = 1920, ef_mask_red = 16711680,
       ef_mask_green = 65280, ef_mask_blue = 255, ef_mask_reserved = 4278190080\<rparr>"
  obtain st where st: "drawfs_efifb_init True (Some ?ef) 0 = (ENOMEM, st)" by (simp add: drawfs_efifb_init_def Let_def)
  obtain g' where g': "mod_load (Some (drawfs_efifb_width st)) (Some (drawfs_efifb_height st)) (Some (drawfs_efifb_stride st))
      (Some (drawfs_efifb_bpp st)) 0 (bss_globals (\<lambda>k. (of_nat k, 0))) = Inr g'" by (simp add: mod_load_def Let_def)
  from geometry_shared [OF st efifb_sysctls_def g'] have "on_screen g' \<and> ptr_x g' = 960" by simp
  then show ?thesis using st g' by blast
qed

section \<open>The notification devices\<close>



end
